(* ===== verification/Prelude.thy ===== *)
theory Prelude
  imports Main "HOL-Library.Word"
begin

unbundle bit_operations_syntax

text \<open>
  Shared vocabulary of the development: machine integer types, the ways a C++ operation
  can fail, the binding of failing operations, facts on power-of-two masks (ring
  indices), and list facts on FIFO queues.

  \<^item> \<^verbatim>\<open>uint16_t, uint32_t, uint64_t\<close> are the words \<open>u16\<close>, \<open>u32\<close>, \<open>u64\<close>; an
    \<^verbatim>\<open>int32_t\<close> return code is an \<open>int\<close>.
  \<^item> A failed \<^verbatim>\<open>STABLE_INFRA_ASSERT\<close> (include/util/macros_func.h) ends the process, an
    access outside a vector or an empty deque is undefined behaviour, a call of an empty
    \<^verbatim>\<open>std::function\<close> throws: each is a value of \<open>fault\<close>.
  \<^item> A loop around a system call takes the kernel's answers from a list; \<open>Blocked\<close> says
    that the list ended before the loop did.
\<close>

type_synonym u16 = "16 word"
type_synonym u32 = "32 word"
type_synonym u64 = "64 word"

named_theorems faults \<open>the binding of failing operations\<close>
named_theorems masks \<open>power-of-two index arithmetic\<close>

datatype fault =
    Assert_Exit          \<comment> \<open>\<^verbatim>\<open>STABLE_INFRA_ASSERT\<close> failed: \<^verbatim>\<open>std::exit(-1)\<close>\<close>
  | Out_Of_Bounds        \<comment> \<open>index outside a vector or array\<close>
  | Empty_Deque          \<comment> \<open>\<^verbatim>\<open>front\<close> or \<^verbatim>\<open>pop_front\<close> on an empty deque\<close>
  | Null_Deref           \<comment> \<open>dereference of a null pointer\<close>
  | Use_After_Free       \<comment> \<open>dereference of a deleted object\<close>
  | Bad_Function_Call    \<comment> \<open>call of an empty \<^verbatim>\<open>std::function\<close>\<close>
  | Bad_Free             \<comment> \<open>\<^verbatim>\<open>free\<close> of memory that \<^verbatim>\<open>malloc\<close> did not return\<close>
  | Bad_Iterator         \<comment> \<open>use of an iterator whose element was erased\<close>
  | Std_Terminate        \<comment> \<open>\<^verbatim>\<open>std::terminate\<close>, as for a joinable \<^verbatim>\<open>std::thread\<close> that is destroyed\<close>
  | Bad_Resume           \<comment> \<open>\<^verbatim>\<open>resume\<close> of a coroutine that has finished\<close>
  | Data_Race            \<comment> \<open>two conflicting plain accesses of which neither happens before the other\<close>
  | Blocked              \<comment> \<open>the loop has not returned: it runs on, or waits for the kernel\<close>

type_synonym 'a result = "fault + 'a"

definition bindE :: "'a result \<Rightarrow> ('a \<Rightarrow> 'b result) \<Rightarrow> 'b result" where
  "bindE m f = (case m of Inl e \<Rightarrow> Inl e | Inr x \<Rightarrow> f x)"

definition assertE :: "bool \<Rightarrow> unit result" where
  "assertE b = (if b then Inr () else Inl Assert_Exit)"

text \<open>The value of a loop modelled as a partial function.\<close>

definition returnsE :: "'a option \<Rightarrow> 'a result" where
  "returnsE m = (case m of None \<Rightarrow> Inl Blocked | Some x \<Rightarrow> Inr x)"

lemma returnsE_simps [simp, faults]: "returnsE None = Inl Blocked" "returnsE (Some x) = Inr x"
  by (simp_all add: returnsE_def)

lemma bindE_simps [simp, faults]:
  "bindE (Inl e) f = Inl e" "bindE (Inr x) f = f x"
  by (simp_all add: bindE_def)

lemma bindE_Inr_iff [faults]: "bindE m f = Inr y \<longleftrightarrow> (\<exists>x. m = Inr x \<and> f x = Inr y)"
  by (cases m) (auto simp: bindE_def)

lemma bindE_InrE:
  assumes "bindE m f = Inr y"
  obtains x where "m = Inr x" and "f x = Inr y"
  using assms by (auto simp: bindE_Inr_iff)

lemma bindE_assoc: "bindE (bindE m f) g = bindE m (\<lambda>x. bindE (f x) g)"
  by (cases m) simp_all

lemma assertE_simps [simp, faults]:
  "assertE True = Inr ()" "assertE False = Inl Assert_Exit" "(assertE b = Inr u) = b"
  by (simp_all add: assertE_def)

subsection \<open>Fixed-width conversions\<close>

text \<open>
  \<open>i32_of_u32\<close> is the conversion of a \<^verbatim>\<open>uint32_t\<close> result to an \<^verbatim>\<open>int32_t\<close> return value;
  \<open>INT32_MAX\<close> is the marker the library returns for "would block".
\<close>

definition i32_of_u32 :: "u32 \<Rightarrow> int" where
  "i32_of_u32 w = sint w"

definition INT32_MAX :: int where
  "INT32_MAX = 2147483647"

definition UINT64_MAX :: u64 where
  "UINT64_MAX = - 1"

definition UINT32_MAX :: u32 where
  "UINT32_MAX = - 1"

lemma i32_of_u32_small:
  assumes "n < 2 ^ 31"
  shows "i32_of_u32 (word_of_nat n) = int n"
  using assms by (simp add: i32_of_u32_def signed_of_nat signed_take_bit_int_eq_self)

lemma unat_ucast_u32_u64 [simp]: "unat (ucast (c :: u32) :: u64) = unat c"
proof -
  have "unat c < 2 ^ LENGTH(32)" by (rule unsigned_less)
  then have "unat c < 2 ^ 64" by simp
  then show ?thesis by (simp add: unsigned_ucast_eq take_bit_nat_eq_self)
qed

lemma unat_u32_less: "unat (c :: u32) < 2 ^ 32"
  using unsigned_less [of c, where ?'a = nat] by simp

lemma unat_u64_less: "unat (c :: u64) < 2 ^ 64"
  using unsigned_less [of c, where ?'a = nat] by simp

lemma unat_add_small:
  fixes a :: u64
  assumes "unat a + k < 2 ^ 64"
  shows "unat (a + word_of_nat k) = unat a + k"
proof -
  have "unat (word_of_nat k :: u64) = k"
    using assms by (simp add: unsigned_of_nat take_bit_nat_eq_self)
  then show ?thesis using assms by (simp add: unat_plus_if')
qed

subsection \<open>Power-of-two masks\<close>

lemma unat_power_two [masks]:
  assumes "k < 64"
  shows "unat (2 ^ k :: u64) = 2 ^ k"
proof -
  have "(2 :: nat) ^ k < 2 ^ 64"
    using assms by (intro power_strict_increasing) auto
  moreover have "(2 ^ k :: u64) = word_of_nat (2 ^ k)" by simp
  ultimately show ?thesis
    by (simp only: unsigned_of_nat) (simp add: take_bit_eq_mod)
qed

lemma unat_mask_mod [masks]:
  fixes i :: u64
  assumes "unat n = 2 ^ k"
  shows "unat (i AND (n - 1)) = unat i mod 2 ^ k"
proof -
  have n: "n = word_of_nat (2 ^ k)"
    using assms by (metis of_nat_unat ucast_id)
  have "i AND (n - 1) = take_bit k i"
    by (simp add: n take_bit_eq_mask mask_eq_exp_minus_1)
  then have "unat (i AND (n - 1)) = take_bit k (unat i)"
    by (simp only: unsigned_take_bit_eq)
  then show ?thesis
    by (simp only: take_bit_eq_mod)
qed

text \<open>The distance of two free-running 64-bit indices, as long as it stays below \<open>2 ^ 64\<close>.\<close>

lemma unat_diff_index [masks]:
  fixes r w :: u64
  assumes "r \<le> w"
  shows "unat (w - r) = unat w - unat r"
  using assms by (simp add: unat_sub)

lemma top_bit_ivl:
  fixes n :: u64
  assumes "2 ^ k \<le> unat n" "unat n < 2 ^ (k + 1)"
  shows "bit n k"
proof -
  have "unat n div 2 ^ k = 1"
    using assms by (intro div_nat_eqI) auto
  then have "bit (unat n) k" by (simp add: bit_iff_odd)
  then show ?thesis by (simp add: bit_unsigned_iff)
qed

lemma word_ivl:
  fixes n :: u64
  assumes "n \<noteq> 0"
  obtains k where "k < 64" "2 ^ k \<le> unat n" "unat n < 2 ^ (k + 1)"
proof -
  obtain k where k: "2 ^ k \<le> unat n" "unat n < 2 ^ (k + 1)"
    using assms ex_power_ivl1 [of 2 "unat n"] by (auto simp: Suc_le_eq unat_gt_0)
  have "unat n < 2 ^ LENGTH(64)" by (rule unsigned_less)
  then have "(2 :: nat) ^ k < 2 ^ 64" using k(1) by simp
  then have "k < 64" by (rule power_less_imp_less_exp [rotated]) simp
  with k that show thesis by blast
qed

lemma mask_zero_power_two:
  fixes n :: u64
  assumes "n \<noteq> 0" "n AND (n - 1) = 0"
  obtains k where "k < 64" "n = 2 ^ k"
proof -
  obtain k where k: "k < 64" "2 ^ k \<le> unat n" "unat n < 2 ^ (k + 1)"
    using word_ivl [OF assms(1)] .
  have n1: "unat (n - 1) = unat n - 1" using assms(1) by (simp add: unat_minus_one)
  have "\<not> bit (n - 1) k"
    using top_bit_ivl [OF k(2,3)] assms(2) by (metis bit_0_eq bit_and_iff bot_apply bot_bool_def)
  then have "unat n = 2 ^ k"
    using top_bit_ivl [of k "n - 1"] k n1 by linarith
  then have "n = 2 ^ k" using unat_power_two [OF k(1)] by (metis unsigned_word_eqI)
  with k(1) that show thesis by blast
qed

lemma power_two_mask_zero:
  assumes "k < 64"
  shows "(2 ^ k :: u64) AND (2 ^ k - 1) = 0"
proof -
  have "(2 ^ k :: u64) - 1 = mask k" by (simp add: mask_eq_exp_minus_1)
  moreover have "mask k AND (2 ^ k :: u64) = 0"
    by (simp only: and_exp_eq_0_iff_not_bit) (simp add: bit_mask_iff)
  ultimately show ?thesis by (simp add: and.commute)
qed

subsection \<open>Index arithmetic modulo the ring size\<close>

lemma mod_add_once:
  fixes s d n :: nat
  assumes "0 < n" "d \<le> n"
  shows "(s + d) mod n = (if s mod n + d < n then s mod n + d else s mod n + d - n)"
proof -
  have b: "s mod n < n" using assms(1) by simp
  have "(s + d) mod n = (s mod n + d) mod n" by (simp add: mod_add_left_eq)
  also have "\<dots> = (if s mod n + d < n then s mod n + d else s mod n + d - n)"
  proof (cases "s mod n + d < n")
    case False
    then have "(s mod n + d) mod n = (s mod n + d - n) mod n" by (simp add: le_mod_geq)
    also have "\<dots> = s mod n + d - n" using b assms(2) False by (intro mod_less) linarith
    finally show ?thesis using False by simp
  qed simp
  finally show ?thesis .
qed

lemma mod_neq_within:
  fixes i w n :: nat
  assumes "i < w" "w < i + n"
  shows "i mod n \<noteq> w mod n"
proof
  assume "i mod n = w mod n"
  then have "n dvd w - i" using assms(1) by (metis less_imp_le mod_eq_dvd_iff_nat)
  then show False using assms by (auto dest: dvd_imp_le)
qed

subsection \<open>Lists\<close>

lemma dropWhile_all_then: "(\<forall>x\<in>set xs. P x) \<Longrightarrow> \<not> P y \<Longrightarrow> dropWhile P (xs @ y # ys) = y # ys"
  by (induction xs) auto

lemma takeWhile_all_then: "(\<forall>x\<in>set xs. P x) \<Longrightarrow> \<not> P y \<Longrightarrow> takeWhile P (xs @ y # ys) = xs"
  by (induction xs) auto

lemma drop_update_here: "p < length xs \<Longrightarrow> drop p (xs[p := x]) = x # drop (Suc p) xs"
  by (simp add: drop_update_swap flip: Cons_nth_drop_Suc)

end
