(* ===== verification/Type_Def.thy ===== *)
theory Type_Def
  imports Prelude
begin

text \<open>
  The library's public types (a trailing underscore of a member name is dropped): include/type_def.h, include/common/internal_type_def.h and
  \<^verbatim>\<open>fd_t::close\<close> of source/event/event_common.cpp. An \<^verbatim>\<open>iovec\<close> is a base address and a
  length; \<open>iov_addrs\<close> lists the byte addresses an array of them covers, in order.
\<close>

record iovec =
  iov_base :: nat
  iov_len :: nat

definition mk_iovec :: "nat \<Rightarrow> nat \<Rightarrow> iovec" where
  "mk_iovec b l = \<lparr>iov_base = b, iov_len = l\<rparr>"

datatype FD_TYPE =
    TCP_FD | UDP_FD | FILE_FD | ACCEPT_FD | EVENT_FD | TIMER_FD | SIGNAL_FD | INOTIFY_FD
  | UDS_STREAM_FD | UDS_DGRAM_FD | UNKNOWN_FD

text \<open>The numeric values of \<^verbatim>\<open>enum class FD_TYPE : uint32_t\<close>.\<close>

fun fd_type_code :: "FD_TYPE \<Rightarrow> u32" where
  "fd_type_code TCP_FD = 1"
| "fd_type_code UDP_FD = 2"
| "fd_type_code FILE_FD = 3"
| "fd_type_code ACCEPT_FD = 4"
| "fd_type_code EVENT_FD = 5"
| "fd_type_code TIMER_FD = 6"
| "fd_type_code SIGNAL_FD = 7"
| "fd_type_code INOTIFY_FD = 8"
| "fd_type_code UDS_STREAM_FD = 9"
| "fd_type_code UDS_DGRAM_FD = 10"
| "fd_type_code UNKNOWN_FD = 100"

definition INVALID_FD :: int where
  "INVALID_FD = - 1"

record fd_t =
  fd_num :: int
  fd_type :: FD_TYPE

definition fd_default :: fd_t where
  "fd_default = \<lparr>fd_num = INVALID_FD, fd_type = UNKNOWN_FD\<rparr>"

definition mk_fd :: "int \<Rightarrow> FD_TYPE \<Rightarrow> fd_t" where
  "mk_fd f t = \<lparr>fd_num = f, fd_type = t\<rparr>"

definition fd_is_valid :: "fd_t \<Rightarrow> bool" where
  "fd_is_valid f \<longleftrightarrow> 0 \<le> fd_num f"

text \<open>
  \<^verbatim>\<open>fd_t::close\<close>: the descriptor is closed through \<^verbatim>\<open>util_closesocket\<close>, whose result is
  ignored, and the object is reset. The third component lists the descriptors handed to
  \<^verbatim>\<open>close(2)\<close>.
\<close>

definition fd_close :: "fd_t \<Rightarrow> int \<times> fd_t \<times> int list" where
  "fd_close f =
     (if fd_num f = INVALID_FD then (- 1, f, [])
      else (0, f\<lparr>fd_num := INVALID_FD, fd_type := UNKNOWN_FD\<rparr>, [fd_num f]))"

text \<open>A descriptor used as a key of type \<^verbatim>\<open>uint32_t\<close> (\<^verbatim>\<open>operator int32_t\<close>, then the conversion).\<close>

definition fd_key :: "fd_t \<Rightarrow> nat" where
  "fd_key f = unat (word_of_int (fd_num f) :: u32)"

lemma fd_key_valid:
  assumes "0 \<le> fd_num f" and "fd_num f < 2 ^ 31"
  shows "fd_key f = nat (fd_num f)"
  using assms by (simp add: fd_key_def unsigned_of_int take_bit_int_eq_self)

record read_options =
  ro_offset :: u64
  ro_is_submit :: bool
  ro_need_socket_detail :: bool

definition read_options_default :: read_options where
  "read_options_default =
     \<lparr>ro_offset = UINT64_MAX, ro_is_submit = True, ro_need_socket_detail = False\<rparr>"

definition ro_set_offset :: "u64 \<Rightarrow> read_options \<Rightarrow> read_options" where
  "ro_set_offset v o' = o'\<lparr>ro_offset := v\<rparr>"

definition ro_set_submit :: "bool \<Rightarrow> read_options \<Rightarrow> read_options" where
  "ro_set_submit v o' = o'\<lparr>ro_is_submit := v\<rparr>"

definition ro_set_need_socket_detail :: "bool \<Rightarrow> read_options \<Rightarrow> read_options" where
  "ro_set_need_socket_detail v o' = o'\<lparr>ro_need_socket_detail := v\<rparr>"

text \<open>A \<^verbatim>\<open>sockaddr_storage*\<close> is an address, \<open>None\<close> the null pointer.\<close>

record write_options =
  wo_offset :: u64
  wo_is_submit :: bool
  wo_sockaddr_ptr :: "nat option"

definition write_options_default :: write_options where
  "write_options_default =
     \<lparr>wo_offset = UINT64_MAX, wo_is_submit = True, wo_sockaddr_ptr = None\<rparr>"

definition wo_set_offset :: "u64 \<Rightarrow> write_options \<Rightarrow> write_options" where
  "wo_set_offset v o' = o'\<lparr>wo_offset := v\<rparr>"

definition wo_set_submit :: "bool \<Rightarrow> write_options \<Rightarrow> write_options" where
  "wo_set_submit v o' = o'\<lparr>wo_is_submit := v\<rparr>"

definition wo_set_sockaddr :: "nat option \<Rightarrow> write_options \<Rightarrow> write_options" where
  "wo_set_sockaddr v o' = o'\<lparr>wo_sockaddr_ptr := v\<rparr>"

record poll_param =
  polling_ms :: int
  entry_cnt :: u32
  poll_type :: u32

definition poll_param_default :: poll_param where
  "poll_param_default = \<lparr>polling_ms = - 1, entry_cnt = 128, poll_type = UINT32_MAX\<rparr>"

text \<open>The event bits of \<^verbatim>\<open>enum class EVENT : uint16_t\<close>.\<close>

definition EV_READ :: u16 where "EV_READ = 1"
definition EV_WRITE :: u16 where "EV_WRITE = 2"
definition EV_CLOSE :: u16 where "EV_CLOSE = 4"
definition EV_ERR :: u16 where "EV_ERR = 8"
definition EV_ET :: u16 where "EV_ET = 16"

lemmas ev_bits = EV_READ_def EV_WRITE_def EV_CLOSE_def EV_ERR_def EV_ET_def

subsection \<open>Answers of the kernel\<close>

text \<open>
  A system call answers with a non-negative value or with \<^verbatim>\<open>-1\<close> and \<^verbatim>\<open>errno\<close>; for
  \<^verbatim>\<open>recvmmsg\<close> the answer also carries the message lengths the kernel stores. On Linux
  \<^verbatim>\<open>EWOULDBLOCK\<close> is \<^verbatim>\<open>EAGAIN\<close>.
\<close>

datatype errno =
    EAGAIN | EINTR | ENOENT | EEXIST | EBADF | EPERM | EINPROGRESS | ECANCELED | EALREADY
  | EOTHER nat

datatype sysret = SysOk nat "nat list" | SysErr errno

subsection \<open>The bytes of a buffer array\<close>

definition iov_region :: "iovec \<Rightarrow> nat list" where
  "iov_region v = [iov_base v ..< iov_base v + iov_len v]"

definition iov_addrs :: "iovec list \<Rightarrow> nat list" where
  "iov_addrs vs = concat (map iov_region vs)"

definition iov_total :: "iovec list \<Rightarrow> nat" where
  "iov_total vs = sum_list (map iov_len vs)"

lemma length_iov_region [simp]: "length (iov_region v) = iov_len v"
  by (simp add: iov_region_def)

lemma iov_addrs_simps [simp]:
  "iov_addrs [] = []"
  "iov_addrs (v # vs) = iov_region v @ iov_addrs vs"
  by (simp_all add: iov_addrs_def)

lemma iov_total_simps [simp]:
  "iov_total [] = 0"
  "iov_total (v # vs) = iov_len v + iov_total vs"
  by (simp_all add: iov_total_def)

lemma length_iov_addrs [simp]: "length (iov_addrs vs) = iov_total vs"
  by (induction vs) simp_all

end
