(* ===== verification/Util.thy ===== *)
theory Util
  imports Type_Def
begin

text \<open>
  source/util/util.cpp and include/util/util.h: powers of two, the scatter/gather cursor
  \<^verbatim>\<open>move_iov\<close>, string splitting and the thin wrappers around \<^verbatim>\<open>fcntl\<close>, \<^verbatim>\<open>setsockopt\<close>,
  \<^verbatim>\<open>fstat\<close> and the aligned allocators, whose answers are arguments.
\<close>

subsection \<open>Powers of two\<close>

definition is_power_of_2 :: "u64 \<Rightarrow> bool" where
  "is_power_of_2 n \<longleftrightarrow> n \<noteq> 0 \<and> n AND (n - 1) = 0"

text \<open>
  The loop \<^verbatim>\<open>while((andv & val) == 0) andv = andv>>1;\<close>. It runs forever when \<^verbatim>\<open>andv\<close>
  reaches 0, so it is a partial function.
\<close>

partial_function (option) roundup_loop :: "u64 \<Rightarrow> u64 \<Rightarrow> u64 option" where
  "roundup_loop val andv =
     (if andv AND val = 0 then roundup_loop val (drop_bit 1 andv) else Some andv)"

definition roundup_power_of_two :: "u64 \<Rightarrow> u64 option" where
  "roundup_power_of_two val =
     (if val AND (val - 1) = 0 then Some val
      else
        let maxulong = NOT (0 :: u64);
            andv = NOT (maxulong AND drop_bit 1 maxulong)
        in map_option (push_bit 1) (roundup_loop val andv))"

definition roundup_align :: "u64 \<Rightarrow> u64 \<Rightarrow> u64" where
  "roundup_align val align_size = (val + align_size - 1) AND NOT (align_size - 1)"

subsection \<open>Scatter/gather cursor\<close>

text \<open>
  \<^verbatim>\<open>move_iov\<close> advances the cursor \<^verbatim>\<open>iov\<close> over an array by \<^verbatim>\<open>move_size\<close> bytes. The array
  is a list, the cursor an index \<open>p\<close> into it, and \<open>cnt\<close> is \<^verbatim>\<open>iov_cnt\<close>; the element the
  cursor stops in is shortened in place.
\<close>

fun move_iov_loop :: "nat \<Rightarrow> iovec list \<Rightarrow> nat \<Rightarrow> nat \<Rightarrow> nat \<Rightarrow> int \<times> iovec list \<times> nat \<times> nat" where
  "move_iov_loop 0 arr p cnt move_size = (- 1, arr, p, cnt)"
| "move_iov_loop (Suc i) arr p cnt move_size =
     (if iov_len (arr ! p) \<le> move_size
      then move_iov_loop i arr (p + 1) (cnt - 1) (move_size - iov_len (arr ! p))
      else (0, arr[p := \<lparr>iov_base = iov_base (arr ! p) + move_size,
                         iov_len = iov_len (arr ! p) - move_size\<rparr>], p, cnt))"

definition move_iov :: "iovec list \<Rightarrow> nat \<Rightarrow> nat \<Rightarrow> nat \<Rightarrow> int \<times> iovec list \<times> nat \<times> nat" where
  "move_iov arr p cnt move_size =
     (if cnt = 0 then (- 1, arr, p, cnt) else move_iov_loop cnt arr p cnt move_size)"

subsection \<open>Descriptor flags, socket options, allocation\<close>

text \<open>
  \<open>getfl\<close> and \<open>setfl\<close> are the answers of \<^verbatim>\<open>fcntl(F_GETFD / F_GETFL)\<close> and of
  \<^verbatim>\<open>fcntl(F_SETFD / F_SETFL)\<close>. The result lists the flags passed to the second call.
\<close>

definition FD_CLOEXEC :: u32 where "FD_CLOEXEC = 1"
definition O_NONBLOCK :: u32 where "O_NONBLOCK = 2048"

definition util_make_fd_close_on_exec :: "int \<Rightarrow> int \<Rightarrow> int \<times> u32 list" where
  "util_make_fd_close_on_exec getfl setfl =
     (if getfl < 0 then (- 1, [])
      else
        let flags = word_of_int getfl :: u32
        in if flags AND FD_CLOEXEC = 0
           then (if setfl = - 1 then (- 1, [flags OR FD_CLOEXEC]) else (0, [flags OR FD_CLOEXEC]))
           else (0, []))"

definition util_make_fd_nonblocking :: "int \<Rightarrow> int \<Rightarrow> int \<times> u32 list" where
  "util_make_fd_nonblocking getfl setfl =
     (if getfl < 0 then (- 1, [])
      else
        let flags = word_of_int getfl :: u32
        in if flags AND O_NONBLOCK = 0
           then (if setfl = - 1 then (- 1, [flags OR O_NONBLOCK]) else (0, [flags OR O_NONBLOCK]))
           else (0, []))"

definition util_closesocket :: "int \<Rightarrow> int" where
  "util_closesocket close_ret = (if close_ret \<noteq> 0 then - 1 else 0)"

definition util_make_listen_socket_reuseable :: "int \<Rightarrow> int \<Rightarrow> int" where
  "util_make_listen_socket_reuseable fd setsockopt_ret =
     (if \<not> 0 < fd then - 1 else if setsockopt_ret \<noteq> 0 then - 1 else 0)"

definition util_make_listen_socket_reuseable_port :: "int \<Rightarrow> int \<Rightarrow> int" where
  "util_make_listen_socket_reuseable_port fd setsockopt_ret =
     (if \<not> 0 < fd then - 1 else if setsockopt_ret \<noteq> 0 then - 1 else 0)"

text \<open>
  \<^verbatim>\<open>get_fd_type\<close>: \<open>is_sock\<close> is \<^verbatim>\<open>S_ISSOCK(st.st_mode)\<close> when \<^verbatim>\<open>fstat\<close> succeeds,
  \<open>so_type\<close> the \<^verbatim>\<open>SO_TYPE\<close> option when \<^verbatim>\<open>getsockopt\<close> succeeds.
\<close>

datatype sock_type = SOCK_STREAM | SOCK_DGRAM | SOCK_OTHER

definition get_fd_type :: "bool option \<Rightarrow> sock_type option \<Rightarrow> FD_TYPE" where
  "get_fd_type is_sock so_type =
     (case is_sock of
        None \<Rightarrow> UNKNOWN_FD
      | Some False \<Rightarrow> FILE_FD
      | Some True \<Rightarrow>
          (case so_type of
             Some SOCK_STREAM \<Rightarrow> TCP_FD
           | Some SOCK_DGRAM \<Rightarrow> UDP_FD
           | _ \<Rightarrow> UNKNOWN_FD))"

text \<open>\<open>mem\<close> is the allocator's answer for the requested size and alignment, \<open>None\<close> its failure.\<close>

definition alloc_aligned_mem :: "(u64 \<Rightarrow> u64 \<Rightarrow> nat option) \<Rightarrow> u64 \<Rightarrow> u64 \<Rightarrow> nat option" where
  "alloc_aligned_mem mem buffer_size align_size =
     (if \<not> is_power_of_2 align_size then None else mem align_size buffer_size)"

subsection \<open>String splitting\<close>

text \<open>
  \<^verbatim>\<open>split\<close> is a \<^verbatim>\<open>strtok\<close> loop: \<^verbatim>\<open>strtok\<close> skips leading delimiter characters and
  returns the longest run of other characters, or null at the end.
\<close>

definition strtok :: "string \<Rightarrow> string \<Rightarrow> (string \<times> string) option" where
  "strtok s delim =
     (let s' = dropWhile (\<lambda>c. c \<in> set delim) s
      in if s' = [] then None
         else Some (takeWhile (\<lambda>c. c \<notin> set delim) s', dropWhile (\<lambda>c. c \<notin> set delim) s'))"

lemma strtok_SomeD:
  assumes "strtok s d = Some (tok, rest)"
  obtains c cs where "dropWhile (\<lambda>c. c \<in> set d) s = c # cs" and "c \<notin> set d"
    and "tok = c # takeWhile (\<lambda>c. c \<notin> set d) cs" and "rest = dropWhile (\<lambda>c. c \<notin> set d) cs"
proof -
  from assms have ne: "dropWhile (\<lambda>c. c \<in> set d) s \<noteq> []"
    by (auto simp: strtok_def Let_def simp del: dropWhile_eq_Nil_conv split: if_splits)
  then obtain c cs where s': "dropWhile (\<lambda>c. c \<in> set d) s = c # cs"
    by (cases "dropWhile (\<lambda>c. c \<in> set d) s") auto
  then have "c \<notin> set d" using hd_dropWhile [OF ne] by simp
  with assms s' show thesis by (intro that [OF s']) (auto simp: strtok_def)
qed

lemma strtok_shorter:
  assumes "strtok s d = Some (tok, rest)"
  shows "length rest < length s"
proof -
  from assms obtain c cs where s': "dropWhile (\<lambda>c. c \<in> set d) s = c # cs"
    and rest: "rest = dropWhile (\<lambda>c. c \<notin> set d) cs"
    by (rule strtok_SomeD)
  have "length rest \<le> length cs" by (simp add: rest length_dropWhile_le)
  also have "length cs < length s"
    using length_dropWhile_le [of "\<lambda>c. c \<in> set d" s] s' by simp
  finally show ?thesis .
qed

function split :: "string \<Rightarrow> string \<Rightarrow> string list" where
  "split s delim =
     (case strtok s delim of None \<Rightarrow> [] | Some (tok, rest) \<Rightarrow> tok # split rest delim)"
  by pat_completeness auto
termination
  by (relation "measure (\<lambda>(s, d). length s)") (auto dest: strtok_shorter)

declare split.simps [simp del]

text \<open>Joining tokens with one delimiter character, the inverse direction.\<close>

fun join_with :: "char \<Rightarrow> string list \<Rightarrow> string" where
  "join_with c [] = []"
| "join_with c [t] = t"
| "join_with c (t # ts) = t @ c # join_with c ts"


subsection \<open>Powers of two: correctness\<close>

lemma is_power_of_2_iff: "is_power_of_2 n \<longleftrightarrow> (\<exists>k<64. n = 2 ^ k)"
proof
  assume "is_power_of_2 n"
  then show "\<exists>k<64. n = 2 ^ k"
    unfolding is_power_of_2_def by (metis mask_zero_power_two)
next
  assume "\<exists>k<64. n = 2 ^ k"
  then obtain k where k: "k < 64" "n = 2 ^ k" by blast
  then have "unat n \<noteq> 0" by (simp add: unat_power_two)
  then show "is_power_of_2 n"
    using k by (auto simp: is_power_of_2_def power_two_mask_zero)
qed

lemma roundup_loop_hit:
  assumes "bit val j" "\<And>i. j < i \<Longrightarrow> i \<le> k \<Longrightarrow> \<not> bit val i" "j \<le> k" "k < 64"
  shows "roundup_loop val (2 ^ k) = Some (2 ^ j)"
  using assms
proof (induction k)
  case 0
  then show ?case
    by (subst roundup_loop.simps) (auto simp: bit_0 one_and_eq odd_iff_mod_2_eq_one)
next
  case (Suc k)
  have hit: "(2 ^ Suc k AND val = 0) \<longleftrightarrow> \<not> bit val (Suc k)"
    by (subst and.commute) (simp only: and_exp_eq_0_iff_not_bit)
  show ?case
  proof (cases "j = Suc k")
    case True
    then show ?thesis using Suc.prems hit by (subst roundup_loop.simps) simp
  next
    case False
    have "drop_bit 1 (2 ^ Suc k :: u64) = 2 ^ k"
      using drop_bit_exp_eq [of 1 "Suc k", where 'a = "64 word"] Suc.prems(4) by simp
    then show ?thesis using Suc hit False by (subst roundup_loop.simps) simp
  qed
qed

lemma roundup_top: "NOT (NOT (0 :: u64) AND drop_bit 1 (NOT 0)) = 2 ^ 63"
proof -
  have "NOT (0 :: u64) AND drop_bit 1 (NOT 0) = mask 63"
    by (intro bit_eqI) (auto simp: bit_simps)
  moreover have "NOT (mask 63 :: u64) = 2 ^ 63"
    by (simp add: mask_eq_exp_minus_1)
  ultimately show ?thesis by simp
qed

lemma roundup_split:
  fixes val :: u64
  assumes "2 ^ k \<le> unat val" "unat val < 2 ^ (k + 1)" "k < 64" "val AND (val - 1) \<noteq> 0"
  shows "roundup_power_of_two val = Some (2 ^ (k + 1))"
proof -
  have "\<not> bit val i" if "k < i" for i
  proof -
    have "(2::nat) ^ (k + 1) \<le> 2 ^ i" using that by (intro power_increasing) auto
    then have "unat val div 2 ^ i = 0" using assms(2) by (simp add: div_less)
    then have "\<not> bit (unat val) i" by (simp only: bit_iff_odd) simp
    then show ?thesis by (auto simp: bit_unsigned_iff dest: bit_imp_le_length)
  qed
  then have "roundup_loop val (2 ^ 63) = Some (2 ^ k)"
    using assms top_bit_ivl [OF assms(1,2)] by (intro roundup_loop_hit) auto
  then show ?thesis using assms(4) roundup_top
    by (simp only: roundup_power_of_two_def Let_def if_False) (simp add: push_bit_eq_mult)
qed

lemma roundup_power_of_two_cases:
  "\<exists>r. roundup_power_of_two val = Some r \<and>
       (if unat val = 0 \<or> 2 ^ 63 < unat val then r = 0
        else is_power_of_2 r \<and> val \<le> r \<and> unat r < 2 * unat val)"
proof (cases "val AND (val - 1) = 0")
  case True
  then have r: "roundup_power_of_two val = Some val" by (simp add: roundup_power_of_two_def)
  show ?thesis
  proof (cases "val = 0")
    case False
    then obtain k where k: "k < 64" "val = 2 ^ k" using True by (rule mask_zero_power_two)
    have "unat val = 2 ^ k" using k by (simp add: unat_power_two)
    moreover have "(2::nat) ^ k \<le> 2 ^ 63" using k(1) by (intro power_increasing) auto
    ultimately show ?thesis using r False True by (auto simp: is_power_of_2_def)
  qed (use r in simp)
next
  case False
  then have nz: "val \<noteq> 0" by auto
  then obtain k where k: "k < 64" "2 ^ k \<le> unat val" "unat val < 2 ^ (k + 1)"
    by (rule word_ivl)
  have r: "roundup_power_of_two val = Some (2 ^ (k + 1))"
    using k False by (intro roundup_split) auto
  have ne: "unat val \<noteq> 2 ^ k"
    using False power_two_mask_zero [OF k(1)] unat_power_two [OF k(1)]
    by (metis unsigned_word_eqI)
  show ?thesis
  proof (cases "k = 63")
    case True
    then show ?thesis using r k ne by simp
  next
    case False
    then have u: "unat (2 ^ (k + 1) :: u64) = 2 ^ (k + 1)" and k1: "k + 1 < 64"
      using k(1) by (auto intro!: unat_power_two simp del: power_Suc)
    have "(2::nat) ^ (k + 1) \<le> 2 ^ 63" using k1 by (intro power_increasing) auto
    then have "unat val < 2 ^ 63" using k(3) by linarith
    moreover have "val \<le> 2 ^ (k + 1)" using k(3) u by (simp add: word_le_nat_alt)
    moreover have "unat (2 ^ (k + 1) :: u64) < 2 * unat val" using u k(2) ne by simp
    moreover have "is_power_of_2 (2 ^ (k + 1))" using k1 is_power_of_2_iff by blast
    ultimately show ?thesis using r nz by (auto simp: unat_gt_0)
  qed
qed

lemma roundup_align_spec:
  assumes "is_power_of_2 a" "unat val + unat a \<le> 2 ^ 64"
  shows "unat (roundup_align val a) = unat a * ((unat val + unat a - 1) div unat a)"
proof -
  obtain k where k: "k < 64" "a = 2 ^ k" using assms(1) is_power_of_2_iff by blast
  have ua: "unat a = 2 ^ k" using k by (simp add: unat_power_two)
  let ?x = "val + a - 1"
  have a1: "unat (a - 1) = unat a - 1" using ua by (intro unat_minus_one) auto
  have "unat (val + (a - 1)) = unat val + unat (a - 1)"
    using assms(2) ua a1 by (intro unat_plus_simple [THEN iffD1]) (simp add: no_olen_add_nat)
  then have ux: "unat ?x = unat val + unat a - 1"
    using ua a1 by (simp add: algebra_simps)
  have "?x AND NOT (a - 1) = ?x - take_bit k ?x"
  proof -
    have "?x - take_bit k ?x = ?x AND NOT (take_bit k ?x)"
      by (rule disjunctive_diff_eq_and_not) (auto intro!: bit_eqI simp: bit_simps)
    also have "\<dots> = ?x AND NOT (mask k)"
      by (auto intro!: bit_eqI simp: bit_simps)
    finally show ?thesis by (simp add: k flip: mask_eq_exp_minus_1)
  qed
  moreover have "take_bit k ?x \<le> ?x" by (simp add: take_bit_eq_mask word_and_le2)
  ultimately have "unat (roundup_align val a) = unat ?x - unat (take_bit k ?x)"
    by (simp add: roundup_align_def unat_sub)
  also have "unat (take_bit k ?x) = unat ?x mod 2 ^ k"
    by (simp only: unsigned_take_bit_eq) (simp only: take_bit_eq_mod)
  finally show ?thesis
    using ux ua by (simp add: minus_mod_eq_mult_div)
qed

subsection \<open>The cursor: correctness\<close>

lemma drop_iov_region:
  assumes "m \<le> iov_len v"
  shows "iov_region \<lparr>iov_base = iov_base v + m, iov_len = iov_len v - m\<rparr> = drop m (iov_region v)"
  using assms by (simp add: iov_region_def drop_upt)

lemma move_iov_loop_spec:
  assumes "move_iov_loop i arr p cnt m = (r, arr', p', cnt')" and "i = cnt" and "p + cnt = length arr"
  shows "iov_addrs (drop p' arr') = drop m (iov_addrs (drop p arr)) \<and>
         p' + cnt' = length arr' \<and> length arr' = length arr \<and>
         (if iov_total (drop p arr) \<le> m then r = - 1 \<and> cnt' = 0 else r = 0 \<and> 0 < cnt')"
  using assms
proof (induction i arr p cnt m rule: move_iov_loop.induct)
  case (1 arr p cnt m)
  then show ?case by simp
next
  case (2 i arr p cnt m)
  from "2.prems" have p: "p < length arr" and d: "drop p arr = arr ! p # drop (p + 1) arr"
    by (simp_all add: Cons_nth_drop_Suc)
  show ?case
  proof (cases "iov_len (arr ! p) \<le> m")
    case True
    with "2.prems"(1) have "move_iov_loop i arr (p + 1) (cnt - 1) (m - iov_len (arr ! p)) = (r, arr', p', cnt')"
      by simp
    from "2.IH" [OF True this] "2.prems"
    have "iov_addrs (drop p' arr') = drop (m - iov_len (arr ! p)) (iov_addrs (drop (p + 1) arr)) \<and>
         p' + cnt' = length arr' \<and> length arr' = length arr \<and>
         (if iov_total (drop (p + 1) arr) \<le> m - iov_len (arr ! p)
          then r = - 1 \<and> cnt' = 0 else r = 0 \<and> 0 < cnt')"
      by linarith
    then show ?thesis using True unfolding d by (auto split: if_splits)
  next
    case False
    then show ?thesis using 2 p d by (auto simp: drop_iov_region drop_update_here)
  qed
qed

lemma move_iov_remaining:
  assumes "move_iov arr p cnt m = (r, arr', p', cnt')" and "p + cnt = length arr"
  shows "iov_addrs (drop p' arr') = drop m (iov_addrs (drop p arr)) \<and>
         p' + cnt' = length arr' \<and> length arr' = length arr \<and>
         (if iov_total (drop p arr) \<le> m then r = - 1 \<and> cnt' = 0 else r = 0 \<and> 0 < cnt')"
proof (cases "cnt = 0")
  case True
  with assms show ?thesis by (auto simp: move_iov_def)
next
  case False
  with assms show ?thesis by (intro move_iov_loop_spec) (auto simp: move_iov_def)
qed

text \<open>Elements in front of the cursor are not written.\<close>

lemma move_iov_loop_front:
  assumes "move_iov_loop i arr p cnt m = (r, arr', p', cnt')" and "j < p"
  shows "arr' ! j = arr ! j"
  using assms by (induction i arr p cnt m rule: move_iov_loop.induct) (auto split: if_splits)

subsection \<open>Splitting: correctness\<close>

lemma split_step:
  assumes "strtok s d = Some (tok, rest)"
  shows "tok \<noteq> [] \<and> set tok \<inter> set d = {} \<and>
         filter (\<lambda>c. c \<notin> set d) s = tok @ filter (\<lambda>c. c \<notin> set d) rest"
proof -
  let ?P = "\<lambda>c. c \<notin> set d"
  from assms obtain c cs where s': "dropWhile (\<lambda>c. c \<in> set d) s = c # cs" "c \<notin> set d"
    and tok: "tok = c # takeWhile ?P cs" and rest: "rest = dropWhile ?P cs"
    by (rule strtok_SomeD)
  have "filter ?P s = filter ?P (takeWhile (\<lambda>c. c \<in> set d) s) @ filter ?P (c # cs)"
    unfolding s'(1) [symmetric] filter_append [symmetric] by simp
  also have "filter ?P (takeWhile (\<lambda>c. c \<in> set d) s) = []"
    by (auto simp: filter_empty_conv dest: set_takeWhileD)
  also have "filter ?P (c # cs) = c # filter ?P (takeWhile ?P cs) @ filter ?P rest"
    using s'(2) unfolding rest filter_append [symmetric] by simp
  also have "filter ?P (takeWhile ?P cs) = takeWhile ?P cs"
    by (auto simp: filter_id_conv dest: set_takeWhileD)
  finally show ?thesis using s'(2) tok by (auto dest: set_takeWhileD)
qed

lemma strtok_None:
  assumes "strtok s d = None"
  shows "filter (\<lambda>c. c \<notin> set d) s = []"
  using assms by (auto simp: strtok_def Let_def filter_empty_conv split: if_splits)

lemma split_tokens:
  "concat (split s d) = filter (\<lambda>c. c \<notin> set d) s \<and>
   list_all (\<lambda>tok. tok \<noteq> [] \<and> set tok \<inter> set d = {}) (split s d)"
proof (induction s d rule: split.induct)
  case (1 s d)
  show ?case
  proof (cases "strtok s d")
    case None
    then show ?thesis by (subst (1 2) split.simps) (simp add: strtok_None)
  next
    case (Some q)
    obtain tok rest where q: "q = (tok, rest)" by (cases q)
    with Some have st: "strtok s d = Some (tok, rest)" by simp
    from 1 [OF Some q [symmetric]] split_step [OF st]
    show ?thesis by (subst (1 2) split.simps) (simp add: st)
  qed
qed

lemma strtok_join:
  assumes "t \<noteq> []" "c \<notin> set t"
  shows "strtok (t @ c # s) [c] = Some (t, c # s)"
  using assms by (cases t) (auto simp: strtok_def intro!: dropWhile_all_then takeWhile_all_then)

lemma strtok_skip: "strtok (c # s) [c] = strtok s [c]"
  by (simp add: strtok_def)

lemma split_skip: "split (c # s) [c] = split s [c]"
  by (subst (1 2) split.simps) (simp add: strtok_skip)

text \<open>
  \<^verbatim>\<open>split\<close> inverts joining: non-empty tokens that do not contain the delimiter
  character come back unchanged and in order (the tcp and udp code splits
  \<^verbatim>\<open>"ip:port"\<close> this way).
\<close>

theorem split_join_inverse:
  assumes "list_all (\<lambda>t. t \<noteq> [] \<and> c \<notin> set t) ts"
  shows "split (join_with c ts) [c] = ts"
  using assms
proof (induction c ts rule: join_with.induct)
  case (1 c)
  show ?case by (subst split.simps) (simp add: strtok_def)
next
  case (2 c t)
  have "strtok t [c] = Some (t, [])"
    using 2 by (cases t) (auto simp: strtok_def takeWhile_eq_all_conv)
  moreover have "split [] [c] = []" by (subst split.simps) (simp add: strtok_def)
  ultimately show ?case by (subst split.simps) simp
next
  case (3 c t u ts)
  then have "strtok (t @ c # join_with c (u # ts)) [c] = Some (t, c # join_with c (u # ts))"
    by (intro strtok_join) auto
  then show ?case using 3 by (subst join_with.simps, subst split.simps) (simp add: split_skip)
qed

theorem split_join_inverse_witness:
  "split ''127.0.0.1:8080'' '':'' = [''127.0.0.1'', ''8080'']"
  using split_join_inverse [of "CHR '':''" "[''127.0.0.1'', ''8080'']"] by simp

text \<open>
  \<^verbatim>\<open>roundup_power_of_two\<close> always returns. For 1 up to \<open>2 ^ 63\<close> the result is the
  power of two in \<open>[val, 2 * val)\<close>; for 0 and above \<open>2 ^ 63\<close> the shift leaves 0.
\<close>

theorem roundup_power_of_two_spec:
  "\<exists>r. roundup_power_of_two val = Some r \<and>
       (if unat val = 0 \<or> 2 ^ 63 < unat val then r = 0
        else (\<exists>k. k < 64 \<and> r = 2 ^ k) \<and> val \<le> r \<and> unat r < 2 * unat val)"
  using roundup_power_of_two_cases [of val] unfolding is_power_of_2_iff .

text \<open>
  \<^verbatim>\<open>move_iov\<close> on a cursor at index \<open>p\<close> of an array of \<open>p + cnt\<close> elements: the
  bytes left in front of the cursor are exactly those that were there, less the first
  \<open>m\<close>; the result is \<^verbatim>\<open>-1\<close> exactly when nothing is left.
\<close>

theorem move_iov_spec:
  assumes "move_iov arr p cnt m = (r, arr', p', cnt')" and "p + cnt = length arr"
  shows "iov_addrs (drop p' arr') = drop m (iov_addrs (drop p arr)) \<and>
         p' + cnt' = length arr' \<and> length arr' = length arr \<and>
         (if iov_total (drop p arr) \<le> m then r = - 1 \<and> cnt' = 0 else r = 0 \<and> 0 < cnt')"
  using assms by (rule move_iov_remaining)

theorem move_iov_spec_witness:
  "iov_addrs (drop 1 [mk_iovec 0 2, mk_iovec 101 1]) = drop 3 (iov_addrs [mk_iovec 0 2, mk_iovec 100 2])"
  using move_iov_spec [of "[mk_iovec 0 2, mk_iovec 100 2]" 0 2 3 0 "[mk_iovec 0 2, mk_iovec 101 1]" 1 1]
  by (simp add: move_iov_def mk_iovec_def numeral_2_eq_2)

end
