(* ===== verification/Opt_Map.thy ===== *)
theory Opt_Map
  imports Prelude
begin

text \<open>
  include/data_struct/opt_map.h: a table from unsigned keys to pointers, a vector for keys
  below the template argument \<^verbatim>\<open>ARRAY_SIZE\<close> (here the argument \<open>n\<close>) and a hash map for the
  others. A pointer is an \<open>option\<close>, \<open>None\<close> the null pointer; the hash map may hold a null
  pointer, because \<^verbatim>\<open>operator[]\<close> creates one. The locale \<open>fd_table\<close> is the contract the
  event loops and the coroutine service rely on; it is interpreted on the table below.
\<close>

subsection \<open>The table\<close>

record 'v opt_map =
  vec :: "'v option list"
  hmap :: "nat \<Rightarrow> 'v option option"

definition opt_map_empty :: "nat \<Rightarrow> 'v opt_map" where
  "opt_map_empty n = \<lparr>vec = replicate n None, hmap = (\<lambda>_. None)\<rparr>"

definition opt_map_find :: "nat \<Rightarrow> 'v opt_map \<Rightarrow> nat \<Rightarrow> 'v option" where
  "opt_map_find n m key =
     (if key < n then vec m ! key
      else case hmap m key of Some v \<Rightarrow> v | None \<Rightarrow> None)"

definition opt_map_insert :: "nat \<Rightarrow> 'v opt_map \<Rightarrow> nat \<Rightarrow> 'v option \<Rightarrow> bool \<times> 'v opt_map" where
  "opt_map_insert n m key val =
     (if val = None then (False, m)
      else if key < n
        then (if vec m ! key = None then (True, m\<lparr>vec := (vec m)[key := val]\<rparr>) else (False, m))
      else if hmap m key = None
        then (True, m\<lparr>hmap := (hmap m)(key \<mapsto> val)\<rparr>)
      else (False, m))"

definition opt_map_erase :: "nat \<Rightarrow> 'v opt_map \<Rightarrow> nat \<Rightarrow> 'v opt_map" where
  "opt_map_erase n m key =
     (if key < n then m\<lparr>vec := (vec m)[key := None]\<rparr>
      else m\<lparr>hmap := (hmap m)(key := None)\<rparr>)"

text \<open>\<^verbatim>\<open>operator[]\<close> used as a value: a missing key of the hash map is created with a null pointer.\<close>

definition opt_map_index :: "nat \<Rightarrow> 'v opt_map \<Rightarrow> nat \<Rightarrow> 'v option \<times> 'v opt_map" where
  "opt_map_index n m key =
     (if key < n then (vec m ! key, m)
      else case hmap m key of
             Some v \<Rightarrow> (v, m)
           | None \<Rightarrow> (None, m\<lparr>hmap := (hmap m)(key \<mapsto> None)\<rparr>))"

definition opt_map_clear :: "nat \<Rightarrow> 'v opt_map \<Rightarrow> 'v opt_map" where
  "opt_map_clear n m = m\<lparr>vec := replicate n None, hmap := (\<lambda>_. None)\<rparr>"

text \<open>
  The invariant: the vector has its full size, the hash map holds only keys beyond it, and
  no entry of the hash map is null.
\<close>

definition opt_map_wf :: "nat \<Rightarrow> 'v opt_map \<Rightarrow> bool" where
  "opt_map_wf n m \<longleftrightarrow> length (vec m) = n \<and> (\<forall>k. hmap m k \<noteq> None \<longrightarrow> n \<le> k \<and> hmap m k \<noteq> Some None)"

subsection \<open>The contract\<close>

text \<open>
  A table of objects by descriptor: a partial map seen through \<open>tfind\<close>, in which an insert
  succeeds exactly for a new key and a non-null object.
\<close>

locale fd_table =
  fixes tvalid :: "'t \<Rightarrow> bool"
    and tempty :: 't
    and tfind :: "'t \<Rightarrow> nat \<Rightarrow> 'v option"
    and tinsert :: "'t \<Rightarrow> nat \<Rightarrow> 'v option \<Rightarrow> bool \<times> 't"
    and terase :: "'t \<Rightarrow> nat \<Rightarrow> 't"
    and tclear :: "'t \<Rightarrow> 't"
  assumes tempty_valid: "tvalid tempty"
    and tfind_tempty: "tfind tempty k = None"
    and tinsert_valid: "tvalid t \<Longrightarrow> tvalid (snd (tinsert t k v))"
    and tinsert_ok: "tvalid t \<Longrightarrow> fst (tinsert t k v) \<longleftrightarrow> v \<noteq> None \<and> tfind t k = None"
    and tfind_tinsert:
      "tvalid t \<Longrightarrow> tfind (snd (tinsert t k v)) k' =
         (if fst (tinsert t k v) \<and> k' = k then v else tfind t k')"
    and terase_valid: "tvalid t \<Longrightarrow> tvalid (terase t k)"
    and tfind_terase: "tvalid t \<Longrightarrow> tfind (terase t k) k' = (if k' = k then None else tfind t k')"
    and tclear_valid: "tvalid t \<Longrightarrow> tvalid (tclear t)"
    and tfind_tclear: "tfind (tclear t) k = None"
begin

lemma tinsert_abs:
  assumes "tvalid t"
  shows "tfind (snd (tinsert t k (Some v))) =
           (if tfind t k = None then (tfind t)(k \<mapsto> v) else tfind t)"
  using assms by (auto simp: tfind_tinsert tinsert_ok fun_eq_iff)

lemma terase_abs:
  assumes "tvalid t"
  shows "tfind (terase t k) = (tfind t)(k := None)"
  using assms by (auto simp: tfind_terase)

text \<open>The find-or-create pattern: a missing object is inserted, and the insert cannot fail.\<close>

lemma find_or_create:
  assumes "tvalid t" and "tfind t k = None"
  shows "fst (tinsert t k (Some v))" and "tfind (snd (tinsert t k (Some v))) k = Some v"
    and "k' \<noteq> k \<Longrightarrow> tfind (snd (tinsert t k (Some v))) k' = tfind t k'"
    and "tvalid (snd (tinsert t k (Some v)))"
  using assms by (simp_all add: tinsert_ok tfind_tinsert tinsert_valid)

lemma erase_then_insert:
  assumes "tvalid t"
  shows "tfind (snd (tinsert (terase t k) k (Some v))) = (tfind t)(k \<mapsto> v)"
  using assms by (simp add: tinsert_abs terase_abs terase_valid)

end

subsection \<open>The table meets the contract\<close>

lemma opt_map_find_insert:
  assumes "opt_map_wf n m"
  shows "fst (opt_map_insert n m k v) \<longleftrightarrow> v \<noteq> None \<and> opt_map_find n m k = None"
    and "opt_map_find n (snd (opt_map_insert n m k v)) k' =
           (if fst (opt_map_insert n m k v) \<and> k' = k then v else opt_map_find n m k')"
    and "opt_map_wf n (snd (opt_map_insert n m k v))"
  using assms
  by (auto simp: opt_map_insert_def opt_map_find_def opt_map_wf_def nth_list_update split: option.splits)

lemma opt_map_find_erase:
  assumes "opt_map_wf n m"
  shows "opt_map_find n (opt_map_erase n m k) k' = (if k' = k then None else opt_map_find n m k')"
    and "opt_map_wf n (opt_map_erase n m k)"
  using assms
  by (auto simp: opt_map_erase_def opt_map_find_def opt_map_wf_def nth_list_update split: option.splits)

lemma opt_map_find_clear:
  "opt_map_find n (opt_map_clear n m) k = None" "opt_map_wf n (opt_map_clear n m)"
  "opt_map_find n (opt_map_empty n) k = None" "opt_map_wf n (opt_map_empty n)"
  by (simp_all add: opt_map_find_def opt_map_clear_def opt_map_empty_def opt_map_wf_def)

interpretation om: fd_table "opt_map_wf n" "opt_map_empty n" "opt_map_find n" "opt_map_insert n"
    "opt_map_erase n" "opt_map_clear n" for n
  by unfold_locales (simp_all add: opt_map_find_clear opt_map_find_insert opt_map_find_erase)

lemmas om_simps = opt_map_find_clear opt_map_find_insert opt_map_find_erase

subsection \<open>Properties\<close>

text \<open>
  C29. \<^verbatim>\<open>opt_map\<close> implements a partial map. Read through \<^verbatim>\<open>find\<close>, \<^verbatim>\<open>insert\<close> of a non-null
  pointer adds a missing key and leaves a present one alone, \<^verbatim>\<open>erase\<close> removes the key,
  \<^verbatim>\<open>clear\<close> removes all, whichever of the two stores the key falls in, and all of them
  keep the invariant.
\<close>

theorem opt_map_refines_map:
  assumes "opt_map_wf n m"
  shows "opt_map_find n (snd (opt_map_insert n m k (Some v))) =
           (if opt_map_find n m k = None then (opt_map_find n m)(k \<mapsto> v) else opt_map_find n m) \<and>
         opt_map_find n (opt_map_erase n m k) = (opt_map_find n m)(k := None) \<and>
         opt_map_find n (opt_map_clear n m) = Map.empty \<and>
         opt_map_wf n (snd (opt_map_insert n m k (Some v))) \<and>
         opt_map_wf n (opt_map_erase n m k) \<and> opt_map_wf n (opt_map_clear n m)"
  using assms by (simp add: om.tinsert_abs om.terase_abs om_simps fun_eq_iff)

theorem opt_map_refines_map_witness:
  "opt_map_find 4 (snd (opt_map_insert 4 (opt_map_empty 4) 9 (Some ''x''))) = [9 \<mapsto> ''x'']"
  using opt_map_refines_map [of 4 "opt_map_empty 4" 9 "''x''"] by (simp add: om_simps fun_eq_iff)

text \<open>
  \<^verbatim>\<open>operator[]\<close> breaks the contract for keys outside the vector: reading a missing
  key leaves a null entry in the hash map, \<^verbatim>\<open>find\<close> still reports the key as missing, and
  every later \<^verbatim>\<open>insert\<close> of that key is refused.
\<close>

theorem opt_map_index_blocks_insert:
  assumes "opt_map_wf n m" and "n \<le> k" and "opt_map_find n m k = None"
  shows "let m' = snd (opt_map_index n m k)
         in opt_map_find n m' = opt_map_find n m \<and> opt_map_insert n m' k (Some v) = (False, m') \<and>
            \<not> opt_map_wf n m'"
proof -
  from assms have "hmap m k = None"
    by (auto simp: opt_map_wf_def opt_map_find_def split: option.splits)
  with assms(2) show ?thesis
    by (auto simp: opt_map_index_def opt_map_insert_def opt_map_find_def opt_map_wf_def fun_eq_iff
             split: option.splits)
qed

theorem opt_map_index_blocks_insert_witness:
  "fst (opt_map_insert 4 (snd (opt_map_index 4 (opt_map_empty 4) 9)) 9 (Some ''x'')) = False"
  using opt_map_index_blocks_insert [of 4 "opt_map_empty 4" 9 "''x''"] by (simp add: om_simps Let_def)

end
