(* ===== verification/Ring_Buffer.thy ===== *)
theory Ring_Buffer
  imports Util
begin

unbundle bit_operations_syntax

text \<open>
  include/data_struct/ring_buffer.h and source/data_struct/ring_buffer.cpp: the
  single-producer single-consumer ring of equally sized blocks. A \<^verbatim>\<open>buffer_info\<close> points
  into the block vector: the pointer is an index, \<open>None\<close> the null pointer. The bytes of the
  blocks live in a memory \<open>nat \<Rightarrow> 8 word\<close> that is passed along. Each operation loads the
  other side's index once; \<open>ring_step\<close> interleaves the operations of the two threads.
\<close>

type_synonym memory = "nat \<Rightarrow> 8 word"

record buffer_info =
  bi_iov :: "nat option"
  bi_cnt :: u32

record ring_buffer =
  w_idx :: u64
  w_reader_shot :: u64
  w_buf :: buffer_info
  r_idx :: u64
  r_writer_shot :: u64
  r_buf :: buffer_info
  rb_data :: "iovec list"
  rb_mask :: u64

definition buffer_info_default :: buffer_info where
  "buffer_info_default = \<lparr>bi_iov = None, bi_cnt = 0\<rparr>"

definition ring_buffer_new :: ring_buffer where
  "ring_buffer_new =
     \<lparr>w_idx = 0, w_reader_shot = 0, w_buf = buffer_info_default,
      r_idx = 0, r_writer_shot = 0, r_buf = buffer_info_default, rb_data = [], rb_mask = 0\<rparr>"

subsection \<open>Initialisation\<close>

definition mem_write :: "memory \<Rightarrow> nat \<Rightarrow> 8 word list \<Rightarrow> memory" where
  "mem_write mem a bs = (\<lambda>x. if a \<le> x \<and> x < a + length bs then bs ! (x - a) else mem x)"

definition mem_read :: "memory \<Rightarrow> nat \<Rightarrow> nat \<Rightarrow> 8 word list" where
  "mem_read mem a n = map mem [a ..< a + n]"

text \<open>
  \<open>alloc\<close> lists the allocator's answers. The loop stops at the first failure; the flag
  reports it. The freed blocks of a failed call are listed in the result of \<open>ring_init\<close>.
\<close>

fun ring_init_loop ::
  "nat \<Rightarrow> (nat \<Rightarrow> nat option) \<Rightarrow> u64 \<Rightarrow> u64 \<Rightarrow> bool \<Rightarrow> iovec list \<Rightarrow> memory \<Rightarrow> nat
   \<Rightarrow> bool \<times> iovec list \<times> memory" where
  "ring_init_loop 0 alloc sz align zero d mem i = (False, d, mem)"
| "ring_init_loop (Suc n) alloc sz align zero d mem i =
     (case alloc_aligned_mem (\<lambda>_ _. alloc i) sz align of
        None \<Rightarrow> (True, d, mem)
      | Some a \<Rightarrow>
          ring_init_loop n alloc sz align zero (d @ [mk_iovec a (unat sz)])
            (if zero then mem_write mem a (replicate (unat sz) 0) else mem) (Suc i))"

definition ring_init ::
  "(nat \<Rightarrow> nat option) \<Rightarrow> u32 \<Rightarrow> u32 \<Rightarrow> bool \<Rightarrow> u64 \<Rightarrow> ring_buffer \<Rightarrow> memory
   \<Rightarrow> (int \<times> ring_buffer \<times> memory \<times> iovec list) result" where
  "ring_init alloc block_cnt buffer_size is_zero_mem align_size rb mem =
     bindE (if is_power_of_2 align_size then Inr (ucast align_size :: u32)
            else bindE (returnsE (roundup_power_of_two align_size)) (\<lambda>r. Inr (ucast r)))
       (\<lambda>real_align_size.
     bindE (if is_power_of_2 (ucast block_cnt) then Inr block_cnt
            else bindE (returnsE (roundup_power_of_two (ucast block_cnt))) (\<lambda>r. Inr (ucast r :: u32)))
       (\<lambda>real_block_cnt.
        if real_block_cnt = 0 \<or> real_align_size = 0 then Inr (- 1, rb, mem, [])
        else
          (case ring_init_loop (unat block_cnt) alloc (ucast buffer_size) (ucast real_align_size)
                  is_zero_mem (rb_data rb) mem 0 of
             (True, d, mem') \<Rightarrow> Inr (- 1, rb\<lparr>rb_data := []\<rparr>, mem', d)
           | (False, d, mem') \<Rightarrow>
               Inr (0, rb\<lparr>rb_data := d, rb_mask := ucast (real_block_cnt - 1)\<rparr>, mem', []))))"

definition get_block_cnt :: "ring_buffer \<Rightarrow> u32" where
  "get_block_cnt rb = word_of_nat (length (rb_data rb))"

definition get_block_size :: "ring_buffer \<Rightarrow> u32 result" where
  "get_block_size rb =
     (if rb_data rb = [] then Inl Out_Of_Bounds else Inr (word_of_nat (iov_len (rb_data rb ! 0))))"

subsection \<open>The writer\<close>

text \<open>The returned pointer is \<open>True\<close> for \<^verbatim>\<open>&writer_.buf_info_\<close> and \<open>False\<close> for null.\<close>

definition internal_writer_get_buffer :: "u64 \<Rightarrow> ring_buffer \<Rightarrow> (bool \<times> ring_buffer) result" where
  "internal_writer_get_buffer read_idx rb =
     (let write_idx = w_idx rb
      in if \<not> write_idx - read_idx < ucast (get_block_cnt rb) then Inr (False, rb)
         else
           let idx_w = write_idx AND rb_mask rb;
               idx_r = read_idx AND rb_mask rb
           in if length (rb_data rb) \<le> unat idx_w then Inl Out_Of_Bounds
              else
                let rb = rb\<lparr>w_buf := (w_buf rb)\<lparr>bi_iov := Some (unat idx_w)\<rparr>\<rparr>;
                    iov_cnt = (if idx_r \<le> idx_w then ucast (ucast (get_block_cnt rb) - idx_w)
                               else ucast (idx_r - idx_w)) :: u32
                in if \<not> 0 < iov_cnt then Inr (False, rb)
                   else Inr (True, rb\<lparr>w_buf := (w_buf rb)\<lparr>bi_cnt := iov_cnt\<rparr>\<rparr>))"

definition writer_get_buffer :: "ring_buffer \<Rightarrow> (bool \<times> ring_buffer) result" where
  "writer_get_buffer rb = internal_writer_get_buffer (r_idx rb) rb"

definition writer_get_buffer_cnt :: "u64 \<Rightarrow> ring_buffer \<Rightarrow> (bool \<times> ring_buffer) result" where
  "writer_get_buffer_cnt need_cnt rb =
     bindE (internal_writer_get_buffer (w_reader_shot rb) rb) (\<lambda>(ok, rb).
       if ok \<and> need_cnt \<le> ucast (bi_cnt (w_buf rb)) then Inr (True, rb)
       else
         let rb = rb\<lparr>w_reader_shot := r_idx rb\<rparr>
         in internal_writer_get_buffer (w_reader_shot rb) rb)"

definition writer_commit :: "u64 \<Rightarrow> ring_buffer \<Rightarrow> ring_buffer" where
  "writer_commit done_cnt rb = rb\<lparr>w_idx := w_idx rb + done_cnt\<rparr>"

text \<open>\<^verbatim>\<open>put<T>\<close>: the value is its object representation, a list of \<^verbatim>\<open>sizeof(T)\<close> bytes.\<close>

definition ring_put :: "8 word list \<Rightarrow> ring_buffer \<Rightarrow> memory \<Rightarrow> (int \<times> ring_buffer \<times> memory) result" where
  "ring_put bytes rb mem =
     bindE (get_block_size rb) (\<lambda>sz.
     if \<not> length bytes \<le> unat sz then Inr (- 1, rb, mem)
     else
       bindE (writer_get_buffer_cnt 1 rb) (\<lambda>(ok, rb).
       if \<not> ok then Inr (- 2, rb, mem)
       else
         case bi_iov (w_buf rb) of
           None \<Rightarrow> Inl Null_Deref
         | Some i \<Rightarrow>
             Inr (0, writer_commit 1 rb, mem_write mem (iov_base (rb_data rb ! i)) bytes)))"

subsection \<open>The reader\<close>

definition internal_reader_get_buffer :: "u64 \<Rightarrow> u64 \<Rightarrow> ring_buffer \<Rightarrow> (bool \<times> ring_buffer) result" where
  "internal_reader_get_buffer write_idx read_idx rb =
     (if \<not> read_idx < write_idx then Inr (False, rb)
      else
        let idx_w = write_idx AND rb_mask rb;
            idx_r = read_idx AND rb_mask rb
        in if length (rb_data rb) \<le> unat idx_r then Inl Out_Of_Bounds
           else
             let rb = rb\<lparr>r_buf := (r_buf rb)\<lparr>bi_iov := Some (unat idx_r)\<rparr>\<rparr>;
                 iov_cnt = (if idx_r < idx_w then ucast (idx_w - idx_r)
                            else ucast (ucast (get_block_cnt rb) - idx_r)) :: u32
             in if \<not> 0 < iov_cnt then Inr (False, rb) else Inr (True, rb))"

definition reader_get_buffer :: "ring_buffer \<Rightarrow> (bool \<times> ring_buffer) result" where
  "reader_get_buffer rb = internal_reader_get_buffer (w_idx rb) (r_idx rb) rb"

definition reader_get_buffer_cnt :: "u64 \<Rightarrow> ring_buffer \<Rightarrow> (bool \<times> ring_buffer) result" where
  "reader_get_buffer_cnt need_cnt rb =
     (let read_idx = r_idx rb
      in bindE (internal_reader_get_buffer (r_writer_shot rb) read_idx rb) (\<lambda>(ok, rb).
           if ok \<and> need_cnt \<le> ucast (bi_cnt (r_buf rb)) then Inr (True, rb)
           else
             let rb = rb\<lparr>r_writer_shot := w_idx rb\<rparr>
             in internal_reader_get_buffer (r_writer_shot rb) read_idx rb))"

definition reader_commit :: "u64 \<Rightarrow> ring_buffer \<Rightarrow> ring_buffer" where
  "reader_commit done_cnt rb = rb\<lparr>r_idx := r_idx rb + done_cnt\<rparr>"

text \<open>
  The overloads that take a \<^verbatim>\<open>buffer_info*\<close> assign to the pointer parameter, so the
  caller's structure \<open>buf\<close> is only read.
\<close>

definition internal_reader_get_buffer_at :: "u64 \<Rightarrow> u64 \<Rightarrow> ring_buffer \<Rightarrow> (int \<times> ring_buffer) result" where
  "internal_reader_get_buffer_at read_idx writer_idx rb =
     (if \<not> (r_idx rb \<le> read_idx \<and> read_idx < writer_idx) then Inr (- 1, rb)
      else
        let idx_w = writer_idx AND rb_mask rb;
            idx_r = read_idx AND rb_mask rb;
            iov_cnt = (if idx_r < idx_w then ucast (idx_w - idx_r)
                       else ucast (ucast (get_block_cnt rb) - idx_r)) :: u32
        in if \<not> 0 < iov_cnt then Inr (- 1, rb)
           else if length (rb_data rb) \<le> unat idx_r then Inl Out_Of_Bounds
           else Inr (0, rb\<lparr>r_buf := \<lparr>bi_iov = Some (unat idx_r), bi_cnt = iov_cnt\<rparr>\<rparr>))"

definition reader_get_buffer_at :: "u64 \<Rightarrow> ring_buffer \<Rightarrow> (int \<times> ring_buffer) result" where
  "reader_get_buffer_at read_idx rb = internal_reader_get_buffer_at read_idx (w_idx rb) rb"

definition reader_get_buffer_at_cnt ::
  "buffer_info \<Rightarrow> u64 \<Rightarrow> u64 \<Rightarrow> ring_buffer \<Rightarrow> (int \<times> ring_buffer) result" where
  "reader_get_buffer_at_cnt buf read_idx need_cnt rb =
     bindE (internal_reader_get_buffer_at read_idx (r_writer_shot rb) rb) (\<lambda>(ret, rb).
       if ret = 0 \<and> need_cnt \<le> ucast (bi_cnt buf) then Inr (0, rb)
       else
         let rb = rb\<lparr>r_writer_shot := w_idx rb\<rparr>
         in internal_reader_get_buffer_at read_idx (r_writer_shot rb) rb)"

definition reader_get_buffer_at_shot ::
  "buffer_info \<Rightarrow> u64 \<Rightarrow> u64 \<Rightarrow> u64 \<Rightarrow> ring_buffer \<Rightarrow> (int \<times> u64 \<times> ring_buffer) result" where
  "reader_get_buffer_at_shot buf read_idx writer_idx_screenshot need_cnt rb =
     bindE (internal_reader_get_buffer_at read_idx writer_idx_screenshot rb) (\<lambda>(ret, rb).
       if ret = 0 \<and> need_cnt \<le> ucast (bi_cnt buf) then Inr (0, writer_idx_screenshot, rb)
       else
         bindE (internal_reader_get_buffer_at read_idx (w_idx rb) rb) (\<lambda>(ret, rb).
           Inr (ret, w_idx rb, rb)))"

definition ring_reset :: "ring_buffer \<Rightarrow> ring_buffer" where
  "ring_reset rb = rb\<lparr>w_idx := 0, w_reader_shot := 0, r_idx := 0, r_writer_shot := 0\<rparr>"

definition reader_reset_out :: "ring_buffer \<Rightarrow> ring_buffer" where
  "reader_reset_out rb = rb\<lparr>r_idx := w_idx rb, r_writer_shot := w_idx rb\<rparr>"

definition reader_get_unread_cnt :: "ring_buffer \<Rightarrow> u64 \<times> ring_buffer" where
  "reader_get_unread_cnt rb = (w_idx rb - r_idx rb, rb\<lparr>r_writer_shot := w_idx rb\<rparr>)"

definition ring_empty :: "ring_buffer \<Rightarrow> (bool \<times> ring_buffer) result" where
  "ring_empty rb = bindE (reader_get_buffer rb) (\<lambda>(ok, rb). Inr (\<not> ok, rb))"

subsection \<open>The invariant and what it protects\<close>

text \<open>
  A ring is well formed when the number of its blocks is a power of two and the mask fits.
  The indices run freely (they are not reduced); the invariant bounds their distance, and
  the screenshots lag behind the indices they copy.
\<close>

definition ring_wf :: "ring_buffer \<Rightarrow> bool" where
  "ring_wf rb \<longleftrightarrow>
     length (rb_data rb) < 2 ^ 32 \<and> is_power_of_2 (word_of_nat (length (rb_data rb))) \<and>
     rb_mask rb = word_of_nat (length (rb_data rb)) - 1"

definition ring_inv :: "ring_buffer \<Rightarrow> bool" where
  "ring_inv rb \<longleftrightarrow>
     ring_wf rb \<and> r_idx rb \<le> w_idx rb \<and> unat (w_idx rb) - unat (r_idx rb) \<le> length (rb_data rb) \<and>
     w_reader_shot rb \<le> r_idx rb \<and> r_writer_shot rb \<le> w_idx rb"

text \<open>The number of contiguous blocks the writer and the reader are offered.\<close>

definition w_grant :: "nat \<Rightarrow> nat \<Rightarrow> nat \<Rightarrow> nat" where
  "w_grant n s w = (if s mod n \<le> w mod n then n - w mod n else s mod n - w mod n)"

definition r_grant :: "nat \<Rightarrow> nat \<Rightarrow> nat \<Rightarrow> nat" where
  "r_grant n r w = (if r mod n < w mod n then w mod n - r mod n else n - r mod n)"

text \<open>
  What the writer may rely on when it is offered \<open>x\<close> against a reader index \<open>s\<close>: it points
  at the block of the writer index and the offered blocks end before the unread ones.
\<close>

definition w_offer :: "ring_buffer \<Rightarrow> u64 \<Rightarrow> buffer_info \<Rightarrow> bool" where
  "w_offer rb s x \<longleftrightarrow>
     0 < unat (bi_cnt x) \<and> bi_iov x = Some (unat (w_idx rb) mod length (rb_data rb)) \<and>
     unat (w_idx rb) + unat (bi_cnt x) \<le> unat s + length (rb_data rb)"

text \<open>
  One step of either thread. The second component counts the blocks the writer was offered
  and has not committed; the third is 1 when the reader was offered a block. A commit takes
  at most what was offered, and the writer index stays below \<open>2 ^ 64\<close>.
\<close>

inductive ring_step :: "ring_buffer \<times> nat \<times> nat \<Rightarrow> ring_buffer \<times> nat \<times> nat \<Rightarrow> bool" where
  w_get: "writer_get_buffer rb = Inr (ok, rb')
    \<Longrightarrow> ring_step (rb, wg, rg) (rb', if ok then unat (bi_cnt (w_buf rb')) else 0, rg)"
| w_get_cnt: "writer_get_buffer_cnt need rb = Inr (ok, rb')
    \<Longrightarrow> ring_step (rb, wg, rg) (rb', if ok then unat (bi_cnt (w_buf rb')) else 0, rg)"
| w_commit: "k \<le> wg \<Longrightarrow> unat (w_idx rb) + k < 2 ^ 64
    \<Longrightarrow> ring_step (rb, wg, rg) (writer_commit (word_of_nat k) rb, wg - k, rg)"
| r_get: "reader_get_buffer rb = Inr (ok, rb') \<Longrightarrow> ring_step (rb, wg, rg) (rb', wg, of_bool ok)"
| r_get_cnt: "reader_get_buffer_cnt need rb = Inr (ok, rb') \<Longrightarrow> ring_step (rb, wg, rg) (rb', wg, of_bool ok)"
| r_commit: "k \<le> rg \<Longrightarrow> ring_step (rb, wg, rg) (reader_commit (word_of_nat k) rb, wg, rg - k)"
| r_unread: "reader_get_unread_cnt rb = (cnt, rb') \<Longrightarrow> ring_step (rb, wg, rg) (rb', wg, rg)"

definition ring_shared :: "ring_buffer \<times> nat \<times> nat \<Rightarrow> bool" where
  "ring_shared st \<longleftrightarrow>
     (case st of (rb, wg, rg) \<Rightarrow>
        ring_inv rb \<and> unat (w_idx rb) + wg \<le> unat (r_idx rb) + length (rb_data rb) \<and>
        unat (r_idx rb) + rg \<le> unat (w_idx rb))"

text \<open>The queue a ring holds: the first \<open>sz\<close> bytes of each unread block, oldest first.\<close>

definition ring_block :: "ring_buffer \<Rightarrow> memory \<Rightarrow> nat \<Rightarrow> nat \<Rightarrow> 8 word list" where
  "ring_block rb mem sz i = mem_read mem (iov_base (rb_data rb ! (i mod length (rb_data rb)))) sz"

definition ring_queue :: "ring_buffer \<Rightarrow> memory \<Rightarrow> nat \<Rightarrow> 8 word list list" where
  "ring_queue rb mem sz = map (ring_block rb mem sz) [unat (r_idx rb) ..< unat (w_idx rb)]"

definition ring_blocks_ok :: "ring_buffer \<Rightarrow> nat \<Rightarrow> bool" where
  "ring_blocks_ok rb sz \<longleftrightarrow>
     distinct (iov_addrs (rb_data rb)) \<and> list_all (\<lambda>v. sz \<le> iov_len v \<and> iov_len v < 2 ^ 32) (rb_data rb)"

subsection \<open>Offers stay within bounds\<close>

lemma w_grant_arith:
  fixes S W n d :: nat
  assumes "S < n" "d < n" "W = (if S + d < n then S + d else S + d - n)"
    "c = (if S \<le> W then n - W else S - W)"
  shows "0 < c \<and> d + c \<le> n \<and> c \<le> n"
  using assms by (auto split: if_splits)

lemma r_grant_arith:
  fixes R W n d :: nat
  assumes "R < n" "0 < d" "d \<le> n" "W = (if R + d < n then R + d else R + d - n)"
    "c = (if R < W then W - R else n - R)"
  shows "0 < c \<and> c \<le> d \<and> c \<le> n"
  using assms by (auto split: if_splits)

lemma w_grant_bounds:
  assumes "0 < n" "s \<le> w" "w - s < n"
  shows "0 < w_grant n s w \<and> w + w_grant n s w \<le> s + n \<and> w_grant n s w \<le> n"
proof -
  have "w mod n = (if s mod n + (w - s) < n then s mod n + (w - s) else s mod n + (w - s) - n)"
    using mod_add_once [of n "w - s" s] assms by simp
  from w_grant_arith [OF _ assms(3) this w_grant_def] assms show ?thesis by auto
qed

lemma r_grant_bounds:
  assumes "0 < n" "r < w" "w - r \<le> n"
  shows "0 < r_grant n r w \<and> r + r_grant n r w \<le> w \<and> r_grant n r w \<le> n"
proof -
  have "w mod n = (if r mod n + (w - r) < n then r mod n + (w - r) else r mod n + (w - r) - n)"
    using mod_add_once [of n "w - r" r] assms by simp
  from r_grant_arith [OF _ _ assms(3) this r_grant_def] assms show ?thesis by auto
qed

lemma ring_wf_facts:
  assumes "ring_wf rb"
  shows "0 < length (rb_data rb)" "unat (get_block_cnt rb) = length (rb_data rb)"
    "unat (i AND rb_mask rb) = unat i mod length (rb_data rb)"
proof -
  let ?n = "length (rb_data rb)"
  have n32: "?n < 2 ^ 32" and p: "is_power_of_2 (word_of_nat ?n)" and m: "rb_mask rb = word_of_nat ?n - 1"
    using assms by (auto simp: ring_wf_def)
  have un: "unat (word_of_nat ?n :: u64) = ?n"
    using n32 by (simp add: unsigned_of_nat take_bit_nat_eq_self)
  from p obtain k where k: "k < 64" "(word_of_nat ?n :: u64) = 2 ^ k" unfolding is_power_of_2_iff by blast
  then have nk: "?n = 2 ^ k" using un unat_power_two by metis
  then show "0 < ?n" by simp
  show "unat (get_block_cnt rb) = ?n"
    using n32 by (simp add: get_block_cnt_def unsigned_of_nat take_bit_nat_eq_self)
  show "unat (i AND rb_mask rb) = unat i mod ?n"
    using unat_mask_mod [of "word_of_nat ?n" k i] un nk m by simp
qed

lemma get_block_cnt_upd [simp]:
  "get_block_cnt (rb\<lparr>w_buf := x\<rparr>) = get_block_cnt rb" "get_block_cnt (rb\<lparr>r_buf := x\<rparr>) = get_block_cnt rb"
  by (simp_all add: get_block_cnt_def)

lemma ucast_diff_of_nat:
  fixes a b :: u64
  assumes "b \<le> a"
  shows "(ucast (a - b) :: u32) = word_of_nat (unat a - unat b)"
  using assms by (simp add: of_nat_unat flip: unat_sub)

lemma of_nat_u32_pos: "0 < c \<Longrightarrow> c < 2 ^ 32 \<Longrightarrow> 0 < (word_of_nat c :: u32)"
  by (simp add: word_less_nat_alt unsigned_of_nat take_bit_nat_eq_self)

lemma internal_writer_cases:
  assumes "ring_wf rb" "s \<le> w_idx rb"
  defines "n \<equiv> length (rb_data rb)"
  shows "internal_writer_get_buffer s rb =
    (if unat (w_idx rb) - unat s < n
     then Inr (True, rb\<lparr>w_buf := (w_buf rb)\<lparr>bi_iov := Some (unat (w_idx rb) mod n),
                                          bi_cnt := word_of_nat (w_grant n (unat s) (unat (w_idx rb)))\<rparr>\<rparr>)
     else Inr (False, rb))"
proof -
  note f = ring_wf_facts [OF assms(1), folded n_def]
  have guard: "(w_idx rb - s < ucast (get_block_cnt rb)) \<longleftrightarrow> unat (w_idx rb) - unat s < n"
    using assms(2) f(2) by (simp add: word_less_nat_alt unat_sub)
  show ?thesis
  proof (cases "unat (w_idx rb) - unat s < n")
    case True
    let ?c = "w_grant n (unat s) (unat (w_idx rb))"
    have "0 < ?c" "?c \<le> n"
      using w_grant_bounds [OF f(1) _ True] assms(2) by (auto simp: word_le_nat_alt)
    then have pos: "0 < (word_of_nat ?c :: u32)"
      using assms(1) by (intro of_nat_u32_pos) (auto simp: ring_wf_def n_def)
    have lt: "unat (w_idx rb) mod n < n" using f(1) by simp
    have "(if s AND rb_mask rb \<le> w_idx rb AND rb_mask rb
           then ucast (ucast (get_block_cnt rb) - (w_idx rb AND rb_mask rb))
           else ucast ((s AND rb_mask rb) - (w_idx rb AND rb_mask rb)) :: u32) = word_of_nat ?c"
      using lt by (auto simp: ucast_diff_of_nat word_le_nat_alt f w_grant_def)
    then show ?thesis using True guard lt pos
      by (simp add: internal_writer_get_buffer_def Let_def f not_le [symmetric] flip: n_def split del: if_split cong: if_cong)
  next
    case False
    then show ?thesis using guard by (simp add: internal_writer_get_buffer_def)
  qed
qed

lemma internal_reader_cases:
  assumes "ring_wf rb" "unat w - unat r \<le> length (rb_data rb)"
  defines "n \<equiv> length (rb_data rb)"
  shows "internal_reader_get_buffer w r rb =
    (if r < w then Inr (True, rb\<lparr>r_buf := (r_buf rb)\<lparr>bi_iov := Some (unat r mod n)\<rparr>\<rparr>)
     else Inr (False, rb))"
proof (cases "r < w")
  case True
  note f = ring_wf_facts [OF assms(1), folded n_def]
  let ?c = "r_grant n (unat r) (unat w)"
  have "0 < ?c" "?c \<le> n"
    using r_grant_bounds [OF f(1) _ assms(2) [folded n_def]] True by (auto simp: word_less_nat_alt)
  then have pos: "0 < (word_of_nat ?c :: u32)"
    using assms(1) by (intro of_nat_u32_pos) (auto simp: ring_wf_def n_def)
  have lt: "unat r mod n < n" "unat w mod n < n" using f(1) by auto
  have "(if r AND rb_mask rb < w AND rb_mask rb then ucast ((w AND rb_mask rb) - (r AND rb_mask rb))
         else ucast (ucast (get_block_cnt rb) - (r AND rb_mask rb)) :: u32) = word_of_nat ?c"
    using lt by (auto simp: ucast_diff_of_nat word_le_nat_alt word_less_nat_alt f r_grant_def)
  then show ?thesis using True lt pos
    by (simp add: internal_reader_get_buffer_def Let_def f not_le [symmetric] flip: n_def split del: if_split cong: if_cong)
qed (simp add: internal_reader_get_buffer_def)


lemma ring_inv_bufs [simp]:
  "ring_inv (rb\<lparr>w_buf := x\<rparr>) = ring_inv rb" "ring_inv (rb\<lparr>r_buf := x\<rparr>) = ring_inv rb"
  by (simp_all add: ring_inv_def ring_wf_def)

lemma ring_inv_D:
  assumes "ring_inv rb"
  shows "ring_wf rb" "unat (r_idx rb) \<le> unat (w_idx rb)"
    "unat (w_idx rb) \<le> unat (r_idx rb) + length (rb_data rb)"
    "unat (w_reader_shot rb) \<le> unat (r_idx rb)" "unat (r_writer_shot rb) \<le> unat (w_idx rb)"
  using assms by (auto simp: ring_inv_def word_le_nat_alt)

lemma internal_writer_grants:
  assumes "ring_inv rb" "s \<le> r_idx rb"
  obtains ok x where "internal_writer_get_buffer s rb = Inr (ok, rb\<lparr>w_buf := x\<rparr>)"
    and "ok \<Longrightarrow> w_offer rb s x"
    and "ok \<longleftrightarrow> unat (w_idx rb) - unat s < length (rb_data rb)"
proof -
  let ?n = "length (rb_data rb)" and ?g = "w_grant (length (rb_data rb)) (unat s) (unat (w_idx rb))"
  note f = ring_inv_D [OF assms(1)]
  have le: "unat s \<le> unat (w_idx rb)" "s \<le> w_idx rb"
    using assms f(2) by (auto simp: word_le_nat_alt)
  note cases = internal_writer_cases [OF f(1) le(2)]
  show ?thesis
  proof (cases "unat (w_idx rb) - unat s < ?n")
    case True
    from w_grant_bounds [OF ring_wf_facts(1) [OF f(1)] le(1) True]
    have b: "0 < ?g" "unat (w_idx rb) + ?g \<le> unat s + ?n" "?g \<le> ?n" by auto
    then have "unat (word_of_nat ?g :: u32) = ?g"
      using f(1) by (simp add: ring_wf_def unsigned_of_nat take_bit_nat_eq_self)
    then show ?thesis
      using b True cases by (intro that [of True]) (auto simp: w_offer_def)
  next
    case False
    then show ?thesis
      using cases by (intro that [of False "w_buf rb"]) simp_all
  qed
qed

lemma writer_get_buffer_grants:
  assumes "ring_inv rb"
  obtains ok x where "writer_get_buffer rb = Inr (ok, rb\<lparr>w_buf := x\<rparr>)"
    and "ok \<Longrightarrow> w_offer rb (r_idx rb) x"
    and "ok \<longleftrightarrow> unat (w_idx rb) - unat (r_idx rb) < length (rb_data rb)"
  using internal_writer_grants [OF assms order_refl] unfolding writer_get_buffer_def by blast

lemma w_offer_mono:
  assumes "w_offer rb s x" "s \<le> r"
  shows "w_offer rb r x"
  using assms by (auto simp: w_offer_def word_le_nat_alt)

lemma writer_get_buffer_cnt_grants:
  assumes "ring_inv rb"
  obtains ok x s where "writer_get_buffer_cnt need rb = Inr (ok, rb\<lparr>w_buf := x, w_reader_shot := s\<rparr>)"
    and "s \<le> r_idx rb" and "ok \<Longrightarrow> w_offer rb (r_idx rb) x"
    and "need \<le> 1 \<Longrightarrow> ok \<longleftrightarrow> unat (w_idx rb) - unat (r_idx rb) < length (rb_data rb)"
proof -
  let ?s = "w_reader_shot rb"
  have s: "?s \<le> r_idx rb" using assms by (simp add: ring_inv_def)
  obtain ok x where 1: "internal_writer_get_buffer ?s rb = Inr (ok, rb\<lparr>w_buf := x\<rparr>)"
    "ok \<Longrightarrow> w_offer rb ?s x" "ok \<longleftrightarrow> unat (w_idx rb) - unat ?s < length (rb_data rb)"
    using internal_writer_grants [OF assms s] by blast
  show ?thesis
  proof (cases "ok \<and> need \<le> ucast (bi_cnt x)")
    case True
    moreover from this 1 have "unat (w_idx rb) - unat (r_idx rb) < length (rb_data rb)"
      using s by (auto simp: word_le_nat_alt)
    ultimately show ?thesis
      using 1 s w_offer_mono by (intro that [of True ?s x]) (auto simp: writer_get_buffer_cnt_def)
  next
    case False
    let ?rb = "rb\<lparr>w_buf := x, w_reader_shot := r_idx rb\<rparr>"
    have "ring_inv ?rb" using assms by (simp add: ring_inv_def ring_wf_def)
    then obtain ok' x' where 2: "internal_writer_get_buffer (r_idx rb) ?rb = Inr (ok', ?rb\<lparr>w_buf := x'\<rparr>)"
      "ok' \<Longrightarrow> w_offer ?rb (r_idx rb) x'"
      "ok' \<longleftrightarrow> unat (w_idx rb) - unat (r_idx rb) < length (rb_data rb)"
      by (rule internal_writer_grants [of _ "r_idx rb"]) auto
    then show ?thesis using 1 False
      by (intro that [of ok' "r_idx rb" x']) (auto simp: writer_get_buffer_cnt_def Let_def w_offer_def)
  qed
qed

lemma internal_reader_grants:
  assumes "ring_wf rb" "unat w - unat r \<le> length (rb_data rb)"
  obtains x where "internal_reader_get_buffer w r rb = Inr (r < w, rb\<lparr>r_buf := x\<rparr>)"
    and "r < w \<Longrightarrow> bi_iov x = Some (unat r mod length (rb_data rb))"
proof (cases "r < w")
  case True
  then show ?thesis using internal_reader_cases [OF assms] by (intro that) auto
next
  case False
  then show ?thesis using internal_reader_cases [OF assms] by (intro that [of "r_buf rb"]) auto
qed

lemma reader_get_buffer_grants:
  assumes "ring_inv rb"
  obtains x where "reader_get_buffer rb = Inr (r_idx rb < w_idx rb, rb\<lparr>r_buf := x\<rparr>)"
    and "r_idx rb < w_idx rb \<Longrightarrow> bi_iov x = Some (unat (r_idx rb) mod length (rb_data rb))"
proof -
  have "unat (w_idx rb) - unat (r_idx rb) \<le> length (rb_data rb)"
    using ring_inv_D(3) [OF assms] by simp
  from internal_reader_grants [OF ring_inv_D(1) [OF assms] this] show ?thesis
    using that unfolding reader_get_buffer_def by blast
qed

lemma reader_get_buffer_cnt_grants:
  assumes "ring_inv rb"
  obtains ok x s where "reader_get_buffer_cnt need rb = Inr (ok, rb\<lparr>r_buf := x, r_writer_shot := s\<rparr>)"
    and "s \<le> w_idx rb" and "ok \<Longrightarrow> r_idx rb < w_idx rb"
    and "ok \<Longrightarrow> bi_iov x = Some (unat (r_idx rb) mod length (rb_data rb))"
proof -
  note f = ring_inv_D [OF assms]
  let ?r = "r_idx rb" and ?s = "r_writer_shot rb"
  obtain x where 1: "internal_reader_get_buffer ?s ?r rb = Inr (?r < ?s, rb\<lparr>r_buf := x\<rparr>)"
      "?r < ?s \<Longrightarrow> bi_iov x = Some (unat ?r mod length (rb_data rb))"
    using f by (elim internal_reader_grants [of rb ?s ?r]) auto
  show ?thesis
  proof (cases "?r < ?s \<and> need \<le> ucast (bi_cnt x)")
    case True
    then show ?thesis using 1 f
      by (intro that [of True ?s x])
        (auto simp: reader_get_buffer_cnt_def word_le_nat_alt word_less_nat_alt)
  next
    case False
    let ?rb = "rb\<lparr>r_buf := x, r_writer_shot := w_idx rb\<rparr>"
    have "ring_wf ?rb" using f(1) by (simp add: ring_wf_def)
    then obtain x' where 2: "internal_reader_get_buffer (w_idx rb) ?r ?rb = Inr (?r < w_idx rb, ?rb\<lparr>r_buf := x'\<rparr>)"
      "?r < w_idx rb \<Longrightarrow> bi_iov x' = Some (unat ?r mod length (rb_data rb))"
      using f by (elim internal_reader_grants [of ?rb "w_idx rb" ?r]) auto
    show ?thesis
      using 1 2 False
      by (intro that [of "?r < w_idx rb" "w_idx rb" x']) (auto simp: reader_get_buffer_cnt_def Let_def)
  qed
qed

lemma ring_step_shared:
  assumes "ring_step st st'" "ring_shared st"
  shows "ring_shared st'"
  using assms
proof (induction rule: ring_step.induct)
  case (w_get rb ok rb' wg rg)
  then have "ring_inv rb" by (simp add: ring_shared_def)
  then show ?case using w_get
    by (elim writer_get_buffer_grants) (auto simp: ring_shared_def w_offer_def dest: ring_inv_D)
next
  case (w_get_cnt need rb ok rb' wg rg)
  then have inv: "ring_inv rb" by (simp add: ring_shared_def)
  then obtain ok x s where "writer_get_buffer_cnt need rb = Inr (ok, rb\<lparr>w_buf := x, w_reader_shot := s\<rparr>)"
    and "s \<le> r_idx rb" and "ok \<Longrightarrow> w_offer rb (r_idx rb) x" using writer_get_buffer_cnt_grants [of rb need] by metis
  with w_get_cnt show ?case
    using ring_inv_D(3) [OF inv] by (auto simp: ring_shared_def w_offer_def ring_inv_def ring_wf_def)
next
  case (w_commit k wg rb rg)
  then show ?case
    by (auto simp: ring_shared_def ring_inv_def ring_wf_def writer_commit_def word_le_nat_alt unat_add_small)
next
  case (r_get rb ok rb' wg rg)
  then have "ring_inv rb" by (simp add: ring_shared_def)
  then show ?case using r_get
    by (elim reader_get_buffer_grants) (auto simp: ring_shared_def word_less_nat_alt dest: ring_inv_D)
next
  case (r_get_cnt need rb ok rb' wg rg)
  then have inv: "ring_inv rb" by (simp add: ring_shared_def)
  then obtain ok x s where "reader_get_buffer_cnt need rb = Inr (ok, rb\<lparr>r_buf := x, r_writer_shot := s\<rparr>)"
    and "s \<le> w_idx rb" and "ok \<Longrightarrow> r_idx rb < w_idx rb" using reader_get_buffer_cnt_grants [of rb need] by metis
  with r_get_cnt show ?case
    using ring_inv_D(2) [OF inv]
    by (auto simp: ring_shared_def ring_inv_def ring_wf_def word_less_nat_alt)
next
  case (r_commit k rg rb wg)
  have "unat (w_idx rb) < 2 ^ LENGTH(64)" by (rule unsigned_less)
  then have "unat (r_idx rb) + k < 2 ^ 64"
    using r_commit by (simp add: ring_shared_def)
  then show ?case using r_commit
    by (auto simp: ring_shared_def ring_inv_def ring_wf_def reader_commit_def word_le_nat_alt unat_add_small)
next
  case (r_unread rb cnt rb' wg rg)
  then show ?case
    by (auto simp: ring_shared_def ring_inv_def ring_wf_def reader_get_unread_cnt_def)
qed


lemma mem_read_write_same: "mem_read (mem_write mem a bs) a (length bs) = bs"
  by (rule nth_equalityI) (simp_all add: mem_read_def mem_write_def)

lemma mem_read_write_other:
  assumes "{b ..< b + n} \<inter> {a ..< a + length bs} = {}"
  shows "mem_read (mem_write mem a bs) b n = mem_read mem b n"
proof -
  have "\<not> (a \<le> x \<and> x < a + length bs)" if "b \<le> x" "x < b + n" for x
    using assms that by (metis IntI atLeastLessThan_iff empty_iff)
  then show ?thesis by (auto simp: mem_read_def mem_write_def)
qed

lemma iov_region_sub: "i < length vs \<Longrightarrow> set (iov_region (vs ! i)) \<subseteq> set (iov_addrs vs)"
  using nth_mem by (fastforce simp: iov_addrs_def)

lemma iov_regions_disjoint:
  assumes "distinct (iov_addrs vs)" "i < length vs" "j < length vs" "i \<noteq> j"
  shows "set (iov_region (vs ! i)) \<inter> set (iov_region (vs ! j)) = {}"
  using assms
proof (induction vs arbitrary: i j)
  case (Cons v vs)
  then have d: "set (iov_region v) \<inter> set (iov_addrs vs) = {}" by simp
  show ?case
  proof (cases i; cases j)
    fix i' j' assume "i = Suc i'" "j = Suc j'"
    then show ?thesis using Cons by simp
  next
    fix j' assume "i = 0" "j = Suc j'"
    then show ?thesis using Cons.prems d iov_region_sub [of j' vs] by auto
  next
    fix i' assume "i = Suc i'" "j = 0"
    then show ?thesis using Cons.prems d iov_region_sub [of i' vs] by auto
  qed (use Cons.prems in auto)
qed simp

lemma ring_block_write_other:
  assumes "ring_blocks_ok rb sz" "length bytes \<le> sz" "0 < length (rb_data rb)"
    "i mod length (rb_data rb) \<noteq> j mod length (rb_data rb)"
  shows "ring_block rb (mem_write mem (iov_base (rb_data rb ! (j mod length (rb_data rb)))) bytes) sz i
         = ring_block rb mem sz i"
proof -
  let ?n = "length (rb_data rb)" and ?v = "\<lambda>i. rb_data rb ! (i mod length (rb_data rb))"
  have lt: "i mod ?n < ?n" "j mod ?n < ?n" using assms(3) by auto
  then have "set (iov_region (?v i)) \<inter> set (iov_region (?v j)) = {}"
    using assms by (intro iov_regions_disjoint) (auto simp: ring_blocks_ok_def)
  moreover have "sz \<le> iov_len (?v i)" "sz \<le> iov_len (?v j)"
    using assms(1) lt by (auto simp: ring_blocks_ok_def list_all_length)
  ultimately have "{iov_base (?v i) ..< iov_base (?v i) + sz} \<inter>
      {iov_base (?v j) ..< iov_base (?v j) + length bytes} = {}"
    using assms(2) unfolding iov_region_def set_upt by (intro Int_emptyI) (auto simp: disjoint_iff)
  then show ?thesis by (simp add: ring_block_def mem_read_write_other)
qed

lemma ring_block_upd [simp]:
  "ring_block (rb\<lparr>w_buf := x\<rparr>) = ring_block rb" "ring_block (rb\<lparr>w_idx := w\<rparr>) = ring_block rb"
  "ring_block (rb\<lparr>w_reader_shot := w\<rparr>) = ring_block rb" "ring_block (rb\<lparr>r_buf := x\<rparr>) = ring_block rb"
  "ring_block (rb\<lparr>r_idx := w\<rparr>) = ring_block rb"
  by (simp_all add: ring_block_def fun_eq_iff)

lemma ring_put_cases:
  assumes "ring_inv rb" "ring_blocks_ok rb sz" "length bytes = sz" "unat (w_idx rb) + 1 < 2 ^ 64"
  shows "\<exists>rb' mem'.
    ring_put bytes rb mem = Inr (if length (ring_queue rb mem sz) < length (rb_data rb) then 0 else - 2, rb', mem') \<and>
    ring_inv rb' \<and> rb_data rb' = rb_data rb \<and>
    ring_queue rb' mem' sz =
      (if length (ring_queue rb mem sz) < length (rb_data rb) then ring_queue rb mem sz @ [bytes]
       else ring_queue rb mem sz)"
proof -
  let ?n = "length (rb_data rb)"
  note f = ring_inv_D [OF assms(1)]
  have n: "0 < ?n" using ring_wf_facts(1) [OF f(1)] .
  then have v0: "sz \<le> iov_len (rb_data rb ! 0)" "iov_len (rb_data rb ! 0) < 2 ^ 32"
    using assms(2) by (auto simp: ring_blocks_ok_def list_all_length)
  then have bs: "get_block_size rb = Inr (word_of_nat (iov_len (rb_data rb ! 0)))"
      "sz \<le> unat (word_of_nat (iov_len (rb_data rb ! 0)) :: u32)"
    using n by (auto simp: get_block_size_def unsigned_of_nat take_bit_nat_eq_self)
  obtain ok x s where g: "writer_get_buffer_cnt 1 rb = Inr (ok, rb\<lparr>w_buf := x, w_reader_shot := s\<rparr>)"
    "s \<le> r_idx rb" "ok \<Longrightarrow> w_offer rb (r_idx rb) x"
    "ok \<longleftrightarrow> unat (w_idx rb) - unat (r_idx rb) < ?n"
    using writer_get_buffer_cnt_grants [OF assms(1), of 1] by (metis order_refl)
  let ?rb = "rb\<lparr>w_buf := x, w_reader_shot := s\<rparr>"
  have lenq: "length (ring_queue rb mem sz) = unat (w_idx rb) - unat (r_idx rb)"
    by (simp add: ring_queue_def)
  show ?thesis
  proof (cases ok)
    case False
    then have "ring_put bytes rb mem = Inr (- 2, ?rb, mem)"
      using bs g assms(3) by (simp add: ring_put_def)
    moreover have "ring_inv ?rb" using assms(1) g(2) by (simp add: ring_inv_def ring_wf_def)
    ultimately show ?thesis using g(4) False lenq by (simp add: ring_queue_def)
  next
    case True
    let ?a = "iov_base (rb_data rb ! (unat (w_idx rb) mod ?n))"
    let ?mem = "mem_write mem ?a bytes" and ?rb' = "writer_commit 1 ?rb"
    have put: "ring_put bytes rb mem = Inr (0, ?rb', ?mem)"
      using bs g True assms(3) by (simp add: ring_put_def w_offer_def)
    have w1: "unat (w_idx rb + 1) = unat (w_idx rb) + 1"
      using unat_add_small [of "w_idx rb" 1] assms(4) by simp
    have "ring_inv ?rb'"
      using assms(1) f g(2,4) True w1
      by (auto simp: ring_inv_def ring_wf_def writer_commit_def word_le_nat_alt)
    moreover have "ring_queue ?rb' ?mem sz = ring_queue rb mem sz @ [bytes]"
    proof -
      have "ring_block rb ?mem sz i = ring_block rb mem sz i"
        if "unat (r_idx rb) \<le> i" "i < unat (w_idx rb)" for i
        using that g(4) True assms(3) n mod_neq_within [of i "unat (w_idx rb)" ?n]
        by (intro ring_block_write_other [OF assms(2)]) auto
      moreover have "ring_block rb ?mem sz (unat (w_idx rb)) = bytes"
        using mem_read_write_same [of mem ?a bytes] assms(3) by (simp add: ring_block_def)
      ultimately show ?thesis
        using f(2) by (simp add: ring_queue_def writer_commit_def w1)
    qed
    ultimately show ?thesis using put g(4) True lenq by (auto simp: writer_commit_def)
  qed
qed


lemma ring_take_front:
  assumes "ring_inv rb"
  shows "\<exists>rb'. reader_get_buffer rb = Inr (ring_queue rb mem sz \<noteq> [], rb') \<and>
    (ring_queue rb mem sz \<noteq> [] \<longrightarrow>
       (\<exists>i. bi_iov (r_buf rb') = Some i \<and> i < length (rb_data rb) \<and>
          mem_read mem (iov_base (rb_data rb ! i)) sz = hd (ring_queue rb mem sz) \<and>
          ring_inv (reader_commit 1 rb') \<and>
          ring_queue (reader_commit 1 rb') mem sz = tl (ring_queue rb mem sz)))"
proof -
  note f = ring_inv_D [OF assms]
  obtain x where x: "reader_get_buffer rb = Inr (r_idx rb < w_idx rb, rb\<lparr>r_buf := x\<rparr>)"
    "r_idx rb < w_idx rb \<Longrightarrow> bi_iov x = Some (unat (r_idx rb) mod length (rb_data rb))"
    using reader_get_buffer_grants [OF assms] by blast
  have ne: "ring_queue rb mem sz \<noteq> [] \<longleftrightarrow> r_idx rb < w_idx rb"
    by (auto simp: ring_queue_def word_less_nat_alt)
  show ?thesis
  proof (cases "r_idx rb < w_idx rb")
    case False
    then show ?thesis using x ne by auto
  next
    case True
    then have lt: "unat (r_idx rb) < unat (w_idx rb)" by (simp add: word_less_nat_alt)
    moreover have "unat (w_idx rb) < 2 ^ LENGTH(64)" by (rule unsigned_less)
    ultimately have r1: "unat (r_idx rb + 1) = unat (r_idx rb) + 1"
      using unat_add_small [of "r_idx rb" 1] by simp
    have q: "ring_queue rb mem sz = ring_block rb mem sz (unat (r_idx rb)) #
        map (ring_block rb mem sz) [unat (r_idx rb) + 1 ..< unat (w_idx rb)]"
      using lt by (simp add: ring_queue_def upt_conv_Cons)
    have "ring_inv (reader_commit 1 (rb\<lparr>r_buf := x\<rparr>))"
      using assms lt r1 by (auto simp: ring_inv_def ring_wf_def reader_commit_def word_le_nat_alt)
    moreover have "ring_queue (reader_commit 1 (rb\<lparr>r_buf := x\<rparr>)) mem sz = tl (ring_queue rb mem sz)"
      by (simp add: q) (simp add: ring_queue_def reader_commit_def r1)
    ultimately show ?thesis
      using x True ne q ring_wf_facts(1) [OF f(1)] by (auto simp: ring_block_def)
  qed
qed

lemma ring_init_loop_ok:
  assumes "ring_init_loop n alloc sz align zero d mem i = (False, d', mem')"
  shows "\<exists>ds. d' = d @ ds \<and> length ds = n \<and> list_all (\<lambda>v. iov_len v = unat sz) ds"
  using assms
  by (induction n alloc sz align zero d mem i rule: ring_init_loop.induct)
    (fastforce simp: mk_iovec_def split: option.splits)+

lemma roundup_u32_cases:
  fixes c :: u32
  assumes "\<not> is_power_of_2 (ucast c)" "c \<noteq> 0"
  obtains k where "k \<le> 32" "roundup_power_of_two (ucast c) = Some (2 ^ k)" "unat c < 2 ^ k"
proof -
  note c32 = unat_u32_less [of c]
  obtain r where r: "roundup_power_of_two (ucast c) = Some r" "is_power_of_2 r" "ucast c \<le> r"
      "unat r < 2 * unat c"
    using roundup_power_of_two_cases [of "ucast c"] c32 assms(2) by (auto simp: unat_eq_zero)
  then obtain k where k: "k < 64" "r = 2 ^ k" unfolding is_power_of_2_iff by blast
  have ur: "unat r = 2 ^ k" using k by (simp add: unat_power_two)
  then have "(2::nat) ^ k < 2 ^ 33" using r(4) c32 by simp
  then have "k \<le> 32" using power_less_imp_less_exp [of "2::nat" k 33] by simp
  moreover have "ucast c \<noteq> r" using r(2) assms(1) by auto
  then have "unat c < 2 ^ k"
    using r(3) ur by (metis le_neq_implies_less unat_ucast_u32_u64 unsigned_word_eqI word_le_nat_alt)
  ultimately show thesis using that r k by auto
qed

lemma ring_init_new_ok:
  assumes "ring_init alloc cnt sz zero align ring_buffer_new mem = Inr (0, rb, mem', fr)"
  obtains real d where "real \<noteq> 0"
    "real = (if is_power_of_2 (ucast cnt) then cnt else ucast (the (roundup_power_of_two (ucast cnt))))"
    "rb = ring_buffer_new\<lparr>rb_data := d, rb_mask := ucast (real - 1)\<rparr>"
    "length d = unat cnt" "list_all (\<lambda>v. iov_len v = unat sz) d"
proof -
  let ?real = "if is_power_of_2 (ucast cnt) then cnt else ucast (the (roundup_power_of_two (ucast cnt)))"
  obtain r1 r2 where r: "roundup_power_of_two (ucast cnt) = Some r1" "roundup_power_of_two align = Some r2"
    using roundup_power_of_two_cases [of "ucast cnt"] roundup_power_of_two_cases [of align] by blast
  define ra :: u32 where "ra = (if is_power_of_2 align then ucast align else ucast r2)"
  have ra: "(if is_power_of_2 align then Inr (ucast align) else bindE (returnsE (roundup_power_of_two align)) (\<lambda>r. Inr (ucast r)))
      = (Inr ra :: u32 result)" by (simp add: ra_def r)
  have rl: "(if is_power_of_2 (ucast cnt) then Inr cnt
      else bindE (returnsE (roundup_power_of_two (ucast cnt))) (\<lambda>r. Inr (ucast r))) = (Inr ?real :: u32 result)"
    by (simp add: r)
  obtain fl d m where q: "ring_init_loop (unat cnt) alloc (ucast sz) (ucast ra) zero [] mem 0 = (fl, d, m)"
    by (metis prod_cases3)
  have new: "rb_data ring_buffer_new = []" by (simp add: ring_buffer_new_def)
  from assms have run: "(if ?real = 0 \<or> ra = 0 then Inr (- 1, ring_buffer_new, mem, [])
      else (case (fl, d, m) of
             (True, d, mem') \<Rightarrow> Inr (- 1, ring_buffer_new\<lparr>rb_data := []\<rparr>, mem', d)
           | (False, d, mem') \<Rightarrow> Inr (0, ring_buffer_new\<lparr>rb_data := d, rb_mask := ucast (?real - 1)\<rparr>, mem', [])))
      = (Inr (0, rb, mem', fr) :: (int \<times> ring_buffer \<times> memory \<times> iovec list) result)"
    unfolding ring_init_def ra rl bindE_simps new q .
  define real where "real = ?real"
  from run have real: "real \<noteq> 0" "real = ?real" and l: "ring_init_loop (unat cnt) alloc (ucast sz) (ucast ra) zero [] mem 0 = (False, d, m)"
    and rb: "rb = ring_buffer_new\<lparr>rb_data := d, rb_mask := ucast (real - 1)\<rparr>"
    using q unfolding real_def [symmetric] by (cases fl; simp split: if_splits)+
  from ring_init_loop_ok [OF l] have "length d = unat cnt" "list_all (\<lambda>v. iov_len v = unat sz) d"
    by auto
  with rb real show thesis by (intro that [of real d])
qed

lemma ring_init_inv:
  assumes "ring_init alloc cnt sz zero align ring_buffer_new mem = Inr (0, rb, mem', fr)"
    and "is_power_of_2 (ucast cnt)"
  shows "ring_inv rb \<and> length (rb_data rb) = unat cnt \<and> list_all (\<lambda>v. iov_len v = unat sz) (rb_data rb)"
proof -
  from assms(1) obtain real d where real: "real \<noteq> 0"
      "real = (if is_power_of_2 (ucast cnt) then cnt else ucast (the (roundup_power_of_two (ucast cnt))))"
    and rb': "rb = ring_buffer_new\<lparr>rb_data := d, rb_mask := ucast (real - 1)\<rparr>"
    and len: "length d = unat cnt" "list_all (\<lambda>v. iov_len v = unat sz) d"
    by (rule ring_init_new_ok)
  have "real = cnt" using real(2) assms(2) by (simp only: if_True)
  then have nz: "cnt \<noteq> 0" and rb: "rb = ring_buffer_new\<lparr>rb_data := d, rb_mask := ucast (cnt - 1)\<rparr>"
    using real(1) rb' by simp_all
  have "unat (ucast (cnt - 1) :: u64) = unat (ucast cnt - 1 :: u64)"
    using nz by (simp add: unat_minus_one unat_eq_zero flip: unat_eq_0)
  then have "(ucast (cnt - 1) :: u64) = ucast cnt - 1" by (rule unsigned_word_eqI)
  then show ?thesis
    using rb len assms(2) unat_u32_less [of cnt]
    by (simp add: ring_inv_def ring_wf_def ring_buffer_new_def)
qed

lemma ring_init_rounded_overflows:
  assumes "ring_init alloc cnt sz zero align ring_buffer_new mem = Inr (0, rb, mem', fr)"
    and "\<not> is_power_of_2 (ucast cnt)"
  shows "writer_get_buffer (rb\<lparr>w_idx := ucast cnt, r_idx := ucast cnt\<rparr>) = Inl Out_Of_Bounds"
proof -
  from assms(1) obtain real d where
    nz: "real \<noteq> 0" and real': "real = (if is_power_of_2 (ucast cnt) then cnt
                                     else ucast (the (roundup_power_of_two (ucast cnt))))"
    and rb: "rb = ring_buffer_new\<lparr>rb_data := d, rb_mask := ucast (real - 1)\<rparr>"
    and len: "length d = unat cnt"
    by (rule ring_init_new_ok)
  from real' assms(2) have real: "real = ucast (the (roundup_power_of_two (ucast cnt)))"
    by (simp only: if_False)
  have "cnt \<noteq> 0"
  proof
    assume "cnt = 0"
    moreover have "roundup_power_of_two 0 = Some 0" by (simp add: roundup_power_of_two_def)
    ultimately show False using nz real by simp
  qed
  then obtain k where k: "k \<le> 32" "roundup_power_of_two (ucast cnt) = Some (2 ^ k)" "unat cnt < 2 ^ k"
    using roundup_u32_cases [OF assms(2)] by blast
  have ur: "unat real = 2 ^ k"
  proof -
    have "unat real = take_bit 32 (2 ^ k :: nat)"
      using k(1,2) real unat_power_two [of k] by (simp add: unsigned_ucast_eq)
    moreover have "k \<noteq> 32" using calculation nz by (auto simp: unat_eq_zero)
    ultimately show ?thesis using k(1) by (simp add: take_bit_nat_eq_self)
  qed
  have "unat (ucast cnt AND (ucast (real - 1)) :: u64) = unat cnt"
  proof -
    have "unat (ucast (real - 1) :: u64) = unat (ucast real - 1 :: u64)"
      using nz by (simp add: unat_minus_one unat_eq_zero flip: unat_eq_0)
    then have "(ucast (real - 1) :: u64) = ucast real - 1" by (rule unsigned_word_eqI)
    then show ?thesis using unat_mask_mod [of "ucast real" k "ucast cnt"] ur k(3) by simp
  qed
  moreover have "0 < (ucast cnt :: u64)" using \<open>cnt \<noteq> 0\<close> by (simp add: word_less_nat_alt unat_gt_0)
  ultimately show ?thesis
    using rb len
    by (simp add: writer_get_buffer_def internal_writer_get_buffer_def get_block_cnt_def)
qed

subsection \<open>Properties\<close>

text \<open>
  Two threads, one writing and one reading. From a well-formed ring, under every
  interleaving of their requests and commits (each request may have used a stale
  screenshot), the blocks offered to the writer never reach the unread ones, the block
  offered to the reader is written, and no request faults.
\<close>

theorem ring_spsc_safe:
  assumes "ring_inv rb0" and "ring_step\<^sup>*\<^sup>* (rb0, 0, 0) (rb, wg, rg)"
  shows "ring_inv rb \<and>
         unat (w_idx rb) + wg \<le> unat (r_idx rb) + length (rb_data rb) \<and>
         unat (r_idx rb) + rg \<le> unat (w_idx rb) \<and>
         (\<exists>ok rb'. writer_get_buffer_cnt need rb = Inr (ok, rb')) \<and>
         (\<exists>ok rb'. reader_get_buffer_cnt need rb = Inr (ok, rb'))"
proof -
  have "ring_shared (rb0, 0, 0)"
    using assms(1) by (auto simp: ring_shared_def dest: ring_inv_D)
  with assms(2) have "ring_shared (rb, wg, rg)"
    by (rule rtranclp_induct) (auto intro: ring_step_shared)
  then show ?thesis
    unfolding ring_shared_def prod.case
    by (metis writer_get_buffer_cnt_grants reader_get_buffer_cnt_grants)
qed

text \<open>
  C27. \<^verbatim>\<open>put\<close> appends: as long as the ring is not full it returns 0 and the queue
  grows by the given bytes at its end, every unread block untouched; on a full ring it
  returns \<^verbatim>\<open>-2\<close> and the queue stays.
\<close>

theorem ring_put_appends:
  assumes "ring_inv rb" and "ring_blocks_ok rb sz" and "length bytes = sz" and "unat (w_idx rb) + 1 < 2 ^ 64"
  shows "\<exists>rb' mem'.
    ring_put bytes rb mem = Inr (if length (ring_queue rb mem sz) < length (rb_data rb) then 0 else - 2, rb', mem') \<and>
    ring_inv rb' \<and> rb_data rb' = rb_data rb \<and>
    ring_queue rb' mem' sz =
      (if length (ring_queue rb mem sz) < length (rb_data rb) then ring_queue rb mem sz @ [bytes]
       else ring_queue rb mem sz)"
  using assms by (rule ring_put_cases)

text \<open>
  The reader takes from the front: \<^verbatim>\<open>reader_get_buffer\<close> returns null exactly on an
  empty queue; otherwise it points at a block that holds the oldest element, and
  \<^verbatim>\<open>reader_commit(1)\<close> removes that element.
\<close>

theorem ring_reader_takes_front:
  assumes "ring_inv rb"
  shows "\<exists>rb'. reader_get_buffer rb = Inr (ring_queue rb mem sz \<noteq> [], rb') \<and>
    (ring_queue rb mem sz \<noteq> [] \<longrightarrow>
       (\<exists>i. bi_iov (r_buf rb') = Some i \<and> i < length (rb_data rb) \<and>
          mem_read mem (iov_base (rb_data rb ! i)) sz = hd (ring_queue rb mem sz) \<and>
          ring_inv (reader_commit 1 rb') \<and>
          ring_queue (reader_commit 1 rb') mem sz = tl (ring_queue rb mem sz)))"
  using assms by (rule ring_take_front)

text \<open>
  A successful \<^verbatim>\<open>init\<close> of a new ring with a power-of-two block count establishes the
  invariant, with that many blocks of the requested size.
\<close>

theorem ring_init_establishes:
  assumes "ring_init alloc cnt sz zero align ring_buffer_new mem = Inr (0, rb, mem', fr)"
    and "is_power_of_2 (ucast cnt)"
  shows "ring_inv rb \<and> length (rb_data rb) = unat cnt \<and> list_all (\<lambda>v. iov_len v = unat sz) (rb_data rb)"
  using assms by (rule ring_init_inv)

text \<open>
  For any other block count \<^verbatim>\<open>init\<close> also returns 0, but the mask is that of the
  rounded-up count while only \<^verbatim>\<open>block_cnt\<close> blocks exist: once \<^verbatim>\<open>block_cnt\<close> blocks were
  written and read, the next request of the writer indexes past the end of \<^verbatim>\<open>data_\<close>.
\<close>

theorem ring_init_rounded_out_of_bounds:
  assumes "ring_init alloc cnt sz zero align ring_buffer_new mem = Inr (0, rb, mem', fr)"
    and "\<not> is_power_of_2 (ucast cnt)"
  shows "writer_get_buffer (rb\<lparr>w_idx := ucast cnt, r_idx := ucast cnt\<rparr>) = Inl Out_Of_Bounds"
  using assms by (rule ring_init_rounded_overflows)

subsection \<open>Witnesses\<close>

text \<open>A ring of two blocks, as \<^verbatim>\<open>init(2, 4)\<close> leaves it when the allocator answers 0 and 100.\<close>

definition ring_two :: ring_buffer where
  "ring_two = ring_buffer_new\<lparr>rb_data := [mk_iovec 0 4, mk_iovec 100 4], rb_mask := 1\<rparr>"

lemma ring_two_inv: "ring_inv ring_two" "ring_blocks_ok ring_two 4"
  by (simp_all add: ring_two_def ring_inv_def ring_wf_def ring_buffer_new_def is_power_of_2_def
      ring_blocks_ok_def mk_iovec_def iov_addrs_def iov_region_def upt_rec)

theorem ring_spsc_safe_witness: "unat (w_idx ring_two) + 0 \<le> unat (r_idx ring_two) + length (rb_data ring_two)"
  using ring_spsc_safe [OF ring_two_inv(1) rtranclp.rtrancl_refl] by blast

theorem ring_put_appends_witness:
  "\<exists>rb' mem'. ring_put [1, 2, 3, 4] ring_two (\<lambda>_. 0) = Inr (0, rb', mem') \<and>
     ring_queue rb' mem' 4 = [[1, 2, 3, 4]]"
proof -
  have "ring_queue ring_two (\<lambda>_. 0) 4 = []" "length (rb_data ring_two) = 2"
    by (simp_all add: ring_queue_def ring_two_def ring_buffer_new_def)
  then show ?thesis
    using ring_put_appends [OF ring_two_inv, of "[1, 2, 3, 4]" "\<lambda>_. 0"]
    by (auto simp: ring_two_def ring_buffer_new_def)
qed

theorem ring_reader_takes_front_witness:
  "\<exists>rb'. reader_get_buffer (ring_two\<lparr>w_idx := 1\<rparr>) = Inr (True, rb') \<and> bi_iov (r_buf rb') = Some 0"
proof -
  let ?rb = "ring_two\<lparr>w_idx := 1\<rparr>"
  have i: "ring_inv ?rb"
    by (simp add: ring_two_def ring_inv_def ring_wf_def ring_buffer_new_def is_power_of_2_def)
  have "ring_queue ?rb (\<lambda>a. if a = 0 then 7 else 0) 1 = [[7]]"
    by (simp add: ring_queue_def ring_two_def ring_buffer_new_def ring_block_def mem_read_def mk_iovec_def)
  with ring_reader_takes_front [OF i, of "\<lambda>a. if a = 0 then 7 else 0" 1] show ?thesis
    by (fastforce simp: ring_two_def mk_iovec_def mem_read_def less_Suc_eq)
qed

lemma ring_init_loop_small:
  "ring_init_loop 2 (\<lambda>i. Some (100 * i)) 4 1024 False [] mem 0 =
     (False, [mk_iovec 0 4, mk_iovec 100 4], mem)"
  "ring_init_loop 3 (\<lambda>i. Some (100 * i)) 4 1024 False [] mem 0 =
     (False, [mk_iovec 0 4, mk_iovec 100 4, mk_iovec 200 4], mem)"
  by (simp_all only: numeral_2_eq_2 numeral_3_eq_3)
    (simp_all add: alloc_aligned_mem_def is_power_of_2_def)

lemma ring_init_two:
  "ring_init (\<lambda>i. Some (100 * i)) 2 4 False 1024 ring_buffer_new mem = Inr (0, ring_two, mem, [])"
  by (simp add: ring_init_def is_power_of_2_def ring_init_loop_small ring_two_def ring_buffer_new_def)

theorem ring_init_establishes_witness: "ring_inv ring_two"
  using ring_init_establishes [OF ring_init_two] by (simp add: is_power_of_2_def)

lemma ring_init_three:
  "ring_init (\<lambda>i. Some (100 * i)) 3 4 False 1024 ring_buffer_new mem =
     Inr (0, ring_buffer_new\<lparr>rb_data := [mk_iovec 0 4, mk_iovec 100 4, mk_iovec 200 4], rb_mask := 3\<rparr>, mem, [])"
proof -
  have "roundup_power_of_two 3 = Some 4" using roundup_split [of 1 3] by simp
  then show ?thesis
    by (simp add: ring_init_def is_power_of_2_def ring_init_loop_small ring_buffer_new_def)
qed

theorem ring_init_rounded_out_of_bounds_witness:
  "writer_get_buffer
     (ring_buffer_new\<lparr>rb_data := [mk_iovec 0 4, mk_iovec 100 4, mk_iovec 200 4], rb_mask := 3,
                     w_idx := 3, r_idx := 3\<rparr>) = Inl Out_Of_Bounds"
  using ring_init_rounded_out_of_bounds [OF ring_init_three] by (simp add: is_power_of_2_def)

end
