(* ===== verification/Memory_Order.thy ===== *)
theory Memory_Order
  imports Prelude
begin

text \<open>
  include/util/barrier.h and the memory orders of include/data_struct/ring_buffer.h: atomic
  accesses between two threads in the release/acquire fragment of the C++ memory model.

  Every atomic variable keeps the history of the values stored in it. A load may return any
  of them that is not older than what its thread has seen (\<open>vw_seen\<close>), so it may be stale;
  \<open>lag\<close> says how far it lies behind the newest one. A release store attaches the view of
  its thread to the value, and an acquire load that returns the value joins that view.

  Plain memory is made of cells. A cell remembers when it was last written and read, on the
  clock of the thread that did it. An access whose thread does not know of a conflicting one
  is a data race, which is undefined behaviour: the fault \<open>Data_Race\<close>.
\<close>

subsection \<open>Views\<close>

datatype thread_id = Producer | Consumer

record 'l view =
  vw_seen :: "'l \<Rightarrow> nat"
  vw_clock :: "thread_id \<Rightarrow> nat"

definition view_bot :: "'l view" where
  "view_bot = \<lparr>vw_seen = (\<lambda>_. 0), vw_clock = (\<lambda>_. 0)\<rparr>"

definition view_join :: "'l view \<Rightarrow> 'l view \<Rightarrow> 'l view" where
  "view_join a b =
     \<lparr>vw_seen = (\<lambda>l. max (vw_seen a l) (vw_seen b l)), vw_clock = (\<lambda>t. max (vw_clock a t) (vw_clock b t))\<rparr>"

text \<open>A thread starts with its own clock at 1, so that nobody else knows of its first accesses.\<close>

definition view_start :: "thread_id \<Rightarrow> 'l view" where
  "view_start th = view_bot\<lparr>vw_clock := (\<lambda>_. 0)(th := 1)\<rparr>"

definition view_tick :: "thread_id \<Rightarrow> 'l view \<Rightarrow> 'l view" where
  "view_tick th v = v\<lparr>vw_clock := (vw_clock v)(th := Suc (vw_clock v th))\<rparr>"

lemma view_join_simps [simp]:
  "vw_seen (view_join a b) l = max (vw_seen a l) (vw_seen b l)"
  "vw_clock (view_join a b) t = max (vw_clock a t) (vw_clock b t)"
  by (simp_all add: view_join_def)

lemma view_tick_simps [simp]:
  "vw_seen (view_tick th v) = vw_seen v"
  "vw_clock (view_tick th v) t = (if t = th then Suc (vw_clock v th) else vw_clock v t)"
  by (simp_all add: view_tick_def)

subsection \<open>Atomic accesses\<close>

datatype memory_order = Relaxed | Acquire | Release

record ('l, 'v) message =
  msg_val :: 'v
  msg_view :: "'l view"

record ('l, 'v) atomics =
  at_hist :: "'l \<Rightarrow> ('l, 'v) message list"
  at_sc :: "'l view"

definition atomics_init :: "('l \<Rightarrow> 'v) \<Rightarrow> ('l, 'v) atomics" where
  "atomics_init f = \<lparr>at_hist = (\<lambda>l. [\<lparr>msg_val = f l, msg_view = view_bot\<rparr>]), at_sc = view_bot\<rparr>"

text \<open>
  Histories are not empty. The position a load reads from is the newest one minus the lag,
  but never one before what the thread has seen.
\<close>

definition load_pos :: "nat \<Rightarrow> 'l \<Rightarrow> ('l, 'v) atomics \<Rightarrow> 'l view \<Rightarrow> nat" where
  "load_pos lag l m t = max (vw_seen t l) (length (at_hist m l) - 1 - lag)"

definition atomic_load_explicit ::
  "memory_order \<Rightarrow> nat \<Rightarrow> 'l \<Rightarrow> ('l, 'v) atomics \<Rightarrow> 'l view \<Rightarrow> 'v \<times> 'l view" where
  "atomic_load_explicit ord lag l m t =
     (let i = load_pos lag l m t; msg = at_hist m l ! i; t = t\<lparr>vw_seen := (vw_seen t)(l := i)\<rparr>
      in (msg_val msg, if ord = Acquire then view_join t (msg_view msg) else t))"

text \<open>A store goes to the end of the history: each variable here is stored by one thread.\<close>

definition atomic_store_explicit ::
  "memory_order \<Rightarrow> thread_id \<Rightarrow> 'l \<Rightarrow> 'v \<Rightarrow> ('l, 'v) atomics \<Rightarrow> 'l view \<Rightarrow> ('l, 'v) atomics \<times> 'l view" where
  "atomic_store_explicit ord th l v m t =
     (let i = length (at_hist m l); t = t\<lparr>vw_seen := (vw_seen t)(l := i)\<rparr>;
          vw = (if ord = Release then t else view_bot\<lparr>vw_seen := (\<lambda>_. 0)(l := i)\<rparr>)
      in (m\<lparr>at_hist := (at_hist m)(l := at_hist m l @ [\<lparr>msg_val = v, msg_view = vw\<rparr>])\<rparr>,
          if ord = Release then view_tick th t else t))"

text \<open>A sequentially consistent fence exchanges views through one that all fences share.\<close>

definition atomic_thread_fence :: "thread_id \<Rightarrow> ('l, 'v) atomics \<Rightarrow> 'l view \<Rightarrow> ('l, 'v) atomics \<times> 'l view" where
  "atomic_thread_fence th m t =
     (let t = view_join t (at_sc m) in (m\<lparr>at_sc := t\<rparr>, view_tick th t))"

text \<open>The functions of barrier.h.\<close>

definition IO_URING_WRITE_ONCE :: "thread_id \<Rightarrow> 'l \<Rightarrow> 'v \<Rightarrow> ('l, 'v) atomics \<Rightarrow> 'l view \<Rightarrow> ('l, 'v) atomics \<times> 'l view" where
  "IO_URING_WRITE_ONCE th var v = atomic_store_explicit Relaxed th var v"

definition IO_URING_READ_ONCE :: "nat \<Rightarrow> 'l \<Rightarrow> ('l, 'v) atomics \<Rightarrow> 'l view \<Rightarrow> 'v \<times> 'l view" where
  "IO_URING_READ_ONCE lag var = atomic_load_explicit Relaxed lag var"

definition io_uring_smp_store_release ::
  "thread_id \<Rightarrow> 'l \<Rightarrow> 'v \<Rightarrow> ('l, 'v) atomics \<Rightarrow> 'l view \<Rightarrow> ('l, 'v) atomics \<times> 'l view" where
  "io_uring_smp_store_release th p v = atomic_store_explicit Release th p v"

definition io_uring_smp_load_acquire :: "nat \<Rightarrow> 'l \<Rightarrow> ('l, 'v) atomics \<Rightarrow> 'l view \<Rightarrow> 'v \<times> 'l view" where
  "io_uring_smp_load_acquire lag p = atomic_load_explicit Acquire lag p"

definition io_uring_smp_mb :: "thread_id \<Rightarrow> ('l, 'v) atomics \<Rightarrow> 'l view \<Rightarrow> ('l, 'v) atomics \<times> 'l view" where
  "io_uring_smp_mb th = atomic_thread_fence th"

subsection \<open>Plain accesses\<close>

record 'b cell =
  c_val :: 'b
  c_writer :: thread_id
  c_wr :: nat
  c_rd :: "thread_id \<Rightarrow> nat"

definition cell_init :: "'b \<Rightarrow> 'b cell" where
  "cell_init v = \<lparr>c_val = v, c_writer = Producer, c_wr = 0, c_rd = (\<lambda>_. 0)\<rparr>"

definition plain_read :: "thread_id \<Rightarrow> 'l view \<Rightarrow> 'b cell \<Rightarrow> ('b \<times> 'b cell) result" where
  "plain_read th t c =
     (if c_wr c \<le> vw_clock t (c_writer c)
      then Inr (c_val c, c\<lparr>c_rd := (c_rd c)(th := vw_clock t th)\<rparr>) else Inl Data_Race)"

definition plain_write :: "thread_id \<Rightarrow> 'l view \<Rightarrow> 'b \<Rightarrow> 'b cell \<Rightarrow> 'b cell result" where
  "plain_write th t v c =
     (if c_wr c \<le> vw_clock t (c_writer c) \<and>
         c_rd c Producer \<le> vw_clock t Producer \<and> c_rd c Consumer \<le> vw_clock t Consumer
      then Inr (c\<lparr>c_val := v, c_writer := th, c_wr := vw_clock t th\<rparr>) else Inl Data_Race)"

subsection \<open>A ring between a producer and a consumer\<close>

text \<open>
  What the rings of the library share: an index only the producer stores, an index only the
  consumer stores, and the cells of the elements.
\<close>

datatype location = Prod_Idx | Cons_Idx

lemma location_neq: "l \<noteq> Prod_Idx \<longleftrightarrow> l = Cons_Idx" "l \<noteq> Cons_Idx \<longleftrightarrow> l = Prod_Idx"
  by (cases l; simp)+

record ('v, 'b) spsc =
  sp_at :: "(location, 'v) atomics"
  sp_cells :: "nat \<Rightarrow> 'b cell"
  sp_prod :: "location view"
  sp_cons :: "location view"

definition spsc_init :: "'v \<Rightarrow> 'b \<Rightarrow> ('v, 'b) spsc" where
  "spsc_init v b =
     \<lparr>sp_at = atomics_init (\<lambda>_. v), sp_cells = (\<lambda>_. cell_init b),
      sp_prod = view_start Producer, sp_cons = view_start Consumer\<rparr>"

definition prod_load :: "memory_order \<Rightarrow> nat \<Rightarrow> location \<Rightarrow> ('v, 'b) spsc \<Rightarrow> 'v \<times> ('v, 'b) spsc" where
  "prod_load ord lag l s =
     (let (v, t) = atomic_load_explicit ord lag l (sp_at s) (sp_prod s) in (v, s\<lparr>sp_prod := t\<rparr>))"

definition cons_load :: "memory_order \<Rightarrow> nat \<Rightarrow> location \<Rightarrow> ('v, 'b) spsc \<Rightarrow> 'v \<times> ('v, 'b) spsc" where
  "cons_load ord lag l s =
     (let (v, t) = atomic_load_explicit ord lag l (sp_at s) (sp_cons s) in (v, s\<lparr>sp_cons := t\<rparr>))"

definition prod_store :: "memory_order \<Rightarrow> 'v \<Rightarrow> ('v, 'b) spsc \<Rightarrow> ('v, 'b) spsc" where
  "prod_store ord v s =
     (let (m, t) = atomic_store_explicit ord Producer Prod_Idx v (sp_at s) (sp_prod s)
      in s\<lparr>sp_at := m, sp_prod := t\<rparr>)"

definition cons_store :: "memory_order \<Rightarrow> 'v \<Rightarrow> ('v, 'b) spsc \<Rightarrow> ('v, 'b) spsc" where
  "cons_store ord v s =
     (let (m, t) = atomic_store_explicit ord Consumer Cons_Idx v (sp_at s) (sp_cons s)
      in s\<lparr>sp_at := m, sp_cons := t\<rparr>)"

text \<open>The accesses the sources write with the functions of barrier.h.\<close>

definition prod_smp_load_acquire :: "nat \<Rightarrow> location \<Rightarrow> ('v, 'b) spsc \<Rightarrow> 'v \<times> ('v, 'b) spsc" where
  "prod_smp_load_acquire lag l s =
     (let (v, t) = io_uring_smp_load_acquire lag l (sp_at s) (sp_prod s) in (v, s\<lparr>sp_prod := t\<rparr>))"

definition cons_smp_load_acquire :: "nat \<Rightarrow> location \<Rightarrow> ('v, 'b) spsc \<Rightarrow> 'v \<times> ('v, 'b) spsc" where
  "cons_smp_load_acquire lag l s =
     (let (v, t) = io_uring_smp_load_acquire lag l (sp_at s) (sp_cons s) in (v, s\<lparr>sp_cons := t\<rparr>))"

definition prod_smp_store_release :: "'v \<Rightarrow> ('v, 'b) spsc \<Rightarrow> ('v, 'b) spsc" where
  "prod_smp_store_release v s =
     (let (m, t) = io_uring_smp_store_release Producer Prod_Idx v (sp_at s) (sp_prod s)
      in s\<lparr>sp_at := m, sp_prod := t\<rparr>)"

definition cons_smp_store_release :: "'v \<Rightarrow> ('v, 'b) spsc \<Rightarrow> ('v, 'b) spsc" where
  "cons_smp_store_release v s =
     (let (m, t) = io_uring_smp_store_release Consumer Cons_Idx v (sp_at s) (sp_cons s)
      in s\<lparr>sp_at := m, sp_cons := t\<rparr>)"

lemma smp_accesses [simp]:
  "prod_smp_load_acquire lag l s = prod_load Acquire lag l s"
  "cons_smp_load_acquire lag l s = cons_load Acquire lag l s"
  "prod_smp_store_release v s = prod_store Release v s"
  "cons_smp_store_release v s = cons_store Release v s"
  by (simp_all add: prod_smp_load_acquire_def cons_smp_load_acquire_def prod_smp_store_release_def cons_smp_store_release_def
      io_uring_smp_load_acquire_def io_uring_smp_store_release_def prod_load_def cons_load_def prod_store_def cons_store_def)

definition prod_write :: "nat \<Rightarrow> 'b \<Rightarrow> ('v, 'b) spsc \<Rightarrow> ('v, 'b) spsc result" where
  "prod_write i b s =
     bindE (plain_write Producer (sp_prod s) b (sp_cells s i)) (\<lambda>c. Inr (s\<lparr>sp_cells := (sp_cells s)(i := c)\<rparr>))"

definition cons_read :: "nat \<Rightarrow> ('v, 'b) spsc \<Rightarrow> ('b \<times> ('v, 'b) spsc) result" where
  "cons_read i s =
     bindE (plain_read Consumer (sp_cons s) (sp_cells s i))
       (\<lambda>(b, c). Inr (b, s\<lparr>sp_cells := (sp_cells s)(i := c)\<rparr>))"

text \<open>
  The invariant of a ring of \<open>n\<close> cells. \<open>sent\<close> lists the elements published so far and \<open>r\<close>
  is the consumer's index; the producer has acquired the consumer's index up to \<open>sw\<close>, the
  consumer the producer's up to \<open>sr\<close>. Unread elements are in their cells, and who has
  acquired an index past an element knows of its writing; the same holds the other way
  round for the reading of the elements the producer may overwrite.
\<close>

definition hist_ok :: "(location, 'w :: len word) message list \<Rightarrow> nat \<Rightarrow> bool" where
  "hist_ok h x \<longleftrightarrow> h \<noteq> [] \<and> sorted (map (unat \<circ> msg_val) h) \<and> unat (msg_val (last h)) = x"

definition views_ok :: "('w :: len word, 'b) spsc \<Rightarrow> bool" where
  "views_ok s \<longleftrightarrow>
     vw_seen (sp_prod s) Prod_Idx = length (at_hist (sp_at s) Prod_Idx) - 1 \<and>
     vw_seen (sp_cons s) Cons_Idx = length (at_hist (sp_at s) Cons_Idx) - 1 \<and>
     vw_seen (sp_prod s) Cons_Idx < length (at_hist (sp_at s) Cons_Idx) \<and>
     vw_seen (sp_cons s) Prod_Idx < length (at_hist (sp_at s) Prod_Idx) \<and>
     (\<forall>l. \<forall>msg \<in> set (at_hist (sp_at s) l). \<forall>k. vw_seen (msg_view msg) k < length (at_hist (sp_at s) k))"

definition cells_ok :: "('w :: len word, 'b) spsc \<Rightarrow> bool" where
  "cells_ok s \<longleftrightarrow>
     (\<forall>i. c_writer (sp_cells s i) = Producer \<and> c_wr (sp_cells s i) \<le> vw_clock (sp_prod s) Producer \<and>
          c_rd (sp_cells s i) Producer = 0 \<and> c_rd (sp_cells s i) Consumer \<le> vw_clock (sp_cons s) Consumer)"

text \<open>The index the consumer has seen of the producer, with or without acquiring it.\<close>

definition cons_seen :: "('w :: len word, 'b) spsc \<Rightarrow> nat" where
  "cons_seen s = unat (msg_val (at_hist (sp_at s) Prod_Idx ! vw_seen (sp_cons s) Prod_Idx))"

definition published :: "nat \<Rightarrow> 'b list \<Rightarrow> nat \<Rightarrow> nat \<Rightarrow> ('w :: len word, 'b) spsc \<Rightarrow> bool" where
  "published n sent r sr s \<longleftrightarrow>
     (\<forall>k. r \<le> k \<and> k < length sent \<longrightarrow>
        c_val (sp_cells s (k mod n)) = sent ! k \<and>
        (\<forall>msg \<in> set (at_hist (sp_at s) Prod_Idx).
           k < unat (msg_val msg) \<longrightarrow> c_wr (sp_cells s (k mod n)) \<le> vw_clock (msg_view msg) Producer) \<and>
        (k < sr \<longrightarrow> c_wr (sp_cells s (k mod n)) \<le> vw_clock (sp_cons s) Producer))"

definition released :: "nat \<Rightarrow> nat \<Rightarrow> nat \<Rightarrow> ('w :: len word, 'b) spsc \<Rightarrow> bool" where
  "released n w sw s \<longleftrightarrow>
     (\<forall>k. w \<le> k \<longrightarrow>
        (\<forall>msg \<in> set (at_hist (sp_at s) Cons_Idx).
           k < unat (msg_val msg) + n \<longrightarrow> c_rd (sp_cells s (k mod n)) Consumer \<le> vw_clock (msg_view msg) Consumer) \<and>
        (k < sw + n \<longrightarrow> c_rd (sp_cells s (k mod n)) Consumer \<le> vw_clock (sp_prod s) Consumer))"

definition spsc_inv :: "nat \<Rightarrow> 'b list \<Rightarrow> nat \<Rightarrow> nat \<Rightarrow> nat \<Rightarrow> ('w :: len word, 'b) spsc \<Rightarrow> bool" where
  "spsc_inv n sent sw r sr s \<longleftrightarrow>
     0 < n \<and> sw \<le> r \<and> length sent \<le> sw + n \<and> r \<le> cons_seen s \<and> sr \<le> cons_seen s \<and>
     hist_ok (at_hist (sp_at s) Prod_Idx) (length sent) \<and> hist_ok (at_hist (sp_at s) Cons_Idx) r \<and>
     views_ok s \<and> cells_ok s \<and> published n sent r sr s \<and> released n (length sent) sw s"

subsection \<open>Loads\<close>

lemma hist_ok_nth:
  assumes "hist_ok h x" "i < length h"
  shows "unat (msg_val (h ! i)) \<le> x"
proof -
  have "unat (msg_val (h ! i)) \<le> unat (msg_val (h ! (length h - 1)))"
    using assms sorted_nth_mono [of "map (unat \<circ> msg_val) h" i "length h - 1"] by (auto simp: hist_ok_def)
  then show ?thesis using assms by (auto simp: hist_ok_def last_conv_nth)
qed

lemma hist_ok_mono:
  assumes "hist_ok h x" "i \<le> j" "j < length h"
  shows "unat (msg_val (h ! i)) \<le> unat (msg_val (h ! j))"
  using assms sorted_nth_mono [of "map (unat \<circ> msg_val) h" i j] by (auto simp: hist_ok_def)

lemma hist_ok_snoc:
  assumes "hist_ok h x" "x \<le> unat v"
  shows "hist_ok (h @ [\<lparr>msg_val = v, msg_view = t\<rparr>]) (unat v)"
proof -
  have "unat (msg_val m) \<le> unat v" if "m \<in> set h" for m
    using that hist_ok_nth [OF assms(1)] assms(2) by (fastforce simp: in_set_conv_nth)
  then show ?thesis using assms(1) by (auto simp: hist_ok_def sorted_append)
qed

lemma spsc_invD:
  assumes "spsc_inv n sent sw r sr s"
  shows "0 < n" "sw \<le> r" "length sent \<le> sw + n" "r \<le> cons_seen s" "sr \<le> cons_seen s"
    "hist_ok (at_hist (sp_at s) Prod_Idx) (length sent)" "hist_ok (at_hist (sp_at s) Cons_Idx) r"
    "views_ok s" "cells_ok s" "published n sent r sr s" "released n (length sent) sw s"
  using assms by (auto simp: spsc_inv_def)

lemma cons_seen_le:
  assumes "spsc_inv n sent sw r sr s"
  shows "cons_seen s \<le> length sent"
  using hist_ok_nth [OF spsc_invD(6) [OF assms]] spsc_invD(8) [OF assms]
  by (simp add: views_ok_def cons_seen_def)

lemma spsc_inv_bounds:
  assumes "spsc_inv n sent sw r sr s"
  shows "r \<le> length sent" "sr \<le> length sent" "length sent \<le> r + n"
  using assms cons_seen_le [OF assms] by (auto simp: spsc_inv_def)

lemma load_pos_less:
  assumes "at_hist m l \<noteq> []" "vw_seen t l < length (at_hist m l)"
  shows "load_pos lag l m t < length (at_hist m l)" "vw_seen t l \<le> load_pos lag l m t"
  using assms by (auto simp: load_pos_def)

lemma view_seen_same: "vw_seen t l = i \<Longrightarrow> (t :: 'l view)\<lparr>vw_seen := (vw_seen t)(l := i)\<rparr> = t"
  by (cases t) auto

lemma spsc_same [simp]: "(s :: ('v, 'b) spsc)\<lparr>sp_prod := sp_prod s\<rparr> = s" "s\<lparr>sp_cons := sp_cons s\<rparr> = s"
  by (cases s; simp)+

text \<open>A thread always reads the newest value of the variable only it stores.\<close>

lemma prod_load_own:
  assumes "spsc_inv n sent sw r sr s"
  shows "prod_load Relaxed lag Prod_Idx s = (msg_val (last (at_hist (sp_at s) Prod_Idx)), s)"
    and "unat (msg_val (last (at_hist (sp_at s) Prod_Idx))) = length sent"
proof -
  have h: "at_hist (sp_at s) Prod_Idx \<noteq> []" and v: "vw_seen (sp_prod s) Prod_Idx = length (at_hist (sp_at s) Prod_Idx) - 1"
    using assms by (auto simp: spsc_inv_def hist_ok_def views_ok_def)
  then have "load_pos lag Prod_Idx (sp_at s) (sp_prod s) = vw_seen (sp_prod s) Prod_Idx"
    by (simp add: load_pos_def)
  then show "prod_load Relaxed lag Prod_Idx s = (msg_val (last (at_hist (sp_at s) Prod_Idx)), s)"
    using h v by (simp add: prod_load_def atomic_load_explicit_def Let_def last_conv_nth view_seen_same del: fun_upd_apply)
  show "unat (msg_val (last (at_hist (sp_at s) Prod_Idx))) = length sent"
    using assms by (simp add: spsc_inv_def hist_ok_def)
qed

lemma cons_load_own:
  assumes "spsc_inv n sent sw r sr s"
  shows "cons_load Relaxed lag Cons_Idx s = (msg_val (last (at_hist (sp_at s) Cons_Idx)), s)"
    and "unat (msg_val (last (at_hist (sp_at s) Cons_Idx))) = r"
proof -
  have h: "at_hist (sp_at s) Cons_Idx \<noteq> []" and v: "vw_seen (sp_cons s) Cons_Idx = length (at_hist (sp_at s) Cons_Idx) - 1"
    using assms by (auto simp: spsc_inv_def hist_ok_def views_ok_def)
  then have "load_pos lag Cons_Idx (sp_at s) (sp_cons s) = vw_seen (sp_cons s) Cons_Idx"
    by (simp add: load_pos_def)
  then show "cons_load Relaxed lag Cons_Idx s = (msg_val (last (at_hist (sp_at s) Cons_Idx)), s)"
    using h v by (simp add: cons_load_def atomic_load_explicit_def Let_def last_conv_nth view_seen_same del: fun_upd_apply)
  show "unat (msg_val (last (at_hist (sp_at s) Cons_Idx))) = r"
    using assms by (simp add: spsc_inv_def hist_ok_def)
qed

text \<open>An acquire load of the other side's index, however stale, raises what is acquired.\<close>

lemma prod_acquire:
  assumes "spsc_inv n sent sw r sr s" "prod_load Acquire lag Cons_Idx s = (v, s')"
  shows "spsc_inv n sent (max sw (unat v)) r sr s'" "unat v \<le> r" "unat v \<le> max sw (unat v)"
proof -
  let ?h = "at_hist (sp_at s) Cons_Idx" and ?p = "load_pos lag Cons_Idx (sp_at s) (sp_prod s)"
  note inv = spsc_invD [OF assms(1)]
  have p: "?p < length ?h" "vw_seen (sp_prod s) Cons_Idx \<le> ?p"
    using load_pos_less [of "sp_at s" Cons_Idx "sp_prod s"] inv(7,8) by (auto simp: hist_ok_def views_ok_def)
  have v: "v = msg_val (?h ! ?p)"
    and s': "s' = s\<lparr>sp_prod := view_join ((sp_prod s)\<lparr>vw_seen := (vw_seen (sp_prod s))(Cons_Idx := ?p)\<rparr>) (msg_view (?h ! ?p))\<rparr>"
    using assms(2) by (auto simp: prod_load_def atomic_load_explicit_def Let_def)
  show vr: "unat v \<le> r" using hist_ok_nth [OF inv(7) p(1)] v by simp
  have m: "?h ! ?p \<in> set ?h" using p(1) by simp
  have vw: "vw_seen (msg_view (?h ! ?p)) k < length (at_hist (sp_at s) k)" for k
    using inv(8) m unfolding views_ok_def by blast
  have "views_ok s'"
    using inv(8) p vw [of Prod_Idx] vw [of Cons_Idx] unfolding s' views_ok_def by auto
  moreover have "cells_ok s'" using inv(9) unfolding s' cells_ok_def by (auto simp: le_max_iff_disj)
  moreover have "released n (length sent) (max sw (unat v)) s'"
    using inv(11) m v unfolding s' released_def by (fastforce simp: le_max_iff_disj less_max_iff_disj nat_add_max_left)
  ultimately show "spsc_inv n sent (max sw (unat v)) r sr s'"
    using inv vr unfolding spsc_inv_def s' by (auto simp: cons_seen_def published_def)
qed simp

lemma cons_seen_step:
  assumes "spsc_inv n sent sw r sr s" and p_def: "p = load_pos lag Prod_Idx (sp_at s) (sp_cons s)"
  shows "p < length (at_hist (sp_at s) Prod_Idx)" "vw_seen (sp_cons s) Prod_Idx \<le> p"
    "cons_seen s \<le> unat (msg_val (at_hist (sp_at s) Prod_Idx ! p))"
proof -
  note inv = spsc_invD [OF assms(1)]
  show p: "p < length (at_hist (sp_at s) Prod_Idx)" "vw_seen (sp_cons s) Prod_Idx \<le> p"
    using load_pos_less [of "sp_at s" Prod_Idx "sp_cons s"] inv(6,8) unfolding p_def
    by (auto simp: hist_ok_def views_ok_def)
  show "cons_seen s \<le> unat (msg_val (at_hist (sp_at s) Prod_Idx ! p))"
    using hist_ok_mono [OF inv(6) p(2,1)] by (simp add: cons_seen_def)
qed

lemma cons_acquire:
  assumes "spsc_inv n sent sw r sr s" "cons_load Acquire lag Prod_Idx s = (v, s')"
  shows "spsc_inv n sent sw r (max sr (unat v)) s'" "r \<le> unat v" "unat v \<le> length sent"
proof -
  define p where "p = load_pos lag Prod_Idx (sp_at s) (sp_cons s)"
  let ?h = "at_hist (sp_at s) Prod_Idx"
  note inv = spsc_invD [OF assms(1)]
  note p = cons_seen_step [OF assms(1) p_def]
  have v: "v = msg_val (?h ! p)"
    and s': "s' = s\<lparr>sp_cons := view_join ((sp_cons s)\<lparr>vw_seen := (vw_seen (sp_cons s))(Prod_Idx := p)\<rparr>) (msg_view (?h ! p))\<rparr>"
    using assms(2) by (auto simp: cons_load_def atomic_load_explicit_def Let_def p_def)
  have m: "?h ! p \<in> set ?h" using p(1) by simp
  show "r \<le> unat v" using inv(4) p(3) v by simp
  show "unat v \<le> length sent" using hist_ok_nth [OF inv(6) p(1)] v by simp
  have vw: "vw_seen (msg_view (?h ! p)) k < length (at_hist (sp_at s) k)" for k
    using inv(8) m unfolding views_ok_def by blast
  have "views_ok s'"
    using inv(8) p vw [of Prod_Idx] vw [of Cons_Idx] unfolding s' views_ok_def by auto
  moreover have "cells_ok s'" using inv(9) unfolding s' cells_ok_def by (auto simp: le_max_iff_disj)
  moreover have "published n sent r (max sr (unat v)) s'"
    using inv(10) m v unfolding s' published_def by (fastforce simp: le_max_iff_disj less_max_iff_disj)
  moreover have "unat v \<le> cons_seen s'"
    using hist_ok_mono [OF inv(6), of p "vw_seen (sp_cons s') Prod_Idx"] p(1) vw [of Prod_Idx]
    by (simp add: cons_seen_def v s')
  ultimately show "spsc_inv n sent sw r (max sr (unat v)) s'"
    using inv p(3) v unfolding spsc_inv_def by (auto simp: s' released_def)
qed

text \<open>A relaxed load of the producer's index gives no knowledge of the cells, but it is not older than what was seen.\<close>

lemma cons_relaxed:
  assumes "spsc_inv n sent sw r sr s" "cons_load Relaxed lag Prod_Idx s = (v, s')"
  shows "spsc_inv n sent sw r sr s'" "r \<le> unat v" "unat v = cons_seen s'"
proof -
  define p where "p = load_pos lag Prod_Idx (sp_at s) (sp_cons s)"
  let ?h = "at_hist (sp_at s) Prod_Idx"
  note inv = spsc_invD [OF assms(1)]
  note p = cons_seen_step [OF assms(1) p_def]
  have v: "v = msg_val (?h ! p)" and s': "s' = s\<lparr>sp_cons := (sp_cons s)\<lparr>vw_seen := (vw_seen (sp_cons s))(Prod_Idx := p)\<rparr>\<rparr>"
    using assms(2) by (auto simp: cons_load_def atomic_load_explicit_def Let_def p_def)
  show "r \<le> unat v" using inv(4) p(3) v by simp
  show seen: "unat v = cons_seen s'" by (simp add: cons_seen_def v s')
  have "views_ok s'" using inv(8) p unfolding s' views_ok_def by simp
  then show "spsc_inv n sent sw r sr s'"
    using inv p(3) v seen unfolding spsc_inv_def
    by (auto simp: s' cells_ok_def published_def released_def)
qed

subsection \<open>Stores and plain accesses\<close>

lemma prod_write_ok:
  assumes "spsc_inv n sent sw r sr s" "length sent \<le> k" "k < sw + n"
  shows "\<exists>s'. prod_write (k mod n) b s = Inr s' \<and> spsc_inv n sent sw r sr s' \<and>
    (\<forall>j. c_val (sp_cells s' j) = (if j = k mod n then b else c_val (sp_cells s j)))"
proof -
  let ?i = "k mod n" and ?c = "sp_cells s (k mod n)"
  note inv = spsc_invD [OF assms(1)]
  have c: "c_writer ?c = Producer" "c_wr ?c \<le> vw_clock (sp_prod s) Producer" "c_rd ?c Producer = 0"
    "c_rd ?c Consumer \<le> vw_clock (sp_prod s) Consumer"
    using inv(9,11) assms(2,3) by (auto simp: cells_ok_def released_def)
  define s' where "s' = s\<lparr>sp_cells := (sp_cells s)(?i := ?c\<lparr>c_val := b, c_writer := Producer, c_wr := vw_clock (sp_prod s) Producer\<rparr>)\<rparr>"
  have w: "prod_write ?i b s = Inr s'"
    using c by (simp add: prod_write_def plain_write_def s'_def)
  have other: "j mod n \<noteq> ?i" if "r \<le> j" "j < length sent" for j
    using mod_neq_within [of j k n] that assms(2,3) inv(2) by simp
  have "published n sent r sr s'"
    using inv(10) other unfolding published_def by (simp add: s'_def)
  moreover have "released n (length sent) sw s'"
    using inv(11) unfolding released_def by (auto simp: s'_def)
  moreover have "cells_ok s'" using inv(9) unfolding cells_ok_def by (simp add: s'_def)
  ultimately have "spsc_inv n sent sw r sr s'"
    using inv unfolding spsc_inv_def by (simp add: s'_def cons_seen_def views_ok_def)
  with w show ?thesis by (auto simp: s'_def)
qed

lemma cons_read_ok:
  assumes "spsc_inv n sent sw r sr s" "r \<le> k" "k < sr"
  shows "\<exists>s'. cons_read (k mod n) s = Inr (sent ! k, s') \<and> spsc_inv n sent sw r sr s'"
proof -
  let ?i = "k mod n" and ?c = "sp_cells s (k mod n)"
  note inv = spsc_invD [OF assms(1)]
  have kl: "k < length sent" using spsc_inv_bounds(2) [OF assms(1)] assms(3) by simp
  have c: "c_writer ?c = Producer" "c_val ?c = sent ! k" "c_wr ?c \<le> vw_clock (sp_cons s) Producer"
    using inv(9,10) assms(2,3) kl by (auto simp: cells_ok_def published_def)
  define s' where "s' = s\<lparr>sp_cells := (sp_cells s)(?i := ?c\<lparr>c_rd := (c_rd ?c)(Consumer := vw_clock (sp_cons s) Consumer)\<rparr>)\<rparr>"
  have rd: "cons_read ?i s = Inr (sent ! k, s')"
    using c by (simp add: cons_read_def plain_read_def s'_def)
  have other: "j mod n \<noteq> ?i" if "length sent \<le> j" "j < r + n" for j
    using mod_neq_within [of k j n] that assms(2) kl by auto
  have val: "unat (msg_val m) \<le> r" if "m \<in> set (at_hist (sp_at s) Cons_Idx)" for m
    using that hist_ok_nth [OF inv(7)] by (metis in_set_conv_nth)
  have "released n (length sent) sw s'"
    unfolding released_def
  proof (intro allI impI conjI ballI)
    fix j m assume j: "length sent \<le> j" and m: "m \<in> set (at_hist (sp_at s') Cons_Idx)" "j < unat (msg_val m) + n"
    then have "j mod n \<noteq> ?i" using other [of j] val [of m] by (simp add: s'_def)
    then show "c_rd (sp_cells s' (j mod n)) Consumer \<le> vw_clock (msg_view m) Consumer"
      using inv(11) j m by (simp add: s'_def released_def)
  next
    fix j assume j: "length sent \<le> j" "j < sw + n"
    then have "j mod n \<noteq> ?i" using other [of j] inv(2) by simp
    then show "c_rd (sp_cells s' (j mod n)) Consumer \<le> vw_clock (sp_prod s') Consumer"
      using inv(11) j by (simp add: s'_def released_def)
  qed
  moreover have "published n sent r sr s'"
    using inv(10) unfolding published_def by (auto simp: s'_def)
  moreover have "cells_ok s'" using inv(9) unfolding cells_ok_def by (simp add: s'_def)
  ultimately have "spsc_inv n sent sw r sr s'"
    using inv unfolding spsc_inv_def by (simp add: s'_def cons_seen_def views_ok_def)
  with rd show ?thesis by blast
qed

lemma prod_commit:
  assumes "spsc_inv n sent sw r sr s" "unat v = length sent + j" "length sent + j \<le> sw + n"
  shows "spsc_inv n (sent @ map (\<lambda>i. c_val (sp_cells s ((length sent + i) mod n))) [0 ..< j]) sw r sr (prod_store Release v s)"
proof -
  let ?s = "prod_store Release v s" and ?h = "at_hist (sp_at s) Prod_Idx"
  let ?sent = "sent @ map (\<lambda>i. c_val (sp_cells s ((length sent + i) mod n))) [0 ..< j]"
  define t where "t = (sp_prod s)\<lparr>vw_seen := (vw_seen (sp_prod s))(Prod_Idx := length ?h)\<rparr>"
  note inv = spsc_invD [OF assms(1)]
  have st: "?s = s\<lparr>sp_at := (sp_at s)\<lparr>at_hist := (at_hist (sp_at s))(Prod_Idx := ?h @ [\<lparr>msg_val = v, msg_view = t\<rparr>])\<rparr>,
                   sp_prod := view_tick Producer t\<rparr>"
    by (simp add: prod_store_def atomic_store_explicit_def Let_def t_def)
  have c: "vw_clock t = vw_clock (sp_prod s)" by (simp add: t_def)
  have ne: "?h \<noteq> []" "at_hist (sp_at s) Cons_Idx \<noteq> []" using inv(6,7) by (auto simp: hist_ok_def)
  have seen: "vw_seen (sp_cons s) Prod_Idx < length ?h" using inv(8) by (simp add: views_ok_def)
  have h: "hist_ok (at_hist (sp_at ?s) Prod_Idx) (length ?sent)"
    using hist_ok_snoc [OF inv(6), of v] assms(2) by (simp add: st)
  have cs: "cons_seen ?s = cons_seen s" using seen by (simp add: cons_seen_def st nth_append)
  have vo: "views_ok ?s"
    using inv(8) ne unfolding views_ok_def st t_def by (auto simp: less_Suc_eq location_neq)
  have co: "cells_ok ?s" using inv(9) unfolding cells_ok_def st by (auto simp: c le_Suc_eq)
  have wr: "c_wr (sp_cells s i) \<le> vw_clock (sp_prod s) Producer" for i using inv(9) by (simp add: cells_ok_def)
  have pu: "published n ?sent r sr ?s"
    unfolding published_def
  proof (intro allI impI conjI ballI; elim conjE)
    fix k assume k: "r \<le> k" "k < length ?sent"
    show "c_val (sp_cells ?s (k mod n)) = ?sent ! k"
      using inv(10) k by (cases "k < length sent") (auto simp: published_def st nth_append)
  next
    fix k m assume k: "r \<le> k" "k < length ?sent" "m \<in> set (at_hist (sp_at ?s) Prod_Idx)" "k < unat (msg_val m)"
    show "c_wr (sp_cells ?s (k mod n)) \<le> vw_clock (msg_view m) Producer"
    proof (cases "m \<in> set ?h")
      case True
      then have "unat (msg_val m) \<le> length sent" using hist_ok_nth [OF inv(6)] by (fastforce simp: in_set_conv_nth)
      then show ?thesis using inv(10) k True by (auto simp: published_def st)
    next
      case False
      then show ?thesis using k wr by (simp add: st c)
    qed
  next
    fix k assume k: "r \<le> k" "k < length ?sent" "k < sr"
    then have "k < length sent" using spsc_inv_bounds(2) [OF assms(1)] by simp
    then show "c_wr (sp_cells ?s (k mod n)) \<le> vw_clock (sp_cons ?s) Producer"
      using inv(10) k by (simp add: published_def st)
  qed
  have "released n (length ?sent) sw ?s"
    using inv(11) unfolding released_def by (simp add: st c)
  then show ?thesis
    using inv h cs vo co pu assms(3) unfolding spsc_inv_def by (simp add: st)
qed

lemma cons_commit:
  assumes "spsc_inv n sent sw r sr s" "r \<le> unat v" "unat v \<le> cons_seen s"
  shows "spsc_inv n sent sw (unat v) sr (cons_store Release v s)"
proof -
  let ?s = "cons_store Release v s" and ?h = "at_hist (sp_at s) Cons_Idx"
  define t where "t = (sp_cons s)\<lparr>vw_seen := (vw_seen (sp_cons s))(Cons_Idx := length ?h)\<rparr>"
  note inv = spsc_invD [OF assms(1)]
  have st: "?s = s\<lparr>sp_at := (sp_at s)\<lparr>at_hist := (at_hist (sp_at s))(Cons_Idx := ?h @ [\<lparr>msg_val = v, msg_view = t\<rparr>])\<rparr>,
                   sp_cons := view_tick Consumer t\<rparr>"
    by (simp add: cons_store_def atomic_store_explicit_def Let_def t_def)
  have c: "vw_clock t = vw_clock (sp_cons s)" by (simp add: t_def)
  have ne: "?h \<noteq> []" "at_hist (sp_at s) Prod_Idx \<noteq> []" using inv(6,7) by (auto simp: hist_ok_def)
  have h: "hist_ok (at_hist (sp_at ?s) Cons_Idx) (unat v)"
    using hist_ok_snoc [OF inv(7) assms(2)] by (simp add: st)
  have cs: "cons_seen ?s = cons_seen s" by (simp add: cons_seen_def st t_def)
  have vo: "views_ok ?s"
    using inv(8) ne unfolding views_ok_def st t_def by (auto simp: less_Suc_eq location_neq)
  have co: "cells_ok ?s" using inv(9) unfolding cells_ok_def st by (auto simp: c le_Suc_eq)
  have rd: "c_rd (sp_cells s i) Consumer \<le> vw_clock (sp_cons s) Consumer" for i using inv(9) by (simp add: cells_ok_def)
  have "released n (length sent) sw ?s"
    using inv(11) rd unfolding released_def by (auto simp: st c)
  moreover have "published n sent (unat v) sr ?s"
    using inv(10) assms(2) unfolding published_def by (simp add: st c)
  ultimately show ?thesis
    using inv h cs vo co assms(2,3) unfolding spsc_inv_def by (simp add: st)
qed

lemma spsc_init_inv:
  assumes "0 < n"
  shows "spsc_inv n [] 0 0 0 (spsc_init (0 :: 'w :: len word) b)"
  using assms
  by (simp add: spsc_inv_def spsc_init_def atomics_init_def hist_ok_def views_ok_def cells_ok_def
      published_def released_def cons_seen_def view_start_def view_bot_def cell_init_def)

subsection \<open>The contract of a ring\<close>

text \<open>
  A user of such a ring: its steps keep an invariant that implies the one above. Then, in
  every state it reaches, the elements between the consumer's index and what it has acquired
  can be read without a race and are the ones that were published, and the cells the
  producer may use can be written without a race.
\<close>

locale spsc_user =
  fixes step :: "'s \<Rightarrow> 's \<Rightarrow> bool" and inv :: "'s \<Rightarrow> bool"
    and ring :: "'s \<Rightarrow> ('w :: len word, 'b) spsc" and cap :: "'s \<Rightarrow> nat" and sent :: "'s \<Rightarrow> 'b list"
  assumes inv_step: "inv s \<Longrightarrow> step s s' \<Longrightarrow> inv s'"
    and inv_ring: "inv s \<Longrightarrow> \<exists>sw r sr. spsc_inv (cap s) (sent s) sw r sr (ring s)"
begin

lemma reachable_inv:
  assumes "step\<^sup>*\<^sup>* s0 s" "inv s0"
  shows "inv s"
  using assms by (induction rule: rtranclp_induct) (auto intro: inv_step)

lemma reachable_bounded:
  assumes "step\<^sup>*\<^sup>* s0 s" "inv s0"
  shows "\<exists>r. length (sent s) \<le> r + cap s \<and> r \<le> length (sent s) \<and>
    unat (msg_val (last (at_hist (sp_at (ring s)) Cons_Idx))) = r"
proof -
  obtain sw r sr where "spsc_inv (cap s) (sent s) sw r sr (ring s)"
    using inv_ring reachable_inv [OF assms] by blast
  from spsc_inv_bounds [OF this] cons_load_own(2) [OF this] show ?thesis by auto
qed

end

text \<open>
  The orders matter: an element published with a relaxed store, as
  \<^verbatim>\<open>IO_URING_WRITE_ONCE\<close> does it, is read in a race even when the index is acquired.
\<close>

definition publish_relaxed :: "(u64, nat) spsc result" where
  "publish_relaxed =
     bindE (prod_write 0 7 (spsc_init 0 0)) (\<lambda>s.
       let (m, t) = IO_URING_WRITE_ONCE Producer Prod_Idx 1 (sp_at s) (sp_prod s)
       in Inr (s\<lparr>sp_at := m, sp_prod := t\<rparr>))"

lemma relaxed_publication_races:
  "bindE publish_relaxed (\<lambda>s. cons_read 0 (snd (cons_load Acquire 0 Prod_Idx s))) = Inl Data_Race"
  by (simp add: publish_relaxed_def IO_URING_WRITE_ONCE_def prod_write_def plain_write_def spsc_init_def
      atomics_init_def cell_init_def view_start_def view_bot_def atomic_store_explicit_def Let_def
      cons_load_def atomic_load_explicit_def load_pos_def view_join_def cons_read_def plain_read_def)

end
