(* ===== verification/Ring_Concurrent.thy ===== *)
theory Ring_Concurrent
  imports Ring_Buffer Memory_Order
begin

unbundle bit_operations_syntax

text \<open>
  The ring of include/data_struct/ring_buffer.h between two threads under the memory orders
  the code asks for. The two indices are the atomic variables of \<open>spsc\<close>, the blocks its
  cells (one per block, holding the bytes); the screenshots, the \<^verbatim>\<open>buffer_info\<close> of each side
  and the block vector are in the record \<open>ring_buffer\<close>, whose fields \<open>w_idx\<close> and \<open>r_idx\<close> are
  replaced by the atomic variables. The index computations are the ones of the theory
  Ring_Buffer. Every operation has a \<open>lag\<close> that says how stale the value of the other
  side's index is; a thread reads its own index as it is whatever the lag.
\<close>

type_synonym block = "8 word list"

record conc_ring =
  cg_mem :: "(u64, block) spsc"
  cg_rb :: ring_buffer

definition conc_ring_new :: "ring_buffer \<Rightarrow> conc_ring" where
  "conc_ring_new rb = \<lparr>cg_mem = spsc_init 0 [], cg_rb = rb\<rparr>"

abbreviation ring_cap :: "conc_ring \<Rightarrow> nat" where
  "ring_cap g \<equiv> length (rb_data (cg_rb g))"

subsection \<open>The writer\<close>

definition ra_internal_writer_get_buffer :: "nat \<Rightarrow> u64 \<Rightarrow> conc_ring \<Rightarrow> (bool \<times> conc_ring) result" where
  "ra_internal_writer_get_buffer lag read_idx g =
     (let (write_idx, m) = prod_load Relaxed lag Prod_Idx (cg_mem g)
      in bindE (internal_writer_get_buffer read_idx ((cg_rb g)\<lparr>w_idx := write_idx\<rparr>))
           (\<lambda>(ok, rb). Inr (ok, \<lparr>cg_mem = m, cg_rb = rb\<rparr>)))"

definition ra_writer_get_buffer :: "nat \<Rightarrow> conc_ring \<Rightarrow> (bool \<times> conc_ring) result" where
  "ra_writer_get_buffer lag g =
     (let (v, m) = prod_load Acquire lag Cons_Idx (cg_mem g)
      in ra_internal_writer_get_buffer lag v (g\<lparr>cg_mem := m\<rparr>))"

definition ra_writer_get_buffer_cnt :: "nat \<Rightarrow> u64 \<Rightarrow> conc_ring \<Rightarrow> (bool \<times> conc_ring) result" where
  "ra_writer_get_buffer_cnt lag need_cnt g =
     bindE (ra_internal_writer_get_buffer lag (w_reader_shot (cg_rb g)) g) (\<lambda>(ok, g).
       if ok \<and> need_cnt \<le> ucast (bi_cnt (w_buf (cg_rb g))) then Inr (True, g)
       else
         let (v, m) = prod_load Acquire lag Cons_Idx (cg_mem g)
         in ra_internal_writer_get_buffer lag v (g\<lparr>cg_mem := m, cg_rb := (cg_rb g)\<lparr>w_reader_shot := v\<rparr>\<rparr>))"

definition ra_writer_commit :: "nat \<Rightarrow> u64 \<Rightarrow> conc_ring \<Rightarrow> conc_ring" where
  "ra_writer_commit lag done_cnt g =
     (let (v, m) = prod_load Relaxed lag Prod_Idx (cg_mem g)
      in g\<lparr>cg_mem := prod_store Release (v + done_cnt) m\<rparr>)"

text \<open>The application fills \<^verbatim>\<open>iov_[j]\<close> of the buffer it was given, or reads its first block.\<close>

definition ra_write_block :: "nat \<Rightarrow> block \<Rightarrow> conc_ring \<Rightarrow> conc_ring result" where
  "ra_write_block j bytes g =
     (case bi_iov (w_buf (cg_rb g)) of
        None \<Rightarrow> Inl Null_Deref
      | Some i \<Rightarrow>
          if ring_cap g \<le> i + j then Inl Out_Of_Bounds
          else bindE (prod_write (i + j) bytes (cg_mem g)) (\<lambda>m. Inr (g\<lparr>cg_mem := m\<rparr>)))"

definition ra_put :: "nat \<Rightarrow> block \<Rightarrow> conc_ring \<Rightarrow> (int \<times> conc_ring) result" where
  "ra_put lag bytes g =
     bindE (get_block_size (cg_rb g)) (\<lambda>sz.
     if \<not> length bytes \<le> unat sz then Inr (- 1, g)
     else
       bindE (ra_writer_get_buffer_cnt lag 1 g) (\<lambda>(ok, g).
       if \<not> ok then Inr (- 2, g)
       else bindE (ra_write_block 0 bytes g) (\<lambda>g. Inr (0, ra_writer_commit lag 1 g))))"

subsection \<open>The reader\<close>

definition ra_internal_reader_get_buffer :: "u64 \<Rightarrow> u64 \<Rightarrow> conc_ring \<Rightarrow> (bool \<times> conc_ring) result" where
  "ra_internal_reader_get_buffer write_idx read_idx g =
     bindE (internal_reader_get_buffer write_idx read_idx (cg_rb g)) (\<lambda>(ok, rb). Inr (ok, g\<lparr>cg_rb := rb\<rparr>))"

definition ra_reader_get_buffer :: "nat \<Rightarrow> conc_ring \<Rightarrow> (bool \<times> conc_ring) result" where
  "ra_reader_get_buffer lag g =
     (let (w, m) = cons_load Acquire lag Prod_Idx (cg_mem g); (r, m) = cons_load Relaxed lag Cons_Idx m
      in ra_internal_reader_get_buffer w r (g\<lparr>cg_mem := m\<rparr>))"

definition ra_reader_get_buffer_cnt :: "nat \<Rightarrow> u64 \<Rightarrow> conc_ring \<Rightarrow> (bool \<times> conc_ring) result" where
  "ra_reader_get_buffer_cnt lag need_cnt g =
     (let (r, m) = cons_load Relaxed lag Cons_Idx (cg_mem g)
      in bindE (ra_internal_reader_get_buffer (r_writer_shot (cg_rb g)) r (g\<lparr>cg_mem := m\<rparr>)) (\<lambda>(ok, g).
           if ok \<and> need_cnt \<le> ucast (bi_cnt (r_buf (cg_rb g))) then Inr (True, g)
           else
             let (w, m) = cons_load Acquire lag Prod_Idx (cg_mem g)
             in ra_internal_reader_get_buffer w r (g\<lparr>cg_mem := m, cg_rb := (cg_rb g)\<lparr>r_writer_shot := w\<rparr>\<rparr>)))"

definition ra_internal_reader_get_buffer_at :: "nat \<Rightarrow> u64 \<Rightarrow> u64 \<Rightarrow> conc_ring \<Rightarrow> (int \<times> conc_ring) result" where
  "ra_internal_reader_get_buffer_at lag read_idx writer_idx g =
     (let (r, m) = cons_load Relaxed lag Cons_Idx (cg_mem g)
      in bindE (internal_reader_get_buffer_at read_idx writer_idx ((cg_rb g)\<lparr>r_idx := r\<rparr>))
           (\<lambda>(ret, rb). Inr (ret, \<lparr>cg_mem = m, cg_rb = rb\<rparr>)))"

definition ra_reader_get_buffer_at :: "nat \<Rightarrow> u64 \<Rightarrow> conc_ring \<Rightarrow> (int \<times> conc_ring) result" where
  "ra_reader_get_buffer_at lag read_idx g =
     (let (w, m) = cons_load Acquire lag Prod_Idx (cg_mem g)
      in ra_internal_reader_get_buffer_at lag read_idx w (g\<lparr>cg_mem := m\<rparr>))"

definition ra_reader_commit :: "nat \<Rightarrow> u64 \<Rightarrow> conc_ring \<Rightarrow> conc_ring" where
  "ra_reader_commit lag done_cnt g =
     (let (r, m) = cons_load Relaxed lag Cons_Idx (cg_mem g)
      in g\<lparr>cg_mem := cons_store Release (r + done_cnt) m\<rparr>)"

definition ra_reader_reset_out :: "nat \<Rightarrow> conc_ring \<Rightarrow> conc_ring" where
  "ra_reader_reset_out lag g =
     (let (w, m) = cons_load Relaxed lag Prod_Idx (cg_mem g)
      in g\<lparr>cg_mem := cons_store Release w m, cg_rb := (cg_rb g)\<lparr>r_writer_shot := w\<rparr>\<rparr>)"

definition ra_reader_get_unread_cnt :: "nat \<Rightarrow> conc_ring \<Rightarrow> u64 \<times> conc_ring" where
  "ra_reader_get_unread_cnt lag g =
     (let (w, m) = cons_load Acquire lag Prod_Idx (cg_mem g); (r, m) = cons_load Relaxed lag Cons_Idx m
      in (w - r, g\<lparr>cg_mem := m, cg_rb := (cg_rb g)\<lparr>r_writer_shot := w\<rparr>\<rparr>))"

definition ra_empty :: "nat \<Rightarrow> conc_ring \<Rightarrow> (bool \<times> conc_ring) result" where
  "ra_empty lag g = bindE (ra_reader_get_buffer lag g) (\<lambda>(ok, g). Inr (\<not> ok, g))"

definition ra_read_block :: "conc_ring \<Rightarrow> (block \<times> conc_ring) result" where
  "ra_read_block g =
     (case bi_iov (r_buf (cg_rb g)) of
        None \<Rightarrow> Inl Null_Deref
      | Some i \<Rightarrow> bindE (cons_read i (cg_mem g)) (\<lambda>(b, m). Inr (b, g\<lparr>cg_mem := m\<rparr>)))"

text \<open>The four accessors of the indices.\<close>

definition writer_get_writer_idx :: "nat \<Rightarrow> conc_ring \<Rightarrow> u64" where
  "writer_get_writer_idx lag g = fst (prod_load Relaxed lag Prod_Idx (cg_mem g))"

definition writer_get_reader_idx :: "nat \<Rightarrow> conc_ring \<Rightarrow> u64" where
  "writer_get_reader_idx lag g = fst (prod_load Acquire lag Cons_Idx (cg_mem g))"

definition reader_get_reader_idx :: "nat \<Rightarrow> conc_ring \<Rightarrow> u64" where
  "reader_get_reader_idx lag g = fst (cons_load Relaxed lag Cons_Idx (cg_mem g))"

definition reader_get_writer_idx :: "nat \<Rightarrow> conc_ring \<Rightarrow> u64" where
  "reader_get_writer_idx lag g = fst (cons_load Acquire lag Prod_Idx (cg_mem g))"

subsection \<open>The two threads\<close>

text \<open>
  A state of both threads: the ring, the blocks committed so far, the number of blocks the
  writer was given and has not used up, and the index the reader was pointed at. The writer
  fills blocks it was given and commits at most those; the reader reads the block it was
  pointed at and commits up to it. The writer's index stays below \<open>2 ^ 64\<close>.
\<close>

type_synonym threads = "conc_ring \<times> block list \<times> nat \<times> nat option"

definition given :: "bool \<Rightarrow> conc_ring \<Rightarrow> nat" where
  "given ok g = (if ok then unat (bi_cnt (w_buf (cg_rb g))) else 0)"

definition pointed :: "bool \<Rightarrow> u64 \<Rightarrow> nat option" where
  "pointed ok k = (if ok then Some (unat k) else None)"

inductive ra_step :: "threads \<Rightarrow> threads \<Rightarrow> bool" where
  w_get: "ra_writer_get_buffer lag g = Inr (ok, g')
    \<Longrightarrow> ra_step (g, sent, wg, ro) (g', sent, given ok g', ro)"
| w_get_cnt: "ra_writer_get_buffer_cnt lag need g = Inr (ok, g')
    \<Longrightarrow> ra_step (g, sent, wg, ro) (g', sent, given ok g', ro)"
| w_write: "j < wg \<Longrightarrow> ra_write_block j bytes g = Inr g' \<Longrightarrow> ra_step (g, sent, wg, ro) (g', sent, wg, ro)"
| w_commit: "k \<le> wg \<Longrightarrow> length sent + k < 2 ^ 64
    \<Longrightarrow> ra_step (g, sent, wg, ro)
          (ra_writer_commit lag (word_of_nat k) g,
           sent @ map (\<lambda>i. c_val (sp_cells (cg_mem g) ((length sent + i) mod ring_cap g))) [0 ..< k], 0, ro)"
| w_put: "length sent + 1 < 2 ^ 64 \<Longrightarrow> ra_put lag bytes g = Inr (ret, g')
    \<Longrightarrow> ra_step (g, sent, wg, ro) (g', if ret = 0 then sent @ [bytes] else sent, 0, ro)"
| r_get: "ra_reader_get_buffer lag g = Inr (ok, g')
    \<Longrightarrow> ra_step (g, sent, wg, ro) (g', sent, wg, pointed ok (reader_get_reader_idx lag g'))"
| r_get_cnt: "ra_reader_get_buffer_cnt lag need g = Inr (ok, g')
    \<Longrightarrow> ra_step (g, sent, wg, ro) (g', sent, wg, pointed ok (reader_get_reader_idx lag g'))"
| r_get_at: "ra_reader_get_buffer_at lag k g = Inr (ret, g')
    \<Longrightarrow> ra_step (g, sent, wg, ro) (g', sent, wg, pointed (ret = 0) k)"
| r_read: "ra_read_block g = Inr (b, g') \<Longrightarrow> ro \<noteq> None \<Longrightarrow> ra_step (g, sent, wg, ro) (g', sent, wg, ro)"
| r_commit: "unat (reader_get_reader_idx lag g) + j \<le> Suc k
    \<Longrightarrow> ra_step (g, sent, wg, Some k) (ra_reader_commit lag (word_of_nat j) g, sent, wg, None)"
| r_reset: "ra_step (g, sent, wg, ro) (ra_reader_reset_out lag g, sent, wg, None)"
| r_unread: "ra_reader_get_unread_cnt lag g = (cnt, g') \<Longrightarrow> ra_step (g, sent, wg, ro) (g', sent, wg, ro)"

text \<open>The invariant: what each side holds lies within what it has acquired.\<close>

definition ra_holds :: "nat \<Rightarrow> nat \<Rightarrow> nat \<Rightarrow> threads \<Rightarrow> bool" where
  "ra_holds sw r sr st \<longleftrightarrow>
     (case st of (g, sent, wg, ro) \<Rightarrow>
        ring_wf (cg_rb g) \<and> spsc_inv (ring_cap g) sent sw r sr (cg_mem g) \<and>
        unat (w_reader_shot (cg_rb g)) \<le> sw \<and> unat (r_writer_shot (cg_rb g)) \<le> max sr r \<and>
        (0 < wg \<longrightarrow> length sent + wg \<le> sw + ring_cap g \<and> length sent mod ring_cap g + wg \<le> ring_cap g \<and>
           bi_iov (w_buf (cg_rb g)) = Some (length sent mod ring_cap g)) \<and>
        (\<forall>k. ro = Some k \<longrightarrow> r \<le> k \<and> k < sr \<and> bi_iov (r_buf (cg_rb g)) = Some (k mod ring_cap g)))"

definition ra_inv :: "threads \<Rightarrow> bool" where
  "ra_inv st \<longleftrightarrow> (\<exists>sw r sr. ra_holds sw r sr st)"

lemma ra_holdsD:
  assumes "ra_holds sw r sr (g, sent, wg, ro)"
  shows "ring_wf (cg_rb g)" "spsc_inv (ring_cap g) sent sw r sr (cg_mem g)"
    "unat (w_reader_shot (cg_rb g)) \<le> sw" "unat (r_writer_shot (cg_rb g)) \<le> max sr r"
    "0 < wg \<Longrightarrow> length sent + wg \<le> sw + ring_cap g \<and> length sent mod ring_cap g + wg \<le> ring_cap g \<and>
       bi_iov (w_buf (cg_rb g)) = Some (length sent mod ring_cap g)"
    "ro = Some k \<Longrightarrow> r \<le> k \<and> k < sr \<and> bi_iov (r_buf (cg_rb g)) = Some (k mod ring_cap g)"
  using assms by (auto simp: ra_holds_def)

lemma ring_wf_upd [simp]:
  "ring_wf (rb\<lparr>w_idx := a\<rparr>) = ring_wf rb" "ring_wf (rb\<lparr>r_idx := a\<rparr>) = ring_wf rb"
  "ring_wf (rb\<lparr>w_buf := x\<rparr>) = ring_wf rb" "ring_wf (rb\<lparr>r_buf := x\<rparr>) = ring_wf rb"
  "ring_wf (rb\<lparr>w_reader_shot := a\<rparr>) = ring_wf rb" "ring_wf (rb\<lparr>r_writer_shot := a\<rparr>) = ring_wf rb"
  by (simp_all add: ring_wf_def)

lemma w_grant_contiguous: "0 < n \<Longrightarrow> w mod n + w_grant n s w \<le> n"
  using mod_less_divisor [of n s] mod_less_divisor [of n w] by (auto simp: w_grant_def)

subsection \<open>Requests of the writer\<close>

lemma ra_internal_writer:
  assumes "ra_holds sw r sr (g, sent, wg, ro)" "unat s \<le> sw"
  obtains ok g' where "ra_internal_writer_get_buffer lag s g = Inr (ok, g')"
    and "ra_holds sw r sr (g', sent, given ok g', ro)"
    and "ring_cap g' = ring_cap g" and "ok \<Longrightarrow> 0 < given ok g'"
proof -
  note h = ra_holdsD [OF assms(1)]
  let ?n = "ring_cap g" and ?v = "msg_val (last (at_hist (sp_at (cg_mem g)) Prod_Idx))"
  note own = prod_load_own [OF h(2)]
  let ?rb = "(cg_rb g)\<lparr>w_idx := ?v\<rparr>"
  have sl: "unat s \<le> length sent" using assms(2) spsc_invD(2) [OF h(2)] spsc_inv_bounds(1) [OF h(2)] by simp
  have "s \<le> w_idx ?rb" using sl own(2) by (simp add: word_le_nat_alt)
  note cases = internal_writer_cases [of ?rb s, OF _ this]
  let ?c = "w_grant ?n (unat s) (length sent)"
  define gt where "gt = \<lparr>cg_mem = cg_mem g, cg_rb = ?rb\<lparr>w_buf := (w_buf (cg_rb g))\<lparr>bi_iov := Some (length sent mod ?n), bi_cnt := word_of_nat ?c\<rparr>\<rparr>\<rparr>"
  define gf where "gf = \<lparr>cg_mem = cg_mem g, cg_rb = ?rb\<rparr>"
  have eq: "ra_internal_writer_get_buffer lag s g =
      (if length sent - unat s < ?n then Inr (True, gt) else Inr (False, gf))"
    unfolding gt_def gf_def using cases h(1) own by (simp add: ra_internal_writer_get_buffer_def)
  have n: "0 < ?n" "?n < 2 ^ 32" using h(1) ring_wf_facts(1) by (auto simp: ring_wf_def)
  show ?thesis
  proof (cases "length sent - unat s < ?n")
    case True
    have c: "0 < ?c" "length sent + ?c \<le> unat s + ?n" "?c \<le> ?n" "length sent mod ?n + ?c \<le> ?n"
      using w_grant_bounds [OF n(1) sl True] w_grant_contiguous [OF n(1)] by auto
    then have "unat (word_of_nat ?c :: u32) = ?c"
      using n(2) by (simp add: unsigned_of_nat take_bit_nat_eq_self)
    then show ?thesis
      using eq True c h assms(2) by (intro that [of True gt]) (auto simp: ra_holds_def given_def gt_def)
  next
    case False
    then show ?thesis
      using eq h by (intro that [of False gf]) (auto simp: ra_holds_def given_def gf_def)
  qed
qed

lemma ra_prod_acquire:
  assumes "ra_holds sw r sr (g, sent, wg, ro)" "prod_load Acquire lag Cons_Idx (cg_mem g) = (v, m)"
  shows "ra_holds (max sw (unat v)) r sr (g\<lparr>cg_mem := m\<rparr>, sent, wg, ro)"
    and "ra_holds (max sw (unat v)) r sr (g\<lparr>cg_mem := m, cg_rb := (cg_rb g)\<lparr>w_reader_shot := v\<rparr>\<rparr>, sent, wg, ro)"
  using ra_holdsD [OF assms(1)] prod_acquire [OF ra_holdsD(2) [OF assms(1)] assms(2)]
  by (auto simp: ra_holds_def)

lemma ra_writer_get_buffer_ok:
  assumes "ra_inv (g, sent, wg, ro)"
  obtains ok g' where "ra_writer_get_buffer lag g = Inr (ok, g')" and "ra_inv (g', sent, given ok g', ro)"
proof -
  obtain sw r sr where h: "ra_holds sw r sr (g, sent, wg, ro)" using assms by (auto simp: ra_inv_def)
  obtain v m where l: "prod_load Acquire lag Cons_Idx (cg_mem g) = (v, m)" by fastforce
  obtain ok g' where "ra_internal_writer_get_buffer lag v (g\<lparr>cg_mem := m\<rparr>) = Inr (ok, g')"
    "ra_holds (max sw (unat v)) r sr (g', sent, given ok g', ro)"
    using ra_internal_writer [OF ra_prod_acquire(1) [OF h l]] by (metis max.cobounded2)
  then show ?thesis using that l by (auto simp: ra_writer_get_buffer_def ra_inv_def)
qed

lemma ra_writer_get_buffer_cnt_ok:
  assumes "ra_inv (g, sent, wg, ro)"
  obtains ok g' where "ra_writer_get_buffer_cnt lag need g = Inr (ok, g')" and "ra_inv (g', sent, given ok g', ro)"
    and "ring_cap g' = ring_cap g" and "ok \<Longrightarrow> 0 < given ok g'"
proof -
  obtain sw r sr where h: "ra_holds sw r sr (g, sent, wg, ro)" using assms by (auto simp: ra_inv_def)
  obtain ok g1 where 1: "ra_internal_writer_get_buffer lag (w_reader_shot (cg_rb g)) g = Inr (ok, g1)"
    "ra_holds sw r sr (g1, sent, given ok g1, ro)" "ring_cap g1 = ring_cap g" "ok \<Longrightarrow> 0 < given ok g1"
    using ra_internal_writer [OF h ra_holdsD(3) [OF h]] by metis
  show ?thesis
  proof (cases "ok \<and> need \<le> ucast (bi_cnt (w_buf (cg_rb g1)))")
    case True
    then show ?thesis using 1 by (intro that [of True g1]) (auto simp: ra_writer_get_buffer_cnt_def ra_inv_def)
  next
    case False
    obtain v m where l: "prod_load Acquire lag Cons_Idx (cg_mem g1) = (v, m)" by fastforce
    obtain ok' g' where "ra_internal_writer_get_buffer lag v (g1\<lparr>cg_mem := m, cg_rb := (cg_rb g1)\<lparr>w_reader_shot := v\<rparr>\<rparr>) = Inr (ok', g')"
      "ra_holds (max sw (unat v)) r sr (g', sent, given ok' g', ro)" "ring_cap g' = ring_cap g1" "ok' \<Longrightarrow> 0 < given ok' g'"
      using ra_internal_writer [OF ra_prod_acquire(2) [OF 1(2) l], of v lag] by (auto simp del: not_gr_zero)
    then show ?thesis
      using 1 False l by (intro that [of ok' g']) (auto simp: ra_writer_get_buffer_cnt_def ra_inv_def)
  qed
qed

lemma ra_write_block_ok:
  assumes "ra_inv (g, sent, wg, ro)" "j < wg"
  obtains g' where "ra_write_block j bytes g = Inr g'" and "ra_inv (g', sent, wg, ro)"
    and "cg_rb g' = cg_rb g"
    and "\<And>i. c_val (sp_cells (cg_mem g') i) = (if i = (length sent + j) mod ring_cap g then bytes else c_val (sp_cells (cg_mem g) i))"
proof -
  obtain sw r sr where h: "ra_holds sw r sr (g, sent, wg, ro)" using assms by (auto simp: ra_inv_def)
  note d = ra_holdsD [OF h]
  let ?n = "ring_cap g"
  have b: "length sent + wg \<le> sw + ?n" "length sent mod ?n + wg \<le> ?n" "bi_iov (w_buf (cg_rb g)) = Some (length sent mod ?n)"
    using d(5) assms(2) by auto
  have i: "(length sent + j) mod ?n = length sent mod ?n + j" "length sent mod ?n + j < ?n"
    using b(2) assms(2) mod_add_left_eq [of "length sent" ?n j] by (simp_all del: mod_add_left_eq)
  obtain m where m: "prod_write ((length sent + j) mod ?n) bytes (cg_mem g) = Inr m" "spsc_inv ?n sent sw r sr m"
    "\<forall>i. c_val (sp_cells m i) = (if i = (length sent + j) mod ?n then bytes else c_val (sp_cells (cg_mem g) i))"
    using prod_write_ok [OF d(2), of "length sent + j" bytes] b(1) assms(2) by auto
  have "ra_holds sw r sr (g\<lparr>cg_mem := m\<rparr>, sent, wg, ro)" using h m(2) by (simp add: ra_holds_def)
  then show ?thesis
    using m b(3) i by (intro that [of "g\<lparr>cg_mem := m\<rparr>"]) (auto simp: ra_write_block_def ra_inv_def)
qed

lemma ra_writer_commit_ok:
  assumes "ra_inv (g, sent, wg, ro)" "k \<le> wg" "length sent + k < 2 ^ 64"
  shows "ra_inv (ra_writer_commit lag (word_of_nat k) g,
    sent @ map (\<lambda>i. c_val (sp_cells (cg_mem g) ((length sent + i) mod ring_cap g))) [0 ..< k], 0, ro)"
proof -
  obtain sw r sr where h: "ra_holds sw r sr (g, sent, wg, ro)" using assms by (auto simp: ra_inv_def)
  note d = ra_holdsD [OF h]
  let ?v = "msg_val (last (at_hist (sp_at (cg_mem g)) Prod_Idx))"
  note own = prod_load_own [OF d(2)]
  have "length sent + k \<le> sw + ring_cap g"
    using d(5) assms(2) spsc_invD(3) [OF d(2)] by (cases "wg = 0") auto
  moreover have "unat (?v + word_of_nat k) = length sent + k" using unat_add_small assms(3) own(2) by simp
  ultimately have "spsc_inv (ring_cap g) (sent @ map (\<lambda>i. c_val (sp_cells (cg_mem g) ((length sent + i) mod ring_cap g))) [0 ..< k])
      sw r sr (prod_store Release (?v + word_of_nat k) (cg_mem g))"
    using prod_commit [OF d(2)] by blast
  then have "ra_holds sw r sr (ra_writer_commit lag (word_of_nat k) g,
      sent @ map (\<lambda>i. c_val (sp_cells (cg_mem g) ((length sent + i) mod ring_cap g))) [0 ..< k], 0, ro)"
    using d own by (auto simp: ra_holds_def ra_writer_commit_def)
  then show ?thesis by (auto simp: ra_inv_def)
qed

lemma ra_put_ok:
  assumes "ra_inv (g, sent, wg, ro)" "length sent + 1 < 2 ^ 64"
  obtains ret g' where "ra_put lag bytes g = Inr (ret, g')"
    and "ra_inv (g', if ret = 0 then sent @ [bytes] else sent, 0, ro)"
proof -
  have wf: "ring_wf (cg_rb g)" using assms(1) by (auto simp: ra_inv_def ra_holds_def)
  then have "rb_data (cg_rb g) \<noteq> []" using ring_wf_facts(1) by auto
  then obtain sz where sz: "get_block_size (cg_rb g) = Inr sz" by (simp add: get_block_size_def)
  have weaken: "ra_inv (g, sent, 0, ro)" if "ra_inv (g, sent, wg, ro)" for g wg
    using that by (auto simp: ra_inv_def ra_holds_def)
  show ?thesis
  proof (cases "length bytes \<le> unat sz")
    case False
    then show ?thesis using weaken [OF assms(1)] sz by (intro that [of "- 1" g]) (auto simp: ra_put_def)
  next
    case True
    obtain ok g1 where 1: "ra_writer_get_buffer_cnt lag 1 g = Inr (ok, g1)" "ra_inv (g1, sent, given ok g1, ro)"
      "ring_cap g1 = ring_cap g" "ok \<Longrightarrow> 0 < given ok g1"
      using ra_writer_get_buffer_cnt_ok [OF assms(1)] by metis
    show ?thesis
    proof (cases ok)
      case False
      then show ?thesis using weaken [OF 1(2)] 1(1) sz True by (intro that [of "- 2" g1]) (auto simp: ra_put_def)
    next
      case ok: True
      obtain g2 where 2: "ra_write_block 0 bytes g1 = Inr g2" "ra_inv (g2, sent, given ok g1, ro)" "cg_rb g2 = cg_rb g1"
        "c_val (sp_cells (cg_mem g2) (length sent mod ring_cap g1)) = bytes"
        using ra_write_block_ok [OF 1(2) 1(4) [OF ok]] by (metis add.right_neutral)
      from ra_writer_commit_ok [OF 2(2), of 1 lag] 1(4) [OF ok] assms(2) 2(3,4)
      have "ra_inv (ra_writer_commit lag 1 g2, sent @ [bytes], 0, ro)" by (simp add: Suc_le_eq)
      then show ?thesis using 1(1) 2(1) ok sz True by (intro that [of 0 "ra_writer_commit lag 1 g2"]) (auto simp: ra_put_def)
    qed
  qed
qed

subsection \<open>Requests of the reader\<close>

lemma ra_cons_acquire:
  assumes "ra_holds sw r sr (g, sent, wg, ro)" "cons_load Acquire lag Prod_Idx (cg_mem g) = (v, m)"
  shows "ra_holds sw r (max sr (unat v)) (g\<lparr>cg_mem := m\<rparr>, sent, wg, ro)"
    and "ra_holds sw r (max sr (unat v)) (g\<lparr>cg_mem := m, cg_rb := (cg_rb g)\<lparr>r_writer_shot := v\<rparr>\<rparr>, sent, wg, ro)"
  using ra_holdsD [OF assms(1)] cons_acquire [OF ra_holdsD(2) [OF assms(1)] assms(2)]
  by (auto simp: ra_holds_def le_max_iff_disj less_max_iff_disj)

lemma le_max_max: "(b :: nat) \<le> max (max a b) c" by simp

lemma ra_own:
  assumes "ra_holds sw r sr (g, sent, wg, ro)"
  shows "unat (reader_get_reader_idx lag g) = r"
    and "cons_load Relaxed lag' Cons_Idx (cg_mem g) = (reader_get_reader_idx lag g, cg_mem g)"
  using cons_load_own [OF ra_holdsD(2) [OF assms]] by (auto simp: reader_get_reader_idx_def)

lemma ra_internal_reader:
  assumes "ra_holds sw r sr (g, sent, wg, ro)" "unat w \<le> max sr r" and i_def: "i = reader_get_reader_idx lag g"
  shows "\<exists>g'. ra_internal_reader_get_buffer w i g = Inr (i < w, g') \<and>
    ra_holds sw r sr (g', sent, wg, pointed (i < w) (reader_get_reader_idx lag g')) \<and> cg_mem g' = cg_mem g"
proof -
  note d = ra_holdsD [OF assms(1)]
  have i: "unat i = r" using ra_own [OF assms(1)] by (simp add: i_def)
  have "unat w - unat i \<le> ring_cap g"
    using assms(2) i spsc_inv_bounds [OF d(2)] by auto
  then obtain x where x: "internal_reader_get_buffer w i (cg_rb g) = Inr (i < w, (cg_rb g)\<lparr>r_buf := x\<rparr>)"
    "i < w \<Longrightarrow> bi_iov x = Some (unat i mod ring_cap g)"
    using internal_reader_grants [OF d(1)] by metis
  let ?g = "g\<lparr>cg_rb := (cg_rb g)\<lparr>r_buf := x\<rparr>\<rparr>"
  have idx: "reader_get_reader_idx lag ?g = i" by (simp add: reader_get_reader_idx_def i_def)
  have "ra_holds sw r sr (?g, sent, wg, pointed (i < w) i)"
    using d x i assms(2) by (auto simp: ra_holds_def pointed_def word_less_nat_alt)
  then show ?thesis using x(1) idx by (simp add: ra_internal_reader_get_buffer_def)
qed

lemma ra_reader_get_buffer_ok:
  assumes "ra_inv (g, sent, wg, ro)"
  obtains ok g' where "ra_reader_get_buffer lag g = Inr (ok, g')"
    and "ra_inv (g', sent, wg, pointed ok (reader_get_reader_idx lag g'))"
proof -
  obtain sw r sr where h: "ra_holds sw r sr (g, sent, wg, ro)" using assms by (auto simp: ra_inv_def)
  obtain v m where l: "cons_load Acquire lag Prod_Idx (cg_mem g) = (v, m)" by fastforce
  note a = ra_cons_acquire(1) [OF h l]
  from ra_internal_reader [OF a le_max_max refl, of lag] obtain ok g' where
    "ra_internal_reader_get_buffer v (reader_get_reader_idx lag (g\<lparr>cg_mem := m\<rparr>)) (g\<lparr>cg_mem := m\<rparr>) = Inr (ok, g')"
    "ra_holds sw r (max sr (unat v)) (g', sent, wg, pointed ok (reader_get_reader_idx lag g'))" by blast
  then show ?thesis
    using l ra_own(2) [OF a, of lag lag] by (intro that [of ok g']) (auto simp: ra_reader_get_buffer_def ra_inv_def)
qed

lemma ra_reader_get_buffer_cnt_ok:
  assumes "ra_inv (g, sent, wg, ro)"
  obtains ok g' where "ra_reader_get_buffer_cnt lag need g = Inr (ok, g')"
    and "ra_inv (g', sent, wg, pointed ok (reader_get_reader_idx lag g'))"
proof -
  obtain sw r sr where h: "ra_holds sw r sr (g, sent, wg, ro)" using assms by (auto simp: ra_inv_def)
  let ?i = "reader_get_reader_idx lag g"
  obtain ok g1 where 1: "ra_internal_reader_get_buffer (r_writer_shot (cg_rb g)) ?i g = Inr (ok, g1)"
    "ra_holds sw r sr (g1, sent, wg, pointed ok (reader_get_reader_idx lag g1))" "cg_mem g1 = cg_mem g"
    using ra_internal_reader [OF h ra_holdsD(4) [OF h] refl, of lag] by blast
  show ?thesis
  proof (cases "ok \<and> need \<le> ucast (bi_cnt (r_buf (cg_rb g1)))")
    case True
    then show ?thesis
      using 1 ra_own(2) [OF h, of lag lag] by (intro that [of True g1]) (auto simp: ra_reader_get_buffer_cnt_def ra_inv_def)
  next
    case False
    obtain v m where l: "cons_load Acquire lag Prod_Idx (cg_mem g1) = (v, m)" by fastforce
    let ?g = "g1\<lparr>cg_mem := m, cg_rb := (cg_rb g1)\<lparr>r_writer_shot := v\<rparr>\<rparr>"
    note a = ra_cons_acquire(2) [OF 1(2) l]
    have i: "reader_get_reader_idx lag ?g = ?i"
      using ra_own(1) [OF a, of lag] ra_own(1) [OF h, of lag] by (metis unsigned_word_eqI)
    obtain ok' g' where "ra_internal_reader_get_buffer v ?i ?g = Inr (ok', g')"
      "ra_holds sw r (max sr (unat v)) (g', sent, wg, pointed ok' (reader_get_reader_idx lag g'))"
      using ra_internal_reader [OF a le_max_max refl, of lag] unfolding i by blast
    then show ?thesis
      using 1 False l ra_own(2) [OF h, of lag lag]
      by (intro that [of ok' g']) (auto simp: ra_reader_get_buffer_cnt_def ra_inv_def)
  qed
qed

lemma ra_reader_get_buffer_at_ok:
  assumes "ra_inv (g, sent, wg, ro)"
  obtains ret g' where "ra_reader_get_buffer_at lag k g = Inr (ret, g')"
    and "ra_inv (g', sent, wg, pointed (ret = 0) k)"
proof -
  obtain sw r sr where h: "ra_holds sw r sr (g, sent, wg, ro)" using assms by (auto simp: ra_inv_def)
  obtain v m where l: "cons_load Acquire lag Prod_Idx (cg_mem g) = (v, m)" by fastforce
  note a = ra_cons_acquire(1) [OF h l]
  note d = ra_holdsD [OF a] and own = ra_own [OF a, of lag]
  let ?i = "reader_get_reader_idx lag (g\<lparr>cg_mem := m\<rparr>)"
  let ?rb = "(cg_rb g)\<lparr>r_idx := ?i\<rparr>"
  have vl: "unat v \<le> length sent" using cons_acquire(3) [OF ra_holdsD(2) [OF h] l] .
  have drop: "ra_holds sw r (max sr (unat v)) (\<lparr>cg_mem = m, cg_rb = ?rb\<rparr>, sent, wg, None)"
    using d by (auto simp: ra_holds_def)
  show ?thesis
  proof (cases "?i \<le> k \<and> k < v")
    case False
    then have "ra_reader_get_buffer_at lag k g = Inr (- 1, \<lparr>cg_mem = m, cg_rb = ?rb\<rparr>)"
      using l own(2) [of lag] by (auto simp: ra_reader_get_buffer_at_def ra_internal_reader_get_buffer_at_def internal_reader_get_buffer_at_def)
    then show ?thesis using drop by (intro that) (auto simp: ra_inv_def pointed_def)
  next
    case True
    have wf: "ring_wf ?rb" using d(1) by simp
    note f = ring_wf_facts [OF wf]
    have k: "unat k < unat v" "r \<le> unat k" using True own(1) by (auto simp: word_less_nat_alt word_le_nat_alt)
    have "unat v - unat k \<le> ring_cap g" using k vl spsc_inv_bounds(3) [OF ra_holdsD(2) [OF h]] by simp
    then have "0 < r_grant (ring_cap g) (unat k) (unat v)" "r_grant (ring_cap g) (unat k) (unat v) \<le> ring_cap g"
      using r_grant_bounds [of "ring_cap g" "unat k" "unat v"] k f(1) by auto
    then have pos: "0 < (word_of_nat (r_grant (ring_cap g) (unat k) (unat v)) :: u32)"
      using d(1) by (intro of_nat_u32_pos) (auto simp: ring_wf_def)
    have lt: "unat k mod ring_cap g < ring_cap g" "unat v mod ring_cap g < ring_cap g" using f(1) by auto
    have "(if k AND rb_mask ?rb < v AND rb_mask ?rb then ucast ((v AND rb_mask ?rb) - (k AND rb_mask ?rb))
           else ucast (ucast (get_block_cnt ?rb) - (k AND rb_mask ?rb)) :: u32)
         = word_of_nat (r_grant (ring_cap g) (unat k) (unat v))" (is "?c = _")
      using lt f by (auto simp: ucast_diff_of_nat word_le_nat_alt word_less_nat_alt r_grant_def simp del: ring_wf_upd)
    then have c: "0 < ?c" using pos by simp
    let ?g = "\<lparr>cg_mem = m, cg_rb = ?rb\<lparr>r_buf := \<lparr>bi_iov = Some (unat k mod ring_cap g), bi_cnt = ?c\<rparr>\<rparr>\<rparr>"
    have "internal_reader_get_buffer_at k v ?rb = Inr (0, cg_rb ?g)"
      using True c lt f unfolding internal_reader_get_buffer_at_def Let_def
      by (simp add: not_le [symmetric] split del: if_split del: ring_wf_upd)
    then have "ra_reader_get_buffer_at lag k g = Inr (0, ?g)"
      using l own(2) [of lag] by (simp add: ra_reader_get_buffer_at_def ra_internal_reader_get_buffer_at_def)
    moreover have "ra_holds sw r (max sr (unat v)) (?g, sent, wg, pointed True k)"
      using drop k by (auto simp: ra_holds_def pointed_def)
    then have "ra_inv (?g, sent, wg, pointed True k)" unfolding ra_inv_def by blast
    ultimately show ?thesis by (rule that [of 0 ?g, unfolded simp_thms])
  qed
qed

lemma ra_read_block_ok:
  assumes "ra_inv (g, sent, wg, Some k)"
  obtains g' where "ra_read_block g = Inr (sent ! k, g')" and "ra_inv (g', sent, wg, Some k)"
proof -
  obtain sw r sr where h: "ra_holds sw r sr (g, sent, wg, Some k)" using assms by (auto simp: ra_inv_def)
  note d = ra_holdsD [OF h]
  have b: "r \<le> k" "k < sr" "bi_iov (r_buf (cg_rb g)) = Some (k mod ring_cap g)" using d(6) by auto
  obtain m where m: "cons_read (k mod ring_cap g) (cg_mem g) = Inr (sent ! k, m)" "spsc_inv (ring_cap g) sent sw r sr m"
    using cons_read_ok [OF d(2) b(1,2)] by blast
  have "ra_holds sw r sr (g\<lparr>cg_mem := m\<rparr>, sent, wg, Some k)" using h m(2) by (auto simp: ra_holds_def)
  then show ?thesis
    using m b by (intro that [of "g\<lparr>cg_mem := m\<rparr>"]) (auto simp: ra_read_block_def ra_inv_def)
qed

lemma ra_reader_commit_ok:
  assumes "ra_inv (g, sent, wg, Some k)" "unat (reader_get_reader_idx lag g) + j \<le> Suc k"
  shows "ra_inv (ra_reader_commit lag (word_of_nat j) g, sent, wg, None)"
proof -
  obtain sw r sr where h: "ra_holds sw r sr (g, sent, wg, Some k)" using assms by (auto simp: ra_inv_def)
  note d = ra_holdsD [OF h] and own = ra_own [OF h, of lag]
  let ?v = "reader_get_reader_idx lag g + word_of_nat j"
  have j: "r + j \<le> sr" using d(6) own(1) assms(2) by fastforce
  have "sr \<le> cons_seen (cg_mem g)" using spsc_invD(5) [OF d(2)] .
  moreover have "cons_seen (cg_mem g) < 2 ^ 64" unfolding cons_seen_def by (rule unat_u64_less)
  ultimately have v: "unat ?v = r + j" "r + j \<le> cons_seen (cg_mem g)"
    using unat_add_small [of "reader_get_reader_idx lag g" j] own(1) j by auto
  have "spsc_inv (ring_cap g) sent sw (r + j) sr (cons_store Release ?v (cg_mem g))"
    using cons_commit [OF d(2), of ?v] v by simp
  then have "ra_holds sw (r + j) sr (ra_reader_commit lag (word_of_nat j) g, sent, wg, None)"
    using d own(2) [of lag] by (auto simp: ra_holds_def ra_reader_commit_def)
  then show ?thesis by (auto simp: ra_inv_def)
qed

lemma ra_reader_reset_out_ok:
  assumes "ra_inv (g, sent, wg, ro)"
  shows "ra_inv (ra_reader_reset_out lag g, sent, wg, None)"
proof -
  obtain sw r sr where h: "ra_holds sw r sr (g, sent, wg, ro)" using assms by (auto simp: ra_inv_def)
  note d = ra_holdsD [OF h]
  obtain v m where l: "cons_load Relaxed lag Prod_Idx (cg_mem g) = (v, m)" by fastforce
  note c = cons_relaxed [OF d(2) l]
  have "spsc_inv (ring_cap g) sent sw (unat v) sr (cons_store Release v m)"
    using cons_commit [OF c(1,2)] c(3) by (metis order_refl)
  then have "ra_holds sw (unat v) sr (ra_reader_reset_out lag g, sent, wg, None)"
    using d l c(2) by (auto simp: ra_holds_def ra_reader_reset_out_def)
  then show ?thesis by (auto simp: ra_inv_def)
qed

lemma ra_reader_get_unread_cnt_ok:
  assumes "ra_inv (g, sent, wg, ro)" "ra_reader_get_unread_cnt lag g = (cnt, g')"
  shows "ra_inv (g', sent, wg, ro)"
proof -
  obtain sw r sr where h: "ra_holds sw r sr (g, sent, wg, ro)" using assms by (auto simp: ra_inv_def)
  obtain v m where l: "cons_load Acquire lag Prod_Idx (cg_mem g) = (v, m)" by fastforce
  note a = ra_cons_acquire [OF h l]
  have "g' = g\<lparr>cg_mem := m, cg_rb := (cg_rb g)\<lparr>r_writer_shot := v\<rparr>\<rparr>"
    using assms(2) l ra_own(2) [OF a(1), of lag lag] by (auto simp: ra_reader_get_unread_cnt_def)
  then show ?thesis using a(2) by (auto simp: ra_inv_def)
qed

subsection \<open>Every interleaving\<close>

lemma ra_step_inv:
  assumes "ra_inv st" "ra_step st st'"
  shows "ra_inv st'"
  using assms(2,1)
proof cases
  case (w_get lag g ok g' sent wg ro)
  then show ?thesis using ra_writer_get_buffer_ok [of g sent wg ro lag] assms(1) by fastforce
next
  case (w_get_cnt lag need g ok g' sent wg ro)
  then show ?thesis using ra_writer_get_buffer_cnt_ok [of g sent wg ro lag need] assms(1) by fastforce
next
  case (w_write j wg bytes g g' sent ro)
  then show ?thesis using ra_write_block_ok [of g sent wg ro j bytes] assms(1) by fastforce
next
  case (w_commit k wg sent g ro lag)
  then show ?thesis using ra_writer_commit_ok assms(1) by blast
next
  case (w_put sent lag bytes g ret g' wg ro)
  then show ?thesis using ra_put_ok [of g sent wg ro lag bytes] assms(1) by fastforce
next
  case (r_get lag g ok g' sent wg ro)
  then show ?thesis using ra_reader_get_buffer_ok [of g sent wg ro lag] assms(1) by fastforce
next
  case (r_get_cnt lag need g ok g' sent wg ro)
  then show ?thesis using ra_reader_get_buffer_cnt_ok [of g sent wg ro lag need] assms(1) by fastforce
next
  case (r_get_at lag k g ret g' sent wg ro)
  then show ?thesis using ra_reader_get_buffer_at_ok [of g sent wg ro lag k] assms(1) by fastforce
next
  case (r_read g b g' ro sent wg)
  then obtain k where "ro = Some k" by auto
  then show ?thesis using ra_read_block_ok [of g sent wg k] assms(1) r_read by fastforce
next
  case (r_commit lag g j k sent wg)
  then show ?thesis using ra_reader_commit_ok assms(1) by blast
next
  case (r_reset g sent wg ro lag)
  then show ?thesis using ra_reader_reset_out_ok assms(1) by blast
next
  case (r_unread lag g cnt g' sent wg ro)
  then show ?thesis using ra_reader_get_unread_cnt_ok assms(1) by blast
qed

interpretation rcu: spsc_user ra_step ra_inv "\<lambda>st. cg_mem (fst st)" "\<lambda>st. ring_cap (fst st)" "\<lambda>st. fst (snd st)"
proof
  show "ra_inv st \<Longrightarrow> ra_step st st' \<Longrightarrow> ra_inv st'" for st st' by (rule ra_step_inv)
  show "ra_inv st \<Longrightarrow> \<exists>sw r sr. spsc_inv (ring_cap (fst st)) (fst (snd st)) sw r sr (cg_mem (fst st))" for st
    by (cases st) (auto simp: ra_inv_def ra_holds_def)
qed

lemma ra_start:
  assumes "ring_wf rb" "w_reader_shot rb = 0" "r_writer_shot rb = 0"
  shows "ra_inv (conc_ring_new rb, [], 0, None)"
proof -
  have "ra_holds 0 0 0 (conc_ring_new rb, [], 0, None)"
    using assms ring_wf_facts(1) [OF assms(1)] by (auto simp: ra_holds_def conc_ring_new_def intro: spsc_init_inv)
  then show ?thesis by (auto simp: ra_inv_def)
qed

subsection \<open>Properties\<close>

text \<open>
  C1. The ring is safe and first-in first-out under the memory orders of the code. Two
  threads run any sequence of requests, writes, commits and reads, and every load of the
  other side's index may be stale. Then a block the writer was given can be written without
  a data race, the block the reader was pointed at can be read without one and holds what
  was committed at that index, and no request faults.
\<close>

theorem ring_release_acquire:
  assumes "ring_wf rb" and "w_reader_shot rb = 0" and "r_writer_shot rb = 0"
    and "ra_step\<^sup>*\<^sup>* (conc_ring_new rb, [], 0, None) (g, sent, wg, ro)"
  shows "(\<forall>j bytes. j < wg \<longrightarrow> (\<exists>g'. ra_write_block j bytes g = Inr g')) \<and>
    (\<forall>k. ro = Some k \<longrightarrow> k < length sent \<and> (\<exists>g'. ra_read_block g = Inr (sent ! k, g'))) \<and>
    (\<exists>ok g'. ra_writer_get_buffer_cnt lag need g = Inr (ok, g')) \<and>
    (\<exists>ok g'. ra_reader_get_buffer_cnt lag need g = Inr (ok, g')) \<and>
    length sent \<le> unat (reader_get_reader_idx lag g) + ring_cap g"
proof (intro conjI allI impI)
  have inv: "ra_inv (g, sent, wg, ro)"
    using rcu.reachable_inv [OF assms(4) ra_start [OF assms(1-3)]] .
  then obtain sw r sr where h: "ra_holds sw r sr (g, sent, wg, ro)" by (auto simp: ra_inv_def)
  show "\<exists>g'. ra_write_block j bytes g = Inr g'" if "j < wg" for j bytes
    using ra_write_block_ok [OF inv that] by metis
  show "k < length sent" if "ro = Some k" for k
    using ra_holdsD(6) [OF h that] spsc_inv_bounds(2) [OF ra_holdsD(2) [OF h]] by simp
  show "\<exists>g'. ra_read_block g = Inr (sent ! k, g')" if "ro = Some k" for k
    using ra_read_block_ok inv that by metis
  show "\<exists>ok g'. ra_writer_get_buffer_cnt lag need g = Inr (ok, g')"
    using ra_writer_get_buffer_cnt_ok [OF inv] by metis
  show "\<exists>ok g'. ra_reader_get_buffer_cnt lag need g = Inr (ok, g')"
    using ra_reader_get_buffer_cnt_ok [OF inv] by metis
  show "length sent \<le> unat (reader_get_reader_idx lag g) + ring_cap g"
    using spsc_inv_bounds(3) [OF ra_holdsD(2) [OF h]] ra_own(1) [OF h] by simp
qed

subsection \<open>A run\<close>

text \<open>The writer puts one block, and the reader is pointed at it.\<close>

definition run_one :: "(int \<times> bool \<times> u64) result" where
  "run_one =
     bindE (ra_put 0 [1, 2, 3, 4] (conc_ring_new ring_two)) (\<lambda>(ret, g).
     bindE (ra_reader_get_buffer 0 g) (\<lambda>(ok, g). Inr (ret, ok, reader_get_reader_idx 0 g)))"

lemma run_one_value: "run_one = Inr (0, True, 0)"
  by code_simp

lemma ring_two_start: "ring_wf ring_two" "w_reader_shot ring_two = 0" "r_writer_shot ring_two = 0"
  using ring_two_inv(1) by (simp_all add: ring_inv_def ring_two_def ring_buffer_new_def)

theorem ring_release_acquire_witness:
  "\<exists>g1 g2 g3. ra_put 0 [1, 2, 3, 4] (conc_ring_new ring_two) = Inr (0, g1) \<and>
     ra_reader_get_buffer 0 g1 = Inr (True, g2) \<and> ra_read_block g2 = Inr ([1, 2, 3, 4], g3)"
proof -
  let ?g = "conc_ring_new ring_two" and ?b = "[1, 2, 3, 4] :: block"
  obtain g1 g2 where 1: "ra_put 0 ?b ?g = Inr (0, g1)" and 2: "ra_reader_get_buffer 0 g1 = Inr (True, g2)"
    and idx: "reader_get_reader_idx 0 g2 = 0"
    using run_one_value by (auto simp: run_one_def bindE_Inr_iff)
  have "ra_step (?g, [], 0, None) (g1, [?b], 0, None)" using ra_step.w_put [of "[]" 0 ?b ?g 0 g1 0 None] 1 by simp
  moreover have "ra_step (g1, [?b], 0, None) (g2, [?b], 0, Some 0)"
    using ra_step.r_get [OF 2, of "[?b]" 0 None] idx by (simp add: pointed_def)
  ultimately have "ra_step\<^sup>*\<^sup>* (?g, [], 0, None) (g2, [?b], 0, Some 0)" by (meson converse_rtranclp_into_rtranclp rtranclp.rtrancl_refl)
  from ring_release_acquire [OF ring_two_start this] obtain g3 where "ra_read_block g2 = Inr (?b, g3)" by auto
  with 1 2 show ?thesis by blast
qed

end
