(* ===== verification/Uring_Wrapper.thy ===== *)
theory Uring_Wrapper
  imports Type_Def
begin

unbundle bit_operations_syntax

text \<open>
  include/event/io_uring_wrapper.h and source/event/io_uring_wrapper.cpp: the rings shared
  with the kernel. The pointers into the mapped rings (\<^verbatim>\<open>khead\<close>, \<^verbatim>\<open>ktail\<close>, the entries) are
  fields of one state, since both sides see the same memory; the release and acquire
  accesses of include/util/barrier.h order them, so an access is a read or an update of the
  field (\<open>Uring_Concurrent\<close> and \<open>Uring_Submission\<close> treat them under stale loads). \<^verbatim>\<open>io_uring_enter\<close> takes its answers from a list: an error number, or the number of
  submission entries the kernel has taken, which it reads from the head of the queue;
  \<open>wr_taken\<close> logs them. The C union members \<^verbatim>\<open>rw_flags\<close>, \<^verbatim>\<open>msg_flags\<close>,
  \<^verbatim>\<open>timeout_flags\<close>, \<^verbatim>\<open>cancel_flags\<close>, \<^verbatim>\<open>poll32_events\<close> are one field \<open>se_op_flags\<close>, and
  \<^verbatim>\<open>buf_index\<close> and \<^verbatim>\<open>buf_group\<close> are one field \<open>se_buf_group\<close>.
\<close>

subsection \<open>Entries\<close>

datatype uring_op =
    OP_NOP | OP_READV | OP_WRITEV | OP_POLL_ADD | OP_SENDMSG | OP_RECVMSG | OP_TIMEOUT | OP_ACCEPT
  | OP_ASYNC_CANCEL | OP_READ | OP_RECV

text \<open>
  What an address field points at: an array of \<^verbatim>\<open>iovec\<close>, the read or write \<^verbatim>\<open>msghdr\<close> of a
  complete action, a complete action, a socket's address buffer, a time.
\<close>

datatype sqe_addr =
    A_Null | A_Iov "iovec list" | A_Read_Msg nat | A_Write_Msg nat | A_Action nat | A_Sock nat | A_Time u64 u64

datatype sqe_off = Off u64 | Off_Sock_Len

record sqe =
  se_opcode :: uring_op
  se_flags :: "8 word"
  se_ioprio :: u16
  se_fd :: int
  se_off :: sqe_off
  se_addr :: sqe_addr
  se_len :: u32
  se_op_flags :: u32
  se_user_data :: nat
  se_buf_group :: u16
  se_personality :: u16
  se_file_index :: u32
  se_addr3 :: u64

definition sqe_zero :: sqe where
  "sqe_zero =
     \<lparr>se_opcode = OP_NOP, se_flags = 0, se_ioprio = 0, se_fd = 0, se_off = Off 0, se_addr = A_Null, se_len = 0,
      se_op_flags = 0, se_user_data = 0, se_buf_group = 0, se_personality = 0, se_file_index = 0, se_addr3 = 0\<rparr>"

record cqe =
  ce_user_data :: nat
  ce_res :: int
  ce_flags :: u32

definition cqe_zero :: cqe where
  "cqe_zero = \<lparr>ce_user_data = 0, ce_res = 0, ce_flags = 0\<rparr>"

definition initialize_sqe :: "sqe \<Rightarrow> sqe" where
  "initialize_sqe s =
     s\<lparr>se_flags := 0, se_ioprio := 0, se_op_flags := 0, se_buf_group := 0, se_personality := 0,
       se_file_index := 0, se_addr3 := 0\<rparr>"

subsection \<open>State\<close>

definition IORING_SETUP_SQPOLL :: u32 where "IORING_SETUP_SQPOLL = 2"
definition IORING_SETUP_SQE128 :: u32 where "IORING_SETUP_SQE128 = 1024"
definition IORING_SETUP_CQE32 :: u32 where "IORING_SETUP_CQE32 = 2048"
definition IORING_SETUP_NO_SQARRAY :: u32 where "IORING_SETUP_NO_SQARRAY = 65536"
definition IORING_FEAT_SINGLE_MMAP :: u32 where "IORING_FEAT_SINGLE_MMAP = 1"
definition IORING_SQ_NEED_WAKEUP :: u32 where "IORING_SQ_NEED_WAKEUP = 1"
definition IORING_ENTER_SQ_WAKEUP :: u32 where "IORING_ENTER_SQ_WAKEUP = 2"
definition IOSQE_BUFFER_SELECT :: u32 where "IOSQE_BUFFER_SELECT = 32"
definition IORING_RECV_MULTISHOT :: u16 where "IORING_RECV_MULTISHOT = 2"
definition IORING_ACCEPT_MULTISHOT :: u16 where "IORING_ACCEPT_MULTISHOT = 1"
definition IORING_ASYNC_CANCEL_FD :: u32 where "IORING_ASYNC_CANCEL_FD = 2"
definition IORING_ASYNC_CANCEL_ANY :: u32 where "IORING_ASYNC_CANCEL_ANY = 4"
definition IORING_OP_READ_CODE :: u32 where "IORING_OP_READ_CODE = 22"
definition SIZEOF_SQE :: u64 where "SIZEOF_SQE = 64"
definition SIZEOF_CQE :: u64 where "SIZEOF_CQE = 16"
definition ETIME :: nat where "ETIME = 62"

record uring_params =
  up_flags :: u32
  up_features :: u32
  up_sq_entries :: u32
  up_cq_entries :: u32
  up_sq_off_array :: u32
  up_cq_off_cqes :: u32

text \<open>A ring pointer: null before \<^verbatim>\<open>init\<close>, \<^verbatim>\<open>MAP_FAILED\<close>, or a mapped address.\<close>

datatype mapping = Map_Null | Map_Failed | Mapped nat

datatype enter_answer = Enter_Err nat | Enter_Ok nat

record wrapper =
  wr_params :: uring_params
  wr_shift :: nat
  wr_fd :: int
  wr_sq_ring :: mapping
  wr_sq_ring_sz :: u64
  wr_cq_ring :: mapping
  wr_cq_ring_sz :: u64
  wr_sqes_map :: mapping
  sq_khead :: u32
  sq_ktail :: u32
  sq_mask :: u32
  sq_entries :: u32
  sq_kflags :: u32
  sq_sqes :: "sqe list"
  sqe_tail :: u32
  cq_khead :: u32
  cq_ktail :: u32
  cq_mask :: u32
  cq_entries :: u32
  cq_cqes :: "cqe list"
  wr_unmapped :: "(nat \<times> u64) list"
  wr_enter :: "enter_answer list"
  wr_entered :: "(u32 \<times> u32) list"
  wr_taken :: "sqe list"

text \<open>What \<^verbatim>\<open>io_uring_setup\<close> leaves in the mapped rings.\<close>

record kernel_rings =
  kr_sq_mask :: u32
  kr_sq_entries :: u32
  kr_cq_mask :: u32
  kr_cq_entries :: u32
  kr_sqes :: "sqe list"
  kr_cqes :: "cqe list"

subsection \<open>Mapping\<close>

definition unmap :: "mapping \<Rightarrow> u64 \<Rightarrow> wrapper \<Rightarrow> wrapper" where
  "unmap m sz w = (case m of Mapped a \<Rightarrow> w\<lparr>wr_unmapped := wr_unmapped w @ [(a, sz)]\<rparr> | _ \<Rightarrow> w)"

definition sqe_map_size :: "wrapper \<Rightarrow> u64" where
  "sqe_map_size w =
     (let size = (if up_flags (wr_params w) AND IORING_SETUP_SQE128 \<noteq> 0 then SIZEOF_SQE + 64 else SIZEOF_SQE)
      in size * ucast (up_sq_entries (wr_params w)))"

definition clean_rings :: "wrapper \<Rightarrow> wrapper" where
  "clean_rings w =
     (let w = (if wr_sq_ring w \<noteq> Map_Failed
               then (unmap (wr_sq_ring w) (wr_sq_ring_sz w) w)\<lparr>wr_sq_ring := Map_Failed\<rparr> else w);
          w = (if wr_cq_ring w \<noteq> Map_Failed
               then (if up_features (wr_params w) AND IORING_FEAT_SINGLE_MMAP = 0
                     then unmap (wr_cq_ring w) (wr_cq_ring_sz w) w else w)\<lparr>wr_cq_ring := Map_Failed\<rparr>
               else w)
      in if wr_sqes_map w \<noteq> Map_Failed
         then (unmap (wr_sqes_map w) (sqe_map_size w) w)\<lparr>wr_sqes_map := Map_Failed\<rparr>
         else w)"

definition assign_ring_address :: "kernel_rings \<Rightarrow> wrapper \<Rightarrow> wrapper" where
  "assign_ring_address k w =
     w\<lparr>sq_khead := 0, sq_ktail := 0, sq_mask := kr_sq_mask k, sq_entries := kr_sq_entries k, sq_kflags := 0,
       sq_sqes := kr_sqes k, cq_khead := 0, cq_ktail := 0, cq_mask := kr_cq_mask k,
       cq_entries := kr_cq_entries k, cq_cqes := kr_cqes k\<rparr>"

text \<open>\<open>mmap\<close> answers the three mappings: \<open>None\<close> is \<^verbatim>\<open>MAP_FAILED\<close>.\<close>

definition as_mapping :: "nat option \<Rightarrow> mapping" where
  "as_mapping m = (case m of None \<Rightarrow> Map_Failed | Some a \<Rightarrow> Mapped a)"

definition mmap_rings ::
  "nat option \<Rightarrow> nat option \<Rightarrow> nat option \<Rightarrow> kernel_rings \<Rightarrow> wrapper \<Rightarrow> int \<times> wrapper" where
  "mmap_rings m_sq m_cq m_sqes k w =
     (let p = wr_params w;
          single = up_features p AND IORING_FEAT_SINGLE_MMAP \<noteq> 0;
          size = (if up_flags p AND IORING_SETUP_CQE32 \<noteq> 0 then SIZEOF_CQE + SIZEOF_CQE else SIZEOF_CQE);
          sq_sz = ucast (up_sq_off_array p) + ucast (up_sq_entries p) * 4;
          cq_sz = ucast (up_cq_off_cqes p) + ucast (up_cq_entries p) * size;
          sq_sz' = (if single \<and> sq_sz < cq_sz then cq_sz else sq_sz);
          w = w\<lparr>wr_sq_ring_sz := sq_sz', wr_cq_ring_sz := (if single then sq_sz' else cq_sz),
                wr_sq_ring := as_mapping m_sq\<rparr>
      in if m_sq = None then (- 1, w)
         else
           let w = w\<lparr>wr_cq_ring := (if single then wr_sq_ring w else as_mapping m_cq)\<rparr>
           in if \<not> single \<and> m_cq = None then (- 1, clean_rings w)
              else
                let w = w\<lparr>wr_sqes_map := as_mapping m_sqes\<rparr>
                in if m_sqes = None then (- 1, clean_rings w)
                   else (0, assign_ring_address k w))"

text \<open>\<open>setup\<close> is the answer of \<^verbatim>\<open>io_uring_setup\<close> with the parameters it returns.\<close>

definition wrapper_init ::
  "(u32 \<Rightarrow> uring_params \<Rightarrow> int \<times> uring_params) \<Rightarrow> nat option \<Rightarrow> nat option \<Rightarrow> nat option \<Rightarrow> kernel_rings
   \<Rightarrow> u32 \<Rightarrow> uring_params \<Rightarrow> wrapper \<Rightarrow> int \<times> wrapper" where
  "wrapper_init setup m_sq m_cq m_sqes k cnt param w =
     (if cnt = 0 then (- 1, w)
      else
        let (fd, p) = setup cnt param; w = w\<lparr>wr_params := p, wr_fd := fd\<rparr>
        in if \<not> 0 < fd then (- 1, w)
           else
             let (ret, w) = mmap_rings m_sq m_cq m_sqes k w
             in if ret \<noteq> 0 then (- 1, w)
                else (0, if up_flags (wr_params w) AND IORING_SETUP_CQE32 \<noteq> 0 then w\<lparr>wr_shift := 1\<rparr> else w))"

text \<open>The destructor; the second component is the descriptor it closes.\<close>

definition wrapper_delete :: "wrapper \<Rightarrow> wrapper \<times> int option" where
  "wrapper_delete w = (clean_rings w, if 0 < wr_fd w then Some (wr_fd w) else None)"

subsection \<open>Submission queue\<close>

definition sq_shift :: "wrapper \<Rightarrow> nat" where
  "sq_shift w = (if up_flags (wr_params w) AND IORING_SETUP_SQE128 \<noteq> 0 then 1 else 0)"

definition sq_slot :: "wrapper \<Rightarrow> u32 \<Rightarrow> nat" where
  "sq_slot w i = unat (i AND sq_mask w) * 2 ^ sq_shift w"

text \<open>The result is the index of the entry, \<open>None\<close> for null.\<close>

definition get_sqe :: "wrapper \<Rightarrow> (nat option \<times> wrapper) result" where
  "get_sqe w =
     (let nxt = sqe_tail w + 1; head = sq_khead w
      in if nxt - head \<le> sq_entries w
         then
           let i = sq_slot w (sqe_tail w)
           in if i < length (sq_sqes w)
              then Inr (Some i, w\<lparr>sqe_tail := nxt, sq_sqes := (sq_sqes w)[i := initialize_sqe (sq_sqes w ! i)]\<rparr>)
              else Inl Out_Of_Bounds
         else Inr (None, w))"

definition modify_sqe :: "nat \<Rightarrow> (sqe \<Rightarrow> sqe) \<Rightarrow> wrapper \<Rightarrow> wrapper" where
  "modify_sqe i f w = w\<lparr>sq_sqes := (sq_sqes w)[i := f (sq_sqes w ! i)]\<rparr>"

definition need_wakeup_kernel :: "wrapper \<Rightarrow> bool" where
  "need_wakeup_kernel w \<longleftrightarrow> sq_kflags w AND IORING_SQ_NEED_WAKEUP \<noteq> 0"

text \<open>The kernel takes \<open>n\<close> entries.\<close>

definition kernel_take :: "nat \<Rightarrow> wrapper \<Rightarrow> wrapper" where
  "kernel_take n w =
     w\<lparr>sq_khead := sq_khead w + word_of_nat n,
       wr_taken := wr_taken w @ map (\<lambda>j. sq_sqes w ! sq_slot w (sq_khead w + word_of_nat j)) [0 ..< n]\<rparr>"

definition wrapper_submit :: "wrapper \<Rightarrow> (int \<times> wrapper) result" where
  "wrapper_submit w =
     (let to_submit = sqe_tail w - sq_ktail w
      in if \<not> 0 < to_submit then Inr (0, w)
         else
           let w = w\<lparr>sq_ktail := sqe_tail w\<rparr>;
               flags = (if need_wakeup_kernel w then IORING_ENTER_SQ_WAKEUP else 0)
           in case wr_enter w of
                [] \<Rightarrow> Inl Blocked
              | ans # rest \<Rightarrow>
                  let w = w\<lparr>wr_enter := rest, wr_entered := wr_entered w @ [(to_submit, flags)]\<rparr>
                  in (case ans of
                        Enter_Err e \<Rightarrow> Inr (- int e, w)
                      | Enter_Ok n \<Rightarrow> Inr (int n, kernel_take n w)))"

definition rollback_sqe :: "wrapper \<Rightarrow> wrapper" where
  "rollback_sqe w = (if sqe_tail w \<le> sq_ktail w then w else w\<lparr>sqe_tail := sqe_tail w - 1\<rparr>)"

subsection \<open>Completion queue\<close>

definition cq_slot :: "wrapper \<Rightarrow> u32 \<Rightarrow> nat" where
  "cq_slot w i = unat (i AND cq_mask w) * 2 ^ wr_shift w"

definition get_cqe :: "u32 \<Rightarrow> wrapper \<Rightarrow> cqe result" where
  "get_cqe idx w =
     (let i = cq_slot w (cq_khead w + idx)
      in if i < length (cq_cqes w) then Inr (cq_cqes w ! i) else Inl Out_Of_Bounds)"

text \<open>The kernel posts completions.\<close>

fun kernel_post :: "cqe list \<Rightarrow> wrapper \<Rightarrow> wrapper" where
  "kernel_post [] w = w"
| "kernel_post (c # cs) w =
     kernel_post cs (w\<lparr>cq_cqes := (cq_cqes w)[cq_slot w (cq_ktail w) := c], cq_ktail := cq_ktail w + 1\<rparr>)"

text \<open>
  \<open>wait\<close> is the answer of \<^verbatim>\<open>io_uring_enter\<close>: an error number, or the completions posted by
  the time it returns.
\<close>

definition wait_cqe_timeout :: "nat + cqe list \<Rightarrow> wrapper \<Rightarrow> int \<times> wrapper" where
  "wait_cqe_timeout wait w =
     (case wait of
        Inl e \<Rightarrow> (- int e, w)
      | Inr cs \<Rightarrow>
          let w = kernel_post cs w; ready = cq_ktail w - cq_khead w
          in if ready = 0 then (- int ETIME, w) else (i32_of_u32 ready, w))"

definition cq_consume :: "u32 \<Rightarrow> wrapper \<Rightarrow> wrapper" where
  "cq_consume count w =
     (let tail = cq_ktail w; head = cq_khead w;
          count = (if tail < head + count then tail - head else count)
      in w\<lparr>cq_khead := head + count\<rparr>)"

subsection \<open>Preparation of entries\<close>

definition PREPARE_SQE :: "uring_op \<Rightarrow> int \<Rightarrow> sqe_addr \<Rightarrow> u32 \<Rightarrow> sqe_off \<Rightarrow> u32 \<Rightarrow> sqe \<Rightarrow> sqe" where
  "PREPARE_SQE operation_code real_fd address len offset flag s =
     s\<lparr>se_opcode := operation_code, se_fd := real_fd, se_addr := address, se_len := len, se_off := offset,
       se_flags := ucast flag\<rparr>"

definition prepare_readv :: "int \<Rightarrow> sqe_addr \<Rightarrow> u32 \<Rightarrow> u64 \<Rightarrow> sqe \<Rightarrow> sqe" where
  "prepare_readv fd iovecs nr_vecs offset = PREPARE_SQE OP_READV fd iovecs nr_vecs (Off offset) 0"

definition set_flag :: "8 word \<Rightarrow> sqe \<Rightarrow> sqe" where
  "set_flag flag s = s\<lparr>se_flags := flag\<rparr>"

definition set_user_data :: "nat \<Rightarrow> sqe \<Rightarrow> sqe" where
  "set_user_data user_data s = s\<lparr>se_user_data := user_data\<rparr>"

definition set_buf_group :: "u32 \<Rightarrow> sqe \<Rightarrow> sqe" where
  "set_buf_group buf_group_id s = s\<lparr>se_buf_group := ucast buf_group_id\<rparr>"

definition prepare_timeout :: "sqe_addr \<Rightarrow> u32 \<Rightarrow> u32 \<Rightarrow> sqe \<Rightarrow> sqe" where
  "prepare_timeout ts count flags s =
     (PREPARE_SQE OP_TIMEOUT (- 1) ts count (Off 0) 0 s)\<lparr>se_op_flags := flags\<rparr>"

definition prepare_cancel :: "sqe_addr \<Rightarrow> u32 \<Rightarrow> sqe \<Rightarrow> sqe" where
  "prepare_cancel user_data flags s =
     (PREPARE_SQE OP_ASYNC_CANCEL (- 1) user_data 0 (Off 0) 0 s)\<lparr>se_op_flags := flags\<rparr>"

definition prepare_cancel_by_fd :: "sqe_addr \<Rightarrow> int \<Rightarrow> sqe \<Rightarrow> sqe" where
  "prepare_cancel_by_fd user_data fd s =
     (PREPARE_SQE OP_ASYNC_CANCEL fd user_data 0 (Off 0) 0 s)
       \<lparr>se_op_flags := IORING_ASYNC_CANCEL_FD OR IORING_ASYNC_CANCEL_ANY, se_len := IORING_OP_READ_CODE\<rparr>"

definition prepare_recv_multishot :: "int \<Rightarrow> sqe_addr \<Rightarrow> u32 \<Rightarrow> u16 \<Rightarrow> sqe \<Rightarrow> sqe" where
  "prepare_recv_multishot fd msghdr_ptr flags buf_group_id s =
     (let s = PREPARE_SQE OP_RECV fd msghdr_ptr 0 (Off 0) (flags OR IOSQE_BUFFER_SELECT) s
      in set_buf_group (ucast buf_group_id) (s\<lparr>se_ioprio := se_ioprio s OR IORING_RECV_MULTISHOT\<rparr>))"

definition prepare_recvmsg_multishot :: "int \<Rightarrow> sqe_addr \<Rightarrow> u32 \<Rightarrow> u16 \<Rightarrow> sqe \<Rightarrow> sqe" where
  "prepare_recvmsg_multishot fd msghdr_ptr flags buf_group_id s =
     (let s = PREPARE_SQE OP_RECVMSG fd msghdr_ptr 0 (Off 0) (flags OR IOSQE_BUFFER_SELECT) s
      in set_buf_group (ucast buf_group_id) (s\<lparr>se_ioprio := se_ioprio s OR IORING_RECV_MULTISHOT\<rparr>))"

definition prepare_recvmsg :: "int \<Rightarrow> sqe_addr \<Rightarrow> u32 \<Rightarrow> sqe \<Rightarrow> sqe" where
  "prepare_recvmsg fd msghdr_ptr flags = PREPARE_SQE OP_RECVMSG fd msghdr_ptr 0 (Off 0) flags"

definition prepare_poll :: "int \<Rightarrow> u16 \<Rightarrow> sqe \<Rightarrow> sqe" where
  "prepare_poll fd events s = (PREPARE_SQE OP_POLL_ADD fd A_Null 0 (Off 0) 0 s)\<lparr>se_op_flags := ucast events\<rparr>"

definition prepare_accept_multishot :: "int \<Rightarrow> sqe_addr \<Rightarrow> sqe_off \<Rightarrow> u32 \<Rightarrow> sqe \<Rightarrow> sqe" where
  "prepare_accept_multishot listen_fd addr addrlen flags s =
     (let s = PREPARE_SQE OP_ACCEPT listen_fd addr 0 addrlen flags s
      in s\<lparr>se_ioprio := se_ioprio s OR IORING_ACCEPT_MULTISHOT\<rparr>)"

definition prepare_sendmsg :: "int \<Rightarrow> sqe_addr \<Rightarrow> u32 \<Rightarrow> sqe \<Rightarrow> sqe" where
  "prepare_sendmsg fd msg flags s = (PREPARE_SQE OP_SENDMSG fd msg 1 (Off 0) 0 s)\<lparr>se_op_flags := flags\<rparr>"

definition prepare_writev :: "int \<Rightarrow> sqe_addr \<Rightarrow> u32 \<Rightarrow> u64 \<Rightarrow> sqe \<Rightarrow> sqe" where
  "prepare_writev fd iov iovcnt offset = PREPARE_SQE OP_WRITEV fd iov iovcnt (Off offset) 0"

definition prepare_read_multishot :: "int \<Rightarrow> u32 \<Rightarrow> u64 \<Rightarrow> u32 \<Rightarrow> sqe \<Rightarrow> sqe" where
  "prepare_read_multishot fd bytes offset buffer_group s =
     (let flags = ucast (se_flags s) OR IOSQE_BUFFER_SELECT
      in (PREPARE_SQE OP_READ fd A_Null bytes (Off offset) flags s)\<lparr>se_buf_group := ucast buffer_group\<rparr>)"

subsection \<open>Provided buffers\<close>

record uring_buf =
  rb_addr :: nat
  rb_len :: u32
  rb_bid :: u16

record buf_ring =
  br_tail :: u16
  br_bufs :: "uring_buf list"

definition buf_ring_mask :: "u32 \<Rightarrow> u32" where
  "buf_ring_mask block_count = block_count - 1"

definition add_buf_ring :: "nat \<Rightarrow> u32 \<Rightarrow> u32 \<Rightarrow> u32 \<Rightarrow> u32 \<Rightarrow> buf_ring \<Rightarrow> buf_ring result" where
  "add_buf_ring addr block_size bid msk idx br =
     (let i = unat ((ucast (br_tail br) + idx) AND msk)
      in if i < length (br_bufs br)
         then Inr (br\<lparr>br_bufs := (br_bufs br)[i := \<lparr>rb_addr = addr, rb_len = block_size, rb_bid = ucast bid\<rparr>]\<rparr>)
         else Inl Out_Of_Bounds)"

definition buf_ring_advance :: "u32 \<Rightarrow> buf_ring \<Rightarrow> buf_ring" where
  "buf_ring_advance block_count br = br\<lparr>br_tail := ucast (ucast (br_tail br) + block_count :: u32)\<rparr>"

text \<open>
  \<^verbatim>\<open>setup_buf_ring\<close> and \<^verbatim>\<open>free_buf_ring\<close>: \<open>reg\<close> is the error of \<^verbatim>\<open>io_uring_register\<close>,
  \<open>None\<close> for success; \<open>mem\<close> is the mapped address, \<open>unm\<close> whether \<^verbatim>\<open>munmap\<close> succeeds.
\<close>

definition setup_buf_ring :: "nat option \<Rightarrow> nat + nat \<Rightarrow> u32 \<Rightarrow> int \<times> (nat \<times> buf_ring) option" where
  "setup_buf_ring reg mem nentries =
     (case reg of
        Some e \<Rightarrow> (- int e, None)
      | None \<Rightarrow>
          (case mem of
             Inl e \<Rightarrow> (- int e, None)
           | Inr a \<Rightarrow>
               (0, Some (a, \<lparr>br_tail = 0,
                             br_bufs = replicate (unat nentries) \<lparr>rb_addr = 0, rb_len = 0, rb_bid = 0\<rparr>\<rparr>))))"

definition free_buf_ring :: "nat option \<Rightarrow> nat option \<Rightarrow> int" where
  "free_buf_ring reg unm =
     (case reg of Some e \<Rightarrow> - int e | None \<Rightarrow> (case unm of Some e \<Rightarrow> - int e | None \<Rightarrow> 0))"

subsection \<open>Slots of a ring of a power of two\<close>

lemma unat_and_mask:
  fixes a :: "'a :: len word"
  shows "unat (a AND mask k) = unat a mod 2 ^ k"
proof -
  have "unat (a AND mask k) = unat (take_bit k a)" by (simp only: take_bit_eq_mask)
  also have "\<dots> = take_bit k (unat a)" by (rule unsigned_take_bit_eq)
  finally show ?thesis by (simp only: take_bit_eq_mod)
qed

lemma unat_plus_mod:
  fixes h :: u32
  assumes "k \<le> 32"
  shows "unat (h + word_of_nat j) mod 2 ^ k = (unat h + j) mod 2 ^ k"
proof -
  have "unat (h + word_of_nat j) = (unat h + j) mod 2 ^ 32"
    by (simp add: unat_word_ariths unsigned_of_nat take_bit_eq_mod mod_add_right_eq)
  moreover have "(2 :: nat) ^ k dvd 2 ^ 32" using assms by (rule le_imp_power_dvd)
  ultimately show ?thesis by (simp add: mod_mod_cancel)
qed

definition ring_slot :: "nat \<Rightarrow> nat \<Rightarrow> u32 \<Rightarrow> nat \<Rightarrow> nat" where
  "ring_slot k sh h j = ((unat h + j) mod 2 ^ k) * 2 ^ sh"

lemma ring_slot_bound: "ring_slot k sh h j < 2 ^ k * 2 ^ sh"
  by (simp add: ring_slot_def)

lemma ring_slot_neq:
  assumes "i < j" "j < i + 2 ^ k"
  shows "ring_slot k sh h i \<noteq> ring_slot k sh h j"
proof -
  have "(unat h + i) mod 2 ^ k \<noteq> (unat h + j) mod 2 ^ k" using assms by (intro mod_neq_within) auto
  then show ?thesis by (simp add: ring_slot_def)
qed

lemma ring_slot_shift: "k \<le> 32 \<Longrightarrow> ring_slot k sh (h + word_of_nat n) j = ring_slot k sh h (n + j)"
  unfolding ring_slot_def using unat_plus_mod [of k h n]
  by (metis add.assoc mod_add_left_eq)

lemma slot_word: "k \<le> 32 \<Longrightarrow> unat ((h + word_of_nat j) AND mask k) * 2 ^ sh = ring_slot k sh h j"
  by (simp add: ring_slot_def unat_and_mask unat_plus_mod)

lemma u32_distance:
  fixes a b :: u32
  shows "a + word_of_nat (unat (b - a)) = b"
  by simp

lemma u32_dist_add:
  fixes a b :: u32
  assumes "unat (b - a) + n < 2 ^ 32"
  shows "unat (b + word_of_nat n - a) = unat (b - a) + n"
proof -
  have e: "b + word_of_nat n - a = (b - a) + word_of_nat n" by simp
  have "unat (word_of_nat n :: u32) = n" using assms by (simp add: unsigned_of_nat take_bit_nat_eq_self)
  then show ?thesis using assms unfolding e by (simp add: unat_plus_if')
qed

lemma u32_dist_advance:
  fixes a b :: u32
  assumes "n \<le> unat (b - a)"
  shows "unat (b - (a + word_of_nat n)) = unat (b - a) - n"
proof -
  have n: "unat (word_of_nat n :: u32) = n"
    using assms unat_u32_less [of "b - a"] by (simp add: unsigned_of_nat take_bit_nat_eq_self)
  have e: "b - (a + word_of_nat n) = (b - a) - word_of_nat n" by simp
  have "(word_of_nat n :: u32) \<le> b - a" using assms n by (simp add: word_le_nat_alt)
  then show ?thesis using n unfolding e by (simp only: unat_sub)
qed

subsection \<open>The submission queue as a queue\<close>

definition sq_ring :: "nat \<Rightarrow> wrapper \<Rightarrow> bool" where
  "sq_ring k w \<longleftrightarrow>
     k < 32 \<and> sq_mask w = mask k \<and> unat (sq_entries w) = 2 ^ k \<and> length (sq_sqes w) = 2 ^ k * 2 ^ sq_shift w \<and>
     unat (sqe_tail w - sq_khead w) \<le> 2 ^ k \<and> unat (sq_ktail w - sq_khead w) \<le> unat (sqe_tail w - sq_khead w)"

definition sq_queue :: "wrapper \<Rightarrow> sqe list" where
  "sq_queue w = map (\<lambda>j. sq_sqes w ! sq_slot w (sq_khead w + word_of_nat j)) [0 ..< unat (sqe_tail w - sq_khead w)]"

lemma sq_ring_slot:
  assumes "sq_ring k w"
  shows "sq_slot w (sq_khead w + word_of_nat j) = ring_slot k (sq_shift w) (sq_khead w) j"
    and "sq_slot w (sqe_tail w) = ring_slot k (sq_shift w) (sq_khead w) (unat (sqe_tail w - sq_khead w))"
    and "sq_slot w (sqe_tail w) < length (sq_sqes w)"
proof -
  show a: "sq_slot w (sq_khead w + word_of_nat j) = ring_slot k (sq_shift w) (sq_khead w) j" for j
    using assms by (simp add: sq_ring_def sq_slot_def slot_word)
  from a [of "unat (sqe_tail w - sq_khead w)"]
  show b: "sq_slot w (sqe_tail w) = ring_slot k (sq_shift w) (sq_khead w) (unat (sqe_tail w - sq_khead w))" by simp
  show "sq_slot w (sqe_tail w) < length (sq_sqes w)"
    using assms ring_slot_bound by (simp add: b sq_ring_def)
qed

lemma sq_queue_slots:
  assumes "sq_ring k w"
  shows "sq_queue w = map (\<lambda>j. sq_sqes w ! ring_slot k (sq_shift w) (sq_khead w) j) [0 ..< unat (sqe_tail w - sq_khead w)]"
  using sq_ring_slot(1) [OF assms] by (simp add: sq_queue_def)

lemma length_sq_queue [simp]: "length (sq_queue w) = unat (sqe_tail w - sq_khead w)"
  by (simp add: sq_queue_def)

text \<open>Room is left exactly while the distance is below the ring size.\<close>

lemma sq_full_iff:
  assumes "sq_ring k w"
  shows "sqe_tail w + 1 - sq_khead w \<le> sq_entries w \<longleftrightarrow> unat (sqe_tail w - sq_khead w) < 2 ^ k"
proof -
  have k: "k < 32" and le: "unat (sqe_tail w - sq_khead w) \<le> 2 ^ k" and e: "unat (sq_entries w) = 2 ^ k"
    using assms by (simp_all add: sq_ring_def)
  have "(2 :: nat) ^ k < 2 ^ 32" using k by (intro power_strict_increasing) auto
  then have "(2 :: nat) ^ k \<le> 2 ^ 31" using k by (intro power_increasing) auto
  then have "unat (sqe_tail w + word_of_nat 1 - sq_khead w) = unat (sqe_tail w - sq_khead w) + 1"
    using le by (intro u32_dist_add) simp
  then show ?thesis by (simp add: word_le_nat_alt e Suc_le_eq)
qed

lemma sq_queue_filled:
  assumes "sq_ring k w" "unat (sqe_tail w - sq_khead w) < 2 ^ k" "i = sq_slot w (sqe_tail w)"
  shows "sq_ring k (w\<lparr>sqe_tail := sqe_tail w + 1, sq_sqes := (sq_sqes w)[i := s]\<rparr>)"
    and "sq_queue (w\<lparr>sqe_tail := sqe_tail w + 1, sq_sqes := (sq_sqes w)[i := s]\<rparr>) = sq_queue w @ [s]"
proof -
  let ?w = "w\<lparr>sqe_tail := sqe_tail w + 1, sq_sqes := (sq_sqes w)[i := s]\<rparr>"
  let ?d = "unat (sqe_tail w - sq_khead w)"
  have "k < 32" using assms(1) by (simp add: sq_ring_def)
  then have "(2 :: nat) ^ k \<le> 2 ^ 31" by (intro power_increasing) auto
  then have d: "unat (sqe_tail w + 1 - sq_khead w) = ?d + 1"
    using assms(2) u32_dist_add [of "sqe_tail w" "sq_khead w" 1] by simp
  show r: "sq_ring k ?w" using assms(1,2) d by (simp add: sq_ring_def sq_shift_def)
  have i: "i = ring_slot k (sq_shift w) (sq_khead w) ?d" "i < length (sq_sqes w)"
    using sq_ring_slot(2,3) [OF assms(1)] assms(3) by simp_all
  have "sq_queue ?w = map (\<lambda>j. (sq_sqes w)[i := s] ! ring_slot k (sq_shift w) (sq_khead w) j) [0 ..< ?d + 1]"
    using sq_queue_slots [OF r] d by (simp add: sq_shift_def)
  also have "\<dots> = sq_queue w @ [s]"
  proof -
    have "ring_slot k (sq_shift w) (sq_khead w) j \<noteq> i" if "j < ?d" for j
      using that assms(2) unfolding i(1) by (intro ring_slot_neq) auto
    then have "(sq_sqes w)[i := s] ! ring_slot k (sq_shift w) (sq_khead w) j =
        sq_sqes w ! ring_slot k (sq_shift w) (sq_khead w) j" if "j < ?d" for j
      using that by (metis nth_list_update_neq)
    then show ?thesis using i by (simp add: sq_queue_slots [OF assms(1)])
  qed
  finally show "sq_queue ?w = sq_queue w @ [s]" .
qed

lemma sq_queue_take:
  assumes "sq_ring k w" "n \<le> unat (sq_ktail w - sq_khead w)"
  shows "sq_ring k (kernel_take n w)" "sq_queue (kernel_take n w) = drop n (sq_queue w)"
    "wr_taken (kernel_take n w) = wr_taken w @ take n (sq_queue w)"
proof -
  let ?d = "unat (sqe_tail w - sq_khead w)"
  have n: "n \<le> ?d" and k: "k < 32" using assms by (simp_all add: sq_ring_def)
  have d: "unat (sqe_tail w - (sq_khead w + word_of_nat n)) = ?d - n"
    "unat (sq_ktail w - (sq_khead w + word_of_nat n)) = unat (sq_ktail w - sq_khead w) - n"
    using n assms(2) by (simp_all add: u32_dist_advance)
  show r: "sq_ring k (kernel_take n w)"
    using assms d by (auto simp: sq_ring_def kernel_take_def sq_shift_def)
  show "sq_queue (kernel_take n w) = drop n (sq_queue w)"
  proof -
    have "sq_queue (kernel_take n w) = map (\<lambda>j. sq_sqes w ! ring_slot k (sq_shift w) (sq_khead w) (n + j)) [0 ..< ?d - n]"
      using k d unfolding sq_queue_slots [OF r] by (simp add: kernel_take_def sq_shift_def ring_slot_shift)
    also have "\<dots> = drop n (sq_queue w)"
      unfolding sq_queue_slots [OF assms(1)] using n by (auto intro!: nth_equalityI)
    finally show ?thesis .
  qed
  show "wr_taken (kernel_take n w) = wr_taken w @ take n (sq_queue w)"
    using n by (simp add: kernel_take_def sq_queue_def take_map)
qed


lemma u32_between:
  fixes a b c :: u32
  assumes "unat (b - a) \<le> unat (c - a)"
  shows "unat (c - b) \<le> unat (c - a)"
proof -
  have e: "c - b = (c - a) - (b - a)" by simp
  have "b - a \<le> c - a" using assms by (simp add: word_le_nat_alt)
  then have "unat ((c - a) - (b - a)) = unat (c - a) - unat (b - a)" by (rule unat_sub)
  then show ?thesis unfolding e by linarith
qed

lemma submit_ok:
  assumes "sq_ring k w" "sqe_tail w \<noteq> sq_ktail w" "wr_enter w = Enter_Ok n # as"
    "n \<le> unat (sqe_tail w - sq_ktail w)"
  obtains w' where "wrapper_submit w = Inr (int n, w')" "sq_ring k w'" "sq_queue w' = drop n (sq_queue w)"
    "wr_taken w' = wr_taken w @ take n (sq_queue w)" "sq_ktail w' = sqe_tail w'" "wr_enter w' = as" "sqe_tail w' = sqe_tail w"
proof -
  let ?w = "w\<lparr>sq_ktail := sqe_tail w, wr_enter := as,
      wr_entered := wr_entered w @ [(sqe_tail w - sq_ktail w, if need_wakeup_kernel w then IORING_ENTER_SQ_WAKEUP else 0)]\<rparr>"
  have r: "sq_ring k ?w" using assms(1) by (simp add: sq_ring_def sq_shift_def)
  have q: "sq_queue ?w = sq_queue w" "wr_taken ?w = wr_taken w"
    by (simp_all add: sq_queue_def sq_slot_def sq_shift_def)
  have "unat (sqe_tail w - sq_ktail w) \<le> unat (sqe_tail w - sq_khead w)"
    using assms(1) by (intro u32_between) (simp add: sq_ring_def)
  then have n: "n \<le> unat (sq_ktail ?w - sq_khead ?w)" using assms(4) by simp
  have "0 < sqe_tail w - sq_ktail w" using assms(2) by (simp add: word_gt_0)
  then have "wrapper_submit w = Inr (int n, kernel_take n ?w)"
    using assms(3) by (simp add: wrapper_submit_def Let_def need_wakeup_kernel_def)
  then show thesis using sq_queue_take [OF r n] q
    by (intro that [of "kernel_take n ?w"]) (simp_all add: kernel_take_def)
qed

text \<open>A failed submission has published its entries but the kernel took none.\<close>

lemma submit_failed:
  assumes "sq_ring k w" "sqe_tail w \<noteq> sq_ktail w" "wr_enter w = Enter_Err e # as"
  obtains w' where "wrapper_submit w = Inr (- int e, w')" "sq_ring k w'" "sq_queue w' = sq_queue w"
    "wr_taken w' = wr_taken w" "sq_ktail w' = sqe_tail w'" "wr_enter w' = as" "sqe_tail w' = sqe_tail w"
proof -
  let ?w = "w\<lparr>sq_ktail := sqe_tail w, wr_enter := as,
      wr_entered := wr_entered w @ [(sqe_tail w - sq_ktail w, if need_wakeup_kernel w then IORING_ENTER_SQ_WAKEUP else 0)]\<rparr>"
  have "0 < sqe_tail w - sq_ktail w" using assms(2) by (simp add: word_gt_0)
  then have "wrapper_submit w = Inr (- int e, ?w)"
    using assms(3) by (simp add: wrapper_submit_def Let_def need_wakeup_kernel_def)
  then show thesis using assms(1)
    by (intro that [of ?w]) (simp_all add: sq_ring_def sq_queue_def sq_slot_def sq_shift_def)
qed

lemma submit_nothing: "sq_ktail w = sqe_tail w \<Longrightarrow> wrapper_submit w = Inr (0, w)"
  by (simp add: wrapper_submit_def)

lemma sq_entry:
  assumes "sq_ring k w"
  shows "(if length (sq_queue w) = 2 ^ k then get_sqe w = Inr (None, w)
          else \<exists>i w1. get_sqe w = Inr (Some i, w1) \<and>
                 (\<forall>f. sq_ring k (modify_sqe i f w1) \<and>
                      sq_queue (modify_sqe i f w1) = sq_queue w @ [f (initialize_sqe (sq_sqes w ! i))]))"
proof (cases "length (sq_queue w) = 2 ^ k")
  case True
  then show ?thesis using sq_full_iff [OF assms] by (simp add: get_sqe_def Let_def)
next
  case False
  let ?i = "sq_slot w (sqe_tail w)"
  have lt: "unat (sqe_tail w - sq_khead w) < 2 ^ k" using False assms by (simp add: sq_ring_def)
  have i: "?i < length (sq_sqes w)" by (rule sq_ring_slot(3) [OF assms])
  let ?w = "w\<lparr>sqe_tail := sqe_tail w + 1, sq_sqes := (sq_sqes w)[?i := initialize_sqe (sq_sqes w ! ?i)]\<rparr>"
  have "get_sqe w = Inr (Some ?i, ?w)"
    using lt i sq_full_iff [OF assms] by (simp add: get_sqe_def Let_def)
  moreover have "modify_sqe ?i f ?w =
      w\<lparr>sqe_tail := sqe_tail w + 1, sq_sqes := (sq_sqes w)[?i := f (initialize_sqe (sq_sqes w ! ?i))]\<rparr>" for f
    using i by (simp add: modify_sqe_def)
  ultimately show ?thesis using False sq_queue_filled [OF assms lt refl] by auto
qed

subsection \<open>The completion queue as a queue\<close>

definition cq_ring :: "nat \<Rightarrow> wrapper \<Rightarrow> bool" where
  "cq_ring k w \<longleftrightarrow>
     k < 32 \<and> cq_mask w = mask k \<and> length (cq_cqes w) = 2 ^ k * 2 ^ wr_shift w \<and>
     unat (cq_ktail w - cq_khead w) \<le> 2 ^ k"

definition cq_queue :: "wrapper \<Rightarrow> cqe list" where
  "cq_queue w = map (\<lambda>j. cq_cqes w ! cq_slot w (cq_khead w + word_of_nat j)) [0 ..< unat (cq_ktail w - cq_khead w)]"

lemma length_cq_queue [simp]: "length (cq_queue w) = unat (cq_ktail w - cq_khead w)"
  by (simp add: cq_queue_def)

lemma cq_ring_slot:
  assumes "cq_ring k w"
  shows "cq_slot w (cq_khead w + word_of_nat j) = ring_slot k (wr_shift w) (cq_khead w) j"
    and "cq_slot w (cq_ktail w) = ring_slot k (wr_shift w) (cq_khead w) (unat (cq_ktail w - cq_khead w))"
    and "ring_slot k (wr_shift w) (cq_khead w) j < length (cq_cqes w)"
proof -
  show a: "cq_slot w (cq_khead w + word_of_nat j) = ring_slot k (wr_shift w) (cq_khead w) j" for j
    using assms by (simp add: cq_ring_def cq_slot_def slot_word)
  from a [of "unat (cq_ktail w - cq_khead w)"]
  show "cq_slot w (cq_ktail w) = ring_slot k (wr_shift w) (cq_khead w) (unat (cq_ktail w - cq_khead w))" by simp
  show "ring_slot k (wr_shift w) (cq_khead w) j < length (cq_cqes w)"
    using assms ring_slot_bound by (simp add: cq_ring_def)
qed

lemma cq_queue_slots:
  assumes "cq_ring k w"
  shows "cq_queue w = map (\<lambda>j. cq_cqes w ! ring_slot k (wr_shift w) (cq_khead w) j) [0 ..< unat (cq_ktail w - cq_khead w)]"
  using cq_ring_slot(1) [OF assms] by (simp add: cq_queue_def)

lemma get_cqe_nth:
  assumes "cq_ring k w" "j < length (cq_queue w)"
  shows "get_cqe (word_of_nat j) w = Inr (cq_queue w ! j)"
  using assms cq_ring_slot [OF assms(1)] by (simp add: get_cqe_def cq_queue_slots Let_def)

lemma u32_room:
  assumes "k < 32"
  shows "(2 :: nat) ^ k \<le> 2 ^ 31"
  using assms by (intro power_increasing) auto

lemma kernel_post_one:
  assumes "cq_ring k w" "unat (cq_ktail w - cq_khead w) < 2 ^ k"
  shows "cq_ring k (w\<lparr>cq_cqes := (cq_cqes w)[cq_slot w (cq_ktail w) := c], cq_ktail := cq_ktail w + 1\<rparr>)"
    and "cq_queue (w\<lparr>cq_cqes := (cq_cqes w)[cq_slot w (cq_ktail w) := c], cq_ktail := cq_ktail w + 1\<rparr>) = cq_queue w @ [c]"
proof -
  let ?i = "cq_slot w (cq_ktail w)" and ?d = "unat (cq_ktail w - cq_khead w)"
  let ?w = "w\<lparr>cq_cqes := (cq_cqes w)[?i := c], cq_ktail := cq_ktail w + 1\<rparr>"
  have "(2 :: nat) ^ k \<le> 2 ^ 31" using assms(1) by (intro u32_room) (simp add: cq_ring_def)
  then have d: "unat (cq_ktail w + 1 - cq_khead w) = ?d + 1"
    using assms(2) u32_dist_add [of "cq_ktail w" "cq_khead w" 1] by simp
  show r: "cq_ring k ?w" using assms d by (simp add: cq_ring_def)
  have i: "?i = ring_slot k (wr_shift w) (cq_khead w) ?d" "?i < length (cq_cqes w)"
    using cq_ring_slot(2,3) [OF assms(1)] by simp_all
  have "ring_slot k (wr_shift w) (cq_khead w) j \<noteq> ?i" if "j < ?d" for j
    using that assms(2) unfolding i(1) by (intro ring_slot_neq) auto
  then have "(cq_cqes w)[?i := c] ! ring_slot k (wr_shift w) (cq_khead w) j =
      cq_cqes w ! ring_slot k (wr_shift w) (cq_khead w) j" if "j < ?d" for j
    using that by (metis nth_list_update_neq)
  then show "cq_queue ?w = cq_queue w @ [c]"
    using i unfolding cq_queue_slots [OF r] cq_queue_slots [OF assms(1)] by (simp add: d)
qed

lemma kernel_post_queue:
  assumes "cq_ring k w" "length (cq_queue w) + length cs \<le> 2 ^ k"
  shows "cq_ring k (kernel_post cs w) \<and> cq_queue (kernel_post cs w) = cq_queue w @ cs"
  using assms
proof (induction cs arbitrary: w)
  case (Cons c cs)
  let ?w = "w\<lparr>cq_cqes := (cq_cqes w)[cq_slot w (cq_ktail w) := c], cq_ktail := cq_ktail w + 1\<rparr>"
  have r: "cq_ring k ?w" and q: "cq_queue ?w = cq_queue w @ [c]"
    using kernel_post_one [OF Cons.prems(1)] Cons.prems(2) by simp_all
  have "length (cq_queue ?w) + length cs \<le> 2 ^ k" using q Cons.prems(2) by (simp del: length_cq_queue)
  from Cons.IH [OF r this] q show ?case by simp
qed simp

lemma cq_consume_dist:
  assumes "c \<le> cq_ktail w - cq_khead w" "cq_khead w \<le> cq_ktail w"
  shows "cq_khead (cq_consume c w) = cq_khead w + c"
proof -
  have "unat c \<le> unat (cq_ktail w) - unat (cq_khead w)"
    using assms by (simp add: word_le_nat_alt unat_sub)
  then have "unat (cq_khead w) + unat c \<le> unat (cq_ktail w)" using assms(2) by (simp add: word_le_nat_alt)
  then have "\<not> cq_ktail w < cq_khead w + c"
    using unat_u32_less [of "cq_ktail w"] by (simp add: word_less_nat_alt unat_plus_if')
  then show ?thesis by (simp add: cq_consume_def Let_def)
qed

subsection \<open>Properties\<close>

text \<open>The wrapper of the witnesses: rings of two entries, indices about to wrap.\<close>

definition sample_wrapper :: wrapper where
  "sample_wrapper =
     \<lparr>wr_params = \<lparr>up_flags = 0, up_features = 1, up_sq_entries = 2, up_cq_entries = 2, up_sq_off_array = 0, up_cq_off_cqes = 0\<rparr>,
      wr_shift = 0, wr_fd = 4, wr_sq_ring = Mapped 1, wr_sq_ring_sz = 8, wr_cq_ring = Mapped 1, wr_cq_ring_sz = 32,
      wr_sqes_map = Mapped 2, sq_khead = 0xFFFFFFFF, sq_ktail = 0xFFFFFFFF, sq_mask = 1, sq_entries = 2, sq_kflags = 0,
      sq_sqes = [sqe_zero, sqe_zero], sqe_tail = 0, cq_khead = 0xFFFFFFFF, cq_ktail = 1, cq_mask = 1, cq_entries = 2,
      cq_cqes = [cqe_zero, cqe_zero], wr_unmapped = [], wr_enter = [], wr_entered = [], wr_taken = []\<rparr>"

lemma sample_wrapper_ring:
  "sq_ring 1 sample_wrapper" "sq_ring 1 (sample_wrapper\<lparr>wr_enter := as\<rparr>)"
  "length (sq_queue (sample_wrapper\<lparr>wr_enter := as\<rparr>)) = 1"
  by (simp_all add: sq_ring_def sample_wrapper_def sq_shift_def IORING_SETUP_SQE128_def mask_eq_exp_minus_1)

text \<open>
  C30. The submission queue is a bounded queue, whatever values the free-running 32-bit
  indices have: \<^verbatim>\<open>get_sqe\<close> returns null exactly when the kernel has not taken \<^verbatim>\<open>2^k\<close>
  entries yet, and otherwise a slot that no entry still in the queue occupies, so filling
  it appends one entry and disturbs none.
\<close>

theorem sq_entry_appends:
  assumes "sq_ring k w"
  shows "(if length (sq_queue w) = 2 ^ k then get_sqe w = Inr (None, w)
          else \<exists>i w1. get_sqe w = Inr (Some i, w1) \<and>
                 (\<forall>f. sq_ring k (modify_sqe i f w1) \<and>
                      sq_queue (modify_sqe i f w1) = sq_queue w @ [f (initialize_sqe (sq_sqes w ! i))]))"
  using assms by (rule sq_entry)

theorem sq_entry_appends_witness:
  "\<exists>i w1. get_sqe sample_wrapper = Inr (Some i, w1) \<and>
     sq_queue (modify_sqe i (set_user_data 7) w1) = sq_queue sample_wrapper @ [sqe_zero\<lparr>se_user_data := 7\<rparr>]"
proof -
  have "initialize_sqe sqe_zero = sqe_zero" by (simp add: initialize_sqe_def sqe_zero_def)
  moreover have "get_sqe sample_wrapper = Inr (Some i, w1) \<Longrightarrow> sq_sqes sample_wrapper ! i = sqe_zero" for i w1
    by (auto simp: get_sqe_def Let_def sample_wrapper_def sq_slot_def sq_shift_def IORING_SETUP_SQE128_def)
  moreover have "length (sq_queue sample_wrapper) = 1" by (simp add: sample_wrapper_def)
  ultimately show ?thesis using sq_entry_appends [OF sample_wrapper_ring(1)]
    by (fastforce simp: set_user_data_def simp del: length_sq_queue)
qed

text \<open>
  A successful \<^verbatim>\<open>submit\<close> publishes every prepared entry and hands the kernel the oldest
  entries in preparation order; it returns their number, and what the kernel did not take
  stays queued in order.
\<close>

theorem submit_takes_front:
  assumes "sq_ring k w" "sqe_tail w \<noteq> sq_ktail w" "wr_enter w = Enter_Ok n # as" "n \<le> unat (sqe_tail w - sq_ktail w)"
  shows "\<exists>w'. wrapper_submit w = Inr (int n, w') \<and> sq_ring k w' \<and> sq_ktail w' = sqe_tail w' \<and>
     wr_taken w' = wr_taken w @ take n (sq_queue w) \<and> sq_queue w' = drop n (sq_queue w)"
  using submit_ok [OF assms] by metis

theorem submit_takes_front_witness:
  "\<exists>w'. wrapper_submit (sample_wrapper\<lparr>wr_enter := [Enter_Ok 1]\<rparr>) = Inr (1, w') \<and> length (wr_taken w') = 1 \<and> sq_queue w' = []"
proof -
  let ?w = "sample_wrapper\<lparr>wr_enter := [Enter_Ok 1]\<rparr>"
  have "sqe_tail ?w \<noteq> sq_ktail ?w" "1 \<le> unat (sqe_tail ?w - sq_ktail ?w)" "wr_taken ?w = []"
    by (simp_all add: sample_wrapper_def)
  then show ?thesis
    using submit_takes_front [OF sample_wrapper_ring(2) [of "[Enter_Ok 1]"], of 1 "[]"] sample_wrapper_ring(3) [of "[Enter_Ok 1]"]
    by (auto simp del: length_sq_queue)
qed

text \<open>
  After \<^verbatim>\<open>io_uring_enter\<close> fails, the prepared requests are stranded: the published tail
  has already moved, so a retry of \<^verbatim>\<open>submit\<close> finds nothing to do and makes no system call,
  and the next request submits one entry too few: the kernel takes the oldest stranded
  entry, and the new request waits in its place.
\<close>

theorem failed_submit_strands_requests:
  assumes "sq_ring k w" "sqe_tail w \<noteq> sq_ktail w" "wr_enter w = Enter_Err e # Enter_Ok 1 # as"
    "length (sq_queue w) < 2 ^ k"
  shows "\<exists>w'. wrapper_submit w = Inr (- int e, w') \<and> sq_queue w' = sq_queue w \<and> wrapper_submit w' = Inr (0, w') \<and>
     (\<exists>i w1. get_sqe w' = Inr (Some i, w1) \<and>
        (\<forall>f. \<exists>w2. wrapper_submit (modify_sqe i f w1) = Inr (1, w2) \<and> wr_taken w2 = wr_taken w @ [hd (sq_queue w)] \<and>
               sq_queue w2 = tl (sq_queue w) @ [f (initialize_sqe (sq_sqes w' ! i))]))"
proof -
  obtain w' where w': "wrapper_submit w = Inr (- int e, w')" "sq_ring k w'" "sq_queue w' = sq_queue w"
      "wr_taken w' = wr_taken w" "sq_ktail w' = sqe_tail w'" "wr_enter w' = Enter_Ok 1 # as" "sqe_tail w' = sqe_tail w"
    using submit_failed [OF assms(1-3)] .
  have ne: "sq_queue w \<noteq> []"
  proof -
    have "sqe_tail w \<noteq> sq_khead w" using assms(1,2) by (auto simp: sq_ring_def unat_eq_zero)
    then have "unat (sqe_tail w - sq_khead w) \<noteq> 0" by (simp add: unat_eq_zero)
    then show ?thesis by (metis length_0_conv length_sq_queue)
  qed
  from sq_entry [OF w'(2)] assms(4) w'(3) obtain i w1 where i: "get_sqe w' = Inr (Some i, w1)"
    and fill: "\<And>f. sq_ring k (modify_sqe i f w1)"
      "\<And>f. sq_queue (modify_sqe i f w1) = sq_queue w @ [f (initialize_sqe (sq_sqes w' ! i))]"
    by (auto simp del: length_sq_queue)
  have f1: "sq_ktail (modify_sqe i f w1) = sqe_tail w'" "sqe_tail (modify_sqe i f w1) = sqe_tail w' + 1"
    "wr_enter (modify_sqe i f w1) = Enter_Ok 1 # as" "wr_taken (modify_sqe i f w1) = wr_taken w" for f
    using i w'(4,5,6) by (auto simp: get_sqe_def Let_def modify_sqe_def split: if_splits)
  have "\<exists>w2. wrapper_submit (modify_sqe i f w1) = Inr (1, w2) \<and> wr_taken w2 = wr_taken w @ [hd (sq_queue w)] \<and>
               sq_queue w2 = tl (sq_queue w) @ [f (initialize_sqe (sq_sqes w' ! i))]" for f
  proof -
    obtain q qs where q: "sq_queue w = q # qs" using ne by (cases "sq_queue w") auto
    obtain w2 where "wrapper_submit (modify_sqe i f w1) = Inr (int 1, w2)"
        "sq_queue w2 = drop 1 (sq_queue (modify_sqe i f w1))"
        "wr_taken w2 = wr_taken (modify_sqe i f w1) @ take 1 (sq_queue (modify_sqe i f w1))"
      using submit_ok [OF fill(1) [of f], of 1 as] f1 [of f] by auto
    then show ?thesis using q f1 [of f] fill(2) [of f] by auto
  qed
  then show ?thesis using w' i submit_nothing [OF w'(5)] by blast
qed

theorem failed_submit_strands_requests_witness:
  "\<exists>w'. wrapper_submit (sample_wrapper\<lparr>wr_enter := [Enter_Err 16, Enter_Ok 1]\<rparr>) = Inr (- 16, w') \<and> wrapper_submit w' = Inr (0, w')"
proof -
  let ?as = "[Enter_Err 16, Enter_Ok 1]"
  have "sqe_tail (sample_wrapper\<lparr>wr_enter := ?as\<rparr>) \<noteq> sq_ktail (sample_wrapper\<lparr>wr_enter := ?as\<rparr>)"
    by (simp add: sample_wrapper_def)
  then show ?thesis
    using failed_submit_strands_requests [OF sample_wrapper_ring(2) [of ?as], of 16 "[]"] sample_wrapper_ring(3) [of ?as]
    by (auto simp del: length_sq_queue)
qed

text \<open>
  C34. \<^verbatim>\<open>cq_consume\<close> compares \<^verbatim>\<open>head + count > tail\<close> without regard to the wrap-around of the
  32-bit indices. When the tail has wrapped past zero and the head has not, it consumes
  every completion up to the tail, also those posted after the ones that were handled:
  they are lost.
\<close>

theorem cq_consume_drops_at_wrap:
  assumes "cq_ktail w < cq_khead w" "unat (cq_khead w) + unat c < 2 ^ 32"
  shows "cq_khead (cq_consume c w) = cq_ktail w \<and> cq_queue (cq_consume c w) = []"
proof -
  have "cq_ktail w < cq_khead w + c"
    using assms by (simp add: word_less_nat_alt unat_plus_if')
  then show ?thesis by (simp add: cq_consume_def Let_def cq_queue_def)
qed

theorem cq_consume_drops_at_wrap_witness:
  "length (cq_queue sample_wrapper) = 2 \<and> cq_queue (cq_consume 0 sample_wrapper) = []"
  using cq_consume_drops_at_wrap [of sample_wrapper 0] by (simp add: sample_wrapper_def)

definition region_of :: "mapping \<Rightarrow> u64 \<Rightarrow> (nat \<times> u64) list" where
  "region_of m sz = (case m of Mapped a \<Rightarrow> [(a, sz)] | _ \<Rightarrow> [])"

lemma region_of_simps [simp]:
  "region_of Map_Failed sz = []" "region_of Map_Null sz = []" "region_of (Mapped a) sz = [(a, sz)]"
  "region_of (as_mapping None) sz = []" "region_of (as_mapping (Some a)) sz = [(a, sz)]"
  by (simp_all add: region_of_def as_mapping_def)

lemma unmap_eq: "unmap m sz w = w\<lparr>wr_unmapped := wr_unmapped w @ region_of m sz\<rparr>"
  by (simp add: unmap_def region_of_def split: mapping.splits)

text \<open>What \<^verbatim>\<open>clean_rings\<close> unmaps, by the features and the three pointers.\<close>

lemma clean_rings_eq:
  "clean_rings w =
     w\<lparr>wr_unmapped := wr_unmapped w @ region_of (wr_sq_ring w) (wr_sq_ring_sz w) @
         (if up_features (wr_params w) AND IORING_FEAT_SINGLE_MMAP = 0 then region_of (wr_cq_ring w) (wr_cq_ring_sz w) else []) @
         region_of (wr_sqes_map w) (sqe_map_size w),
       wr_sq_ring := Map_Failed, wr_cq_ring := Map_Failed, wr_sqes_map := Map_Failed\<rparr>"
  by (cases "wr_sq_ring w = Map_Failed"; cases "wr_cq_ring w = Map_Failed"; cases "wr_sqes_map w = Map_Failed")
    (simp_all add: clean_rings_def Let_def unmap_eq sqe_map_size_def)

text \<open>
  No mapping is leaked or unmapped twice: whatever the three \<^verbatim>\<open>mmap\<close> calls answer, once
  the wrapper is deleted each successful mapping has been unmapped exactly once, with the
  size it was mapped with, also when one mapping serves both rings.
\<close>

theorem rings_unmapped_once:
  assumes "wr_sq_ring w = Map_Null" "wr_cq_ring w = Map_Null" "wr_sqes_map w = Map_Null" "wr_unmapped w = []"
    "mmap_rings m_sq m_cq m_sqes k w = (ret, w1)"
  shows "wr_unmapped (fst (wrapper_delete w1)) =
     (case m_sq of
        None \<Rightarrow> []
      | Some a \<Rightarrow>
          (a, wr_sq_ring_sz w1) #
          (if up_features (wr_params w) AND IORING_FEAT_SINGLE_MMAP \<noteq> 0
           then (case m_sqes of None \<Rightarrow> [] | Some c \<Rightarrow> [(c, sqe_map_size w)])
           else case m_cq of
                  None \<Rightarrow> []
                | Some b \<Rightarrow> (b, wr_cq_ring_sz w1) # (case m_sqes of None \<Rightarrow> [] | Some c \<Rightarrow> [(c, sqe_map_size w)])))"
  using assms
  by (cases m_sq; cases m_cq; cases m_sqes; cases "up_features (wr_params w) AND IORING_FEAT_SINGLE_MMAP = 0")
    (auto simp: mmap_rings_def Let_def wrapper_delete_def clean_rings_eq assign_ring_address_def sqe_map_size_def)

theorem rings_unmapped_once_witness:
  "wr_unmapped (fst (wrapper_delete (snd (mmap_rings (Some 10) None (Some 20) \<lparr>kr_sq_mask = 1, kr_sq_entries = 2, kr_cq_mask = 1,
      kr_cq_entries = 2, kr_sqes = [], kr_cqes = []\<rparr>
      (sample_wrapper\<lparr>wr_sq_ring := Map_Null, wr_cq_ring := Map_Null, wr_sqes_map := Map_Null\<rparr>))))) = [(10, 32), (20, 128)]"
  using rings_unmapped_once [of "sample_wrapper\<lparr>wr_sq_ring := Map_Null, wr_cq_ring := Map_Null, wr_sqes_map := Map_Null\<rparr>"
      "Some 10" None "Some 20" "\<lparr>kr_sq_mask = 1, kr_sq_entries = 2, kr_cq_mask = 1, kr_cq_entries = 2, kr_sqes = [], kr_cqes = []\<rparr>"]
  by (simp add: prod_eq_iff[of "mmap_rings _ _ _ _ _"] sample_wrapper_def mmap_rings_def Let_def as_mapping_def assign_ring_address_def
      IORING_FEAT_SINGLE_MMAP_def IORING_SETUP_CQE32_def IORING_SETUP_SQE128_def SIZEOF_CQE_def SIZEOF_SQE_def sqe_map_size_def)

end
