(* ===== verification/Uring_Concurrent.thy ===== *)
theory Uring_Concurrent
  imports Uring_Wrapper Memory_Order
begin

unbundle bit_operations_syntax

text \<open>
  The completion queue of source/event/io_uring_wrapper.cpp shared with a kernel that posts
  completions at any time, under the orders of include/util/barrier.h: \<^verbatim>\<open>ktail\<close> is the index
  only the kernel stores, \<^verbatim>\<open>khead\<close> the one only the application stores, and the entries are
  the cells of \<open>spsc\<close>. The wrapper keeps the mask and the shift; its fields \<open>cq_khead\<close> and
  \<open>cq_ktail\<close> are replaced by the atomic variables, and the computations on them are those of
  the theory Uring_Wrapper. The kernel keeps the documented protocol: it acquires \<^verbatim>\<open>khead\<close>,
  posts only while an entry is free, and publishes the entry with a release store of
  \<^verbatim>\<open>ktail\<close>.
\<close>

record conc_cq =
  cc_mem :: "(u32, cqe) spsc"
  cc_w :: wrapper

definition conc_cq_new :: "wrapper \<Rightarrow> conc_cq" where
  "conc_cq_new w = \<lparr>cc_mem = spsc_init 0 cqe_zero, cc_w = w\<rparr>"

text \<open>The number of an entry; it starts at element \<open>cq_slot\<close> of the mapped array.\<close>

definition cq_entry :: "wrapper \<Rightarrow> u32 \<Rightarrow> nat" where
  "cq_entry w i = cq_slot w i div 2 ^ wr_shift w"

definition ra_wait_cqe_timeout :: "nat \<Rightarrow> conc_cq \<Rightarrow> int \<times> conc_cq" where
  "ra_wait_cqe_timeout lag g =
     (let (ktail_snapshot, m) = cons_smp_load_acquire lag Prod_Idx (cc_mem g);
          (head, m) = cons_load Relaxed lag Cons_Idx m;
          ready = ktail_snapshot - head
      in (if ready = 0 then - int ETIME else i32_of_u32 ready, g\<lparr>cc_mem := m\<rparr>))"

definition ra_get_cqe :: "nat \<Rightarrow> u32 \<Rightarrow> conc_cq \<Rightarrow> (cqe \<times> conc_cq) result" where
  "ra_get_cqe lag idx g =
     (let (head, m) = cons_load Relaxed lag Cons_Idx (cc_mem g)
      in bindE (cons_read (cq_entry (cc_w g) (head + idx)) m) (\<lambda>(c, m). Inr (c, g\<lparr>cc_mem := m\<rparr>)))"

definition ra_cq_consume :: "nat \<Rightarrow> u32 \<Rightarrow> conc_cq \<Rightarrow> conc_cq" where
  "ra_cq_consume lag count g =
     (let (tail, m) = cons_smp_load_acquire lag Prod_Idx (cc_mem g);
          (head, m) = cons_load Relaxed lag Cons_Idx m;
          w = cq_consume count ((cc_w g)\<lparr>cq_ktail := tail, cq_khead := head\<rparr>)
      in g\<lparr>cc_mem := cons_smp_store_release (cq_khead w) m\<rparr>)"

text \<open>The kernel: \<open>None\<close> when the queue looks full to it.\<close>

definition kernel_post_ra :: "nat \<Rightarrow> cqe \<Rightarrow> conc_cq \<Rightarrow> (conc_cq option) result" where
  "kernel_post_ra lag c g =
     (let (head, m) = prod_load Acquire lag Cons_Idx (cc_mem g);
          (tail, m) = prod_load Relaxed lag Prod_Idx m
      in if tail - head < cq_entries (cc_w g)
         then bindE (prod_write (cq_entry (cc_w g) tail) c m)
                (\<lambda>m. Inr (Some (g\<lparr>cc_mem := prod_store Release (tail + 1) m\<rparr>)))
         else Inr None)"

text \<open>
  The kernel and the loop that dispatches completions: the state holds the completions
  posted so far and how many the last wait has reported. Entries are read at the reported
  positions, and the report is consumed as a whole, as \<^verbatim>\<open>io_uring::dispatch\<close> does.
\<close>

type_synonym cq_state = "conc_cq \<times> cqe list \<times> nat"

inductive cq_step :: "cq_state \<Rightarrow> cq_state \<Rightarrow> bool" where
  post: "kernel_post_ra lag c g = Inr (Some g') \<Longrightarrow> length posted + 1 < 2 ^ 32
    \<Longrightarrow> cq_step (g, posted, n) (g', posted @ [c], n)"
| wait: "ra_wait_cqe_timeout lag g = (ret, g') \<Longrightarrow> cq_step (g, posted, n) (g', posted, nat ret)"
| read: "i < n \<Longrightarrow> ra_get_cqe lag (word_of_nat i) g = Inr (c, g') \<Longrightarrow> cq_step (g, posted, n) (g', posted, n)"
| consume: "cq_step (g, posted, n) (ra_cq_consume lag (word_of_nat n) g, posted, 0)"

definition cq_ok :: "wrapper \<Rightarrow> bool" where
  "cq_ok w \<longleftrightarrow> (\<exists>k < 31. cq_mask w = mask k \<and> unat (cq_entries w) = 2 ^ k)"

abbreviation cq_cap :: "conc_cq \<Rightarrow> nat" where
  "cq_cap g \<equiv> unat (cq_entries (cc_w g))"

definition consumed :: "conc_cq \<Rightarrow> nat" where
  "consumed g = unat (msg_val (last (at_hist (sp_at (cc_mem g)) Cons_Idx)))"

definition cq_inv :: "cq_state \<Rightarrow> bool" where
  "cq_inv st \<longleftrightarrow>
     (case st of (g, posted, n) \<Rightarrow>
        cq_ok (cc_w g) \<and>
        (\<exists>sw r sr. spsc_inv (cq_cap g) posted sw r sr (cc_mem g) \<and> r + n \<le> sr))"

lemma cq_entry_mod:
  assumes "cq_ok w"
  shows "cq_entry w i = unat i mod unat (cq_entries w)"
  using assms by (auto simp: cq_ok_def cq_entry_def cq_slot_def unat_and_mask)

lemma cq_cap_bound:
  assumes "cq_ok w"
  shows "unat (cq_entries w) \<le> 2 ^ 30"
proof -
  obtain k where "k < 31" "unat (cq_entries w) = 2 ^ k" using assms by (auto simp: cq_ok_def)
  then show ?thesis using power_increasing [of k 30 "2 :: nat"] by simp
qed

lemma spsc_no_wrap:
  assumes "spsc_inv n sent sw r sr (s :: (u32, 'b) spsc)"
  shows "length sent < 2 ^ 32"
  using prod_load_own(2) [OF assms] unat_u32_less by metis

lemma kernel_post_ra_ok:
  assumes "cq_inv (g, posted, n)" "length posted + 1 < 2 ^ 32"
  obtains "kernel_post_ra lag c g = Inr None"
  | g' where "kernel_post_ra lag c g = Inr (Some g')" and "cq_inv (g', posted @ [c], n)"
proof -
  obtain sw r sr where ok: "cq_ok (cc_w g)" and s: "spsc_inv (cq_cap g) posted sw r sr (cc_mem g)" and n: "r + n \<le> sr"
    using assms(1) by (auto simp: cq_inv_def)
  obtain v m where l: "prod_load Acquire lag Cons_Idx (cc_mem g) = (v, m)" by fastforce
  note a = prod_acquire [OF s l]
  note own = prod_load_own [OF a(1)]
  let ?t = "msg_val (last (at_hist (sp_at m) Prod_Idx))"
  have vl: "unat v \<le> length posted" using a(2) spsc_inv_bounds(1) [OF s] by simp
  have d: "unat (?t - v) = length posted - unat v"
    using vl own(2) by (simp add: unat_sub word_le_nat_alt)
  show thesis
  proof (cases "?t - v < cq_entries (cc_w g)")
    case False
    then show ?thesis using that(1) l own(1) by (simp add: kernel_post_ra_def)
  next
    case True
    then have room: "length posted < max sw (unat v) + cq_cap g"
      using d vl by (simp add: word_less_nat_alt)
    obtain m' where m': "prod_write (length posted mod cq_cap g) c m = Inr m'"
      "spsc_inv (cq_cap g) posted (max sw (unat v)) r sr m'"
      "c_val (sp_cells m' (length posted mod cq_cap g)) = c"
      using prod_write_ok [OF a(1) order_refl room, of c] by auto
    have "unat (?t + 1) = length posted + 1"
      using own(2) assms(2) by (simp add: unat_plus_if')
    then have "spsc_inv (cq_cap g) (posted @ [c]) (max sw (unat v)) r sr (prod_store Release (?t + 1) m')"
      using prod_commit [OF m'(2), of "?t + 1" 1] room m'(3) by simp
    then show ?thesis
      using True l own m'(1) ok n cq_entry_mod [OF ok]
      by (intro that(2) [of "g\<lparr>cc_mem := prod_store Release (?t + 1) m'\<rparr>"]) (auto simp: kernel_post_ra_def cq_inv_def)
  qed
qed

lemma ra_wait_ok:
  assumes "cq_inv (g, posted, n)" "ra_wait_cqe_timeout lag g = (ret, g')"
  shows "cq_inv (g', posted, nat ret)"
proof -
  obtain sw r sr where ok: "cq_ok (cc_w g)" and s: "spsc_inv (cq_cap g) posted sw r sr (cc_mem g)"
    using assms(1) by (auto simp: cq_inv_def)
  obtain v m where l: "cons_load Acquire lag Prod_Idx (cc_mem g) = (v, m)" by fastforce
  note a = cons_acquire [OF s l]
  note own = cons_load_own [OF a(1)]
  let ?h = "msg_val (last (at_hist (sp_at m) Cons_Idx))"
  have d: "unat (v - ?h) = unat v - r" using own(2) a(2) by (simp add: unat_sub word_le_nat_alt)
  also have "\<dots> \<le> 2 ^ 30" using a(3) spsc_inv_bounds(3) [OF s] cq_cap_bound [OF ok] by simp
  finally have "unat (v - ?h) < 2 ^ 31" by simp
  from i32_of_u32_small [OF this] have "i32_of_u32 (v - ?h) = int (unat (v - ?h))" by (simp only: of_nat_unat ucast_id)
  then have "i32_of_u32 (v - ?h) = int (unat v - r)" by (simp only: d)
  then have "nat ret \<le> unat v - r" and g': "g' = g\<lparr>cc_mem := m\<rparr>"
    using assms(2) l own(1) by (auto simp: ra_wait_cqe_timeout_def)
  then have "r + nat ret \<le> max sr (unat v)" using a(2) by simp
  then show ?thesis using ok a(1) g' unfolding cq_inv_def prod.case by auto
qed

lemma ra_get_cqe_ok:
  assumes "cq_inv (g, posted, n)" "i < n"
  obtains g' where "ra_get_cqe lag (word_of_nat i) g = Inr (posted ! (consumed g + i), g')"
    and "cq_inv (g', posted, n)"
proof -
  obtain sw r sr where ok: "cq_ok (cc_w g)" and s: "spsc_inv (cq_cap g) posted sw r sr (cc_mem g)" and n: "r + n \<le> sr"
    using assms(1) by (auto simp: cq_inv_def)
  note own = cons_load_own [OF s]
  let ?h = "msg_val (last (at_hist (sp_at (cc_mem g)) Cons_Idx))"
  have "r + i < 2 ^ 32" using n assms(2) spsc_inv_bounds(2) [OF s] spsc_no_wrap [OF s] by simp
  then have "unat (?h + word_of_nat i) = r + i"
    using own(2) by (simp add: unat_word_ariths unsigned_of_nat take_bit_nat_eq_self)
  then have e: "cq_entry (cc_w g) (?h + word_of_nat i) = (r + i) mod cq_cap g" using cq_entry_mod [OF ok] by simp
  obtain m where m: "cons_read ((r + i) mod cq_cap g) (cc_mem g) = Inr (posted ! (r + i), m)" "spsc_inv (cq_cap g) posted sw r sr m"
    using cons_read_ok [OF s, of "r + i"] n assms(2) by auto
  then show ?thesis
    using own e ok n by (intro that [of "g\<lparr>cc_mem := m\<rparr>"]) (auto simp: ra_get_cqe_def cq_inv_def consumed_def)
qed

lemma ra_cq_consume_ok:
  assumes "cq_inv (g, posted, n)"
  shows "cq_inv (ra_cq_consume lag (word_of_nat n) g, posted, 0)"
    and "consumed (ra_cq_consume lag (word_of_nat n) g) = consumed g + n"
proof -
  obtain sw r sr where ok: "cq_ok (cc_w g)" and s: "spsc_inv (cq_cap g) posted sw r sr (cc_mem g)" and n: "r + n \<le> sr"
    using assms(1) by (auto simp: cq_inv_def)
  obtain v m where l: "cons_load Acquire lag Prod_Idx (cc_mem g) = (v, m)" by fastforce
  note a = cons_acquire [OF s l]
  note own = cons_load_own [OF a(1)]
  let ?h = "msg_val (last (at_hist (sp_at m) Cons_Idx))"
  have "r + n < 2 ^ 32" using n spsc_inv_bounds(2) [OF s] spsc_no_wrap [OF s] by simp
  then have hn: "unat (?h + word_of_nat n) = r + n"
    using own(2) by (simp add: unat_word_ariths unsigned_of_nat take_bit_nat_eq_self)
  have "sr \<le> unat v" using s l cons_seen_step(3) [OF s refl] spsc_invD(5) [OF s]
    by (auto simp: cons_load_def atomic_load_explicit_def Let_def intro: order_trans)
  then have "\<not> v < ?h + word_of_nat n" using hn n by (simp add: word_less_nat_alt)
  then have g': "ra_cq_consume lag (word_of_nat n) g = g\<lparr>cc_mem := cons_store Release (?h + word_of_nat n) m\<rparr>"
    using l own(1) by (simp add: ra_cq_consume_def cq_consume_def Let_def)
  have "r + n \<le> cons_seen m" using n spsc_invD(5) [OF a(1)] by simp
  then have "spsc_inv (cq_cap g) posted sw (r + n) (max sr (unat v)) (cons_store Release (?h + word_of_nat n) m)"
    using cons_commit [OF a(1), of "?h + word_of_nat n"] hn by simp
  moreover from this have "unat (msg_val (last (at_hist (sp_at (cons_store Release (?h + word_of_nat n) m)) Cons_Idx))) = r + n"
    by (rule cons_load_own(2))
  ultimately show "cq_inv (ra_cq_consume lag (word_of_nat n) g, posted, 0)"
    and "consumed (ra_cq_consume lag (word_of_nat n) g) = consumed g + n"
    using ok n g' cons_load_own(2) [OF s] unfolding cq_inv_def consumed_def by (auto intro: le_max_iff_disj [THEN iffD2])
qed

lemma cq_step_inv:
  assumes "cq_inv st" "cq_step st st'"
  shows "cq_inv st'"
  using assms(2,1)
proof cases
  case (post lag c g g' posted n)
  then show ?thesis using kernel_post_ra_ok [of g posted n lag c] assms(1) by fastforce
next
  case (wait lag g ret g' posted n)
  then show ?thesis using ra_wait_ok assms(1) by blast
next
  case (read i n lag g c g' posted)
  then show ?thesis using ra_get_cqe_ok [of g posted n i lag] assms(1) by fastforce
next
  case (consume g posted n lag)
  then show ?thesis using ra_cq_consume_ok(1) assms(1) by blast
qed

interpretation cqu: spsc_user cq_step cq_inv "\<lambda>st. cc_mem (fst st)" "\<lambda>st. cq_cap (fst st)" "\<lambda>st. fst (snd st)"
proof
  show "cq_inv st \<Longrightarrow> cq_step st st' \<Longrightarrow> cq_inv st'" for st st' by (rule cq_step_inv)
  show "cq_inv st \<Longrightarrow> \<exists>sw r sr. spsc_inv (cq_cap (fst st)) (fst (snd st)) sw r sr (cc_mem (fst st))" for st
    by (cases st) (auto simp: cq_inv_def)
qed

lemma cq_start:
  assumes "cq_ok w"
  shows "cq_inv (conc_cq_new w, [], 0)"
proof -
  have "0 < unat (cq_entries w)" using assms by (auto simp: cq_ok_def)
  from spsc_init_inv [OF this, where ?'w = 32, of cqe_zero] have "spsc_inv (unat (cq_entries w)) [] 0 0 0 (spsc_init 0 cqe_zero :: (u32, cqe) spsc)" .
  then show ?thesis using assms by (auto simp: cq_inv_def conc_cq_new_def)
qed

subsection \<open>Properties\<close>

text \<open>
  C23. Completions under the memory orders of the code. The kernel posts at any time while
  the loop waits, reads and consumes, and every load of the other side's index may be stale.
  Until the 32-bit tail wraps, no access of an entry is a data race on either side, the
  entries a wait has reported are the completions posted after the consumed ones, in order,
  and consuming them moves the head past exactly these.
\<close>

theorem completions_release_acquire:
  assumes "cq_ok w" and "cq_step\<^sup>*\<^sup>* (conc_cq_new w, [], 0) (g, posted, n)"
  shows "(\<forall>i < n. consumed g + i < length posted \<and>
            (\<exists>g'. ra_get_cqe lag (word_of_nat i) g = Inr (posted ! (consumed g + i), g'))) \<and>
    consumed (ra_cq_consume lag (word_of_nat n) g) = consumed g + n \<and>
    (length posted + 1 < 2 ^ 32 \<longrightarrow> (\<exists>x. kernel_post_ra lag c g = Inr x)) \<and>
    length posted \<le> consumed g + cq_cap g"
proof (intro conjI allI impI)
  have inv: "cq_inv (g, posted, n)" using cqu.reachable_inv [OF assms(2) cq_start [OF assms(1)]] .
  then obtain sw r sr where s: "spsc_inv (cq_cap g) posted sw r sr (cc_mem g)" and n: "r + n \<le> sr"
    by (auto simp: cq_inv_def)
  have r: "consumed g = r" using cons_load_own(2) [OF s] by (simp add: consumed_def)
  show "consumed g + i < length posted" if "i < n" for i
    using that n r spsc_inv_bounds(2) [OF s] by simp
  show "\<exists>g'. ra_get_cqe lag (word_of_nat i) g = Inr (posted ! (consumed g + i), g')" if "i < n" for i
    using ra_get_cqe_ok [OF inv that] by metis
  show "consumed (ra_cq_consume lag (word_of_nat n) g) = consumed g + n" by (rule ra_cq_consume_ok(2) [OF inv])
  show "\<exists>x. kernel_post_ra lag c g = Inr x" if "length posted + 1 < 2 ^ 32"
    using kernel_post_ra_ok [OF inv that] by metis
  show "length posted \<le> consumed g + cq_cap g" using spsc_inv_bounds(3) [OF s] r by simp
qed

subsection \<open>A run\<close>

definition cq_two :: wrapper where
  "cq_two =
     \<lparr>wr_params = \<lparr>up_flags = IORING_SETUP_CQE32, up_features = 0, up_sq_entries = 2, up_cq_entries = 2,
                  up_sq_off_array = 0, up_cq_off_cqes = 0\<rparr>,
      wr_shift = 1, wr_fd = 3, wr_sq_ring = Map_Null, wr_sq_ring_sz = 0, wr_cq_ring = Map_Null, wr_cq_ring_sz = 0,
      wr_sqes_map = Map_Null, sq_khead = 0, sq_ktail = 0, sq_mask = 1, sq_entries = 2, sq_kflags = 0, sq_sqes = [],
      sqe_tail = 0, cq_khead = 0, cq_ktail = 0, cq_mask = 1, cq_entries = 2, cq_cqes = [], wr_unmapped = [],
      wr_enter = [], wr_entered = [], wr_taken = []\<rparr>"

definition run_post :: "(bool \<times> int) result" where
  "run_post =
     bindE (kernel_post_ra 0 cqe_zero (conc_cq_new cq_two)) (\<lambda>x.
       case x of None \<Rightarrow> Inr (False, 0) | Some g \<Rightarrow> Inr (True, fst (ra_wait_cqe_timeout 0 g)))"

lemma run_post_value: "run_post = Inr (True, 1)"
  by code_simp

lemma cq_two_ok: "cq_ok cq_two"
proof -
  have "cq_mask cq_two = mask 1" "unat (cq_entries cq_two) = 2 ^ 1" by (simp_all add: cq_two_def mask_eq_exp_minus_1)
  then show ?thesis unfolding cq_ok_def by (intro exI [of _ 1]) simp
qed

theorem completions_release_acquire_witness:
  "\<exists>g1 g2 g3. kernel_post_ra 0 cqe_zero (conc_cq_new cq_two) = Inr (Some g1) \<and>
     ra_wait_cqe_timeout 0 g1 = (1, g2) \<and> ra_get_cqe 0 (word_of_nat 0) g2 = Inr (cqe_zero, g3)"
proof -
  let ?g = "conc_cq_new cq_two"
  obtain g1 g2 where 1: "kernel_post_ra 0 cqe_zero ?g = Inr (Some g1)" and 2: "ra_wait_cqe_timeout 0 g1 = (1, g2)"
    using run_post_value by (auto simp: run_post_def bindE_Inr_iff prod_eq_iff split: option.splits)
  have "cq_step (?g, [], 0) (g1, [cqe_zero], 0)" using cq_step.post [OF 1, of "[]" 0] by simp
  moreover have "cq_step (g1, [cqe_zero], 0) (g2, [cqe_zero], 1)" using cq_step.wait [OF 2, of "[cqe_zero]" 0] by simp
  ultimately have run: "cq_step\<^sup>*\<^sup>* (?g, [], 0) (g2, [cqe_zero], 1)"
    by (meson converse_rtranclp_into_rtranclp rtranclp.rtrancl_refl)
  have "consumed g2 + 0 < 1" "\<exists>g3. ra_get_cqe 0 (word_of_nat 0) g2 = Inr ([cqe_zero] ! (consumed g2 + 0), g3)"
    using completions_release_acquire [OF cq_two_ok run, of 0 cqe_zero] by auto
  with 1 2 show ?thesis by auto
qed

end
