(* ===== verification/Uring_Submission.thy ===== *)
theory Uring_Submission
  imports Uring_Concurrent
begin

unbundle bit_operations_syntax

text \<open>
  The submission queue of source/event/io_uring_wrapper.cpp shared with the polling thread
  of the kernel (\<^verbatim>\<open>IORING_SETUP_SQPOLL\<close>), which takes entries at any time: \<^verbatim>\<open>ktail\<close> is the
  index only the application stores, \<^verbatim>\<open>khead\<close> the one only the kernel stores, the entries are
  the cells of \<open>spsc\<close>, and \<^verbatim>\<open>sqe_tail\<close> is private to the application. The application writes
  entries before it publishes them, several at once, so an entry may be initialised, prepared
  and rolled back many times before the kernel sees it.
\<close>

record conc_sq =
  cs_mem :: "(u32, sqe) spsc"
  cs_w :: wrapper

definition conc_sq_new :: "wrapper \<Rightarrow> conc_sq" where
  "conc_sq_new w = \<lparr>cs_mem = spsc_init 0 sqe_zero, cs_w = w\<lparr>sqe_tail := 0\<rparr>\<rparr>"

definition sq_entry :: "wrapper \<Rightarrow> u32 \<Rightarrow> nat" where
  "sq_entry w i = sq_slot w i div 2 ^ sq_shift w"

definition ra_get_sqe :: "nat \<Rightarrow> conc_sq \<Rightarrow> (nat option \<times> conc_sq) result" where
  "ra_get_sqe lag g =
     (let w = cs_w g; nxt = sqe_tail w + 1;
          (head, m) = (if up_flags (wr_params w) AND IORING_SETUP_SQPOLL = 0
                       then prod_load Relaxed lag Cons_Idx (cs_mem g)
                       else prod_smp_load_acquire lag Cons_Idx (cs_mem g))
      in if nxt - head \<le> sq_entries w
         then
           let i = sq_entry w (sqe_tail w)
           in bindE (prod_write i (initialize_sqe (c_val (sp_cells m i))) m) (\<lambda>m.
              Inr (Some i, g\<lparr>cs_mem := m, cs_w := w\<lparr>sqe_tail := nxt\<rparr>\<rparr>))
         else Inr (None, g\<lparr>cs_mem := m\<rparr>))"

text \<open>The \<^verbatim>\<open>prepare\<close> functions fill the entry behind the pointer \<^verbatim>\<open>get_sqe\<close> has returned.\<close>

definition ra_modify_sqe :: "nat \<Rightarrow> (sqe \<Rightarrow> sqe) \<Rightarrow> conc_sq \<Rightarrow> conc_sq result" where
  "ra_modify_sqe i f g =
     bindE (prod_write i (f (c_val (sp_cells (cs_mem g) i))) (cs_mem g)) (\<lambda>m. Inr (g\<lparr>cs_mem := m\<rparr>))"

text \<open>\<^verbatim>\<open>submit\<close> up to the system call: the number of entries to submit, and the publication.\<close>

definition ra_publish :: "nat \<Rightarrow> conc_sq \<Rightarrow> u32 \<times> conc_sq" where
  "ra_publish lag g =
     (let (ktail, m) = prod_load Relaxed lag Prod_Idx (cs_mem g); to_submit = sqe_tail (cs_w g) - ktail
      in if \<not> 0 < to_submit then (0, g\<lparr>cs_mem := m\<rparr>)
         else (to_submit, g\<lparr>cs_mem := prod_smp_store_release (sqe_tail (cs_w g)) m\<rparr>))"

definition ra_rollback_sqe :: "nat \<Rightarrow> conc_sq \<Rightarrow> conc_sq" where
  "ra_rollback_sqe lag g =
     (let (ktail, m) = prod_load Relaxed lag Prod_Idx (cs_mem g)
      in g\<lparr>cs_mem := m, cs_w := rollback_sqe ((cs_w g)\<lparr>sq_ktail := ktail\<rparr>)\<rparr>)"

text \<open>The kernel takes the next entry, if it sees one.\<close>

definition kernel_take_ra :: "nat \<Rightarrow> conc_sq \<Rightarrow> (sqe option \<times> conc_sq) result" where
  "kernel_take_ra lag g =
     (let (tail, m) = cons_load Acquire lag Prod_Idx (cs_mem g);
          (head, m) = cons_load Relaxed lag Cons_Idx m
      in if head = tail then Inr (None, g\<lparr>cs_mem := m\<rparr>)
         else bindE (cons_read (sq_entry (cs_w g) head) m) (\<lambda>(e, m).
              Inr (Some e, g\<lparr>cs_mem := cons_store Release (head + 1) m\<rparr>)))"

text \<open>
  The application and the kernel: entries requested and not yet published, entries published
  so far, entries the kernel has taken.
\<close>

type_synonym sq_state = "conc_sq \<times> sqe list \<times> sqe list \<times> sqe list"

inductive sq_step :: "sq_state \<Rightarrow> sq_state \<Rightarrow> bool" where
  request: "ra_get_sqe lag g = Inr (Some i, g') \<Longrightarrow> length sent + length pend + 1 < 2 ^ 32
    \<Longrightarrow> sq_step (g, pend, sent, taken) (g', pend @ [c_val (sp_cells (cs_mem g') i)], sent, taken)"
| full: "ra_get_sqe lag g = Inr (None, g') \<Longrightarrow> length sent + length pend + 1 < 2 ^ 32
    \<Longrightarrow> sq_step (g, pend, sent, taken) (g', pend, sent, taken)"
| prepare: "j < length pend \<Longrightarrow> ra_modify_sqe (sq_entry (cs_w g) (word_of_nat (length sent + j))) f g = Inr g'
    \<Longrightarrow> sq_step (g, pend, sent, taken) (g', pend[j := f (pend ! j)], sent, taken)"
| publish: "ra_publish lag g = (n, g') \<Longrightarrow> sq_step (g, pend, sent, taken) (g', [], sent @ pend, taken)"
| rollback: "sq_step (g, pend, sent, taken) (ra_rollback_sqe lag g, butlast pend, sent, taken)"
| take: "kernel_take_ra lag g = Inr (Some e, g') \<Longrightarrow> sq_step (g, pend, sent, taken) (g', pend, sent, taken @ [e])"
| idle: "kernel_take_ra lag g = Inr (None, g') \<Longrightarrow> sq_step (g, pend, sent, taken) (g', pend, sent, taken)"

definition sq_ok :: "wrapper \<Rightarrow> bool" where
  "sq_ok w \<longleftrightarrow> up_flags (wr_params w) AND IORING_SETUP_SQPOLL \<noteq> 0 \<and> (\<exists>k < 31. sq_mask w = mask k \<and> unat (sq_entries w) = 2 ^ k)"

abbreviation sq_cap :: "conc_sq \<Rightarrow> nat" where
  "sq_cap g \<equiv> unat (sq_entries (cs_w g))"

definition sq_holds :: "nat \<Rightarrow> nat \<Rightarrow> sq_state \<Rightarrow> bool" where
  "sq_holds sw sr st \<longleftrightarrow>
     (case st of (g, pend, sent, taken) \<Rightarrow>
        sq_ok (cs_w g) \<and> spsc_inv (sq_cap g) sent sw (length taken) sr (cs_mem g) \<and>
        unat (sqe_tail (cs_w g)) = length sent + length pend \<and> length sent + length pend \<le> sw + sq_cap g \<and>
        (\<forall>j < length pend. c_val (sp_cells (cs_mem g) ((length sent + j) mod sq_cap g)) = pend ! j) \<and>
        taken = take (length taken) sent)"

definition sq_inv :: "sq_state \<Rightarrow> bool" where
  "sq_inv st \<longleftrightarrow> (\<exists>sw sr. sq_holds sw sr st)"

lemma sq_entry_mod:
  assumes "sq_ok w"
  shows "sq_entry w i = unat i mod unat (sq_entries w)"
  using assms by (auto simp: sq_ok_def sq_entry_def sq_slot_def unat_and_mask)

lemma sq_holdsD:
  assumes "sq_holds sw sr (g, pend, sent, taken)"
  shows "sq_ok (cs_w g)" "spsc_inv (sq_cap g) sent sw (length taken) sr (cs_mem g)"
    "unat (sqe_tail (cs_w g)) = length sent + length pend" "length sent + length pend \<le> sw + sq_cap g"
    "j < length pend \<Longrightarrow> c_val (sp_cells (cs_mem g) ((length sent + j) mod sq_cap g)) = pend ! j"
    "taken = take (length taken) sent" "length sent + length pend < 2 ^ 32"
  using assms unat_u32_less [of "sqe_tail (cs_w g)"] by (auto simp: sq_holds_def)

text \<open>Entries that are not published yet are in different cells.\<close>

lemma pending_distinct:
  assumes "sq_holds sw sr (g, pend, sent, taken)" "j < length pend" "i < length pend" "i \<noteq> j"
  shows "(length sent + i) mod sq_cap g \<noteq> (length sent + j) mod sq_cap g"
proof -
  have "length pend \<le> sq_cap g"
    using sq_holdsD(4) [OF assms(1)] spsc_invD(2) [OF sq_holdsD(2) [OF assms(1)]] spsc_inv_bounds(1) [OF sq_holdsD(2) [OF assms(1)]]
    by simp
  then show ?thesis
    using mod_neq_within [of "length sent + i" "length sent + j" "sq_cap g"] mod_neq_within [of "length sent + j" "length sent + i" "sq_cap g"]
      assms(2-4) by (cases i j rule: linorder_cases) auto
qed

lemma ra_get_sqe_ok:
  assumes "sq_inv (g, pend, sent, taken)" "length sent + length pend + 1 < 2 ^ 32"
  obtains g' where "ra_get_sqe lag g = Inr (None, g')" and "sq_inv (g', pend, sent, taken)"
  | i g' where "ra_get_sqe lag g = Inr (Some i, g')" and "sq_inv (g', pend @ [c_val (sp_cells (cs_mem g') i)], sent, taken)"
proof -
  let ?w = "cs_w g" and ?k = "length sent + length pend"
  obtain sw sr where st: "sq_holds sw sr (g, pend, sent, taken)" using assms(1) by (auto simp: sq_inv_def)
  note h = sq_holdsD [OF st]
  obtain v m where l: "prod_load Acquire lag Cons_Idx (cs_mem g) = (v, m)" by fastforce
  note a = prod_acquire [OF h(2) l]
  have cells: "sp_cells m = sp_cells (cs_mem g)"
    using l by (auto simp: prod_load_def atomic_load_explicit_def Let_def)
  have vk: "unat v \<le> ?k" using a(2) spsc_inv_bounds(1) [OF h(2)] by simp
  have nxt: "unat (sqe_tail ?w + 1) = ?k + 1" using h(3) assms(2) by (simp add: unat_plus_if')
  then have d: "unat (sqe_tail ?w + 1 - v) = ?k + 1 - unat v" using vk by (simp add: unat_sub word_le_nat_alt)
  have poll: "up_flags (wr_params ?w) AND IORING_SETUP_SQPOLL \<noteq> 0" using h(1) by (simp add: sq_ok_def)
  show thesis
  proof (cases "sqe_tail ?w + 1 - v \<le> sq_entries ?w")
    case False
    then have "ra_get_sqe lag g = Inr (None, g\<lparr>cs_mem := m\<rparr>)" using l poll by (simp add: ra_get_sqe_def Let_def)
    moreover have "sq_holds (max sw (unat v)) sr (g\<lparr>cs_mem := m\<rparr>, pend, sent, taken)"
      using h a(1) cells by (simp add: sq_holds_def)
    ultimately show ?thesis using that(1) by (auto simp: sq_inv_def)
  next
    case True
    then have room: "?k < max sw (unat v) + sq_cap g" using d vk by (simp add: word_le_nat_alt)
    let ?i = "sq_entry ?w (sqe_tail ?w)"
    have i: "?i = ?k mod sq_cap g" using sq_entry_mod [OF h(1)] h(3) by simp
    obtain m' where m': "prod_write ?i (initialize_sqe (c_val (sp_cells m ?i))) m = Inr m'"
      "spsc_inv (sq_cap g) sent (max sw (unat v)) (length taken) sr m'"
      "\<And>j. c_val (sp_cells m' j) = (if j = ?i then initialize_sqe (c_val (sp_cells m ?i)) else c_val (sp_cells m j))"
      using prod_write_ok [OF a(1) _ room, of "initialize_sqe (c_val (sp_cells m ?i))"] i by auto
    let ?g = "g\<lparr>cs_mem := m', cs_w := ?w\<lparr>sqe_tail := sqe_tail ?w + 1\<rparr>\<rparr>"
    have old: "c_val (sp_cells m' ((length sent + j) mod sq_cap g)) = pend ! j" if "j < length pend" for j
      using m'(3) [of "(length sent + j) mod sq_cap g"] h(5) [OF that] cells i
        mod_neq_within [of "length sent + j" ?k "sq_cap g"] that h(4) spsc_invD(2) [OF h(2)] spsc_inv_bounds(1) [OF h(2)] room a(2)
      by auto
    have "ra_get_sqe lag g = Inr (Some ?i, ?g)" using True l poll m'(1) by (simp add: ra_get_sqe_def Let_def)
    moreover have "sq_holds (max sw (unat v)) sr (?g, pend @ [c_val (sp_cells (cs_mem ?g) ?i)], sent, taken)"
      using h m'(2) old room nxt i by (auto simp: sq_holds_def nth_append less_Suc_eq sq_ok_def)
    ultimately show ?thesis using that(2) by (auto simp: sq_inv_def)
  qed
qed

lemma ra_modify_sqe_ok:
  assumes "sq_inv (g, pend, sent, taken)" "j < length pend"
  obtains g' where "ra_modify_sqe (sq_entry (cs_w g) (word_of_nat (length sent + j))) f g = Inr g'"
    and "sq_inv (g', pend[j := f (pend ! j)], sent, taken)"
proof -
  obtain sw sr where st: "sq_holds sw sr (g, pend, sent, taken)" using assms(1) by (auto simp: sq_inv_def)
  note h = sq_holdsD [OF st]
  let ?k = "length sent + j" and ?i = "sq_entry (cs_w g) (word_of_nat (length sent + j))"
  have "unat (word_of_nat x :: u32) = x" if "x < 2 ^ 32" for x
    using that by (simp add: unsigned_of_nat take_bit_nat_eq_self)
  from this [of ?k] have "unat (word_of_nat ?k :: u32) = ?k" using h(7) assms(2) by simp
  then have i: "?i = ?k mod sq_cap g" using sq_entry_mod [OF h(1)] by simp
  obtain m where m: "prod_write ?i (f (pend ! j)) (cs_mem g) = Inr m" "spsc_inv (sq_cap g) sent sw (length taken) sr m"
    "\<And>x. c_val (sp_cells m x) = (if x = ?i then f (pend ! j) else c_val (sp_cells (cs_mem g) x))"
    using prod_write_ok [OF h(2), of ?k "f (pend ! j)"] h(4) assms(2) i by auto
  have "c_val (sp_cells m ((length sent + x) mod sq_cap g)) = pend[j := f (pend ! j)] ! x" if "x < length pend" for x
    using m(3) [of "(length sent + x) mod sq_cap g"] h(5) [OF that] i pending_distinct [OF st assms(2) that] that
    by (cases "x = j") auto
  then have "sq_holds sw sr (g\<lparr>cs_mem := m\<rparr>, pend[j := f (pend ! j)], sent, taken)"
    using h m(2) by (simp add: sq_holds_def)
  moreover have "ra_modify_sqe ?i f g = Inr (g\<lparr>cs_mem := m\<rparr>)"
    using m(1) h(5) [OF assms(2)] i by (simp add: ra_modify_sqe_def)
  ultimately show thesis using that by (auto simp: sq_inv_def)
qed

lemma ra_publish_ok:
  assumes "sq_inv (g, pend, sent, taken)"
  obtains g' where "ra_publish lag g = (word_of_nat (length pend), g')" and "sq_inv (g', [], sent @ pend, taken)"
proof -
  obtain sw sr where st: "sq_holds sw sr (g, pend, sent, taken)" using assms(1) by (auto simp: sq_inv_def)
  note h = sq_holdsD [OF st]
  note own = prod_load_own [OF h(2)]
  let ?t = "msg_val (last (at_hist (sp_at (cs_mem g)) Prod_Idx))" and ?e = "sqe_tail (cs_w g)"
  have "unat (?e - ?t) = length pend" using own(2) h(3) by (simp add: unat_sub word_le_nat_alt)
  then have d: "?e - ?t = word_of_nat (length pend)" by (metis of_nat_unat ucast_id)
  show thesis
  proof (cases "pend = []")
    case True
    then have "ra_publish lag g = (0, g)" using own(1) d by (simp add: ra_publish_def)
    then show ?thesis using that [of g] True assms by simp
  next
    case False
    then have "0 < ?e - ?t" using \<open>unat (?e - ?t) = length pend\<close> by (simp add: word_less_nat_alt)
    then have p: "ra_publish lag g = (?e - ?t, g\<lparr>cs_mem := prod_store Release ?e (cs_mem g)\<rparr>)"
      using own(1) by (simp add: ra_publish_def)
    have "map (\<lambda>i. c_val (sp_cells (cs_mem g) ((length sent + i) mod sq_cap g))) [0 ..< length pend] = pend"
      using h(5) by (intro nth_equalityI) auto
    then have "spsc_inv (sq_cap g) (sent @ pend) sw (length taken) sr (prod_store Release ?e (cs_mem g))"
      using prod_commit [OF h(2,3,4)] by simp
    moreover have "take (length taken) (sent @ pend) = taken"
      using h(6) spsc_inv_bounds(1) [OF h(2)] by (metis append_Nil2 diff_is_0_eq take_0 take_append)
    ultimately have "sq_holds sw sr (g\<lparr>cs_mem := prod_store Release ?e (cs_mem g)\<rparr>, [], sent @ pend, taken)"
      using h(1,3,4) by (simp add: sq_holds_def)
    then show ?thesis using that p d by (auto simp: sq_inv_def)
  qed
qed

lemma ra_rollback_sqe_ok:
  assumes "sq_inv (g, pend, sent, taken)"
  shows "sq_inv (ra_rollback_sqe lag g, butlast pend, sent, taken)"
proof -
  obtain sw sr where st: "sq_holds sw sr (g, pend, sent, taken)" using assms(1) by (auto simp: sq_inv_def)
  note h = sq_holdsD [OF st]
  note own = prod_load_own [OF h(2)]
  let ?t = "msg_val (last (at_hist (sp_at (cs_mem g)) Prod_Idx))" and ?e = "sqe_tail (cs_w g)"
  have le: "?e \<le> ?t \<longleftrightarrow> pend = []" using own(2) h(3) by (simp add: word_le_nat_alt)
  have "unat (?e - 1) = length sent + (length pend - 1)" if "pend \<noteq> []"
    using that h(3) by (cases pend) (simp_all add: unat_sub word_le_nat_alt)
  then have "sq_holds sw sr (ra_rollback_sqe lag g, butlast pend, sent, taken)"
    using h own(1) le by (cases "pend = []") (auto simp: sq_holds_def ra_rollback_sqe_def rollback_sqe_def nth_butlast sq_ok_def)
  then show ?thesis by (auto simp: sq_inv_def)
qed

lemma kernel_take_ra_ok:
  assumes "sq_inv (g, pend, sent, taken)"
  obtains g' where "kernel_take_ra lag g = Inr (None, g')" and "sq_inv (g', pend, sent, taken)"
  | g' where "length taken < length sent" and "kernel_take_ra lag g = Inr (Some (sent ! length taken), g')"
    and "sq_inv (g', pend, sent, taken @ [sent ! length taken])"
proof -
  obtain sw sr where st: "sq_holds sw sr (g, pend, sent, taken)" using assms(1) by (auto simp: sq_inv_def)
  note h = sq_holdsD [OF st]
  obtain v m where l: "cons_load Acquire lag Prod_Idx (cs_mem g) = (v, m)" by fastforce
  note a = cons_acquire [OF h(2) l]
  note own = cons_load_own [OF a(1)]
  have cells: "sp_cells m = sp_cells (cs_mem g)"
    using l by (auto simp: cons_load_def atomic_load_explicit_def Let_def)
  let ?h = "msg_val (last (at_hist (sp_at m) Cons_Idx))" and ?r = "length taken"
  show thesis
  proof (cases "?h = v")
    case True
    then have "kernel_take_ra lag g = Inr (None, g\<lparr>cs_mem := m\<rparr>)" using l own(1) by (simp add: kernel_take_ra_def)
    moreover have "sq_holds sw (max sr (unat v)) (g\<lparr>cs_mem := m\<rparr>, pend, sent, taken)"
      using h a(1) cells by (simp add: sq_holds_def)
    ultimately show ?thesis using that(1) by (auto simp: sq_inv_def)
  next
    case False
    then have rv: "?r < unat v" using own(2) a(2) by (metis le_neq_implies_less word_unat_eq_iff)
    then have "?r < length sent" using a(3) by simp
    obtain m' where m': "cons_read (?r mod sq_cap g) m = Inr (sent ! ?r, m')" "spsc_inv (sq_cap g) sent sw ?r (max sr (unat v)) m'"
      using cons_read_ok [OF a(1), of ?r] rv by (auto simp: less_max_iff_disj)
    have c': "c_val (sp_cells m' x) = c_val (sp_cells m x)" for x
      using m'(1) by (auto simp: cons_read_def plain_read_def bindE_Inr_iff split: if_splits)
    have e: "sq_entry (cs_w g) ?h = ?r mod sq_cap g" using sq_entry_mod [OF h(1)] own(2) by simp
    have n: "unat (?h + 1) = Suc ?r" using own(2) \<open>?r < length sent\<close> h(7) by (simp add: unat_plus_if')
    have seen: "unat v \<le> cons_seen m'" using spsc_invD(5) [OF m'(2)] by simp
    have cells': "sp_cells (cons_store Release (?h + 1) m') = sp_cells m'"
      by (simp add: cons_store_def atomic_store_explicit_def Let_def)
    have "spsc_inv (sq_cap g) sent sw (Suc ?r) (max sr (unat v)) (cons_store Release (?h + 1) m')"
      using cons_commit [OF m'(2), of "?h + 1"] n rv seen by simp
    moreover have "take (Suc ?r) sent = taken @ [sent ! ?r]"
      using h(6) \<open>?r < length sent\<close> by (metis take_Suc_conv_app_nth)
    ultimately have "sq_holds sw (max sr (unat v)) (g\<lparr>cs_mem := cons_store Release (?h + 1) m'\<rparr>, pend, sent, taken @ [sent ! ?r])"
      using h(1-5) cells cells' c' by (simp add: sq_holds_def)
    moreover have "kernel_take_ra lag g = Inr (Some (sent ! ?r), g\<lparr>cs_mem := cons_store Release (?h + 1) m'\<rparr>)"
      using False l own(1) e m'(1) by (simp add: kernel_take_ra_def)
    ultimately show ?thesis using that(2) \<open>?r < length sent\<close> by (auto simp: sq_inv_def)
  qed
qed

lemma sq_step_inv:
  assumes "sq_inv st" "sq_step st st'"
  shows "sq_inv st'"
  using assms(2,1)
proof cases
  case (request lag g i g' sent pend taken)
  then show ?thesis using ra_get_sqe_ok [of g pend sent taken lag] assms(1) by fastforce
next
  case (full lag g g' sent pend taken)
  then show ?thesis using ra_get_sqe_ok [of g pend sent taken lag] assms(1) by fastforce
next
  case (prepare j pend g sent f g' taken)
  then show ?thesis using ra_modify_sqe_ok [of g pend sent taken j f] assms(1) by fastforce
next
  case (publish lag g n g' pend sent taken)
  then show ?thesis using ra_publish_ok [of g pend sent taken lag] assms(1) by fastforce
next
  case (rollback g pend sent taken lag)
  then show ?thesis using ra_rollback_sqe_ok assms(1) by blast
next
  case (take lag g e g' pend sent taken)
  then show ?thesis using kernel_take_ra_ok [of g pend sent taken lag] assms(1) by fastforce
next
  case (idle lag g g' pend sent taken)
  then show ?thesis using kernel_take_ra_ok [of g pend sent taken lag] assms(1) by fastforce
qed

interpretation squ: spsc_user sq_step sq_inv "\<lambda>st. cs_mem (fst st)" "\<lambda>st. sq_cap (fst st)" "\<lambda>st. fst (snd (snd st))"
proof
  show "sq_inv st \<Longrightarrow> sq_step st st' \<Longrightarrow> sq_inv st'" for st st' by (rule sq_step_inv)
  show "sq_inv st \<Longrightarrow> \<exists>sw r sr. spsc_inv (sq_cap (fst st)) (fst (snd (snd st))) sw r sr (cs_mem (fst st))" for st
    by (cases st) (auto simp: sq_inv_def sq_holds_def)
qed

lemma sq_start:
  assumes "sq_ok w"
  shows "sq_inv (conc_sq_new w, [], [], [])"
proof -
  have "0 < unat (sq_entries w)" using assms by (auto simp: sq_ok_def)
  from spsc_init_inv [OF this, where ?'w = 32, of sqe_zero]
  have "spsc_inv (unat (sq_entries w)) [] 0 0 0 (spsc_init 0 sqe_zero :: (u32, sqe) spsc)" .
  then have "sq_holds 0 0 (conc_sq_new w, [], [], [])" using assms by (simp add: sq_holds_def conc_sq_new_def sq_ok_def)
  then show ?thesis by (auto simp: sq_inv_def)
qed

subsection \<open>Properties\<close>

text \<open>
  C24. Submissions under the memory orders of the code. The polling thread of the kernel takes
  entries at any time while the application requests, prepares, rolls back and publishes
  them, and every load of the other side's index may be stale. Until the 32-bit tail wraps,
  the kernel takes exactly the published entries, as they were prepared and in order; no
  access of an entry is a data race on either side; \<^verbatim>\<open>submit\<close> counts exactly the entries
  requested since the last one; and a request is never given an entry the kernel has not
  taken yet.
\<close>

theorem submissions_release_acquire:
  assumes "sq_ok w" and "sq_step\<^sup>*\<^sup>* (conc_sq_new w, [], [], []) (g, pend, sent, taken)"
  shows "taken = take (length taken) sent \<and>
    (\<exists>x g'. kernel_take_ra lag g = Inr (x, g') \<and> (x = None \<or> length taken < length sent \<and> x = Some (sent ! length taken))) \<and>
    (\<forall>j < length pend. \<exists>g'. ra_modify_sqe (sq_entry (cs_w g) (word_of_nat (length sent + j))) f g = Inr g') \<and>
    (length sent + length pend + 1 < 2 ^ 32 \<longrightarrow> (\<exists>x. ra_get_sqe lag g = Inr x)) \<and>
    (\<exists>g'. ra_publish lag g = (word_of_nat (length pend), g')) \<and>
    length sent + length pend \<le> length taken + sq_cap g"
proof (intro conjI allI impI)
  have inv: "sq_inv (g, pend, sent, taken)" using squ.reachable_inv [OF assms(2) sq_start [OF assms(1)]] .
  then obtain sw sr where st: "sq_holds sw sr (g, pend, sent, taken)" by (auto simp: sq_inv_def)
  show "taken = take (length taken) sent" by (rule sq_holdsD(6) [OF st])
  show "\<exists>x g'. kernel_take_ra lag g = Inr (x, g') \<and> (x = None \<or> length taken < length sent \<and> x = Some (sent ! length taken))"
    using kernel_take_ra_ok [OF inv, of lag] by metis
  show "\<exists>g'. ra_modify_sqe (sq_entry (cs_w g) (word_of_nat (length sent + j))) f g = Inr g'" if "j < length pend" for j
    using ra_modify_sqe_ok [OF inv that, of f] by metis
  show "\<exists>x. ra_get_sqe lag g = Inr x" if "length sent + length pend + 1 < 2 ^ 32"
    using ra_get_sqe_ok [OF inv that, of lag] by metis
  show "\<exists>g'. ra_publish lag g = (word_of_nat (length pend), g')" using ra_publish_ok [OF inv, of lag] by metis
  show "length sent + length pend \<le> length taken + sq_cap g"
    using sq_holdsD(4) [OF st] spsc_invD(2) [OF sq_holdsD(2) [OF st]] by simp
qed

text \<open>
  Without \<^verbatim>\<open>IORING_SETUP_SQPOLL\<close> the code reads \<^verbatim>\<open>khead\<close> without an order, which is enough only
  because the kernel then takes entries inside \<^verbatim>\<open>io_uring_enter\<close>: if it took them on its own,
  an entry that is reused would be written in a race with its reading.
\<close>

definition sq_two :: "u32 \<Rightarrow> wrapper" where
  "sq_two fl = cq_two\<lparr>wr_params := (wr_params cq_two)\<lparr>up_flags := fl\<rparr>, sq_mask := 0, sq_entries := 1\<rparr>"

definition reuse_entry :: "u32 \<Rightarrow> nat option result" where
  "reuse_entry fl =
     bindE (ra_get_sqe 0 (conc_sq_new (sq_two fl))) (\<lambda>(_, g).
     bindE (kernel_take_ra 0 (snd (ra_publish 0 g))) (\<lambda>(_, g).
     bindE (ra_get_sqe 0 g) (\<lambda>(i, _). Inr i)))"

lemmas sq_run_defs = ra_get_sqe_def ra_publish_def kernel_take_ra_def conc_sq_new_def sq_two_def cq_two_def sq_entry_def sq_slot_def
  sq_shift_def IORING_SETUP_SQPOLL_def IORING_SETUP_SQE128_def prod_load_def cons_load_def prod_store_def cons_store_def
  prod_write_def cons_read_def plain_read_def plain_write_def spsc_init_def atomics_init_def cell_init_def view_start_def view_bot_def
  view_join_def view_tick_def atomic_load_explicit_def atomic_store_explicit_def load_pos_def

lemma bindE_Let: "bindE (Let x f) k = (let y = x in bindE (f y) k)"
  by (simp add: Let_def)

lemma reuse_needs_acquire: "reuse_entry IORING_SETUP_SQPOLL = Inr (Some 0)" "reuse_entry 0 = Inl Data_Race"
  by (simp_all add: reuse_entry_def sq_run_defs bindE_Let)

subsection \<open>A run\<close>

lemma sq_two_ok: "sq_ok (sq_two IORING_SETUP_SQPOLL)"
proof -
  have "sq_mask (sq_two IORING_SETUP_SQPOLL) = mask 0" "unat (sq_entries (sq_two IORING_SETUP_SQPOLL)) = 2 ^ 0"
    by (simp_all add: sq_two_def)
  then show ?thesis unfolding sq_ok_def by (intro conjI exI [of _ 0]) (simp_all add: sq_two_def IORING_SETUP_SQPOLL_def)
qed

theorem submissions_release_acquire_witness:
  "\<exists>g1. ra_get_sqe 0 (conc_sq_new (sq_two IORING_SETUP_SQPOLL)) = Inr (Some 0, g1) \<and>
     (\<exists>g2. ra_modify_sqe 0 (se_len_update (\<lambda>_. 7)) g1 = Inr g2) \<and> (\<exists>g2. ra_publish 0 g1 = (1, g2))"
proof -
  let ?g = "conc_sq_new (sq_two IORING_SETUP_SQPOLL)"
  have "bindE (ra_get_sqe 0 ?g) (\<lambda>(i, _). Inr i) = Inr (Some 0)" by (simp add: sq_run_defs)
  then obtain g1 where 1: "ra_get_sqe 0 ?g = Inr (Some 0, g1)" by (auto simp: bindE_Inr_iff)
  let ?e = "c_val (sp_cells (cs_mem g1) 0)"
  have run: "sq_step\<^sup>*\<^sup>* (?g, [], [], []) (g1, [?e], [], [])"
    using sq_step.request [OF 1, of "[]" "[]" "[]"] by simp
  have e: "sq_entry (cs_w g1) 0 = 0" by (simp add: sq_entry_def sq_slot_def)
  show ?thesis
    using submissions_release_acquire [OF sq_two_ok run, of 0 "se_len_update (\<lambda>_. 7)"] 1 e by auto
qed

end
