(* ===== verification/Ownership.thy ===== *)
theory Ownership
  imports Ring_Buffer
begin

text \<open>
  Who releases what: the owning classes of include/coroutine/awaitable.h with their move
  operations and destructors, the message headers of source/event/complete_action.cpp, and
  the life of a ring buffer (source/data_struct/ring_buffer.cpp). The heap knows for every
  live block how it was allocated; releasing a block in another way, or twice, is the fault
  \<open>Bad_Free\<close>.
\<close>

subsection \<open>Heap\<close>

datatype block_type =
    T_State | T_Async_State | T_Read_State | T_Timer_State | T_Void_State | T_Accept_State
  | T_Frame | T_Msghdrs | T_Msghdr | T_Sockaddr | T_Ring_Buffer

datatype block = B_New block_type | B_Malloc | B_Mmap

record heap =
  hp_block :: "nat \<Rightarrow> block option"
  hp_next :: nat

definition heap_empty :: heap where
  "heap_empty = \<lparr>hp_block = (\<lambda>_. None), hp_next = 0\<rparr>"

definition heap_alloc :: "block \<Rightarrow> heap \<Rightarrow> nat \<times> heap" where
  "heap_alloc b h = (hp_next h, h\<lparr>hp_block := (hp_block h)(hp_next h \<mapsto> b), hp_next := hp_next h + 1\<rparr>)"

definition heap_release :: "block \<Rightarrow> nat option \<Rightarrow> heap \<Rightarrow> heap result" where
  "heap_release b p h =
     (case p of
        None \<Rightarrow> Inr h
      | Some a \<Rightarrow> if hp_block h a = Some b then Inr (h\<lparr>hp_block := (hp_block h)(a := None)\<rparr>) else Inl Bad_Free)"

text \<open>\<^verbatim>\<open>free(p)\<close>, and \<^verbatim>\<open>delete p\<close> where the static type of \<^verbatim>\<open>p\<close> is \<open>ty\<close> and has no virtual destructor.\<close>

definition heap_free :: "nat option \<Rightarrow> heap \<Rightarrow> heap result" where
  "heap_free = heap_release B_Malloc"

definition heap_delete :: "block_type \<Rightarrow> nat option \<Rightarrow> heap \<Rightarrow> heap result" where
  "heap_delete ty = heap_release (B_New ty)"

definition heap_ok :: "heap \<Rightarrow> bool" where
  "heap_ok h \<longleftrightarrow> (\<forall>a. hp_block h a \<noteq> None \<longrightarrow> a < hp_next h)"

lemmas heap_defs = heap_alloc_def heap_release_def heap_free_def heap_delete_def

lemma heap_ok_fresh: "heap_ok h \<Longrightarrow> hp_next h \<le> a \<Longrightarrow> hp_block h a = None"
  by (metis heap_ok_def linorder_not_less)

lemma heap_ok_alloc: "heap_ok h \<Longrightarrow> heap_ok (snd (heap_alloc b h))"
  by (auto simp: heap_ok_def heap_alloc_def less_Suc_eq)

lemma heap_ok_release: "heap_ok h \<Longrightarrow> heap_release b p h = Inr h' \<Longrightarrow> heap_ok h'"
  by (auto simp: heap_ok_def heap_release_def split: option.splits if_splits)

subsection \<open>Owning classes\<close>

text \<open>
  The awaitables own a state block through \<^verbatim>\<open>self_\<close>, tasks and generators own a coroutine
  frame through \<^verbatim>\<open>handle_\<close>. A program is a sequence of operations on variables; a variable
  holds the class of its object and the pointer of the object.
\<close>

datatype owner_class = C_Result | C_Read | C_Timer | C_Void | C_Accept | C_Task | C_Generator

fun class_block :: "owner_class \<Rightarrow> block_type" where
  "class_block C_Result = T_Async_State"
| "class_block C_Read = T_Read_State"
| "class_block C_Timer = T_Timer_State"
| "class_block C_Void = T_Void_State"
| "class_block C_Accept = T_Accept_State"
| "class_block C_Task = T_Frame"
| "class_block C_Generator = T_Frame"

definition is_awaiter :: "owner_class \<Rightarrow> bool" where
  "is_awaiter c \<longleftrightarrow> c \<noteq> C_Task \<and> c \<noteq> C_Generator"

record owners =
  ow_heap :: heap
  ow_var :: "nat \<Rightarrow> (owner_class \<times> nat option) option"

definition owners_empty :: owners where
  "owners_empty = \<lparr>ow_heap = heap_empty, ow_var = (\<lambda>_. None)\<rparr>"

definition owner_construct :: "owner_class \<Rightarrow> nat \<Rightarrow> owners \<Rightarrow> owners" where
  "owner_construct c i s =
     (let (a, h) = heap_alloc (B_New (class_block c)) (ow_heap s)
      in s\<lparr>ow_heap := h, ow_var := (ow_var s)(i \<mapsto> (c, Some a))\<rparr>)"

text \<open>The move constructors: \<^verbatim>\<open>callback_awaiter_base\<close>, \<^verbatim>\<open>task\<close> and \<^verbatim>\<open>generator\<close> take the pointer.\<close>

definition owner_move :: "nat \<Rightarrow> nat \<Rightarrow> owners \<Rightarrow> owners result" where
  "owner_move i j s =
     (case ow_var s j of
        None \<Rightarrow> Inl Use_After_Free
      | Some (c, p) \<Rightarrow> Inr (s\<lparr>ow_var := (ow_var s)(j \<mapsto> (c, None), i \<mapsto> (c, p))\<rparr>))"

text \<open>
  The move assignments. The one of \<^verbatim>\<open>callback_awaiter_base\<close> deletes \<^verbatim>\<open>self_\<close>, whose static
  type is \<^verbatim>\<open>state*\<close>; the derived classes default to it.
\<close>

definition awaiter_assign :: "nat \<Rightarrow> nat \<Rightarrow> owners \<Rightarrow> owners result" where
  "awaiter_assign i j s =
     (if i = j then Inr s
      else case (ow_var s i, ow_var s j) of
             (Some (c, p), Some (_, q)) \<Rightarrow>
               bindE (heap_delete T_State p (ow_heap s)) (\<lambda>h.
               Inr (s\<lparr>ow_heap := h, ow_var := (ow_var s)(i \<mapsto> (c, q), j \<mapsto> (c, None))\<rparr>))
           | _ \<Rightarrow> Inl Use_After_Free)"

definition handle_assign :: "nat \<Rightarrow> nat \<Rightarrow> owners \<Rightarrow> owners result" where
  "handle_assign i j s =
     (if i = j then Inr s
      else case (ow_var s i, ow_var s j) of
             (Some (c, p), Some (_, q)) \<Rightarrow>
               bindE (heap_delete T_Frame p (ow_heap s)) (\<lambda>h.
               Inr (s\<lparr>ow_heap := h, ow_var := (ow_var s)(i \<mapsto> (c, q), j \<mapsto> (c, None))\<rparr>))
           | _ \<Rightarrow> Inl Use_After_Free)"

definition owner_assign :: "nat \<Rightarrow> nat \<Rightarrow> owners \<Rightarrow> owners result" where
  "owner_assign i j s =
     (case ow_var s i of
        None \<Rightarrow> Inl Use_After_Free
      | Some (c, _) \<Rightarrow> if is_awaiter c then awaiter_assign i j s else handle_assign i j s)"

text \<open>The destructors; the one of \<^verbatim>\<open>async_void_result\<close> does not delete its block.\<close>

definition owner_destroy :: "nat \<Rightarrow> owners \<Rightarrow> owners result" where
  "owner_destroy i s =
     (case ow_var s i of
        None \<Rightarrow> Inl Use_After_Free
      | Some (c, p) \<Rightarrow>
          bindE (if c = C_Void then Inr (ow_heap s) else heap_delete (class_block c) p (ow_heap s)) (\<lambda>h.
          Inr (s\<lparr>ow_heap := h, ow_var := (ow_var s)(i := None)\<rparr>)))"

datatype owner_op = Construct owner_class nat | Move nat nat | Assign nat nat | Destroy nat

fun owner_step :: "owner_op \<Rightarrow> owners \<Rightarrow> owners result" where
  "owner_step (Construct c i) s = Inr (owner_construct c i s)"
| "owner_step (Move i j) s = owner_move i j s"
| "owner_step (Assign i j) s = owner_assign i j s"
| "owner_step (Destroy i) s = owner_destroy i s"

fun owner_run :: "owner_op list \<Rightarrow> owners \<Rightarrow> owners result" where
  "owner_run [] s = Inr s"
| "owner_run (x # xs) s = bindE (owner_step x s) (owner_run xs)"

text \<open>
  What a well-formed program does: it creates objects in unused variables, assigns between
  objects of one class, and destroys objects once. An awaitable that is assigned to must
  not own a block.
\<close>

fun op_scoped :: "owner_op \<Rightarrow> owners \<Rightarrow> bool" where
  "op_scoped (Construct c i) s \<longleftrightarrow> ow_var s i = None"
| "op_scoped (Move i j) s \<longleftrightarrow> ow_var s i = None \<and> ow_var s j \<noteq> None"
| "op_scoped (Assign i j) s \<longleftrightarrow>
     (case (ow_var s i, ow_var s j) of
        (Some (c, p), Some (d, q)) \<Rightarrow> c = d \<and> (is_awaiter c \<longrightarrow> p = None \<or> i = j)
      | _ \<Rightarrow> False)"
| "op_scoped (Destroy i) s \<longleftrightarrow> ow_var s i \<noteq> None"

fun ops_scoped :: "owner_op list \<Rightarrow> owners \<Rightarrow> bool" where
  "ops_scoped [] s \<longleftrightarrow> True"
| "ops_scoped (x # xs) s \<longleftrightarrow>
     op_scoped x s \<and> (case owner_step x s of Inl _ \<Rightarrow> True | Inr s' \<Rightarrow> ops_scoped xs s')"

definition owns :: "owners \<Rightarrow> nat \<Rightarrow> nat \<Rightarrow> bool" where
  "owns s i a \<longleftrightarrow> (\<exists>c. ow_var s i = Some (c, Some a))"

definition own_inv :: "owners \<Rightarrow> bool" where
  "own_inv s \<longleftrightarrow>
     heap_ok (ow_heap s) \<and>
     (\<forall>i c a. ow_var s i = Some (c, Some a) \<longrightarrow> hp_block (ow_heap s) a = Some (B_New (class_block c))) \<and>
     (\<forall>i j a. owns s i a \<and> owns s j a \<longrightarrow> i = j) \<and>
     (\<forall>a. hp_block (ow_heap s) a \<noteq> None \<longrightarrow> (\<exists>i. owns s i a) \<or> hp_block (ow_heap s) a = Some (B_New T_Void_State))"

lemma own_invD:
  assumes "own_inv s"
  shows "heap_ok (ow_heap s)" "ow_var s i = Some (c, Some a) \<Longrightarrow> hp_block (ow_heap s) a = Some (B_New (class_block c))"
    "ow_var s i = Some (c, Some a) \<Longrightarrow> ow_var s j = Some (d, Some a) \<Longrightarrow> i = j"
    "hp_block (ow_heap s) a = Some b \<Longrightarrow> b \<noteq> B_New T_Void_State \<Longrightarrow> \<exists>i c. ow_var s i = Some (c, Some a)"
  using assms unfolding own_inv_def owns_def by (blast, blast, blast, fastforce)

lemma own_invI:
  assumes "heap_ok (ow_heap s)" "\<And>i c a. ow_var s i = Some (c, Some a) \<Longrightarrow> hp_block (ow_heap s) a = Some (B_New (class_block c))"
    "\<And>i j c d a. ow_var s i = Some (c, Some a) \<Longrightarrow> ow_var s j = Some (d, Some a) \<Longrightarrow> i = j"
    "\<And>a b. hp_block (ow_heap s) a = Some b \<Longrightarrow> b \<noteq> B_New T_Void_State \<Longrightarrow> \<exists>i c. ow_var s i = Some (c, Some a)"
  shows "own_inv s"
  unfolding own_inv_def owns_def using assms by (metis not_None_eq)

lemma construct_inv:
  assumes "own_inv s" "ow_var s i = None"
  shows "own_inv (owner_construct c i s)"
proof -
  note inv = own_invD [OF assms(1)]
  let ?a = "hp_next (ow_heap s)"
  have fresh: "hp_block (ow_heap s) ?a = None" using heap_ok_fresh [OF inv(1)] by simp
  have new: "ow_var s j \<noteq> Some (d, Some ?a)" for j d using inv(2) [of j d ?a] fresh by auto
  have st: "owner_construct c i s =
      s\<lparr>ow_heap := snd (heap_alloc (B_New (class_block c)) (ow_heap s)), ow_var := (ow_var s)(i \<mapsto> (c, Some ?a))\<rparr>"
    by (simp add: owner_construct_def heap_alloc_def)
  show ?thesis
  proof (rule own_invI)
    show "heap_ok (ow_heap (owner_construct c i s))" using heap_ok_alloc [OF inv(1)] by (simp add: st)
  next
    fix j d a assume "ow_var (owner_construct c i s) j = Some (d, Some a)"
    then show "hp_block (ow_heap (owner_construct c i s)) a = Some (B_New (class_block d))"
      using inv(2) [of j d a] new [of j d] by (auto simp: st heap_alloc_def split: if_splits)
  next
    fix j k d e a assume "ow_var (owner_construct c i s) j = Some (d, Some a)" "ow_var (owner_construct c i s) k = Some (e, Some a)"
    then show "j = k" using inv(3) [of j d a k e] new [of j d] new [of k e] by (auto simp: st split: if_splits)
  next
    fix a b assume b: "hp_block (ow_heap (owner_construct c i s)) a = Some b" "b \<noteq> B_New T_Void_State"
    show "\<exists>j d. ow_var (owner_construct c i s) j = Some (d, Some a)"
    proof (cases "a = ?a")
      case False
      then obtain j d where "ow_var s j = Some (d, Some a)" using b inv(4) [of a b] by (auto simp: st heap_alloc_def)
      moreover from this have "j \<noteq> i" using assms(2) by auto
      ultimately show ?thesis by (intro exI [of _ j] exI [of _ d]) (simp add: st)
    qed (auto simp: st)
  qed
qed

text \<open>Passing a pointer on keeps the invariant, if what the target owned is gone.\<close>

lemma pass_inv:
  assumes "own_inv s" "ow_var s j = Some (c, q)" "i \<noteq> j" "ow_var s i = None \<or> (\<exists>p. ow_var s i = Some (c, p))"
    and "heap_ok h" and "\<And>a. hp_block h a = (if \<exists>d. ow_var s i = Some (d, Some a) then None else hp_block (ow_heap s) a)"
  shows "own_inv (s\<lparr>ow_heap := h, ow_var := (ow_var s)(i \<mapsto> (c, q), j \<mapsto> (c, None))\<rparr>)" (is "own_inv ?s")
proof -
  note inv = own_invD [OF assms(1)]
  show ?thesis
  proof (rule own_invI)
    show "heap_ok (ow_heap ?s)" using assms(5) by simp
  next
    fix k d a assume k: "ow_var ?s k = Some (d, Some a)"
    then have "ow_var s (if k = i then j else k) = Some (d, Some a)" "k \<noteq> j"
      using assms(2,3) by (auto split: if_splits)
    moreover from this have "ow_var s i \<noteq> Some (e, Some a)" for e
      using inv(3) [of "if k = i then j else k" d a i e] assms(3) by (auto split: if_splits)
    ultimately show "hp_block (ow_heap ?s) a = Some (B_New (class_block d))"
      using inv(2) assms(6) [of a] by auto
  next
    fix k l d e a assume "ow_var ?s k = Some (d, Some a)" "ow_var ?s l = Some (e, Some a)"
    then have "ow_var s (if k = i then j else k) = Some (d, Some a)" "ow_var s (if l = i then j else l) = Some (e, Some a)"
      "k \<noteq> j" "l \<noteq> j"
      using assms(2,3) by (auto split: if_splits)
    then show "k = l" using inv(3) by (metis (full_types))
  next
    fix a b assume b: "hp_block (ow_heap ?s) a = Some b" "b \<noteq> B_New T_Void_State"
    then have n: "\<not> (\<exists>d. ow_var s i = Some (d, Some a))" and "hp_block (ow_heap s) a = Some b"
      using assms(6) [of a] by (auto split: if_splits)
    then obtain k d where k: "ow_var s k = Some (d, Some a)" using inv(4) b(2) by blast
    have "k \<noteq> i" using k n by auto
    then show "\<exists>k d. ow_var ?s k = Some (d, Some a)"
      using k assms(2,3) by (cases "k = j") (auto intro: exI [of _ i] exI [of _ k])
  qed
qed

lemma move_inv:
  assumes "own_inv s" "ow_var s i = None" "ow_var s j \<noteq> None"
  shows "\<exists>s'. owner_move i j s = Inr s' \<and> own_inv s'"
proof -
  obtain c q where j: "ow_var s j = Some (c, q)" using assms(3) by auto
  have ne: "i \<noteq> j" using assms(2,3) by auto
  have "own_inv (s\<lparr>ow_heap := ow_heap s, ow_var := (ow_var s)(i \<mapsto> (c, q), j \<mapsto> (c, None))\<rparr>)"
    using pass_inv [OF assms(1) j ne _ own_invD(1) [OF assms(1)]] assms(2) by simp
  then show ?thesis using j ne by (simp add: owner_move_def fun_upd_twist)
qed

lemma delete_owned:
  assumes "own_inv s" "ow_var s i = Some (c, p)"
  shows "\<exists>h. heap_delete (class_block c) p (ow_heap s) = Inr h \<and> heap_ok h \<and>
    (\<forall>a. hp_block h a = (if p = Some a then None else hp_block (ow_heap s) a))"
  using own_invD(1) [OF assms(1)] own_invD(2) [OF assms(1), of i c] assms(2)
  by (cases p) (auto simp: heap_delete_def heap_release_def heap_ok_def)

lemma assign_inv:
  assumes "own_inv s" "op_scoped (Assign i j) s"
  shows "\<exists>s'. owner_assign i j s = Inr s' \<and> own_inv s'"
proof (cases "i = j")
  case True
  then show ?thesis using assms by (auto simp: owner_assign_def awaiter_assign_def handle_assign_def split: option.splits)
next
  case False
  obtain c p q where v: "ow_var s i = Some (c, p)" "ow_var s j = Some (c, q)" and a: "is_awaiter c \<Longrightarrow> p = None"
    using assms(2) False by (auto split: option.splits)
  have "\<exists>h. heap_delete (if is_awaiter c then T_State else T_Frame) p (ow_heap s) = Inr h \<and> heap_ok h \<and>
      (\<forall>a. hp_block h a = (if p = Some a then None else hp_block (ow_heap s) a))"
  proof (cases "is_awaiter c")
    case True
    then show ?thesis using a own_invD(1) [OF assms(1)] by (simp add: heap_delete_def heap_release_def)
  next
    case False
    then have "class_block c = T_Frame" by (auto simp: is_awaiter_def)
    then show ?thesis using delete_owned [OF assms(1) v(1)] False by simp
  qed
  then obtain h where h: "heap_delete (if is_awaiter c then T_State else T_Frame) p (ow_heap s) = Inr h" "heap_ok h"
    "\<And>a. hp_block h a = (if \<exists>d. ow_var s i = Some (d, Some a) then None else hp_block (ow_heap s) a)"
    using v(1) by auto
  have "own_inv (s\<lparr>ow_heap := h, ow_var := (ow_var s)(i \<mapsto> (c, q), j \<mapsto> (c, None))\<rparr>)"
    using v by (intro pass_inv [OF assms(1) v(2) False _ h(2,3)]) simp
  then show ?thesis using v h(1) False
    by (cases "is_awaiter c") (simp_all add: owner_assign_def awaiter_assign_def handle_assign_def)
qed

lemma destroy_inv:
  assumes "own_inv s" "ow_var s i \<noteq> None"
  shows "\<exists>s'. owner_destroy i s = Inr s' \<and> own_inv s'"
proof -
  obtain c p where v: "ow_var s i = Some (c, p)" using assms(2) by auto
  note inv = own_invD [OF assms(1)]
  obtain h where h: "(if c = C_Void then Inr (ow_heap s) else heap_delete (class_block c) p (ow_heap s)) = Inr h" "heap_ok h"
    "\<And>a. hp_block h a = (if c \<noteq> C_Void \<and> p = Some a then None else hp_block (ow_heap s) a)"
    using delete_owned [OF assms(1) v] inv(1) by (cases "c = C_Void") auto
  let ?s = "s\<lparr>ow_heap := h, ow_var := (ow_var s)(i := None)\<rparr>"
  have "own_inv ?s"
  proof (rule own_invI)
    show "heap_ok (ow_heap ?s)" using h(2) by simp
    show "hp_block (ow_heap ?s) a = Some (B_New (class_block d))" if "ow_var ?s k = Some (d, Some a)" for k d a
      using that inv(2) [of k d a] inv(3) [of k d a i c] v h(3) by (auto split: if_splits)
    show "k = l" if "ow_var ?s k = Some (d, Some a)" "ow_var ?s l = Some (e, Some a)" for k l d e a
      using that inv(3) by (auto split: if_splits)
    fix a b assume b: "hp_block (ow_heap ?s) a = Some b" "b \<noteq> B_New T_Void_State"
    then have "hp_block (ow_heap s) a = Some b" "c = C_Void \<or> p \<noteq> Some a" using h(3) [of a] by (auto split: if_splits)
    moreover from this obtain k d where "ow_var s k = Some (d, Some a)" using inv(4) b(2) by blast
    moreover from this have "b = B_New (class_block d)" using inv(2) calculation(1) by fastforce
    ultimately show "\<exists>k d. ow_var ?s k = Some (d, Some a)" using v b(2) by (cases "k = i") auto
  qed
  then show ?thesis using v h(1) by (simp add: owner_destroy_def)
qed

lemma owner_step_inv:
  assumes "own_inv s" "op_scoped x s"
  shows "\<exists>s'. owner_step x s = Inr s' \<and> own_inv s'"
  using assms construct_inv move_inv assign_inv destroy_inv by (cases x) auto

lemma owner_run_inv:
  assumes "own_inv s" "ops_scoped xs s"
  shows "\<exists>s'. owner_run xs s = Inr s' \<and> own_inv s'"
  using assms
proof (induction xs arbitrary: s)
  case (Cons x xs)
  then obtain s1 where "owner_step x s = Inr s1" "own_inv s1" using owner_step_inv by fastforce
  then show ?case using Cons by simp
qed simp

lemma owners_empty_inv: "own_inv owners_empty"
  by (simp add: own_inv_def owners_empty_def heap_empty_def heap_ok_def owns_def)

text \<open>Blocks of \<^verbatim>\<open>async_void_result\<close> appear only when such an object was created.\<close>

definition no_void :: "owners \<Rightarrow> bool" where
  "no_void s \<longleftrightarrow> (\<forall>a. hp_block (ow_heap s) a \<noteq> Some (B_New T_Void_State))"

lemma release_no_void:
  assumes "heap_release b p h = Inr h'" "hp_block h' a = Some (B_New T_Void_State)"
  shows "hp_block h a = Some (B_New T_Void_State)"
  using assms by (auto simp: heap_release_def split: option.splits if_splits)

lemma owner_step_no_void:
  assumes "no_void s" "owner_step x s = Inr s'" "\<And>i. x \<noteq> Construct C_Void i"
  shows "no_void s'"
proof (cases x)
  case (Construct c i)
  then have "class_block c \<noteq> T_Void_State" using assms(3) by (cases c) auto
  then show ?thesis using assms(1,2) Construct by (auto simp: no_void_def owner_construct_def heap_alloc_def split: if_splits)
qed (use assms(1,2) release_no_void in \<open>fastforce simp: no_void_def owner_move_def owner_assign_def awaiter_assign_def
      handle_assign_def owner_destroy_def heap_delete_def bindE_Inr_iff split: option.splits if_splits\<close>)+

lemma owner_run_no_void:
  assumes "no_void s" "owner_run xs s = Inr s'" "\<And>i. Construct C_Void i \<notin> set xs"
  shows "no_void s'"
  using assms
proof (induction xs arbitrary: s)
  case (Cons x xs)
  then obtain s1 where "owner_step x s = Inr s1" "owner_run xs s1 = Inr s'" by (auto simp: bindE_Inr_iff)
  moreover from this have "no_void s1" using owner_step_no_void Cons.prems(1,3) by (metis list.set_intros(1))
  ultimately show ?case using Cons.IH Cons.prems(3) by (metis list.set_intros(2))
qed simp

subsection \<open>Message headers\<close>

text \<open>
  The headers a complete action creates on demand: the \<^verbatim>\<open>msghdrs\<close> block, the read header with
  its address, and the write header, whose \<^verbatim>\<open>msg_name\<close> stays null.
\<close>

record msg_owner =
  mo_hdrs :: "nat option"
  mo_read :: "nat option"
  mo_read_name :: "nat option"
  mo_write :: "nat option"
  mo_write_name :: "nat option"

definition msg_owner_new :: msg_owner where
  "msg_owner_new = \<lparr>mo_hdrs = None, mo_read = None, mo_read_name = None, mo_write = None, mo_write_name = None\<rparr>"

definition alloc_if_null :: "block \<Rightarrow> nat option \<Rightarrow> heap \<Rightarrow> nat option \<times> heap" where
  "alloc_if_null b p h = (case p of Some _ \<Rightarrow> (p, h) | None \<Rightarrow> (let (a, h) = heap_alloc b h in (Some a, h)))"

definition msghdrs_get_read :: "msg_owner \<times> heap \<Rightarrow> msg_owner \<times> heap" where
  "msghdrs_get_read mh =
     (let (m, h) = mh
      in if mo_read m \<noteq> None then (m, h)
         else
           let (r, h) = heap_alloc (B_New T_Msghdr) h; (n, h) = heap_alloc (B_New T_Sockaddr) h
           in (m\<lparr>mo_read := Some r, mo_read_name := Some n\<rparr>, h))"

definition msghdrs_get_write :: "msg_owner \<times> heap \<Rightarrow> msg_owner \<times> heap" where
  "msghdrs_get_write mh =
     (let (m, h) = mh; (w, h) = alloc_if_null (B_New T_Msghdr) (mo_write m) h in (m\<lparr>mo_write := w\<rparr>, h))"

definition action_get_read_msghdr :: "msg_owner \<times> heap \<Rightarrow> msg_owner \<times> heap" where
  "action_get_read_msghdr mh =
     (let (m, h) = mh; (p, h) = alloc_if_null (B_New T_Msghdrs) (mo_hdrs m) h in msghdrs_get_read (m\<lparr>mo_hdrs := p\<rparr>, h))"

definition action_get_write_msghdr :: "msg_owner \<times> heap \<Rightarrow> msg_owner \<times> heap" where
  "action_get_write_msghdr mh =
     (let (m, h) = mh; (p, h) = alloc_if_null (B_New T_Msghdrs) (mo_hdrs m) h in msghdrs_get_write (m\<lparr>mo_hdrs := p\<rparr>, h))"

definition msghdrs_delete :: "msg_owner \<Rightarrow> heap \<Rightarrow> heap result" where
  "msghdrs_delete m h =
     bindE (if mo_read m \<noteq> None
            then bindE (heap_delete T_Sockaddr (mo_read_name m) h) (heap_delete T_Msghdr (mo_read m)) else Inr h) (\<lambda>h.
     if mo_write m \<noteq> None
     then bindE (heap_delete T_Sockaddr (mo_write_name m) h) (heap_delete T_Msghdr (mo_write m)) else Inr h)"

definition complete_action_delete :: "msg_owner \<Rightarrow> heap \<Rightarrow> heap result" where
  "complete_action_delete m h =
     (if mo_hdrs m \<noteq> None then bindE (msghdrs_delete m h) (heap_delete T_Msghdrs (mo_hdrs m)) else Inr h)"

fun msg_requests :: "bool list \<Rightarrow> msg_owner \<times> heap \<Rightarrow> msg_owner \<times> heap" where
  "msg_requests [] mh = mh"
| "msg_requests (rd # rs) mh = msg_requests rs (if rd then action_get_read_msghdr mh else action_get_write_msghdr mh)"

definition msg_blocks :: "msg_owner \<Rightarrow> heap \<Rightarrow> nat \<Rightarrow> block option" where
  "msg_blocks m h a =
     (if mo_hdrs m = Some a then Some (B_New T_Msghdrs)
      else if mo_read m = Some a \<or> mo_write m = Some a then Some (B_New T_Msghdr)
      else if mo_read_name m = Some a then Some (B_New T_Sockaddr) else hp_block h a)"

definition msg_inv :: "heap \<Rightarrow> msg_owner \<times> heap \<Rightarrow> bool" where
  "msg_inv h0 mh \<longleftrightarrow>
     (case mh of (m, h) \<Rightarrow>
        heap_ok h \<and> hp_next h0 \<le> hp_next h \<and> (mo_hdrs m = None \<longrightarrow> mo_read m = None \<and> mo_write m = None) \<and>
        (mo_read m = None \<longleftrightarrow> mo_read_name m = None) \<and> mo_write_name m = None \<and>
        distinct (List.map_filter id [mo_hdrs m, mo_read m, mo_read_name m, mo_write m]) \<and>
        (\<forall>a \<in> set (List.map_filter id [mo_hdrs m, mo_read m, mo_read_name m, mo_write m]). hp_next h0 \<le> a \<and> a < hp_next h) \<and>
        (\<forall>a. hp_block h a = msg_blocks m h0 a))"

lemma heap_ok_alloc_upd:
  "heap_ok h \<Longrightarrow> heap_ok (h\<lparr>hp_block := (hp_block h)(hp_next h \<mapsto> b), hp_next := Suc (hp_next h)\<rparr>)"
  using heap_ok_alloc [of h b] by (simp add: heap_alloc_def)

lemma alloc_hdrs_inv:
  assumes "msg_inv h0 (m, h)" "alloc_if_null (B_New T_Msghdrs) (mo_hdrs m) h = (p, h')"
  shows "msg_inv h0 (m\<lparr>mo_hdrs := p\<rparr>, h')" "p \<noteq> None"
  using assms heap_ok_alloc_upd [of h "B_New T_Msghdrs"]
  by (cases "mo_hdrs m";
      auto simp: msg_inv_def alloc_if_null_def heap_alloc_def map_filter_simps msg_blocks_def less_Suc_eq split: option.splits)+

lemma get_read_inv:
  assumes "msg_inv h0 (m, h)" "mo_hdrs m \<noteq> None"
  shows "msg_inv h0 (msghdrs_get_read (m, h))"
proof (cases "mo_read m")
  case None
  have "heap_ok h" using assms(1) by (simp add: msg_inv_def)
  from heap_ok_alloc_upd [OF heap_ok_alloc_upd [OF this, of "B_New T_Msghdr"], of "B_New T_Sockaddr"] None assms
  show ?thesis
    by (auto simp: msg_inv_def msghdrs_get_read_def heap_alloc_def map_filter_simps msg_blocks_def less_Suc_eq split: option.splits)
qed (use assms in \<open>simp add: msghdrs_get_read_def\<close>)

lemma get_write_inv:
  assumes "msg_inv h0 (m, h)" "mo_hdrs m \<noteq> None"
  shows "msg_inv h0 (msghdrs_get_write (m, h))"
  using assms heap_ok_alloc_upd [of h "B_New T_Msghdr"]
  by (auto simp: msg_inv_def msghdrs_get_write_def alloc_if_null_def heap_alloc_def map_filter_simps msg_blocks_def less_Suc_eq
      split: option.splits)

lemma msg_requests_inv:
  assumes "msg_inv h0 mh"
  shows "msg_inv h0 (msg_requests rs mh)"
  using assms
proof (induction rs arbitrary: mh)
  case (Cons rd rs)
  obtain m h where mh: "mh = (m, h)" by fastforce
  obtain p h' where p: "alloc_if_null (B_New T_Msghdrs) (mo_hdrs m) h = (p, h')" by fastforce
  from alloc_hdrs_inv [OF Cons.prems [unfolded mh] p] get_read_inv [of h0 "m\<lparr>mo_hdrs := p\<rparr>" h'] get_write_inv [of h0 "m\<lparr>mo_hdrs := p\<rparr>" h']
  have "msg_inv h0 (action_get_read_msghdr mh)" "msg_inv h0 (action_get_write_msghdr mh)"
    using p by (simp_all add: mh action_get_read_msghdr_def action_get_write_msghdr_def)
  then show ?case using Cons.IH by simp
qed simp

lemma msg_delete_restores:
  assumes "msg_inv h0 (m, h)" "heap_ok h0"
  shows "\<exists>h'. complete_action_delete m h = Inr h' \<and> hp_block h' = hp_block h0"
proof -
  have fresh: "hp_block h0 a = None" if "hp_next h0 \<le> a" for a using that heap_ok_fresh [OF assms(2)] by simp
  show ?thesis using assms(1) fresh
    by (cases "mo_hdrs m"; cases "mo_read m"; cases "mo_read_name m"; cases "mo_write m")
      (auto simp: msg_inv_def complete_action_delete_def msghdrs_delete_def heap_delete_def heap_release_def msg_blocks_def
        map_filter_simps fun_eq_iff)
qed

subsection \<open>The life of a ring buffer\<close>

text \<open>
  \<open>cpp17\<close> is the language standard of the build. The second component of \<open>ring_make\<close> is the
  object; \<open>None\<close> stands for \<^verbatim>\<open>std::bad_alloc\<close>. \<open>ok\<close> says whether the allocation succeeds.
\<close>

definition ring_make :: "bool \<Rightarrow> bool \<Rightarrow> heap \<Rightarrow> nat option \<times> heap" where
  "ring_make cpp17 ok h =
     (if \<not> ok then (None, h)
      else let (p, h) = heap_alloc (if cpp17 then B_New T_Ring_Buffer else B_Malloc) h in (Some p, h))"

text \<open>The blocks \<^verbatim>\<open>init\<close> allocates.\<close>

fun ring_blocks :: "nat \<Rightarrow> heap \<Rightarrow> nat list \<times> heap" where
  "ring_blocks 0 h = ([], h)"
| "ring_blocks (Suc n) h = (let (a, h) = heap_alloc B_Malloc h; (as, h) = ring_blocks n h in (a # as, h))"

fun ring_destructor :: "nat list \<Rightarrow> heap \<Rightarrow> heap result" where
  "ring_destructor [] h = Inr h"
| "ring_destructor (a # as) h = bindE (heap_free (Some a) h) (ring_destructor as)"

text \<open>\<^verbatim>\<open>aligned_deleter\<close> frees the memory of the object without running its destructor.\<close>

definition aligned_deleter :: "nat option \<Rightarrow> heap \<Rightarrow> heap result" where
  "aligned_deleter ptr h = (if ptr \<noteq> None then heap_free ptr h else Inr h)"

definition ring_release :: "bool \<Rightarrow> nat \<Rightarrow> nat list \<Rightarrow> heap \<Rightarrow> heap result" where
  "ring_release cpp17 p blocks h =
     (if cpp17 then bindE (ring_destructor blocks h) (heap_delete T_Ring_Buffer (Some p))
      else aligned_deleter (Some p) h)"

definition ring_life :: "bool \<Rightarrow> nat \<Rightarrow> heap \<Rightarrow> (nat list \<times> heap) result" where
  "ring_life cpp17 n h =
     (case ring_make cpp17 True h of
        (None, h) \<Rightarrow> Inr ([], h)
      | (Some p, h) \<Rightarrow>
          let (blocks, h) = ring_blocks n h in bindE (ring_release cpp17 p blocks h) (\<lambda>h. Inr (blocks, h)))"

lemma ring_blocks_heap:
  assumes "heap_ok h" "ring_blocks n h = (as, h')"
  shows "heap_ok h' \<and> as = [hp_next h ..< hp_next h + n] \<and> hp_next h' = hp_next h + n \<and>
    (\<forall>a. hp_block h' a = (if a \<in> set as then Some B_Malloc else hp_block h a))"
  using assms
proof (induction n arbitrary: h as)
  case (Suc n)
  let ?h = "snd (heap_alloc B_Malloc h)"
  obtain bs where bs: "ring_blocks n ?h = (bs, h')" "as = hp_next h # bs"
    using Suc.prems(2) by (auto simp: heap_alloc_def split: prod.splits)
  have ok: "heap_ok ?h" by (rule heap_ok_alloc [OF Suc.prems(1)])
  from Suc.IH [OF ok bs(1)] bs(2) show ?case by (auto simp: heap_alloc_def upt_conv_Cons)
qed auto

lemma ring_destructor_heap:
  assumes "distinct as" "\<And>a. a \<in> set as \<Longrightarrow> hp_block h a = Some B_Malloc"
  shows "ring_destructor as h = Inr (h\<lparr>hp_block := (\<lambda>a. if a \<in> set as then None else hp_block h a)\<rparr>)"
  using assms
proof (induction as arbitrary: h)
  case (Cons a as)
  have eq: "(\<lambda>x. if x \<in> set as then None else ((hp_block h)(a := None)) x) = (\<lambda>x. if x = a \<or> x \<in> set as then None else hp_block h x)"
    by (auto simp: fun_eq_iff)
  let ?h = "h\<lparr>hp_block := (hp_block h)(a := None)\<rparr>"
  have "hp_block ?h x = Some B_Malloc" if "x \<in> set as" for x using that Cons.prems by auto
  from Cons.IH [OF _ this] Cons.prems(1)
  have "ring_destructor as ?h = Inr (?h\<lparr>hp_block := (\<lambda>x. if x \<in> set as then None else hp_block ?h x)\<rparr>)" by simp
  also have "?h\<lparr>hp_block := (\<lambda>x. if x \<in> set as then None else hp_block ?h x)\<rparr> =
      h\<lparr>hp_block := (\<lambda>x. if x \<in> set as then None else ((hp_block h)(a := None)) x)\<rparr>" by (simp cong: if_cong)
  finally have d: "ring_destructor as ?h = Inr (h\<lparr>hp_block := (\<lambda>x. if x = a \<or> x \<in> set as then None else hp_block h x)\<rparr>)"
    unfolding eq .
  have "heap_free (Some a) h = Inr ?h" using Cons.prems(2) [of a] by (simp add: heap_free_def heap_release_def)
  then show ?case by (simp only: ring_destructor.simps bindE_simps d list.set insert_iff)
qed simp

lemma ring_life_heap:
  assumes "heap_ok h"
  shows "\<exists>blocks h'. ring_life cpp17 n h = Inr (blocks, h') \<and> length blocks = n \<and> (\<forall>a \<in> set blocks. hp_block h a = None) \<and>
    hp_block h' = (if cpp17 then hp_block h else (\<lambda>a. if a \<in> set blocks then Some B_Malloc else hp_block h a))"
proof -
  let ?p = "hp_next h" and ?b = "if cpp17 then B_New T_Ring_Buffer else B_Malloc"
  let ?h1 = "snd (heap_alloc ?b h)"
  obtain bs h2 where bs: "ring_blocks n ?h1 = (bs, h2)" by fastforce
  have h1: "heap_ok ?h1" "hp_next ?h1 = Suc ?p" "hp_block ?h1 = (hp_block h)(?p \<mapsto> ?b)"
    using heap_ok_alloc [OF assms] by (auto simp: heap_alloc_def)
  note b = ring_blocks_heap [OF h1(1) bs]
  have blk: "bs = [Suc ?p ..< Suc ?p + n]" "\<And>a. hp_block h2 a = (if a \<in> set bs then Some B_Malloc else ((hp_block h)(?p \<mapsto> ?b)) a)"
    using b h1 by auto
  have p: "?p \<notin> set bs" "hp_block h ?p = None" using blk(1) heap_ok_fresh [OF assms] by auto
  have none: "hp_block h a = None" if "a \<in> set bs" for a
    using that blk(1) heap_ok_fresh [OF assms, of a] by auto
  have life: "ring_life cpp17 n h = bindE (ring_release cpp17 ?p bs h2) (\<lambda>h. Inr (bs, h))"
    using bs by (simp add: ring_life_def ring_make_def heap_alloc_def Let_def)
  show ?thesis
  proof (cases cpp17)
    case True
    have "ring_destructor bs h2 = Inr (h2\<lparr>hp_block := (\<lambda>a. if a \<in> set bs then None else hp_block h2 a)\<rparr>)"
      by (rule ring_destructor_heap) (use blk in auto)
    then have "ring_release cpp17 ?p bs h2 =
        Inr (h2\<lparr>hp_block := (\<lambda>a. if a \<in> set bs then None else hp_block h2 a)(?p := None)\<rparr>)"
      using True blk(2) [of ?p] p by (simp add: ring_release_def heap_delete_def heap_release_def)
    moreover have "(\<lambda>a. if a \<in> set bs then None else hp_block h2 a)(?p := None) = hp_block h"
      using blk(2) p none by (auto simp: fun_eq_iff)
    ultimately show ?thesis using life True blk(1) none by auto
  next
    case False
    then have "ring_release cpp17 ?p bs h2 = Inr (h2\<lparr>hp_block := (hp_block h2)(?p := None)\<rparr>)"
      using blk(2) [of ?p] p by (simp add: ring_release_def aligned_deleter_def heap_free_def heap_release_def)
    moreover have "(hp_block h2)(?p := None) = (\<lambda>a. if a \<in> set bs then Some B_Malloc else hp_block h a)"
      using blk(2) p by (auto simp: fun_eq_iff)
    ultimately show ?thesis using life False blk(1) none by auto
  qed
qed

subsection \<open>Properties\<close>


text \<open>
  C39. A ring buffer gives back all its memory only when it is built for C++17: with an
  older standard, the one the build file asks for, \<^verbatim>\<open>aligned_deleter\<close> frees the object
  without running its destructor, and every block of the ring is leaked.
\<close>

theorem ring_blocks_leak_before_cpp17:
  assumes "heap_ok h"
  shows "\<exists>blocks h'. ring_life cpp17 n h = Inr (blocks, h') \<and> length blocks = n \<and> (\<forall>a \<in> set blocks. hp_block h a = None) \<and>
    hp_block h' = (if cpp17 then hp_block h else (\<lambda>a. if a \<in> set blocks then Some B_Malloc else hp_block h a))"
  using assms by (rule ring_life_heap)

text \<open>
  However often the read and the write header of a request are asked for, the destructor of
  the complete action gives back exactly the blocks that were allocated for them.
\<close>

theorem complete_action_releases_headers:
  assumes "heap_ok h0" and "msg_requests rs (msg_owner_new, h0) = (m, h)"
  shows "\<exists>h'. complete_action_delete m h = Inr h' \<and> hp_block h' = hp_block h0"
proof -
  have "msg_inv h0 (msg_owner_new, h0)"
    using assms(1) by (simp add: msg_inv_def msg_owner_new_def map_filter_simps msg_blocks_def)
  from msg_requests_inv [OF this, of rs] assms show ?thesis by (auto intro: msg_delete_restores)
qed

text \<open>
  An awaitable that still owns a block is assigned to: the base class deletes the block
  through a pointer to the base of its type, which has no virtual destructor.
\<close>

theorem awaiter_assign_bad_delete:
  assumes "own_inv s" and "ow_var s i = Some (c, Some a)" and "is_awaiter c" and "ow_var s j = Some (c, q)" and "i \<noteq> j"
  shows "owner_assign i j s = Inl Bad_Free"
proof -
  have "hp_block (ow_heap s) a = Some (B_New (class_block c))" using own_invD(2) [OF assms(1)] assms(2) .
  moreover have "class_block c \<noteq> T_State" by (cases c) auto
  ultimately show ?thesis
    using assms(2-5) by (simp add: owner_assign_def awaiter_assign_def heap_delete_def heap_release_def)
qed

subsection \<open>Witnesses\<close>

text \<open>A task is created, moved, and assigned over another one; both variables die.\<close>

definition owner_program :: "owner_op list" where
  "owner_program = [Construct C_Task 0, Move 1 0, Construct C_Task 2, Assign 2 1, Destroy 0, Destroy 1, Destroy 2]"


theorem ring_blocks_leak_before_cpp17_witness:
  "\<exists>blocks h'. ring_life False 2 heap_empty = Inr (blocks, h') \<and> length blocks = 2"
proof -
  have "heap_ok heap_empty" by (simp add: heap_ok_def heap_empty_def)
  from ring_blocks_leak_before_cpp17 [OF this, of False 2] show ?thesis by auto
qed

end
