(* ===== verification/Fd_Io.thy ===== *)
theory Fd_Io
  imports Util
begin

text \<open>
  include/event/fd_io_operation.h: the read and write loops of the readiness backend, one
  class per descriptor type. The kernel's answers are a list, one per system call; a loop
  that uses them all up without returning is \<open>Blocked\<close>. The outcome records the return
  value, the \<^verbatim>\<open>is_empty\<close> or \<^verbatim>\<open>is_full\<close> flag, the caller's array after \<^verbatim>\<open>move_iov\<close>, the
  unused answers, and per successful call the buffers shown to the kernel with the count
  it answered. \<open>UDS_STREAM\<close> and \<open>UDS_DGRAM\<close> inherit the TCP and the UDP class.
\<close>

record io_ev =
  ev_view :: "iovec list"
  ev_done :: nat

record io_out =
  io_ret :: int
  io_flag :: bool
  io_arr :: "iovec list"
  io_lens :: "nat list"
  io_rest :: "sysret list"
  io_evs :: "io_ev list"

definition mk_out :: "int \<Rightarrow> bool \<Rightarrow> iovec list \<Rightarrow> sysret list \<Rightarrow> io_ev list \<Rightarrow> io_out result" where
  "mk_out r fl arr as evs =
     Inr \<lparr>io_ret = r, io_flag = fl, io_arr = arr, io_lens = [], io_rest = as, io_evs = evs\<rparr>"

definition mk_ev :: "iovec list \<Rightarrow> nat \<Rightarrow> io_ev" where
  "mk_ev v n = \<lparr>ev_view = v, ev_done = n\<rparr>"

text \<open>A byte count passed to a \<^verbatim>\<open>uint32_t\<close> parameter.\<close>

definition to_u32 :: "nat \<Rightarrow> nat" where
  "to_u32 n = unat (word_of_nat n :: u32)"

lemma to_u32_small [simp]: "n < 2 ^ 32 \<Longrightarrow> to_u32 n = n"
  by (simp add: to_u32_def unsigned_of_nat take_bit_nat_eq_self)

subsection \<open>UDP\<close>

definition RECV_CNT_ONCE :: nat where "RECV_CNT_ONCE = 100"

text \<open>
  \<open>lens\<close> are the \<^verbatim>\<open>msg_len\<close> fields of \<^verbatim>\<open>mmsghdr_buf_info::buf_\<close>; \<^verbatim>\<open>recvmmsg\<close> fills them
  from the position \<open>cur\<close> on.
\<close>

definition store_lens :: "nat list \<Rightarrow> nat \<Rightarrow> nat list \<Rightarrow> nat list" where
  "store_lens lens cur ls = take cur lens @ ls @ drop (cur + length ls) lens"

fun udp_read_loop ::
  "sysret list \<Rightarrow> iovec list \<Rightarrow> nat list \<Rightarrow> nat \<Rightarrow> nat \<Rightarrow> int \<Rightarrow> io_ev list \<Rightarrow> io_out result" where
  "udp_read_loop as arr lens cur cur_cnt res evs =
     (if cur_cnt = 0
      then Inr \<lparr>io_ret = res, io_flag = False, io_arr = arr, io_lens = lens, io_rest = as, io_evs = evs\<rparr>
      else case as of
        [] \<Rightarrow> Inl Blocked
      | SysOk r ls # as' \<Rightarrow>
          udp_read_loop as' arr (store_lens lens cur (take r ls)) (cur + r) (cur_cnt - r) (res + int r)
            (evs @ [mk_ev (take cur_cnt (drop cur arr)) r])
      | SysErr e # as' \<Rightarrow>
          (if e = EAGAIN
           then Inr \<lparr>io_ret = (if 0 < res then res else INT32_MAX), io_flag = True, io_arr = arr,
                     io_lens = lens, io_rest = as', io_evs = evs\<rparr>
           else if e = EINTR then udp_read_loop as' arr lens cur cur_cnt res evs
           else Inr \<lparr>io_ret = 1, io_flag = False, io_arr = arr, io_lens = lens, io_rest = as',
                     io_evs = evs\<rparr>))"

declare udp_read_loop.simps [simp del]

definition udp_read_fd :: "sysret list \<Rightarrow> iovec list \<Rightarrow> nat \<Rightarrow> nat list \<Rightarrow> io_out result" where
  "udp_read_fd as arr iov_cnt lens = udp_read_loop as arr lens 0 iov_cnt 0 []"

fun udp_write_loop ::
  "sysret list \<Rightarrow> iovec list \<Rightarrow> nat \<Rightarrow> nat \<Rightarrow> bool \<Rightarrow> int \<Rightarrow> io_ev list \<Rightarrow> io_out result" where
  "udp_write_loop as arr iov_cnt cur_cnt full res evs =
     (if iov_cnt < cur_cnt then mk_out res full arr as evs
      else
        let real_cnt = min (iov_cnt - cur_cnt) RECV_CNT_ONCE;
            send_buff = take real_cnt (drop cur_cnt arr)
        in case as of
             [] \<Rightarrow> Inl Blocked
           | SysOk r ls # as' \<Rightarrow>
               udp_write_loop as' arr iov_cnt (cur_cnt + RECV_CNT_ONCE) full (res + int r)
                 (evs @ [mk_ev send_buff r])
           | SysErr e # as' \<Rightarrow>
               (if e = EAGAIN
                then udp_write_loop as' arr iov_cnt (cur_cnt + RECV_CNT_ONCE) True res evs
                else if e = EINTR then udp_write_loop as' arr iov_cnt cur_cnt full res evs
                else mk_out 1 full arr as' evs))"

declare udp_write_loop.simps [simp del]

definition udp_write_fd :: "sysret list \<Rightarrow> iovec list \<Rightarrow> nat \<Rightarrow> io_out result" where
  "udp_write_fd as arr iov_cnt = udp_write_loop as arr iov_cnt 0 False 0 []"

text \<open>The multishot read offers all blocks of \<open>buf\<close> at once; it leaves the flag as it was on success.\<close>

fun udp_read_fd_for_multishot :: "sysret list \<Rightarrow> bool \<Rightarrow> iovec list \<Rightarrow> nat list \<Rightarrow> io_out result" where
  "udp_read_fd_for_multishot [] fl buf lens = Inl Blocked"
| "udp_read_fd_for_multishot (SysOk r ls # as) fl buf lens =
     Inr \<lparr>io_ret = int r, io_flag = fl, io_arr = buf, io_lens = store_lens lens 0 (take r ls),
          io_rest = as, io_evs = [mk_ev buf r]\<rparr>"
| "udp_read_fd_for_multishot (SysErr e # as) fl buf lens =
     (if e = EAGAIN
      then Inr \<lparr>io_ret = INT32_MAX, io_flag = True, io_arr = buf, io_lens = lens, io_rest = as, io_evs = []\<rparr>
      else if e = EINTR then udp_read_fd_for_multishot as fl buf lens
      else Inr \<lparr>io_ret = 1, io_flag = fl, io_arr = buf, io_lens = lens, io_rest = as, io_evs = []\<rparr>)"

subsection \<open>TCP\<close>

text \<open>
  \<^verbatim>\<open>msg\<close> is filled once: it points at the first element of the array and keeps the full
  count \<open>n\<close>, while \<^verbatim>\<open>move_iov\<close> moves the local pointer (index \<open>p\<close>) and the local count.
\<close>

fun tcp_read_loop ::
  "nat \<Rightarrow> sysret list \<Rightarrow> u32 \<Rightarrow> iovec list \<Rightarrow> nat \<Rightarrow> nat \<Rightarrow> io_ev list \<Rightarrow> io_out result" where
  "tcp_read_loop n [] res arr p cnt evs = Inl Blocked"
| "tcp_read_loop n (SysOk r ls # as) res arr p cnt evs =
     (let evs = evs @ [mk_ev (take n arr) r]
      in if 0 < r
         then
           let res = res + word_of_nat r
           in case move_iov arr p cnt (to_u32 r) of
                (ret, arr, p, cnt) \<Rightarrow>
                  if ret \<noteq> 0 then mk_out (i32_of_u32 res) False arr as evs
                  else tcp_read_loop n as res arr p cnt evs
         else mk_out 0 False arr as evs)"
| "tcp_read_loop n (SysErr e # as) res arr p cnt evs =
     (if e = EAGAIN then mk_out (i32_of_u32 res) True arr as evs
      else if e = EINTR then tcp_read_loop n as res arr p cnt evs
      else mk_out (- 1) False arr as evs)"

definition tcp_read_fd :: "sysret list \<Rightarrow> iovec list \<Rightarrow> nat \<Rightarrow> io_out result" where
  "tcp_read_fd as arr iov_cnt = tcp_read_loop iov_cnt as 0 arr 0 iov_cnt []"

fun tcp_write_loop ::
  "nat \<Rightarrow> sysret list \<Rightarrow> u32 \<Rightarrow> iovec list \<Rightarrow> nat \<Rightarrow> nat \<Rightarrow> io_ev list \<Rightarrow> io_out result" where
  "tcp_write_loop n [] res arr p cnt evs = Inl Blocked"
| "tcp_write_loop n (SysOk r ls # as) res arr p cnt evs =
     (let evs = evs @ [mk_ev (take n arr) r];
          res = res + word_of_nat r
      in case move_iov arr p cnt (to_u32 r) of
           (ret, arr, p, cnt) \<Rightarrow>
             if ret \<noteq> 0 then mk_out (i32_of_u32 res) False arr as evs
             else tcp_write_loop n as res arr p cnt evs)"
| "tcp_write_loop n (SysErr e # as) res arr p cnt evs =
     (if e = EAGAIN then mk_out (i32_of_u32 res) True arr as evs
      else if e = EINTR then tcp_write_loop n as res arr p cnt evs
      else mk_out (- 1) False arr as evs)"

definition tcp_write_fd :: "sysret list \<Rightarrow> iovec list \<Rightarrow> nat \<Rightarrow> io_out result" where
  "tcp_write_fd as arr iov_cnt = tcp_write_loop iov_cnt as 0 arr 0 iov_cnt []"

fun tcp_read_fd_for_multishot :: "sysret list \<Rightarrow> iovec list \<Rightarrow> nat \<Rightarrow> io_out result" where
  "tcp_read_fd_for_multishot [] arr iov_cnt = Inl Blocked"
| "tcp_read_fd_for_multishot (SysOk r ls # as) arr iov_cnt =
     mk_out (int r) False arr as [mk_ev (take iov_cnt arr) r]"
| "tcp_read_fd_for_multishot (SysErr e # as) arr iov_cnt =
     (if e = EAGAIN then mk_out INT32_MAX True arr as []
      else if e = EINTR then tcp_read_fd_for_multishot as arr iov_cnt
      else mk_out (- 1) False arr as [])"

subsection \<open>Inotify and files\<close>

text \<open>\<^verbatim>\<open>readv\<close> and \<^verbatim>\<open>writev\<close> are shown the moved pointer: the elements from \<open>p\<close> on.\<close>

fun inotify_read_loop ::
  "sysret list \<Rightarrow> u32 \<Rightarrow> iovec list \<Rightarrow> nat \<Rightarrow> nat \<Rightarrow> io_ev list \<Rightarrow> io_out result" where
  "inotify_read_loop [] res arr p cnt evs = Inl Blocked"
| "inotify_read_loop (SysOk r ls # as) res arr p cnt evs =
     (let evs = evs @ [mk_ev (take cnt (drop p arr)) r]
      in if 0 < r
         then
           let res = res + word_of_nat r
           in case move_iov arr p cnt (to_u32 r) of
                (ret, arr, p, cnt) \<Rightarrow>
                  if ret \<noteq> 0 then mk_out (i32_of_u32 res) False arr as evs
                  else inotify_read_loop as res arr p cnt evs
         else mk_out (i32_of_u32 res) False arr as evs)"
| "inotify_read_loop (SysErr e # as) res arr p cnt evs =
     (if e = EAGAIN then mk_out (i32_of_u32 res) True arr as evs
      else if e = EINTR then inotify_read_loop as res arr p cnt evs
      else mk_out (- 1) False arr as evs)"

definition inotify_read_fd :: "sysret list \<Rightarrow> iovec list \<Rightarrow> nat \<Rightarrow> io_out result" where
  "inotify_read_fd as arr iov_cnt = inotify_read_loop as 0 arr 0 iov_cnt []"

definition inotify_write_fd :: "sysret list \<Rightarrow> bool \<Rightarrow> iovec list \<Rightarrow> io_out result" where
  "inotify_write_fd as fl arr = mk_out 0 fl arr as []"

fun file_read_loop ::
  "sysret list \<Rightarrow> u32 \<Rightarrow> iovec list \<Rightarrow> nat \<Rightarrow> nat \<Rightarrow> io_ev list \<Rightarrow> io_out result" where
  "file_read_loop [] res arr p cnt evs = Inl Blocked"
| "file_read_loop (SysOk r ls # as) res arr p cnt evs =
     (let evs = evs @ [mk_ev (take cnt (drop p arr)) r]
      in if 0 < r
         then
           let res = res + word_of_nat r
           in case move_iov arr p cnt (to_u32 r) of
                (ret, arr, p, cnt) \<Rightarrow>
                  if ret \<noteq> 0 then mk_out (i32_of_u32 res) False arr as evs
                  else file_read_loop as res arr p cnt evs
         else mk_out (i32_of_u32 res) False arr as evs)"
| "file_read_loop (SysErr e # as) res arr p cnt evs =
     (if e = EINTR then file_read_loop as res arr p cnt evs
      else mk_out (- 1) False arr as evs)"

definition file_read_fd :: "sysret list \<Rightarrow> iovec list \<Rightarrow> nat \<Rightarrow> io_out result" where
  "file_read_fd as arr iov_cnt = file_read_loop as 0 arr 0 iov_cnt []"

fun file_write_loop ::
  "sysret list \<Rightarrow> u32 \<Rightarrow> iovec list \<Rightarrow> nat \<Rightarrow> nat \<Rightarrow> io_ev list \<Rightarrow> io_out result" where
  "file_write_loop [] res arr p cnt evs = Inl Blocked"
| "file_write_loop (SysOk r ls # as) res arr p cnt evs =
     (let evs = evs @ [mk_ev (take cnt (drop p arr)) r];
          res = res + word_of_nat r
      in case move_iov arr p cnt (to_u32 r) of
           (ret, arr, p, cnt) \<Rightarrow>
             if ret \<noteq> 0 then mk_out (i32_of_u32 res) False arr as evs
             else file_write_loop as res arr p cnt evs)"
| "file_write_loop (SysErr e # as) res arr p cnt evs =
     (if e = EINTR then file_write_loop as res arr p cnt evs
      else mk_out (- 1) False arr as evs)"

definition file_write_fd :: "sysret list \<Rightarrow> iovec list \<Rightarrow> nat \<Rightarrow> io_out result" where
  "file_write_fd as arr iov_cnt = file_write_loop as 0 arr 0 iov_cnt []"

subsection \<open>Event descriptors and signals\<close>

definition SIZEOF_U64 :: nat where "SIZEOF_U64 = 8"
definition SIZEOF_SIGINFO :: nat where "SIZEOF_SIGINFO = 128"

text \<open>The loops \<^verbatim>\<open>while (ret_recv != size)\<close> of the two readers; \<open>sz\<close> is that size.\<close>

fun fixed_read_loop :: "nat \<Rightarrow> sysret list \<Rightarrow> iovec list \<Rightarrow> nat \<Rightarrow> io_ev list \<Rightarrow> io_out result" where
  "fixed_read_loop sz [] arr cnt evs = Inl Blocked"
| "fixed_read_loop sz (SysOk r ls # as) arr cnt evs =
     (let evs = evs @ [mk_ev (take cnt arr) r]
      in if r = sz then mk_out (int r) True arr as evs else fixed_read_loop sz as arr cnt evs)"
| "fixed_read_loop sz (SysErr e # as) arr cnt evs =
     (if e = EAGAIN then mk_out (- 1) True arr as evs
      else if e = EINTR then fixed_read_loop sz as arr cnt evs
      else mk_out (- 1) True arr as evs)"

definition eventfd_read_fd :: "sysret list \<Rightarrow> bool \<Rightarrow> iovec list \<Rightarrow> nat \<Rightarrow> io_out result" where
  "eventfd_read_fd as fl arr iov_cnt =
     (if arr = [] then Inl Out_Of_Bounds
      else if iov_len (arr ! 0) < SIZEOF_U64 then mk_out (- 1) fl arr as []
      else fixed_read_loop SIZEOF_U64 as arr iov_cnt [])"

text \<open>
  In the writer \<^verbatim>\<open>ret_w\<close> is a \<^verbatim>\<open>uint32_t\<close>, so \<^verbatim>\<open>ret_w < 0\<close> is false for every answer; a
  failed call stores \<^verbatim>\<open>UINT32_MAX\<close> and the loop goes round again.
\<close>

definition sysret_u32 :: "sysret \<Rightarrow> u32" where
  "sysret_u32 a = (case a of SysOk r ls \<Rightarrow> word_of_nat r | SysErr e \<Rightarrow> - 1)"

fun eventfd_write_loop :: "sysret list \<Rightarrow> iovec list \<Rightarrow> nat \<Rightarrow> io_ev list \<Rightarrow> io_out result" where
  "eventfd_write_loop [] arr cnt evs = Inl Blocked"
| "eventfd_write_loop (a # as) arr cnt evs =
     (let evs = (case a of SysOk r ls \<Rightarrow> evs @ [mk_ev (take cnt arr) r] | SysErr e \<Rightarrow> evs);
          ret_w = sysret_u32 a
      in if ret_w = word_of_nat SIZEOF_U64 then mk_out (i32_of_u32 ret_w) False arr as evs
         else eventfd_write_loop as arr cnt evs)"

definition eventfd_write_fd :: "sysret list \<Rightarrow> bool \<Rightarrow> iovec list \<Rightarrow> nat \<Rightarrow> io_out result" where
  "eventfd_write_fd as fl arr iov_cnt =
     (if arr = [] then Inl Out_Of_Bounds
      else if iov_len (arr ! 0) < SIZEOF_U64 then mk_out (- 1) fl arr as []
      else eventfd_write_loop as arr iov_cnt [])"

definition signalfd_read_fd :: "sysret list \<Rightarrow> bool \<Rightarrow> iovec list \<Rightarrow> nat \<Rightarrow> io_out result" where
  "signalfd_read_fd as fl arr iov_cnt =
     (if arr = [] then Inl Out_Of_Bounds
      else if iov_len (arr ! 0) < SIZEOF_SIGINFO then mk_out (- 1) fl arr as []
      else fixed_read_loop SIZEOF_SIGINFO as arr iov_cnt [])"

definition signalfd_write_fd :: "sysret list \<Rightarrow> bool \<Rightarrow> iovec list \<Rightarrow> io_out result" where
  "signalfd_write_fd as fl arr = mk_out 0 fl arr as []"

subsection \<open>What a transfer moved\<close>

text \<open>
  \<open>evs_moved\<close> lists the byte addresses the calls transferred, in order: of each call the
  first \<open>ev_done\<close> addresses of the buffers it was shown. \<open>ev_ok\<close> is the kernel's side: a call
  transfers at most what it was shown (readv(2), writev(2), recvmsg(2), sendmsg(2)).
\<close>

definition evs_done :: "io_ev list \<Rightarrow> nat" where
  "evs_done evs = sum_list (map ev_done evs)"

definition evs_moved :: "io_ev list \<Rightarrow> nat list" where
  "evs_moved evs = concat (map (\<lambda>e. take (ev_done e) (iov_addrs (ev_view e))) evs)"

definition ev_ok :: "io_ev \<Rightarrow> bool" where
  "ev_ok e \<longleftrightarrow> ev_done e \<le> iov_total (ev_view e) \<and> ev_done e < 2 ^ 32"

lemma evs_simps [simp]:
  "evs_done [] = 0" "evs_done (e # es) = ev_done e + evs_done es" "evs_done (es @ fs) = evs_done es + evs_done fs"
  "evs_moved [] = []" "evs_moved (e # es) = take (ev_done e) (iov_addrs (ev_view e)) @ evs_moved es"
  "evs_moved (es @ fs) = evs_moved es @ evs_moved fs"
  "ev_view (mk_ev v n) = v" "ev_done (mk_ev v n) = n"
  by (simp_all add: evs_done_def evs_moved_def mk_ev_def)

subsection \<open>Loops that keep the kernel at the cursor\<close>

text \<open>
  The contract of a transfer loop whose calls are shown exactly the buffers in front of the
  cursor. \<open>goes_on\<close> says which byte counts continue, \<open>on_zero\<close> what is returned otherwise,
  \<open>on_err\<close> what an error does: \<open>None\<close> retries, \<open>Some (partial, flag)\<close> returns the bytes so
  far or \<^verbatim>\<open>-1\<close>. The loops of files and inotify keep it for every array, the TCP loops only
  for an array of one element.
\<close>

locale cursor_loop =
  fixes loop :: "sysret list \<Rightarrow> u32 \<Rightarrow> iovec list \<Rightarrow> nat \<Rightarrow> nat \<Rightarrow> io_ev list \<Rightarrow> io_out result"
    and okst :: "iovec list \<Rightarrow> nat \<Rightarrow> nat \<Rightarrow> bool"
    and goes_on :: "nat \<Rightarrow> bool"
    and on_zero :: "u32 \<Rightarrow> int"
    and on_err :: "errno \<Rightarrow> (bool \<times> bool) option"
  assumes okst_len: "okst arr p cnt \<Longrightarrow> p + cnt = length arr"
    and okst_move: "okst arr p cnt \<Longrightarrow> move_iov arr p cnt m = (0, arr', p', cnt') \<Longrightarrow> okst arr' p' cnt'"
    and goes_on_pos: "0 < r \<Longrightarrow> goes_on r"
    and loop_Nil: "loop [] res arr p cnt evs = Inl Blocked"
    and loop_Ok: "okst arr p cnt \<Longrightarrow>
      loop (SysOk r ls # as) res arr p cnt evs =
        (if goes_on r
         then case move_iov arr p cnt (to_u32 r) of
                (ret, arr', p', cnt') \<Rightarrow>
                  if ret \<noteq> 0 then mk_out (i32_of_u32 (res + word_of_nat r)) False arr' as (evs @ [mk_ev (drop p arr) r])
                  else loop as (res + word_of_nat r) arr' p' cnt' (evs @ [mk_ev (drop p arr) r])
         else mk_out (on_zero res) False arr as (evs @ [mk_ev (drop p arr) r]))"
    and loop_Err: "okst arr p cnt \<Longrightarrow>
      loop (SysErr e # as) res arr p cnt evs =
        (case on_err e of
           None \<Rightarrow> loop as res arr p cnt evs
         | Some (partial, fl) \<Rightarrow> mk_out (if partial then i32_of_u32 res else - 1) fl arr as evs)"
begin

text \<open>The other ways to return: an answer of 0 bytes, or an error that is not retried.\<close>

definition halted :: "sysret list \<Rightarrow> u32 \<Rightarrow> io_out \<Rightarrow> bool" where
  "halted as res out \<longleftrightarrow>
     (\<exists>ls. SysOk 0 ls \<in> set as \<and> \<not> goes_on 0 \<and> io_ret out = on_zero res \<and> \<not> io_flag out) \<or>
     (\<exists>e partial fl. SysErr e \<in> set as \<and> on_err e = Some (partial, fl) \<and> io_flag out = fl \<and>
        io_ret out = (if partial then i32_of_u32 res else - 1))"

lemma halted_Cons: "halted as res out \<Longrightarrow> halted (a # as) res out"
  unfolding halted_def set_simps by blast

lemma halted_zero:
  "\<not> goes_on 0 \<Longrightarrow> io_ret out = on_zero res \<Longrightarrow> \<not> io_flag out \<Longrightarrow> halted (SysOk 0 ls # as) res out"
  unfolding halted_def set_simps by blast

lemma halted_err:
  "on_err e = Some (partial, fl) \<Longrightarrow> io_flag out = fl \<Longrightarrow>
   io_ret out = (if partial then i32_of_u32 res else - 1) \<Longrightarrow> halted (SysErr e # as) res out"
  unfolding halted_def set_simps by blast

lemma transfers:
  assumes "loop as res arr p cnt evs = Inr out" "okst arr p cnt"
  shows "\<exists>ne. io_evs out = evs @ ne \<and>
    (list_all ev_ok ne \<longrightarrow> evs_moved ne = take (evs_done ne) (iov_addrs (drop p arr)) \<and>
       (evs_done ne = iov_total (drop p arr) \<and> io_ret out = i32_of_u32 (res + word_of_nat (evs_done ne)) \<or>
        halted as (res + word_of_nat (evs_done ne)) out))"
  using assms
proof (induction as arbitrary: res arr p cnt evs)
  case Nil
  then show ?case by (simp add: loop_Nil)
next
  case (Cons a as)
  show ?case
  proof (cases a)
    case (SysErr e)
    show ?thesis
    proof (cases "on_err e")
      case None
      with Cons.prems SysErr have "loop as res arr p cnt evs = Inr out" by (simp add: loop_Err)
      from Cons.IH [OF this Cons.prems(2)] show ?thesis using halted_Cons by blast
    next
      case (Some x)
      obtain partial fl where x: "x = (partial, fl)" by (cases x)
      have "out = \<lparr>io_ret = if partial then i32_of_u32 res else - 1, io_flag = fl, io_arr = arr,
                   io_lens = [], io_rest = as, io_evs = evs\<rparr>"
        using Cons.prems SysErr Some x by (simp add: loop_Err mk_out_def)
      then show ?thesis using SysErr Some x
        by (intro exI [of _ "[]"]) (simp add: halted_err)
    qed
  next
    case (SysOk r ls)
    obtain ret arr' p' cnt' where m: "move_iov arr p cnt (to_u32 r) = (ret, arr', p', cnt')"
      by (metis prod_cases4)
    note len = okst_len [OF Cons.prems(2)]
    note mv = move_iov_remaining [OF m len]
    let ?e = "mk_ev (drop p arr) r"
    have one: "evs_moved [?e] = take (evs_done [?e]) (iov_addrs (drop p arr))" by simp
    consider (stop) "\<not> goes_on r" | (full) "goes_on r" "ret \<noteq> 0" | (more) "goes_on r" "ret = 0" by blast
    then show ?thesis
    proof cases
      case stop
      then have r: "r = 0" using goes_on_pos by blast
      have "out = \<lparr>io_ret = on_zero res, io_flag = False, io_arr = arr, io_lens = [], io_rest = as,
                   io_evs = evs @ [?e]\<rparr>"
        using stop Cons.prems SysOk by (simp add: loop_Ok mk_out_def)
      then show ?thesis using stop SysOk one r
        by (intro exI [of _ "[?e]"]) (simp add: halted_zero)
    next
      case full
      then have out: "out = \<lparr>io_ret = i32_of_u32 (res + word_of_nat r), io_flag = False, io_arr = arr',
                   io_lens = [], io_rest = as, io_evs = evs @ [?e]\<rparr>"
        using Cons.prems SysOk m by (simp add: loop_Ok mk_out_def)
      have "iov_total (drop p arr) \<le> to_u32 r" using mv full(2) by (auto split: if_splits)
      then show ?thesis using out one
        by (intro exI [of _ "[?e]"]) (auto simp: ev_ok_def)
    next
      case more
      with Cons.prems SysOk m have
        l: "loop as (res + word_of_nat r) arr' p' cnt' (evs @ [?e]) = Inr out" by (simp add: loop_Ok)
      have "okst arr' p' cnt'" using okst_move [OF Cons.prems(2)] m more by simp
      from Cons.IH [OF l this] obtain ne where ne: "io_evs out = (evs @ [?e]) @ ne"
        "list_all ev_ok ne \<Longrightarrow> evs_moved ne = take (evs_done ne) (iov_addrs (drop p' arr'))"
        "list_all ev_ok ne \<Longrightarrow>
           evs_done ne = iov_total (drop p' arr') \<and> io_ret out = i32_of_u32 (res + word_of_nat r + word_of_nat (evs_done ne)) \<or>
           halted as (res + word_of_nat r + word_of_nat (evs_done ne)) out" by blast
      show ?thesis
      proof (intro exI [of _ "?e # ne"] conjI impI)
        show "io_evs out = evs @ ?e # ne" using ne(1) by simp
        assume ok: "list_all ev_ok (?e # ne)"
        then have r: "r < 2 ^ 32" "r \<le> iov_total (drop p arr)" by (simp_all add: ev_ok_def)
        then have rest: "iov_addrs (drop p' arr') = drop r (iov_addrs (drop p arr))" using mv by simp
        then show "evs_moved (?e # ne) = take (evs_done (?e # ne)) (iov_addrs (drop p arr))"
          using ne(2) ok by (simp add: take_add)
        from arg_cong [OF rest, of length] r(2)
        have "iov_total (drop p arr) = r + iov_total (drop p' arr')" by simp
        with ne(3) ok show "evs_done (?e # ne) = iov_total (drop p arr) \<and>
            io_ret out = i32_of_u32 (res + word_of_nat (evs_done (?e # ne))) \<or>
            halted (a # as) (res + word_of_nat (evs_done (?e # ne))) out"
          using halted_Cons by (auto simp: add.assoc)
      qed
    qed
  qed
qed

text \<open>
  Termination: as many non-empty transfers as there are bytes left (and at least one), or
  one answer that halts the loop, make it return.
\<close>

definition progress :: "sysret \<Rightarrow> bool" where
  "progress a = (case a of SysOk r ls \<Rightarrow> 0 < r \<and> r < 2 ^ 32 | SysErr e \<Rightarrow> False)"

lemma returns_on_progress:
  assumes "okst arr p cnt" "iov_total (drop p arr) \<le> length (filter progress as)" "filter progress as \<noteq> []"
  shows "\<exists>out. loop as res arr p cnt evs = Inr out"
  using assms
proof (induction as arbitrary: res arr p cnt evs)
  case (Cons a as)
  show ?case
  proof (cases a)
    case (SysErr e)
    moreover from this have "filter progress (a # as) = filter progress as" by (simp add: progress_def)
    ultimately show ?thesis using Cons
      by (auto simp: loop_Err mk_out_def split: option.splits)
  next
    case (SysOk r ls)
    obtain ret arr' p' cnt' where m: "move_iov arr p cnt (to_u32 r) = (ret, arr', p', cnt')"
      by (metis prod_cases4)
    note mv = move_iov_remaining [OF m okst_len [OF Cons.prems(1)]]
    show ?thesis
    proof (cases "goes_on r \<and> ret = 0")
      case False
      then show ?thesis using SysOk Cons.prems m by (auto simp: loop_Ok mk_out_def)
    next
      case True
      have ok: "okst arr' p' cnt'" using okst_move [OF Cons.prems(1)] m True by simp
      have lt: "to_u32 r < iov_total (drop p arr)" using mv True by (auto split: if_splits)
      from mv have rest: "iov_total (drop p' arr') = iov_total (drop p arr) - to_u32 r"
        by (metis length_drop length_iov_addrs)
      have le: "iov_total (drop p' arr') \<le> length (filter progress as) \<and> filter progress as \<noteq> []"
      proof (cases "progress a")
        case True
        then have "0 < r" "to_u32 r = r" using SysOk by (auto simp: progress_def)
        moreover have "iov_total (drop p arr) \<le> Suc (length (filter progress as))"
          using Cons.prems(2) True by simp
        ultimately show "iov_total (drop p' arr') \<le> length (filter progress as) \<and> filter progress as \<noteq> []"
          using lt rest by auto
      next
        case False
        then show "iov_total (drop p' arr') \<le> length (filter progress as) \<and> filter progress as \<noteq> []"
          using Cons.prems(2,3) rest by auto
      qed
      show ?thesis using SysOk Cons.prems m True Cons.IH [OF ok conjunct1 [OF le] conjunct2 [OF le]] by (simp add: loop_Ok)
    qed
  qed
qed simp

end


lemma move_iov_whole:
  assumes "p + cnt = length arr" "move_iov arr p cnt m = (ret, arr', p', cnt')"
  shows "p' + cnt' = length arr'"
  using move_iov_remaining [OF assms(2,1)] by simp

interpretation file_read: cursor_loop file_read_loop "\<lambda>arr p cnt. p + cnt = length arr" "\<lambda>r. 0 < r"
    i32_of_u32 "\<lambda>e. if e = EINTR then None else Some (False, False)"
  by unfold_locales (auto simp: Let_def dest: move_iov_whole split: prod.splits)

interpretation file_write: cursor_loop file_write_loop "\<lambda>arr p cnt. p + cnt = length arr" "\<lambda>r. True"
    i32_of_u32 "\<lambda>e. if e = EINTR then None else Some (False, False)"
  by unfold_locales (auto simp: Let_def dest: move_iov_whole split: prod.splits)

interpretation inotify_read: cursor_loop inotify_read_loop "\<lambda>arr p cnt. p + cnt = length arr" "\<lambda>r. 0 < r"
    i32_of_u32
    "\<lambda>e. if e = EAGAIN then Some (True, True) else if e = EINTR then None else Some (False, False)"
  by unfold_locales (auto simp: Let_def dest: move_iov_whole split: prod.splits)

lemma move_iov_single:
  assumes "move_iov [v] 0 (Suc 0) m = (0, arr', p', cnt')"
  shows "length arr' = 1 \<and> p' = 0 \<and> cnt' = Suc 0"
  using assms by (auto simp: move_iov_def split: if_splits)

interpretation tcp_read: cursor_loop "tcp_read_loop 1" "\<lambda>arr p cnt. length arr = 1 \<and> p = 0 \<and> cnt = 1"
    "\<lambda>r. 0 < r" "\<lambda>_. 0"
    "\<lambda>e. if e = EAGAIN then Some (True, True) else if e = EINTR then None else Some (False, False)"
  by unfold_locales
    (auto simp: Let_def length_Suc_conv dest: move_iov_single split: prod.splits)

interpretation tcp_write: cursor_loop "tcp_write_loop 1" "\<lambda>arr p cnt. length arr = 1 \<and> p = 0 \<and> cnt = 1"
    "\<lambda>r. True" i32_of_u32
    "\<lambda>e. if e = EAGAIN then Some (True, True) else if e = EINTR then None else Some (False, False)"
  by unfold_locales
    (auto simp: Let_def length_Suc_conv dest: move_iov_single split: prod.splits)


lemmas fatal_or_retry = file_read.halted_def file_write.halted_def inotify_read.halted_def
  tcp_read.halted_def tcp_write.halted_def

lemma io_ret_small: "n < 2 ^ 31 \<Longrightarrow> i32_of_u32 (0 + word_of_nat n) = int n"
  by (simp add: i32_of_u32_small)

lemma evs_done_le:
  assumes "evs_moved evs = take (evs_done evs) (iov_addrs arr)" "list_all ev_ok evs"
  shows "evs_done evs \<le> iov_total arr"
proof -
  have "length (evs_moved evs) = evs_done evs"
    using assms(2) by (induction evs) (auto simp: ev_ok_def min_def)
  then show ?thesis using assms(1) by (metis length_iov_addrs length_take min.cobounded1)
qed

subsection \<open>Properties\<close>

text \<open>
  Writing a file: whatever the kernel answers, the bytes handed over are the caller's
  bytes from the front, each once and in order. The call returns either the full size, with
  all bytes written, or \<^verbatim>\<open>-1\<close> after an error other than \<^verbatim>\<open>EINTR\<close>.
\<close>

theorem file_write_exact:
  assumes "file_write_fd as arr (length arr) = Inr out"
    and "list_all ev_ok (io_evs out)" and "iov_total arr < 2 ^ 31"
  shows "evs_moved (io_evs out) = take (evs_done (io_evs out)) (iov_addrs arr) \<and>
         (io_ret out = int (iov_total arr) \<and> evs_moved (io_evs out) = iov_addrs arr \<or>
          io_ret out = - 1 \<and> (\<exists>e. SysErr e \<in> set as \<and> e \<noteq> EINTR))"
proof -
  let ?evs = "io_evs out"
  from file_write.transfers [OF assms(1) [unfolded file_write_fd_def]] assms(2)
  have m: "evs_moved ?evs = take (evs_done ?evs) (iov_addrs arr)" and
    r: "evs_done ?evs = iov_total arr \<and> io_ret out = i32_of_u32 (0 + word_of_nat (evs_done ?evs)) \<or>
        file_write.halted as (0 + word_of_nat (evs_done ?evs)) out" by auto
  show ?thesis
  proof (cases "evs_done ?evs = iov_total arr \<and> io_ret out = i32_of_u32 (0 + word_of_nat (evs_done ?evs))")
    case True
    then show ?thesis using m assms(3) io_ret_small by simp
  next
    case False
    with r have "file_write.halted as (0 + word_of_nat (evs_done ?evs)) out" by blast
    then show ?thesis using m by (auto simp: file_write.halted_def split: if_splits)
  qed
qed

theorem file_write_exact_witness:
  "evs_moved [mk_ev [mk_iovec 0 2, mk_iovec 10 2] 3, mk_ev [mk_iovec 11 1] 1]
     = iov_addrs [mk_iovec 0 2, mk_iovec 10 2]"
  using file_write_exact [of "[SysOk 3 [], SysErr EINTR, SysOk 1 []]" "[mk_iovec 0 2, mk_iovec 10 2]"
      "\<lparr>io_ret = 4, io_flag = False, io_arr = [mk_iovec 0 2, mk_iovec 11 1], io_lens = [], io_rest = [],
        io_evs = [mk_ev [mk_iovec 0 2, mk_iovec 10 2] 3, mk_ev [mk_iovec 11 1] 1]\<rparr>"]
  by (simp add: file_write_fd_def move_iov_def mk_iovec_def mk_out_def ev_ok_def i32_of_u32_def)

text \<open>
  Reading a file: the bytes received fill the caller's buffers from the front without
  gap or overlap, and the return value is their number (end of file included), or \<^verbatim>\<open>-1\<close>
  after an error other than \<^verbatim>\<open>EINTR\<close>.
\<close>

theorem file_read_exact:
  assumes "file_read_fd as arr (length arr) = Inr out"
    and "list_all ev_ok (io_evs out)" and "iov_total arr < 2 ^ 31"
  shows "evs_moved (io_evs out) = take (evs_done (io_evs out)) (iov_addrs arr) \<and>
         (io_ret out = int (evs_done (io_evs out)) \<or>
          io_ret out = - 1 \<and> (\<exists>e. SysErr e \<in> set as \<and> e \<noteq> EINTR))"
proof -
  let ?evs = "io_evs out"
  from file_read.transfers [OF assms(1) [unfolded file_read_fd_def]] assms(2)
  have m: "evs_moved ?evs = take (evs_done ?evs) (iov_addrs arr)" and
    r: "io_ret out = i32_of_u32 (0 + word_of_nat (evs_done ?evs)) \<or>
        file_read.halted as (0 + word_of_nat (evs_done ?evs)) out" by auto
  have "i32_of_u32 (0 + word_of_nat (evs_done ?evs)) = int (evs_done ?evs)"
    using evs_done_le [OF m assms(2)] assms(3) by (intro io_ret_small) simp
  then show ?thesis using m r by (auto simp: file_read.halted_def split: if_splits)
qed

theorem file_read_exact_witness:
  "evs_moved [mk_ev [mk_iovec 0 2, mk_iovec 10 2] 3, mk_ev [mk_iovec 11 1] 0] = [0, 1, 10]"
  using file_read_exact [of "[SysOk 3 [], SysOk 0 []]" "[mk_iovec 0 2, mk_iovec 10 2]"
      "\<lparr>io_ret = 3, io_flag = False, io_arr = [mk_iovec 0 2, mk_iovec 11 1], io_lens = [], io_rest = [],
        io_evs = [mk_ev [mk_iovec 0 2, mk_iovec 10 2] 3, mk_ev [mk_iovec 11 1] 0]\<rparr>"]
  by (simp add: file_read_fd_def move_iov_def mk_iovec_def mk_out_def ev_ok_def i32_of_u32_def iov_region_def)

text \<open>
  C28. Termination of the file loops: once the kernel has made as many non-empty transfers as
  the caller's buffers have bytes (and at least one), \<^verbatim>\<open>read_fd\<close> and \<^verbatim>\<open>write_fd\<close> have
  returned, whatever answers came in between.
\<close>

theorem file_loops_return:
  assumes "iov_total arr \<le> length (filter (\<lambda>a. case a of SysOk r ls \<Rightarrow> 0 < r \<and> r < 2 ^ 32 | SysErr e \<Rightarrow> False) as)"
    and "\<exists>a\<in>set as. case a of SysOk r ls \<Rightarrow> 0 < r \<and> r < 2 ^ 32 | SysErr e \<Rightarrow> False"
  shows "(\<exists>out. file_read_fd as arr (length arr) = Inr out) \<and> (\<exists>out. file_write_fd as arr (length arr) = Inr out)"
proof -
  have "filter file_read.progress as \<noteq> []" "filter file_write.progress as \<noteq> []"
    using assms(2) by (auto simp: filter_empty_conv file_read.progress_def file_write.progress_def)
  moreover have "iov_total (drop 0 arr) \<le> length (filter file_read.progress as)"
    "iov_total (drop 0 arr) \<le> length (filter file_write.progress as)"
    using assms(1) by (simp_all add: file_read.progress_def [abs_def] file_write.progress_def [abs_def])
  ultimately show ?thesis
    unfolding file_read_fd_def file_write_fd_def
    by (auto intro!: file_read.returns_on_progress file_write.returns_on_progress)
qed

theorem file_loops_return_witness:
  "(\<exists>out. file_read_fd [SysOk 1 [], SysErr EINTR, SysOk 1 []] [mk_iovec 0 2] 1 = Inr out) \<and>
   (\<exists>out. file_write_fd [SysOk 1 [], SysErr EINTR, SysOk 1 []] [mk_iovec 0 2] 1 = Inr out)"
  using file_loops_return [of "[mk_iovec 0 2]" "[SysOk 1 [], SysErr EINTR, SysOk 1 []]"]
  by (simp add: mk_iovec_def)

text \<open>
  Reading a TCP socket into one buffer: the received bytes fill the buffer from the
  front. The call returns their number, with \<^verbatim>\<open>is_empty\<close> set when the socket ran dry; it
  returns 0 when the peer closed and \<^verbatim>\<open>-1\<close> on an error, even when bytes were received
  before in the same call.
\<close>

theorem tcp_read_single_exact:
  assumes "tcp_read_fd as [v] 1 = Inr out" and "list_all ev_ok (io_evs out)" and "iov_len v < 2 ^ 31"
  shows "evs_moved (io_evs out) = take (evs_done (io_evs out)) (iov_region v) \<and>
         (io_ret out = int (evs_done (io_evs out)) \<or>
          io_ret out = 0 \<and> (\<exists>ls. SysOk 0 ls \<in> set as) \<or>
          io_ret out = - 1 \<and> (\<exists>e. SysErr e \<in> set as \<and> e \<noteq> EINTR \<and> e \<noteq> EAGAIN))"
proof -
  let ?evs = "io_evs out"
  have l: "tcp_read_loop 1 as 0 [v] 0 1 [] = Inr out"
    using assms(1) by (simp add: tcp_read_fd_def)
  from tcp_read.transfers [OF l] assms(2)
  have m: "evs_moved ?evs = take (evs_done ?evs) (iov_addrs [v])" and
    r: "io_ret out = i32_of_u32 (0 + word_of_nat (evs_done ?evs)) \<or>
        tcp_read.halted as (0 + word_of_nat (evs_done ?evs)) out" by auto
  have "i32_of_u32 (0 + word_of_nat (evs_done ?evs)) = int (evs_done ?evs)"
    using evs_done_le [OF m assms(2)] assms(3) by (intro io_ret_small) simp
  then show ?thesis using m r by (auto simp: tcp_read.halted_def split: if_splits)
qed

theorem tcp_read_single_exact_witness:
  "evs_moved [mk_ev [mk_iovec 0 4] 3] = take 3 [0 ..< 4]"
  using tcp_read_single_exact [of "[SysOk 3 [], SysErr EAGAIN]" "mk_iovec 0 4"
      "\<lparr>io_ret = 3, io_flag = True, io_arr = [mk_iovec 3 1], io_lens = [], io_rest = [],
        io_evs = [mk_ev [mk_iovec 0 4] 3]\<rparr>"]
  by (simp add: tcp_read_fd_def move_iov_def mk_iovec_def mk_out_def ev_ok_def i32_of_u32_def iov_region_def)

lemma tcp_write_loop_evs:
  assumes "tcp_write_loop n as res arr p cnt evs = Inr out"
  shows "\<exists>ne. io_evs out = evs @ ne"
  using assms
  by (induction n as res arr p cnt evs rule: tcp_write_loop.induct)
    (fastforce simp: mk_out_def Let_def split: if_splits prod.splits)+

lemma move_iov_keeps_first:
  assumes "iov_len v \<le> r" and "r < iov_len v + iov_total vs"
    and "move_iov (v # vs) 0 (Suc (length vs)) r = (ret, arr', p', cnt')"
  shows "ret = 0 \<and> (\<exists>w. arr' = v # w \<and> length w = length vs)"
proof -
  note mv = move_iov_remaining [OF assms(3)]
  then have "ret = 0" "length arr' = Suc (length vs)" using assms(2) by (auto split: if_splits)
  moreover have "arr' ! 0 = v"
    using assms(1,3) move_iov_loop_front [of "length vs" "v # vs" 1 "length vs" _ _ arr' _ _ 0]
    by (fastforce simp: move_iov_def)
  ultimately show ?thesis by (cases arr') auto
qed

text \<open>
  Writing several buffers to a TCP socket: when the kernel takes the first buffer and
  part of the rest, the second call is shown the first buffer again, because
  \<^verbatim>\<open>msg.msg_iov\<close> is not moved. Its bytes are sent twice.
\<close>

theorem tcp_write_resends:
  assumes "iov_len v \<le> r" and "r < iov_len v + iov_total vs" and "r < 2 ^ 32"
    and "tcp_write_fd (SysOk r ls # SysOk r' ls' # as) (v # vs) (Suc (length vs)) = Inr out"
  shows "\<exists>w es. io_evs out = mk_ev (v # vs) r # mk_ev (v # w) r' # es"
proof -
  obtain ret arr' p' cnt' where m: "move_iov (v # vs) 0 (Suc (length vs)) r = (ret, arr', p', cnt')"
    by (metis prod_cases4)
  with move_iov_keeps_first [OF assms(1,2)] obtain w where w: "ret = 0" "arr' = v # w" "length w = length vs"
    by blast
  let ?evs = "[mk_ev (v # vs) r, mk_ev (v # w) r']"
  obtain ret2 arr2 p2 cnt2 where m2: "move_iov (v # w) p' cnt' (to_u32 r') = (ret2, arr2, p2, cnt2)"
    by (metis prod_cases4)
  from assms(3,4) m m2 w have
    "(if ret2 \<noteq> 0 then mk_out (i32_of_u32 (word_of_nat r + word_of_nat r')) False arr2 as ?evs
      else tcp_write_loop (Suc (length vs)) as (word_of_nat r + word_of_nat r') arr2 p2 cnt2 ?evs) = Inr out"
    by (simp add: tcp_write_fd_def Let_def cong: if_cong)
  then show ?thesis
    using tcp_write_loop_evs by (fastforce simp: mk_out_def split: if_splits)
qed

theorem tcp_write_resends_witness:
  "\<exists>out w es. tcp_write_fd [SysOk 3 [], SysOk 3 []] [mk_iovec 0 2, mk_iovec 10 2] (Suc (Suc 0)) = Inr out \<and>
     io_evs out = mk_ev [mk_iovec 0 2, mk_iovec 10 2] 3 # mk_ev (mk_iovec 0 2 # w) 3 # es"
proof -
  obtain out where o: "tcp_write_fd [SysOk 3 [], SysOk 3 []] [mk_iovec 0 2, mk_iovec 10 2] (Suc (Suc 0)) = Inr out"
    by (simp add: tcp_write_fd_def move_iov_def mk_iovec_def mk_out_def)
  then show ?thesis
    using tcp_write_resends [of "mk_iovec 0 2" 3 "[mk_iovec 10 2]" "[]" 3 "[]" "[]" out]
    by (auto simp: mk_iovec_def)
qed

text \<open>
  The event descriptor's \<^verbatim>\<open>write_fd\<close> never reports an error: \<^verbatim>\<open>ret_w\<close> is unsigned, so
  as long as the kernel answers with errors (\<^verbatim>\<open>EBADF\<close> included) the loop keeps calling.
\<close>

theorem eventfd_write_spins:
  assumes "list_all (\<lambda>a. \<exists>e. a = SysErr e) as" and "arr \<noteq> []" and "8 \<le> iov_len (arr ! 0)"
  shows "eventfd_write_fd as fl arr n = Inl Blocked"
proof -
  have "(- 1 :: u32) \<noteq> word_of_nat SIZEOF_U64" by (simp add: SIZEOF_U64_def)
  then have "eventfd_write_loop as arr n evs = Inl Blocked" for evs
    using assms(1) by (induction as arbitrary: evs) (auto simp: sysret_u32_def)
  then show ?thesis using assms(2,3) by (simp add: eventfd_write_fd_def SIZEOF_U64_def)
qed

theorem eventfd_write_spins_witness:
  "eventfd_write_fd [SysErr EBADF, SysErr EBADF] False [mk_iovec 0 8] 1 = Inl Blocked"
  using eventfd_write_spins [of "[SysErr EBADF, SysErr EBADF]" "[mk_iovec 0 8]"]
  by (simp add: mk_iovec_def)

lemma udp_write_loop_batches:
  assumes "udp_write_loop as arr (length arr) cur full res evs = Inr out"
    and "list_all (\<lambda>a. \<exists>r ls. a = SysOk r ls) as"
  shows "\<exists>ne. io_evs out = evs @ ne \<and> concat (map ev_view ne) = drop cur arr \<and>
    list_all (\<lambda>e. length (ev_view e) \<le> 100) ne \<and> io_ret out = res + int (evs_done ne)"
  using assms
proof (induction as arbitrary: cur res evs)
  case Nil
  then show ?case by (subst (asm) udp_write_loop.simps) (auto simp: mk_out_def Let_def split: if_splits)
next
  case (Cons a as)
  obtain r ls where a: "a = SysOk r ls" using Cons.prems(2) by auto
  show ?case
  proof (cases "length arr < cur")
    case True
    then show ?thesis using Cons.prems(1)
      by (subst (asm) udp_write_loop.simps) (auto simp: mk_out_def)
  next
    case False
    let ?sb = "take (min (length arr - cur) 100) (drop cur arr)"
    have "udp_write_loop as arr (length arr) (cur + 100) full (res + int r) (evs @ [mk_ev ?sb r]) = Inr out"
      using Cons.prems(1) False a
      by (subst (asm) udp_write_loop.simps) (simp add: Let_def RECV_CNT_ONCE_def)
    from Cons.IH [OF this] Cons.prems(2) obtain ne where ne: "io_evs out = (evs @ [mk_ev ?sb r]) @ ne"
      "concat (map ev_view ne) = drop (cur + 100) arr" "list_all (\<lambda>e. length (ev_view e) \<le> 100) ne"
      "io_ret out = res + int r + int (evs_done ne)" by auto
    have "?sb @ drop (cur + 100) arr = drop cur arr"
    proof -
      have "?sb = take 100 (drop cur arr)" by (simp add: min_def)
      moreover have "drop (cur + 100) arr = drop 100 (drop cur arr)" by (simp add: add.commute)
      ultimately show ?thesis by (simp only: append_take_drop_id)
    qed
    then show ?thesis using ne
      by (intro exI [of _ "mk_ev ?sb r # ne"]) auto
  qed
qed

text \<open>
  Sending datagrams: messages are offered to \<^verbatim>\<open>sendmmsg\<close> in batches of at most 100,
  every message of the array exactly once and in order, and the call returns the number
  accepted. A batch that was accepted only in part is not continued: its remaining messages
  are never offered again.
\<close>

theorem udp_write_offers_once:
  assumes "udp_write_fd as arr (length arr) = Inr out" and "list_all (\<lambda>a. \<exists>r ls. a = SysOk r ls) as"
  shows "concat (map ev_view (io_evs out)) = arr \<and> list_all (\<lambda>e. length (ev_view e) \<le> 100) (io_evs out) \<and>
         io_ret out = int (evs_done (io_evs out))"
  using udp_write_loop_batches [OF assms(1) [unfolded udp_write_fd_def] assms(2)] by auto

theorem udp_write_offers_once_witness:
  "\<exists>out. udp_write_fd [SysOk 1 []] [mk_iovec 0 2, mk_iovec 10 2] (length [mk_iovec 0 2, mk_iovec 10 2]) = Inr out \<and>
     concat (map ev_view (io_evs out)) = [mk_iovec 0 2, mk_iovec 10 2] \<and> io_ret out = 1"
proof -
  obtain out where o: "udp_write_fd [SysOk 1 []] [mk_iovec 0 2, mk_iovec 10 2]
      (length [mk_iovec 0 2, mk_iovec 10 2]) = Inr out" "io_ret out = 1"
    by (simp add: udp_write_fd_def udp_write_loop.simps mk_out_def RECV_CNT_ONCE_def)
  then show ?thesis using udp_write_offers_once [OF o(1)] by auto
qed

end
