(* ===== verification/Event_Action.thy ===== *)
theory Event_Action
  imports Fd_Io Ring_Buffer
begin

unbundle bit_operations_syntax

text \<open>
  include/event/event_action.h, source/event/event_action.cpp and the class
  \<^verbatim>\<open>ring_buffer_info\<close> of include/event/epoll.h: the per-descriptor object of the readiness
  backend, with its queues of read and write tasks.

  Objects live in a \<open>world\<close>: event actions and registered rings by address, the sockets'
  address buffers, the kernel's remaining answers, and two logs, one of the user callbacks
  with their arguments and one of the data transfers. A user callback may call back into
  the library, so it is a function \<open>usr\<close> on the world, and every state read after a callback
  is read again. A task's buffer pointer is the list of buffers it points at.
\<close>

subsection \<open>Data\<close>

record task =
  t_buffer :: "iovec list option"
  t_iov_cnt :: nat
  t_sockaddr :: "nat option"
  t_need_detail :: bool

record multishot_task =
  mt_ring :: nat
  mt_need_detail :: bool
  mt_is_submit :: bool

record mmsghdr =
  mh_iov :: "iovec option"
  mh_len :: nat
  mh_name :: "nat option"

record mmsghdr_buf_info =
  mb_buf :: "mmsghdr list"
  mb_sock_addr :: nat

datatype 'a ptr = Null | Live 'a | Dangling

datatype read_op =
  Rd_None | Rd_TCP | Rd_UDP | Rd_INOTIFY | Rd_FILE | Rd_EVENT | Rd_SIGNAL | Rd_TCP_Multi | Rd_UDP_Multi

datatype write_op =
  Wr_None | Wr_TCP | Wr_UDP | Wr_INOTIFY | Wr_FILE | Wr_EVENT | Wr_SIGNAL

text \<open>
  A user function has a number. \<open>Cb_accept\<close> is the lambda \<^verbatim>\<open>tmp_cb\<close> of
  \<^verbatim>\<open>epoll::submit_async_accept\<close> with its captures.
\<close>

datatype read_cb = Cb_user nat | Cb_accept nat "nat option"

record event_action =
  ea_fd :: fd_t
  ea_events :: u32
  ea_read_cb :: "read_cb option"
  ea_write_cb :: "nat option"
  ea_has_accept :: bool
  ea_addr_buffer :: "nat option"
  ea_pending_read :: "task list"
  ea_nonsub_read :: "task list"
  ea_pending_write :: "task list"
  ea_nonsub_write :: "task list"
  ea_multi :: "multishot_task option"
  ea_mm_multi :: "mmsghdr_buf_info ptr"
  ea_mm_sock :: "mmsghdr_buf_info option"
  ea_readable :: bool
  ea_writable :: bool
  ea_read_op :: read_op
  ea_write_op :: write_op
  ea_iov_buffer :: "iovec list"
  ea_read_offset :: u64
  ea_write_offset :: u64

record ring_buffer_info =
  ri_buf :: ring_buffer
  ri_fd_set :: "nat list"

datatype call =
    Read_Called nat int "iovec list option" nat bool
  | Accept_Called nat int "fd_t option"
  | Write_Called nat int
  | Cancel_Called nat int

record world =
  w_actions :: "nat \<Rightarrow> event_action option"
  w_rings :: "nat \<Rightarrow> ring_buffer_info option"
  w_socks :: "nat \<Rightarrow> fd_t option"
  w_answers :: "sysret list"
  w_calls :: "call list"
  w_io :: "io_ev list"

text \<open>\<^verbatim>\<open>EPOLLIN | EPOLLPRI | EPOLLRDHUP\<close>, \<^verbatim>\<open>EPOLLOUT\<close>, \<^verbatim>\<open>EPOLLET\<close>.\<close>

definition read_event :: u32 where "read_event = 0x2003"
definition write_event :: u32 where "write_event = 0x4"
definition EPOLLET :: u32 where "EPOLLET = 0x80000000"

subsection \<open>Access to the world\<close>

definition get_action :: "nat \<Rightarrow> 'a world_scheme \<Rightarrow> event_action result" where
  "get_action a w = (case w_actions w a of None \<Rightarrow> Inl Use_After_Free | Some e \<Rightarrow> Inr e)"

definition set_action :: "nat \<Rightarrow> event_action \<Rightarrow> 'a world_scheme \<Rightarrow> 'a world_scheme" where
  "set_action a e w = w\<lparr>w_actions := (w_actions w)(a \<mapsto> e)\<rparr>"

definition get_ring :: "nat \<Rightarrow> 'a world_scheme \<Rightarrow> ring_buffer_info result" where
  "get_ring r w = (case w_rings w r of None \<Rightarrow> Inl Use_After_Free | Some b \<Rightarrow> Inr b)"

definition set_ring :: "nat \<Rightarrow> ring_buffer_info \<Rightarrow> 'a world_scheme \<Rightarrow> 'a world_scheme" where
  "set_ring r b w = w\<lparr>w_rings := (w_rings w)(r \<mapsto> b)\<rparr>"

definition log_call :: "call \<Rightarrow> 'a world_scheme \<Rightarrow> 'a world_scheme" where
  "log_call c w = w\<lparr>w_calls := w_calls w @ [c]\<rparr>"

type_synonym 'a usr = "call \<Rightarrow> 'a world_scheme \<Rightarrow> 'a world_scheme result"

text \<open>\<^verbatim>\<open>read_buf_idx_callback_(ret, iov, iov_cnt, info)\<close>.\<close>

definition call_read_cb ::
  "'a usr \<Rightarrow> nat \<Rightarrow> int \<Rightarrow> iovec list option \<Rightarrow> nat \<Rightarrow> bool \<Rightarrow> 'a world_scheme \<Rightarrow> 'a world_scheme result" where
  "call_read_cb usr a ret iov cnt info w =
     bindE (get_action a w) (\<lambda>e.
     case ea_read_cb e of
       None \<Rightarrow> Inl Bad_Function_Call
     | Some (Cb_user n) \<Rightarrow>
         (let c = Read_Called n ret iov cnt info in usr c (log_call c w))
     | Some (Cb_accept n None) \<Rightarrow> Inl Null_Deref
     | Some (Cb_accept n (Some b)) \<Rightarrow>
         (let c = Accept_Called n ret (w_socks w b) in usr c (log_call c w)))"

definition call_write_cb :: "'a usr \<Rightarrow> nat \<Rightarrow> int \<Rightarrow> 'a world_scheme \<Rightarrow> 'a world_scheme result" where
  "call_write_cb usr a ret w =
     bindE (get_action a w) (\<lambda>e.
     case ea_write_cb e of
       None \<Rightarrow> Inl Bad_Function_Call
     | Some n \<Rightarrow> (let c = Write_Called n ret in usr c (log_call c w)))"

subsection \<open>Construction, callbacks, queues\<close>

definition set_fd_ops :: "FD_TYPE \<Rightarrow> event_action \<Rightarrow> event_action result" where
  "set_fd_ops ty e =
     (case ty of
        UNKNOWN_FD \<Rightarrow> Inl Assert_Exit
      | TCP_FD \<Rightarrow> Inr (e\<lparr>ea_read_op := Rd_TCP, ea_write_op := Wr_TCP\<rparr>)
      | UDP_FD \<Rightarrow> Inr (e\<lparr>ea_read_op := Rd_UDP, ea_write_op := Wr_UDP\<rparr>)
      | INOTIFY_FD \<Rightarrow> Inr (e\<lparr>ea_read_op := Rd_INOTIFY, ea_write_op := Wr_INOTIFY\<rparr>)
      | FILE_FD \<Rightarrow>
          Inr (e\<lparr>ea_readable := True, ea_writable := True, ea_read_op := Rd_FILE, ea_write_op := Wr_FILE\<rparr>)
      | TIMER_FD \<Rightarrow> Inr (e\<lparr>ea_read_op := Rd_EVENT, ea_write_op := Wr_EVENT\<rparr>)
      | EVENT_FD \<Rightarrow> Inr (e\<lparr>ea_read_op := Rd_EVENT, ea_write_op := Wr_EVENT\<rparr>)
      | SIGNAL_FD \<Rightarrow> Inr (e\<lparr>ea_read_op := Rd_SIGNAL, ea_write_op := Wr_SIGNAL\<rparr>)
      | UDS_STREAM_FD \<Rightarrow> Inr (e\<lparr>ea_read_op := Rd_TCP, ea_write_op := Wr_TCP\<rparr>)
      | UDS_DGRAM_FD \<Rightarrow> Inr (e\<lparr>ea_read_op := Rd_UDP, ea_write_op := Wr_UDP\<rparr>)
      | ACCEPT_FD \<Rightarrow> Inr e)"

definition event_action_new :: "fd_t \<Rightarrow> event_action result" where
  "event_action_new fd =
     set_fd_ops (fd_type fd)
       \<lparr>ea_fd = fd, ea_events = 0, ea_read_cb = None, ea_write_cb = None, ea_has_accept = False,
        ea_addr_buffer = None, ea_pending_read = [], ea_nonsub_read = [], ea_pending_write = [],
        ea_nonsub_write = [], ea_multi = None, ea_mm_multi = Null, ea_mm_sock = None,
        ea_readable = False, ea_writable = False, ea_read_op = Rd_None, ea_write_op = Wr_None,
        ea_iov_buffer = [], ea_read_offset = UINT64_MAX, ea_write_offset = UINT64_MAX\<rparr>"

definition set_read_callback :: "read_cb \<Rightarrow> event_action \<Rightarrow> event_action" where
  "set_read_callback cb e = e\<lparr>ea_events := ea_events e OR read_event, ea_read_cb := Some cb\<rparr>"

definition set_write_callback :: "nat \<Rightarrow> event_action \<Rightarrow> event_action" where
  "set_write_callback cb e = e\<lparr>ea_events := ea_events e OR write_event, ea_write_cb := Some cb\<rparr>"

definition is_writing :: "event_action \<Rightarrow> bool" where
  "is_writing e \<longleftrightarrow> ea_events e AND write_event \<noteq> 0"

definition is_reading :: "event_action \<Rightarrow> bool" where
  "is_reading e \<longleftrightarrow> ea_events e AND read_event \<noteq> 0"

definition is_none_evt :: "event_action \<Rightarrow> bool" where
  "is_none_evt e \<longleftrightarrow> \<not> (is_writing e \<or> is_reading e)"

definition add_read_task :: "task \<Rightarrow> event_action \<Rightarrow> event_action" where
  "add_read_task t e = e\<lparr>ea_pending_read := ea_pending_read e @ [t]\<rparr>"

definition add_non_submit_read_task :: "task \<Rightarrow> event_action \<Rightarrow> event_action" where
  "add_non_submit_read_task t e = e\<lparr>ea_nonsub_read := ea_nonsub_read e @ [t]\<rparr>"

definition add_accept_task :: "event_action \<Rightarrow> event_action" where
  "add_accept_task e = e\<lparr>ea_has_accept := True\<rparr>"

definition add_write_task :: "task \<Rightarrow> event_action \<Rightarrow> event_action" where
  "add_write_task t e = e\<lparr>ea_pending_write := ea_pending_write e @ [t]\<rparr>"

definition add_non_submit_write_task :: "task \<Rightarrow> event_action \<Rightarrow> event_action" where
  "add_non_submit_write_task t e = e\<lparr>ea_nonsub_write := ea_nonsub_write e @ [t]\<rparr>"

text \<open>\<^verbatim>\<open>mmsghdr_buf_info::set_param\<close>: both vectors only grow; growing clears them.\<close>

definition mm_default :: mmsghdr_buf_info where
  "mm_default = \<lparr>mb_buf = [], mb_sock_addr = 0\<rparr>"

definition mm_set_param :: "nat \<Rightarrow> bool \<Rightarrow> mmsghdr_buf_info \<Rightarrow> mmsghdr_buf_info" where
  "mm_set_param block_cnt need m =
     (let m = (if block_cnt \<le> length (mb_buf m) then m
               else m\<lparr>mb_buf := replicate block_cnt \<lparr>mh_iov = None, mh_len = 0, mh_name = None\<rparr>\<rparr>)
      in if need \<and> mb_sock_addr m < length (mb_buf m) then m\<lparr>mb_sock_addr := length (mb_buf m)\<rparr> else m)"

text \<open>The loops that point the message headers at the blocks \<open>vs\<close>.\<close>

definition mm_fill :: "iovec list \<Rightarrow> bool \<Rightarrow> mmsghdr_buf_info \<Rightarrow> mmsghdr_buf_info" where
  "mm_fill vs need m =
     m\<lparr>mb_buf :=
         map (\<lambda>i. (mb_buf m ! i)\<lparr>mh_iov := Some (vs ! i), mh_name := if need then Some i else None\<rparr>)
           [0 ..< length vs]
         @ drop (length vs) (mb_buf m)\<rparr>"

subsection \<open>Multishot registration\<close>

definition ring_register_fd :: "nat \<Rightarrow> nat \<Rightarrow> 'a world_scheme \<Rightarrow> 'a world_scheme result" where
  "ring_register_fd r fd w =
     bindE (get_ring r w) (\<lambda>b. Inr (set_ring r (b\<lparr>ri_fd_set := List.insert fd (ri_fd_set b)\<rparr>) w))"

definition ring_unregister_fd :: "nat \<Rightarrow> nat \<Rightarrow> 'a world_scheme \<Rightarrow> 'a world_scheme result" where
  "ring_unregister_fd r fd w =
     bindE (get_ring r w) (\<lambda>b. Inr (set_ring r (b\<lparr>ri_fd_set := removeAll fd (ri_fd_set b)\<rparr>) w))"

text \<open>\<^verbatim>\<open>buf_->writer_get_buffer()\<close> of a registered ring: the blocks offered, \<open>None\<close> for null.\<close>

definition ring_offer :: "nat \<Rightarrow> 'a world_scheme \<Rightarrow> (iovec list option \<times> 'a world_scheme) result" where
  "ring_offer r w =
     bindE (get_ring r w) (\<lambda>b.
     bindE (writer_get_buffer (ri_buf b)) (\<lambda>(ok, rb).
     Inr (if ok then map_option (\<lambda>i. take (unat (bi_cnt (w_buf rb))) (drop i (rb_data rb))) (bi_iov (w_buf rb))
          else None,
          set_ring r (b\<lparr>ri_buf := rb\<rparr>) w)))"

definition add_multishot_read_task :: "nat \<Rightarrow> multishot_task \<Rightarrow> 'a world_scheme \<Rightarrow> 'a world_scheme result" where
  "add_multishot_read_task a t w =
     bindE (get_action a w) (\<lambda>e.
     let e = e\<lparr>ea_multi := Some t\<rparr>; w = set_action a e w
     in bindE (ring_register_fd (mt_ring t) (fd_key (ea_fd e)) w) (\<lambda>w.
     if fd_type (ea_fd e) = TCP_FD then Inr (set_action a (e\<lparr>ea_read_op := Rd_TCP_Multi\<rparr>) w)
     else if fd_type (ea_fd e) = UDP_FD then
       (let e = e\<lparr>ea_read_op := Rd_UDP_Multi\<rparr>; w = set_action a e w
        in if ea_mm_multi e \<noteq> Null then Inr w
           else
             bindE (get_ring (mt_ring t) w) (\<lambda>b.
             let block_cnt = unat (get_block_cnt (ri_buf b));
                 m = mm_set_param block_cnt (mt_need_detail t) mm_default
             in bindE (ring_offer (mt_ring t) w) (\<lambda>(blocks, w).
             case blocks of
               None \<Rightarrow> Inl Null_Deref
             | Some vs \<Rightarrow>
                 bindE (assertE (block_cnt = length vs)) (\<lambda>_.
                 Inr (set_action a (e\<lparr>ea_mm_multi := Live (mm_fill vs (mt_need_detail t) m)\<rparr>) w)))))
     else Inr w))"

definition clear_multishot_task :: "nat \<Rightarrow> 'a world_scheme \<Rightarrow> 'a world_scheme result" where
  "clear_multishot_task a w =
     bindE (get_action a w) (\<lambda>e.
     case ea_multi e of
       None \<Rightarrow> Inr w
     | Some t \<Rightarrow>
         bindE (ring_unregister_fd (mt_ring t) (fd_key (ea_fd e)) w) (\<lambda>w.
         if ea_mm_multi e = Dangling then Inl Bad_Free
         else
           let e = e\<lparr>ea_multi := None,
                     ea_mm_multi := (if ea_mm_multi e = Null then Null else Dangling)\<rparr>
           in bindE (set_fd_ops (fd_type (ea_fd e)) e) (\<lambda>e. Inr (set_action a e w))))"

text \<open>The destructor; the deques and vectors go with the object.\<close>

definition event_action_delete :: "nat \<Rightarrow> 'a world_scheme \<Rightarrow> 'a world_scheme result" where
  "event_action_delete a w =
     bindE (clear_multishot_task a w) (\<lambda>w. Inr (w\<lparr>w_actions := (w_actions w)(a := None)\<rparr>))"

subsection \<open>Submission and cancellation\<close>

fun move_tasks :: "nat \<Rightarrow> task list \<Rightarrow> task list \<Rightarrow> (task list \<times> task list) result" where
  "move_tasks 0 src dst = Inr (src, dst)"
| "move_tasks (Suc i) src dst =
     (case src of [] \<Rightarrow> Inl Empty_Deque | t # src' \<Rightarrow> move_tasks i src' (dst @ [t]))"

definition action_submit :: "event_action \<Rightarrow> event_action result" where
  "action_submit e =
     bindE (move_tasks (length (ea_nonsub_read e)) (ea_nonsub_read e) (ea_pending_read e)) (\<lambda>(src, dst).
     bindE (assertE (src = [])) (\<lambda>_.
     let e = e\<lparr>ea_nonsub_read := src, ea_pending_read := dst\<rparr>
     in bindE (move_tasks (length (ea_nonsub_write e)) (ea_nonsub_write e) (ea_pending_write e)) (\<lambda>(src, dst).
     bindE (assertE (src = [])) (\<lambda>_.
     Inr (e\<lparr>ea_nonsub_write := src, ea_pending_write := dst,
            ea_multi := map_option (\<lambda>t. t\<lparr>mt_is_submit := True\<rparr>) (ea_multi e)\<rparr>)))))"

definition disable_read :: "nat \<Rightarrow> 'a world_scheme \<Rightarrow> 'a world_scheme result" where
  "disable_read a w =
     bindE (get_action a w) (\<lambda>e.
     let w = set_action a (e\<lparr>ea_events := ea_events e AND NOT read_event, ea_read_cb := None,
                            ea_pending_read := [], ea_nonsub_read := []\<rparr>) w
     in bindE (clear_multishot_task a w) (\<lambda>w.
        bindE (get_action a w) (\<lambda>e. Inr (set_action a (e\<lparr>ea_has_accept := False\<rparr>) w))))"

definition disable_write :: "event_action \<Rightarrow> event_action" where
  "disable_write e =
     e\<lparr>ea_events := ea_events e AND NOT write_event, ea_write_cb := None,
       ea_pending_write := [], ea_nonsub_write := []\<rparr>"

subsection \<open>Reading\<close>

text \<open>\<^verbatim>\<open>customized_data\<close>: null, a \<^verbatim>\<open>msghdr\<close>, or a \<^verbatim>\<open>mmsghdr_buf_info\<close> with its buffers and lengths.\<close>

datatype cust = C_Null | C_Msg | C_Mmsg "iovec list" "nat list"

definition run_read :: "read_op \<Rightarrow> sysret list \<Rightarrow> bool \<Rightarrow> iovec list \<Rightarrow> nat \<Rightarrow> cust \<Rightarrow> io_out result" where
  "run_read op as fl arr cnt c =
     (case op of
        Rd_None \<Rightarrow> Inl Null_Deref
      | Rd_TCP \<Rightarrow> tcp_read_fd as arr cnt
      | Rd_UDP \<Rightarrow> (case c of C_Mmsg vs lens \<Rightarrow> udp_read_fd as vs cnt lens
                         | C_Null \<Rightarrow> Inl Null_Deref | C_Msg \<Rightarrow> Inl Out_Of_Bounds)
      | Rd_INOTIFY \<Rightarrow> inotify_read_fd as arr cnt
      | Rd_FILE \<Rightarrow> file_read_fd as arr cnt
      | Rd_EVENT \<Rightarrow> eventfd_read_fd as fl arr cnt
      | Rd_SIGNAL \<Rightarrow> signalfd_read_fd as fl arr cnt
      | Rd_TCP_Multi \<Rightarrow> (case c of C_Null \<Rightarrow> Inl Null_Deref | _ \<Rightarrow> tcp_read_fd_for_multishot as arr cnt)
      | Rd_UDP_Multi \<Rightarrow> (case c of C_Mmsg vs lens \<Rightarrow> udp_read_fd_for_multishot as fl vs lens
                               | C_Null \<Rightarrow> Inl Null_Deref | C_Msg \<Rightarrow> Inl Out_Of_Bounds))"

definition run_write :: "write_op \<Rightarrow> sysret list \<Rightarrow> bool \<Rightarrow> iovec list \<Rightarrow> nat \<Rightarrow> io_out result" where
  "run_write op as fl arr cnt =
     (case op of
        Wr_None \<Rightarrow> Inl Null_Deref
      | Wr_TCP \<Rightarrow> tcp_write_fd as arr cnt
      | Wr_UDP \<Rightarrow> udp_write_fd as arr cnt
      | Wr_INOTIFY \<Rightarrow> inotify_write_fd as fl arr
      | Wr_FILE \<Rightarrow> file_write_fd as arr cnt
      | Wr_EVENT \<Rightarrow> eventfd_write_fd as fl arr cnt
      | Wr_SIGNAL \<Rightarrow> signalfd_write_fd as fl arr)"

definition after_io :: "io_out result \<Rightarrow> 'a world_scheme \<Rightarrow> (io_out \<times> 'a world_scheme) result" where
  "after_io r w = bindE r (\<lambda>out. Inr (out, w\<lparr>w_answers := io_rest out, w_io := w_io w @ io_evs out\<rparr>))"

definition next_answer :: "'a world_scheme \<Rightarrow> (sysret \<times> 'a world_scheme) result" where
  "next_answer w = (case w_answers w of [] \<Rightarrow> Inl Blocked | x # xs \<Rightarrow> Inr (x, w\<lparr>w_answers := xs\<rparr>))"

datatype mm_src = Mm_Multi | Mm_Sock

definition mm_get :: "mm_src \<Rightarrow> event_action \<Rightarrow> mmsghdr_buf_info result" where
  "mm_get src e =
     (case src of
        Mm_Multi \<Rightarrow> (case ea_mm_multi e of Null \<Rightarrow> Inl Null_Deref | Dangling \<Rightarrow> Inl Use_After_Free | Live m \<Rightarrow> Inr m)
      | Mm_Sock \<Rightarrow> (case ea_mm_sock e of None \<Rightarrow> Inl Null_Deref | Some m \<Rightarrow> Inr m))"

definition mm_set :: "mm_src \<Rightarrow> mmsghdr_buf_info \<Rightarrow> event_action \<Rightarrow> event_action" where
  "mm_set src m e =
     (case src of Mm_Multi \<Rightarrow> e\<lparr>ea_mm_multi := Live m\<rparr> | Mm_Sock \<Rightarrow> e\<lparr>ea_mm_sock := Some m\<rparr>)"

definition mm_iovs :: "mmsghdr_buf_info \<Rightarrow> iovec list" where
  "mm_iovs m = map (\<lambda>h. case mh_iov h of None \<Rightarrow> mk_iovec 0 0 | Some v \<Rightarrow> v) (mb_buf m)"

definition mm_set_lens :: "nat list \<Rightarrow> mmsghdr_buf_info \<Rightarrow> mmsghdr_buf_info" where
  "mm_set_lens lens m = m\<lparr>mb_buf := map2 (\<lambda>h l. h\<lparr>mh_len := l\<rparr>) (mb_buf m) lens\<rparr>"

text \<open>The loop over the received messages; the header array is looked up again after every callback.\<close>

fun udp_deliver ::
  "'a usr \<Rightarrow> nat \<Rightarrow> mm_src \<Rightarrow> bool \<Rightarrow> nat \<Rightarrow> nat \<Rightarrow> 'a world_scheme \<Rightarrow> 'a world_scheme result" where
  "udp_deliver usr a src need 0 i w = Inr w"
| "udp_deliver usr a src need (Suc n) i w =
     bindE (get_action a w) (\<lambda>e.
     bindE (mm_get src e) (\<lambda>m.
     if length (mb_buf m) \<le> i then Inl Out_Of_Bounds
     else
       bindE (call_read_cb usr a (int (mh_len (mb_buf m ! i))) (Some [mm_iovs m ! i]) 1 need w)
         (udp_deliver usr a src need n (Suc i))))"

definition read_udp ::
  "'a usr \<Rightarrow> nat \<Rightarrow> mm_src \<Rightarrow> nat \<Rightarrow> bool \<Rightarrow> 'a world_scheme \<Rightarrow> (int \<times> 'a world_scheme) result" where
  "read_udp usr a src real_iov_cnt need_sock_detail w =
     bindE (get_action a w) (\<lambda>e.
     bindE (mm_get src e) (\<lambda>m.
     bindE (after_io (run_read (ea_read_op e) (w_answers w) False [] real_iov_cnt
                        (C_Mmsg (mm_iovs m) (map mh_len (mb_buf m)))) w) (\<lambda>(out, w).
     let ret = io_ret out;
         e = mm_set src (mm_set_lens (io_lens out) m) e
     in if 0 < ret
        then
          let e = (if io_flag out then e\<lparr>ea_readable := False\<rparr> else e);
              w = set_action a e w
          in if ret = INT32_MAX then Inr (ret, w)
             else bindE (udp_deliver usr a src need_sock_detail (nat ret) 0 w) (\<lambda>w. Inr (0, w))
        else
          bindE (call_read_cb usr a ret None 0 False (set_action a e w)) (\<lambda>w. Inr (- 1, w)))))"

definition read_tcp ::
  "'a usr \<Rightarrow> nat \<Rightarrow> iovec list \<Rightarrow> bool \<Rightarrow> 'a world_scheme \<Rightarrow> (int \<times> 'a world_scheme) result" where
  "read_tcp usr a iov need_sock_detail w =
     bindE (get_action a w) (\<lambda>e.
     bindE (after_io (run_read (ea_read_op e) (w_answers w) False iov (length iov) C_Msg) w) (\<lambda>(out, w).
     let ret = io_ret out
     in if 0 < ret
        then
          if ret = INT32_MAX \<and> io_flag out
          then Inr (- 1, set_action a (e\<lparr>ea_readable := False\<rparr>) w)
          else bindE (call_read_cb usr a ret (Some iov) (length iov) need_sock_detail w) (\<lambda>w. Inr (0, w))
        else bindE (call_read_cb usr a ret None 0 False w) (\<lambda>w. Inr (- 1, w))))"

text \<open>
  The multishot loop. \<^verbatim>\<open>buf_ring\<close> and \<^verbatim>\<open>need_sock_detail\<close> are taken once, before the loop.
  Each round makes at least one system call, so \<open>Suc\<close> of the number of answers is enough
  fuel: a run that uses it up has no answer left either.
\<close>

fun multishot_loop ::
  "'a usr \<Rightarrow> nat \<Rightarrow> nat \<Rightarrow> bool \<Rightarrow> nat \<Rightarrow> 'a world_scheme \<Rightarrow> 'a world_scheme result" where
  "multishot_loop usr a r need 0 w = Inl Blocked"
| "multishot_loop usr a r need (Suc n) w =
     bindE (ring_offer r w) (\<lambda>(blocks, w).
     case blocks of
       None \<Rightarrow> Inl Assert_Exit
     | Some vs \<Rightarrow>
         bindE (get_action a w) (\<lambda>e.
         bindE (if fd_type (ea_fd e) = UDP_FD then read_udp usr a Mm_Multi 0 need w
                else read_tcp usr a vs need w) (\<lambda>(ret, w).
         if ret < 0 then Inr w else multishot_loop usr a r need n w)))"

definition do_multishot_read_task :: "'a usr \<Rightarrow> nat \<Rightarrow> 'a world_scheme \<Rightarrow> 'a world_scheme result" where
  "do_multishot_read_task usr a w =
     bindE (get_action a w) (\<lambda>e.
     case ea_multi e of
       None \<Rightarrow> Inl Null_Deref
     | Some t \<Rightarrow> multishot_loop usr a (mt_ring t) (mt_need_detail t) (Suc (length (w_answers w))) w)"

text \<open>\<^verbatim>\<open>iov_buffer_\<close> grows to the task's count and receives a copy of the task's buffers.\<close>

definition copy_iov :: "iovec list \<Rightarrow> nat \<Rightarrow> iovec list \<Rightarrow> iovec list" where
  "copy_iov src cnt buf = take cnt src @ drop cnt buf"

text \<open>The part of \<^verbatim>\<open>do_read_task\<close> that seeks: \<open>Some r\<close> is an early return of \<open>r\<close>.\<close>

definition read_seek ::
  "'a usr \<Rightarrow> nat \<Rightarrow> task \<Rightarrow> 'a world_scheme \<Rightarrow> (int option \<times> 'a world_scheme) result" where
  "read_seek usr a t w =
     bindE (get_action a w) (\<lambda>e.
     if fd_type (ea_fd e) = FILE_FD \<and> ea_read_offset e \<noteq> UINT64_MAX
     then bindE (next_answer w) (\<lambda>(x, w).
          case x of
            SysErr _ \<Rightarrow> bindE (call_read_cb usr a (- 1) (t_buffer t) (t_iov_cnt t) False w)
                         (\<lambda>w. Inr (Some 0, w))
          | SysOk _ _ \<Rightarrow> Inr (None, set_action a (e\<lparr>ea_read_offset := UINT64_MAX\<rparr>) w))
     else Inr (None, w))"

text \<open>The part that reads a datagram socket, and the part that reads any other descriptor.\<close>

definition read_dgram :: "'a usr \<Rightarrow> nat \<Rightarrow> task \<Rightarrow> iovec list \<Rightarrow> 'a world_scheme \<Rightarrow> (int \<times> 'a world_scheme) result" where
  "read_dgram usr a t buf w =
     bindE (get_action a w) (\<lambda>e.
     let m = mm_set_param (t_iov_cnt t) (t_need_detail t) (case ea_mm_sock e of None \<Rightarrow> mm_default | Some m \<Rightarrow> m);
         m = mm_fill (take (t_iov_cnt t) buf) (t_need_detail t) m
     in bindE (read_udp usr a Mm_Sock (t_iov_cnt t) (t_need_detail t)
                 (set_action a (e\<lparr>ea_mm_sock := Some m\<rparr>) w)) (\<lambda>(ret, w).
        if ret = INT32_MAX then Inr (ret, w) else Inr (0, w)))"

definition read_plain :: "'a usr \<Rightarrow> nat \<Rightarrow> task \<Rightarrow> bool \<Rightarrow> 'a world_scheme \<Rightarrow> (int \<times> 'a world_scheme) result" where
  "read_plain usr a t is_event_triggered w =
     bindE (get_action a w) (\<lambda>e.
     bindE (after_io (run_read (ea_read_op e) (w_answers w) False
                        (take (t_iov_cnt t) (ea_iov_buffer e)) (t_iov_cnt t) C_Null) w) (\<lambda>(out, w).
     let e = e\<lparr>ea_iov_buffer := io_arr out @ drop (t_iov_cnt t) (ea_iov_buffer e)\<rparr>;
         e = (if io_flag out then e\<lparr>ea_readable := False\<rparr> else e);
         w = set_action a e w
     in if io_flag out \<and> \<not> is_event_triggered \<and> io_ret out = 0 then Inr (INT32_MAX, w)
        else bindE (call_read_cb usr a (io_ret out) (t_buffer t) (t_iov_cnt t) False w) (\<lambda>w. Inr (0, w))))"

definition do_read_task ::
  "'a usr \<Rightarrow> nat \<Rightarrow> task \<Rightarrow> bool \<Rightarrow> 'a world_scheme \<Rightarrow> (int \<times> 'a world_scheme) result" where
  "do_read_task usr a t is_event_triggered w =
     (if t_iov_cnt t = 0
      then bindE (call_read_cb usr a 0 (t_buffer t) 0 False w) (\<lambda>w. Inr (0, w))
      else case t_buffer t of
        None \<Rightarrow> Inl Null_Deref
      | Some buf \<Rightarrow>
          bindE (get_action a w) (\<lambda>e.
          bindE (read_seek usr a t
                   (set_action a (e\<lparr>ea_iov_buffer := copy_iov buf (t_iov_cnt t) (ea_iov_buffer e)\<rparr>) w))
            (\<lambda>(early, w).
          case early of
            Some r \<Rightarrow> Inr (r, w)
          | None \<Rightarrow>
              if fd_type (ea_fd e) = UDP_FD then read_dgram usr a t buf w
              else read_plain usr a t is_event_triggered w)))"

subsection \<open>Accepting and writing\<close>

text \<open>\<^verbatim>\<open>do_accept_task\<close>: the loop retries on \<^verbatim>\<open>EINTR\<close> and on the answer 0.\<close>

fun accept_loop :: "'a usr \<Rightarrow> nat \<Rightarrow> sysret list \<Rightarrow> 'a world_scheme \<Rightarrow> 'a world_scheme result" where
  "accept_loop usr a [] w = Inl Blocked"
| "accept_loop usr a (SysErr e # as) w =
     (let w = w\<lparr>w_answers := as\<rparr>
      in if e = EAGAIN
         then bindE (get_action a w) (\<lambda>x. Inr (set_action a (x\<lparr>ea_readable := False\<rparr>) w))
         else if e = EINTR then accept_loop usr a as w
         else call_read_cb usr a (- 1) None 0 False w)"
| "accept_loop usr a (SysOk r ls # as) w =
     (let w = w\<lparr>w_answers := as\<rparr>
      in if r = 0 then accept_loop usr a as w
         else
           bindE (get_action a w) (\<lambda>x.
           case ea_addr_buffer x of
             None \<Rightarrow> Inl Null_Deref
           | Some b \<Rightarrow>
               call_read_cb usr a (int r) None 0 False
                 (w\<lparr>w_socks := (w_socks w)(b \<mapsto> mk_fd (int r) TCP_FD)\<rparr>)))"

definition do_accept_task :: "'a usr \<Rightarrow> nat \<Rightarrow> 'a world_scheme \<Rightarrow> 'a world_scheme result" where
  "do_accept_task usr a w = accept_loop usr a (w_answers w) w"

definition write_seek :: "'a usr \<Rightarrow> nat \<Rightarrow> 'a world_scheme \<Rightarrow> (int option \<times> 'a world_scheme) result" where
  "write_seek usr a w =
     bindE (get_action a w) (\<lambda>e.
     if ea_write_offset e \<noteq> UINT64_MAX
     then bindE (next_answer w) (\<lambda>(x, w).
          case x of
            SysErr _ \<Rightarrow> bindE (call_write_cb usr a (- 1) w) (\<lambda>w. Inr (Some 0, w))
          | SysOk _ _ \<Rightarrow> Inr (None, w))
     else Inr (None, w))"

definition write_plain :: "'a usr \<Rightarrow> nat \<Rightarrow> task \<Rightarrow> 'a world_scheme \<Rightarrow> (int \<times> 'a world_scheme) result" where
  "write_plain usr a t w =
     bindE (get_action a w) (\<lambda>e.
     bindE (after_io (run_write (ea_write_op e) (w_answers w) False
                        (take (t_iov_cnt t) (ea_iov_buffer e)) (t_iov_cnt t)) w) (\<lambda>(out, w).
     let e = e\<lparr>ea_iov_buffer := io_arr out @ drop (t_iov_cnt t) (ea_iov_buffer e),
               ea_write_offset := UINT64_MAX\<rparr>;
         w = set_action a e w
     in if io_flag out \<and> io_ret out = 0 then Inr (INT32_MAX, w)
        else bindE (call_write_cb usr a (io_ret out) w) (\<lambda>w. Inr (0, w))))"

definition do_write_task :: "'a usr \<Rightarrow> nat \<Rightarrow> task \<Rightarrow> 'a world_scheme \<Rightarrow> (int \<times> 'a world_scheme) result" where
  "do_write_task usr a t w =
     (if t_iov_cnt t = 0 then bindE (call_write_cb usr a 0 w) (\<lambda>w. Inr (0, w))
      else case t_buffer t of
        None \<Rightarrow> Inl Null_Deref
      | Some buf \<Rightarrow>
          bindE (get_action a w) (\<lambda>e.
          bindE (write_seek usr a
                   (set_action a (e\<lparr>ea_iov_buffer := copy_iov buf (t_iov_cnt t) (ea_iov_buffer e)\<rparr>) w))
            (\<lambda>(early, w).
          case early of Some r \<Rightarrow> Inr (r, w) | None \<Rightarrow> write_plain usr a t w)))"

subsection \<open>Handling events\<close>

text \<open>
  The loops over the initial number of pending tasks: the front task is run, put back at
  the end when it would block, and the front is popped, all on the deque as the callback
  left it.
\<close>

fun read_tasks_loop :: "'a usr \<Rightarrow> nat \<Rightarrow> bool \<Rightarrow> nat \<Rightarrow> 'a world_scheme \<Rightarrow> 'a world_scheme result" where
  "read_tasks_loop usr a trig 0 w = Inr w"
| "read_tasks_loop usr a trig (Suc i) w =
     bindE (get_action a w) (\<lambda>e.
     case ea_pending_read e of
       [] \<Rightarrow> Inl Empty_Deque
     | t # _ \<Rightarrow>
         bindE (do_read_task usr a t trig w) (\<lambda>(ret, w).
         bindE (get_action a w) (\<lambda>e.
         let q = ea_pending_read e @ (if ret = INT32_MAX then [t] else [])
         in if q = [] then Inl Empty_Deque
            else read_tasks_loop usr a trig i (set_action a (e\<lparr>ea_pending_read := tl q\<rparr>) w))))"

fun write_tasks_loop :: "'a usr \<Rightarrow> nat \<Rightarrow> nat \<Rightarrow> 'a world_scheme \<Rightarrow> 'a world_scheme result" where
  "write_tasks_loop usr a 0 w = Inr w"
| "write_tasks_loop usr a (Suc i) w =
     bindE (get_action a w) (\<lambda>e.
     case ea_pending_write e of
       [] \<Rightarrow> Inl Empty_Deque
     | t # _ \<Rightarrow>
         bindE (do_write_task usr a t w) (\<lambda>(ret, w).
         bindE (get_action a w) (\<lambda>e.
         let e = (if ret = INT32_MAX then e\<lparr>ea_writable := False\<rparr> else e);
             q = ea_pending_write e @ (if ret = INT32_MAX then [t] else [])
         in if q = [] then Inl Empty_Deque
            else write_tasks_loop usr a i (set_action a (e\<lparr>ea_pending_write := tl q\<rparr>) w))))"

definition handle_events :: "'a usr \<Rightarrow> nat \<Rightarrow> bool \<Rightarrow> 'a world_scheme \<Rightarrow> 'a world_scheme result" where
  "handle_events usr a is_event_triggered w =
     bindE (get_action a w) (\<lambda>e.
     if ea_readable e \<and> (case ea_multi e of Some t \<Rightarrow> \<not> mt_is_submit t | None \<Rightarrow> False) then Inr w
     else
       bindE
         (if ea_readable e
          then
            bindE (case ea_multi e of
                     Some _ \<Rightarrow> do_multishot_read_task usr a w
                   | None \<Rightarrow> read_tasks_loop usr a is_event_triggered (length (ea_pending_read e)) w) (\<lambda>w.
            bindE (get_action a w) (\<lambda>e. if ea_has_accept e then do_accept_task usr a w else Inr w))
          else Inr w) (\<lambda>w.
       bindE (get_action a w) (\<lambda>e.
       if ea_writable e then write_tasks_loop usr a (length (ea_pending_write e)) w else Inr w)))"

definition set_ready_events :: "'a usr \<Rightarrow> nat \<Rightarrow> u32 \<Rightarrow> 'a world_scheme \<Rightarrow> 'a world_scheme result" where
  "set_ready_events usr a events w =
     bindE (get_action a w) (\<lambda>e.
     let e = (if \<not> ea_readable e \<and> events AND read_event \<noteq> 0 then e\<lparr>ea_readable := True\<rparr> else e);
         e = (if \<not> ea_writable e \<and> events AND write_event \<noteq> 0 then e\<lparr>ea_writable := True\<rparr> else e)
     in handle_events usr a True (set_action a e w))"

end
