(* ===== verification/Event_Action_Proofs.thy ===== *)
theory Event_Action_Proofs
  imports Event_Action "HOL-Library.Sublist"
begin

unbundle bit_operations_syntax

text \<open>
  Correctness of the task queues of \<^verbatim>\<open>event_action\<close>, and the places where they go wrong.
  The round theorems hold for every user callback that, as far as this action is
  concerned, only submits further tasks (\<open>benign\<close>).
\<close>

subsection \<open>Vocabulary\<close>

definition benign :: "'a usr \<Rightarrow> nat \<Rightarrow> bool" where
  "benign usr a \<longleftrightarrow>
     (\<forall>c w e. w_actions w a = Some e \<longrightarrow>
        (\<exists>w' rs ws. usr c w = Inr w' \<and> w_calls w' = w_calls w \<and>
           w_actions w' a = Some (e\<lparr>ea_pending_read := ea_pending_read e @ rs,
                                  ea_pending_write := ea_pending_write e @ ws\<rparr>)))"

text \<open>
  What one task may leave behind: it would block and nothing was called, or its callback
  ran once; \<open>rs\<close> lists the return values of a round, \<open>None\<close> for a task that would block.
\<close>

definition ran_write :: "nat \<Rightarrow> nat \<Rightarrow> 'a world_scheme \<Rightarrow> event_action \<Rightarrow> int \<Rightarrow> 'a world_scheme \<Rightarrow> bool" where
  "ran_write a n w e ret w' \<longleftrightarrow>
     (\<exists>e'. w_actions w' a = Some e' \<and> ea_write_cb e' = Some n \<and> ea_write_op e' = ea_write_op e \<and>
        ((ret = INT32_MAX \<and> w_calls w' = w_calls w \<and> ea_pending_write e' = ea_pending_write e) \<or>
         (ret = 0 \<and> (\<exists>r ws. w_calls w' = w_calls w @ [Write_Called n r] \<and>
                          ea_pending_write e' = ea_pending_write e @ ws))))"

definition ran_read :: "nat \<Rightarrow> nat \<Rightarrow> task \<Rightarrow> 'a world_scheme \<Rightarrow> event_action \<Rightarrow> int \<Rightarrow> 'a world_scheme \<Rightarrow> bool" where
  "ran_read a n t w e ret w' \<longleftrightarrow>
     (\<exists>e'. w_actions w' a = Some e' \<and> ea_read_cb e' = Some (Cb_user n) \<and> fd_type (ea_fd e') = fd_type (ea_fd e) \<and> ea_read_op e' = ea_read_op e \<and>
        ((ret = INT32_MAX \<and> w_calls w' = w_calls w \<and> ea_pending_read e' = ea_pending_read e) \<or>
         (ret = 0 \<and> (\<exists>r ws. w_calls w' = w_calls w @ [Read_Called n r (t_buffer t) (t_iov_cnt t) False] \<and>
                          ea_pending_read e' = ea_pending_read e @ ws))))"

definition task_ok :: "task \<Rightarrow> bool" where
  "task_ok t \<longleftrightarrow> t_iov_cnt t = 0 \<or> (case t_buffer t of None \<Rightarrow> False | Some buf \<Rightarrow> buf \<noteq> [])"

definition write_calls :: "nat \<Rightarrow> int option list \<Rightarrow> call list" where
  "write_calls n rs = map (Write_Called n) (map the (filter (\<lambda>r. r \<noteq> None) rs))"

definition left_over :: "'t list \<Rightarrow> 'r option list \<Rightarrow> 't list" where
  "left_over ts rs = map fst (filter (\<lambda>(t, r). r = None) (zip ts rs))"

definition read_calls :: "nat \<Rightarrow> task list \<Rightarrow> int option list \<Rightarrow> call list" where
  "read_calls n ts rs =
     concat (map2 (\<lambda>t r. case r of None \<Rightarrow> [] | Some v \<Rightarrow> [Read_Called n v (t_buffer t) (t_iov_cnt t) False]) ts rs)"

definition ends_in_usr :: "'a usr \<Rightarrow> 'a world_scheme \<Rightarrow> bool" where
  "ends_in_usr usr w' \<longleftrightarrow> (\<exists>c w1. usr c (log_call c w1) = Inr w')"

subsection \<open>Submission\<close>

lemma move_tasks_all: "move_tasks (length src) src dst = Inr ([], dst @ src)"
  by (induction src arbitrary: dst) simp_all

lemma action_submit_eq:
  "action_submit e = Inr (e\<lparr>ea_pending_read := ea_pending_read e @ ea_nonsub_read e, ea_nonsub_read := [],
     ea_pending_write := ea_pending_write e @ ea_nonsub_write e, ea_nonsub_write := [],
     ea_multi := map_option (\<lambda>t. t\<lparr>mt_is_submit := True\<rparr>) (ea_multi e)\<rparr>)"
  by (simp add: action_submit_def move_tasks_all)

subsection \<open>Write tasks\<close>

lemma call_write_cb_benign:
  assumes "benign usr a" "w_actions w a = Some e" "ea_write_cb e = Some n"
  obtains w' rs ws where "call_write_cb usr a r w = Inr w'" "w_calls w' = w_calls w @ [Write_Called n r]"
    "w_actions w' a = Some (e\<lparr>ea_pending_read := ea_pending_read e @ rs,
                              ea_pending_write := ea_pending_write e @ ws\<rparr>)"
proof -
  let ?w = "log_call (Write_Called n r) w"
  have "w_actions ?w a = Some e" using assms(2) by (simp add: log_call_def)
  then obtain w' rs ws where "usr (Write_Called n r) ?w = Inr w'" "w_calls w' = w_calls ?w"
    "w_actions w' a = Some (e\<lparr>ea_pending_read := ea_pending_read e @ rs,
                              ea_pending_write := ea_pending_write e @ ws\<rparr>)"
    using assms(1) unfolding benign_def by blast
  then show thesis using assms(2,3) that
    by (simp add: call_write_cb_def get_action_def log_call_def)
qed


lemma ran_write_called:
  assumes "benign usr a" "w_actions w1 a = Some e1" "ea_write_cb e1 = Some n"
    "ea_write_op e1 = ea_write_op e" "ea_pending_write e1 = ea_pending_write e" "w_calls w1 = w_calls w"
    "call_write_cb usr a r w1 = Inr w'"
  shows "ran_write a n w e 0 w'"
proof -
  from assms(1-3) obtain w2 rs ws where "call_write_cb usr a r w1 = Inr w2" "w_calls w2 = w_calls w1 @ [Write_Called n r]"
    "w_actions w2 a = Some (e1\<lparr>ea_pending_read := ea_pending_read e1 @ rs,
                              ea_pending_write := ea_pending_write e1 @ ws\<rparr>)"
    by (rule call_write_cb_benign [of usr a w1 e1 n r])
  then show ?thesis using assms(3-7) by (auto simp: ran_write_def)
qed

lemma write_seek_outcome:
  assumes "benign usr a" "w_actions w1 a = Some e1" "ea_write_cb e1 = Some n"
    "ea_write_op e1 = ea_write_op e" "ea_pending_write e1 = ea_pending_write e" "w_calls w1 = w_calls w"
    "write_seek usr a w1 = Inr (early, w')"
  shows "case early of None \<Rightarrow> w_actions w' a = Some e1 \<and> w_calls w' = w_calls w
         | Some r \<Rightarrow> ran_write a n w e r w'"
proof (cases "ea_write_offset e1 = UINT64_MAX")
  case True
  then show ?thesis using assms by (simp add: write_seek_def get_action_def)
next
  case False
  with assms(2,7) obtain x xs where x: "w_answers w1 = x # xs"
    by (auto simp: write_seek_def get_action_def next_answer_def split: list.splits)
  let ?w = "w1\<lparr>w_answers := xs\<rparr>"
  show ?thesis
  proof (cases x)
    case (SysOk r ls)
    then show ?thesis using assms x False by (auto simp: write_seek_def get_action_def next_answer_def)
  next
    case (SysErr er)
    then obtain w2 where "early = Some 0" "w' = w2" "call_write_cb usr a (- 1) ?w = Inr w2"
      using assms(2,7) x False by (auto simp: write_seek_def get_action_def next_answer_def bindE_Inr_iff)
    then show ?thesis using assms by (auto intro: ran_write_called [OF assms(1), of ?w e1])
  qed
qed

lemma write_plain_outcome:
  assumes "benign usr a" "w_actions w1 a = Some e1" "ea_write_cb e1 = Some n"
    "ea_write_op e1 = ea_write_op e" "ea_pending_write e1 = ea_pending_write e" "w_calls w1 = w_calls w"
    "write_plain usr a t w1 = Inr (ret, w')"
  shows "ran_write a n w e ret w'"
proof -
  from assms(2,7) obtain out where o: "run_write (ea_write_op e1) (w_answers w1) False
      (take (t_iov_cnt t) (ea_iov_buffer e1)) (t_iov_cnt t) = Inr out"
    by (auto simp: write_plain_def get_action_def after_io_def bindE_Inr_iff)
  define e2 where "e2 = e1\<lparr>ea_iov_buffer := io_arr out @ drop (t_iov_cnt t) (ea_iov_buffer e1),
               ea_write_offset := UINT64_MAX\<rparr>"
  define w2 where "w2 = set_action a e2 (w1\<lparr>w_answers := io_rest out, w_io := w_io w1 @ io_evs out\<rparr>)"
  have w2: "w_actions w2 a = Some e2" "ea_write_cb e2 = ea_write_cb e1" "ea_write_op e2 = ea_write_op e1"
      "ea_pending_write e2 = ea_pending_write e1" "w_calls w2 = w_calls w1"
    by (simp_all add: w2_def e2_def set_action_def)
  from assms(2,7) o have r: "(if io_flag out \<and> io_ret out = 0 then Inr (INT32_MAX, w2)
        else bindE (call_write_cb usr a (io_ret out) w2) (\<lambda>w. Inr (0, w))) = Inr (ret, w')"
    by (simp add: write_plain_def get_action_def after_io_def w2_def e2_def Let_def split del: if_split cong: if_cong)
  show ?thesis
  proof (cases "io_flag out \<and> io_ret out = 0")
    case True
    then show ?thesis using r w2 assms by (auto simp: ran_write_def)
  next
    case False
    then show ?thesis using r w2 assms by (auto simp: bindE_Inr_iff intro: ran_write_called [OF assms(1), of w2 e2])
  qed
qed

lemma do_write_task_outcome:
  assumes "benign usr a" "w_actions w a = Some e" "ea_write_cb e = Some n"
    "do_write_task usr a t w = Inr (ret, w')"
  shows "ran_write a n w e ret w'"
proof (cases "t_iov_cnt t = 0")
  case True
  then show ?thesis using assms by (auto simp: do_write_task_def bindE_Inr_iff intro: ran_write_called [OF assms(1-3)])
next
  case False
  with assms(4) obtain buf where buf: "t_buffer t = Some buf"
    by (auto simp: do_write_task_def split: option.splits)
  let ?e = "e\<lparr>ea_iov_buffer := copy_iov buf (t_iov_cnt t) (ea_iov_buffer e)\<rparr>"
  let ?w = "set_action a ?e w"
  have w1: "w_actions ?w a = Some ?e" "ea_write_cb ?e = Some n" "ea_write_op ?e = ea_write_op e" "ea_pending_write ?e = ea_pending_write e"
    "w_calls ?w = w_calls w" using assms(3) by (simp_all add: set_action_def)
  from assms(2,4) False buf obtain early w2 where s: "write_seek usr a ?w = Inr (early, w2)"
    and r: "(case early of Some r \<Rightarrow> Inr (r, w2) | None \<Rightarrow> write_plain usr a t w2) = Inr (ret, w')"
    by (auto simp: do_write_task_def get_action_def bindE_Inr_iff)
  from write_seek_outcome [OF assms(1) w1 s] r show ?thesis
    using w1 by (auto split: option.splits intro: write_plain_outcome [OF assms(1), of w2 ?e])
qed


lemma tcp_write_loop_only_blocks: "tcp_write_loop n as res arr p cnt evs = Inl f \<Longrightarrow> f = Blocked"
  by (induction n as res arr p cnt evs rule: tcp_write_loop.induct)
    (force simp: mk_out_def Let_def split: if_splits prod.splits)+

lemma file_write_loop_only_blocks: "file_write_loop as res arr p cnt evs = Inl f \<Longrightarrow> f = Blocked"
  by (induction as res arr p cnt evs rule: file_write_loop.induct)
    (force simp: mk_out_def Let_def split: if_splits prod.splits)+

lemma eventfd_write_loop_only_blocks: "eventfd_write_loop as arr cnt evs = Inl f \<Longrightarrow> f = Blocked"
  by (induction as arr cnt evs rule: eventfd_write_loop.induct)
    (force simp: mk_out_def Let_def split: if_splits)+

lemma udp_write_loop_only_blocks: "udp_write_loop as arr n cur fl res evs = Inl f \<Longrightarrow> f = Blocked"
proof (induction as arbitrary: cur fl res evs)
  case Nil
  then show ?case by (subst (asm) udp_write_loop.simps) (auto simp: mk_out_def Let_def split: if_splits)
next
  case (Cons x as)
  then show ?case
    by (cases x; subst (asm) udp_write_loop.simps) (auto simp: mk_out_def Let_def split: if_splits)
qed

lemma run_write_only_blocks:
  assumes "run_write op as fl arr cnt = Inl f" "op \<noteq> Wr_None" "arr \<noteq> []"
  shows "f = Blocked"
  using assms
  by (auto simp: run_write_def tcp_write_fd_def file_write_fd_def udp_write_fd_def eventfd_write_fd_def
      inotify_write_fd_def signalfd_write_fd_def mk_out_def split: write_op.splits if_splits
      dest: tcp_write_loop_only_blocks file_write_loop_only_blocks eventfd_write_loop_only_blocks
        udp_write_loop_only_blocks)

lemma call_write_cb_ok:
  assumes "benign usr a" "w_actions w a = Some e" "ea_write_cb e = Some n"
  shows "call_write_cb usr a r w \<noteq> Inl f"
  by (rule call_write_cb_benign [OF assms, of r]) simp

lemma write_seek_only_blocks:
  assumes "benign usr a" "w_actions w a = Some e" "ea_write_cb e = Some n" "write_seek usr a w = Inl f"
  shows "f = Blocked"
proof (rule ccontr)
  assume "f \<noteq> Blocked"
  with assms obtain x xs where "w_answers w = SysErr x # xs" "call_write_cb usr a (- 1) (w\<lparr>w_answers := xs\<rparr>) = Inl f"
    by (auto simp: write_seek_def get_action_def next_answer_def bindE_def split: if_splits list.splits sysret.splits sum.splits)
  moreover have "call_write_cb usr a (- 1) (w\<lparr>w_answers := xs\<rparr>) \<noteq> Inl f"
    by (rule call_write_cb_ok [OF assms(1) _ assms(3)]) (simp add: assms(2))
  ultimately show False by simp
qed

lemma write_plain_only_blocks:
  assumes "benign usr a" "w_actions w a = Some e" "ea_write_cb e = Some n" "ea_write_op e \<noteq> Wr_None"
    "take (t_iov_cnt t) (ea_iov_buffer e) \<noteq> []" "write_plain usr a t w = Inl f"
  shows "f = Blocked"
proof (cases "run_write (ea_write_op e) (w_answers w) False (take (t_iov_cnt t) (ea_iov_buffer e)) (t_iov_cnt t)")
  case (Inl g)
  then show ?thesis using run_write_only_blocks [OF Inl assms(4,5)] assms(2,6)
    by (simp add: write_plain_def get_action_def after_io_def)
next
  case (Inr out)
  define e2 where "e2 = e\<lparr>ea_iov_buffer := io_arr out @ drop (t_iov_cnt t) (ea_iov_buffer e),
               ea_write_offset := UINT64_MAX\<rparr>"
  define w2 where "w2 = set_action a e2 (w\<lparr>w_answers := io_rest out, w_io := w_io w @ io_evs out\<rparr>)"
  have "call_write_cb usr a (io_ret out) w2 \<noteq> Inl f"
    using assms(3) by (intro call_write_cb_ok [OF assms(1), of w2 e2 n]) (simp_all add: w2_def e2_def set_action_def)
  moreover from assms(2,6) Inr have "(if io_flag out \<and> io_ret out = 0 then Inr (INT32_MAX, w2)
        else bindE (call_write_cb usr a (io_ret out) w2) (\<lambda>w. Inr (0, w))) = Inl f"
    by (simp add: write_plain_def get_action_def after_io_def w2_def e2_def Let_def split del: if_split cong: if_cong)
  ultimately show ?thesis by (auto simp: bindE_def split: if_splits sum.splits)
qed

lemma do_write_task_only_blocks:
  assumes "benign usr a" "w_actions w a = Some e" "ea_write_cb e = Some n" "ea_write_op e \<noteq> Wr_None" "task_ok t"
    "do_write_task usr a t w = Inl f"
  shows "f = Blocked"
proof (cases "t_iov_cnt t = 0")
  case True
  then show ?thesis using assms call_write_cb_ok [OF assms(1-3), of 0]
    by (auto simp: do_write_task_def bindE_def split: sum.splits)
next
  case False
  then obtain buf where buf: "t_buffer t = Some buf" "buf \<noteq> []"
    using assms(5) by (auto simp: task_ok_def split: option.splits)
  let ?e = "e\<lparr>ea_iov_buffer := copy_iov buf (t_iov_cnt t) (ea_iov_buffer e)\<rparr>"
  let ?w = "set_action a ?e w"
  have w1: "w_actions ?w a = Some ?e" "ea_write_cb ?e = Some n" using assms(3) by (simp_all add: set_action_def)
  have seek: "write_seek usr a ?w = Inl g \<Longrightarrow> g = Blocked" for g
    using write_seek_only_blocks [OF assms(1) w1] .
  have ne: "take (t_iov_cnt t) (ea_iov_buffer ?e) \<noteq> []" using buf(2) False by (simp add: copy_iov_def)
  have plain: "write_seek usr a ?w = Inr (None, w2) \<Longrightarrow> write_plain usr a t w2 = Inl g \<Longrightarrow> g = Blocked" for w2 g
    using write_seek_outcome [OF assms(1) w1 refl refl refl, of None w2] w1(2) assms(4) ne
      write_plain_only_blocks [OF assms(1), of w2 ?e n t g] by simp
  have "bindE (write_seek usr a ?w) (\<lambda>(early, w). case early of Some r \<Rightarrow> Inr (r, w) | None \<Rightarrow> write_plain usr a t w) = Inl f"
    using assms(2,6) False buf by (simp add: do_write_task_def get_action_def)
  then show ?thesis using seek plain
    by (cases "write_seek usr a ?w") (auto split: option.splits)
qed
subsection \<open>Read tasks\<close>

lemma call_read_cb_benign:
  assumes "benign usr a" "w_actions w a = Some e" "ea_read_cb e = Some (Cb_user n)"
  obtains w' rs ws where "call_read_cb usr a r iov cnt d w = Inr w'"
    "w_calls w' = w_calls w @ [Read_Called n r iov cnt d]"
    "w_actions w' a = Some (e\<lparr>ea_pending_read := ea_pending_read e @ rs,
                              ea_pending_write := ea_pending_write e @ ws\<rparr>)"
proof -
  let ?c = "Read_Called n r iov cnt d"
  have "w_actions (log_call ?c w) a = Some e" using assms(2) by (simp add: log_call_def)
  then obtain w' rs ws where "usr ?c (log_call ?c w) = Inr w'" "w_calls w' = w_calls (log_call ?c w)"
    "w_actions w' a = Some (e\<lparr>ea_pending_read := ea_pending_read e @ rs,
                              ea_pending_write := ea_pending_write e @ ws\<rparr>)"
    using assms(1) unfolding benign_def by blast
  then show thesis using assms(2,3) that
    by (simp add: call_read_cb_def get_action_def log_call_def)
qed

lemma ran_read_called:
  assumes "benign usr a" "w_actions w1 a = Some e1" "ea_read_cb e1 = Some (Cb_user n)"
    "fd_type (ea_fd e1) = fd_type (ea_fd e)" "ea_read_op e1 = ea_read_op e"
    "ea_pending_read e1 = ea_pending_read e" "w_calls w1 = w_calls w"
    "call_read_cb usr a r (t_buffer t) (t_iov_cnt t) False w1 = Inr w'"
  shows "ran_read a n t w e 0 w'"
proof -
  from assms(1-3) obtain w2 rs ws where "call_read_cb usr a r (t_buffer t) (t_iov_cnt t) False w1 = Inr w2"
    "w_calls w2 = w_calls w1 @ [Read_Called n r (t_buffer t) (t_iov_cnt t) False]"
    "w_actions w2 a = Some (e1\<lparr>ea_pending_read := ea_pending_read e1 @ rs,
                              ea_pending_write := ea_pending_write e1 @ ws\<rparr>)"
    by (rule call_read_cb_benign)
  then show ?thesis using assms(3-8) by (auto simp: ran_read_def)
qed

lemma read_seek_outcome:
  assumes "benign usr a" "w_actions w1 a = Some e1" "ea_read_cb e1 = Some (Cb_user n)"
    "fd_type (ea_fd e1) = fd_type (ea_fd e)" "ea_read_op e1 = ea_read_op e"
    "ea_pending_read e1 = ea_pending_read e" "w_calls w1 = w_calls w"
    "read_seek usr a t w1 = Inr (early, w')"
  shows "case early of
           None \<Rightarrow> (\<exists>off. w_actions w' a = Some (e1\<lparr>ea_read_offset := off\<rparr>)) \<and> w_calls w' = w_calls w
         | Some r \<Rightarrow> ran_read a n t w e r w'"
proof (cases "fd_type (ea_fd e1) = FILE_FD \<and> ea_read_offset e1 \<noteq> UINT64_MAX")
  case False
  with assms(2,8) have "early = None" "w' = w1" by (auto simp: read_seek_def get_action_def)
  then show ?thesis using assms by (auto intro!: exI [of _ "ea_read_offset e1"])
next
  case True
  with assms(2,8) obtain x xs where x: "w_answers w1 = x # xs"
    by (auto simp: read_seek_def get_action_def next_answer_def split: list.splits)
  let ?w = "w1\<lparr>w_answers := xs\<rparr>"
  show ?thesis
  proof (cases x)
    case (SysOk r ls)
    then show ?thesis using assms x True by (auto simp: read_seek_def get_action_def next_answer_def set_action_def)
  next
    case (SysErr er)
    then obtain w2 where "early = Some 0" "w' = w2"
        "call_read_cb usr a (- 1) (t_buffer t) (t_iov_cnt t) False ?w = Inr w2"
      using assms(2,8) x True by (auto simp: read_seek_def get_action_def next_answer_def bindE_Inr_iff)
    then show ?thesis using assms by (auto intro: ran_read_called [OF assms(1), of ?w e1])
  qed
qed

lemma read_plain_outcome:
  assumes "benign usr a" "w_actions w1 a = Some e1" "ea_read_cb e1 = Some (Cb_user n)"
    "fd_type (ea_fd e1) = fd_type (ea_fd e)" "ea_read_op e1 = ea_read_op e"
    "ea_pending_read e1 = ea_pending_read e" "w_calls w1 = w_calls w"
    "read_plain usr a t trig w1 = Inr (ret, w')"
  shows "ran_read a n t w e ret w'"
proof -
  from assms(2,8) obtain out where o: "run_read (ea_read_op e1) (w_answers w1) False
      (take (t_iov_cnt t) (ea_iov_buffer e1)) (t_iov_cnt t) C_Null = Inr out"
    by (auto simp: read_plain_def get_action_def after_io_def bindE_Inr_iff)
  define e2 where "e2 = (let e = e1\<lparr>ea_iov_buffer := io_arr out @ drop (t_iov_cnt t) (ea_iov_buffer e1)\<rparr>
                         in if io_flag out then e\<lparr>ea_readable := False\<rparr> else e)"
  define w2 where "w2 = set_action a e2 (w1\<lparr>w_answers := io_rest out, w_io := w_io w1 @ io_evs out\<rparr>)"
  have w2: "w_actions w2 a = Some e2" "ea_read_cb e2 = Some (Cb_user n)" "fd_type (ea_fd e2) = fd_type (ea_fd e)" "ea_read_op e2 = ea_read_op e"
      "ea_pending_read e2 = ea_pending_read e" "w_calls w2 = w_calls w"
    using assms by (simp_all add: w2_def e2_def set_action_def Let_def)
  from assms(2,8) o have r: "(if io_flag out \<and> \<not> trig \<and> io_ret out = 0 then Inr (INT32_MAX, w2)
        else bindE (call_read_cb usr a (io_ret out) (t_buffer t) (t_iov_cnt t) False w2) (\<lambda>w. Inr (0, w))) = Inr (ret, w')"
    by (simp add: read_plain_def get_action_def after_io_def w2_def e2_def Let_def split del: if_split cong: if_cong)
  show ?thesis
  proof (cases "io_flag out \<and> \<not> trig \<and> io_ret out = 0")
    case True
    then show ?thesis using r w2 by (auto simp: ran_read_def)
  next
    case False
    with r have "ret = 0" "call_read_cb usr a (io_ret out) (t_buffer t) (t_iov_cnt t) False w2 = Inr w'"
      by (auto simp: bindE_Inr_iff split: if_splits)
    then show ?thesis using ran_read_called [OF assms(1) w2] by simp
  qed
qed

lemma do_read_task_outcome:
  assumes "benign usr a" "w_actions w a = Some e" "ea_read_cb e = Some (Cb_user n)" "fd_type (ea_fd e) \<noteq> UDP_FD"
    "do_read_task usr a t trig w = Inr (ret, w')"
  shows "ran_read a n t w e ret w'"
proof (cases "t_iov_cnt t = 0")
  case True
  then show ?thesis using assms by (auto simp: do_read_task_def bindE_Inr_iff intro: ran_read_called [OF assms(1-3)])
next
  case False
  with assms(5) obtain buf where buf: "t_buffer t = Some buf"
    by (auto simp: do_read_task_def split: option.splits)
  let ?e = "e\<lparr>ea_iov_buffer := copy_iov buf (t_iov_cnt t) (ea_iov_buffer e)\<rparr>"
  let ?w = "set_action a ?e w"
  have w1: "w_actions ?w a = Some ?e" "ea_read_cb ?e = Some (Cb_user n)" "fd_type (ea_fd ?e) = fd_type (ea_fd e)"
    "ea_read_op ?e = ea_read_op e" "ea_pending_read ?e = ea_pending_read e" "w_calls ?w = w_calls w" using assms(3) by (simp_all add: set_action_def)
  from assms(2,4,5) False buf obtain early w2 where s: "read_seek usr a t ?w = Inr (early, w2)"
    and r: "(case early of Some r \<Rightarrow> Inr (r, w2) | None \<Rightarrow> read_plain usr a t trig w2) = Inr (ret, w')"
    by (auto simp: do_read_task_def get_action_def bindE_Inr_iff cong: option.case_cong)
  note so = read_seek_outcome [OF assms(1) w1 s]
  show ?thesis
  proof (cases early)
    case None
    with so obtain off where o: "w_actions w2 a = Some (?e\<lparr>ea_read_offset := off\<rparr>)" "w_calls w2 = w_calls w" by auto
    from None r have "read_plain usr a t trig w2 = Inr (ret, w')" by simp
    then show ?thesis using o w1 by (intro read_plain_outcome [OF assms(1) o(1)]) simp_all
  next
    case (Some x)
    then show ?thesis using so r by simp
  qed
qed

lemma left_over_simps [simp]:
  "left_over [] rs = []" "left_over (t # ts) (None # rs) = t # left_over ts rs"
  "left_over (t # ts) (Some r # rs) = left_over ts rs"
  by (simp_all add: left_over_def)

lemma write_calls_simps [simp]:
  "write_calls n [] = []" "write_calls n (None # rs) = write_calls n rs"
  "write_calls n (Some r # rs) = Write_Called n r # write_calls n rs"
  by (simp_all add: write_calls_def)

lemma write_round:
  assumes "benign usr a" "w_actions w a = Some e" "ea_write_cb e = Some n" "ea_pending_write e = ts @ qs"
    "write_tasks_loop usr a (length ts) w = Inr w'"
  shows "\<exists>rs zs e'. length rs = length ts \<and> w_calls w' = w_calls w @ write_calls n rs \<and>
    w_actions w' a = Some e' \<and> ea_write_cb e' = Some n \<and> ea_pending_write e' = qs @ zs \<and> subseq (left_over ts rs) zs"
  using assms(2-)
proof (induction ts arbitrary: w e qs)
  case Nil
  then show ?case by auto
next
  case (Cons t ts)
  from Cons.prems obtain ret w1 e1 where t: "do_write_task usr a t w = Inr (ret, w1)"
    and e1: "w_actions w1 a = Some e1"
    and l: "(let e = (if ret = INT32_MAX then e1\<lparr>ea_writable := False\<rparr> else e1);
             q = ea_pending_write e @ (if ret = INT32_MAX then [t] else [])
         in if q = [] then Inl Empty_Deque
            else write_tasks_loop usr a (length ts) (set_action a (e\<lparr>ea_pending_write := tl q\<rparr>) w1)) = Inr w'"
    by (fastforce simp: get_action_def bindE_Inr_iff Let_def split: option.splits)
  from do_write_task_outcome [OF assms(1) Cons.prems(1,2) t] e1
  consider (blocked) "ret = INT32_MAX" "w_calls w1 = w_calls w" "ea_pending_write e1 = t # ts @ qs" "ea_write_cb e1 = Some n"
    | (ran) r ws where "ret = 0" "w_calls w1 = w_calls w @ [Write_Called n r]" "ea_pending_write e1 = t # ts @ qs @ ws" "ea_write_cb e1 = Some n"
    using Cons.prems(3) by (auto simp: ran_write_def)
  then show ?case
  proof cases
    case blocked
    let ?e = "e1\<lparr>ea_writable := False, ea_pending_write := ts @ qs @ [t]\<rparr>"
    have w: "w_actions (set_action a ?e w1) a = Some ?e" "ea_write_cb ?e = Some n" "ea_pending_write ?e = ts @ (qs @ [t])"
      "write_tasks_loop usr a (length ts) (set_action a ?e w1) = Inr w'"
      using l blocked by (simp_all add: set_action_def)
    from Cons.IH [OF w] obtain rs zs e' where "length rs = length ts"
      "w_calls w' = w_calls w @ write_calls n rs" "w_actions w' a = Some e'" "ea_write_cb e' = Some n"
      "ea_pending_write e' = qs @ [t] @ zs" "subseq (left_over ts rs) zs"
      using blocked by (auto simp: set_action_def)
    then show ?thesis by (intro exI [of _ "None # rs"] exI [of _ "t # zs"] exI [of _ e']) auto
  next
    case ran
    let ?e = "e1\<lparr>ea_pending_write := ts @ qs @ ws\<rparr>"
    have "ret \<noteq> INT32_MAX" using ran(1) by (simp add: INT32_MAX_def)
    with l ran have w: "w_actions (set_action a ?e w1) a = Some ?e" "ea_write_cb ?e = Some n" "ea_pending_write ?e = ts @ (qs @ ws)"
      "write_tasks_loop usr a (length ts) (set_action a ?e w1) = Inr w'"
      by (simp_all add: set_action_def)
    from Cons.IH [OF w] obtain rs zs e' where "length rs = length ts"
      "w_calls w' = w_calls w @ [Write_Called n r] @ write_calls n rs" "w_actions w' a = Some e'" "ea_write_cb e' = Some n"
      "ea_pending_write e' = qs @ ws @ zs" "subseq (left_over ts rs) zs"
      using ran by (auto simp: set_action_def)
    then show ?thesis by (intro exI [of _ "Some r # rs"] exI [of _ "ws @ zs"] exI [of _ e']) auto
  qed
qed


lemma write_round_only_blocks:
  assumes "benign usr a" "w_actions w a = Some e" "ea_write_cb e = Some n" "ea_pending_write e = ts @ qs"
    "ea_write_op e \<noteq> Wr_None" "list_all task_ok ts" "write_tasks_loop usr a (length ts) w = Inl f"
  shows "f = Blocked"
  using assms(2-)
proof (induction ts arbitrary: w e qs)
  case (Cons t ts)
  show ?case
  proof (cases "do_write_task usr a t w")
    case (Inl g)
    then have "g = Blocked" using Cons.prems by (intro do_write_task_only_blocks [OF assms(1)]) auto
    then show ?thesis using Cons.prems Inl by (simp add: get_action_def)
  next
    case (Inr x)
    obtain ret w1 where t: "do_write_task usr a t w = Inr (ret, w1)" using Inr by (cases x) simp
    from do_write_task_outcome [OF assms(1) Cons.prems(1,2) t] Cons.prems(3)
    obtain e1 zs where e1: "w_actions w1 a = Some e1" "ea_write_cb e1 = Some n" "ea_write_op e1 = ea_write_op e"
      "ea_pending_write e1 @ (if ret = INT32_MAX then [t] else []) = t # ts @ zs"
      by (fastforce simp: ran_write_def INT32_MAX_def)
    let ?e = "(if ret = INT32_MAX then e1\<lparr>ea_writable := False\<rparr> else e1)\<lparr>ea_pending_write := ts @ zs\<rparr>"
    have "write_tasks_loop usr a (length ts) (set_action a ?e w1) = Inl f"
      using Cons.prems(1,3,6) t e1 by (simp add: get_action_def Let_def split: if_splits)
    then show ?thesis using e1 Cons.prems
      by (intro Cons.IH [of "set_action a ?e w1" ?e zs]) (auto simp: set_action_def)
  qed
qed simp

lemma read_calls_simps [simp]:
  "read_calls n [] rs = []" "read_calls n (t # ts) (None # rs) = read_calls n ts rs"
  "read_calls n (t # ts) (Some v # rs) = Read_Called n v (t_buffer t) (t_iov_cnt t) False # read_calls n ts rs"
  by (simp_all add: read_calls_def)

lemma read_round:
  assumes "benign usr a" "w_actions w a = Some e" "ea_read_cb e = Some (Cb_user n)" "fd_type (ea_fd e) \<noteq> UDP_FD"
    "ea_pending_read e = ts @ qs" "read_tasks_loop usr a trig (length ts) w = Inr w'"
  shows "\<exists>rs zs e'. length rs = length ts \<and> w_calls w' = w_calls w @ read_calls n ts rs \<and>
    w_actions w' a = Some e' \<and> ea_pending_read e' = qs @ zs \<and> subseq (left_over ts rs) zs"
  using assms(2-)
proof (induction ts arbitrary: w e qs)
  case Nil
  then show ?case by auto
next
  case (Cons t ts)
  from Cons.prems obtain ret w1 e1 where t: "do_read_task usr a t trig w = Inr (ret, w1)"
    and e1: "w_actions w1 a = Some e1"
    and l: "(let q = ea_pending_read e1 @ (if ret = INT32_MAX then [t] else [])
         in if q = [] then Inl Empty_Deque
            else read_tasks_loop usr a trig (length ts) (set_action a (e1\<lparr>ea_pending_read := tl q\<rparr>) w1)) = Inr w'"
    by (fastforce simp: get_action_def bindE_Inr_iff Let_def split: option.splits)
  from do_read_task_outcome [OF assms(1) Cons.prems(1-3) t] e1 Cons.prems(3,4)
  have keep: "ea_read_cb e1 = Some (Cb_user n)" "fd_type (ea_fd e1) \<noteq> UDP_FD" and
    alt: "(ret = INT32_MAX \<and> w_calls w1 = w_calls w \<and> ea_pending_read e1 = t # ts @ qs) \<or>
     (\<exists>r ws. ret = 0 \<and> w_calls w1 = w_calls w @ [Read_Called n r (t_buffer t) (t_iov_cnt t) False] \<and>
        ea_pending_read e1 = t # ts @ qs @ ws)"
    by (auto simp: ran_read_def)
  from alt consider (blocked) "ret = INT32_MAX" "w_calls w1 = w_calls w" "ea_pending_read e1 = t # ts @ qs"
    | (ran) r ws where "ret = 0" "w_calls w1 = w_calls w @ [Read_Called n r (t_buffer t) (t_iov_cnt t) False]"
        "ea_pending_read e1 = t # ts @ qs @ ws"
    by blast
  then show ?case
  proof cases
    case blocked
    let ?e = "e1\<lparr>ea_pending_read := ts @ qs @ [t]\<rparr>"
    have w: "w_actions (set_action a ?e w1) a = Some ?e" "ea_read_cb ?e = Some (Cb_user n)"
      "fd_type (ea_fd ?e) \<noteq> UDP_FD" "ea_pending_read ?e = ts @ (qs @ [t])"
      "read_tasks_loop usr a trig (length ts) (set_action a ?e w1) = Inr w'"
      using l blocked keep by (simp_all add: set_action_def)
    from Cons.IH [OF w] obtain rs zs e' where "length rs = length ts"
      "w_calls w' = w_calls w @ read_calls n ts rs" "w_actions w' a = Some e'"
      "ea_pending_read e' = qs @ [t] @ zs" "subseq (left_over ts rs) zs"
      using blocked by (auto simp: set_action_def)
    then show ?thesis by (intro exI [of _ "None # rs"] exI [of _ "t # zs"] exI [of _ e']) auto
  next
    case ran
    let ?e = "e1\<lparr>ea_pending_read := ts @ qs @ ws\<rparr>"
    have "ret \<noteq> INT32_MAX" using ran(1) by (simp add: INT32_MAX_def)
    with l ran keep have w: "w_actions (set_action a ?e w1) a = Some ?e" "ea_read_cb ?e = Some (Cb_user n)"
      "fd_type (ea_fd ?e) \<noteq> UDP_FD" "ea_pending_read ?e = ts @ (qs @ ws)"
      "read_tasks_loop usr a trig (length ts) (set_action a ?e w1) = Inr w'"
      by (simp_all add: set_action_def)
    from Cons.IH [OF w] obtain rs zs e' where "length rs = length ts"
      "w_calls w' = w_calls w @ [Read_Called n r (t_buffer t) (t_iov_cnt t) False] @ read_calls n ts rs"
      "w_actions w' a = Some e'" "ea_pending_read e' = qs @ ws @ zs" "subseq (left_over ts rs) zs"
      using ran by (auto simp: set_action_def)
    then show ?thesis by (intro exI [of _ "Some r # rs"] exI [of _ "ws @ zs"] exI [of _ e']) auto
  qed
qed


lemma tcp_read_loop_only_blocks: "tcp_read_loop n as res arr p cnt evs = Inl f \<Longrightarrow> f = Blocked"
  by (induction n as res arr p cnt evs rule: tcp_read_loop.induct)
    (force simp: mk_out_def Let_def split: if_splits prod.splits)+

lemma file_read_loop_only_blocks: "file_read_loop as res arr p cnt evs = Inl f \<Longrightarrow> f = Blocked"
  by (induction as res arr p cnt evs rule: file_read_loop.induct)
    (force simp: mk_out_def Let_def split: if_splits prod.splits)+

lemma inotify_read_loop_only_blocks: "inotify_read_loop as res arr p cnt evs = Inl f \<Longrightarrow> f = Blocked"
  by (induction as res arr p cnt evs rule: inotify_read_loop.induct)
    (force simp: mk_out_def Let_def split: if_splits prod.splits)+

lemma fixed_read_loop_only_blocks: "fixed_read_loop n as arr cnt evs = Inl f \<Longrightarrow> f = Blocked"
  by (induction n as arr cnt evs rule: fixed_read_loop.induct)
    (force simp: mk_out_def Let_def split: if_splits)+

lemma run_read_only_blocks:
  assumes "run_read op as fl arr cnt c = Inl f" "op \<in> {Rd_TCP, Rd_FILE, Rd_INOTIFY, Rd_EVENT, Rd_SIGNAL}" "arr \<noteq> []"
  shows "f = Blocked"
  using assms
  by (auto simp: run_read_def tcp_read_fd_def file_read_fd_def inotify_read_fd_def eventfd_read_fd_def
      signalfd_read_fd_def mk_out_def split: if_splits
      dest: tcp_read_loop_only_blocks file_read_loop_only_blocks inotify_read_loop_only_blocks
        fixed_read_loop_only_blocks)

lemma call_read_cb_ok:
  assumes "benign usr a" "w_actions w a = Some e" "ea_read_cb e = Some (Cb_user n)"
  shows "call_read_cb usr a r iov cnt d w \<noteq> Inl f"
  by (rule call_read_cb_benign [OF assms, of r iov cnt d]) simp

lemma read_seek_only_blocks:
  assumes "benign usr a" "w_actions w a = Some e" "ea_read_cb e = Some (Cb_user n)" "read_seek usr a t w = Inl f"
  shows "f = Blocked"
proof (rule ccontr)
  assume "f \<noteq> Blocked"
  with assms obtain x xs where "w_answers w = SysErr x # xs"
      "call_read_cb usr a (- 1) (t_buffer t) (t_iov_cnt t) False (w\<lparr>w_answers := xs\<rparr>) = Inl f"
    by (auto simp: read_seek_def get_action_def next_answer_def bindE_def split: if_splits list.splits sysret.splits sum.splits)
  moreover have "call_read_cb usr a (- 1) (t_buffer t) (t_iov_cnt t) False (w\<lparr>w_answers := xs\<rparr>) \<noteq> Inl f"
    by (rule call_read_cb_ok [OF assms(1) _ assms(3)]) (simp add: assms(2))
  ultimately show False by simp
qed

lemma read_plain_only_blocks:
  assumes "benign usr a" "w_actions w a = Some e" "ea_read_cb e = Some (Cb_user n)"
    "ea_read_op e \<in> {Rd_TCP, Rd_FILE, Rd_INOTIFY, Rd_EVENT, Rd_SIGNAL}"
    "take (t_iov_cnt t) (ea_iov_buffer e) \<noteq> []" "read_plain usr a t trig w = Inl f"
  shows "f = Blocked"
proof (cases "run_read (ea_read_op e) (w_answers w) False (take (t_iov_cnt t) (ea_iov_buffer e)) (t_iov_cnt t) C_Null")
  case (Inl g)
  then show ?thesis using run_read_only_blocks [OF Inl assms(4,5)] assms(2,6)
    by (simp add: read_plain_def get_action_def after_io_def)
next
  case (Inr out)
  define e2 where "e2 = (let e = e\<lparr>ea_iov_buffer := io_arr out @ drop (t_iov_cnt t) (ea_iov_buffer e)\<rparr>
                         in if io_flag out then e\<lparr>ea_readable := False\<rparr> else e)"
  define w2 where "w2 = set_action a e2 (w\<lparr>w_answers := io_rest out, w_io := w_io w @ io_evs out\<rparr>)"
  have "call_read_cb usr a (io_ret out) (t_buffer t) (t_iov_cnt t) False w2 \<noteq> Inl f"
    using assms(3) by (intro call_read_cb_ok [OF assms(1), of w2 e2 n]) (simp_all add: w2_def e2_def set_action_def Let_def)
  moreover from assms(2,6) Inr have "(if io_flag out \<and> \<not> trig \<and> io_ret out = 0 then Inr (INT32_MAX, w2)
        else bindE (call_read_cb usr a (io_ret out) (t_buffer t) (t_iov_cnt t) False w2) (\<lambda>w. Inr (0, w))) = Inl f"
    by (simp add: read_plain_def get_action_def after_io_def w2_def e2_def Let_def split del: if_split cong: if_cong)
  ultimately show ?thesis by (auto simp: bindE_def split: if_splits sum.splits)
qed

lemma do_read_task_only_blocks:
  assumes "benign usr a" "w_actions w a = Some e" "ea_read_cb e = Some (Cb_user n)" "fd_type (ea_fd e) \<noteq> UDP_FD"
    "ea_read_op e \<in> {Rd_TCP, Rd_FILE, Rd_INOTIFY, Rd_EVENT, Rd_SIGNAL}" "task_ok t"
    "do_read_task usr a t trig w = Inl f"
  shows "f = Blocked"
proof (cases "t_iov_cnt t = 0")
  case True
  then show ?thesis using assms call_read_cb_ok [OF assms(1-3), of 0 "t_buffer t" 0 False]
    by (auto simp: do_read_task_def bindE_def split: sum.splits)
next
  case False
  then obtain buf where buf: "t_buffer t = Some buf" "buf \<noteq> []"
    using assms(6) by (auto simp: task_ok_def split: option.splits)
  let ?e = "e\<lparr>ea_iov_buffer := copy_iov buf (t_iov_cnt t) (ea_iov_buffer e)\<rparr>"
  let ?w = "set_action a ?e w"
  have w1: "w_actions ?w a = Some ?e" "ea_read_cb ?e = Some (Cb_user n)" using assms(3) by (simp_all add: set_action_def)
  have seek: "read_seek usr a t ?w = Inl g \<Longrightarrow> g = Blocked" for g
    using read_seek_only_blocks [OF assms(1) w1] .
  have ne: "take (t_iov_cnt t) (ea_iov_buffer ?e) \<noteq> []" using buf(2) False by (simp add: copy_iov_def)
  have plain: "g = Blocked" if s: "read_seek usr a t ?w = Inr (None, w2)" and p: "read_plain usr a t trig w2 = Inl g" for w2 g
  proof -
    from read_seek_outcome [OF assms(1) w1 refl refl refl refl s]
    obtain off where o: "w_actions w2 a = Some (?e\<lparr>ea_read_offset := off\<rparr>)" by auto
    show ?thesis using w1(2) assms(5) ne p by (intro read_plain_only_blocks [OF assms(1) o]) simp_all
  qed
  have "bindE (read_seek usr a t ?w) (\<lambda>(early, w). case early of Some r \<Rightarrow> Inr (r, w) | None \<Rightarrow> read_plain usr a t trig w) = Inl f"
    using assms(2,4,7) False buf by (simp add: do_read_task_def get_action_def cong: option.case_cong)
  then show ?thesis using seek plain
    by (cases "read_seek usr a t ?w") (auto split: option.splits)
qed

lemma read_round_only_blocks:
  assumes "benign usr a" "w_actions w a = Some e" "ea_read_cb e = Some (Cb_user n)" "ea_pending_read e = ts @ qs"
    "fd_type (ea_fd e) \<noteq> UDP_FD" "ea_read_op e \<in> {Rd_TCP, Rd_FILE, Rd_INOTIFY, Rd_EVENT, Rd_SIGNAL}"
    "list_all task_ok ts" "read_tasks_loop usr a trig (length ts) w = Inl f"
  shows "f = Blocked"
  using assms(2-)
proof (induction ts arbitrary: w e qs)
  case (Cons t ts)
  show ?case
  proof (cases "do_read_task usr a t trig w")
    case (Inl g)
    then have "g = Blocked" using Cons.prems by (intro do_read_task_only_blocks [OF assms(1)]) auto
    then show ?thesis using Cons.prems Inl by (simp add: get_action_def)
  next
    case (Inr x)
    obtain ret w1 where t: "do_read_task usr a t trig w = Inr (ret, w1)" using Inr by (cases x) simp
    from do_read_task_outcome [OF assms(1) Cons.prems(1,2,4) t] Cons.prems(3)
    obtain e1 zs where e1: "w_actions w1 a = Some e1" "ea_read_cb e1 = Some (Cb_user n)" "ea_read_op e1 = ea_read_op e"
      "fd_type (ea_fd e1) = fd_type (ea_fd e)"
      "ea_pending_read e1 @ (if ret = INT32_MAX then [t] else []) = t # ts @ zs"
      by (fastforce simp: ran_read_def INT32_MAX_def)
    let ?e = "e1\<lparr>ea_pending_read := ts @ zs\<rparr>"
    have "read_tasks_loop usr a trig (length ts) (set_action a ?e w1) = Inl f"
      using Cons.prems(1,3,7) t e1 by (simp add: get_action_def Let_def split: if_splits)
    then show ?thesis using e1 Cons.prems
      by (intro Cons.IH [of "set_action a ?e w1" ?e zs]) (auto simp: set_action_def)
  qed
qed simp

subsection \<open>Cancellation and multishot reads\<close>

lemma set_fd_ops_keeps:
  assumes "set_fd_ops ty e = Inr e'"
  shows "ea_pending_read e' = ea_pending_read e" "ea_nonsub_read e' = ea_nonsub_read e" "ea_read_cb e' = ea_read_cb e"
    "ea_multi e' = ea_multi e" "ea_events e' = ea_events e" "ea_fd e' = ea_fd e" "ea_mm_multi e' = ea_mm_multi e"
    "ea_has_accept e' = ea_has_accept e" "ea_pending_write e' = ea_pending_write e"
    "ea_nonsub_write e' = ea_nonsub_write e" "ea_write_cb e' = ea_write_cb e"
  using assms by (auto simp: set_fd_ops_def split: FD_TYPE.splits)

lemma clear_multishot_keeps:
  assumes "clear_multishot_task a w = Inr w'" "w_actions w a = Some e"
  obtains e' where "w_actions w' a = Some e'" "ea_multi e' = None" "ea_pending_read e' = ea_pending_read e"
    "ea_nonsub_read e' = ea_nonsub_read e" "ea_read_cb e' = ea_read_cb e" "ea_events e' = ea_events e"
    "ea_pending_write e' = ea_pending_write e" "ea_write_cb e' = ea_write_cb e" "ea_fd e' = ea_fd e"
    "w_calls w' = w_calls w" "w_answers w' = w_answers w"
proof (cases "ea_multi e")
  case None
  then show thesis using assms that by (simp add: clear_multishot_task_def get_action_def)
next
  case (Some t)
  let ?e = "e\<lparr>ea_multi := None, ea_mm_multi := (if ea_mm_multi e = Null then Null else Dangling)\<rparr>"
  from assms Some obtain w1 e1 where u: "ring_unregister_fd (mt_ring t) (fd_key (ea_fd e)) w = Inr w1"
    and e1: "set_fd_ops (fd_type (ea_fd e)) ?e = Inr e1" and w': "w' = set_action a e1 w1"
    by (cases "ea_mm_multi e = Dangling") (auto simp: clear_multishot_task_def get_action_def bindE_Inr_iff Let_def)
  have "w_calls w1 = w_calls w" "w_answers w1 = w_answers w"
    using u by (auto simp: ring_unregister_fd_def set_ring_def bindE_Inr_iff)
  then show thesis using w' set_fd_ops_keeps [OF e1]
    by (intro that [of e1]) (simp_all add: set_action_def)
qed

lemma disable_read_clears:
  assumes "disable_read a w = Inr w'"
  obtains e' where "w_actions w' a = Some e'" "ea_pending_read e' = []" "ea_nonsub_read e' = []" "ea_read_cb e' = None"
    "ea_multi e' = None" "\<not> ea_has_accept e'" "\<not> is_reading e'" "w_calls w' = w_calls w" "w_answers w' = w_answers w"
proof -
  from assms obtain e where e: "w_actions w a = Some e"
    by (auto simp: disable_read_def get_action_def bindE_Inr_iff split: option.splits)
  let ?e = "e\<lparr>ea_events := ea_events e AND NOT read_event, ea_read_cb := None,
                            ea_pending_read := [], ea_nonsub_read := []\<rparr>"
  from assms e obtain w1 e1 where c: "clear_multishot_task a (set_action a ?e w) = Inr w1"
    and e1: "w_actions w1 a = Some e1" and w': "w' = set_action a (e1\<lparr>ea_has_accept := False\<rparr>) w1"
    by (auto simp: disable_read_def get_action_def bindE_Inr_iff Let_def split: option.splits)
  have "w_actions (set_action a ?e w) a = Some ?e" by (simp add: set_action_def)
  from clear_multishot_keeps [OF c this] e1
  have f: "ea_multi e1 = None" "ea_pending_read e1 = []" "ea_nonsub_read e1 = []" "ea_read_cb e1 = None"
    "ea_events e1 = ea_events e AND NOT read_event" "w_calls w1 = w_calls w" "w_answers w1 = w_answers w"
    by (auto simp: set_action_def elim: clear_multishot_keeps [OF c])
  have "(ea_events e AND NOT read_event) AND read_event = 0"
    by (auto intro!: bit_eqI simp: bit_simps)
  then show thesis using f w'
    by (intro that [of "e1\<lparr>ea_has_accept := False\<rparr>"]) (auto simp: set_action_def is_reading_def)
qed

lemma call_read_cb_usr:
  assumes "call_read_cb usr a r iov cnt d w = Inr w'"
  shows "ends_in_usr usr w'"
proof -
  from assms obtain e cb where e: "get_action a w = Inr e" "ea_read_cb e = Some cb"
    by (auto simp: call_read_cb_def bindE_Inr_iff split: option.splits)
  show ?thesis
  proof (cases cb)
    case (Cb_user n)
    then show ?thesis using assms e by (auto simp: call_read_cb_def Let_def ends_in_usr_def)
  next
    case (Cb_accept n b)
    then show ?thesis using assms e by (cases b) (auto simp: call_read_cb_def Let_def ends_in_usr_def)
  qed
qed

lemma read_plain_completed:
  assumes "read_plain usr a t trig w = Inr (0, w')"
  shows "ends_in_usr usr w'"
proof -
  have "(0 :: int) \<noteq> INT32_MAX" by (simp add: INT32_MAX_def)
  with assms obtain r w1 where "call_read_cb usr a r (t_buffer t) (t_iov_cnt t) False w1 = Inr w'"
    by (auto simp: read_plain_def bindE_Inr_iff Let_def split: if_splits)
  then show ?thesis by (rule call_read_cb_usr)
qed

lemma read_seek_completed:
  assumes "read_seek usr a t w = Inr (Some r, w')"
  shows "ends_in_usr usr w'"
proof -
  from assms obtain w1 where "call_read_cb usr a (- 1) (t_buffer t) (t_iov_cnt t) False w1 = Inr w'"
    by (auto simp: read_seek_def bindE_Inr_iff split: if_splits sysret.splits) (metis sysret.exhaust)
  then show ?thesis by (rule call_read_cb_usr)
qed

lemma do_read_task_completed:
  assumes "do_read_task usr a t trig w = Inr (0, w')" "w_actions w a = Some e" "fd_type (ea_fd e) \<noteq> UDP_FD"
  shows "ends_in_usr usr w'"
proof (cases "t_iov_cnt t = 0")
  case True
  with assms show ?thesis by (auto simp: do_read_task_def bindE_Inr_iff intro: call_read_cb_usr)
next
  case False
  with assms(1) obtain buf where buf: "t_buffer t = Some buf"
    by (auto simp: do_read_task_def split: option.splits)
  let ?w = "set_action a (e\<lparr>ea_iov_buffer := copy_iov buf (t_iov_cnt t) (ea_iov_buffer e)\<rparr>) w"
  from assms False buf obtain early w2 where s: "read_seek usr a t ?w = Inr (early, w2)"
    and r: "(case early of Some r \<Rightarrow> Inr (r, w2) | None \<Rightarrow> read_plain usr a t trig w2) = Inr (0, w')"
    by (auto simp: do_read_task_def get_action_def bindE_Inr_iff cong: option.case_cong)
  show ?thesis
  proof (cases early)
    case None
    with r show ?thesis by (auto intro: read_plain_completed)
  next
    case (Some x)
    with r s show ?thesis by (auto intro: read_seek_completed)
  qed
qed

lemma read_loop_cancelled:
  assumes "do_read_task (\<lambda>_. disable_read a) a t trig w = Inr (0, w1)" "w_actions w a = Some e"
    "fd_type (ea_fd e) \<noteq> UDP_FD" "ea_pending_read e = t # ts"
  shows "read_tasks_loop (\<lambda>_. disable_read a) a trig (Suc k) w = Inl Empty_Deque"
proof -
  from do_read_task_completed [OF assms(1-3)] obtain c w0 where "disable_read a (log_call c w0) = Inr w1"
    by (auto simp: ends_in_usr_def)
  then obtain e' where "w_actions w1 a = Some e'" "ea_pending_read e' = []" by (rule disable_read_clears)
  then show ?thesis using assms by (simp add: get_action_def INT32_MAX_def)
qed

lemma dangling_after_clear:
  assumes "w_actions w a = Some e" "ea_multi e = Some t" "ea_mm_multi e = Live m" "fd_type (ea_fd e) = UDP_FD"
    "clear_multishot_task a w = Inr w1" "add_multishot_read_task a t' w1 = Inr w2"
  shows "read_udp usr a Mm_Multi 0 need w2 = Inl Use_After_Free"
proof -
  let ?e = "e\<lparr>ea_multi := None, ea_mm_multi := Dangling\<rparr>"
  from assms(1-5) obtain w0 e1 where e1: "set_fd_ops UDP_FD ?e = Inr e1" and w1: "w1 = set_action a e1 w0"
    by (auto simp: clear_multishot_task_def get_action_def bindE_Inr_iff Let_def)
  have f: "ea_mm_multi e1 = Dangling" "fd_type (ea_fd e1) = UDP_FD"
    using set_fd_ops_keeps [OF e1] assms(4) by simp_all
  then show ?thesis using assms(6) w1
    by (auto simp: add_multishot_read_task_def get_action_def set_action_def bindE_Inr_iff Let_def
        ring_register_fd_def set_ring_def read_udp_def mm_get_def)
qed

lemma dangling_deleted_again:
  assumes "w_actions w a = Some e" "ea_multi e = Some t" "ea_mm_multi e = Dangling" "w_rings w (mt_ring t) \<noteq> None"
  shows "event_action_delete a w = Inl Bad_Free"
  using assms
  by (auto simp: event_action_delete_def clear_multishot_task_def get_action_def ring_unregister_fd_def get_ring_def)

lemma uds_dgram_read_null:
  assumes "w_actions w a = Some e" "fd_type (ea_fd e) = UDS_DGRAM_FD" "ea_read_op e = Rd_UDP"
    "t_iov_cnt t \<noteq> 0" "t_buffer t = Some buf"
  shows "do_read_task usr a t trig w = Inl Null_Deref"
  using assms
  by (simp add: do_read_task_def read_seek_def read_plain_def get_action_def set_action_def run_read_def after_io_def)

lemma tcp_no_data_reported_as_close:
  assumes "w_actions w a = Some e" "fd_type (ea_fd e) = TCP_FD" "ea_read_op e = Rd_TCP" "ea_read_cb e = Some (Cb_user n)"
    "t_iov_cnt t \<noteq> 0" "t_buffer t = Some buf" "w_answers w = x # as" "x = SysErr EAGAIN \<or> x = SysOk 0 []"
    "\<And>c w. usr c w = Inr w"
  shows "\<exists>w'. do_read_task usr a t True w = Inr (0, w') \<and>
      w_calls w' = w_calls w @ [Read_Called n 0 (t_buffer t) (t_iov_cnt t) False]"
  using assms
  by (auto simp: do_read_task_def read_seek_def read_plain_def get_action_def set_action_def run_read_def after_io_def
      tcp_read_fd_def mk_out_def i32_of_u32_def call_read_cb_def log_call_def Let_def)

lemma udp_eagain:
  assumes "w_actions w a = Some e" "ea_read_op e = Rd_UDP_Multi" "ea_mm_multi e = Live m" "w_answers w = SysErr EAGAIN # as"
  shows "\<exists>w'. read_udp usr a Mm_Multi 0 need w = Inr (INT32_MAX, w') \<and> w_answers w' = as \<and> w_rings w' = w_rings w \<and>
    (\<exists>e' m'. w_actions w' a = Some e' \<and> ea_fd e' = ea_fd e \<and> ea_read_op e' = Rd_UDP_Multi \<and> ea_mm_multi e' = Live m')"
  using assms
  by (auto simp: read_udp_def get_action_def set_action_def mm_get_def run_read_def after_io_def mm_set_def INT32_MAX_def Let_def)

lemma udp_multishot_spins:
  assumes "w_actions w a = Some e" "fd_type (ea_fd e) = UDP_FD" "ea_read_op e = Rd_UDP_Multi" "ea_mm_multi e = Live m"
    "w_rings w r = Some b" "ring_inv (ri_buf b)" "unat (w_idx (ri_buf b)) - unat (r_idx (ri_buf b)) < length (rb_data (ri_buf b))"
    "list_all (\<lambda>x. x = SysErr EAGAIN) (w_answers w)"
  shows "multishot_loop usr a r need k w = Inl Blocked"
  using assms
proof (induction k arbitrary: w e m b)
  case (Suc k)
  obtain x where x: "writer_get_buffer (ri_buf b) = Inr (True, (ri_buf b)\<lparr>w_buf := x\<rparr>)" "w_offer (ri_buf b) (r_idx (ri_buf b)) x"
    using writer_get_buffer_grants [OF Suc.prems(6)] Suc.prems(7) by metis
  then obtain i where i: "bi_iov x = Some i" by (auto simp: w_offer_def)
  let ?b = "b\<lparr>ri_buf := (ri_buf b)\<lparr>w_buf := x\<rparr>\<rparr>"
  let ?w = "set_ring r ?b w"
  have offer: "\<exists>vs. ring_offer r w = Inr (Some vs, ?w)"
    using Suc.prems(5) x(1) i by (simp add: ring_offer_def get_ring_def)
  have e: "w_actions ?w a = Some e" using Suc.prems(1) by (simp add: set_ring_def)
  show ?case
  proof (cases "w_answers w")
    case Nil
    then show ?thesis using offer e Suc.prems(2-4)
      by (auto simp: get_action_def read_udp_def mm_get_def run_read_def after_io_def set_ring_def)
  next
    case (Cons y as)
    with Suc.prems(8) have "w_answers ?w = SysErr EAGAIN # as" by (simp add: set_ring_def)
    from udp_eagain [OF e Suc.prems(3,4) this] obtain w' e' m' where
      u: "read_udp usr a Mm_Multi 0 need ?w = Inr (INT32_MAX, w')" "w_answers w' = as" "w_rings w' = w_rings ?w"
      "w_actions w' a = Some e'" "ea_fd e' = ea_fd e" "ea_read_op e' = Rd_UDP_Multi" "ea_mm_multi e' = Live m'" by blast
    have "multishot_loop usr a r need k w' = Inl Blocked"
      using u Suc.prems Cons by (intro Suc.IH [of w' e' m' ?b]) (auto simp: set_ring_def)
    then show ?thesis using offer e Suc.prems(2) u(1) by (auto simp: get_action_def INT32_MAX_def)
  qed
qed simp

subsection \<open>Properties\<close>



text \<open>
  \<^verbatim>\<open>event_action::submit\<close> appends the held-back tasks to the queues in order, releases a
  held-back multishot read, and never trips its assertions.
\<close>

theorem action_submit_releases:
  "action_submit e = Inr (e\<lparr>ea_pending_read := ea_pending_read e @ ea_nonsub_read e, ea_nonsub_read := [],
     ea_pending_write := ea_pending_write e @ ea_nonsub_write e, ea_nonsub_write := [],
     ea_multi := map_option (\<lambda>t. t\<lparr>mt_is_submit := True\<rparr>) (ea_multi e)\<rparr>)"
  by (rule action_submit_eq)

text \<open>
  Cancelling a read from inside its own callback: \<^verbatim>\<open>disable_read\<close> empties the queue, and
  the loop of \<^verbatim>\<open>handle_events\<close> then pops from the empty deque.
\<close>

theorem cancel_in_read_callback_faults:
  assumes "do_read_task (\<lambda>_. disable_read a) a t trig w = Inr (0, w1)" and "w_actions w a = Some e"
    and "fd_type (ea_fd e) \<noteq> UDP_FD" and "ea_pending_read e = t # ts"
  shows "read_tasks_loop (\<lambda>_. disable_read a) a trig (length (ea_pending_read e)) w = Inl Empty_Deque"
  using read_loop_cancelled [OF assms] assms(4) by simp

text \<open>
  A UDP multishot read that was cleared and registered again reads through the freed
  header array: \<^verbatim>\<open>clear_multishot_task\<close> deletes \<^verbatim>\<open>mmsghdr_for_udp_multishot_\<close> and leaves
  the pointer, and \<^verbatim>\<open>add_multishot_read_task\<close> allocates only when it is null.
\<close>

theorem udp_multishot_use_after_free:
  assumes "w_actions w a = Some e" and "ea_multi e = Some t" and "ea_mm_multi e = Live m"
    and "fd_type (ea_fd e) = UDP_FD"
    and "clear_multishot_task a w = Inr w1" and "add_multishot_read_task a t' w1 = Inr w2"
  shows "read_udp usr a Mm_Multi 0 need w2 = Inl Use_After_Free"
  using assms by (rule dangling_after_clear)

text \<open>
  A UDP multishot read never leaves its loop on an empty socket: \<^verbatim>\<open>read_udp\<close> returns
  \<^verbatim>\<open>INT32_MAX\<close> for \<^verbatim>\<open>EAGAIN\<close> and the loop only stops on a negative value, so as long as no
  datagram arrives it calls \<^verbatim>\<open>recvmmsg\<close> again, for any number of rounds.
\<close>

theorem udp_multishot_never_returns:
  assumes "w_actions w a = Some e" and "fd_type (ea_fd e) = UDP_FD" and "ea_read_op e = Rd_UDP_Multi"
    and "ea_mm_multi e = Live m" and "w_rings w r = Some b" and "ring_inv (ri_buf b)"
    and "unat (w_idx (ri_buf b)) - unat (r_idx (ri_buf b)) < length (rb_data (ri_buf b))"
    and "list_all (\<lambda>x. x = SysErr EAGAIN) (w_answers w)"
  shows "multishot_loop usr a r need k w = Inl Blocked"
  using assms by (rule udp_multishot_spins)

text \<open>
  Reading a \<^verbatim>\<open>UDS_DGRAM_FD\<close> dereferences null: it uses the UDP reader, which expects a
  header array, but \<^verbatim>\<open>do_read_task\<close> passes one for \<^verbatim>\<open>UDP_FD\<close> only.
\<close>

theorem uds_dgram_read_faults:
  assumes "w_actions w a = Some e" and "fd_type (ea_fd e) = UDS_DGRAM_FD" and "ea_read_op e = Rd_UDP"
    and "t_iov_cnt t \<noteq> 0" and "t_buffer t = Some buf"
  shows "do_read_task usr a t trig w = Inl Null_Deref"
  using assms by (rule uds_dgram_read_null)

text \<open>
  After a readiness event, a TCP read that finds no data (\<^verbatim>\<open>EAGAIN\<close>) is completed with
  0, the value that reports a closed connection: both answers of the kernel lead to the
  same callback. A second queued read behind one that drained the socket gets it.
\<close>

theorem tcp_no_data_looks_closed:
  assumes "w_actions w a = Some e" and "fd_type (ea_fd e) = TCP_FD" and "ea_read_op e = Rd_TCP"
    and "ea_read_cb e = Some (Cb_user n)" and "t_iov_cnt t \<noteq> 0" and "t_buffer t = Some buf"
    and "w_answers w = x # as" and "x = SysErr EAGAIN \<or> x = SysOk 0 []" and "\<And>c w. usr c w = Inr w"
  shows "\<exists>w'. do_read_task usr a t True w = Inr (0, w') \<and>
           w_calls w' = w_calls w @ [Read_Called n 0 (t_buffer t) (t_iov_cnt t) False]"
  using assms by (rule tcp_no_data_reported_as_close)

subsection \<open>Witnesses\<close>

text \<open>A world with one action at address 0.\<close>

definition one_action :: "event_action \<Rightarrow> sysret list \<Rightarrow> world" where
  "one_action e as =
     \<lparr>w_actions = [0 \<mapsto> e], w_rings = [0 \<mapsto> \<lparr>ri_buf = ring_two, ri_fd_set = []\<rparr>], w_socks = Map.empty,
      w_answers = as, w_calls = [], w_io = []\<rparr>"

definition sample_action :: "FD_TYPE \<Rightarrow> event_action" where
  "sample_action ty =
     (projr (event_action_new (mk_fd 5 ty)))\<lparr>ea_read_cb := Some (Cb_user 1), ea_write_cb := Some 2\<rparr>"

definition sample_task :: task where
  "sample_task = \<lparr>t_buffer = Some [mk_iovec 0 4], t_iov_cnt = 1, t_sockaddr = None, t_need_detail = False\<rparr>"

lemmas sample_defs = one_action_def sample_action_def sample_task_def event_action_new_def set_fd_ops_def
  mk_fd_def task_ok_def mk_iovec_def

definition quiet :: "call \<Rightarrow> world \<Rightarrow> world result" where
  "quiet c w = Inr w"

lemma benign_quiet: "benign quiet a"
  by (auto simp: benign_def quiet_def intro!: exI [of _ "[]"])

lemmas world_run = get_action_def set_action_def after_io_def next_answer_def log_call_def Let_def quiet_def
  call_read_cb_def call_write_cb_def copy_iov_def INT32_MAX_def

abbreviation two_writes :: event_action where
  "two_writes \<equiv> (sample_action TCP_FD)\<lparr>ea_pending_write := [sample_task, sample_task]\<rparr>"

abbreviation two_reads :: event_action where
  "two_reads \<equiv> (sample_action TCP_FD)\<lparr>ea_pending_read := [sample_task, sample_task]\<rparr>"

lemma two_writes_run:
  "write_tasks_loop quiet 0 (length (ea_pending_write two_writes)) (one_action two_writes [SysOk 4 [], SysErr EAGAIN])
     \<noteq> Inl Blocked"
  by (simp add: sample_defs world_run do_write_task_def write_seek_def write_plain_def run_write_def
      tcp_write_fd_def move_iov_def mk_out_def i32_of_u32_def)


lemma two_reads_run:
  "read_tasks_loop quiet 0 True (length (ea_pending_read two_reads)) (one_action two_reads [SysOk 4 [], SysErr EAGAIN])
     \<noteq> Inl Blocked"
  by (simp add: sample_defs world_run do_read_task_def read_seek_def read_plain_def run_read_def
      tcp_read_fd_def move_iov_def mk_out_def i32_of_u32_def)


theorem cancel_in_read_callback_faults_witness:
  "read_tasks_loop (\<lambda>_. disable_read 0) 0 True (length (ea_pending_read two_reads)) (one_action two_reads [SysOk 4 []])
     = Inl Empty_Deque"
proof -
  obtain w1 where "do_read_task (\<lambda>_. disable_read 0) 0 sample_task True (one_action two_reads [SysOk 4 []]) = Inr (0, w1)"
    by (simp add: sample_defs world_run do_read_task_def read_seek_def read_plain_def run_read_def
        tcp_read_fd_def move_iov_def mk_out_def i32_of_u32_def disable_read_def clear_multishot_task_def)
  from cancel_in_read_callback_faults [OF this, of two_reads "[sample_task]"] show ?thesis
    by (simp add: sample_defs)
qed

definition sample_multi :: multishot_task where
  "sample_multi = \<lparr>mt_ring = 0, mt_need_detail = False, mt_is_submit = True\<rparr>"

abbreviation udp_multi :: event_action where
  "udp_multi \<equiv> (sample_action UDP_FD)\<lparr>ea_multi := Some sample_multi, ea_mm_multi := Live mm_default, ea_read_op := Rd_UDP_Multi\<rparr>"

theorem udp_multishot_use_after_free_witness:
  "\<exists>w1 w2. clear_multishot_task 0 (one_action udp_multi []) = Inr w1 \<and> add_multishot_read_task 0 sample_multi w1 = Inr w2 \<and>
     read_udp quiet 0 Mm_Multi 0 False w2 = Inl Use_After_Free"
proof -
  obtain w1 where 1: "clear_multishot_task 0 (one_action udp_multi []) = Inr w1"
      "\<exists>w2. add_multishot_read_task 0 sample_multi w1 = Inr w2"
    by (simp add: sample_defs sample_multi_def world_run clear_multishot_task_def ring_unregister_fd_def get_ring_def
        set_ring_def add_multishot_read_task_def ring_register_fd_def)
  then obtain w2 where "add_multishot_read_task 0 sample_multi w1 = Inr w2" by blast
  with 1 udp_multishot_use_after_free [of "one_action udp_multi []" 0 udp_multi sample_multi mm_default w1 sample_multi w2 quiet False]
  show ?thesis by (auto simp: sample_defs)
qed

theorem udp_multishot_never_returns_witness:
  "multishot_loop quiet 0 0 False 7 (one_action udp_multi [SysErr EAGAIN, SysErr EAGAIN]) = Inl Blocked"
  using udp_multishot_never_returns [of "one_action udp_multi [SysErr EAGAIN, SysErr EAGAIN]" 0 udp_multi mm_default 0
      "\<lparr>ri_buf = ring_two, ri_fd_set = []\<rparr>" quiet False 7] ring_two_inv(1)
  by (simp add: sample_defs) (simp add: ring_two_def ring_buffer_new_def)

theorem uds_dgram_read_faults_witness:
  "do_read_task quiet 0 sample_task True (one_action (sample_action UDS_DGRAM_FD) [SysOk 1 [4]]) = Inl Null_Deref"
  using uds_dgram_read_faults [of "one_action (sample_action UDS_DGRAM_FD) [SysOk 1 [4]]" 0 "sample_action UDS_DGRAM_FD"
      sample_task "[mk_iovec 0 4]" quiet True]
  by (simp add: sample_defs)

theorem tcp_no_data_looks_closed_witness:
  "\<exists>w'. do_read_task quiet 0 sample_task True (one_action two_reads [SysErr EAGAIN]) = Inr (0, w') \<and>
     w_calls w' = [Read_Called 1 0 (Some [mk_iovec 0 4]) 1 False]"
  using tcp_no_data_looks_closed [of "one_action two_reads [SysErr EAGAIN]" 0 two_reads 1 sample_task "[mk_iovec 0 4]"
      "SysErr EAGAIN" "[]" quiet]
  by (simp add: sample_defs quiet_def)

end
