(* ===== verification/Epoll.thy ===== *)
theory Epoll
  imports Event_Action Opt_Map
begin

unbundle bit_operations_syntax

text \<open>
  include/event/epoll.h and source/event/epoll.cpp: the readiness backend. Its state extends
  the world of the event actions. \<^verbatim>\<open>event_info\<close> objects and actions have addresses taken
  from \<open>ep_next\<close>; the descriptor table, the change list and the queue of ready actions hold
  addresses. The calls of \<^verbatim>\<open>epoll_ctl\<close> are logged and take their results from a list; the
  result of \<^verbatim>\<open>epoll_wait\<close> is an argument of \<open>epoll_dispatch\<close>. Shared pointers keep an
  object alive as long as something in the state refers to it, so no object is freed here
  except a ring that is unregistered. The timers of this class are in the theory
  \<open>Timer\<close>.
\<close>

definition MAX_FD :: nat where "MAX_FD = 100000"
definition EVENT_CNT :: nat where "EVENT_CNT = 1024"

record event_info =
  ei_fd :: fd_t
  ei_events :: u16
  ei_in_epoll :: bool
  ei_in_change :: bool
  ei_action :: nat

datatype ctl_op = CTL_ADD | CTL_MOD | CTL_DEL

record ctl_call =
  ctl_op_of :: ctl_op
  ctl_fd :: int
  ctl_events :: u32
  ctl_ptr :: nat

record epoll = world +
  ep_epfd :: fd_t
  ep_infos :: "nat \<Rightarrow> event_info option"
  ep_table :: "nat opt_map"
  ep_removed :: "nat list"
  ep_change :: "nat list"
  ep_ready :: "nat list"
  ep_buffers :: "nat option list"
  ep_non_submit :: "nat list"
  ep_next :: nat
  ep_ctl_answers :: "errno option list"
  ep_ctl_log :: "ctl_call list"
  ep_timer_id :: u32
  ep_id_to_timer :: "nat \<Rightarrow> nat option"

definition epoll_new :: epoll where
  "epoll_new =
     \<lparr>w_actions = Map.empty, w_rings = Map.empty, w_socks = Map.empty, w_answers = [], w_calls = [], w_io = [],
      ep_epfd = fd_default, ep_infos = Map.empty, ep_table = opt_map_empty MAX_FD, ep_removed = [],
      ep_change = [], ep_ready = [], ep_buffers = [], ep_non_submit = [], ep_next = 0,
      ep_ctl_answers = [], ep_ctl_log = [], ep_timer_id = 0, ep_id_to_timer = Map.empty\<rparr>"

definition epoll_is_inited :: "'a epoll_scheme \<Rightarrow> bool" where
  "epoll_is_inited w \<longleftrightarrow> fd_num (ep_epfd w) \<noteq> INVALID_FD"

text \<open>\<open>created\<close> is the answer of \<^verbatim>\<open>epoll_create1\<close>.\<close>

definition epoll_init :: "int \<Rightarrow> 'a epoll_scheme \<Rightarrow> bool \<times> 'a epoll_scheme" where
  "epoll_init created w =
     (let w = w\<lparr>ep_epfd := mk_fd created FILE_FD\<rparr>
      in (fd_is_valid (ep_epfd w), w))"

subsection \<open>Event information\<close>

definition get_info :: "nat \<Rightarrow> 'a epoll_scheme \<Rightarrow> event_info result" where
  "get_info i w = (case ep_infos w i of None \<Rightarrow> Inl Use_After_Free | Some x \<Rightarrow> Inr x)"

definition set_info :: "nat \<Rightarrow> event_info \<Rightarrow> 'a epoll_scheme \<Rightarrow> 'a epoll_scheme" where
  "set_info i x w = w\<lparr>ep_infos := (ep_infos w)(i \<mapsto> x)\<rparr>"

definition push_to_change_list :: "nat \<Rightarrow> 'a epoll_scheme \<Rightarrow> 'a epoll_scheme result" where
  "push_to_change_list i w =
     bindE (get_info i w) (\<lambda>x.
     if ei_in_change x then Inr w
     else Inr (set_info i (x\<lparr>ei_in_change := True\<rparr>) (w\<lparr>ep_change := ep_change w @ [i]\<rparr>)))"

text \<open>
  The block at the start of every submission: the table is searched; a missing entry is
  created, with its action, and the insert is asserted to succeed.
\<close>

definition find_or_create_info :: "fd_t \<Rightarrow> 'a epoll_scheme \<Rightarrow> (nat \<times> 'a epoll_scheme) result" where
  "find_or_create_info fd w =
     (case opt_map_find MAX_FD (ep_table w) (fd_key fd) of
        Some i \<Rightarrow> Inr (i, w)
      | None \<Rightarrow>
          bindE (event_action_new fd) (\<lambda>e.
          let a = ep_next w; i = a + 1;
              x = \<lparr>ei_fd = fd, ei_events = 0, ei_in_epoll = False, ei_in_change = False, ei_action = a\<rparr>;
              (ok, tbl) = opt_map_insert MAX_FD (ep_table w) (fd_key fd) (Some i)
          in bindE (assertE ok) (\<lambda>_.
             Inr (i, set_info i x (set_action a e (w\<lparr>ep_table := tbl, ep_next := i + 1\<rparr>))))))"

definition modify_action :: "nat \<Rightarrow> (event_action \<Rightarrow> event_action) \<Rightarrow> 'a epoll_scheme \<Rightarrow> 'a epoll_scheme result" where
  "modify_action a f w = bindE (get_action a w) (\<lambda>e. Inr (set_action a (f e) w))"

text \<open>\<^verbatim>\<open>evt_info_ptr->events_ |= ev | EV_ET\<close> and the change list, when the bit is not yet set.\<close>

definition note_event :: "nat \<Rightarrow> u16 \<Rightarrow> 'a epoll_scheme \<Rightarrow> 'a epoll_scheme result" where
  "note_event i ev w =
     bindE (get_info i w) (\<lambda>x.
     if ei_events x AND ev = 0
     then push_to_change_list i (set_info i (x\<lparr>ei_events := ei_events x OR (ev OR EV_ET)\<rparr>) w)
     else Inr w)"

definition push_ready_if :: "(event_action \<Rightarrow> bool) \<Rightarrow> nat \<Rightarrow> 'a epoll_scheme \<Rightarrow> 'a epoll_scheme result" where
  "push_ready_if P a w =
     bindE (get_action a w) (\<lambda>e. Inr (if P e then w\<lparr>ep_ready := ep_ready w @ [a]\<rparr> else w))"

text \<open>\<^verbatim>\<open>non_submit_events_.insert\<close>: a \<^verbatim>\<open>std::set\<close>, ordered by address.\<close>

definition insert_non_submit :: "nat \<Rightarrow> 'a epoll_scheme \<Rightarrow> 'a epoll_scheme" where
  "insert_non_submit a w = w\<lparr>ep_non_submit := insort_insert a (ep_non_submit w)\<rparr>"

subsection \<open>Registered rings\<close>

text \<open>\<open>alloc\<close> and the memory are those of \<open>ring_init\<close>; blocks are aligned to \<^verbatim>\<open>DEFAULT_ALIGN_SIZE\<close>.\<close>

definition epoll_register_ring_buffer ::
  "(nat \<Rightarrow> nat option) \<Rightarrow> u32 \<Rightarrow> u32 \<Rightarrow> 'a epoll_scheme \<Rightarrow> (int \<times> 'a epoll_scheme) result" where
  "epoll_register_ring_buffer alloc block_size block_count w =
     bindE (ring_init alloc block_count block_size False 1024 ring_buffer_new (\<lambda>_. 0)) (\<lambda>(ret, rb, _, _).
     if ret \<noteq> 0 then Inr (- 1, w)
     else
       let r = ep_next w
       in Inr (int (length (ep_buffers w)),
               set_ring r \<lparr>ri_buf = rb, ri_fd_set = []\<rparr>
                 (w\<lparr>ep_buffers := ep_buffers w @ [Some r], ep_next := r + 1\<rparr>)))"

fun remove_multishot_task :: "nat list \<Rightarrow> 'a epoll_scheme \<Rightarrow> 'a epoll_scheme result" where
  "remove_multishot_task [] w = Inr w"
| "remove_multishot_task (fd # fds) w =
     (case opt_map_find MAX_FD (ep_table w) fd of
        None \<Rightarrow> remove_multishot_task fds w
      | Some i \<Rightarrow>
          bindE (get_info i w) (\<lambda>x.
          bindE (clear_multishot_task (ei_action x) w) (remove_multishot_task fds)))"

definition is_buffer_effective :: "nat \<Rightarrow> 'a epoll_scheme \<Rightarrow> bool" where
  "is_buffer_effective b w \<longleftrightarrow> b < length (ep_buffers w) \<and> ep_buffers w ! b \<noteq> None"

definition epoll_unregister_ring_buffer :: "nat \<Rightarrow> 'a epoll_scheme \<Rightarrow> (int \<times> 'a epoll_scheme) result" where
  "epoll_unregister_ring_buffer b w =
     (if \<not> is_buffer_effective b w then Inr (- 1, w)
      else
        let r = the (ep_buffers w ! b)
        in bindE (get_ring r w) (\<lambda>ri.
           bindE (remove_multishot_task (ri_fd_set ri) w) (\<lambda>w.
           Inr (0, w\<lparr>ep_buffers := (ep_buffers w)[b := None], w_rings := (w_rings w)(r := None)\<rparr>))))"

subsection \<open>Submission\<close>

definition epoll_submit_async_accept ::
  "fd_t \<Rightarrow> nat option \<Rightarrow> nat option \<Rightarrow> 'a epoll_scheme \<Rightarrow> (int \<times> 'a epoll_scheme) result" where
  "epoll_submit_async_accept listen_fd addr_buffer cb w =
     (if \<not> (epoll_is_inited w \<and> fd_is_valid listen_fd) then Inr (- 1, w)
      else
        bindE (find_or_create_info listen_fd w) (\<lambda>(i, w).
        bindE (get_info i w) (\<lambda>x.
        let a = ei_action x
        in bindE (if addr_buffer \<noteq> None then modify_action a (\<lambda>e. e\<lparr>ea_addr_buffer := addr_buffer\<rparr>) w else Inr w) (\<lambda>w.
        bindE (case cb of
                 None \<Rightarrow> Inr w
               | Some n \<Rightarrow> modify_action a (\<lambda>e. set_read_callback (Cb_accept n (ea_addr_buffer e)) e) w) (\<lambda>w.
        bindE (note_event i EV_READ w) (\<lambda>w.
        bindE (modify_action a add_accept_task w) (\<lambda>w.
        bindE (push_ready_if ea_readable a w) (\<lambda>w. Inr (0, w)))))))))"

definition epoll_submit_async_write ::
  "fd_t \<Rightarrow> iovec list option \<Rightarrow> nat \<Rightarrow> nat option \<Rightarrow> write_options option \<Rightarrow> 'a epoll_scheme
   \<Rightarrow> (int \<times> 'a epoll_scheme) result" where
  "epoll_submit_async_write fd buffer buffer_iov_cnt cb opt w =
     (if \<not> epoll_is_inited w \<or> fd_num fd < 0 \<or> (0 < buffer_iov_cnt \<and> buffer = None) then Inr (- 1, w)
      else
        bindE (find_or_create_info fd w) (\<lambda>(i, w).
        bindE (get_info i w) (\<lambda>x.
        let a = ei_action x
        in bindE (case cb of None \<Rightarrow> Inr w | Some n \<Rightarrow> modify_action a (set_write_callback n) w) (\<lambda>w.
        bindE (if fd_type fd \<noteq> FILE_FD then note_event i EV_WRITE w else Inr w) (\<lambda>w.
        bindE (case opt of
                 Some o' \<Rightarrow> if wo_offset o' \<noteq> UINT64_MAX
                            then modify_action a (\<lambda>e. e\<lparr>ea_write_offset := wo_offset o'\<rparr>) w else Inr w
               | None \<Rightarrow> Inr w) (\<lambda>w.
        let is_submit = (case opt of Some o' \<Rightarrow> wo_is_submit o' | None \<Rightarrow> True);
            sockaddr = (case opt of Some o' \<Rightarrow> if fd_type fd = UDP_FD then wo_sockaddr_ptr o' else None | None \<Rightarrow> None);
            t = \<lparr>t_buffer = buffer, t_iov_cnt = buffer_iov_cnt, t_sockaddr = sockaddr, t_need_detail = False\<rparr>
        in if is_submit
           then bindE (modify_action a (add_write_task t) w) (\<lambda>w.
                bindE (push_ready_if ea_writable a w) (\<lambda>w. Inr (0, w)))
           else bindE (modify_action a (add_non_submit_write_task t) w) (\<lambda>w.
                Inr (0, insert_non_submit a w))))))))"

definition epoll_submit_async_read_group ::
  "fd_t \<Rightarrow> nat \<Rightarrow> nat option \<Rightarrow> read_options option \<Rightarrow> 'a epoll_scheme \<Rightarrow> (int \<times> 'a epoll_scheme) result" where
  "epoll_submit_async_read_group fd buffer_group_id cb opt w =
     (if \<not> (epoll_is_inited w \<and> 0 < fd_num fd \<and> is_buffer_effective buffer_group_id w) then Inr (- 1, w)
      else if \<not> (fd_type fd = TCP_FD \<or> fd_type fd = UDP_FD) then Inr (- 1, w)
      else
        bindE (find_or_create_info fd w) (\<lambda>(i, w).
        bindE (get_info i w) (\<lambda>x.
        let a = ei_action x
        in bindE (case cb of None \<Rightarrow> Inr w | Some n \<Rightarrow> modify_action a (set_read_callback (Cb_user n)) w) (\<lambda>w.
        bindE (note_event i EV_READ w) (\<lambda>w.
        let is_submit = (case opt of Some o' \<Rightarrow> ro_is_submit o' | None \<Rightarrow> True);
            need = (case opt of Some o' \<Rightarrow> ro_need_socket_detail o' | None \<Rightarrow> False);
            t = \<lparr>mt_ring = the (ep_buffers w ! buffer_group_id), mt_need_detail = need, mt_is_submit = is_submit\<rparr>
        in bindE (add_multishot_read_task a t w) (\<lambda>w.
           if is_submit then bindE (push_ready_if ea_readable a w) (\<lambda>w. Inr (0, w))
           else Inr (0, insert_non_submit a w)))))))"

definition epoll_submit_async_read ::
  "fd_t \<Rightarrow> iovec list option \<Rightarrow> nat \<Rightarrow> nat option \<Rightarrow> read_options option \<Rightarrow> 'a epoll_scheme
   \<Rightarrow> (int \<times> 'a epoll_scheme) result" where
  "epoll_submit_async_read fd buffer buffer_iov_cnt cb opt w =
     (if \<not> epoll_is_inited w \<or> fd_num fd < 0 \<or> (0 < buffer_iov_cnt \<and> buffer = None) then Inr (- 1, w)
      else
        bindE (find_or_create_info fd w) (\<lambda>(i, w).
        bindE (get_info i w) (\<lambda>x.
        let a = ei_action x
        in bindE (case cb of None \<Rightarrow> Inr w | Some n \<Rightarrow> modify_action a (set_read_callback (Cb_user n)) w) (\<lambda>w.
        bindE (if fd_type fd \<noteq> FILE_FD then note_event i EV_READ w else Inr w) (\<lambda>w.
        bindE (case opt of
                 Some o' \<Rightarrow> if ro_offset o' \<noteq> UINT64_MAX
                            then modify_action a (\<lambda>e. e\<lparr>ea_read_offset := ro_offset o'\<rparr>) w else Inr w
               | None \<Rightarrow> Inr w) (\<lambda>w.
        let is_submit = (case opt of Some o' \<Rightarrow> ro_is_submit o' | None \<Rightarrow> True);
            need = (case opt of Some o' \<Rightarrow> ro_need_socket_detail o' | None \<Rightarrow> False);
            t = \<lparr>t_buffer = buffer, t_iov_cnt = buffer_iov_cnt, t_sockaddr = None, t_need_detail = need\<rparr>
        in if is_submit
           then bindE (modify_action a (add_read_task t) w) (\<lambda>w.
                bindE (push_ready_if ea_readable a w) (\<lambda>w. Inr (0, w)))
           else bindE (modify_action a (add_non_submit_read_task t) w) (\<lambda>w.
                Inr (0, insert_non_submit a w))))))))"

fun submit_actions :: "nat list \<Rightarrow> 'a epoll_scheme \<Rightarrow> 'a epoll_scheme result" where
  "submit_actions [] w = Inr w"
| "submit_actions (a # as) w =
     bindE (get_action a w) (\<lambda>e.
     bindE (action_submit e) (\<lambda>e.
     bindE (push_ready_if (\<lambda>e. ea_readable e \<or> ea_writable e) a (set_action a e w)) (submit_actions as)))"

definition epoll_submit :: "'a epoll_scheme \<Rightarrow> (int \<times> 'a epoll_scheme) result" where
  "epoll_submit w =
     (if ep_non_submit w = [] then Inr (- 1, w)
      else bindE (submit_actions (ep_non_submit w) w) (\<lambda>w. Inr (0, w\<lparr>ep_non_submit := []\<rparr>)))"

subsection \<open>Cancellation\<close>

definition call_cancel_cb ::
  "(call \<Rightarrow> 'a epoll_scheme \<Rightarrow> 'a epoll_scheme result) \<Rightarrow> nat \<Rightarrow> 'a epoll_scheme \<Rightarrow> 'a epoll_scheme result" where
  "call_cancel_cb usr n w = (let c = Cancel_Called n 0 in usr c (log_call c w))"

definition epoll_cancel_async_accept ::
  "(call \<Rightarrow> 'a epoll_scheme \<Rightarrow> 'a epoll_scheme result) \<Rightarrow> fd_t \<Rightarrow> nat option \<Rightarrow> 'a epoll_scheme
   \<Rightarrow> (int \<times> 'a epoll_scheme) result" where
  "epoll_cancel_async_accept usr listen_fd cb w =
     (if \<not> (epoll_is_inited w \<and> fd_is_valid listen_fd) then Inr (- 1, w)
      else case opt_map_find MAX_FD (ep_table w) (fd_key listen_fd) of
        None \<Rightarrow> Inr (- 1, w)
      | Some i \<Rightarrow>
          bindE (get_info i w) (\<lambda>x.
          bindE (disable_read (ei_action x) w) (\<lambda>w.
          case cb of None \<Rightarrow> Inr (- 1, w) | Some n \<Rightarrow> bindE (call_cancel_cb usr n w) (\<lambda>w. Inr (0, w)))))"

definition epoll_cancel_async_write ::
  "(call \<Rightarrow> 'a epoll_scheme \<Rightarrow> 'a epoll_scheme result) \<Rightarrow> fd_t \<Rightarrow> nat option \<Rightarrow> 'a epoll_scheme
   \<Rightarrow> (int \<times> 'a epoll_scheme) result" where
  "epoll_cancel_async_write usr fd cb w =
     (if \<not> (epoll_is_inited w \<and> 0 < fd_num fd) then Inr (- 1, w)
      else case opt_map_find MAX_FD (ep_table w) (fd_key fd) of
        None \<Rightarrow> Inr (- 1, w)
      | Some i \<Rightarrow>
          bindE (get_info i w) (\<lambda>x.
          bindE (modify_action (ei_action x) disable_write w) (\<lambda>w.
          case cb of None \<Rightarrow> Inr (- 1, w) | Some n \<Rightarrow> bindE (call_cancel_cb usr n w) (\<lambda>w. Inr (0, w)))))"

definition epoll_cancel_async_read ::
  "(call \<Rightarrow> 'a epoll_scheme \<Rightarrow> 'a epoll_scheme result) \<Rightarrow> fd_t \<Rightarrow> nat option \<Rightarrow> 'a epoll_scheme
   \<Rightarrow> (int \<times> 'a epoll_scheme) result" where
  "epoll_cancel_async_read usr fd cb w =
     (if \<not> (epoll_is_inited w \<and> 0 < fd_num fd) then Inr (- 1, w)
      else case opt_map_find MAX_FD (ep_table w) (fd_key fd) of
        None \<Rightarrow> Inr (- 1, w)
      | Some i \<Rightarrow>
          bindE (get_info i w) (\<lambda>x.
          bindE (get_action (ei_action x) w) (\<lambda>e.
          if \<not> is_reading e then Inr (- 1, w)
          else
            bindE (disable_read (ei_action x) w) (\<lambda>w.
            bindE (get_action (ei_action x) w) (\<lambda>e.
            bindE (if is_none_evt e then push_to_change_list i w else Inr w) (\<lambda>w.
            case cb of None \<Rightarrow> Inr (- 1, w) | Some n \<Rightarrow> bindE (call_cancel_cb usr n w) (\<lambda>w. Inr (0, w))))))))"

subsection \<open>Changes of the interest set\<close>

definition epoll_ctl :: "ctl_op \<Rightarrow> int \<Rightarrow> u32 \<Rightarrow> nat \<Rightarrow> 'a epoll_scheme \<Rightarrow> (errno option \<times> 'a epoll_scheme) result" where
  "epoll_ctl op fd events ptr w =
     (case ep_ctl_answers w of
        [] \<Rightarrow> Inl Blocked
      | ans # rest \<Rightarrow>
          Inr (ans, w\<lparr>ep_ctl_answers := rest,
                      ep_ctl_log := ep_ctl_log w @ [\<lparr>ctl_op_of = op, ctl_fd = fd, ctl_events = events, ctl_ptr = ptr\<rparr>]\<rparr>))"

definition remove_event_info :: "fd_t \<Rightarrow> 'a epoll_scheme \<Rightarrow> 'a epoll_scheme" where
  "remove_event_info fd w =
     (case opt_map_find MAX_FD (ep_table w) (fd_key fd) of
        None \<Rightarrow> w
      | Some i \<Rightarrow> w\<lparr>ep_removed := ep_removed w @ [i],
                   ep_table := opt_map_erase MAX_FD (ep_table w) (fd_key fd)\<rparr>)"

text \<open>The part of \<^verbatim>\<open>apply_one_change\<close> after a failed first call, up to its last line.\<close>

definition ctl_failed ::
  "nat \<Rightarrow> event_info \<Rightarrow> ctl_op \<Rightarrow> errno \<Rightarrow> u32 \<Rightarrow> 'a epoll_scheme \<Rightarrow> 'a epoll_scheme result" where
  "ctl_failed i x op err events w =
     (let retry = (\<lambda>op'. bindE (epoll_ctl op' (fd_num (ei_fd x)) events (ei_action x) w) (\<lambda>(ans, w).
                    Inr (set_info i (x\<lparr>ei_in_epoll := (if ans = None then True else ei_in_epoll x),
                                      ei_in_change := False\<rparr>) w)));
          quit = Inr (set_info i (x\<lparr>ei_in_change := False\<rparr>) w)
      in case op of
           CTL_MOD \<Rightarrow> if err = ENOENT then retry CTL_ADD else quit
         | CTL_ADD \<Rightarrow> if err = EEXIST then retry CTL_MOD else quit
         | CTL_DEL \<Rightarrow> if err = ENOENT \<or> err = EBADF \<or> err = EPERM
                      then Inr (w\<lparr>ep_table := opt_map_erase MAX_FD (ep_table w) (fd_key (ei_fd x))\<rparr>)
                      else quit)"

definition apply_one_change :: "nat \<Rightarrow> 'a epoll_scheme \<Rightarrow> 'a epoll_scheme result" where
  "apply_one_change i w =
     bindE (get_info i w) (\<lambda>x.
     bindE (get_action (ei_action x) w) (\<lambda>e.
     if is_none_evt e \<and> \<not> ei_in_epoll x then Inr (remove_event_info (ei_fd x) w)
     else
       let op = (if is_none_evt e then CTL_DEL else if ei_in_epoll x then CTL_MOD else CTL_ADD);
           events = (if ei_events x AND EV_ET \<noteq> 0 then ea_events e OR EPOLLET else ea_events e)
       in bindE (epoll_ctl op (fd_num (ei_fd x)) events (ei_action x) w) (\<lambda>(ans, w).
          case ans of
            None \<Rightarrow>
              if op \<noteq> CTL_DEL
              then Inr (set_info i (x\<lparr>ei_in_epoll := True, ei_in_change := False\<rparr>) w)
              else Inr (remove_event_info (ei_fd x) w)
          | Some err \<Rightarrow> ctl_failed i x op err events w)))"

fun apply_changes :: "nat list \<Rightarrow> 'a epoll_scheme \<Rightarrow> 'a epoll_scheme result" where
  "apply_changes [] w = Inr w"
| "apply_changes (i # is) w = bindE (apply_one_change i w) (apply_changes is)"

subsection \<open>Dispatch\<close>

text \<open>The answer of \<^verbatim>\<open>epoll_wait\<close>: an error, or for each event the pointer and the event bits.\<close>

type_synonym wait_answer = "errno + (nat \<times> u32) list"

fun deliver_events ::
  "(call \<Rightarrow> 'a epoll_scheme \<Rightarrow> 'a epoll_scheme result) \<Rightarrow> (nat \<times> u32) list \<Rightarrow> 'a epoll_scheme \<Rightarrow> 'a epoll_scheme result" where
  "deliver_events usr [] w = Inr w"
| "deliver_events usr ((a, events) # evs) w = bindE (set_ready_events usr a events w) (deliver_events usr evs)"

fun ready_loop ::
  "(call \<Rightarrow> 'a epoll_scheme \<Rightarrow> 'a epoll_scheme result) \<Rightarrow> nat \<Rightarrow> 'a epoll_scheme \<Rightarrow> 'a epoll_scheme result" where
  "ready_loop usr 0 w = Inr w"
| "ready_loop usr (Suc n) w =
     (case ep_ready w of
        [] \<Rightarrow> Inl Empty_Deque
      | a # _ \<Rightarrow>
          bindE (handle_events usr a False w) (\<lambda>w.
          if ep_ready w = [] then Inl Empty_Deque
          else ready_loop usr n (w\<lparr>ep_ready := tl (ep_ready w)\<rparr>)))"

definition do_ready_tasks ::
  "(call \<Rightarrow> 'a epoll_scheme \<Rightarrow> 'a epoll_scheme result) \<Rightarrow> 'a epoll_scheme \<Rightarrow> 'a epoll_scheme result" where
  "do_ready_tasks usr w = ready_loop usr (length (ep_ready w)) w"

text \<open>The result carries the return value and the timeout passed to \<^verbatim>\<open>epoll_wait\<close>.\<close>

definition epoll_dispatch ::
  "(call \<Rightarrow> 'a epoll_scheme \<Rightarrow> 'a epoll_scheme result) \<Rightarrow> wait_answer \<Rightarrow> int \<Rightarrow> 'a epoll_scheme
   \<Rightarrow> (int \<times> int \<times> 'a epoll_scheme) result" where
  "epoll_dispatch usr wait timeout w =
     bindE (if ep_change w \<noteq> []
            then bindE (apply_changes (ep_change w) w) (\<lambda>w. Inr (w\<lparr>ep_change := []\<rparr>))
            else Inr w) (\<lambda>w.
     let timeout = (if ep_ready w \<noteq> [] then 0 else timeout)
     in case wait of
          Inl err \<Rightarrow> Inr (if err = EINTR then 0 else - 1, timeout, w)
        | Inr evs \<Rightarrow>
            bindE (assertE (length evs \<le> EVENT_CNT)) (\<lambda>_.
            bindE (deliver_events usr evs w) (\<lambda>w.
            bindE (do_ready_tasks usr w) (\<lambda>w. Inr (0, timeout, w\<lparr>ep_removed := []\<rparr>)))))"

definition epoll_close :: "'a epoll_scheme \<Rightarrow> 'a epoll_scheme" where
  "epoll_close w =
     (if fd_num (ep_epfd w) \<noteq> INVALID_FD
      then w\<lparr>ep_epfd := fst (snd (fd_close (ep_epfd w))), ep_table := opt_map_clear MAX_FD (ep_table w),
             ep_change := []\<rparr>
      else w)"

end
