(* ===== verification/Callback_Frame.thy ===== *)
theory Callback_Frame
  imports Event_Action
begin

text \<open>
  What an event action may change. Apart from the world's own fields, the state of a
  backend changes during \<^verbatim>\<open>handle_events\<close> only through the user's callbacks: a property of
  the rest of the state that every callback keeps is kept by every operation of the action.
\<close>

definition cb_keeps :: "('a \<Rightarrow> bool) \<Rightarrow> 'a usr \<Rightarrow> bool" where
  "cb_keeps P usr \<longleftrightarrow> (\<forall>c w w'. usr c w = Inr w' \<longrightarrow> P (world.more w) \<longrightarrow> P (world.more w'))"

definition kept :: "('a \<Rightarrow> bool) \<Rightarrow> ('b \<Rightarrow> 'a world_scheme) \<Rightarrow> 'b result \<Rightarrow> bool" where
  "kept P g r \<longleftrightarrow> (\<forall>y. r = Inr y \<longrightarrow> P (world.more (g y)))"

abbreviation kept_world :: "('a \<Rightarrow> bool) \<Rightarrow> 'a world_scheme result \<Rightarrow> bool" where
  "kept_world P \<equiv> kept P (\<lambda>w. w)"

lemma kept_simps [simp]:
  "kept P g (Inl e)" "kept P g (Inr y) \<longleftrightarrow> P (world.more (g y))"
  by (simp_all add: kept_def)

lemma keptD: "r = Inr y \<Longrightarrow> kept P g r \<Longrightarrow> P (world.more (g y))"
  by (simp add: kept_def)

lemma kept_bind_pure: "(\<And>y. m = Inr y \<Longrightarrow> kept P g (f y)) \<Longrightarrow> kept P g (bindE m f)"
  by (auto simp: kept_def bindE_Inr_iff)

lemma world_more_simps [simp]:
  "world.more (set_action a e w) = world.more w" "world.more (set_ring r b w) = world.more w"
  "world.more (log_call c w) = world.more w"
  by (simp_all add: set_action_def set_ring_def log_call_def)

lemma io_more [simp]:
  "after_io out w = Inr (io, w') \<Longrightarrow> world.more w' = world.more w"
  "next_answer w = Inr (x, w') \<Longrightarrow> world.more w' = world.more w"
  "ring_offer r w = Inr (bl, w') \<Longrightarrow> world.more w' = world.more w"
  by (auto simp: after_io_def next_answer_def ring_offer_def bindE_Inr_iff split: list.splits prod.splits)

lemma usr_kept: "cb_keeps P usr \<Longrightarrow> P (world.more w) \<Longrightarrow> kept_world P (usr c w)"
  by (auto simp: cb_keeps_def kept_def)

lemma call_read_cb_kept:
  assumes "cb_keeps P usr" "P (world.more w)"
  shows "kept_world P (call_read_cb usr a ret iov cnt info w)"
  using assms(2) unfolding call_read_cb_def
  by (auto simp: Let_def split: option.splits read_cb.splits intro!: kept_bind_pure usr_kept [OF assms(1)])

lemma call_write_cb_kept:
  assumes "cb_keeps P usr" "P (world.more w)"
  shows "kept_world P (call_write_cb usr a ret w)"
  using assms(2) unfolding call_write_cb_def
  by (auto simp: Let_def split: option.splits intro!: kept_bind_pure usr_kept [OF assms(1)])

lemma udp_deliver_kept:
  assumes "cb_keeps P usr" "P (world.more w)"
  shows "kept_world P (udp_deliver usr a src need n i w)"
  using assms(2)
proof (induction n arbitrary: i w)
  case (Suc n)
  show ?case using Suc.prems
    by (auto simp: Let_def intro!: kept_bind_pure  Suc.IH dest!: keptD [OF _ call_read_cb_kept [OF assms(1)]])
qed simp

lemma read_udp_kept:
  assumes "cb_keeps P usr" "P (world.more w)"
  shows "kept P snd (read_udp usr a src n need w)"
  using assms(2) unfolding read_udp_def
  by (auto simp: Let_def
      intro!: kept_bind_pure 
      dest!: keptD [OF _ udp_deliver_kept [OF assms(1)]] keptD [OF _ call_read_cb_kept [OF assms(1)]])

lemma read_tcp_kept:
  assumes "cb_keeps P usr" "P (world.more w)"
  shows "kept P snd (read_tcp usr a iov need w)"
  using assms(2) unfolding read_tcp_def
  by (auto simp: Let_def intro!: kept_bind_pure  dest!: keptD [OF _ call_read_cb_kept [OF assms(1)]])

lemma multishot_loop_kept:
  assumes "cb_keeps P usr" "P (world.more w)"
  shows "kept_world P (multishot_loop usr a r need n w)"
  using assms(2)
proof (induction n arbitrary: w)
  case (Suc n)
  show ?case using Suc.prems
    by (auto simp: Let_def split: if_splits option.splits
      intro!: kept_bind_pure  Suc.IH
      dest!: keptD [OF _ read_udp_kept [OF assms(1)]] keptD [OF _ read_tcp_kept [OF assms(1)]])
qed simp

lemma do_multishot_kept:
  assumes "cb_keeps P usr" "P (world.more w)"
  shows "kept_world P (do_multishot_read_task usr a w)"
  using assms(2) unfolding do_multishot_read_task_def
  by (auto simp: Let_def simp del: multishot_loop.simps split: option.splits
      intro!: kept_bind_pure multishot_loop_kept [OF assms(1)])

lemma read_seek_kept:
  assumes "cb_keeps P usr" "P (world.more w)"
  shows "kept P snd (read_seek usr a t w)"
  using assms(2) unfolding read_seek_def
  by (auto simp: Let_def split: sysret.splits
      intro!: kept_bind_pure 
      dest!: keptD [OF _ call_read_cb_kept [OF assms(1)]])

lemma write_seek_kept:
  assumes "cb_keeps P usr" "P (world.more w)"
  shows "kept P snd (write_seek usr a w)"
  using assms(2) unfolding write_seek_def
  by (auto simp: Let_def split: sysret.splits
      intro!: kept_bind_pure 
      dest!: keptD [OF _ call_write_cb_kept [OF assms(1)]])

lemma read_dgram_kept:
  assumes "cb_keeps P usr" "P (world.more w)"
  shows "kept P snd (read_dgram usr a t buf w)"
  using assms(2) unfolding read_dgram_def
  by (auto simp: Let_def intro!: kept_bind_pure  dest!: keptD [OF _ read_udp_kept [OF assms(1)]])

lemma read_plain_kept:
  assumes "cb_keeps P usr" "P (world.more w)"
  shows "kept P snd (read_plain usr a t trig w)"
  using assms(2) unfolding read_plain_def
  by (auto simp: Let_def intro!: kept_bind_pure  dest!: keptD [OF _ call_read_cb_kept [OF assms(1)]])

lemma do_read_task_kept:
  assumes "cb_keeps P usr" "P (world.more w)"
  shows "kept P snd (do_read_task usr a t trig w)"
  using assms(2) unfolding do_read_task_def
  by (auto simp: Let_def split: option.splits
      intro!: kept_bind_pure read_dgram_kept [OF assms(1)] read_plain_kept [OF assms(1)]
      dest!: keptD [OF _ read_seek_kept [OF assms(1)]] keptD [OF _ call_read_cb_kept [OF assms(1)]])

lemma accept_loop_kept:
  assumes "cb_keeps P usr" "P (world.more w)"
  shows "kept_world P (accept_loop usr a as w)"
  using assms
  by (induction usr a as w rule: accept_loop.induct)
    (auto simp: Let_def split: option.splits intro!: kept_bind_pure call_read_cb_kept)

lemma write_plain_kept:
  assumes "cb_keeps P usr" "P (world.more w)"
  shows "kept P snd (write_plain usr a t w)"
  using assms(2) unfolding write_plain_def
  by (auto simp: Let_def intro!: kept_bind_pure  dest!: keptD [OF _ call_write_cb_kept [OF assms(1)]])

lemma do_write_task_kept:
  assumes "cb_keeps P usr" "P (world.more w)"
  shows "kept P snd (do_write_task usr a t w)"
  using assms(2) unfolding do_write_task_def
  by (auto simp: Let_def split: option.splits
      intro!: kept_bind_pure write_plain_kept [OF assms(1)]
      dest!: keptD [OF _ write_seek_kept [OF assms(1)]] keptD [OF _ call_write_cb_kept [OF assms(1)]])

lemma read_tasks_loop_kept:
  assumes "cb_keeps P usr" "P (world.more w)"
  shows "kept_world P (read_tasks_loop usr a trig n w)"
  using assms(2)
proof (induction n arbitrary: w)
  case (Suc n)
  show ?case using Suc.prems
    by (auto simp: Let_def split: list.splits
      intro!: kept_bind_pure  Suc.IH
      dest!: keptD [OF _ do_read_task_kept [OF assms(1)]])
qed simp

lemma write_tasks_loop_kept:
  assumes "cb_keeps P usr" "P (world.more w)"
  shows "kept_world P (write_tasks_loop usr a n w)"
  using assms(2)
proof (induction n arbitrary: w)
  case (Suc n)
  show ?case using Suc.prems
    by (auto simp: Let_def split: list.splits
      intro!: kept_bind_pure  Suc.IH
      dest!: keptD [OF _ do_write_task_kept [OF assms(1)]])
qed simp

lemma handle_events_kept:
  assumes "cb_keeps P usr" "P (world.more w)"
  shows "kept_world P (handle_events usr a trig w)"
  using assms(2) unfolding handle_events_def do_accept_task_def
  by (auto simp: Let_def elim!: bindE_InrE split: if_splits option.splits
      intro!: kept_bind_pure write_tasks_loop_kept [OF assms(1)]
      dest!: keptD [OF _ do_multishot_kept [OF assms(1)]] keptD [OF _ read_tasks_loop_kept [OF assms(1)]] keptD [OF _ write_tasks_loop_kept [OF assms(1)]] keptD [OF _ accept_loop_kept [OF assms(1)]])

lemma set_ready_events_kept:
  assumes "cb_keeps P usr" "P (world.more w)"
  shows "kept_world P (set_ready_events usr a evs w)"
  using assms(2) unfolding set_ready_events_def
  by (auto simp: Let_def intro!: kept_bind_pure handle_events_kept [OF assms(1)])

end
