(* ===== verification/Epoll_Proofs.thy ===== *)
theory Epoll_Proofs
  imports Epoll Callback_Frame Event_Action_Proofs "HOL-Library.Sublist"
begin

unbundle bit_operations_syntax

text \<open>
  Properties of the readiness backend. The invariant \<open>epoll_wf\<close> ties the descriptor table,
  the event information, the actions, the change list and the queues together: the change
  list holds exactly the table's entries marked as changed, each once, and every queued
  action exists. Submissions keep it, and so does the application of the change list,
  against a kernel modelled as a map of registrations.
\<close>

subsection \<open>The invariant\<close>

definition table_ok :: "nat opt_map \<Rightarrow> (nat \<Rightarrow> event_info option) \<Rightarrow> bool" where
  "table_ok tbl infos \<longleftrightarrow>
     opt_map_wf MAX_FD tbl \<and>
     (\<forall>k i. opt_map_find MAX_FD tbl k = Some i \<longrightarrow> (\<exists>x. infos i = Some x \<and> fd_key (ei_fd x) = k))"

definition infos_ok :: "(nat \<Rightarrow> event_info option) \<Rightarrow> (nat \<Rightarrow> event_action option) \<Rightarrow> nat \<Rightarrow> bool" where
  "infos_ok infos acts n \<longleftrightarrow>
     (\<forall>i x. infos i = Some x \<longrightarrow> i < n \<and> (\<exists>e. acts (ei_action x) = Some e \<and> ea_fd e = ei_fd x)) \<and>
     (\<forall>a. acts a \<noteq> None \<longrightarrow> a < n)"

definition change_ok :: "nat opt_map \<Rightarrow> (nat \<Rightarrow> event_info option) \<Rightarrow> nat list \<Rightarrow> bool" where
  "change_ok tbl infos ch \<longleftrightarrow>
     distinct ch \<and>
     (\<forall>i\<in>set ch. \<exists>x. infos i = Some x \<and> ei_in_change x \<and> opt_map_find MAX_FD tbl (fd_key (ei_fd x)) = Some i) \<and>
     (\<forall>k i x. opt_map_find MAX_FD tbl k = Some i \<longrightarrow> infos i = Some x \<longrightarrow> ei_in_change x \<longrightarrow> i \<in> set ch)"

definition queues_ok :: "(nat \<Rightarrow> event_action option) \<Rightarrow> nat list \<Rightarrow> bool" where
  "queues_ok acts q \<longleftrightarrow> list_all (\<lambda>a. acts a \<noteq> None) q"

definition epoll_wf :: "'a epoll_scheme \<Rightarrow> bool" where
  "epoll_wf w \<longleftrightarrow>
     table_ok (ep_table w) (ep_infos w) \<and> infos_ok (ep_infos w) (w_actions w) (ep_next w) \<and>
     change_ok (ep_table w) (ep_infos w) (ep_change w) \<and>
     queues_ok (w_actions w) (ep_ready w) \<and> queues_ok (w_actions w) (ep_non_submit w)"

definition entry :: "'a epoll_scheme \<Rightarrow> nat \<Rightarrow> nat \<Rightarrow> event_info \<Rightarrow> event_action \<Rightarrow> bool" where
  "entry w k i x e \<longleftrightarrow>
     opt_map_find MAX_FD (ep_table w) k = Some i \<and> ep_infos w i = Some x \<and> w_actions w (ei_action x) = Some e"

text \<open>How the parts react to the updates the operations make.\<close>

lemma infos_okD:
  assumes "infos_ok infos acts n" "infos i = Some x"
  obtains e where "i < n" "acts (ei_action x) = Some e" "ea_fd e = ei_fd x" "ei_action x < n"
  using assms unfolding infos_ok_def by (metis option.distinct(1))

lemma infos_okI:
  assumes "\<And>i x. infos i = Some x \<Longrightarrow> i < n \<and> (\<exists>e. acts (ei_action x) = Some e \<and> ea_fd e = ei_fd x)"
    "\<And>a. acts a \<noteq> None \<Longrightarrow> a < n"
  shows "infos_ok infos acts n"
  using assms unfolding infos_ok_def by blast

lemma infos_ok_action:
  assumes "infos_ok infos acts n" "acts a = Some e" "ea_fd e' = ea_fd e"
  shows "infos_ok infos (acts(a \<mapsto> e')) n"
proof (rule infos_okI)
  fix i x assume "infos i = Some x"
  with assms show "i < n \<and> (\<exists>e. (acts(a \<mapsto> e')) (ei_action x) = Some e \<and> ea_fd e = ei_fd x)"
    by (elim infos_okD [OF assms(1)]) auto
next
  fix b assume "(acts(a \<mapsto> e')) b \<noteq> None"
  then show "b < n" using assms unfolding infos_ok_def by (auto split: if_splits)
qed

lemma infos_ok_info:
  assumes "infos_ok infos acts n" "infos i = Some x" "ei_fd x' = ei_fd x" "ei_action x' = ei_action x"
  shows "infos_ok (infos(i \<mapsto> x')) acts n"
proof (rule infos_okI)
  fix j y assume "(infos(i \<mapsto> x')) j = Some y"
  then show "j < n \<and> (\<exists>e. acts (ei_action y) = Some e \<and> ea_fd e = ei_fd y)"
    using assms by (auto split: if_splits elim: infos_okD)
qed (use assms in \<open>auto simp: infos_ok_def\<close>)

lemma infos_ok_new:
  assumes "infos_ok infos acts n" "ea_fd e = ei_fd x" "ei_action x = n"
  shows "infos_ok (infos(Suc n \<mapsto> x)) (acts(n \<mapsto> e)) (Suc (Suc n))"
proof (rule infos_okI)
  fix j y assume "(infos(Suc n \<mapsto> x)) j = Some y"
  then consider "j = Suc n" "y = x" | "j \<noteq> Suc n" "infos j = Some y" by (auto split: if_splits)
  then show "j < Suc (Suc n) \<and> (\<exists>d. (acts(n \<mapsto> e)) (ei_action y) = Some d \<and> ea_fd d = ei_fd y)"
    using assms(2,3) by cases (auto elim: infos_okD [OF assms(1)])
next
  fix b assume "(acts(n \<mapsto> e)) b \<noteq> None"
  then show "b < Suc (Suc n)" using assms(1) unfolding infos_ok_def by (force split: if_splits)
qed

lemma infos_ok_mono: "infos_ok infos acts n \<Longrightarrow> n \<le> m \<Longrightarrow> infos_ok infos acts m"
  by (rule infos_okI) (auto simp: infos_ok_def intro: less_le_trans)

lemma table_okD:
  assumes "table_ok tbl infos" "opt_map_find MAX_FD tbl k = Some i"
  obtains x where "infos i = Some x" "fd_key (ei_fd x) = k"
  using assms unfolding table_ok_def by blast

lemma table_ok_info:
  assumes "table_ok tbl infos" "infos i = Some x" "ei_fd x' = ei_fd x"
  shows "table_ok tbl (infos(i \<mapsto> x'))"
  unfolding table_ok_def
proof (intro conjI allI impI)
  fix k j assume "opt_map_find MAX_FD tbl k = Some j"
  then show "\<exists>y. (infos(i \<mapsto> x')) j = Some y \<and> fd_key (ei_fd y) = k"
    using assms by (elim table_okD [OF assms(1)]) auto
qed (use assms in \<open>simp add: table_ok_def\<close>)

lemma table_ok_erase: "table_ok tbl infos \<Longrightarrow> table_ok (opt_map_erase MAX_FD tbl k) infos"
  unfolding table_ok_def by (auto simp: om_simps split: if_splits)

lemma change_okI:
  assumes "distinct ch" "\<And>i. i \<in> set ch \<Longrightarrow> \<exists>x. infos i = Some x \<and> ei_in_change x \<and> opt_map_find MAX_FD tbl (fd_key (ei_fd x)) = Some i"
    "\<And>k i x. opt_map_find MAX_FD tbl k = Some i \<Longrightarrow> infos i = Some x \<Longrightarrow> ei_in_change x \<Longrightarrow> i \<in> set ch"
  shows "change_ok tbl infos ch"
  using assms unfolding change_ok_def by blast

lemma change_okD:
  assumes "change_ok tbl infos ch"
  shows "distinct ch"
    "i \<in> set ch \<Longrightarrow> \<exists>x. infos i = Some x \<and> ei_in_change x \<and> opt_map_find MAX_FD tbl (fd_key (ei_fd x)) = Some i"
    "opt_map_find MAX_FD tbl k = Some i \<Longrightarrow> infos i = Some x \<Longrightarrow> ei_in_change x \<Longrightarrow> i \<in> set ch"
  using assms unfolding change_ok_def by blast+

lemma change_ok_info:
  assumes "change_ok tbl infos ch" "infos i = Some x" "ei_in_change x' = ei_in_change x" "ei_fd x' = ei_fd x"
  shows "change_ok tbl (infos(i \<mapsto> x')) ch"
  by (rule change_okI) (use assms change_okD [OF assms(1)] in \<open>force split: if_splits\<close>)+

lemma change_ok_push:
  assumes "change_ok tbl infos ch" "infos i = Some x" "\<not> ei_in_change x" "ei_in_change x'" "ei_fd x' = ei_fd x"
    "opt_map_find MAX_FD tbl (fd_key (ei_fd x)) = Some i"
  shows "change_ok tbl (infos(i \<mapsto> x')) (ch @ [i])"
proof (rule change_okI)
  show "distinct (ch @ [i])" using assms change_okD(1,2) [OF assms(1)] by force
qed (use assms change_okD [OF assms(1)] in \<open>force split: if_splits\<close>)+

text \<open>Taking the head off the change list: its flag is reset, or it leaves the table.\<close>

lemma change_ok_reset:
  assumes "change_ok tbl infos (i # ch)" "\<not> ei_in_change x'"
  shows "change_ok tbl (infos(i \<mapsto> x')) ch"
proof (rule change_okI)
  show "distinct ch" using change_okD(1) [OF assms(1)] by simp
next
  fix j assume "j \<in> set ch"
  then show "\<exists>x. (infos(i \<mapsto> x')) j = Some x \<and> ei_in_change x \<and> opt_map_find MAX_FD tbl (fd_key (ei_fd x)) = Some j"
    using change_okD(1) [OF assms(1)] change_okD(2) [OF assms(1), of j] by auto
next
  fix k j x assume "opt_map_find MAX_FD tbl k = Some j" "(infos(i \<mapsto> x')) j = Some x" "ei_in_change x"
  then show "j \<in> set ch" using change_okD(3) [OF assms(1), of k j x] assms(2) by (auto split: if_splits)
qed

lemma change_ok_erase:
  assumes "change_ok tbl infos (i # ch)" "infos i = Some x" "table_ok tbl infos"
  shows "change_ok (opt_map_erase MAX_FD tbl (fd_key (ei_fd x))) infos ch"
proof (rule change_okI)
  have wf: "opt_map_wf MAX_FD tbl" using assms(3) by (simp add: table_ok_def)
  note find = om.terase_abs [OF wf]
  have i: "opt_map_find MAX_FD tbl (fd_key (ei_fd x)) = Some i"
    using change_okD(2) [OF assms(1), of i] assms(2) by simp
  show "distinct ch" using change_okD(1) [OF assms(1)] by simp
  fix j
  {
    assume j: "j \<in> set ch"
    then obtain y where y: "infos j = Some y" "ei_in_change y" "opt_map_find MAX_FD tbl (fd_key (ei_fd y)) = Some j"
      using change_okD(2) [OF assms(1), of j] by auto
    moreover have "j \<noteq> i" using j change_okD(1) [OF assms(1)] by auto
    ultimately show "\<exists>y. infos j = Some y \<and> ei_in_change y \<and>
        opt_map_find MAX_FD (opt_map_erase MAX_FD tbl (fd_key (ei_fd x))) (fd_key (ei_fd y)) = Some j"
      using i by (auto simp: find)
  next
    fix k y assume k: "opt_map_find MAX_FD (opt_map_erase MAX_FD tbl (fd_key (ei_fd x))) k = Some j"
      and y: "infos j = Some y" "ei_in_change y"
    then have "opt_map_find MAX_FD tbl k = Some j" "k \<noteq> fd_key (ei_fd x)" by (auto simp: find split: if_splits)
    moreover from this have "fd_key (ei_fd y) = k" using assms(3) y(1) by (auto elim: table_okD)
    ultimately show "j \<in> set ch"
      using change_okD(3) [OF assms(1), of k j y] y assms(2) by auto
  }
qed

lemma queues_ok_action: "queues_ok acts q \<Longrightarrow> queues_ok (acts(a \<mapsto> e)) q"
  unfolding queues_ok_def by (auto simp: list_all_iff)

lemma queues_ok_append: "queues_ok acts q \<Longrightarrow> acts a = Some e \<Longrightarrow> queues_ok acts (q @ [a])"
  unfolding queues_ok_def by auto

lemmas parts_ok = infos_ok_action infos_ok_info table_ok_info change_ok_info queues_ok_action queues_ok_append

subsection \<open>The steps of a submission\<close>

lemma event_action_new_ok:
  assumes "fd_type fd \<noteq> UNKNOWN_FD"
  obtains e where "event_action_new fd = Inr e" "ea_fd e = fd"
  using assms by (cases "fd_type fd") (auto simp: event_action_new_def set_fd_ops_def)

lemma entry_modify:
  assumes "epoll_wf w" "entry w k i x e" "ea_fd (f e) = ea_fd e"
  obtains w' where "modify_action (ei_action x) f w = Inr w'" "epoll_wf w'" "entry w' k i x (f e)"
    "ep_ready w' = ep_ready w" "ep_change w' = ep_change w" "ep_buffers w' = ep_buffers w" "w_rings w' = w_rings w"
proof -
  let ?w = "set_action (ei_action x) (f e) w"
  have e: "w_actions w (ei_action x) = Some e" using assms(2) by (simp add: entry_def)
  have "modify_action (ei_action x) f w = Inr ?w" using e by (simp add: modify_action_def get_action_def)
  moreover have "epoll_wf ?w"
    using assms(1,3) e unfolding epoll_wf_def by (auto simp: set_action_def intro: parts_ok)
  moreover have "entry ?w k i x (f e)" using assms(2) by (simp add: entry_def set_action_def)
  ultimately show thesis by (intro that [of ?w]) (auto simp: set_action_def)
qed

lemma entry_note:
  assumes "epoll_wf w" "entry w k i x e"
  obtains w' x' where "note_event i ev w = Inr w'" "epoll_wf w'" "entry w' k i x' e" "ei_action x' = ei_action x"
    "ei_events x' = (if ei_events x AND ev = 0 then ei_events x OR (ev OR EV_ET) else ei_events x)"
    "ei_events x AND ev = 0 \<Longrightarrow> i \<in> set (ep_change w')" "ei_in_epoll x' = ei_in_epoll x"
    "ep_ready w' = ep_ready w" "ep_buffers w' = ep_buffers w" "w_rings w' = w_rings w"
proof (cases "ei_events x AND ev = 0")
  case False
  then show thesis using assms by (intro that [of w x]) (auto simp: note_event_def get_info_def entry_def)
next
  case ev: True
  let ?x = "x\<lparr>ei_events := ei_events x OR (ev OR EV_ET)\<rparr>"
  let ?w = "set_info i ?x w"
  have x: "ep_infos w i = Some x" "w_actions w (ei_action x) = Some e" "opt_map_find MAX_FD (ep_table w) k = Some i"
    using assms(2) by (auto simp: entry_def)
  show thesis
  proof (cases "ei_in_change x")
    case True
    have "note_event i ev w = Inr ?w"
      using ev x True by (simp add: note_event_def get_info_def push_to_change_list_def set_info_def)
    moreover have "i \<in> set (ep_change w)"
      using assms(1) x True unfolding epoll_wf_def change_ok_def by blast
    moreover have "epoll_wf ?w" using assms(1) x unfolding epoll_wf_def by (auto simp: set_info_def intro: parts_ok)
    ultimately show thesis using x ev by (intro that [of ?w ?x]) (auto simp: entry_def set_info_def)
  next
    case False
    let ?x' = "?x\<lparr>ei_in_change := True\<rparr>"
    let ?w' = "set_info i ?x' (w\<lparr>ep_change := ep_change w @ [i]\<rparr>)"
    have "note_event i ev w = Inr ?w'"
      using ev x False by (simp add: note_event_def get_info_def push_to_change_list_def set_info_def)
    moreover have "opt_map_find MAX_FD (ep_table w) (fd_key (ei_fd x)) = Some i"
      using assms(1) x by (auto simp: epoll_wf_def elim: table_okD)
    then have "epoll_wf ?w'" using assms(1) x False unfolding epoll_wf_def
      by (auto simp: set_info_def intro: parts_ok change_ok_push)
    ultimately show thesis using x ev by (intro that [of ?w' ?x']) (auto simp: entry_def set_info_def)
  qed
qed

lemma find_or_create_entry:
  assumes "epoll_wf w" "fd_type fd \<noteq> UNKNOWN_FD"
  obtains i w' x e where "find_or_create_info fd w = Inr (i, w')" "epoll_wf w'" "entry w' (fd_key fd) i x e"
    "ep_ready w' = ep_ready w" "ep_buffers w' = ep_buffers w" "w_rings w' = w_rings w"
    "(\<exists>x0 e0. entry w (fd_key fd) i x0 e0 \<and> x = x0 \<and> e = e0) \<or>
     (opt_map_find MAX_FD (ep_table w) (fd_key fd) = None \<and> event_action_new fd = Inr e \<and> ei_events x = 0)"
proof (cases "opt_map_find MAX_FD (ep_table w) (fd_key fd)")
  case (Some i)
  then obtain x where x: "ep_infos w i = Some x"
    using assms(1) unfolding epoll_wf_def table_ok_def by blast
  then obtain e where "w_actions w (ei_action x) = Some e"
    using assms(1) unfolding epoll_wf_def infos_ok_def by blast
  with x Some show thesis using assms(1)
    by (intro that [of i w x e]) (auto simp: find_or_create_info_def entry_def)
next
  case None
  obtain e where e: "event_action_new fd = Inr e" "ea_fd e = fd" using event_action_new_ok [OF assms(2)] .
  let ?a = "ep_next w" and ?i = "Suc (ep_next w)"
  let ?x = "\<lparr>ei_fd = fd, ei_events = 0, ei_in_epoll = False, ei_in_change = False, ei_action = ?a\<rparr>"
  have wf: "opt_map_wf MAX_FD (ep_table w)" using assms(1) by (simp add: epoll_wf_def table_ok_def)
  let ?tbl = "snd (opt_map_insert MAX_FD (ep_table w) (fd_key fd) (Some ?i))"
  note ins = om.find_or_create [OF wf None, of ?i]
  let ?w = "set_info ?i ?x (set_action ?a e (w\<lparr>ep_table := ?tbl, ep_next := Suc ?i\<rparr>))"
  have "find_or_create_info fd w = Inr (?i, ?w)"
    using None e ins(1) by (simp add: find_or_create_info_def Let_def case_prod_beta)
  moreover have "epoll_wf ?w"
  proof -
    have I: "infos_ok (ep_infos w) (w_actions w) ?a" and T: "table_ok (ep_table w) (ep_infos w)"
      and C: "change_ok (ep_table w) (ep_infos w) (ep_change w)"
      using assms(1) by (simp_all add: epoll_wf_def)
    have fresh: "ep_infos w ?i = None"
    proof (rule ccontr)
      assume "ep_infos w ?i \<noteq> None"
      then obtain y where "ep_infos w ?i = Some y" by blast
      with I show False by (rule infos_okD) simp
    qed
    have find: "opt_map_find MAX_FD ?tbl = (opt_map_find MAX_FD (ep_table w))(fd_key fd \<mapsto> ?i)"
      using om.tinsert_abs [OF wf, of "fd_key fd" ?i] None by simp
    have nofind: "opt_map_find MAX_FD (ep_table w) k \<noteq> Some ?i" for k
      using T fresh by (auto elim: table_okD)
    have "table_ok ?tbl ((ep_infos w)(?i \<mapsto> ?x))"
      unfolding table_ok_def
    proof (intro conjI allI impI)
      fix k j assume "opt_map_find MAX_FD ?tbl k = Some j"
      then consider "k = fd_key fd" "j = ?i" | "k \<noteq> fd_key fd" "opt_map_find MAX_FD (ep_table w) k = Some j"
        unfolding find by (auto split: if_splits)
      then show "\<exists>y. ((ep_infos w)(?i \<mapsto> ?x)) j = Some y \<and> fd_key (ei_fd y) = k"
        using nofind by cases (auto elim: table_okD [OF T])
    qed (rule ins(4))
    moreover have "infos_ok ((ep_infos w)(?i \<mapsto> ?x)) ((w_actions w)(?a \<mapsto> e)) (Suc ?i)"
      using I e by (intro infos_ok_new) auto
    moreover have "change_ok ?tbl ((ep_infos w)(?i \<mapsto> ?x)) (ep_change w)"
    proof (rule change_okI)
      fix k j y assume "opt_map_find MAX_FD ?tbl k = Some j" "((ep_infos w)(?i \<mapsto> ?x)) j = Some y" "ei_in_change y"
      then show "j \<in> set (ep_change w)"
        unfolding find using change_okD(3) [OF C] by (auto split: if_splits)
    next
      fix j assume "j \<in> set (ep_change w)"
      then obtain y where "ep_infos w j = Some y" "ei_in_change y"
        "opt_map_find MAX_FD (ep_table w) (fd_key (ei_fd y)) = Some j" using change_okD(2) [OF C] by blast
      then show "\<exists>y. ((ep_infos w)(?i \<mapsto> ?x)) j = Some y \<and> ei_in_change y \<and>
          opt_map_find MAX_FD ?tbl (fd_key (ei_fd y)) = Some j" using fresh None by (auto simp: find)
    qed (rule change_okD(1) [OF C])
    ultimately show ?thesis using assms(1) unfolding epoll_wf_def
      by (auto simp: set_info_def set_action_def intro: queues_ok_action)
  qed
  ultimately show thesis using None e ins
    by (intro that [of ?i ?w ?x e]) (auto simp: entry_def set_info_def set_action_def)
qed


lemma entry_push_ready:
  assumes "epoll_wf w" "entry w k i x e"
  obtains w' where "push_ready_if P (ei_action x) w = Inr w'" "epoll_wf w'" "entry w' k i x e"
    "P e \<Longrightarrow> ei_action x \<in> set (ep_ready w')" "ep_change w' = ep_change w"
proof -
  have e: "w_actions w (ei_action x) = Some e" using assms(2) by (simp add: entry_def)
  let ?w = "if P e then w\<lparr>ep_ready := ep_ready w @ [ei_action x]\<rparr> else w"
  have "push_ready_if P (ei_action x) w = Inr ?w" using e by (simp add: push_ready_if_def get_action_def)
  moreover have "epoll_wf ?w" using assms(1) e unfolding epoll_wf_def by (auto intro: parts_ok)
  ultimately show thesis using assms(2) by (intro that [of ?w]) (auto simp: entry_def)
qed

lemma entry_non_submit:
  assumes "epoll_wf w" "entry w k i x e"
  shows "epoll_wf (insert_non_submit (ei_action x) w)" "entry (insert_non_submit (ei_action x) w) k i x e"
    "ei_action x \<in> set (ep_non_submit (insert_non_submit (ei_action x) w))"
    "ep_change (insert_non_submit (ei_action x) w) = ep_change w"
  using assms unfolding epoll_wf_def entry_def insert_non_submit_def queues_ok_def
  by (auto simp: list_all_iff set_insort_insert)

text \<open>The queued reads and writes of a descriptor.\<close>

definition fd_action :: "'a epoll_scheme \<Rightarrow> nat \<Rightarrow> event_action option" where
  "fd_action w k =
     (case opt_map_find MAX_FD (ep_table w) k of
        None \<Rightarrow> None
      | Some i \<Rightarrow> (case ep_infos w i of None \<Rightarrow> None | Some x \<Rightarrow> w_actions w (ei_action x)))"

definition queue_of :: "(event_action \<Rightarrow> task list) \<Rightarrow> 'a epoll_scheme \<Rightarrow> nat \<Rightarrow> task list" where
  "queue_of q w k = (case fd_action w k of None \<Rightarrow> [] | Some e \<Rightarrow> q e)"

lemma entry_fd_action: "entry w k i x e \<Longrightarrow> fd_action w k = Some e"
  by (simp add: entry_def fd_action_def)

lemma event_action_new_queues:
  assumes "event_action_new fd = Inr e"
  shows "ea_pending_read e = []" "ea_nonsub_read e = []" "ea_pending_write e = []" "ea_nonsub_write e = []"
  using assms by (auto simp: event_action_new_def set_fd_ops_def split: FD_TYPE.splits)

lemma find_or_create_queue:
  assumes "epoll_wf w" "fd_type fd \<noteq> UNKNOWN_FD"
  obtains i w' x e where "find_or_create_info fd w = Inr (i, w')" "epoll_wf w'" "entry w' (fd_key fd) i x e"
    "\<And>q. q \<in> {ea_pending_read, ea_nonsub_read, ea_pending_write, ea_nonsub_write} \<Longrightarrow> q e = queue_of q w (fd_key fd)"
    "ep_buffers w' = ep_buffers w" "w_rings w' = w_rings w"
proof -
  from find_or_create_entry [OF assms] obtain i w' x e where
    f: "find_or_create_info fd w = Inr (i, w')" "epoll_wf w'" "entry w' (fd_key fd) i x e"
      "ep_buffers w' = ep_buffers w" "w_rings w' = w_rings w"
    and alt: "(\<exists>x0 e0. entry w (fd_key fd) i x0 e0 \<and> x = x0 \<and> e = e0) \<or>
     (opt_map_find MAX_FD (ep_table w) (fd_key fd) = None \<and> event_action_new fd = Inr e \<and> ei_events x = 0)"
    by metis
  from alt have "q e = queue_of q w (fd_key fd)"
    if "q \<in> {ea_pending_read, ea_nonsub_read, ea_pending_write, ea_nonsub_write}" for q
    using that by (auto simp: queue_of_def fd_action_def entry_def event_action_new_queues)
  with f show thesis using that by blast
qed

definition read_task_of :: "iovec list option \<Rightarrow> nat \<Rightarrow> read_options option \<Rightarrow> task" where
  "read_task_of buffer cnt opt =
     \<lparr>t_buffer = buffer, t_iov_cnt = cnt, t_sockaddr = None,
      t_need_detail = (case opt of Some o' \<Rightarrow> ro_need_socket_detail o' | None \<Rightarrow> False)\<rparr>"

lemma entry_modify_if:
  assumes "epoll_wf w" "entry w k i x e" "\<And>n e. ea_fd (g n e) = ea_fd e"
  obtains w' where "(case cb of None \<Rightarrow> Inr w | Some n \<Rightarrow> modify_action (ei_action x) (g n) w) = Inr w'"
    "epoll_wf w'" "entry w' k i x (case cb of None \<Rightarrow> e | Some n \<Rightarrow> g n e)" "ep_buffers w' = ep_buffers w" "w_rings w' = w_rings w"
proof (cases cb)
  case None
  then show thesis using that [of w] assms by simp
next
  case (Some n)
  obtain w' where "modify_action (ei_action x) (g n) w = Inr w'" "epoll_wf w'" "entry w' k i x (g n e)"
    "ep_buffers w' = ep_buffers w" "w_rings w' = w_rings w"
    using entry_modify [OF assms(1,2), of "g n"] assms(3) by metis
  then show thesis using that [of w'] Some by simp
qed

lemma note_bits:
  fixes a ev b :: u16
  assumes "ev \<noteq> 0"
  shows "(a OR (ev OR b)) AND ev \<noteq> 0"
proof -
  have "(a OR (ev OR b)) AND ev = ev" by (auto intro!: bit_eqI simp: bit_simps)
  then show ?thesis using assms by simp
qed

lemma entry_note_if:
  assumes "epoll_wf w" "entry w k i x e" "ev \<noteq> 0"
  obtains w' x' where "(if b then note_event i ev w else Inr w) = Inr w'" "epoll_wf w'" "entry w' k i x' e"
    "ei_action x' = ei_action x" "b \<Longrightarrow> ei_events x' AND ev \<noteq> 0" "ep_buffers w' = ep_buffers w" "w_rings w' = w_rings w"
proof (cases b)
  case False
  then show thesis using that [of w x] assms by simp
next
  case True
  obtain w' x' where "note_event i ev w = Inr w'" "epoll_wf w'" "entry w' k i x' e" "ei_action x' = ei_action x"
    "ei_events x' = (if ei_events x AND ev = 0 then ei_events x OR (ev OR EV_ET) else ei_events x)"
    "ep_buffers w' = ep_buffers w" "w_rings w' = w_rings w"
    using entry_note [OF assms(1,2), of ev] by metis
  then show thesis using that [of w' x'] True note_bits [OF assms(3)] by auto
qed

lemma entry_get_info: "entry w k i x e \<Longrightarrow> get_info i w = Inr x"
  by (simp add: entry_def get_info_def)

subsection \<open>Applying the change list\<close>

abbreviation wf_with :: "nat list \<Rightarrow> 'a epoll_scheme \<Rightarrow> bool" where
  "wf_with ch w \<equiv> epoll_wf (w\<lparr>ep_change := ch\<rparr>)"

lemma wf_head:
  assumes "wf_with (i # ch) w"
  obtains x e where "ep_infos w i = Some x" "w_actions w (ei_action x) = Some e" "ea_fd e = ei_fd x"
    "opt_map_find MAX_FD (ep_table w) (fd_key (ei_fd x)) = Some i"
proof -
  have C: "change_ok (ep_table w) (ep_infos w) (i # ch)" and I: "infos_ok (ep_infos w) (w_actions w) (ep_next w)"
    using assms by (simp_all add: epoll_wf_def)
  obtain x where x: "ep_infos w i = Some x" "opt_map_find MAX_FD (ep_table w) (fd_key (ei_fd x)) = Some i"
    using change_okD(2) [OF C, of i] by auto
  then show thesis using that I by (metis infos_okD)
qed

lemma wf_with_reset:
  assumes "wf_with (i # ch) w" "ep_infos w i = Some x" "ei_fd x' = ei_fd x" "ei_action x' = ei_action x" "\<not> ei_in_change x'"
  shows "wf_with ch (set_info i x' w)"
  using assms unfolding epoll_wf_def
  by (auto simp: set_info_def intro: table_ok_info infos_ok_info change_ok_reset)

lemma wf_with_erase:
  assumes "wf_with (i # ch) w" "ep_infos w i = Some x"
  shows "wf_with ch (w\<lparr>ep_table := opt_map_erase MAX_FD (ep_table w) (fd_key (ei_fd x))\<rparr>)"
  using assms unfolding epoll_wf_def by (auto intro: table_ok_erase change_ok_erase)

lemma wf_with_ctl:
  "wf_with ch (w\<lparr>ep_ctl_answers := a, ep_ctl_log := l\<rparr>) = wf_with ch w"
  "wf_with ch (w\<lparr>ep_removed := r\<rparr>) = wf_with ch w"
  by (simp_all add: epoll_wf_def)

lemma remove_event_info_found:
  assumes "opt_map_find MAX_FD (ep_table w) (fd_key fd) = Some i"
  shows "remove_event_info fd w =
    w\<lparr>ep_removed := ep_removed w @ [i], ep_table := opt_map_erase MAX_FD (ep_table w) (fd_key fd)\<rparr>"
  using assms by (simp add: remove_event_info_def)

text \<open>What one change does: it resets the flag of its entry or erases it, and takes at most two answers.\<close>

definition change_step :: "nat \<Rightarrow> nat list \<Rightarrow> 'a epoll_scheme \<Rightarrow> 'a epoll_scheme \<Rightarrow> bool" where
  "change_step i ch w w' \<longleftrightarrow>
     wf_with ch w' \<and> length (ep_ctl_answers w) \<le> length (ep_ctl_answers w') + 2 \<and>
     ep_change w' = ep_change w \<and> ep_ready w' = ep_ready w \<and> w_actions w' = w_actions w \<and>
     (\<forall>j. j \<noteq> i \<longrightarrow> ep_infos w' j = ep_infos w j)"

lemma change_step_reset:
  assumes "wf_with (i # ch) w" "ep_infos w i = Some x" "length (ep_ctl_answers w) \<le> length as + 2"
    "ei_fd x' = ei_fd x" "ei_action x' = ei_action x" "\<not> ei_in_change x'"
  shows "change_step i ch w (set_info i x' (w\<lparr>ep_ctl_answers := as, ep_ctl_log := l\<rparr>))"
  using assms wf_with_reset [of i ch "w\<lparr>ep_ctl_answers := as, ep_ctl_log := l\<rparr>" x x']
  unfolding change_step_def wf_with_ctl by (auto simp: set_info_def)

lemma change_step_erase:
  assumes "wf_with (i # ch) w" "ep_infos w i = Some x" "length (ep_ctl_answers w) \<le> length as + 2"
  shows "change_step i ch w (w\<lparr>ep_ctl_answers := as, ep_ctl_log := l, ep_removed := r,
      ep_table := opt_map_erase MAX_FD (ep_table w) (fd_key (ei_fd x))\<rparr>)"
  using assms wf_with_erase [of i ch "w\<lparr>ep_ctl_answers := as, ep_ctl_log := l, ep_removed := r\<rparr>" x]
  unfolding change_step_def by (simp add: epoll_wf_def)

lemma change_step_erase':
  assumes "wf_with (i # ch) w" "ep_infos w i = Some x"
  shows "length (ep_ctl_answers w) \<le> length as + 2 \<Longrightarrow> change_step i ch w (w\<lparr>ep_ctl_answers := as, ep_ctl_log := l,
      ep_table := opt_map_erase MAX_FD (ep_table w) (fd_key (ei_fd x))\<rparr>)"
    "change_step i ch w (w\<lparr>ep_removed := r, ep_table := opt_map_erase MAX_FD (ep_table w) (fd_key (ei_fd x))\<rparr>)"
  using change_step_erase [OF assms, where as = as and l = l and r = "ep_removed w"]
    change_step_erase [OF assms, where as = "ep_ctl_answers w" and l = "ep_ctl_log w" and r = r] by simp_all

lemma apply_one_total:
  assumes "wf_with (i # ch) w" "2 \<le> length (ep_ctl_answers w)"
  obtains w' where "apply_one_change i w = Inr w'" "change_step i ch w w'"
proof -
  obtain x e where x: "ep_infos w i = Some x" "w_actions w (ei_action x) = Some e"
      "opt_map_find MAX_FD (ep_table w) (fd_key (ei_fd x)) = Some i"
    using wf_head [OF assms(1)] by metis
  obtain a b ans where ans: "ep_ctl_answers w = a # b # ans"
    using assms(2) by (metis Suc_le_length_iff numeral_2_eq_2)
  have "\<exists>w'. apply_one_change i w = Inr w' \<and> change_step i ch w w'"
    using x ans change_step_reset [OF assms(1) x(1)] change_step_erase [OF assms(1) x(1)]
      change_step_erase' [OF assms(1) x(1)]
    by (auto simp: apply_one_change_def get_info_def get_action_def epoll_ctl_def ctl_failed_def Let_def
        remove_event_info_def split: option.splits ctl_op.splits if_splits)
  then show thesis using that by blast
qed

lemma apply_changes_total:
  assumes "wf_with ch w" "2 * length ch \<le> length (ep_ctl_answers w)"
  obtains w' where "apply_changes ch w = Inr w'" "wf_with [] w'" "ep_ready w' = ep_ready w" "w_actions w' = w_actions w"
  using assms
proof (induction ch arbitrary: w thesis)
  case Nil
  then show ?case by simp
next
  case (Cons i ch)
  obtain w1 where w1: "apply_one_change i w = Inr w1" "change_step i ch w w1"
    using apply_one_total [OF Cons.prems(2)] Cons.prems(3) by auto
  then have "wf_with ch w1" "2 * length ch \<le> length (ep_ctl_answers w1)"
    using Cons.prems(3) by (auto simp: change_step_def)
  from Cons.IH [OF _ this] w1 Cons.prems(1) show ?case by (metis apply_changes.simps(2) bindE_simps(2) change_step_def)
qed

text \<open>An \<^verbatim>\<open>epoll\<close> instance of the kernel: the events registered for each descriptor.\<close>

type_synonym kernel = "int \<Rightarrow> u32 option"

definition kernel_ctl :: "kernel \<Rightarrow> ctl_call \<Rightarrow> errno option \<times> kernel" where
  "kernel_ctl K c =
     (case ctl_op_of c of
        CTL_ADD \<Rightarrow> if K (ctl_fd c) = None then (None, K(ctl_fd c \<mapsto> ctl_events c)) else (Some EEXIST, K)
      | CTL_MOD \<Rightarrow> if K (ctl_fd c) = None then (Some ENOENT, K) else (None, K(ctl_fd c \<mapsto> ctl_events c))
      | CTL_DEL \<Rightarrow> if K (ctl_fd c) = None then (Some ENOENT, K) else (None, K(ctl_fd c := None)))"

fun kernel_run :: "kernel \<Rightarrow> ctl_call list \<Rightarrow> errno option list \<times> kernel" where
  "kernel_run K [] = ([], K)"
| "kernel_run K (c # cs) =
     (let (a, K1) = kernel_ctl K c; (as, K2) = kernel_run K1 cs in (a # as, K2))"

lemma kernel_run_append:
  "kernel_run K (cs @ ds) =
     (fst (kernel_run K cs) @ fst (kernel_run (snd (kernel_run K cs)) ds), snd (kernel_run (snd (kernel_run K cs)) ds))"
  by (induction K cs rule: kernel_run.induct) (auto simp: Let_def split: prod.splits)

text \<open>The registration an entry asks for; \<open>None\<close> when its action waits for nothing.\<close>

definition wanted :: "'a epoll_scheme \<Rightarrow> nat \<Rightarrow> u32 option" where
  "wanted w i =
     (case ep_infos w i of
        None \<Rightarrow> None
      | Some x \<Rightarrow>
          (case w_actions w (ei_action x) of
             None \<Rightarrow> None
           | Some e \<Rightarrow>
               if is_none_evt e then None
               else Some (if ei_events x AND EV_ET \<noteq> 0 then ea_events e OR EPOLLET else ea_events e)))"

definition info_num :: "'a epoll_scheme \<Rightarrow> nat \<Rightarrow> int" where
  "info_num w i = (case ep_infos w i of None \<Rightarrow> INVALID_FD | Some x \<Rightarrow> fd_num (ei_fd x))"

definition info_in_epoll :: "'a epoll_scheme \<Rightarrow> nat \<Rightarrow> bool" where
  "info_in_epoll w i = (case ep_infos w i of None \<Rightarrow> False | Some x \<Rightarrow> ei_in_epoll x)"

text \<open>One change, the kernel answering: the kernel ends with the wanted registration.\<close>

lemma apply_one_kernel:
  assumes "wf_with (i # ch) w" "wanted w i = None \<Longrightarrow> K (info_num w i) \<noteq> None \<Longrightarrow> info_in_epoll w i"
  obtains calls w' where
    "\<And>as. apply_one_change i (w\<lparr>ep_ctl_answers := fst (kernel_run K calls) @ as\<rparr>) = Inr (w'\<lparr>ep_ctl_answers := as\<rparr>)"
    "change_step i ch w w'" "ep_ctl_log w' = ep_ctl_log w @ calls"
    "snd (kernel_run K calls) = K(info_num w i := wanted w i)"
    "opt_map_find MAX_FD (ep_table w') =
       (if wanted w i = None then (opt_map_find MAX_FD (ep_table w))(fd_key (ei_fd (the (ep_infos w i))) := None)
        else opt_map_find MAX_FD (ep_table w))"
    "wanted w i \<noteq> None \<Longrightarrow> info_in_epoll w' i"
proof -
  obtain x e where x: "ep_infos w i = Some x" "w_actions w (ei_action x) = Some e"
      "opt_map_find MAX_FD (ep_table w) (fd_key (ei_fd x)) = Some i"
    using wf_head [OF assms(1)] by metis
  have wf: "opt_map_wf MAX_FD (ep_table w)" using assms(1) by (simp add: epoll_wf_def table_ok_def)
  note find = om.terase_abs [OF wf]
  let ?fd = "fd_num (ei_fd x)"
  let ?ev = "if ei_events x AND EV_ET \<noteq> 0 then ea_events e OR EPOLLET else ea_events e"
  let ?c = "\<lambda>op. \<lparr>ctl_op_of = op, ctl_fd = ?fd, ctl_events = ?ev, ctl_ptr = ei_action x\<rparr>"
  define calls where "calls =
    (if is_none_evt e then (if ei_in_epoll x then [?c CTL_DEL] else [])
     else if ei_in_epoll x then (if K ?fd = None then [?c CTL_MOD, ?c CTL_ADD] else [?c CTL_MOD])
     else (if K ?fd = None then [?c CTL_ADD] else [?c CTL_ADD, ?c CTL_MOD]))"
  define tbl where "tbl = opt_map_erase MAX_FD (ep_table w) (fd_key (ei_fd x))"
  define log where "log = ep_ctl_log w @ calls"
  define w' where "w' =
    (if is_none_evt e
     then (if ei_in_epoll x \<and> K ?fd = None then w\<lparr>ep_ctl_log := log, ep_table := tbl\<rparr>
           else w\<lparr>ep_ctl_log := log, ep_removed := ep_removed w @ [i], ep_table := tbl\<rparr>)
     else set_info i (x\<lparr>ei_in_epoll := True, ei_in_change := False\<rparr>) (w\<lparr>ep_ctl_log := log\<rparr>))"
  have want: "wanted w i = (if is_none_evt e then None else Some ?ev)" and num: "info_num w i = ?fd"
    using x by (simp_all add: wanted_def info_num_def)
  have K: "snd (kernel_run K calls) = K(info_num w i := wanted w i)"
    using assms(2) x unfolding want num calls_def
    by (auto simp: kernel_ctl_def Let_def info_in_epoll_def fun_eq_iff)
  have step: "change_step i ch w w'"
    using change_step_reset [OF assms(1) x(1), where as = "ep_ctl_answers w" and l = log]
      change_step_erase [OF assms(1) x(1), where as = "ep_ctl_answers w" and l = log]
      change_step_erase' (1) [OF assms(1) x(1), where as = "ep_ctl_answers w" and l = log]
    by (auto simp: w'_def tbl_def)
  have run: "apply_one_change i (w\<lparr>ep_ctl_answers := fst (kernel_run K calls) @ as\<rparr>) = Inr (w'\<lparr>ep_ctl_answers := as\<rparr>)" for as
    using x
    by (cases "is_none_evt e"; cases "ei_in_epoll x"; cases "K ?fd")
      (simp_all add: calls_def kernel_ctl_def Let_def apply_one_change_def get_info_def get_action_def epoll_ctl_def
        ctl_failed_def remove_event_info_def set_info_def w'_def log_def tbl_def cong: if_cong)
  have "ep_ctl_log w' = ep_ctl_log w @ calls" "wanted w i \<noteq> None \<Longrightarrow> info_in_epoll w' i"
    by (auto simp: w'_def log_def want set_info_def info_in_epoll_def)
  moreover have "opt_map_find MAX_FD (ep_table w') =
       (if wanted w i = None then (opt_map_find MAX_FD (ep_table w))(fd_key (ei_fd (the (ep_infos w i))) := None)
        else opt_map_find MAX_FD (ep_table w))"
    by (auto simp: w'_def want tbl_def find x(1) set_info_def)
  ultimately show thesis using run step K by (intro that)
qed

lemma wanted_cong:
  assumes "w_actions w' = w_actions w" "ep_infos w' j = ep_infos w j"
  shows "wanted w' j = wanted w j" "info_num w' j = info_num w j" "info_in_epoll w' j = info_in_epoll w j"
  unfolding wanted_def info_num_def info_in_epoll_def assms by (rule refl)+

lemma wf_with_nums:
  assumes "wf_with (i # ch) w" "j \<in> set ch"
  shows "info_num w j \<noteq> info_num w i" "j \<noteq> i"
proof -
  have C: "change_ok (ep_table w) (ep_infos w) (i # ch)" using assms(1) by (simp add: epoll_wf_def)
  then show "j \<noteq> i" using assms(2) change_okD(1) [OF C] by auto
  obtain x y where "ep_infos w i = Some x" "opt_map_find MAX_FD (ep_table w) (fd_key (ei_fd x)) = Some i"
      "ep_infos w j = Some y" "opt_map_find MAX_FD (ep_table w) (fd_key (ei_fd y)) = Some j"
    using change_okD(2) [OF C, of i] change_okD(2) [OF C, of j] assms(2) by auto
  then show "info_num w j \<noteq> info_num w i" using \<open>j \<noteq> i\<close> by (auto simp: info_num_def fd_key_def)
qed

definition table_keeps :: "'a epoll_scheme \<Rightarrow> nat list \<Rightarrow> 'a epoll_scheme \<Rightarrow> bool" where
  "table_keeps w ch w' \<longleftrightarrow>
     (\<forall>k. opt_map_find MAX_FD (ep_table w') k =
        (case opt_map_find MAX_FD (ep_table w) k of
           None \<Rightarrow> None
         | Some i \<Rightarrow> if i \<in> set ch \<and> wanted w i = None then None else Some i))"

lemma table_keeps_Cons:
  assumes "wf_with (i # ch) w" "ep_infos w i = Some x" "table_keeps w1 ch w2"
    "opt_map_find MAX_FD (ep_table w1) =
       (if wanted w i = None then (opt_map_find MAX_FD (ep_table w))(fd_key (ei_fd x) := None)
        else opt_map_find MAX_FD (ep_table w))"
    "\<And>j. j \<noteq> i \<Longrightarrow> wanted w1 j = wanted w j"
  shows "table_keeps w (i # ch) w2"
  unfolding table_keeps_def
proof
  fix k
  have T: "table_ok (ep_table w) (ep_infos w)" and C: "change_ok (ep_table w) (ep_infos w) (i # ch)"
    using assms(1) by (simp_all add: epoll_wf_def)
  have i: "i \<notin> set ch" using change_okD(1) [OF C] by simp
  have k: "opt_map_find MAX_FD (ep_table w) (fd_key (ei_fd x)) = Some i"
    using change_okD(2) [OF C, of i] assms(2) by simp
  have other: "k = fd_key (ei_fd x)" if "opt_map_find MAX_FD (ep_table w) k = Some i"
    using table_okD [OF T that] assms(2) by auto
  have w2: "opt_map_find MAX_FD (ep_table w2) k =
      (case opt_map_find MAX_FD (ep_table w1) k of
         None \<Rightarrow> None | Some j \<Rightarrow> if j \<in> set ch \<and> wanted w1 j = None then None else Some j)"
    using assms(3) by (simp add: table_keeps_def)
  show "opt_map_find MAX_FD (ep_table w2) k =
        (case opt_map_find MAX_FD (ep_table w) k of
           None \<Rightarrow> None
         | Some j \<Rightarrow> if j \<in> set (i # ch) \<and> wanted w j = None then None else Some j)"
  proof (cases "opt_map_find MAX_FD (ep_table w) k")
    case None
    then show ?thesis using w2 assms(4) by (simp split: if_splits)
  next
    case (Some j)
    show ?thesis
    proof (cases "j = i")
      case True
      then show ?thesis using w2 assms(4) Some other i by (simp split: if_splits)
    next
      case False
      then have "k \<noteq> fd_key (ei_fd x)" using Some k by auto
      then show ?thesis using w2 assms(4) assms(5) [OF False] Some False by (simp split: if_splits)
    qed
  qed
qed

definition synced :: "nat list \<Rightarrow> 'a epoll_scheme \<Rightarrow> kernel \<Rightarrow> ctl_call list \<Rightarrow> 'a epoll_scheme \<Rightarrow> bool" where
  "synced ch w K calls w' \<longleftrightarrow>
    wf_with [] w' \<and> ep_ctl_log w' = ep_ctl_log w @ calls \<and>
    (\<forall>i\<in>set ch. snd (kernel_run K calls) (info_num w i) = wanted w i) \<and>
    (\<forall>f. f \<notin> info_num w ` set ch \<longrightarrow> snd (kernel_run K calls) f = K f) \<and>
    (\<forall>i\<in>set ch. wanted w i \<noteq> None \<longrightarrow> info_in_epoll w' i) \<and>
    table_keeps w ch w' \<and> ep_ready w' = ep_ready w \<and> w_actions w' = w_actions w \<and>
    (\<forall>j. j \<notin> set ch \<longrightarrow> ep_infos w' j = ep_infos w j)"

lemma syncedD:
  assumes "synced ch w K calls w'"
  shows "wf_with [] w'" "ep_ctl_log w' = ep_ctl_log w @ calls"
    "\<And>i. i \<in> set ch \<Longrightarrow> snd (kernel_run K calls) (info_num w i) = wanted w i"
    "\<And>f. f \<notin> info_num w ` set ch \<Longrightarrow> snd (kernel_run K calls) f = K f"
    "\<And>i. i \<in> set ch \<Longrightarrow> wanted w i \<noteq> None \<Longrightarrow> info_in_epoll w' i"
    "table_keeps w ch w'" "ep_ready w' = ep_ready w" "w_actions w' = w_actions w"
    "\<And>j. j \<notin> set ch \<Longrightarrow> ep_infos w' j = ep_infos w j"
  using assms unfolding synced_def by simp_all

lemma apply_changes_kernel:
  assumes "wf_with ch w" "\<forall>i\<in>set ch. wanted w i = None \<longrightarrow> K (info_num w i) \<noteq> None \<longrightarrow> info_in_epoll w i"
  shows "\<exists>calls w'. synced ch w K calls w' \<and>
    (\<forall>as. apply_changes ch (w\<lparr>ep_ctl_answers := fst (kernel_run K calls) @ as\<rparr>) = Inr (w'\<lparr>ep_ctl_answers := as\<rparr>))"
  using assms
proof (induction ch arbitrary: w K)
  case Nil
  show ?case
    by (rule exI [of _ "[]"], rule exI [of _ w]) (use Nil.prems in \<open>auto simp: synced_def table_keeps_def split: option.splits\<close>)
next
  case (Cons i ch)
  note wf = Cons.prems(1)
  obtain x where x: "ep_infos w i = Some x" "opt_map_find MAX_FD (ep_table w) (fd_key (ei_fd x)) = Some i"
    using wf_head [OF wf] by metis
  let ?K = "K(info_num w i := wanted w i)"
  obtain c1 w1 where 1:
      "\<And>as. apply_one_change i (w\<lparr>ep_ctl_answers := fst (kernel_run K c1) @ as\<rparr>) = Inr (w1\<lparr>ep_ctl_answers := as\<rparr>)"
      "change_step i ch w w1" "ep_ctl_log w1 = ep_ctl_log w @ c1" "snd (kernel_run K c1) = ?K"
      "opt_map_find MAX_FD (ep_table w1) =
        (if wanted w i = None then (opt_map_find MAX_FD (ep_table w))(fd_key (ei_fd x) := None)
         else opt_map_find MAX_FD (ep_table w))" "wanted w i \<noteq> None \<Longrightarrow> info_in_epoll w1 i"
    using apply_one_kernel [OF wf, of K] Cons.prems(2) x(1) by (metis list.set_intros(1) option.sel)
  have same: "wanted w1 j = wanted w j" "info_num w1 j = info_num w j" "info_in_epoll w1 j = info_in_epoll w j"
    if "j \<noteq> i" for j using wanted_cong [of w1 w j] 1(2) that by (auto simp: change_step_def)
  have ch: "info_num w j \<noteq> info_num w i" "j \<noteq> i" if "j \<in> set ch" for j using wf_with_nums [OF wf that] .
  have img: "info_num w1 ` set ch = info_num w ` set ch" using same(2) ch(2) by (auto intro!: image_cong)
  have wf1: "wf_with ch w1" using 1(2) by (simp add: change_step_def)
  have "\<forall>j\<in>set ch. wanted w1 j = None \<longrightarrow> ?K (info_num w1 j) \<noteq> None \<longrightarrow> info_in_epoll w1 j"
    using ch same Cons.prems(2) by auto
  from Cons.IH [OF wf1 this] obtain c2 w2 where syn: "synced ch w1 ?K c2 w2" and run:
      "\<forall>as. apply_changes ch (w1\<lparr>ep_ctl_answers := fst (kernel_run ?K c2) @ as\<rparr>) = Inr (w2\<lparr>ep_ctl_answers := as\<rparr>)"
    by (elim exE conjE)
  note 2 = syncedD [OF syn]
  have "info_num w i \<notin> info_num w ` set ch" using ch(1) by fastforce
  moreover have "i \<notin> set ch" using ch(2) [of i] by auto
  ultimately have notin: "i \<notin> set ch" "info_num w i \<notin> info_num w ` set ch" by simp_all
  have "apply_changes (i # ch) (w\<lparr>ep_ctl_answers := fst (kernel_run K (c1 @ c2)) @ as\<rparr>) = Inr (w2\<lparr>ep_ctl_answers := as\<rparr>)" for as
    using 1(1) [of "fst (kernel_run ?K c2) @ as"] run [rule_format, of as] by (simp add: kernel_run_append 1(4))
  moreover have "synced (i # ch) w K (c1 @ c2) w2"
    unfolding synced_def
  proof (intro conjI ballI allI impI)
    fix j assume j: "j \<in> set (i # ch)"
    show "snd (kernel_run K (c1 @ c2)) (info_num w j) = wanted w j"
      using j 2(3) [of j] 2(4) [of "info_num w i"] notin ch [of j] same [of j]
      by (auto simp: kernel_run_append 1(4) img)
    show "info_in_epoll w2 j" if "wanted w j \<noteq> None"
    proof (cases "j = i")
      case True
      then show ?thesis using that 1(6) wanted_cong(3) [OF 2(8) 2(9) [OF notin(1)]] by simp
    next
      case False
      then show ?thesis using j that 2(5) [of j] same(1) by simp
    qed
  next
    fix f assume "f \<notin> info_num w ` set (i # ch)"
    then show "snd (kernel_run K (c1 @ c2)) f = K f" using 2(4) [of f] by (auto simp: kernel_run_append 1(4) img)
  next
    fix j assume "j \<notin> set (i # ch)"
    then show "ep_infos w2 j = ep_infos w j" using 2(9) [of j] 1(2) by (auto simp: change_step_def)
  next
    show "table_keeps w (i # ch) w2" using table_keeps_Cons [OF wf x(1) 2(6) 1(5)] same(1) by blast
  qed (use 1(2,3) 2(1,2,7,8) in \<open>simp_all add: change_step_def\<close>)
  ultimately show ?case by blast
qed

subsection \<open>A round of ready actions\<close>

lemma more_ready: "world.more w = world.more w' \<Longrightarrow> ep_ready (w :: 'a epoll_scheme) = ep_ready w'"
  by (cases w; cases w') simp

definition appends_ready :: "(call \<Rightarrow> 'a epoll_scheme \<Rightarrow> 'a epoll_scheme result) \<Rightarrow> bool" where
  "appends_ready usr \<longleftrightarrow> (\<forall>c w w'. usr c w = Inr w' \<longrightarrow> prefix (ep_ready w) (ep_ready w'))"

fun handle_queue ::
  "(call \<Rightarrow> 'a epoll_scheme \<Rightarrow> 'a epoll_scheme result) \<Rightarrow> nat list \<Rightarrow> 'a epoll_scheme \<Rightarrow> 'a epoll_scheme result" where
  "handle_queue usr [] w = Inr w"
| "handle_queue usr (a # as) w =
     bindE (handle_events usr a False w) (\<lambda>w. handle_queue usr as (w\<lparr>ep_ready := tl (ep_ready w)\<rparr>))"

lemma handle_events_appends:
  assumes "appends_ready usr" "handle_events usr a b w = Inr w'"
  shows "prefix (ep_ready w) (ep_ready w')"
proof -
  let ?P = "\<lambda>m. \<exists>v :: 'a epoll_scheme. world.more v = m \<and> prefix (ep_ready w) (ep_ready v)"
  have "cb_keeps ?P usr"
    unfolding cb_keeps_def
  proof (intro allI impI)
    fix c and u u' :: "'a epoll_scheme" assume "usr c u = Inr u'" "?P (world.more u)"
    then have "prefix (ep_ready w) (ep_ready u)" "prefix (ep_ready u) (ep_ready u')"
      using assms(1) more_ready unfolding appends_ready_def by fastforce+
    then show "?P (world.more u')" using prefix_order.trans by blast
  qed
  moreover have "?P (world.more w)" by blast
  ultimately have "?P (world.more w')" using handle_events_kept keptD [OF assms(2)] by blast
  then show ?thesis using more_ready by metis
qed

lemma ready_loop_queue:
  assumes "appends_ready usr" "prefix q (ep_ready w)"
  shows "ready_loop usr (length q) w = handle_queue usr q w"
  using assms(2)
proof (induction q arbitrary: w)
  case (Cons a q)
  then obtain rest where r: "ep_ready w = a # rest" "prefix q rest" by (auto simp: prefix_def)
  show ?case
  proof (cases "handle_events usr a False w")
    case (Inr w1)
    obtain new where new: "ep_ready w1 = a # rest @ new"
      using handle_events_appends [OF assms(1) Inr] r by (auto simp: prefix_def)
    then have "prefix q (ep_ready (w1\<lparr>ep_ready := tl (ep_ready w1)\<rparr>))" using r(2) by (auto simp: prefix_def)
    then show ?thesis using Inr r new Cons.IH by simp
  qed (use r in simp)
qed simp

definition quiet_ep :: "call \<Rightarrow> 'a epoll_scheme \<Rightarrow> 'a epoll_scheme result" where
  "quiet_ep c w = Inr w"

definition rearm_trace :: "fd_t \<Rightarrow> iovec \<Rightarrow> nat \<Rightarrow> 'a epoll_scheme \<Rightarrow> (int \<times> 'a epoll_scheme) result" where
  "rearm_trace fd v n w =
     bindE (epoll_submit_async_read fd (Some [v]) 1 (Some n) None w) (\<lambda>(_, w).
     bindE (epoll_submit_async_write fd (Some [v]) 1 (Some n) None w) (\<lambda>(_, w).
     bindE (epoll_cancel_async_read quiet_ep fd (Some n) w) (\<lambda>(_, w).
     bindE (apply_changes (ep_change w) w) (\<lambda>w.
     epoll_submit_async_read fd (Some [v]) 1 (Some n) None (w\<lparr>ep_change := []\<rparr>)))))"

lemmas rearm_defs = rearm_trace_def epoll_submit_async_read_def epoll_submit_async_write_def epoll_cancel_async_read_def
  find_or_create_info_def event_action_new_def set_fd_ops_def get_info_def set_info_def modify_action_def
  get_action_def set_action_def note_event_def push_to_change_list_def set_read_callback_def set_write_callback_def
  add_read_task_def add_write_task_def push_ready_if_def epoll_is_inited_def is_reading_def is_none_evt_def is_writing_def
  EV_READ_def EV_WRITE_def EV_ET_def read_event_def write_event_def disable_read_def clear_multishot_task_def
  call_cancel_cb_def quiet_ep_def log_call_def apply_one_change_def epoll_ctl_def queue_of_def fd_action_def read_task_of_def

subsection \<open>Properties\<close>

text \<open>The backend of the witnesses: initialised, with a read of descriptor 7 on its change list.\<close>

definition sample_epoll :: epoll where
  "sample_epoll =
     epoll_new\<lparr>ep_epfd := mk_fd 3 FILE_FD, ep_next := 2,
       ep_table := snd (opt_map_insert MAX_FD (opt_map_empty MAX_FD) 7 (Some 1)),
       ep_infos := [1 \<mapsto> \<lparr>ei_fd = mk_fd 7 TCP_FD, ei_events = 0x12, ei_in_epoll = False, ei_in_change = True, ei_action = 0\<rparr>],
       w_actions := [0 \<mapsto> set_read_callback (Cb_user 1) (projr (event_action_new (mk_fd 7 TCP_FD)))],
       ep_change := [1]\<rparr>"

lemmas sample_epoll_defs = sample_epoll_def epoll_new_def event_action_new_def set_fd_ops_def set_read_callback_def mk_fd_def

lemma fd_key_7: "fd_key (mk_fd 7 t) = 7" "fd_key \<lparr>fd_num = 7, fd_type = t\<rparr> = 7"
  by (simp_all add: fd_key_def mk_fd_def)

lemma sample_epoll_wf: "epoll_wf sample_epoll"
  unfolding epoll_wf_def table_ok_def infos_ok_def change_ok_def queues_ok_def
  by (auto simp: sample_epoll_defs om_simps fd_key_7 split: if_splits)

text \<open>
  C3. \<^verbatim>\<open>epoll::apply_changes\<close> brings the kernel in line with the entries on the change list,
  whatever the kernel had registered before: each descriptor that waits for something ends
  up registered with the events its action asks for, through \<^verbatim>\<open>ADD\<close>, \<^verbatim>\<open>MOD\<close> or the retry
  after \<^verbatim>\<open>EEXIST\<close> or \<^verbatim>\<open>ENOENT\<close>, each one that waits for nothing ends up unregistered and
  leaves the descriptor table, no other registration changes, the loop never faults, and the
  invariant holds with the change list empty. The hypothesis: a descriptor that waits for
  nothing and is still registered has its \<^verbatim>\<open>is_in_epoll\<close> flag.
\<close>

theorem epoll_changes_reach_kernel:
  assumes "wf_with ch w" "\<forall>i\<in>set ch. wanted w i = None \<longrightarrow> K (info_num w i) \<noteq> None \<longrightarrow> info_in_epoll w i"
  shows "\<exists>calls w'. synced ch w K calls w' \<and>
    (\<forall>as. apply_changes ch (w\<lparr>ep_ctl_answers := fst (kernel_run K calls) @ as\<rparr>) = Inr (w'\<lparr>ep_ctl_answers := as\<rparr>))"
  using assms by (rule apply_changes_kernel)

theorem epoll_changes_reach_kernel_witness:
  "\<exists>calls w'. snd (kernel_run [7 \<mapsto> 4] calls) 7 = Some (read_event OR EPOLLET) \<and>
     apply_changes [1] (sample_epoll\<lparr>ep_ctl_answers := fst (kernel_run [7 \<mapsto> 4] calls)\<rparr>) = Inr (w'\<lparr>ep_ctl_answers := []\<rparr>)"
proof -
  have wf: "wf_with [1] sample_epoll"
    using sample_epoll_wf by (simp add: epoll_wf_def sample_epoll_defs)
  have w: "info_num sample_epoll 1 = 7" "wanted sample_epoll 1 = Some (read_event OR EPOLLET)"
    by (simp_all add: info_num_def wanted_def sample_epoll_defs is_none_evt_def is_reading_def is_writing_def
        read_event_def EV_ET_def)
  obtain calls w' where s: "synced [1] sample_epoll [7 \<mapsto> 4] calls w'" and r:
      "\<forall>as. apply_changes [1] (sample_epoll\<lparr>ep_ctl_answers := fst (kernel_run [7 \<mapsto> 4] calls) @ as\<rparr>) = Inr (w'\<lparr>ep_ctl_answers := as\<rparr>)"
    using epoll_changes_reach_kernel [OF wf, of "[7 \<mapsto> 4]"] w by auto
  show ?thesis using syncedD(3) [OF s, of 1] w r [rule_format, of "[]"] by (intro exI conjI) auto
qed

text \<open>
  C6. \<^verbatim>\<open>epoll::do_ready_tasks\<close> handles exactly the actions that were ready when it started,
  each once and in order, also when callbacks make more actions ready meanwhile: those wait
  for the next round, so the round ends, and the pops never meet an empty queue. The
  hypothesis says that callbacks only add to the queue, as the submissions do.
\<close>

theorem epoll_ready_round:
  assumes "appends_ready usr"
  shows "do_ready_tasks usr w = handle_queue usr (ep_ready w) w"
  using ready_loop_queue [OF assms, of "ep_ready w" w] by (simp add: do_ready_tasks_def)

theorem epoll_ready_round_witness:
  "do_ready_tasks quiet_ep (sample_epoll\<lparr>ep_ready := [0, 0]\<rparr>) = Inr (sample_epoll\<lparr>ep_ready := []\<rparr>)"
proof -
  have "appends_ready quiet_ep" by (auto simp: appends_ready_def quiet_ep_def)
  from epoll_ready_round [OF this, of "sample_epoll\<lparr>ep_ready := [0, 0]\<rparr>"] show ?thesis
    by (simp add: sample_epoll_defs handle_events_def get_action_def)
qed

lemma submit_read_queued:
  assumes "epoll_wf w" "epoll_is_inited w" "0 \<le> fd_num fd" "fd_type fd \<noteq> UNKNOWN_FD" "cnt = 0 \<or> buffer \<noteq> None"
  shows "\<exists>w' i x e. epoll_submit_async_read fd buffer cnt cb opt w = Inr (0, w') \<and> epoll_wf w' \<and>
    entry w' (fd_key fd) i x e \<and> (\<forall>n. cb = Some n \<longrightarrow> ea_read_cb e = Some (Cb_user n)) \<and>
    (fd_type fd \<noteq> FILE_FD \<longrightarrow> ei_events x AND EV_READ \<noteq> 0) \<and>
    (if (case opt of Some o' \<Rightarrow> ro_is_submit o' | None \<Rightarrow> True)
     then ea_pending_read e = queue_of ea_pending_read w (fd_key fd) @ [read_task_of buffer cnt opt] \<and>
          ea_nonsub_read e = queue_of ea_nonsub_read w (fd_key fd) \<and>
          (ea_readable e \<longrightarrow> ei_action x \<in> set (ep_ready w'))
     else ea_pending_read e = queue_of ea_pending_read w (fd_key fd) \<and>
          ea_nonsub_read e = queue_of ea_nonsub_read w (fd_key fd) @ [read_task_of buffer cnt opt] \<and>
          ei_action x \<in> set (ep_non_submit w'))" (is "\<exists>w' i x e. _ \<and> _ \<and> _ \<and> _ \<and> _ \<and> (if ?sub then _ else _)")
proof -
  let ?k = "fd_key fd" and ?t = "read_task_of buffer cnt opt"
  from find_or_create_queue [OF assms(1,4)] obtain i w1 x e where
    1: "find_or_create_info fd w = Inr (i, w1)" "epoll_wf w1" "entry w1 ?k i x e"
    and q: "ea_pending_read e = queue_of ea_pending_read w ?k" "ea_nonsub_read e = queue_of ea_nonsub_read w ?k"
    by (metis insertI1 insertI2)
  let ?e2 = "case cb of None \<Rightarrow> e | Some n \<Rightarrow> set_read_callback (Cb_user n) e"
  obtain w2 where 2: "(case cb of None \<Rightarrow> Inr w1 | Some n \<Rightarrow> modify_action (ei_action x) (set_read_callback (Cb_user n)) w1) = Inr w2"
      "epoll_wf w2" "entry w2 ?k i x ?e2"
    using entry_modify_if [OF 1(2,3), of "\<lambda>n. set_read_callback (Cb_user n)" cb] by (auto simp: set_read_callback_def)
  have er: "EV_READ \<noteq> 0" by (simp add: EV_READ_def)
  obtain w3 x3 where 3: "(if fd_type fd \<noteq> FILE_FD then note_event i EV_READ w2 else Inr w2) = Inr w3" "epoll_wf w3"
      "entry w3 ?k i x3 ?e2" "ei_action x3 = ei_action x" "fd_type fd \<noteq> FILE_FD \<Longrightarrow> ei_events x3 AND EV_READ \<noteq> 0"
    using entry_note_if [OF 2(2,3) er] by metis
  define off where "off = (case opt of Some o' \<Rightarrow> if ro_offset o' \<noteq> UINT64_MAX then Some (ro_offset o') else None | None \<Rightarrow> None)"
  let ?e4 = "case off of None \<Rightarrow> ?e2 | Some v \<Rightarrow> ?e2\<lparr>ea_read_offset := v\<rparr>"
  obtain w4 where 4: "(case off of None \<Rightarrow> Inr w3 | Some v \<Rightarrow> modify_action (ei_action x3) (\<lambda>e. e\<lparr>ea_read_offset := v\<rparr>) w3) = Inr w4"
      "epoll_wf w4" "entry w4 ?k i x3 ?e4"
    using entry_modify_if [OF 3(2,3), of "\<lambda>v e. e\<lparr>ea_read_offset := v\<rparr>" off] by auto
  have off4: "(case opt of
                 Some o' \<Rightarrow> if ro_offset o' \<noteq> UINT64_MAX
                            then modify_action (ei_action x) (\<lambda>e. e\<lparr>ea_read_offset := ro_offset o'\<rparr>) w3 else Inr w3
               | None \<Rightarrow> Inr w3) = Inr w4"
    using 4(1) 3(4) by (auto simp: off_def split: option.splits if_splits)
  have e4: "ea_pending_read ?e4 = ea_pending_read e" "ea_nonsub_read ?e4 = ea_nonsub_read e"
      "\<forall>n. cb = Some n \<longrightarrow> ea_read_cb ?e4 = Some (Cb_user n)"
    by (auto simp: set_read_callback_def split: option.splits)
  have head: "epoll_submit_async_read fd buffer cnt cb opt w =
      (if ?sub then bindE (modify_action (ei_action x) (add_read_task ?t) w4) (\<lambda>w.
                bindE (push_ready_if ea_readable (ei_action x) w) (\<lambda>w. Inr (0, w)))
       else bindE (modify_action (ei_action x) (add_non_submit_read_task ?t) w4) (\<lambda>w.
                Inr (0, insert_non_submit (ei_action x) w)))"
    using assms(2,3,5) 1(1) entry_get_info [OF 1(3)] 2(1) 3(1) off4
    by (auto simp: epoll_submit_async_read_def read_task_of_def Let_def)
  show ?thesis
  proof (cases ?sub)
    case True
    obtain w5 where 5: "modify_action (ei_action x3) (add_read_task ?t) w4 = Inr w5" "epoll_wf w5"
        "entry w5 ?k i x3 (add_read_task ?t ?e4)"
      using entry_modify [OF 4(2,3), of "add_read_task ?t"] by (auto simp: add_read_task_def)
    obtain w6 where "push_ready_if ea_readable (ei_action x3) w5 = Inr w6" "epoll_wf w6"
        "entry w6 ?k i x3 (add_read_task ?t ?e4)" "ea_readable (add_read_task ?t ?e4) \<Longrightarrow> ei_action x3 \<in> set (ep_ready w6)"
      using entry_push_ready [OF 5(2,3), of ea_readable] by metis
    then show ?thesis using head True 5(1) 3(4,5) e4 q
      by (intro exI [of _ w6] exI [of _ i] exI [of _ x3] exI [of _ "add_read_task ?t ?e4"]) (auto simp: add_read_task_def)
  next
    case False
    obtain w5 where 5: "modify_action (ei_action x3) (add_non_submit_read_task ?t) w4 = Inr w5" "epoll_wf w5"
        "entry w5 ?k i x3 (add_non_submit_read_task ?t ?e4)"
      using entry_modify [OF 4(2,3), of "add_non_submit_read_task ?t"] by (auto simp: add_non_submit_read_task_def)
    note ns = entry_non_submit [OF 5(2,3)]
    show ?thesis using head False 5(1) 3(4,5) e4 q ns
      by (intro exI [of _ "insert_non_submit (ei_action x3) w5"] exI [of _ i] exI [of _ x3]
            exI [of _ "add_non_submit_read_task ?t ?e4"]) (auto simp: add_non_submit_read_task_def)
  qed
qed

text \<open>
  C5. \<^verbatim>\<open>epoll::submit_async_read\<close> on a well-formed backend returns 0, keeps the invariant and
  puts exactly one task at the end of the descriptor's queue: the queue of pending reads
  when the request is submitted at once, with the action also queued as ready when it is
  readable, and else the queue of reads that wait for \<^verbatim>\<open>submit\<close>. The callback is stored,
  and for anything but a file the read bit is among the events of the entry.
\<close>

theorem epoll_submit_read_queues:
  assumes "epoll_wf w" "epoll_is_inited w" "0 \<le> fd_num fd" "fd_type fd \<noteq> UNKNOWN_FD" "cnt = 0 \<or> buffer \<noteq> None"
  shows "\<exists>w' i x e. epoll_submit_async_read fd buffer cnt cb opt w = Inr (0, w') \<and> epoll_wf w' \<and>
    entry w' (fd_key fd) i x e \<and> (\<forall>n. cb = Some n \<longrightarrow> ea_read_cb e = Some (Cb_user n)) \<and>
    (fd_type fd \<noteq> FILE_FD \<longrightarrow> ei_events x AND EV_READ \<noteq> 0) \<and>
    (if (case opt of Some o' \<Rightarrow> ro_is_submit o' | None \<Rightarrow> True)
     then ea_pending_read e = queue_of ea_pending_read w (fd_key fd) @ [read_task_of buffer cnt opt] \<and>
          ea_nonsub_read e = queue_of ea_nonsub_read w (fd_key fd) \<and>
          (ea_readable e \<longrightarrow> ei_action x \<in> set (ep_ready w'))
     else ea_pending_read e = queue_of ea_pending_read w (fd_key fd) \<and>
          ea_nonsub_read e = queue_of ea_nonsub_read w (fd_key fd) @ [read_task_of buffer cnt opt] \<and>
          ei_action x \<in> set (ep_non_submit w'))"
  using submit_read_queued [OF assms] .

theorem epoll_submit_read_queues_witness:
  "\<exists>w' i x e. epoll_submit_async_read (mk_fd 7 TCP_FD) (Some [mk_iovec 0 4]) 1 (Some 9) None sample_epoll = Inr (0, w') \<and>
     entry w' 7 i x e \<and> ea_read_cb e = Some (Cb_user 9) \<and> ea_pending_read e = [read_task_of (Some [mk_iovec 0 4]) 1 None]"
proof -
  have "epoll_is_inited sample_epoll" "queue_of ea_pending_read sample_epoll 7 = []"
    by (simp_all add: sample_epoll_defs epoll_is_inited_def INVALID_FD_def queue_of_def fd_action_def om_simps)
  then show ?thesis
    using epoll_submit_read_queues [OF sample_epoll_wf, of "mk_fd 7 TCP_FD" 1 "Some [mk_iovec 0 4]" "Some 9" None]
    by (fastforce simp: fd_key_7 mk_fd_def)
qed

text \<open>
  A read that is cancelled before the first dispatch and submitted again afterwards is
  never armed. \<^verbatim>\<open>cancel_async_read\<close> does not clear the read bit of the entry, so after a
  read and a write are submitted, the read is cancelled, and the change list is applied, a
  new read finds the bit set and does not go on the change list: the kernel was only told
  \<^verbatim>\<open>EPOLLOUT\<close>, and the pending read waits for an event nobody asked for.
\<close>

theorem epoll_resubmitted_read_not_armed:
  assumes "epoll_is_inited w" "0 < fd_num fd" "fd_type fd = TCP_FD" "opt_map_wf MAX_FD (ep_table w)"
    "opt_map_find MAX_FD (ep_table w) (fd_key fd) = None" "ep_change w = []" "ep_ctl_answers w = None # as"
  shows "\<exists>w'. rearm_trace fd v n w = Inr (0, w') \<and> ep_change w' = [] \<and>
    ep_ctl_log w' = ep_ctl_log w @
      [\<lparr>ctl_op_of = CTL_ADD, ctl_fd = fd_num fd, ctl_events = write_event OR EPOLLET, ctl_ptr = ep_next w\<rparr>] \<and>
    queue_of ea_pending_read w' (fd_key fd) = [read_task_of (Some [v]) 1 None]"
  using assms by (simp add: rearm_defs om_simps Let_def case_prod_beta)

theorem epoll_resubmitted_read_not_armed_witness:
  "\<exists>w'. rearm_trace (mk_fd 7 TCP_FD) (mk_iovec 0 4) 1
      (snd (epoll_init 3 (epoll_new\<lparr>ep_ctl_answers := [None]\<rparr>))) = Inr (0, w') \<and> ep_change w' = []"
  using epoll_resubmitted_read_not_armed
      [of "snd (epoll_init 3 (epoll_new\<lparr>ep_ctl_answers := [None]\<rparr>))" "mk_fd 7 TCP_FD" "[]" "mk_iovec 0 4" 1]
  by (auto simp: epoll_init_def epoll_new_def om_simps mk_fd_def epoll_is_inited_def INVALID_FD_def Let_def)

text \<open>
  \<^verbatim>\<open>epoll::cancel_async_read\<close> with a null callback drops every queued read and then
  returns -1, the value that reports failure.
\<close>

theorem epoll_cancel_read_null_callback:
  assumes "epoll_wf w" "epoll_is_inited w" "0 < fd_num fd" "entry w (fd_key fd) i x e" "is_reading e" "ea_multi e = None"
  shows "\<exists>w'. epoll_cancel_async_read usr fd None w = Inr (- 1, w') \<and>
     queue_of ea_pending_read w' (fd_key fd) = [] \<and> queue_of ea_nonsub_read w' (fd_key fd) = []"
proof -
  let ?e = "e\<lparr>ea_events := ea_events e AND NOT read_event, ea_read_cb := None, ea_pending_read := [],
      ea_nonsub_read := [], ea_has_accept := False\<rparr>"
  let ?w = "set_action (ei_action x) ?e w"
  have x: "opt_map_find MAX_FD (ep_table w) (fd_key fd) = Some i" "ep_infos w i = Some x" "w_actions w (ei_action x) = Some e"
    using assms(4) by (auto simp: entry_def)
  have "disable_read (ei_action x) w = Inr ?w"
    using x assms(6) by (simp add: disable_read_def clear_multishot_task_def get_action_def set_action_def Let_def)
  then show ?thesis using assms x
    by (auto simp: epoll_cancel_async_read_def get_info_def get_action_def set_action_def push_to_change_list_def
       set_info_def queue_of_def fd_action_def)
qed

theorem epoll_cancel_read_null_callback_witness:
  "\<exists>w'. epoll_cancel_async_read quiet_ep (mk_fd 7 TCP_FD) None sample_epoll = Inr (- 1, w') \<and>
     queue_of ea_pending_read w' 7 = []"
proof -
  obtain x e where e: "entry sample_epoll 7 1 x e" "is_reading e" "ea_multi e = None"
    by (auto simp: entry_def sample_epoll_defs om_simps is_reading_def read_event_def)
  have "epoll_is_inited sample_epoll" by (simp add: sample_epoll_defs epoll_is_inited_def INVALID_FD_def)
  then show ?thesis
    using epoll_cancel_read_null_callback [OF sample_epoll_wf, of "mk_fd 7 TCP_FD" 1 x e quiet_ep] e
    by (auto simp: fd_key_7 mk_fd_def)
qed

end
