(* ===== verification/Io_Uring.thy ===== *)
theory Io_Uring
  imports Uring_Wrapper Opt_Map Util
begin

unbundle bit_operations_syntax

text \<open>
  include/event/io_uring.h, source/event/io_uring.cpp, include/event/complete_action.h and
  source/event/complete_action.cpp: the completion backend. Complete actions, event
  information, provided-buffer rings and shared offsets have addresses taken from
  \<open>iu_next\<close>, which starts at 1, so no object has the address 0. A deleted object is absent
  from its map. User functions have numbers; \<open>iu_calls\<close> logs their calls, and a user
  function may call back into the library, so it is a function \<open>usr\<close> on the state.
  \<^verbatim>\<open>IORING_TIMEOUT_MULTISHOT\<close> is defined: it is older than \<^verbatim>\<open>IORING_SETUP_NO_SQARRAY\<close>, which
  \<^verbatim>\<open>init\<close> uses.
\<close>

subsection \<open>Data\<close>

definition IU_MAX_FD :: nat where "IU_MAX_FD = 100000"
definition IORING_CQE_F_BUFFER :: u32 where "IORING_CQE_F_BUFFER = 1"
definition IORING_CQE_F_MORE :: u32 where "IORING_CQE_F_MORE = 2"
definition IORING_TIMEOUT_MULTISHOT :: u32 where "IORING_TIMEOUT_MULTISHOT = 64"
definition MSG_DONTWAIT :: u32 where "MSG_DONTWAIT = 64"
definition POLLIN :: u16 where "POLLIN = 1"
definition POLLOUT :: u16 where "POLLOUT = 4"
definition SIZEOF_RECVMSG_OUT :: nat where "SIZEOF_RECVMSG_OUT = 16"
definition SIZEOF_SOCKADDR_STORAGE :: nat where "SIZEOF_SOCKADDR_STORAGE = 128"

record uring_msg =
  um_iov :: "iovec list option"
  um_iovlen :: nat
  um_name :: bool

text \<open>The lambdas \<^verbatim>\<open>tmp_cb\<close> the operations store, with their captures.\<close>

datatype uring_cb =
    Ucb_Read nat "iovec list option" nat bool
  | Ucb_Group nat bool
  | Ucb_Write nat
  | Ucb_Accept nat nat
  | Ucb_Cancel "nat option"
  | Ucb_Cancel_Checked "nat option"
  | Ucb_Timer nat

record resubmit_func =
  rf_fd :: int
  rf_group :: u32
  rf_msg :: sqe_addr
  rf_need_detail :: bool

record complete_action =
  ca_callback :: "uring_cb option"
  ca_addr_buffer :: "nat option"
  ca_offset_enabled :: bool
  ca_offset :: u64
  ca_resubmit :: "resubmit_func option"
  ca_read_msg :: "uring_msg option"
  ca_write_msg :: "uring_msg option"

definition complete_action_new :: complete_action where
  "complete_action_new =
     \<lparr>ca_callback = None, ca_addr_buffer = None, ca_offset_enabled = True, ca_offset = 0, ca_resubmit = None,
      ca_read_msg = None, ca_write_msg = None\<rparr>"

record iouring_event_info =
  ii_read :: "nat option"
  ii_write :: "nat option"
  ii_cancel_read :: "nat option"
  ii_cancel_write :: "nat option"

record last_buffer_info =
  lb_offset :: u32
  lb_index :: u32

record uring_buffer_info =
  ub_base :: "nat option"
  ub_len :: u32
  ub_ring :: nat
  ub_last :: nat
  ub_mask :: u32

record buffer_ring_info =
  bri_ring :: nat
  bri_entry_cnt :: u32
  bri_start_index :: nat

datatype ucall =
    UC_Read nat int "iovec list option" nat bool
  | UC_Write nat int
  | UC_Accept nat int fd_t
  | UC_Cancel nat int
  | UC_Timer nat int

record io_uring =
  iu_ring :: "wrapper option"
  iu_actions :: "nat \<Rightarrow> complete_action option"
  iu_infos :: "nat \<Rightarrow> iouring_event_info option"
  iu_table :: "nat opt_map"
  iu_last_timeout :: int
  iu_tm_out :: "int \<times> int"
  iu_buffers :: "uring_buffer_info list"
  iu_lasts :: "nat \<Rightarrow> last_buffer_info option"
  iu_buf_rings :: "nat \<Rightarrow> buf_ring option"
  iu_groups :: "nat \<Rightarrow> buffer_ring_info option"
  iu_group_id :: u32
  iu_timer_id :: u32
  iu_timers :: "nat \<Rightarrow> nat option"
  iu_next :: nat
  iu_socks :: "nat \<Rightarrow> fd_t option"
  iu_freed :: "nat list"
  iu_calls :: "ucall list"

definition io_uring_new :: io_uring where
  "io_uring_new =
     \<lparr>iu_ring = None, iu_actions = Map.empty, iu_infos = Map.empty, iu_table = opt_map_empty IU_MAX_FD,
      iu_last_timeout = - 1, iu_tm_out = (1000000000, 0), iu_buffers = [], iu_lasts = Map.empty,
      iu_buf_rings = Map.empty, iu_groups = Map.empty, iu_group_id = 0, iu_timer_id = 0, iu_timers = Map.empty,
      iu_next = 1, iu_socks = Map.empty, iu_freed = [], iu_calls = []\<rparr>"

subsection \<open>Access\<close>

definition iu_get_ring :: "'a io_uring_scheme \<Rightarrow> wrapper result" where
  "iu_get_ring w = (case iu_ring w of None \<Rightarrow> Inl Null_Deref | Some r \<Rightarrow> Inr r)"

definition iu_set_ring :: "wrapper \<Rightarrow> 'a io_uring_scheme \<Rightarrow> 'a io_uring_scheme" where
  "iu_set_ring r w = w\<lparr>iu_ring := Some r\<rparr>"

definition ca_get :: "nat \<Rightarrow> 'a io_uring_scheme \<Rightarrow> complete_action result" where
  "ca_get a w = (case iu_actions w a of None \<Rightarrow> Inl Use_After_Free | Some c \<Rightarrow> Inr c)"

definition ca_set :: "nat \<Rightarrow> complete_action \<Rightarrow> 'a io_uring_scheme \<Rightarrow> 'a io_uring_scheme" where
  "ca_set a c w = w\<lparr>iu_actions := (iu_actions w)(a \<mapsto> c)\<rparr>"

definition ca_modify :: "nat \<Rightarrow> (complete_action \<Rightarrow> complete_action) \<Rightarrow> 'a io_uring_scheme \<Rightarrow> 'a io_uring_scheme result" where
  "ca_modify a f w = bindE (ca_get a w) (\<lambda>c. Inr (ca_set a (f c) w))"

definition ca_new :: "complete_action \<Rightarrow> 'a io_uring_scheme \<Rightarrow> nat \<times> 'a io_uring_scheme" where
  "ca_new c w = (iu_next w, ca_set (iu_next w) c (w\<lparr>iu_next := iu_next w + 1\<rparr>))"

definition iu_is_inited :: "'a io_uring_scheme \<Rightarrow> bool" where
  "iu_is_inited w \<longleftrightarrow> iu_ring w \<noteq> None"

definition is_buffer_valid :: "nat \<Rightarrow> 'a io_uring_scheme \<Rightarrow> bool" where
  "is_buffer_valid b w \<longleftrightarrow> b < length (iu_buffers w) \<and> ub_base (iu_buffers w ! b) \<noteq> None"

subsection \<open>Complete actions\<close>

definition set_offset :: "u64 \<Rightarrow> complete_action \<Rightarrow> complete_action" where
  "set_offset off c = c\<lparr>ca_offset := (if ca_offset_enabled c then off else 0)\<rparr>"

definition disable_offset :: "complete_action \<Rightarrow> complete_action" where
  "disable_offset c = c\<lparr>ca_offset_enabled := False\<rparr>"

definition cleanup :: "complete_action \<Rightarrow> complete_action" where
  "cleanup c = c\<lparr>ca_callback := None\<rparr>"

text \<open>\<^verbatim>\<open>get_read_msghdr\<close> and \<^verbatim>\<open>get_write_msghdr\<close>: created once; only the read header has an address buffer.\<close>

definition get_read_msghdr :: "complete_action \<Rightarrow> complete_action" where
  "get_read_msghdr c =
     (case ca_read_msg c of
        Some _ \<Rightarrow> c
      | None \<Rightarrow> c\<lparr>ca_read_msg := Some \<lparr>um_iov = None, um_iovlen = 0, um_name = True\<rparr>\<rparr>)"

definition get_write_msghdr :: "complete_action \<Rightarrow> complete_action" where
  "get_write_msghdr c =
     (case ca_write_msg c of
        Some _ \<Rightarrow> c
      | None \<Rightarrow> c\<lparr>ca_write_msg := Some \<lparr>um_iov = None, um_iovlen = 0, um_name = False\<rparr>\<rparr>)"

definition msg_set_iov :: "iovec list option \<Rightarrow> nat \<Rightarrow> uring_msg option \<Rightarrow> uring_msg option" where
  "msg_set_iov iov cnt m = map_option (\<lambda>m. m\<lparr>um_iov := iov, um_iovlen := cnt\<rparr>) m"

type_synonym 'a uusr = "ucall \<Rightarrow> 'a io_uring_scheme \<Rightarrow> 'a io_uring_scheme result"

definition ulog :: "'a uusr \<Rightarrow> ucall \<Rightarrow> 'a io_uring_scheme \<Rightarrow> 'a io_uring_scheme result" where
  "ulog usr c w = usr c (w\<lparr>iu_calls := iu_calls w @ [c]\<rparr>)"

text \<open>
  A call of a stored lambda with the result and the buffer of \<^verbatim>\<open>complete_callback\<close>. The
  lambda of a group read with socket details skips the header the kernel put into the
  block; its payload length is the result less the header and the address.
\<close>

fun call_lambda :: "'a uusr \<Rightarrow> uring_cb \<Rightarrow> int \<Rightarrow> iovec \<Rightarrow> 'a io_uring_scheme \<Rightarrow> 'a io_uring_scheme result" where
  "call_lambda usr (Ucb_Read n buf cnt msg) res iov w = ulog usr (UC_Read n res buf cnt msg) w"
| "call_lambda usr (Ucb_Group n need) res iov w =
     (if \<not> need \<or> res \<le> 0 then ulog usr (UC_Read n res (Some [iov]) 1 False) w
      else
        let hdr = SIZEOF_RECVMSG_OUT + SIZEOF_SOCKADDR_STORAGE
        in ulog usr (UC_Read n res (Some [mk_iovec (iov_base iov + hdr) (nat res - hdr)]) 1 True) w)"
| "call_lambda usr (Ucb_Write n) res iov w = ulog usr (UC_Write n res) w"
| "call_lambda usr (Ucb_Accept n b) res iov w =
     (let fd = (if 0 < res then mk_fd res TCP_FD else fd_default)
      in ulog usr (UC_Accept n res fd) (w\<lparr>iu_socks := (iu_socks w)(b \<mapsto> fd)\<rparr>))"
| "call_lambda usr (Ucb_Cancel cb) res iov w =
     (case cb of None \<Rightarrow> Inl Bad_Function_Call | Some n \<Rightarrow> ulog usr (UC_Cancel n res) w)"
| "call_lambda usr (Ucb_Cancel_Checked cb) res iov w =
     (case cb of None \<Rightarrow> Inr w | Some n \<Rightarrow> ulog usr (UC_Cancel n res) w)"
| "call_lambda usr (Ucb_Timer n) res iov w =
     ulog usr (UC_Timer n (if res = - int ETIME then 0 else res)) w"

definition complete_callback :: "'a uusr \<Rightarrow> nat \<Rightarrow> cqe \<Rightarrow> nat \<Rightarrow> 'a io_uring_scheme \<Rightarrow> 'a io_uring_scheme result" where
  "complete_callback usr a c buffer w =
     bindE (ca_get a w) (\<lambda>ca.
     case ca_callback ca of
       None \<Rightarrow> Inr w
     | Some cb \<Rightarrow>
         let ca = (if 0 < ce_res c \<and> ca_offset_enabled ca
                   then ca\<lparr>ca_offset := ca_offset ca + word_of_int (ce_res c)\<rparr> else ca);
             len = (if 0 < ce_res c \<and> ce_flags c AND IORING_CQE_F_BUFFER \<noteq> 0 then nat (ce_res c) else 0)
         in call_lambda usr cb (ce_res c) (mk_iovec buffer len) (ca_set a ca w))"

subsection \<open>Event information\<close>

definition ii_get :: "nat \<Rightarrow> 'a io_uring_scheme \<Rightarrow> iouring_event_info result" where
  "ii_get i w = (case iu_infos w i of None \<Rightarrow> Inl Use_After_Free | Some x \<Rightarrow> Inr x)"

definition ii_set :: "nat \<Rightarrow> iouring_event_info \<Rightarrow> 'a io_uring_scheme \<Rightarrow> 'a io_uring_scheme" where
  "ii_set i x w = w\<lparr>iu_infos := (iu_infos w)(i \<mapsto> x)\<rparr>"

definition get_read_complete_action :: "nat \<Rightarrow> fd_t \<Rightarrow> 'a io_uring_scheme \<Rightarrow> (nat \<times> 'a io_uring_scheme) result" where
  "get_read_complete_action i fd w =
     bindE (ii_get i w) (\<lambda>x.
     case ii_read x of
       Some a \<Rightarrow> Inr (a, w)
     | None \<Rightarrow>
         let c = (if fd_type fd = SIGNAL_FD \<or> fd_type fd = TIMER_FD \<or> fd_type fd = EVENT_FD
                  then disable_offset complete_action_new else complete_action_new);
             (a, w) = ca_new c w
         in Inr (a, ii_set i (x\<lparr>ii_read := Some a\<rparr>) w))"

definition get_write_complete_action :: "nat \<Rightarrow> 'a io_uring_scheme \<Rightarrow> (nat \<times> 'a io_uring_scheme) result" where
  "get_write_complete_action i w =
     bindE (ii_get i w) (\<lambda>x.
     case ii_write x of
       Some a \<Rightarrow> Inr (a, w)
     | None \<Rightarrow>
         let (a, w) = ca_new complete_action_new w in Inr (a, ii_set i (x\<lparr>ii_write := Some a\<rparr>) w))"

definition get_cancel_read_complete_action :: "nat \<Rightarrow> 'a io_uring_scheme \<Rightarrow> (nat \<times> 'a io_uring_scheme) result" where
  "get_cancel_read_complete_action i w =
     bindE (ii_get i w) (\<lambda>x.
     case ii_cancel_read x of
       Some a \<Rightarrow> Inr (a, w)
     | None \<Rightarrow>
         let (a, w) = ca_new complete_action_new w in Inr (a, ii_set i (x\<lparr>ii_cancel_read := Some a\<rparr>) w))"

definition get_cancel_write_complete_action :: "nat \<Rightarrow> 'a io_uring_scheme \<Rightarrow> (nat \<times> 'a io_uring_scheme) result" where
  "get_cancel_write_complete_action i w =
     bindE (ii_get i w) (\<lambda>x.
     case ii_cancel_write x of
       Some a \<Rightarrow> Inr (a, w)
     | None \<Rightarrow>
         let (a, w) = ca_new complete_action_new w in Inr (a, ii_set i (x\<lparr>ii_cancel_write := Some a\<rparr>) w))"

text \<open>The block of the submissions that looks the descriptor up and creates a missing entry.\<close>

definition find_or_create_iinfo :: "fd_t \<Rightarrow> 'a io_uring_scheme \<Rightarrow> (nat \<times> 'a io_uring_scheme) result" where
  "find_or_create_iinfo fd w =
     (case opt_map_find IU_MAX_FD (iu_table w) (fd_key fd) of
        Some i \<Rightarrow> Inr (i, w)
      | None \<Rightarrow>
          let i = iu_next w;
              (ok, tbl) = opt_map_insert IU_MAX_FD (iu_table w) (fd_key fd) (Some i)
          in bindE (assertE ok) (\<lambda>_.
             Inr (i, ii_set i \<lparr>ii_read = None, ii_write = None, ii_cancel_read = None, ii_cancel_write = None\<rparr>
                       (w\<lparr>iu_table := tbl, iu_next := i + 1\<rparr>))))"

subsection \<open>Entries and submission\<close>

definition iu_wrapper_submit :: "'a io_uring_scheme \<Rightarrow> (int \<times> 'a io_uring_scheme) result" where
  "iu_wrapper_submit w =
     bindE (iu_get_ring w) (\<lambda>r. bindE (wrapper_submit r) (\<lambda>(ret, r). Inr (ret, iu_set_ring r w)))"

definition get_io_uring_sqe :: "'a io_uring_scheme \<Rightarrow> (nat option \<times> 'a io_uring_scheme) result" where
  "get_io_uring_sqe w =
     bindE (iu_get_ring w) (\<lambda>r.
     bindE (get_sqe r) (\<lambda>(s, r).
     case s of
       Some i \<Rightarrow> Inr (Some i, iu_set_ring r w)
     | None \<Rightarrow>
         bindE (wrapper_submit r) (\<lambda>(ret, r).
         if ret \<noteq> 0 then Inr (None, iu_set_ring r w)
         else bindE (get_sqe r) (\<lambda>(s, r). Inr (s, iu_set_ring r w)))))"

definition iu_fill :: "nat \<Rightarrow> (sqe \<Rightarrow> sqe) \<Rightarrow> 'a io_uring_scheme \<Rightarrow> 'a io_uring_scheme result" where
  "iu_fill i f w = bindE (iu_get_ring w) (\<lambda>r. Inr (iu_set_ring (modify_sqe i f r) w))"

text \<open>The end of the operations: \<^verbatim>\<open>submit\<close> and the check \<^verbatim>\<open>ret > 0\<close>.\<close>

definition submit_checked :: "'a io_uring_scheme \<Rightarrow> (int \<times> 'a io_uring_scheme) result" where
  "submit_checked w = bindE (iu_wrapper_submit w) (\<lambda>(ret, w). Inr (if 0 < ret then 0 else - 1, w))"

definition iu_submit :: "'a io_uring_scheme \<Rightarrow> (int \<times> 'a io_uring_scheme) result" where
  "iu_submit w = (if \<not> iu_is_inited w then Inr (- 1, w) else submit_checked w)"

definition iu_init ::
  "(u32 \<Rightarrow> uring_params \<Rightarrow> int \<times> uring_params) \<Rightarrow> nat option \<Rightarrow> nat option \<Rightarrow> nat option \<Rightarrow> kernel_rings \<Rightarrow> wrapper
   \<Rightarrow> u32 \<Rightarrow> 'a io_uring_scheme \<Rightarrow> bool \<times> 'a io_uring_scheme" where
  "iu_init setup m_sq m_cq m_sqes k fresh cnt w =
     (let param = \<lparr>up_flags = IORING_SETUP_CQE32 OR IORING_SETUP_NO_SQARRAY, up_features = 0, up_sq_entries = 0,
                   up_cq_entries = 0, up_sq_off_array = 0, up_cq_off_cqes = 0\<rparr>;
          (ret, r) = wrapper_init setup m_sq m_cq m_sqes k cnt param fresh
      in (ret = 0, iu_set_ring r w))"

subsection \<open>Timers\<close>

definition submit_timeout :: "u64 \<Rightarrow> u64 \<Rightarrow> nat \<Rightarrow> 'a io_uring_scheme \<Rightarrow> (int \<times> 'a io_uring_scheme) result" where
  "submit_timeout interval_s interval_ns a w =
     bindE (get_io_uring_sqe w) (\<lambda>(s, w).
     case s of
       None \<Rightarrow> Inr (- 1, w)
     | Some i \<Rightarrow>
         bindE (iu_fill i (\<lambda>e. set_user_data a
                  (prepare_timeout (A_Time interval_s interval_ns) 1 IORING_TIMEOUT_MULTISHOT e)) w)
           submit_checked)"

definition iu_create_timer :: "u64 \<Rightarrow> u64 \<Rightarrow> nat option \<Rightarrow> 'a io_uring_scheme \<Rightarrow> (int \<times> 'a io_uring_scheme) result" where
  "iu_create_timer interval_s interval_ns cb w =
     (if (interval_s = 0 \<and> interval_ns = 0) \<or> cb = None then Inr (- 1, w)
      else
        let (a, w) = ca_new (complete_action_new\<lparr>ca_callback := map_option Ucb_Timer cb\<rparr>) w
        in bindE (submit_timeout interval_s interval_ns a w) (\<lambda>(ret, w).
           if ret \<noteq> 0 then Inr (- 1, w\<lparr>iu_actions := (iu_actions w)(a := None)\<rparr>)
           else Inr (i32_of_u32 (iu_timer_id w),
                     w\<lparr>iu_timers := (iu_timers w)(unat (iu_timer_id w) \<mapsto> a), iu_timer_id := iu_timer_id w + 1\<rparr>)))"

definition iu_close_timer :: "int \<Rightarrow> 'a io_uring_scheme \<Rightarrow> (int \<times> 'a io_uring_scheme) result" where
  "iu_close_timer timer_id w =
     (let key = unat (word_of_int timer_id :: u32)
      in case iu_timers w key of
           None \<Rightarrow> Inr (- 1, w)
         | Some a \<Rightarrow>
             bindE (ca_modify a cleanup w) (\<lambda>w.
             bindE (get_io_uring_sqe w) (\<lambda>(s, w).
             case s of
               None \<Rightarrow> Inr (- 1, w)
             | Some i \<Rightarrow>
                 bindE (iu_fill i (prepare_cancel (A_Action a) 0) w) (\<lambda>w.
                 bindE (submit_checked w) (\<lambda>(ret, w).
                 if ret \<noteq> 0 then Inr (- 1, w)
                 else Inr (0, w\<lparr>iu_timers := (iu_timers w)(key := None), iu_actions := (iu_actions w)(a := None)\<rparr>))))))"

subsection \<open>Provided buffers\<close>

text \<open>\<^verbatim>\<open>alloc_aligned_mem(block_size, 4096)\<close> for each block, up to the first failure.\<close>

fun alloc_blocks :: "(nat \<Rightarrow> nat option) \<Rightarrow> nat \<Rightarrow> nat \<Rightarrow> nat list option" where
  "alloc_blocks alloc i 0 = Some []"
| "alloc_blocks alloc i (Suc n) =
     (case alloc i of None \<Rightarrow> None | Some a \<Rightarrow> map_option (\<lambda>as. a # as) (alloc_blocks alloc (Suc i) n))"

fun add_blocks :: "nat list \<Rightarrow> u32 \<Rightarrow> nat \<Rightarrow> nat \<Rightarrow> u32 \<Rightarrow> u32 \<Rightarrow> buf_ring \<Rightarrow> uring_buffer_info list
    \<Rightarrow> (buf_ring \<times> uring_buffer_info list) result" where
  "add_blocks [] block_size br lst msk i ring bufs = Inr (ring, bufs)"
| "add_blocks (a # as) block_size br lst msk i ring bufs =
     bindE (add_buf_ring a block_size (word_of_nat (length bufs)) msk i ring) (\<lambda>ring.
     add_blocks as block_size br lst msk (i + 1) ring
       (bufs @ [\<lparr>ub_base = Some a, ub_len = block_size, ub_ring = br, ub_last = lst, ub_mask = msk\<rparr>]))"

text \<open>
  \<open>reg\<close>, \<open>mem\<close> and \<open>alloc\<close> are the answers of the kernel and the allocator. On a failed
  allocation the code calls \<^verbatim>\<open>free\<close> on the ring, which \<^verbatim>\<open>mmap\<close> returned.
\<close>

definition iu_register_ring_buffer ::
  "nat option \<Rightarrow> nat + nat \<Rightarrow> (nat \<Rightarrow> nat option) \<Rightarrow> u32 \<Rightarrow> u32 \<Rightarrow> 'a io_uring_scheme \<Rightarrow> (int \<times> 'a io_uring_scheme) result" where
  "iu_register_ring_buffer reg mem alloc block_size block_count w =
     (if \<not> (0 < block_size \<and> 0 < block_count) then Inr (- 1, w)
      else if \<not> is_power_of_2 (ucast block_count) then Inr (- 1, w)
      else
        bindE (iu_get_ring w) (\<lambda>_.
        let msk = buf_ring_mask block_count; grp = unat (ucast (iu_group_id w) :: u16);
            w = w\<lparr>iu_group_id := iu_group_id w + 1\<rparr>
        in case setup_buf_ring reg mem block_count of
             (_, None) \<Rightarrow> Inr (- 1, w)
           | (_, Some (br, ring)) \<Rightarrow>
               (case alloc_blocks alloc 0 (unat block_count) of
                  None \<Rightarrow> Inl Bad_Free
                | Some addrs \<Rightarrow>
                    let lst = iu_next w; start_index = length (iu_buffers w)
                    in bindE (add_blocks addrs block_size br lst msk 0 ring (iu_buffers w)) (\<lambda>(ring, bufs).
                       let w = w\<lparr>iu_next := lst + 1,
                                 iu_lasts := (iu_lasts w)(lst \<mapsto> \<lparr>lb_offset = 0, lb_index = UINT32_MAX\<rparr>),
                                 iu_buffers := bufs,
                                 iu_buf_rings := (iu_buf_rings w)(br \<mapsto> buf_ring_advance block_count ring)\<rparr>
                       in Inr (int grp,
                            if iu_groups w grp = None
                            then w\<lparr>iu_groups := (iu_groups w)
                                     (grp \<mapsto> \<lparr>bri_ring = br, bri_entry_cnt = block_count, bri_start_index = start_index\<rparr>)\<rparr>
                            else w)))))"

text \<open>
  The loop of \<^verbatim>\<open>unregister_ring_buffer\<close>; \<open>n\<close> counts the remaining values of \<^verbatim>\<open>idx\<close>, and
  every round looks at \<^verbatim>\<open>buffers_[start_index]\<close>. \<open>Inl\<close> of the inner sum is the early
  return.
\<close>

fun unregister_loop :: "buffer_ring_info \<Rightarrow> nat \<Rightarrow> bool \<Rightarrow> 'a io_uring_scheme \<Rightarrow> ('a io_uring_scheme + (bool \<times> 'a io_uring_scheme))" where
  "unregister_loop info 0 has_freed w = Inr (has_freed, w)"
| "unregister_loop info (Suc n) has_freed w =
     (let buf = iu_buffers w ! bri_start_index info
      in if bri_ring info \<noteq> ub_ring buf then unregister_loop info n has_freed w
         else case ub_base buf of
                None \<Rightarrow> Inl w
              | Some a \<Rightarrow>
                  unregister_loop info n True
                    (w\<lparr>iu_freed := iu_freed w @ [a],
                       iu_buffers := (iu_buffers w)[bri_start_index info := buf\<lparr>ub_base := None\<rparr>]\<rparr>))"

definition iu_unregister_ring_buffer ::
  "nat option \<Rightarrow> nat option \<Rightarrow> u16 \<Rightarrow> 'a io_uring_scheme \<Rightarrow> (int \<times> 'a io_uring_scheme) result" where
  "iu_unregister_ring_buffer reg unm grp w =
     (case iu_groups w (unat grp) of
        None \<Rightarrow> Inr (- 1, w)
      | Some info \<Rightarrow>
          bindE (iu_get_ring w) (\<lambda>_.
          if free_buf_ring reg unm \<noteq> 0
          then Inr (- 1, w)
          else
            let w = w\<lparr>iu_buf_rings := (iu_buf_rings w)(bri_ring info := None)\<rparr>
            in case unregister_loop info (length (iu_buffers w) - bri_start_index info) False w of
                 Inl w \<Rightarrow> Inr (- 1, w)
               | Inr (has_freed, w) \<Rightarrow>
                   if \<not> has_freed then Inr (- 1, w)
                   else Inr (0, w\<lparr>iu_groups := (iu_groups w)(unat grp := None)\<rparr>)))"

subsection \<open>Requests\<close>

definition iu_submit_async_accept :: "fd_t \<Rightarrow> nat option \<Rightarrow> nat option \<Rightarrow> 'a io_uring_scheme \<Rightarrow> (int \<times> 'a io_uring_scheme) result" where
  "iu_submit_async_accept listen_fd addr_buffer cb w =
     (case addr_buffer of
        None \<Rightarrow> Inr (- 1, w)
      | Some b \<Rightarrow>
          if \<not> iu_is_inited w \<or> fd_num listen_fd < 0 then Inr (- 1, w)
          else
            bindE (get_io_uring_sqe w) (\<lambda>(s, w).
            case s of
              None \<Rightarrow> Inr (- 1, w)
            | Some i \<Rightarrow>
                bindE (find_or_create_iinfo listen_fd w) (\<lambda>(info, w).
                bindE (get_read_complete_action info listen_fd w) (\<lambda>(a, w).
                bindE (ca_modify a (\<lambda>c. c\<lparr>ca_addr_buffer := Some b\<rparr>) w) (\<lambda>w.
                bindE (iu_fill i (\<lambda>e. set_user_data a
                         (prepare_accept_multishot (fd_num listen_fd) (A_Sock b) Off_Sock_Len 0 e)) w) (\<lambda>w.
                bindE (case cb of
                         None \<Rightarrow> Inr w
                       | Some n \<Rightarrow> ca_modify a (\<lambda>c. c\<lparr>ca_callback := Some (Ucb_Accept n b)\<rparr>) w)
                  submit_checked))))))"

definition iu_cancel_async_accept :: "fd_t \<Rightarrow> nat option \<Rightarrow> 'a io_uring_scheme \<Rightarrow> (int \<times> 'a io_uring_scheme) result" where
  "iu_cancel_async_accept fd cb w =
     (if \<not> iu_is_inited w \<or> fd_num fd < 0 then Inr (- 1, w)
      else case opt_map_find IU_MAX_FD (iu_table w) (fd_key fd) of
        None \<Rightarrow> Inr (- 1, w)
      | Some info \<Rightarrow>
          bindE (get_cancel_read_complete_action info w) (\<lambda>(a, w).
          bindE (ca_modify a (\<lambda>c. c\<lparr>ca_callback := Some (Ucb_Cancel cb)\<rparr>) w) (\<lambda>w.
          bindE (get_io_uring_sqe w) (\<lambda>(s, w).
          case s of
            None \<Rightarrow> Inr (- 1, w)
          | Some i \<Rightarrow> bindE (iu_fill i (prepare_cancel_by_fd (A_Action a) (fd_num fd)) w) submit_checked))))"

definition is_tcp_udp :: "fd_t \<Rightarrow> bool" where
  "is_tcp_udp fd \<longleftrightarrow> fd_type fd = TCP_FD \<or> fd_type fd = UDP_FD"

definition iu_submit_async_write ::
  "fd_t \<Rightarrow> iovec list option \<Rightarrow> nat \<Rightarrow> nat option \<Rightarrow> write_options option \<Rightarrow> 'a io_uring_scheme \<Rightarrow> (int \<times> 'a io_uring_scheme) result" where
  "iu_submit_async_write fd buffer cnt cb opt w =
     (if \<not> iu_is_inited w \<or> fd_num fd < 0 \<or> (0 < cnt \<and> buffer = None) then Inr (- 1, w)
      else
        bindE (get_io_uring_sqe w) (\<lambda>(s, w).
        case s of
          None \<Rightarrow> Inr (- 1, w)
        | Some i \<Rightarrow>
            bindE (find_or_create_iinfo fd w) (\<lambda>(info, w).
            bindE (get_write_complete_action info w) (\<lambda>(a, w).
            bindE (case cb of
                     None \<Rightarrow> Inr w
                   | Some n \<Rightarrow> ca_modify a (\<lambda>c. c\<lparr>ca_callback := Some (Ucb_Write n)\<rparr>) w) (\<lambda>w.
            bindE (ca_get a w) (\<lambda>c.
            let (offset, c) = (case opt of
                   Some o' \<Rightarrow> if wo_offset o' \<noteq> UINT64_MAX then (wo_offset o', set_offset (wo_offset o') c)
                              else (ca_offset c, c)
                 | None \<Rightarrow> (ca_offset c, c));
                is_submit = (case opt of Some o' \<Rightarrow> wo_is_submit o' | None \<Rightarrow> True);
                (prep, c) = (case buffer of
                   None \<Rightarrow> (prepare_poll (fd_num fd) POLLOUT, c)
                 | Some v \<Rightarrow>
                     if is_tcp_udp fd
                     then (prepare_sendmsg (fd_num fd) (A_Write_Msg a) MSG_DONTWAIT,
                           (get_write_msghdr c)\<lparr>ca_write_msg := msg_set_iov buffer cnt (ca_write_msg (get_write_msghdr c))\<rparr>)
                     else (prepare_writev (fd_num fd) (A_Iov v) (word_of_nat cnt) offset, c))
            in bindE (iu_fill i (\<lambda>e. set_user_data a (prep e)) (ca_set a c w)) (\<lambda>w.
               if is_submit then submit_checked w else Inr (0, w))))))))"

definition iu_cancel_async_write :: "fd_t \<Rightarrow> nat option \<Rightarrow> 'a io_uring_scheme \<Rightarrow> (int \<times> 'a io_uring_scheme) result" where
  "iu_cancel_async_write fd cb w =
     (if \<not> iu_is_inited w \<or> fd_num fd < 0 then Inr (- 1, w)
      else case opt_map_find IU_MAX_FD (iu_table w) (fd_key fd) of
        None \<Rightarrow> Inr (- 1, w)
      | Some info \<Rightarrow>
          bindE (get_cancel_write_complete_action info w) (\<lambda>(a, w).
          bindE (ca_modify a (\<lambda>c. c\<lparr>ca_callback := Some (Ucb_Cancel cb)\<rparr>) w) (\<lambda>w.
          bindE (get_io_uring_sqe w) (\<lambda>(s, w).
          case s of
            None \<Rightarrow> Inr (- 1, w)
          | Some i \<Rightarrow> bindE (iu_fill i (prepare_cancel (A_Action a) 0) w) submit_checked))))"

definition iu_submit_async_read_group ::
  "fd_t \<Rightarrow> u32 \<Rightarrow> nat option \<Rightarrow> read_options option \<Rightarrow> 'a io_uring_scheme \<Rightarrow> (int \<times> 'a io_uring_scheme) result" where
  "iu_submit_async_read_group fd grp cb opt w =
     (if \<not> (iu_is_inited w \<and> fd_is_valid fd \<and> is_buffer_valid (unat grp) w) then Inr (- 1, w)
      else if \<not> is_tcp_udp fd then Inr (- 1, w)
      else
        bindE (get_io_uring_sqe w) (\<lambda>(s, w).
        case s of
          None \<Rightarrow> Inr (- 1, w)
        | Some i \<Rightarrow>
            bindE (find_or_create_iinfo fd w) (\<lambda>(info, w).
            bindE (get_read_complete_action info fd w) (\<lambda>(a, w).
            let is_submit = (case opt of Some o' \<Rightarrow> ro_is_submit o' | None \<Rightarrow> True);
                need = (case opt of Some o' \<Rightarrow> ro_need_socket_detail o' | None \<Rightarrow> False);
                msg = (case cb of None \<Rightarrow> A_Null | Some _ \<Rightarrow> A_Read_Msg a);
                prep = (if need then prepare_recvmsg_multishot (fd_num fd) msg 0 (ucast grp)
                        else prepare_recv_multishot (fd_num fd) msg 0 (ucast grp))
            in bindE (ca_modify a (\<lambda>c.
                  (case cb of None \<Rightarrow> c | Some n \<Rightarrow> (get_read_msghdr c)\<lparr>ca_callback := Some (Ucb_Group n need)\<rparr>)
                    \<lparr>ca_resubmit := Some \<lparr>rf_fd = fd_num fd, rf_group = grp, rf_msg = msg, rf_need_detail = need\<rparr>\<rparr>) w) (\<lambda>w.
               bindE (iu_fill i (\<lambda>e. set_user_data a (prep e)) w) (\<lambda>w.
               if is_submit then submit_checked w else Inr (0, w)))))))"

definition iu_submit_async_read ::
  "fd_t \<Rightarrow> iovec list option \<Rightarrow> nat \<Rightarrow> nat option \<Rightarrow> read_options option \<Rightarrow> 'a io_uring_scheme \<Rightarrow> (int \<times> 'a io_uring_scheme) result" where
  "iu_submit_async_read fd buffer cnt cb opt w =
     (if \<not> iu_is_inited w \<or> fd_num fd < 0 \<or> (0 < cnt \<and> buffer = None) then Inr (- 1, w)
      else
        bindE (get_io_uring_sqe w) (\<lambda>(s, w).
        case s of
          None \<Rightarrow> Inr (- 1, w)
        | Some i \<Rightarrow>
            bindE (find_or_create_iinfo fd w) (\<lambda>(info, w).
            bindE (get_read_complete_action info fd w) (\<lambda>(a, w).
            bindE (case cb of
                     None \<Rightarrow> Inr w
                   | Some n \<Rightarrow> ca_modify a (\<lambda>c. (if is_tcp_udp fd then get_read_msghdr c else c)
                                 \<lparr>ca_callback := Some (Ucb_Read n buffer cnt (is_tcp_udp fd))\<rparr>) w) (\<lambda>w.
            bindE (ca_get a w) (\<lambda>c.
            let (offset, c) = (case opt of
                   Some o' \<Rightarrow> if ro_offset o' \<noteq> UINT64_MAX then (ro_offset o', set_offset (ro_offset o') c)
                              else (ca_offset c, c)
                 | None \<Rightarrow> (ca_offset c, c));
                is_submit = (case opt of Some o' \<Rightarrow> ro_is_submit o' | None \<Rightarrow> True);
                (prep, c) = (case buffer of
                   None \<Rightarrow> (prepare_poll (fd_num fd) POLLIN, c)
                 | Some v \<Rightarrow>
                     if is_tcp_udp fd
                     then (prepare_recvmsg (fd_num fd) (A_Read_Msg a) 0,
                           (get_read_msghdr c)\<lparr>ca_read_msg := msg_set_iov buffer cnt (ca_read_msg (get_read_msghdr c))\<rparr>)
                     else (prepare_readv (fd_num fd) (A_Iov v) (word_of_nat cnt) offset, c))
            in bindE (iu_fill i (\<lambda>e. set_user_data a (prep e)) (ca_set a c w)) (\<lambda>w.
               if is_submit then submit_checked w else Inr (0, w))))))))"

definition iu_cancel_async_read :: "fd_t \<Rightarrow> nat option \<Rightarrow> 'a io_uring_scheme \<Rightarrow> (int \<times> 'a io_uring_scheme) result" where
  "iu_cancel_async_read fd cb w =
     (if \<not> iu_is_inited w \<or> \<not> fd_is_valid fd then Inr (- 1, w)
      else case opt_map_find IU_MAX_FD (iu_table w) (fd_key fd) of
        None \<Rightarrow> Inr (- 1, w)
      | Some info \<Rightarrow>
          bindE (get_cancel_read_complete_action info w) (\<lambda>(a, w).
          bindE (ca_modify a (\<lambda>c. c\<lparr>ca_callback := Some (Ucb_Cancel_Checked cb)\<rparr>) w) (\<lambda>w.
          bindE (get_io_uring_sqe w) (\<lambda>(s, w).
          case s of
            None \<Rightarrow> Inr (- 1, w)
          | Some i \<Rightarrow> bindE (iu_fill i (prepare_cancel_by_fd (A_Action a) (fd_num fd)) w) submit_checked))))"

subsection \<open>Dispatch\<close>

definition get_offset :: "u32 \<Rightarrow> last_buffer_info \<Rightarrow> u32" where
  "get_offset buf_index l = (if lb_index l = buf_index then lb_offset l else 0)"

definition update_offset :: "u32 \<Rightarrow> int \<Rightarrow> last_buffer_info \<Rightarrow> last_buffer_info" where
  "update_offset buf_index res l =
     (if lb_index l = buf_index then (if 0 < res then l\<lparr>lb_offset := lb_offset l + word_of_int res\<rparr> else l)
      else l\<lparr>lb_index := buf_index, lb_offset := (if 0 < res then word_of_int res else 0)\<rparr>)"

text \<open>The lambda \<^verbatim>\<open>resubmit_func\<close>; \<^verbatim>\<open>get_io_uring_sqe\<close> may return null.\<close>

definition resubmit_multishot :: "nat \<Rightarrow> 'a io_uring_scheme \<Rightarrow> 'a io_uring_scheme result" where
  "resubmit_multishot a w =
     bindE (ca_get a w) (\<lambda>c.
     case ca_resubmit c of
       None \<Rightarrow> Inr w
     | Some f \<Rightarrow>
         bindE (get_io_uring_sqe w) (\<lambda>(s, w).
         case s of
           None \<Rightarrow> Inl Null_Deref
         | Some i \<Rightarrow>
             bindE (iu_fill i (if rf_need_detail f then prepare_recvmsg_multishot (rf_fd f) (rf_msg f) 0 (ucast (rf_group f))
                               else prepare_recv_multishot (rf_fd f) (rf_msg f) 0 (ucast (rf_group f))) w) (\<lambda>w.
             bindE (iu_wrapper_submit w) (\<lambda>(_, w). Inr w))))"

text \<open>
  The block of a completion with a provided buffer up to the resubmission. The reference
  \<^verbatim>\<open>buf_info\<close> is into the vector \<^verbatim>\<open>buffers_\<close>: a callback that registers another group may
  move the vector, which leaves the reference dangling.
\<close>

definition deliver_buffer :: "'a uusr \<Rightarrow> nat \<Rightarrow> cqe \<Rightarrow> 'a io_uring_scheme \<Rightarrow> 'a io_uring_scheme result" where
  "deliver_buffer usr a c w =
     (let idx = drop_bit 16 (ce_flags c); b = unat idx
      in if length (iu_buffers w) \<le> b then Inl Out_Of_Bounds
         else
           let buf = iu_buffers w ! b
           in case ub_base buf of
                None \<Rightarrow> Inr w
              | Some base \<Rightarrow>
                  (case iu_lasts w (ub_last buf) of
                     None \<Rightarrow> Inl Use_After_Free
                   | Some l \<Rightarrow>
                       let offset = get_offset idx l
                       in if \<not> offset < ub_len buf then Inr w
                          else
                            bindE (complete_callback usr a c (base + unat offset) w) (\<lambda>w'.
                            if length (iu_buffers w') \<noteq> length (iu_buffers w) then Inl Use_After_Free
                            else case ub_base (iu_buffers w' ! b) of
                                   None \<Rightarrow> Inr w'
                                 | Some base' \<Rightarrow>
                                     (case (iu_lasts w' (ub_last buf), iu_buf_rings w' (ub_ring buf)) of
                                        (Some l', Some ring) \<Rightarrow>
                                          bindE (add_buf_ring base' (ub_len buf) idx (ub_mask buf) 0 ring) (\<lambda>ring.
                                          Inr (w'\<lparr>iu_lasts := (iu_lasts w')(ub_last buf \<mapsto> update_offset idx (ce_res c) l'),
                                                  iu_buf_rings := (iu_buf_rings w')(ub_ring buf \<mapsto> buf_ring_advance 1 ring)\<rparr>))
                                      | _ \<Rightarrow> Inl Use_After_Free))))"

definition deliver_cqe :: "'a uusr \<Rightarrow> cqe \<Rightarrow> 'a io_uring_scheme \<Rightarrow> 'a io_uring_scheme result" where
  "deliver_cqe usr c w =
     (if ce_user_data c = 0 then Inr w
      else
        let a = ce_user_data c
        in if ce_flags c AND IORING_CQE_F_BUFFER \<noteq> 0
           then bindE (deliver_buffer usr a c w) (\<lambda>w.
                if ce_flags c AND IORING_CQE_F_MORE = 0 then resubmit_multishot a w else Inr w)
           else complete_callback usr a c 0 w)"

fun deliver_loop :: "'a uusr \<Rightarrow> nat \<Rightarrow> nat \<Rightarrow> 'a io_uring_scheme \<Rightarrow> 'a io_uring_scheme result" where
  "deliver_loop usr 0 i w = Inr w"
| "deliver_loop usr (Suc n) i w =
     bindE (iu_get_ring w) (\<lambda>r.
     bindE (get_cqe (word_of_nat i) r) (\<lambda>c.
     bindE (deliver_cqe usr c w) (deliver_loop usr n (Suc i))))"

definition timeout_spec :: "int \<Rightarrow> int \<times> int" where
  "timeout_spec timeout =
     (if timeout = 0 then (0, 0) else if timeout < 0 then (1000000000, 0)
      else (timeout div 1000, (timeout mod 1000) * 1000000))"

text \<open>
  \<open>wait\<close> is the answer of the wait; \<open>late\<close> are the completions the kernel posts after the
  wait has returned and before \<^verbatim>\<open>cq_consume\<close>.
\<close>

definition iu_dispatch :: "'a uusr \<Rightarrow> nat + cqe list \<Rightarrow> cqe list \<Rightarrow> int \<Rightarrow> 'a io_uring_scheme \<Rightarrow> (int \<times> 'a io_uring_scheme) result" where
  "iu_dispatch usr wait late timeout w =
     (let w = (if timeout \<noteq> iu_last_timeout w
               then w\<lparr>iu_tm_out := timeout_spec timeout, iu_last_timeout := timeout\<rparr> else w)
      in bindE (iu_get_ring w) (\<lambda>r.
         let (ret, r) = wait_cqe_timeout wait r; w = iu_set_ring r w
         in if \<not> 0 < ret then Inr (- 1, w)
            else
              bindE (deliver_loop usr (nat ret) 0 w) (\<lambda>w.
              bindE (iu_get_ring w) (\<lambda>r.
              Inr (0, iu_set_ring (cq_consume (word_of_int ret) (kernel_post late r)) w)))))"

text \<open>\<^verbatim>\<open>close\<close> destroys the event information, with the actions it owns, and the wrapper.\<close>

definition info_owns :: "'a io_uring_scheme \<Rightarrow> nat \<Rightarrow> bool" where
  "info_owns w a \<longleftrightarrow>
     list_ex (\<lambda>i. case iu_infos w i of
                    None \<Rightarrow> False
                  | Some x \<Rightarrow> Some a \<in> set [ii_read x, ii_write x, ii_cancel_read x, ii_cancel_write x])
       [0 ..< iu_next w]"

definition iu_close :: "'a io_uring_scheme \<Rightarrow> 'a io_uring_scheme" where
  "iu_close w =
     (if iu_ring w = None then w
      else w\<lparr>iu_table := opt_map_clear IU_MAX_FD (iu_table w), iu_infos := Map.empty,
             iu_actions := (\<lambda>a. if info_owns w a then None else iu_actions w a), iu_ring := None\<rparr>)"

text \<open>
  The destructor frees the blocks that are left and then calls \<^verbatim>\<open>free\<close> on the buffer ring of
  every group that is still registered; \<^verbatim>\<open>setup_buf_ring\<close> got these rings from \<^verbatim>\<open>mmap\<close>.
\<close>

definition iu_delete :: "'a io_uring_scheme \<Rightarrow> 'a io_uring_scheme result" where
  "iu_delete w =
     (let w = iu_close w; w = w\<lparr>iu_freed := iu_freed w @ List.map_filter ub_base (iu_buffers w)\<rparr>
      in if list_ex (\<lambda>g. iu_groups w g \<noteq> None) [0 ..< 2 ^ 16] then Inl Bad_Free else Inr w)"

end
