(* ===== verification/Io_Uring_Proofs.thy ===== *)
theory Io_Uring_Proofs
  imports Io_Uring
begin

unbundle bit_operations_syntax

text \<open>
  Properties of the completion backend: the path of a request from its submission to its
  callback, a round of \<^verbatim>\<open>dispatch\<close> as the delivery of the posted completions in order, and
  the groups of provided buffers. Well-formedness \<open>iu_wf\<close> ties the descriptor table, the
  event information and the complete actions together.
\<close>

subsection \<open>A free slot\<close>

text \<open>
  The common situation of the requests: the ring exists, everything prepared before has
  been taken by the kernel, and the kernel will take the next entry.
\<close>

definition idle_ring :: "nat \<Rightarrow> wrapper \<Rightarrow> enter_answer list \<Rightarrow> bool" where
  "idle_ring k r as \<longleftrightarrow> sq_ring k r \<and> sqe_tail r = sq_khead r \<and> sq_ktail r = sq_khead r \<and> wr_enter r = Enter_Ok 1 # as"

definition free_entry :: "wrapper \<Rightarrow> sqe" where
  "free_entry r = sq_sqes r ! sq_slot r (sqe_tail r)"

lemma idle_get_sqe:
  assumes "idle_ring k r as"
  obtains i r1 where "get_sqe r = Inr (Some i, r1)"
    "\<forall>f. \<exists>r2. wrapper_submit (modify_sqe i f r1) = Inr (1, r2) \<and> sq_ring k r2 \<and> sq_queue r2 = [] \<and> wr_enter r2 = as \<and>
            wr_taken r2 = wr_taken r @ [f (initialize_sqe (free_entry r))]"
proof -
  have ring: "sq_ring k r" and tail: "sqe_tail r = sq_khead r" "sq_ktail r = sq_khead r" and ans: "wr_enter r = Enter_Ok 1 # as"
    using assms by (simp_all add: idle_ring_def)
  have q: "sq_queue r = []" using tail by (simp add: sq_queue_def)
  let ?i = "sq_slot r (sqe_tail r)"
  let ?r = "r\<lparr>sqe_tail := sqe_tail r + 1, sq_sqes := (sq_sqes r)[?i := initialize_sqe (sq_sqes r ! ?i)]\<rparr>"
  have lt: "unat (sqe_tail r - sq_khead r) < 2 ^ k" using tail by simp
  have i: "?i < length (sq_sqes r)" by (rule sq_ring_slot(3) [OF ring])
  have g: "get_sqe r = Inr (Some ?i, ?r)" using lt i sq_full_iff [OF ring] by (simp add: get_sqe_def Let_def)
  have m: "modify_sqe ?i f ?r =
      r\<lparr>sqe_tail := sqe_tail r + 1, sq_sqes := (sq_sqes r)[?i := f (initialize_sqe (free_entry r))]\<rparr>" for f
    using i by (simp add: modify_sqe_def free_entry_def)
  have "\<exists>r2. wrapper_submit (modify_sqe ?i f ?r) = Inr (1, r2) \<and> sq_ring k r2 \<and> sq_queue r2 = [] \<and> wr_enter r2 = as \<and>
            wr_taken r2 = wr_taken r @ [f (initialize_sqe (free_entry r))]" for f
  proof -
    note fill = sq_queue_filled [OF ring lt refl, of "f (initialize_sqe (free_entry r))", folded m]
    have "sqe_tail (modify_sqe ?i f ?r) \<noteq> sq_ktail (modify_sqe ?i f ?r)"
      "wr_enter (modify_sqe ?i f ?r) = Enter_Ok 1 # as" "wr_taken (modify_sqe ?i f ?r) = wr_taken r"
      "1 \<le> unat (sqe_tail (modify_sqe ?i f ?r) - sq_ktail (modify_sqe ?i f ?r))"
      using tail ans by (simp_all add: modify_sqe_def)
    with submit_ok [OF fill(1), of 1 as] fill(2) q show ?thesis by (metis append_Nil drop_Suc_Cons drop0 int_ops(2) take_Suc_Cons take0 One_nat_def)
  qed
  with g show thesis using that by blast
qed

text \<open>The same for the backend: an entry is filled and submitted, whatever else the operation has changed.\<close>

definition request_slot :: "'a io_uring_scheme \<Rightarrow> nat \<Rightarrow> wrapper \<Rightarrow> wrapper \<Rightarrow> bool" where
  "request_slot w i r r1 \<longleftrightarrow>
     get_io_uring_sqe w = Inr (Some i, w\<lparr>iu_ring := Some r1\<rparr>) \<and>
     (\<forall>f (w1 :: 'a io_uring_scheme). iu_ring w1 = Some r1 \<longrightarrow>
       (\<exists>r2. bindE (iu_fill i f w1) submit_checked = Inr (0, w1\<lparr>iu_ring := Some r2\<rparr>) \<and> sq_queue r2 = [] \<and>
            wr_taken r2 = wr_taken r @ [f (initialize_sqe (free_entry r))]))"

lemma request_slotD:
  fixes w w1 :: "'a io_uring_scheme"
  assumes "request_slot w i r r1"
  shows "get_io_uring_sqe w = Inr (Some i, w\<lparr>iu_ring := Some r1\<rparr>)"
    "iu_ring w1 = Some r1 \<Longrightarrow> \<exists>r2. bindE (iu_fill i f w1) submit_checked = Inr (0, w1\<lparr>iu_ring := Some r2\<rparr>) \<and>
       sq_queue r2 = [] \<and> wr_taken r2 = wr_taken r @ [f (initialize_sqe (free_entry r))]"
  using assms unfolding request_slot_def by blast+

lemma idle_request:
  fixes w :: "'a io_uring_scheme"
  assumes "iu_ring w = Some r" "idle_ring k r as"
  obtains i r1 where "request_slot w i r r1"
proof -
  obtain i r1 where g: "get_sqe r = Inr (Some i, r1)" and
    s: "\<forall>f. \<exists>r2. wrapper_submit (modify_sqe i f r1) = Inr (1, r2) \<and> sq_ring k r2 \<and> sq_queue r2 = [] \<and> wr_enter r2 = as \<and>
            wr_taken r2 = wr_taken r @ [f (initialize_sqe (free_entry r))]"
    using idle_get_sqe [OF assms(2)] .
  have "get_io_uring_sqe w = Inr (Some i, w\<lparr>iu_ring := Some r1\<rparr>)"
    using assms(1) g by (simp add: get_io_uring_sqe_def iu_get_ring_def iu_set_ring_def)
  moreover have "\<exists>r2. bindE (iu_fill i f w1) submit_checked = Inr (0, w1\<lparr>iu_ring := Some r2\<rparr>) \<and> sq_queue r2 = [] \<and>
            wr_taken r2 = wr_taken r @ [f (initialize_sqe (free_entry r))]"
    if "iu_ring w1 = Some r1" for f and w1 :: "'a io_uring_scheme"
    using s [rule_format, of f] that
    by (auto simp: iu_fill_def iu_get_ring_def iu_set_ring_def submit_checked_def iu_wrapper_submit_def)
  ultimately show thesis using that unfolding request_slot_def by blast
qed

subsection \<open>The descriptor table\<close>

definition info_ok :: "(nat \<Rightarrow> complete_action option) \<Rightarrow> iouring_event_info \<Rightarrow> bool" where
  "info_ok acts x \<longleftrightarrow>
     list_all (\<lambda>p. case p of None \<Rightarrow> True | Some a \<Rightarrow> acts a \<noteq> None) [ii_read x, ii_write x, ii_cancel_read x, ii_cancel_write x]"

definition iu_wf :: "'a io_uring_scheme \<Rightarrow> bool" where
  "iu_wf w \<longleftrightarrow>
     opt_map_wf IU_MAX_FD (iu_table w) \<and> 0 < iu_next w \<and> iu_actions w 0 = None \<and>
     (\<forall>j. iu_next w \<le> j \<longrightarrow> iu_infos w j = None \<and> iu_actions w j = None) \<and>
     (\<forall>k i. opt_map_find IU_MAX_FD (iu_table w) k = Some i \<longrightarrow> iu_infos w i \<noteq> None) \<and>
     (\<forall>i x. iu_infos w i = Some x \<longrightarrow> info_ok (iu_actions w) x)"

lemma iu_wfI:
  assumes "opt_map_wf IU_MAX_FD (iu_table w)" "0 < iu_next w" "iu_actions w 0 = None"
    "\<And>j. iu_next w \<le> j \<Longrightarrow> iu_infos w j = None \<and> iu_actions w j = None"
    "\<And>k i. opt_map_find IU_MAX_FD (iu_table w) k = Some i \<Longrightarrow> iu_infos w i \<noteq> None"
    "\<And>i x. iu_infos w i = Some x \<Longrightarrow> info_ok (iu_actions w) x"
  shows "iu_wf w"
  using assms unfolding iu_wf_def by blast

lemma iu_wfD:
  assumes "iu_wf w"
  shows "opt_map_wf IU_MAX_FD (iu_table w)" "0 < iu_next w" "iu_actions w 0 = None"
    "iu_next w \<le> j \<Longrightarrow> iu_infos w j = None" "iu_next w \<le> j \<Longrightarrow> iu_actions w j = None"
    "opt_map_find IU_MAX_FD (iu_table w) k = Some i \<Longrightarrow> iu_infos w i \<noteq> None"
    "iu_infos w i = Some x \<Longrightarrow> info_ok (iu_actions w) x"
  using assms unfolding iu_wf_def by blast+

lemma iu_wf_ring [simp]: "iu_wf (w\<lparr>iu_ring := r\<rparr>) = iu_wf w"
  by (simp add: iu_wf_def)

lemma info_ok_mono:
  assumes "info_ok acts x" "\<And>a. acts a \<noteq> None \<Longrightarrow> acts' a \<noteq> None"
  shows "info_ok acts' x"
  using assms unfolding info_ok_def by (auto split: option.splits)

lemma ca_set_wf:
  assumes "iu_wf w" "iu_actions w a \<noteq> None"
  shows "iu_wf (ca_set a c w)"
proof (rule iu_wfI)
  have "a \<noteq> 0" using assms(2) iu_wfD(3) [OF assms(1)] by metis
  moreover have "a < iu_next w" using assms(2) iu_wfD(5) [OF assms(1), of a] by (meson not_le)
  ultimately have a: "a \<noteq> 0" "a < iu_next w" by simp_all
  then show "iu_actions (ca_set a c w) 0 = None" using iu_wfD(3) [OF assms(1)] by (simp add: ca_set_def)
  fix j assume "iu_next (ca_set a c w) \<le> j"
  then show "iu_infos (ca_set a c w) j = None \<and> iu_actions (ca_set a c w) j = None"
    using a iu_wfD(4,5) [OF assms(1), of j] by (auto simp: ca_set_def)
next
  fix i x assume "iu_infos (ca_set a c w) i = Some x"
  then show "info_ok (iu_actions (ca_set a c w)) x"
    using iu_wfD(7) [OF assms(1), of i x] by (auto simp: ca_set_def intro: info_ok_mono)
qed (use iu_wfD [OF assms(1)] in \<open>simp_all add: ca_set_def\<close>)

lemma find_or_create_iinfo_ok:
  assumes "iu_wf w"
  obtains i w' x where "find_or_create_iinfo fd w = Inr (i, w')" "iu_wf w'" "iu_infos w' i = Some x" "iu_ring w' = iu_ring w"
    "opt_map_find IU_MAX_FD (iu_table w') (fd_key fd) = Some i" "iu_actions w' = iu_actions w"
proof (cases "opt_map_find IU_MAX_FD (iu_table w) (fd_key fd)")
  case (Some i)
  then obtain x where "iu_infos w i = Some x" using iu_wfD(6) [OF assms Some] by blast
  then show thesis using that [of i w x] assms Some by (simp add: find_or_create_iinfo_def)
next
  case None
  let ?i = "iu_next w" and ?x = "\<lparr>ii_read = None, ii_write = None, ii_cancel_read = None, ii_cancel_write = None\<rparr>"
  note ins = om.find_or_create [OF iu_wfD(1) [OF assms] None, of ?i]
  let ?tbl = "snd (opt_map_insert IU_MAX_FD (iu_table w) (fd_key fd) (Some ?i))"
  let ?w = "ii_set ?i ?x (w\<lparr>iu_table := ?tbl, iu_next := ?i + 1\<rparr>)"
  have f: "find_or_create_iinfo fd w = Inr (?i, ?w)"
    using None ins(1) by (simp add: find_or_create_iinfo_def Let_def case_prod_beta)
  have find: "opt_map_find IU_MAX_FD ?tbl = (opt_map_find IU_MAX_FD (iu_table w))(fd_key fd \<mapsto> ?i)"
    using om.tinsert_abs [OF iu_wfD(1) [OF assms], of "fd_key fd" ?i] None by simp
  have "iu_wf ?w"
  proof (rule iu_wfI)
    fix j assume "iu_next ?w \<le> j"
    then show "iu_infos ?w j = None \<and> iu_actions ?w j = None"
      using iu_wfD(4,5) [OF assms, of j] by (auto simp: ii_set_def)
  next
    fix k i assume "opt_map_find IU_MAX_FD (iu_table ?w) k = Some i"
    then show "iu_infos ?w i \<noteq> None"
      using iu_wfD(6) [OF assms, of k i] by (auto simp: ii_set_def find split: if_splits)
  next
    fix i x assume "iu_infos ?w i = Some x"
    then show "info_ok (iu_actions ?w) x"
      using iu_wfD(7) [OF assms, of i x] by (auto simp: ii_set_def info_ok_def split: if_splits)
  qed (use ins(4) iu_wfD [OF assms] in \<open>simp_all add: ii_set_def\<close>)
  with f show thesis using that [of ?i ?w ?x] by (simp add: ii_set_def find)
qed

text \<open>A complete action created for an entry that lacks it.\<close>

lemma create_action_wf:
  assumes "iu_wf w" "iu_infos w i = Some x" "\<And>acts. info_ok acts x \<Longrightarrow> acts (iu_next w) \<noteq> None \<Longrightarrow> info_ok acts x'"
  shows "iu_wf (ii_set i x' (snd (ca_new c w)))"
proof (rule iu_wfI)
  let ?w = "ii_set i x' (snd (ca_new c w))"
  have mono: "iu_actions w a \<noteq> None \<Longrightarrow> iu_actions ?w a \<noteq> None" for a by (simp add: ii_set_def ca_new_def ca_set_def)
  fix j assume "iu_next ?w \<le> j"
  moreover have "i < iu_next w" using iu_wfD(4) [OF assms(1), of i] assms(2) by (metis not_le option.distinct(1))
  ultimately show "iu_infos ?w j = None \<and> iu_actions ?w j = None"
    using iu_wfD(4,5) [OF assms(1), of j] by (auto simp: ii_set_def ca_new_def ca_set_def)
next
  fix j y assume y: "iu_infos (ii_set i x' (snd (ca_new c w))) j = Some y"
  let ?w = "ii_set i x' (snd (ca_new c w))"
  have mono: "iu_actions w a \<noteq> None \<Longrightarrow> iu_actions ?w a \<noteq> None" for a by (simp add: ii_set_def ca_new_def ca_set_def)
  show "info_ok (iu_actions ?w) y"
  proof (cases "j = i")
    case True
    have "info_ok (iu_actions ?w) x" using iu_wfD(7) [OF assms(1,2)] mono by (rule info_ok_mono)
    moreover have "iu_actions ?w (iu_next w) \<noteq> None" by (simp add: ii_set_def ca_new_def ca_set_def)
    ultimately show ?thesis using assms(3) y True by (simp add: ii_set_def)
  next
    case False
    then show ?thesis using y iu_wfD(7) [OF assms(1), of j y] mono
      by (auto simp: ii_set_def ca_new_def ca_set_def intro: info_ok_mono)
  qed
next
  fix k j assume "opt_map_find IU_MAX_FD (iu_table (ii_set i x' (snd (ca_new c w)))) k = Some j"
  then show "iu_infos (ii_set i x' (snd (ca_new c w))) j \<noteq> None"
    using iu_wfD(6) [OF assms(1), of k j] by (auto simp: ii_set_def ca_new_def ca_set_def)
qed (use iu_wfD [OF assms(1)] in \<open>simp_all add: ii_set_def ca_new_def ca_set_def\<close>)

lemma get_read_action_ok:
  assumes "iu_wf w" "iu_infos w i = Some x"
  obtains a w' c where "get_read_complete_action i fd w = Inr (a, w')" "iu_wf w'" "iu_actions w' a = Some c" "0 < a"
    "iu_ring w' = iu_ring w" "iu_table w' = iu_table w"
proof (cases "ii_read x")
  case (Some a)
  then obtain c where c: "iu_actions w a = Some c" using iu_wfD(7) [OF assms] by (auto simp: info_ok_def)
  then have "0 < a" using iu_wfD(3) [OF assms(1)] by (cases a) auto
  then show thesis using that [of a w c] Some c assms by (simp add: get_read_complete_action_def ii_get_def)
next
  case None
  define c where "c = (if fd_type fd = SIGNAL_FD \<or> fd_type fd = TIMER_FD \<or> fd_type fd = EVENT_FD
                  then disable_offset complete_action_new else complete_action_new)"
  let ?a = "iu_next w" and ?w = "ii_set i (x\<lparr>ii_read := Some (iu_next w)\<rparr>) (snd (ca_new c w))"
  have "get_read_complete_action i fd w = Inr (?a, ?w)"
    using None assms(2) by (simp add: get_read_complete_action_def ii_get_def ca_new_def c_def)
  moreover have "iu_wf ?w" using assms by (rule create_action_wf) (auto simp: info_ok_def)
  ultimately show thesis using that [of ?a ?w c] iu_wfD(2) [OF assms(1)]
    by (simp add: ii_set_def ca_new_def ca_set_def)
qed

lemma get_cancel_read_ok:
  assumes "iu_wf w" "iu_infos w i = Some x"
  obtains a w' c where "get_cancel_read_complete_action i w = Inr (a, w')" "iu_wf w'" "iu_actions w' a = Some c"
    "iu_ring w' = iu_ring w"
proof (cases "ii_cancel_read x")
  case (Some a)
  then obtain c where c: "iu_actions w a = Some c" using iu_wfD(7) [OF assms] by (auto simp: info_ok_def)
  then show thesis using that [of a w c] Some c assms by (simp add: get_cancel_read_complete_action_def ii_get_def)
next
  case None
  let ?a = "iu_next w" and ?w = "ii_set i (x\<lparr>ii_cancel_read := Some (iu_next w)\<rparr>) (snd (ca_new complete_action_new w))"
  have "get_cancel_read_complete_action i w = Inr (?a, ?w)"
    using None assms(2) by (simp add: get_cancel_read_complete_action_def ii_get_def ca_new_def)
  moreover have "iu_wf ?w" using assms by (rule create_action_wf) (auto simp: info_ok_def)
  ultimately show thesis using that [of ?a ?w complete_action_new]
    by (simp add: ii_set_def ca_new_def ca_set_def)
qed

subsection \<open>Requests\<close>

lemma get_read_msghdr_msg: "\<exists>m. ca_read_msg (get_read_msghdr c) = Some m"
  by (simp add: get_read_msghdr_def split: option.splits)

lemma uring_read_ok:
  assumes "iu_wf w" "iu_ring w = Some r" "idle_ring k r as" "0 \<le> fd_num fd"
    "case opt of None \<Rightarrow> True | Some o' \<Rightarrow> ro_is_submit o'"
  obtains w' r' a s c where "iu_submit_async_read fd (Some v) cnt (Some n) opt w = Inr (0, w')" "iu_wf w'"
    "iu_ring w' = Some r'" "wr_taken r' = wr_taken r @ [s]" "se_user_data s = a" "0 < a" "se_fd s = fd_num fd"
    "if is_tcp_udp fd then se_opcode s = OP_RECVMSG \<and> se_addr s = A_Read_Msg a
     else se_opcode s = OP_READV \<and> se_addr s = A_Iov v \<and> se_len s = word_of_nat cnt"
    "iu_actions w' a = Some c" "ca_callback c = Some (Ucb_Read n (Some v) cnt (is_tcp_udp fd))"
    "is_tcp_udp fd \<Longrightarrow> \<exists>m. ca_read_msg c = Some m \<and> um_iov m = Some v \<and> um_iovlen m = cnt"
proof -
  obtain i r1 where slot: "request_slot w i r r1"
    using idle_request [OF assms(2,3)] .
  note g = request_slotD(1) [OF slot] and fill = request_slotD(2) [OF slot]
  have "iu_wf (w\<lparr>iu_ring := Some r1\<rparr>)" using assms(1) by simp
  from find_or_create_iinfo_ok [OF this, of fd] obtain info w2 x where
    2: "find_or_create_iinfo fd (w\<lparr>iu_ring := Some r1\<rparr>) = Inr (info, w2)" "iu_wf w2" "iu_infos w2 info = Some x"
      "iu_ring w2 = iu_ring (w\<lparr>iu_ring := Some r1\<rparr>)"
    by metis
  have ring2: "iu_ring w2 = Some r1" using 2(4) by simp
  from get_read_action_ok [OF 2(2,3), of fd] obtain a w3 c where
    3: "get_read_complete_action info fd w2 = Inr (a, w3)" "iu_wf w3" "iu_actions w3 a = Some c" "0 < a" "iu_ring w3 = Some r1"
    using ring2 by metis
  define c1 where "c1 = (if is_tcp_udp fd then get_read_msghdr c else c)\<lparr>ca_callback := Some (Ucb_Read n (Some v) cnt (is_tcp_udp fd))\<rparr>"
  define oc where "oc = (case opt of
                   Some o' \<Rightarrow> if ro_offset o' \<noteq> UINT64_MAX then (ro_offset o', set_offset (ro_offset o') c1)
                              else (ca_offset c1, c1)
                 | None \<Rightarrow> (ca_offset c1, c1))"
  define c3 where "c3 = (if is_tcp_udp fd
     then (get_read_msghdr (snd oc))\<lparr>ca_read_msg := msg_set_iov (Some v) cnt (ca_read_msg (get_read_msghdr (snd oc)))\<rparr> else snd oc)"
  define prep where "prep = (if is_tcp_udp fd then prepare_recvmsg (fd_num fd) (A_Read_Msg a) 0
     else prepare_readv (fd_num fd) (A_Iov v) (word_of_nat cnt) (fst oc))"
  have cb: "ca_callback c3 = Some (Ucb_Read n (Some v) cnt (is_tcp_udp fd))"
    by (auto simp: c3_def oc_def c1_def set_offset_def get_read_msghdr_def split: option.splits)
  have msg: "\<exists>m. ca_read_msg c3 = Some m \<and> um_iov m = Some v \<and> um_iovlen m = cnt" if "is_tcp_udp fd"
    using that get_read_msghdr_msg [of "snd oc"] by (auto simp: c3_def msg_set_iov_def)
  let ?w4 = "ca_set a c3 (ca_set a c1 w3)"
  have "iu_ring ?w4 = Some r1" using 3(5) by (simp add: ca_set_def)
  from fill [OF this] obtain r2 where r2: "bindE (iu_fill i (\<lambda>e. set_user_data a (prep e)) ?w4) submit_checked = Inr (0, ?w4\<lparr>iu_ring := Some r2\<rparr>)"
      "wr_taken r2 = wr_taken r @ [set_user_data a (prep (initialize_sqe (free_entry r)))]" by blast
  have sub: "(case opt of None \<Rightarrow> True | Some x \<Rightarrow> ro_is_submit x)" using assms(5) by (cases opt) auto
  have "iu_submit_async_read fd (Some v) cnt (Some n) opt w = Inr (0, ?w4\<lparr>iu_ring := Some r2\<rparr>)"
    using assms(2,4) sub r2(1) 3(3)
    by (cases opt; cases "is_tcp_udp fd")
      (auto simp: iu_submit_async_read_def iu_is_inited_def g 2(1) 3(1) ca_modify_def ca_get_def ca_set_def Let_def
        c1_def oc_def c3_def prep_def)
  moreover have "iu_wf (?w4\<lparr>iu_ring := Some r2\<rparr>)"
  proof -
    have "iu_wf (ca_set a c1 w3)" using 3(2,3) by (intro ca_set_wf) auto
    then have "iu_wf ?w4" by (rule ca_set_wf) (simp add: ca_set_def)
    then show ?thesis by simp
  qed
  ultimately show thesis using r2(2) 3(4) cb msg
    by (intro that [of "?w4\<lparr>iu_ring := Some r2\<rparr>" r2 "set_user_data a (prep (initialize_sqe (free_entry r)))" a c3])
      (auto simp: prep_def set_user_data_def prepare_recvmsg_def prepare_readv_def PREPARE_SQE_def ca_set_def)
qed

lemma deliver_plain:
  assumes "iu_actions w a = Some ca" "ca_callback ca = Some cb" "0 < a" "ce_user_data c = a"
    "ce_flags c AND IORING_CQE_F_BUFFER = 0"
  obtains ca' where "deliver_cqe usr c w = call_lambda usr cb (ce_res c) (mk_iovec 0 0) (ca_set a ca' w)"
  using assms by (auto simp: deliver_cqe_def complete_callback_def ca_get_def Let_def)

text \<open>
  C31. A read submitted through \<^verbatim>\<open>io_uring\<close> comes back to its own callback: the call returns
  0, the kernel receives exactly one entry, for the right descriptor and buffers, whose user
  data is the address of the complete action that holds the callback, the backend stays well
  formed, and when the kernel completes that entry, \<^verbatim>\<open>dispatch\<close> calls the user's function
  once, with the result and the caller's buffers.
\<close>

theorem uring_read_reaches_callback:
  assumes "iu_wf w" "iu_ring w = Some r" "idle_ring k r as" "0 \<le> fd_num fd"
    "case opt of None \<Rightarrow> True | Some o' \<Rightarrow> ro_is_submit o'"
  shows "\<exists>w' r' s. iu_submit_async_read fd (Some v) cnt (Some n) opt w = Inr (0, w') \<and> iu_wf w' \<and>
     iu_ring w' = Some r' \<and> wr_taken r' = wr_taken r @ [s] \<and> se_fd s = fd_num fd \<and>
     (if is_tcp_udp fd
      then se_opcode s = OP_RECVMSG \<and> se_addr s = A_Read_Msg (se_user_data s) \<and>
           (\<exists>c m. iu_actions w' (se_user_data s) = Some c \<and> ca_read_msg c = Some m \<and> um_iov m = Some v \<and> um_iovlen m = cnt)
      else se_opcode s = OP_READV \<and> se_addr s = A_Iov v \<and> se_len s = word_of_nat cnt) \<and>
     (\<forall>usr c. ce_user_data c = se_user_data s \<longrightarrow> ce_flags c AND IORING_CQE_F_BUFFER = 0 \<longrightarrow>
        (\<exists>ca. deliver_cqe usr c w' =
                ulog usr (UC_Read n (ce_res c) (Some v) cnt (is_tcp_udp fd)) (ca_set (se_user_data s) ca w')))"
proof -
  obtain w' r' a s c where ok: "iu_submit_async_read fd (Some v) cnt (Some n) opt w = Inr (0, w')" "iu_wf w'"
    "iu_ring w' = Some r'" "wr_taken r' = wr_taken r @ [s]" "se_user_data s = a" "0 < a" "se_fd s = fd_num fd"
    "if is_tcp_udp fd then se_opcode s = OP_RECVMSG \<and> se_addr s = A_Read_Msg a
     else se_opcode s = OP_READV \<and> se_addr s = A_Iov v \<and> se_len s = word_of_nat cnt"
    "iu_actions w' a = Some c" "ca_callback c = Some (Ucb_Read n (Some v) cnt (is_tcp_udp fd))"
    "is_tcp_udp fd \<longrightarrow> (\<exists>m. ca_read_msg c = Some m \<and> um_iov m = Some v \<and> um_iovlen m = cnt)"
    using uring_read_ok [OF assms, where v = v and cnt = cnt and n = n] by metis
  have "\<exists>ca. deliver_cqe usr ce w' = ulog usr (UC_Read n (ce_res ce) (Some v) cnt (is_tcp_udp fd)) (ca_set a ca w')"
    if "ce_user_data ce = a" "ce_flags ce AND IORING_CQE_F_BUFFER = 0" for usr ce
    using deliver_plain [OF ok(9,10,6) that, of usr] by (auto intro: exI)
  then show ?thesis using ok by (intro exI [of _ w'] exI [of _ r'] exI [of _ s]) auto
qed

lemma uring_cancel_read_ok:
  assumes "iu_wf w" "iu_ring w = Some r" "idle_ring k r as" "0 \<le> fd_num fd"
    "opt_map_find IU_MAX_FD (iu_table w) (fd_key fd) = Some info"
  shows "\<exists>w' r' s a c. iu_cancel_async_read fd cb w = Inr (0, w') \<and> iu_ring w' = Some r' \<and> wr_taken r' = wr_taken r @ [s] \<and>
     se_opcode s = OP_ASYNC_CANCEL \<and> se_addr s = A_Action a \<and> iu_actions w' a = Some c \<and>
     ca_callback c = Some (Ucb_Cancel_Checked cb) \<and> se_user_data s = se_user_data (free_entry r)"
proof -
  obtain x where x: "iu_infos w info = Some x" using iu_wfD(6) [OF assms(1,5)] by blast
  from get_cancel_read_ok [OF assms(1) x] obtain a w2 c where
    2: "get_cancel_read_complete_action info w = Inr (a, w2)" "iu_wf w2" "iu_actions w2 a = Some c" "iu_ring w2 = iu_ring w"
    by metis
  let ?c = "c\<lparr>ca_callback := Some (Ucb_Cancel_Checked cb)\<rparr>"
  let ?w = "ca_set a ?c w2"
  have ring: "iu_ring ?w = Some r" using 2(4) assms(2) by (simp add: ca_set_def)
  obtain i r1 where slot: "request_slot ?w i r r1"
    using idle_request [OF ring assms(3)] .
  note g = request_slotD(1) [OF slot] and fill = request_slotD(2) [OF slot]
  let ?f = "prepare_cancel_by_fd (A_Action a) (fd_num fd)"
  obtain r2 where r2: "bindE (iu_fill i ?f (?w\<lparr>iu_ring := Some r1\<rparr>)) submit_checked = Inr (0, ?w\<lparr>iu_ring := Some r2\<rparr>)"
      "wr_taken r2 = wr_taken r @ [?f (initialize_sqe (free_entry r))]"
    using fill [of "?w\<lparr>iu_ring := Some r1\<rparr>" ?f] by auto
  have "iu_cancel_async_read fd cb w = Inr (0, ?w\<lparr>iu_ring := Some r2\<rparr>)"
    using assms(2,4,5) 2 g r2(1)
    by (simp add: iu_cancel_async_read_def iu_is_inited_def fd_is_valid_def ca_modify_def ca_get_def)
  with r2(2) show ?thesis
    by (intro exI [of _ "?w\<lparr>iu_ring := Some r2\<rparr>"] exI [of _ r2] exI [of _ "?f (initialize_sqe (free_entry r))"]
          exI [of _ a] exI [of _ ?c])
      (simp add: ca_set_def prepare_cancel_by_fd_def PREPARE_SQE_def initialize_sqe_def)
qed

text \<open>
  C40. The completion of a cancellation goes to the wrong owner. The cancel request is
  prepared with the address of its own complete action as the thing to cancel and never
  sets its user data, and \<^verbatim>\<open>get_sqe\<close> does not clear that field: the entry the kernel takes
  carries the user data of whatever request used the slot before, so the cancel callback is
  not called and an earlier request is completed a second time.
\<close>

theorem uring_cancel_completes_previous_owner:
  assumes "iu_wf w" "iu_ring w = Some r" "idle_ring k r as" "0 \<le> fd_num fd"
    "opt_map_find IU_MAX_FD (iu_table w) (fd_key fd) = Some info"
  shows "\<exists>w' r' s a c. iu_cancel_async_read fd cb w = Inr (0, w') \<and> iu_ring w' = Some r' \<and> wr_taken r' = wr_taken r @ [s] \<and>
     se_opcode s = OP_ASYNC_CANCEL \<and> se_addr s = A_Action a \<and> iu_actions w' a = Some c \<and>
     ca_callback c = Some (Ucb_Cancel_Checked cb) \<and> se_user_data s = se_user_data (free_entry r)"
  by (rule uring_cancel_read_ok [OF assms])

text \<open>
  \<^verbatim>\<open>close_timer\<close> frees a timer the kernel still refers to. It asks the kernel to cancel
  the timeout and deletes the complete action at once; the final completion of the
  cancelled timeout carries the address of that action, and \<^verbatim>\<open>dispatch\<close> dereferences it.
\<close>

theorem uring_close_timer_use_after_free:
  assumes "iu_ring w = Some r" "idle_ring k r as" "iu_timers w (unat (word_of_int tid :: u32)) = Some a"
    "iu_actions w a = Some c" "0 < a" "ce_user_data ce = a" "ce_flags ce AND IORING_CQE_F_BUFFER = 0"
  shows "\<exists>w'. iu_close_timer tid w = Inr (0, w') \<and> deliver_cqe usr ce w' = Inl Use_After_Free"
proof -
  let ?w = "ca_set a (cleanup c) w"
  have ring: "iu_ring ?w = Some r" using assms(1) by (simp add: ca_set_def)
  obtain i r1 where slot: "request_slot ?w i r r1"
    using idle_request [OF ring assms(2)] .
  note g = request_slotD(1) [OF slot] and fill = request_slotD(2) [OF slot]
  obtain r2 where "bindE (iu_fill i (prepare_cancel (A_Action a) 0) (?w\<lparr>iu_ring := Some r1\<rparr>)) submit_checked =
      Inr (0, ?w\<lparr>iu_ring := Some r2\<rparr>)"
    using fill [of "?w\<lparr>iu_ring := Some r1\<rparr>" "prepare_cancel (A_Action a) 0"] by auto
  then obtain w1 where "iu_fill i (prepare_cancel (A_Action a) 0) (?w\<lparr>iu_ring := Some r1\<rparr>) = Inr w1"
    "submit_checked w1 = Inr (0, ?w\<lparr>iu_ring := Some r2\<rparr>)"
    by (auto simp: bindE_Inr_iff)
  then show ?thesis using assms(3-) g
    by (auto simp: iu_close_timer_def Let_def ca_modify_def ca_get_def deliver_cqe_def complete_callback_def)
qed

text \<open>
  When the submission queue is full, \<^verbatim>\<open>get_io_uring_sqe\<close> flushes it and then reports
  failure although the flush succeeded: it requires the result of \<^verbatim>\<open>submit\<close>, the number of
  entries taken, to be 0. The request is refused while the ring has room again.
\<close>

theorem uring_flush_then_refuses:
  assumes "iu_ring w = Some r" "sq_ring k r" "length (sq_queue r) = 2 ^ k" "sqe_tail r \<noteq> sq_ktail r"
    "wr_enter r = Enter_Ok m # as" "0 < m" "m \<le> unat (sqe_tail r - sq_ktail r)"
  shows "\<exists>r'. get_io_uring_sqe w = Inr (None, w\<lparr>iu_ring := Some r'\<rparr>) \<and> sq_ring k r' \<and> length (sq_queue r') < 2 ^ k"
proof -
  have "get_sqe r = Inr (None, r)" using sq_entry [OF assms(2)] assms(3) by simp
  moreover obtain r' where r': "wrapper_submit r = Inr (int m, r')" "sq_ring k r'" "sq_queue r' = drop m (sq_queue r)"
    using submit_ok [OF assms(2,4,5,7)] by metis
  ultimately have "get_io_uring_sqe w = Inr (None, w\<lparr>iu_ring := Some r'\<rparr>)"
    using assms(1,6) by (simp add: get_io_uring_sqe_def iu_get_ring_def iu_set_ring_def)
  moreover have "length (sq_queue r') < 2 ^ k" using r'(3) assms(3,6) by (simp del: length_sq_queue)
  ultimately show ?thesis using r'(2) by blast
qed

subsection \<open>Dispatch\<close>

text \<open>The part of the state the completions of one \<^verbatim>\<open>dispatch\<close> are read from.\<close>

definition cq_view :: "'a io_uring_scheme \<Rightarrow> (u32 \<times> u32 \<times> u32 \<times> cqe list \<times> nat) option" where
  "cq_view w = map_option (\<lambda>r. (cq_khead r, cq_ktail r, cq_mask r, cq_cqes r, wr_shift r)) (iu_ring w)"

definition keeps_cq :: "'a uusr \<Rightarrow> bool" where
  "keeps_cq usr \<longleftrightarrow> (\<forall>c w w'. usr c w = Inr w' \<longrightarrow> cq_view w' = cq_view w)"

lemma cq_view_simps [simp]:
  "cq_view (ca_set a c w) = cq_view w" "cq_view (w\<lparr>iu_calls := x1\<rparr>) = cq_view w" "cq_view (w\<lparr>iu_socks := x2\<rparr>) = cq_view w"
  "cq_view (w\<lparr>iu_lasts := x3, iu_buf_rings := x4\<rparr>) = cq_view w"
  by (simp_all add: cq_view_def ca_set_def)

lemma ulog_view:
  assumes "keeps_cq usr" "ulog usr c w = Inr w'"
  shows "cq_view w' = cq_view w"
  using assms(1) [unfolded keeps_cq_def, rule_format, OF assms(2) [unfolded ulog_def]] by simp

lemma call_lambda_view:
  assumes "keeps_cq usr" "call_lambda usr cb res iov w = Inr w'"
  shows "cq_view w' = cq_view w"
  using assms(2)
  by (cases cb) (auto simp: Let_def dest!: ulog_view [OF assms(1)] split: if_splits option.splits)

lemma complete_callback_view:
  assumes "keeps_cq usr" "complete_callback usr a c b w = Inr w'"
  shows "cq_view w' = cq_view w"
  using assms(2) unfolding complete_callback_def
  by (auto elim!: bindE_InrE simp: Let_def dest!: call_lambda_view [OF assms(1)] split: option.splits)

lemma get_sqe_cq:
  assumes "get_sqe r = Inr (s, r')"
  shows "cq_khead r' = cq_khead r" "cq_ktail r' = cq_ktail r" "cq_mask r' = cq_mask r" "cq_cqes r' = cq_cqes r" "wr_shift r' = wr_shift r"
  using assms by (auto simp: get_sqe_def Let_def split: if_splits)

lemma wrapper_submit_cq:
  assumes "wrapper_submit r = Inr (n, r')"
  shows "cq_khead r' = cq_khead r" "cq_ktail r' = cq_ktail r" "cq_mask r' = cq_mask r" "cq_cqes r' = cq_cqes r" "wr_shift r' = wr_shift r"
  using assms
  by (auto simp: wrapper_submit_def Let_def kernel_take_def split: if_splits list.splits enter_answer.splits)

lemmas wrapper_cq = get_sqe_cq wrapper_submit_cq

lemma get_io_uring_sqe_view:
  assumes "get_io_uring_sqe w = Inr (s, w')"
  shows "cq_view w' = cq_view w"
  using assms unfolding get_io_uring_sqe_def iu_get_ring_def iu_set_ring_def cq_view_def
  by (auto elim!: bindE_InrE simp: wrapper_cq split: option.splits if_splits)

lemma iu_wrapper_submit_view:
  assumes "iu_wrapper_submit w = Inr (n, w')"
  shows "cq_view w' = cq_view w"
  using assms unfolding iu_wrapper_submit_def iu_get_ring_def iu_set_ring_def cq_view_def
  by (auto elim!: bindE_InrE simp: wrapper_cq split: option.splits)

lemma iu_fill_view:
  assumes "iu_fill i f w = Inr w'"
  shows "cq_view w' = cq_view w"
  using assms unfolding iu_fill_def iu_get_ring_def iu_set_ring_def cq_view_def
  by (auto elim!: bindE_InrE simp: modify_sqe_def split: option.splits)

lemma resubmit_multishot_view:
  assumes "resubmit_multishot a w = Inr w'"
  shows "cq_view w' = cq_view w"
  using assms unfolding resubmit_multishot_def
  by (auto elim!: bindE_InrE split: option.splits dest!: get_io_uring_sqe_view iu_wrapper_submit_view iu_fill_view)

lemma deliver_buffer_view:
  assumes "keeps_cq usr" "deliver_buffer usr a c w = Inr w'"
  shows "cq_view w' = cq_view w"
  using assms(2) unfolding deliver_buffer_def Let_def
  by (auto elim!: bindE_InrE split: option.splits if_splits dest!: complete_callback_view [OF assms(1)])

lemma deliver_cqe_view:
  assumes "keeps_cq usr" "deliver_cqe usr c w = Inr w'"
  shows "cq_view w' = cq_view w"
  using assms(2) unfolding deliver_cqe_def Let_def
  by (auto elim!: bindE_InrE split: if_splits dest!: complete_callback_view [OF assms(1)] deliver_buffer_view [OF assms(1)]
      resubmit_multishot_view)

text \<open>The specification of a round: the completions one after the other.\<close>

fun deliver_all :: "'a uusr \<Rightarrow> cqe list \<Rightarrow> 'a io_uring_scheme \<Rightarrow> 'a io_uring_scheme result" where
  "deliver_all usr [] w = Inr w"
| "deliver_all usr (c # cs) w = bindE (deliver_cqe usr c w) (deliver_all usr cs)"

lemma cq_view_eq:
  assumes "cq_view w = cq_view w0" "iu_ring w0 = Some r0"
  obtains r where "iu_ring w = Some r" "cq_queue r = cq_queue r0" "cq_ring k r = cq_ring k r0"
    "cq_khead r = cq_khead r0" "cq_ktail r = cq_ktail r0"
  using assms by (auto simp: cq_view_def cq_queue_def cq_ring_def cq_slot_def)

lemma deliver_loop_all:
  assumes "keeps_cq usr" "iu_ring w0 = Some r0" "cq_ring k r0"
  shows "cq_view w = cq_view w0 \<Longrightarrow> i + n \<le> length (cq_queue r0) \<Longrightarrow>
    deliver_loop usr n i w = deliver_all usr (take n (drop i (cq_queue r0))) w"
proof (induction n arbitrary: i w)
  case (Suc n)
  from cq_view_eq [OF Suc.prems(1) assms(2), of k] obtain r where
    r: "iu_ring w = Some r" "cq_queue r = cq_queue r0" "cq_ring k r = cq_ring k r0" .
  have g: "get_cqe (word_of_nat i) r = Inr (cq_queue r0 ! i)"
    using get_cqe_nth [of k r i] r assms(3) Suc.prems(2) by (simp del: length_cq_queue)
  have "take (Suc n) (drop i (cq_queue r0)) = cq_queue r0 ! i # take n (drop (Suc i) (cq_queue r0))"
    using Suc.prems(2) by (simp add: Cons_nth_drop_Suc [symmetric] del: length_cq_queue)
  moreover have "deliver_loop usr n (Suc i) w' = deliver_all usr (take n (drop (Suc i) (cq_queue r0))) w'"
    if "deliver_cqe usr (cq_queue r0 ! i) w = Inr w'" for w'
    using Suc.IH [of w' "Suc i"] deliver_cqe_view [OF assms(1) that] Suc.prems by (simp del: length_cq_queue)
  ultimately show ?case
    using r(1) g by (cases "deliver_cqe usr (cq_queue r0 ! i) w") (auto simp: iu_get_ring_def)
qed simp

lemma deliver_all_view:
  assumes "keeps_cq usr" "deliver_all usr cs w = Inr w'"
  shows "cq_view w' = cq_view w"
  using assms(2)
  by (induction cs arbitrary: w) (auto elim!: bindE_InrE dest!: deliver_cqe_view [OF assms(1)])

lemma cq_consume_queue:
  assumes "cq_ring k r" "n \<le> length (cq_queue r)" "cq_khead r \<le> cq_ktail r"
  shows "cq_queue (cq_consume (word_of_nat n) r) = drop n (cq_queue r)"
proof -
  let ?d = "cq_ktail r - cq_khead r"
  have n: "n \<le> unat ?d" "n < 2 ^ 32" using assms(2) unat_u32_less [of ?d] by simp_all
  then have un: "unat (word_of_nat n :: u32) = n" by (simp add: unsigned_of_nat take_bit_nat_eq_self)
  then have c: "cq_khead (cq_consume (word_of_nat n) r) = cq_khead r + word_of_nat n"
    using n(1) by (intro cq_consume_dist [OF _ assms(3)]) (simp add: word_le_nat_alt)
  have "unat (cq_ktail r - (cq_khead r + word_of_nat n)) = unat ?d - n"
    using u32_dist_advance [OF n(1)] by simp
  then show ?thesis using c
    by (intro nth_equalityI) (simp_all add: cq_queue_def cq_consume_def Let_def cq_slot_def add.assoc)
qed

lemma kernel_post_indices:
  "cq_khead (kernel_post cs r) = cq_khead r" "cq_ktail (kernel_post cs r) = cq_ktail r + word_of_nat (length cs)"
  by (induction cs arbitrary: r) simp_all

lemma u32_no_wrap:
  fixes h :: u32
  assumes "unat h + n < 2 ^ 32"
  shows "h \<le> h + word_of_nat n"
proof -
  have "unat (word_of_nat n :: u32) = n" using assms by (simp add: unsigned_of_nat take_bit_nat_eq_self)
  then show ?thesis using assms by (simp add: word_le_nat_alt unat_plus_if')
qed

text \<open>The state in which \<^verbatim>\<open>dispatch\<close> starts to deliver.\<close>

definition dispatch_start :: "cqe list \<Rightarrow> int \<Rightarrow> wrapper \<Rightarrow> 'a io_uring_scheme \<Rightarrow> 'a io_uring_scheme" where
  "dispatch_start cs timeout r w =
     (if timeout \<noteq> iu_last_timeout w then w\<lparr>iu_tm_out := timeout_spec timeout, iu_last_timeout := timeout\<rparr> else w)
       \<lparr>iu_ring := Some (kernel_post cs r)\<rparr>"

lemma dispatch_round:
  assumes "iu_ring w = Some r" "cq_ring k r" "k < 31" "keeps_cq usr" "cq_queue r @ cs \<noteq> []"
    "length (cq_queue r @ cs @ late) \<le> 2 ^ k" "unat (cq_khead r) + length (cq_queue r @ cs @ late) < 2 ^ 32"
    "deliver_all usr (cq_queue r @ cs) (dispatch_start cs timeout r w) = Inr w1"
  obtains r2 where "iu_dispatch usr (Inr cs) late timeout w = Inr (0, w1\<lparr>iu_ring := Some r2\<rparr>)" "cq_queue r2 = late"
proof -
  let ?r = "kernel_post cs r" and ?w = "dispatch_start cs timeout r w" and ?n = "length (cq_queue r @ cs)"
  have post: "cq_ring k ?r" "cq_queue ?r = cq_queue r @ cs"
    using kernel_post_queue [OF assms(2), of cs] assms(6) by (simp_all del: length_cq_queue)
  have n: "unat (cq_ktail ?r - cq_khead ?r) = ?n" using post(2) length_cq_queue [of ?r] by (simp del: length_cq_queue)
  have "(2 :: nat) ^ k < 2 ^ 31" using assms(3) by (intro power_strict_increasing) auto
  then have n31: "0 < ?n" "?n < 2 ^ 31" using assms(5,6) by (simp_all del: length_cq_queue)
  have d: "cq_ktail ?r - cq_khead ?r = word_of_nat ?n" unfolding n [symmetric] by simp
  have wait: "wait_cqe_timeout (Inr cs) r = (int ?n, ?r)"
    using n n31 d i32_of_u32_small [OF n31(2)] by (auto simp: wait_cqe_timeout_def Let_def simp del: length_cq_queue length_append)
  have ring: "iu_ring ?w = Some ?r" by (simp add: dispatch_start_def)
  have loop: "deliver_loop usr ?n 0 ?w = Inr w1"
    using deliver_loop_all [OF assms(4) ring post(1) refl, of 0 ?n] post(2) assms(8) by (simp del: length_cq_queue)
  from cq_view_eq [OF deliver_all_view [OF assms(4,8)] ring, of k] obtain r1 where
    r1: "iu_ring w1 = Some r1" "cq_queue r1 = cq_queue ?r" "cq_ring k r1 = cq_ring k ?r" "cq_khead r1 = cq_khead ?r" "cq_ktail r1 = cq_ktail ?r" .
  let ?r1 = "kernel_post late r1"
  have late: "cq_ring k ?r1" "cq_queue ?r1 = cq_queue r @ cs @ late"
    using kernel_post_queue [of k r1 late] r1(2,3) post assms(6) by (simp_all del: length_cq_queue)
  have "cq_ktail ?r1 = cq_khead r + word_of_nat (length (cq_queue r @ cs @ late))"
    using r1(5) d by (simp add: kernel_post_indices algebra_simps del: length_cq_queue)
  then have "cq_khead ?r1 \<le> cq_ktail ?r1" using r1(4) assms(7)
    by (simp add: kernel_post_indices u32_no_wrap del: length_cq_queue length_append)
  then have q: "cq_queue (cq_consume (word_of_nat ?n) ?r1) = late"
    using cq_consume_queue [OF late(1), of ?n] late(2) by (simp del: length_cq_queue)
  have "iu_dispatch usr (Inr cs) late timeout w = Inr (0, w1\<lparr>iu_ring := Some (cq_consume (word_of_nat ?n) ?r1)\<rparr>)"
    using assms(1) wait loop r1(1) n31(1)
    by (auto simp: iu_dispatch_def Let_def iu_get_ring_def iu_set_ring_def dispatch_start_def simp del: length_cq_queue length_append)
  with q show thesis using that by blast
qed

subsection \<open>Sample states\<close>

definition idle_wrapper :: wrapper where
  "idle_wrapper = sample_wrapper\<lparr>sqe_tail := 0xFFFFFFFF, wr_enter := [Enter_Ok 1], cq_khead := 0, cq_ktail := 0\<rparr>"

definition sample_uring :: io_uring where
  "sample_uring = io_uring_new\<lparr>iu_ring := Some idle_wrapper\<rparr>"

lemma idle_wrapper_ring: "idle_ring 1 idle_wrapper []" "cq_ring 1 idle_wrapper" "cq_queue idle_wrapper = []"
  by (simp_all add: idle_ring_def sq_ring_def cq_ring_def cq_queue_def idle_wrapper_def sample_wrapper_def sq_shift_def
      IORING_SETUP_SQE128_def mask_eq_exp_minus_1)

lemma sample_uring_ring: "iu_ring sample_uring = Some idle_wrapper"
  by (simp add: sample_uring_def)

lemma sample_uring_table: "iu_table sample_uring = opt_map_empty IU_MAX_FD"
  by (simp add: sample_uring_def io_uring_new_def)

lemma sample_uring_wf: "iu_wf sample_uring"
  by (rule iu_wfI) (simp_all add: sample_uring_def io_uring_new_def opt_map_find_clear)

theorem uring_read_reaches_callback_witness:
  "\<exists>w'. iu_submit_async_read (mk_fd 7 TCP_FD) (Some [mk_iovec 64 8]) 1 (Some 3) None sample_uring = Inr (0, w') \<and> iu_wf w'"
  using uring_read_reaches_callback [OF sample_uring_wf sample_uring_ring idle_wrapper_ring(1), of "mk_fd 7 TCP_FD" None "[mk_iovec 64 8]" 1 3]
  by (auto simp: mk_fd_def)

theorem uring_close_timer_use_after_free_witness:
  "\<exists>w'. iu_close_timer 0 (sample_uring\<lparr>iu_timers := [0 \<mapsto> 1], iu_actions := [1 \<mapsto> complete_action_new]\<rparr>) = Inr (0, w') \<and>
     deliver_cqe (\<lambda>_. Inr) (cqe_zero\<lparr>ce_user_data := 1\<rparr>) w' = Inl Use_After_Free"
  using uring_close_timer_use_after_free [of "sample_uring\<lparr>iu_timers := [0 \<mapsto> 1], iu_actions := [1 \<mapsto> complete_action_new]\<rparr>"
      idle_wrapper 1 "[]" 0 1 complete_action_new "cqe_zero\<lparr>ce_user_data := 1\<rparr>" "\<lambda>_. Inr"] idle_wrapper_ring(1)
  by (simp add: sample_uring_ring cqe_zero_def)

definition sample_info_uring :: io_uring where
  "sample_info_uring = snd (projr (find_or_create_iinfo (mk_fd 7 TCP_FD) sample_uring))"

lemma sample_info_uring:
  "iu_wf sample_info_uring \<and> iu_ring sample_info_uring = Some idle_wrapper \<and>
   opt_map_find IU_MAX_FD (iu_table sample_info_uring) (fd_key (mk_fd 7 TCP_FD)) = Some 1"
proof -
  from find_or_create_iinfo_ok [OF sample_uring_wf, of "mk_fd 7 TCP_FD"] obtain i w' where
    w': "find_or_create_iinfo (mk_fd 7 TCP_FD) sample_uring = Inr (i, w')" "iu_wf w'" "iu_ring w' = Some idle_wrapper"
      "opt_map_find IU_MAX_FD (iu_table w') (fd_key (mk_fd 7 TCP_FD)) = Some i"
    using sample_uring_ring by metis
  moreover have "i = iu_next sample_uring"
    using w'(1)
    by (auto simp: find_or_create_iinfo_def sample_uring_table opt_map_find_clear Let_def elim!: bindE_InrE split: prod.splits)
  ultimately show ?thesis by (simp add: sample_info_uring_def sample_uring_def io_uring_new_def)
qed

theorem uring_cancel_completes_previous_owner_witness:
  "\<exists>w' r'. iu_cancel_async_read (mk_fd 7 TCP_FD) (Some 9) sample_info_uring = Inr (0, w') \<and> iu_ring w' = Some r' \<and>
     map se_user_data (wr_taken r') = [0]"
proof -
  have "se_user_data (free_entry idle_wrapper) = 0" "wr_taken idle_wrapper = []"
    by (simp_all add: free_entry_def idle_wrapper_def sample_wrapper_def sq_slot_def sq_shift_def IORING_SETUP_SQE128_def sqe_zero_def)
  then show ?thesis
    using uring_cancel_completes_previous_owner [of sample_info_uring idle_wrapper 1 "[]" "mk_fd 7 TCP_FD" 1 "Some 9"]
      sample_info_uring idle_wrapper_ring(1) by (auto simp: mk_fd_def)
qed

theorem uring_flush_then_refuses_witness:
  "\<exists>r'. get_io_uring_sqe (io_uring_new\<lparr>iu_ring := Some (sample_wrapper\<lparr>sqe_tail := 1, wr_enter := [Enter_Ok 2]\<rparr>)\<rparr>) =
     Inr (None, io_uring_new\<lparr>iu_ring := Some r'\<rparr>) \<and> sq_ring 1 r' \<and> length (sq_queue r') < 2"
proof -
  let ?r = "sample_wrapper\<lparr>sqe_tail := 1, wr_enter := [Enter_Ok 2]\<rparr>"
  have "sq_ring 1 ?r" "length (sq_queue ?r) = 2 ^ 1" "sqe_tail ?r \<noteq> sq_ktail ?r" "2 \<le> unat (sqe_tail ?r - sq_ktail ?r)"
    by (simp_all add: sq_ring_def sample_wrapper_def sq_shift_def IORING_SETUP_SQE128_def mask_eq_exp_minus_1)
  from uring_flush_then_refuses [of "io_uring_new\<lparr>iu_ring := Some ?r\<rparr>", OF _ this(1,2,3) _ _ this(4)] show ?thesis by simp
qed

text \<open>
  C32. One round of \<^verbatim>\<open>dispatch\<close> delivers exactly what the kernel has posted: the completions
  that were left in the queue and the new ones, each once and in order, and what the kernel
  posts meanwhile stays for the next round. User functions may submit new requests, but must
  not call \<^verbatim>\<open>dispatch\<close>; the head index does not wrap within the round.
\<close>

theorem uring_dispatch_in_order:
  assumes "iu_ring w = Some r" "cq_ring k r" "k < 31" "keeps_cq usr" "cq_queue r @ cs \<noteq> []"
    "length (cq_queue r @ cs @ late) \<le> 2 ^ k" "unat (cq_khead r) + length (cq_queue r @ cs @ late) < 2 ^ 32"
    "deliver_all usr (cq_queue r @ cs) (dispatch_start cs timeout r w) = Inr w1"
  shows "\<exists>r2. iu_dispatch usr (Inr cs) late timeout w = Inr (0, w1\<lparr>iu_ring := Some r2\<rparr>) \<and> cq_queue r2 = late"
  using dispatch_round [OF assms] by metis

theorem uring_dispatch_in_order_witness:
  "\<exists>w2. iu_dispatch (\<lambda>_. Inr) (Inr [cqe_zero\<lparr>ce_user_data := 1, ce_res := 3\<rparr>]) [] 100
       (sample_uring\<lparr>iu_actions := [1 \<mapsto> complete_action_new\<lparr>ca_callback := Some (Ucb_Write 5)\<rparr>]\<rparr>) = Inr (0, w2) \<and>
     iu_calls w2 = [UC_Write 5 3]"
proof -
  let ?w = "sample_uring\<lparr>iu_actions := [1 \<mapsto> complete_action_new\<lparr>ca_callback := Some (Ucb_Write 5)\<rparr>]\<rparr>"
  let ?cs = "[cqe_zero\<lparr>ce_user_data := 1, ce_res := 3\<rparr>]"
  obtain w1 where w1: "deliver_all (\<lambda>_. Inr) (cq_queue idle_wrapper @ ?cs) (dispatch_start ?cs 100 idle_wrapper ?w) = Inr w1"
      "iu_calls w1 = [UC_Write 5 3]"
    by (simp add: idle_wrapper_ring(3) dispatch_start_def deliver_cqe_def complete_callback_def ca_get_def ca_set_def ulog_def
        cqe_zero_def sample_uring_def io_uring_new_def)
  have "keeps_cq (\<lambda>_. Inr :: io_uring \<Rightarrow> io_uring result)" by (simp add: keeps_cq_def)
  then show ?thesis
    using uring_dispatch_in_order [of ?w idle_wrapper 1 "\<lambda>_. Inr" ?cs "[]" 100 w1] idle_wrapper_ring(2,3) w1 sample_uring_ring
    by (auto simp: idle_wrapper_def sample_wrapper_def)
qed

subsection \<open>Provided buffers\<close>

text \<open>A block of a registered group whose ring takes entries at every index.\<close>

definition block_ready :: "'a io_uring_scheme \<Rightarrow> u32 \<Rightarrow> nat \<Rightarrow> bool" where
  "block_ready w idx base \<longleftrightarrow>
     unat idx < length (iu_buffers w) \<and>
     (let buf = iu_buffers w ! unat idx
      in ub_base buf = Some base \<and> iu_lasts w (ub_last buf) \<noteq> None \<and>
         (case iu_buf_rings w (ub_ring buf) of
            None \<Rightarrow> False
          | Some ring \<Rightarrow> length (br_bufs ring) = Suc (unat (ub_mask buf))))"

lemma and_bound: "unat (x AND m :: u32) < Suc (unat m)"
  by (simp add: word_and_le1 word_le_nat_alt [symmetric] less_Suc_eq_le)

lemma deliver_block:
  assumes "block_ready w idx base" "drop_bit 16 (ce_flags c) = idx" "ce_flags c AND IORING_CQE_F_BUFFER \<noteq> 0"
    "iu_actions w a = Some ca" "ca_callback ca = Some (Ucb_Group n False)"
    "iu_lasts w (ub_last (iu_buffers w ! unat idx)) = Some l" "get_offset idx l < ub_len (iu_buffers w ! unat idx)"
  obtains w' ca' where "deliver_buffer (\<lambda>_. Inr) a c w = Inr w'" "block_ready w' idx base"
    "iu_calls w' = iu_calls w @ [UC_Read n (ce_res c) (Some [mk_iovec (base + unat (get_offset idx l)) (nat (ce_res c))]) 1 False]"
    "iu_lasts w' (ub_last (iu_buffers w ! unat idx)) = Some (update_offset idx (ce_res c) l)" "iu_buffers w' = iu_buffers w"
    "iu_actions w' a = Some ca'" "ca_callback ca' = ca_callback ca"
proof -
  let ?buf = "iu_buffers w ! unat idx"
  obtain ring where ring: "iu_buf_rings w (ub_ring ?buf) = Some ring" "length (br_bufs ring) = Suc (unat (ub_mask ?buf))"
    and b: "unat idx < length (iu_buffers w)" "ub_base ?buf = Some base"
    using assms(1) by (auto simp: block_ready_def Let_def split: option.splits)
  have i: "unat (x AND ub_mask ?buf) < length (br_bufs ring)" for x using ring(2) and_bound by simp
  define ca' where "ca' = (if 0 < ce_res c \<and> ca_offset_enabled ca
                   then ca\<lparr>ca_offset := ca_offset ca + word_of_int (ce_res c)\<rparr> else ca)"
  let ?call = "UC_Read n (ce_res c) (Some [mk_iovec (base + unat (get_offset idx l)) (nat (ce_res c))]) 1 False"
  let ?w1 = "(ca_set a ca' w)\<lparr>iu_calls := iu_calls w @ [?call]\<rparr>"
  obtain ring' where ring': "add_buf_ring base (ub_len ?buf) idx (ub_mask ?buf) 0 ring = Inr ring'"
      "length (br_bufs ring') = length (br_bufs ring)"
    using i by (simp add: add_buf_ring_def Let_def)
  have cb: "complete_callback (\<lambda>_. Inr) a c (base + unat (get_offset idx l)) w = Inr ?w1"
    using assms(3-5) by (simp add: complete_callback_def ca_get_def ulog_def ca'_def ca_set_def Let_def)
  let ?w2 = "?w1\<lparr>iu_lasts := (iu_lasts w)(ub_last ?buf \<mapsto> update_offset idx (ce_res c) l),
                iu_buf_rings := (iu_buf_rings w)(ub_ring ?buf \<mapsto> buf_ring_advance 1 ring')\<rparr>"
  have "deliver_buffer (\<lambda>_. Inr) a c w = Inr ?w2"
    using b ring(1) ring'(1) cb assms(2,6,7) by (simp add: deliver_buffer_def Let_def ca_set_def)
  moreover have "block_ready ?w2 idx base"
    using b ring ring'(2) by (simp add: block_ready_def ca_set_def buf_ring_advance_def Let_def)
  moreover have "ca_callback ca' = ca_callback ca" by (simp add: ca'_def)
  ultimately show thesis by (intro that [of ?w2 ca']) (simp_all add: ca_set_def)
qed

text \<open>
  A recycled buffer is read at the wrong address. After a completion in a block the
  whole block goes back to the kernel, which writes the next message at its start, but
  \<^verbatim>\<open>last_buffer_info\<close> keeps adding up lengths while the index stays the same: the
  callback of the second message gets an address past the first one, where the kernel did
  not write.
\<close>

theorem uring_recycled_buffer_shifted:
  assumes "block_ready w idx base" "drop_bit 16 (ce_flags c1) = idx" "ce_flags c1 AND IORING_CQE_F_BUFFER \<noteq> 0"
    "drop_bit 16 (ce_flags c2) = idx" "ce_flags c2 AND IORING_CQE_F_BUFFER \<noteq> 0"
    "iu_actions w a = Some ca" "ca_callback ca = Some (Ucb_Group n False)"
    "iu_lasts w (ub_last (iu_buffers w ! unat idx)) = Some l" "lb_index l \<noteq> idx"
    "0 < ce_res c1" "nat (ce_res c1) < unat (ub_len (iu_buffers w ! unat idx))"
  shows "\<exists>w1 w2. deliver_buffer (\<lambda>_. Inr) a c1 w = Inr w1 \<and> deliver_buffer (\<lambda>_. Inr) a c2 w1 = Inr w2 \<and>
     iu_calls w2 = iu_calls w @
       [UC_Read n (ce_res c1) (Some [mk_iovec base (nat (ce_res c1))]) 1 False,
        UC_Read n (ce_res c2) (Some [mk_iovec (base + nat (ce_res c1)) (nat (ce_res c2))]) 1 False]"
proof -
  let ?buf = "iu_buffers w ! unat idx" and ?l = "update_offset idx (ce_res c1) l"
  have res: "unat (word_of_int (ce_res c1) :: u32) = nat (ce_res c1)"
    using assms(10,11) unat_u32_less [of "ub_len ?buf"] by (simp add: unsigned_of_int take_bit_int_eq_self)
  have off: "get_offset idx l = 0" "unat (get_offset idx ?l) = nat (ce_res c1)"
    using assms(9,10) res by (simp_all add: get_offset_def update_offset_def)
  then have len: "get_offset idx l < ub_len ?buf" "get_offset idx ?l < ub_len ?buf"
    using assms(11) by (simp_all add: word_less_nat_alt)
  from deliver_block [OF assms(1,2,3,6,7,8) len(1)] obtain w1 ca' where
    1: "deliver_buffer (\<lambda>_. Inr) a c1 w = Inr w1" "block_ready w1 idx base"
      "iu_calls w1 = iu_calls w @ [UC_Read n (ce_res c1) (Some [mk_iovec base (nat (ce_res c1))]) 1 False]"
      "iu_lasts w1 (ub_last (iu_buffers w1 ! unat idx)) = Some ?l" "iu_buffers w1 = iu_buffers w"
      "iu_actions w1 a = Some ca'" "ca_callback ca' = Some (Ucb_Group n False)"
    using off(1) assms(7) by (metis add.right_neutral unat_0)
  have "get_offset idx ?l < ub_len (iu_buffers w1 ! unat idx)" using len(2) 1(5) by simp
  from deliver_block [OF 1(2) assms(4,5) 1(6,7,4) this] obtain w2 where
    "deliver_buffer (\<lambda>_. Inr) a c2 w1 = Inr w2"
    "iu_calls w2 = iu_calls w1 @ [UC_Read n (ce_res c2) (Some [mk_iovec (base + nat (ce_res c1)) (nat (ce_res c2))]) 1 False]"
    using off(2) by metis
  with 1(1,3) show ?thesis by simp
qed

definition sample_block_uring :: io_uring where
  "sample_block_uring = sample_uring\<lparr>
     iu_buffers := [\<lparr>ub_base = Some 4096, ub_len = 64, ub_ring = 9, ub_last = 2, ub_mask = 0\<rparr>],
     iu_lasts := [2 \<mapsto> \<lparr>lb_offset = 0, lb_index = UINT32_MAX\<rparr>],
     iu_buf_rings := [9 \<mapsto> \<lparr>br_tail = 1, br_bufs = [\<lparr>rb_addr = 4096, rb_len = 64, rb_bid = 0\<rparr>]\<rparr>],
     iu_groups := [0 \<mapsto> \<lparr>bri_ring = 9, bri_entry_cnt = 1, bri_start_index = 0\<rparr>],
     iu_actions := [1 \<mapsto> complete_action_new\<lparr>ca_callback := Some (Ucb_Group 3 False)\<rparr>], iu_next := 3\<rparr>"

theorem uring_recycled_buffer_shifted_witness:
  "\<exists>w1 w2. deliver_buffer (\<lambda>_. Inr) 1 (cqe_zero\<lparr>ce_flags := 3, ce_res := 10\<rparr>) sample_block_uring = Inr w1 \<and>
     deliver_buffer (\<lambda>_. Inr) 1 (cqe_zero\<lparr>ce_flags := 3, ce_res := 20\<rparr>) w1 = Inr w2 \<and>
     iu_calls w2 = [UC_Read 3 10 (Some [mk_iovec 4096 10]) 1 False, UC_Read 3 20 (Some [mk_iovec 4106 20]) 1 False]"
  using uring_recycled_buffer_shifted [of sample_block_uring 0 4096 "cqe_zero\<lparr>ce_flags := 3, ce_res := 10\<rparr>"
      "cqe_zero\<lparr>ce_flags := 3, ce_res := 20\<rparr>" 1 "complete_action_new\<lparr>ca_callback := Some (Ucb_Group 3 False)\<rparr>" 3
      "\<lparr>lb_offset = 0, lb_index = UINT32_MAX\<rparr>"]
  by (simp add: sample_block_uring_def sample_uring_def io_uring_new_def block_ready_def IORING_CQE_F_BUFFER_def UINT32_MAX_def
      drop_bit_eq_div)

text \<open>
  \<^verbatim>\<open>unregister_ring_buffer\<close> fails for every group of two or more blocks: its loop looks
  at the first block of the group in every round, finds it freed the second time and
  returns -1. The kernel ring is gone, one block is freed, the others leak and the group
  stays registered.
\<close>

theorem uring_unregister_leaks:
  assumes "iu_ring w = Some r" "iu_groups w (unat grp) = Some info" "bri_start_index info + 2 \<le> length (iu_buffers w)"
    "iu_buffers w ! bri_start_index info = buf" "ub_ring buf = bri_ring info" "ub_base buf = Some a"
  shows "\<exists>w'. iu_unregister_ring_buffer None None grp w = Inr (- 1, w') \<and> iu_freed w' = iu_freed w @ [a] \<and>
     iu_groups w' = iu_groups w \<and> iu_buf_rings w' (bri_ring info) = None \<and>
     (\<forall>i. i \<noteq> bri_start_index info \<longrightarrow> iu_buffers w' ! i = iu_buffers w ! i)"
proof -
  have lt: "bri_start_index info < length (iu_buffers w)" using assms(3) by simp
  obtain n where "length (iu_buffers w) - bri_start_index info = Suc (Suc n)"
    using assms(3) by (metis add_2_eq_Suc' le_Suc_ex add_diff_cancel_left' add.assoc add_2_eq_Suc)
  then show ?thesis using assms lt
    by (simp add: iu_unregister_ring_buffer_def iu_get_ring_def free_buf_ring_def Let_def)
qed

theorem uring_unregister_leaks_witness:
  "\<exists>w'. iu_unregister_ring_buffer None None 0 (sample_block_uring\<lparr>iu_buffers := iu_buffers sample_block_uring @
      [\<lparr>ub_base = Some 8192, ub_len = 64, ub_ring = 9, ub_last = 2, ub_mask = 0\<rparr>]\<rparr>) = Inr (- 1, w') \<and> iu_freed w' = [4096] \<and>
      ub_base (iu_buffers w' ! 1) = Some 8192"
  using uring_unregister_leaks [of "sample_block_uring\<lparr>iu_buffers := iu_buffers sample_block_uring @
      [\<lparr>ub_base = Some 8192, ub_len = 64, ub_ring = 9, ub_last = 2, ub_mask = 0\<rparr>]\<rparr>" idle_wrapper 0
      "\<lparr>bri_ring = 9, bri_entry_cnt = 1, bri_start_index = 0\<rparr>" _ 4096]
  by (auto simp: sample_block_uring_def sample_uring_def io_uring_new_def)

definition ring_entry :: "u32 \<Rightarrow> nat \<Rightarrow> nat \<Rightarrow> uring_buf" where
  "ring_entry block_size a bid = \<lparr>rb_addr = a, rb_len = block_size, rb_bid = word_of_nat bid\<rparr>"

lemma ring_entry_word: "\<lparr>rb_addr = a, rb_len = bs, rb_bid = ucast (word_of_nat n :: u32)\<rparr> = ring_entry bs a n"
  by (simp add: ring_entry_def word_unat_eq_iff unsigned_ucast_eq unsigned_of_nat take_bit_take_bit)

fun ring_entries :: "u32 \<Rightarrow> nat \<Rightarrow> nat list \<Rightarrow> uring_buf list" where
  "ring_entries bs n [] = []"
| "ring_entries bs n (a # as) = ring_entry bs a n # ring_entries bs (Suc n) as"

lemma length_ring_entries [simp]: "length (ring_entries bs n as) = length as"
  by (induction as arbitrary: n) simp_all

lemma nth_ring_entries: "j < length as \<Longrightarrow> ring_entries bs n as ! j = ring_entry bs (as ! j) (n + j)"
  by (induction as arbitrary: n j) (auto simp: nth_Cons split: nat.splits)

lemma unat_two_power:
  assumes "m < LENGTH('a)"
  shows "unat (2 ^ m :: 'a :: len word) = 2 ^ m"
proof -
  have "(2 ^ m :: 'a word) = word_of_nat (2 ^ m)" by simp
  moreover have "(2 :: nat) ^ m < 2 ^ LENGTH('a)" using assms by (intro power_strict_increasing) auto
  ultimately show ?thesis by (simp only: unsigned_of_nat take_bit_nat_eq_self of_nat_id)
qed

definition block_info :: "u32 \<Rightarrow> nat \<Rightarrow> nat \<Rightarrow> u32 \<Rightarrow> nat \<Rightarrow> uring_buffer_info" where
  "block_info block_size br lst msk a = \<lparr>ub_base = Some a, ub_len = block_size, ub_ring = br, ub_last = lst, ub_mask = msk\<rparr>"

lemma add_blocks_ok:
  assumes "br_tail ring = 0" "m < 32" "length (br_bufs ring) = 2 ^ m" "i + length as \<le> 2 ^ m"
  shows "add_blocks as bs br lst (mask m) (word_of_nat i) ring bufs =
    Inr (ring\<lparr>br_bufs := take i (br_bufs ring) @ ring_entries bs (length bufs) as @
           drop (i + length as) (br_bufs ring)\<rparr>, bufs @ map (block_info bs br lst (mask m)) as)"
  using assms(1,3,4)
proof (induction as arbitrary: i ring bufs)
  case Nil
  then show ?case by simp
next
  case (Cons a as)
  have i: "i < 2 ^ m" using Cons.prems(3) by simp
  have slot: "unat (word_of_nat i AND mask m :: u32) = i"
  proof -
    have "(2 :: nat) ^ m < 2 ^ 32" using assms(2) by (intro power_strict_increasing) auto
    then show ?thesis using i by (simp add: unat_and_mask unsigned_of_nat take_bit_nat_eq_self)
  qed
  let ?ring = "ring\<lparr>br_bufs := (br_bufs ring)[i := ring_entry bs a (length bufs)]\<rparr>"
  have add: "add_buf_ring a bs (word_of_nat (length bufs)) (mask m) (word_of_nat i) ring = Inr ?ring"
    using Cons.prems i by (simp add: add_buf_ring_def Let_def slot ring_entry_word)
  have "word_of_nat i + 1 = (word_of_nat (Suc i) :: u32)" by simp
  moreover have "take (Suc i) (br_bufs ?ring) = take i (br_bufs ring) @ [ring_entry bs a (length bufs)]"
    using i Cons.prems(2) by (simp add: take_Suc_conv_app_nth)
  moreover have "drop (Suc i + length as) (br_bufs ?ring) = drop (i + length (a # as)) (br_bufs ring)" by simp
  ultimately show ?case
    using Cons.IH [of ?ring "Suc i" "bufs @ [block_info bs br lst (mask m) a]"] Cons.prems add
    by (simp add: block_info_def add.commute)
qed

lemma alloc_blocks_length: "alloc_blocks alloc i n = Some as \<Longrightarrow> length as = n"
  by (induction n arbitrary: i as) (auto split: option.splits)

lemma register_ok:
  assumes "iu_ring w = Some r" "0 < block_size" "m < 16" "alloc_blocks alloc 0 (2 ^ m) = Some addrs"
    "grp = unat (ucast (iu_group_id w) :: u16)"
  obtains w' where "iu_register_ring_buffer None (Inr br) alloc block_size (2 ^ m) w = Inr (int grp, w')"
    "iu_buffers w' = iu_buffers w @ map (block_info block_size br (iu_next w) (mask m)) addrs"
    "iu_buf_rings w' br = Some \<lparr>br_tail = 2 ^ m,
        br_bufs = ring_entries block_size (length (iu_buffers w)) addrs\<rparr>"
    "iu_lasts w' (iu_next w) = Some \<lparr>lb_offset = 0, lb_index = UINT32_MAX\<rparr>"
proof -
  have "(2 :: nat) ^ m < 2 ^ 16" using assms(3) by (intro power_strict_increasing) auto
  then have u: "unat (2 ^ m :: u32) = 2 ^ m" "unat (2 ^ m :: u16) = 2 ^ m" "unat (2 ^ m :: u64) = 2 ^ m" using assms(3) by (simp_all add: unat_two_power)
  then have pos: "0 < (2 ^ m :: u32)" by (metis word_gt_0 unat_0 power_not_zero zero_neq_numeral)
  have p: "is_power_of_2 (ucast (2 ^ m :: u32))"
    using assms(3) u unfolding is_power_of_2_iff by (intro exI [of _ m]) (auto simp: word_unat_eq_iff)
  have msk: "buf_ring_mask (2 ^ m) = mask m" by (simp add: buf_ring_mask_def mask_eq_exp_minus_1)
  have len: "length addrs = 2 ^ m" by (rule alloc_blocks_length [OF assms(4)])
  let ?ring = "\<lparr>br_tail = 0, br_bufs = replicate (2 ^ m) \<lparr>rb_addr = 0, rb_len = 0, rb_bid = 0\<rparr>\<rparr>"
  let ?ring' = "\<lparr>br_tail = 0, br_bufs = ring_entries block_size (length (iu_buffers w)) addrs\<rparr>"
  let ?bufs = "iu_buffers w @ map (block_info block_size br (iu_next w) (mask m)) addrs"
  have add: "add_blocks addrs block_size br (iu_next w) (mask m) 0 ?ring (iu_buffers w) = Inr (?ring', ?bufs)"
    using add_blocks_ok [of ?ring m 0 addrs block_size br "iu_next w" "iu_buffers w"] assms(3) len by simp
  have adv: "buf_ring_advance (2 ^ m) ?ring' = ?ring'\<lparr>br_tail := 2 ^ m\<rparr>"
    using u assms(3) by (simp add: buf_ring_advance_def word_unat_eq_iff unsigned_ucast_eq take_bit_nat_eq_self)
  let ?w = "w\<lparr>iu_group_id := iu_group_id w + 1, iu_next := iu_next w + 1,
     iu_lasts := (iu_lasts w)(iu_next w \<mapsto> \<lparr>lb_offset = 0, lb_index = UINT32_MAX\<rparr>), iu_buffers := ?bufs,
     iu_buf_rings := (iu_buf_rings w)(br \<mapsto> ?ring'\<lparr>br_tail := 2 ^ m\<rparr>)\<rparr>"
  let ?w' = "if iu_groups w grp = None
     then ?w\<lparr>iu_groups := (iu_groups w)(grp \<mapsto> \<lparr>bri_ring = br, bri_entry_cnt = 2 ^ m, bri_start_index = length (iu_buffers w)\<rparr>)\<rparr>
     else ?w"
  have "iu_register_ring_buffer None (Inr br) alloc block_size (2 ^ m) w = Inr (int grp, ?w')"
    using assms(1,2,4,5) u pos p msk add adv
    by (simp add: iu_register_ring_buffer_def iu_get_ring_def setup_buf_ring_def Let_def)
  then show thesis by (intro that [of ?w']) simp_all
qed

text \<open>
  A group that is still registered when the backend is destroyed: the destructor hands a
  mapped buffer ring to \<^verbatim>\<open>free\<close>. Without a group it frees exactly the blocks that are left.
\<close>

lemma register_leaves_group:
  assumes run: "iu_register_ring_buffer reg mem alloc block_size block_count w = Inr (ret, w')" and ret: "0 \<le> ret"
  obtains g where "g < 2 ^ 16" "iu_groups w' g \<noteq> None"
proof -
  let ?g = "unat (ucast (iu_group_id w) :: u16)"
  have c: "0 < block_size \<and> 0 < block_count" "is_power_of_2 (ucast block_count)"
    using run ret by (auto simp: iu_register_ring_buffer_def split: if_splits)
  obtain r where r: "iu_get_ring w = Inr r" using run c by (auto simp: iu_register_ring_buffer_def bindE_Inr_iff)
  obtain n x where x: "setup_buf_ring reg mem block_count = (n, x)" by fastforce
  have "x \<noteq> None" using run ret c r x by (cases x) (auto simp: iu_register_ring_buffer_def Let_def)
  then obtain br ring where br: "setup_buf_ring reg mem block_count = (n, Some (br, ring))" using x by auto
  have "alloc_blocks alloc 0 (unat block_count) \<noteq> None"
    using run c r br by (auto simp: iu_register_ring_buffer_def Let_def split: option.splits)
  then obtain addrs where a: "alloc_blocks alloc 0 (unat block_count) = Some addrs" by auto
  obtain ring' bufs where
    "add_blocks addrs block_size br (iu_next w) (buf_ring_mask block_count) 0 ring (iu_buffers w) = Inr (ring', bufs)"
    using run c r br a by (auto simp: iu_register_ring_buffer_def Let_def bindE_Inr_iff)
  then have "iu_groups w' ?g \<noteq> None"
    using run c r br a by (cases "iu_groups w ?g") (auto simp: iu_register_ring_buffer_def Let_def)
  moreover have "?g < 2 ^ 16"
    using unsigned_less [of "ucast (iu_group_id w) :: u16", where ?'a = nat] by simp
  ultimately show thesis using that by blast
qed

theorem uring_delete_frees_mapping:
  assumes "iu_register_ring_buffer reg mem alloc block_size block_count w = Inr (ret, w')" and "0 \<le> ret"
  shows "iu_delete w' = Inl Bad_Free"
proof -
  obtain g where g: "g < 2 ^ 16" "iu_groups w' g \<noteq> None" using register_leaves_group [OF assms] .
  have "iu_groups (iu_close w') = iu_groups w'" by (simp add: iu_close_def)
  then show ?thesis using g by (auto simp: iu_delete_def Let_def list_ex_iff)
qed

text \<open>
  C33. Registering a group of \<^verbatim>\<open>2^m\<close> blocks gives the kernel every block exactly once and the
  ids lead back: the ring the kernel sees holds, for block \<^verbatim>\<open>j\<close>, its address with the id
  under which \<^verbatim>\<open>dispatch\<close> will find that address again.
\<close>

theorem uring_register_blocks_roundtrip:
  assumes "iu_ring w = Some r" "0 < block_size" "m < 16" "alloc_blocks alloc 0 (2 ^ m) = Some addrs"
    "length (iu_buffers w) + 2 ^ m \<le> 2 ^ 16"
  shows "\<exists>w' ring. iu_register_ring_buffer None (Inr br) alloc block_size (2 ^ m) w =
       Inr (int (unat (ucast (iu_group_id w) :: u16)), w') \<and>
     iu_buf_rings w' br = Some ring \<and> br_tail ring = 2 ^ m \<and> map rb_addr (br_bufs ring) = addrs \<and>
     distinct (map rb_bid (br_bufs ring)) \<and>
     (\<forall>j < 2 ^ m. block_ready w' (ucast (rb_bid (br_bufs ring ! j))) (rb_addr (br_bufs ring ! j)))"
proof -
  let ?n = "length (iu_buffers w)"
  let ?ring = "\<lparr>br_tail = 2 ^ m, br_bufs = ring_entries block_size ?n addrs\<rparr>"
  from register_ok [OF assms(1-4) refl, of br] obtain w' where
    w': "iu_register_ring_buffer None (Inr br) alloc block_size (2 ^ m) w = Inr (int (unat (ucast (iu_group_id w) :: u16)), w')"
      "iu_buffers w' = iu_buffers w @ map (block_info block_size br (iu_next w) (mask m)) addrs"
      "iu_buf_rings w' br = Some ?ring"
      "iu_lasts w' (iu_next w) = Some \<lparr>lb_offset = 0, lb_index = UINT32_MAX\<rparr>" .
  have len: "length addrs = 2 ^ m" by (rule alloc_blocks_length [OF assms(4)])
  have addrs: "map rb_addr (ring_entries block_size ?n addrs) = addrs"
    by (rule nth_equalityI) (simp_all add: nth_ring_entries ring_entry_def)
  have bid: "unat (rb_bid (ring_entries block_size ?n addrs ! j)) = ?n + j" if "j < 2 ^ m" for j
    using that len assms(5) by (simp add: nth_ring_entries ring_entry_def unsigned_of_nat take_bit_nat_eq_self del: of_nat_add)
  have dist: "distinct (map rb_bid (ring_entries block_size ?n addrs))"
    using bid len unfolding distinct_conv_nth by (auto dest: arg_cong [where f = unat])
  have msk: "Suc (unat (mask m :: u32)) = 2 ^ m"
    
  proof -
    have "uint (mask m :: u32) = 2 ^ m - 1" 
      using assms(3) uint_mask_eq [where 'a = 32, of m] by (simp add: min_absorb2) (simp add: mask_eq_exp_minus_1)
    then show ?thesis by (simp add: unat_eq_nat_uint nat_diff_distrib nat_power_eq)
  qed
  have "block_ready w' (ucast (rb_bid (ring_entries block_size ?n addrs ! j))) (addrs ! j)" if "j < 2 ^ m" for j
  proof -
    have "unat (ucast (rb_bid (ring_entries block_size ?n addrs ! j)) :: u32) = ?n + j"
      using bid [OF that] assms(5) that by (simp add: unsigned_ucast_eq take_bit_nat_eq_self)
    then show ?thesis using w'(2-4) that len msk
      by (simp add: block_ready_def nth_append block_info_def Let_def)
  qed
  then show ?thesis using w'(1,3) addrs dist len
    by (intro exI [of _ w'] exI [of _ ?ring]) (simp add: nth_ring_entries ring_entry_def)
qed

theorem uring_register_blocks_roundtrip_witness:
  "\<exists>w' ring. iu_register_ring_buffer None (Inr 9) (\<lambda>i. Some (4096 * (i + 1))) 64 2 sample_uring = Inr (0, w') \<and>
     iu_buf_rings w' 9 = Some ring \<and> map rb_addr (br_bufs ring) = [4096, 8192] \<and> block_ready w' (ucast (rb_bid (br_bufs ring ! 1))) 8192"
proof -
  have a: "alloc_blocks (\<lambda>i. Some (4096 * (i + 1))) 0 (2 ^ 1) = Some [4096, 8192]" by (simp add: numeral_2_eq_2)
  have "length (iu_buffers sample_uring) + 2 ^ 1 \<le> 2 ^ 16" "iu_group_id sample_uring = 0"
    by (simp_all add: sample_uring_def io_uring_new_def)
  with uring_register_blocks_roundtrip [OF sample_uring_ring _ _ a, of 64 9] obtain w' ring where
    w': "iu_register_ring_buffer None (Inr 9) (\<lambda>i. Some (4096 * (i + 1))) 64 2 sample_uring = Inr (0, w')"
      "iu_buf_rings w' 9 = Some ring" "map rb_addr (br_bufs ring) = [4096, 8192]"
      "\<forall>j < 2. block_ready w' (ucast (rb_bid (br_bufs ring ! j))) (rb_addr (br_bufs ring ! j))"
    by auto
  have "rb_addr (br_bufs ring ! 1) = 8192" using w'(3) by (auto simp: map_eq_Cons_conv)
  then show ?thesis using w' by (metis one_less_numeral_iff semiring_norm(76))
qed

end
