(* ===== verification/Timer.thy ===== *)
theory Timer
  imports Epoll_Proofs Util
begin

unbundle bit_operations_syntax

text \<open>
  include/event/timer.h, source/event/timer.cpp and \<^verbatim>\<open>epoll::create_timer\<close>,
  \<^verbatim>\<open>epoll::close_timer\<close>: a timerfd with a read that is submitted again after each
  expiration. A timer is an address in \<open>te_timers\<close>; the closure the library submits for its
  reads, which calls \<^verbatim>\<open>handle_timeout\<close>, has a number of its own, as the user functions have.
  The closure owns the timer, so a closed timer is not deleted while the backend may still
  call it. Only a timer whose \<open>open\<close> fails is destroyed, before anything else holds it.
\<close>

subsection \<open>Data\<close>

record timer =
  tm_active :: bool
  tm_poll :: bool
  tm_fd :: fd_t
  tm_handler :: "nat option"
  tm_iov :: iovec
  tm_para :: u64

record timer_epoll = epoll +
  te_timers :: "nat \<Rightarrow> timer option"
  te_next :: nat
  te_closed :: "int list"

text \<open>The constructor; \<open>addr\<close> is the address of \<^verbatim>\<open>callback_para_\<close>.\<close>

definition timer_new :: "nat \<Rightarrow> timer" where
  "timer_new addr =
     \<lparr>tm_active = True, tm_poll = False, tm_fd = fd_default, tm_handler = None, tm_iov = mk_iovec addr 8, tm_para = 0\<rparr>"

definition tm_get :: "nat \<Rightarrow> 'a timer_epoll_scheme \<Rightarrow> timer result" where
  "tm_get t w = (case te_timers w t of None \<Rightarrow> Inl Use_After_Free | Some x \<Rightarrow> Inr x)"

definition tm_set :: "nat \<Rightarrow> timer \<Rightarrow> 'a timer_epoll_scheme \<Rightarrow> 'a timer_epoll_scheme" where
  "tm_set t x w = w\<lparr>te_timers := (te_timers w)(t \<mapsto> x)\<rparr>"

text \<open>The answers of the system calls of \<^verbatim>\<open>open\<close>.\<close>

record timer_env =
  tv_create :: int
  tv_getfl :: int
  tv_setfl :: int
  tv_settime :: int

subsection \<open>Operations of a timer\<close>

definition NANOS_OF_ONE_SECONDS :: u64 where "NANOS_OF_ONE_SECONDS = 1000000000"

text \<open>
  \<^verbatim>\<open>it_value\<close> and \<^verbatim>\<open>it_interval\<close>, each as seconds and nanoseconds: 64-bit unsigned sums stored
  in the signed \<^verbatim>\<open>time_t\<close> and \<^verbatim>\<open>long\<close>; \<^verbatim>\<open>now\<close> is zero.
\<close>

definition timer_spec :: "u64 \<Rightarrow> u64 \<Rightarrow> (int \<times> int) \<times> (int \<times> int)" where
  "timer_spec interval_s interval_ns =
     ((sint (0 + interval_s + (0 + interval_ns) div NANOS_OF_ONE_SECONDS), sint ((0 + interval_ns) mod NANOS_OF_ONE_SECONDS)),
      (sint (interval_s + interval_ns div NANOS_OF_ONE_SECONDS), sint (interval_ns mod NANOS_OF_ONE_SECONDS)))"

definition timer_open ::
  "timer_env \<Rightarrow> nat \<Rightarrow> nat \<Rightarrow> u64 \<Rightarrow> u64 \<Rightarrow> 'a timer_epoll_scheme \<Rightarrow> (int \<times> 'a timer_epoll_scheme) result" where
  "timer_open env closure t interval_s interval_ns w =
     bindE (tm_get t w) (\<lambda>x.
     if tm_poll x then Inr (- 1, w)
     else if snd (timer_spec interval_s interval_ns) = (0, 0) then Inr (- 1, w)
     else
       let x = x\<lparr>tm_fd := mk_fd (tv_create env) TIMER_FD\<rparr>; w = tm_set t x w
       in if fd_num (tm_fd x) = INVALID_FD then Inr (- 1, w)
          else if fst (util_make_fd_nonblocking (tv_getfl env) (tv_setfl env)) \<noteq> 0 then Inr (- 1, w)
          else if tv_settime env \<noteq> 0 then Inr (- 1, w)
          else
            let x = x\<lparr>tm_poll := True\<rparr>; w = tm_set t x w
            in bindE (epoll_submit_async_read (tm_fd x) (Some [tm_iov x]) 1 (Some closure) None w) (\<lambda>(ret, w).
               Inr (if ret = 0 then 0 else - 1, w)))"

definition timer_close ::
  "(call \<Rightarrow> 'a timer_epoll_scheme \<Rightarrow> 'a timer_epoll_scheme result) \<Rightarrow> nat \<Rightarrow> 'a timer_epoll_scheme
   \<Rightarrow> (int \<times> 'a timer_epoll_scheme) result" where
  "timer_close usr t w =
     bindE (tm_get t w) (\<lambda>x.
     let x = x\<lparr>tm_active := False, tm_handler := None\<rparr>; w = tm_set t x w
     in if fd_num (tm_fd x) = INVALID_FD then Inr (0, w)
        else
          let tmp_fd = tm_fd x; (_, fd, closed) = fd_close tmp_fd;
              w = (tm_set t (x\<lparr>tm_fd := fd\<rparr>) w)\<lparr>te_closed := te_closed w @ closed\<rparr>
          in if \<not> tm_poll x then Inl Null_Deref
             else bindE (epoll_cancel_async_read usr tmp_fd None w) (\<lambda>(ret, w).
                  Inr (if ret = 0 then 0 else - 1, w)))"

text \<open>The destructor.\<close>

definition timer_delete ::
  "(call \<Rightarrow> 'a timer_epoll_scheme \<Rightarrow> 'a timer_epoll_scheme result) \<Rightarrow> nat \<Rightarrow> 'a timer_epoll_scheme
   \<Rightarrow> 'a timer_epoll_scheme result" where
  "timer_delete usr t w =
     bindE (tm_get t w) (\<lambda>x.
     bindE (if fd_num (tm_fd x) \<noteq> INVALID_FD then bindE (timer_close usr t w) (\<lambda>(_, w). Inr w) else Inr w) (\<lambda>w.
     Inr (w\<lparr>te_timers := (te_timers w)(t := None)\<rparr>)))"

definition reg_timer_handler :: "nat \<Rightarrow> nat option \<Rightarrow> 'a timer_epoll_scheme \<Rightarrow> (int \<times> 'a timer_epoll_scheme) result" where
  "reg_timer_handler t cb w =
     bindE (tm_get t w) (\<lambda>x.
     if tm_handler x = None then Inr (0, tm_set t (x\<lparr>tm_handler := cb\<rparr>) w) else Inr (- 1, w))"

definition timer_submit_read_request :: "nat \<Rightarrow> 'a timer_epoll_scheme \<Rightarrow> 'a timer_epoll_scheme result" where
  "timer_submit_read_request t w =
     bindE (tm_get t w) (\<lambda>x.
     if \<not> tm_active x then Inr w
     else if \<not> tm_poll x then Inl Null_Deref
     else
       bindE (epoll_submit_async_read (tm_fd x) (Some [tm_iov x]) 1 None None w) (\<lambda>(ret, w).
       bindE (assertE (ret = 0)) (\<lambda>_. Inr w)))"

text \<open>\<open>thr\<close> is the user's timer function with the number of expirations.\<close>

definition call_handler ::
  "(nat \<Rightarrow> u64 \<Rightarrow> 'a timer_epoll_scheme \<Rightarrow> 'a timer_epoll_scheme result) \<Rightarrow> nat \<Rightarrow> u64 \<Rightarrow> 'a timer_epoll_scheme
   \<Rightarrow> 'a timer_epoll_scheme result" where
  "call_handler thr t count w =
     bindE (tm_get t w) (\<lambda>x. case tm_handler x of None \<Rightarrow> Inr w | Some n \<Rightarrow> thr n count w)"

definition handle_timeout ::
  "(nat \<Rightarrow> u64 \<Rightarrow> 'a timer_epoll_scheme \<Rightarrow> 'a timer_epoll_scheme result) \<Rightarrow> nat \<Rightarrow> int \<Rightarrow> 'a timer_epoll_scheme
   \<Rightarrow> 'a timer_epoll_scheme result" where
  "handle_timeout thr t ret w =
     bindE (tm_get t w) (\<lambda>x.
     if ret \<le> 0 \<or> \<not> tm_active x then Inr w
     else bindE (call_handler thr t (tm_para x) w) (timer_submit_read_request t))"

subsection \<open>The timers of the backend\<close>

definition epoll_create_timer ::
  "(call \<Rightarrow> 'a timer_epoll_scheme \<Rightarrow> 'a timer_epoll_scheme result) \<Rightarrow> timer_env \<Rightarrow> nat \<Rightarrow> nat
   \<Rightarrow> u64 \<Rightarrow> u64 \<Rightarrow> nat option \<Rightarrow> 'a timer_epoll_scheme \<Rightarrow> (int \<times> 'a timer_epoll_scheme) result" where
  "epoll_create_timer usr env addr closure interval_s interval_ns cb w =
     (if \<not> ((interval_s \<noteq> 0 \<or> interval_ns \<noteq> 0) \<and> cb \<noteq> None) then Inr (- 1, w)
      else
        let t = te_next w; w = tm_set t (timer_new addr) (w\<lparr>te_next := t + 1\<rparr>)
        in bindE (timer_open env closure t interval_s interval_ns w) (\<lambda>(ret, w).
           if ret \<noteq> 0 then bindE (timer_delete usr t w) (\<lambda>w. Inr (- 1, w))
           else
             bindE (reg_timer_handler t cb w) (\<lambda>(ret, w).
             if ret \<noteq> 0 then Inr (- 1, w)
             else Inr (i32_of_u32 (ep_timer_id w),
                       w\<lparr>ep_id_to_timer := (ep_id_to_timer w)(unat (ep_timer_id w) \<mapsto> t), ep_timer_id := ep_timer_id w + 1\<rparr>))))"

definition epoll_close_timer ::
  "(call \<Rightarrow> 'a timer_epoll_scheme \<Rightarrow> 'a timer_epoll_scheme result) \<Rightarrow> int \<Rightarrow> 'a timer_epoll_scheme
   \<Rightarrow> (int \<times> 'a timer_epoll_scheme) result" where
  "epoll_close_timer usr timer_id w =
     (let key = unat (word_of_int timer_id :: u32)
      in case ep_id_to_timer w key of
           None \<Rightarrow> Inr (- 1, w)
         | Some t \<Rightarrow>
             bindE (timer_close usr t w) (\<lambda>(_, w). Inr (0, w\<lparr>ep_id_to_timer := (ep_id_to_timer w)(key := None)\<rparr>)))"

subsection \<open>What the backend leaves alone\<close>

definition tpart :: "'a epoll_scheme \<Rightarrow> 'a \<times> u32 \<times> (nat \<Rightarrow> nat option) \<times> fd_t" where
  "tpart w = (epoll.more w, ep_timer_id w, ep_id_to_timer w, ep_epfd w)"

lemma tpartD:
  assumes "tpart (w' :: 'a timer_epoll_scheme) = tpart w"
  shows "te_timers w' = te_timers w" "te_next w' = te_next w" "te_closed w' = te_closed w"
    "ep_timer_id w' = ep_timer_id w" "ep_id_to_timer w' = ep_id_to_timer w" "epoll_is_inited w' = epoll_is_inited w"
    "timer_epoll.more w' = timer_epoll.more w"
  using assms by (cases w; cases w'; simp add: tpart_def epoll_is_inited_def)+

lemma action_tpart [simp]:
  "tpart (set_action a e w) = tpart w" "tpart (set_info i x w) = tpart w"
  "tpart (insert_non_submit a w) = tpart w" "tpart (w\<lparr>ep_ready := q\<rparr>) = tpart w" "tpart (w\<lparr>ep_change := q\<rparr>) = tpart w"
  "tpart (w\<lparr>ep_table := tbl, ep_next := n\<rparr>) = tpart w" "tpart (w\<lparr>w_rings := rs\<rparr>) = tpart w"
  by (simp_all add: tpart_def set_action_def set_info_def insert_non_submit_def)

lemma modify_action_tpart: "modify_action a f w = Inr w' \<Longrightarrow> tpart w' = tpart w"
  by (auto simp: modify_action_def elim!: bindE_InrE)

lemma push_tpart:
  "push_to_change_list i w = Inr w' \<Longrightarrow> tpart w' = tpart w"
  "push_ready_if P a w = Inr w' \<Longrightarrow> tpart w' = tpart w"
  by (auto simp: push_to_change_list_def push_ready_if_def elim!: bindE_InrE split: if_splits)

lemma note_event_tpart: "note_event i ev w = Inr w' \<Longrightarrow> tpart w' = tpart w"
  by (auto simp: note_event_def elim!: bindE_InrE dest!: push_tpart split: if_splits)

lemma find_or_create_info_tpart: "find_or_create_info fd w = Inr (i, w') \<Longrightarrow> tpart w' = tpart w"
  by (auto simp: find_or_create_info_def Let_def elim!: bindE_InrE split: option.splits prod.splits)

lemma submit_read_tpart:
  assumes "epoll_submit_async_read fd buf cnt cb opt w = Inr (r, w')"
  shows "tpart w' = tpart w"
  using assms unfolding epoll_submit_async_read_def Let_def
  by (auto elim!: bindE_InrE split: option.splits if_splits
      dest!: find_or_create_info_tpart modify_action_tpart note_event_tpart push_tpart)
lemma clear_multishot_tpart: "clear_multishot_task a w = Inr w' \<Longrightarrow> tpart (w' :: 'a epoll_scheme) = tpart w"
  by (auto simp: clear_multishot_task_def ring_unregister_fd_def set_ring_def Let_def elim!: bindE_InrE split: option.splits if_splits)

lemma disable_read_tpart: "disable_read a w = Inr w' \<Longrightarrow> tpart (w' :: 'a epoll_scheme) = tpart w"
  by (auto simp: disable_read_def Let_def elim!: bindE_InrE dest!: clear_multishot_tpart)

lemma cancel_read_tpart:
  assumes "epoll_cancel_async_read usr fd None w = Inr (r, w')"
  shows "tpart w' = tpart w"
  using assms unfolding epoll_cancel_async_read_def
  by (auto elim!: bindE_InrE split: option.splits if_splits dest!: disable_read_tpart push_tpart)

subsection \<open>Properties\<close>

lemma sint_u64_small:
  assumes "n < 2 ^ 63"
  shows "sint (word_of_nat n :: u64) = int n"
  using assms by (simp add: signed_of_nat signed_take_bit_int_eq_self)

lemma closed_timer:
  assumes "timer_close usr t w = Inr (r, w')"
  obtains x where "te_timers w' t = Some x" "\<not> tm_active x" "tm_handler x = None" "fd_num (tm_fd x) = INVALID_FD"
proof -
  obtain x where x: "te_timers w t = Some x" using assms by (auto simp: timer_close_def tm_get_def elim!: bindE_InrE split: option.splits)
  let ?x = "x\<lparr>tm_active := False, tm_handler := None\<rparr>"
  show thesis
  proof (cases "fd_num (tm_fd x) = INVALID_FD")
    case True
    then show thesis using assms x that [of ?x] by (auto simp: timer_close_def tm_get_def tm_set_def Let_def)
  next
    case False
    let ?w = "(tm_set t (?x\<lparr>tm_fd := (tm_fd x)\<lparr>fd_num := INVALID_FD, fd_type := UNKNOWN_FD\<rparr>\<rparr>) w)\<lparr>te_closed := te_closed w @ [fd_num (tm_fd x)]\<rparr>"
    obtain ret where "epoll_cancel_async_read usr (tm_fd x) None ?w = Inr (ret, w')"
      using assms x False by (auto simp: timer_close_def tm_get_def tm_set_def Let_def fd_close_def elim!: bindE_InrE split: if_splits)
    from tpartD(1) [OF cancel_read_tpart [OF this]] show thesis
      using that [of "?x\<lparr>tm_fd := (tm_fd x)\<lparr>fd_num := INVALID_FD, fd_type := UNKNOWN_FD\<rparr>\<rparr>"] by (simp add: tm_set_def)
  qed
qed

lemma cancel_read_missing:
  "opt_map_find MAX_FD (ep_table w) (fd_key fd) = None \<Longrightarrow> epoll_cancel_async_read usr fd cb w = Inr (- 1, w)"
  by (simp add: epoll_cancel_async_read_def)

lemma submit_read_inited:
  assumes "epoll_wf w" "epoll_is_inited w" "0 \<le> fd_num fd" "fd_type fd \<noteq> UNKNOWN_FD" "cnt = 0 \<or> buffer \<noteq> None"
  obtains w' i x e where "epoll_submit_async_read fd buffer cnt cb None w = Inr (0, w')" "epoll_wf w'"
    "entry w' (fd_key fd) i x e" "\<forall>n. cb = Some n \<longrightarrow> ea_read_cb e = Some (Cb_user n)"
    "ea_pending_read e = queue_of ea_pending_read w (fd_key fd) @ [read_task_of buffer cnt None]"
    "fd_type fd \<noteq> FILE_FD \<longrightarrow> ei_events x AND EV_READ \<noteq> 0"
  using submit_read_queued [OF assms, of cb None] by auto

lemma timer_spec_eq:
  assumes "unat interval_s + unat interval_ns div 1000000000 < 2 ^ 63"
  defines "s \<equiv> int (unat interval_s + unat interval_ns div 1000000000)" and "n \<equiv> int (unat interval_ns mod 1000000000)"
  shows "timer_spec interval_s interval_ns = ((s, n), (s, n))"
proof -
  let ?d = "unat interval_ns div 1000000000" and ?m = "unat interval_ns mod 1000000000"
  have q: "unat (interval_ns div NANOS_OF_ONE_SECONDS) = ?d" "unat (interval_ns mod NANOS_OF_ONE_SECONDS) = ?m"
    by (simp_all add: NANOS_OF_ONE_SECONDS_def unat_div unat_mod)
  have sum: "unat (interval_s + interval_ns div NANOS_OF_ONE_SECONDS) = unat interval_s + ?d"
    using assms(1) q(1) by (simp add: unat_plus_if')
  have si: "sint v = int (unat v)" if "unat v < 2 ^ 63" for v :: u64
    using sint_u64_small [OF that] by simp
  have "?m < 1000000000" by simp
  then have "sint (interval_ns mod NANOS_OF_ONE_SECONDS) = n"
    using si [of "interval_ns mod NANOS_OF_ONE_SECONDS"] q(2) by (simp add: n_def)
  moreover have "sint (interval_s + interval_ns div NANOS_OF_ONE_SECONDS) = s"
    using si [of "interval_s + interval_ns div NANOS_OF_ONE_SECONDS"] sum assms(1) by (simp add: s_def)
  ultimately show ?thesis by (simp add: timer_spec_def)
qed

lemma timer_span:
  fixes a b :: nat
  shows "int (a + b div 1000000000) * 1000000000 + int (b mod 1000000000) = int a * 1000000000 + int b"
proof -
  have "int (b div 1000000000 * 1000000000 + b mod 1000000000) = int b" by (simp only: div_mult_mod_eq)
  then show ?thesis by (simp only: of_nat_add of_nat_mult of_nat_numeral distrib_right)
qed

text \<open>
  The interval a timer is armed with is the interval asked for: the seconds and
  nanoseconds given to \<^verbatim>\<open>timerfd_settime\<close> denote the same time span, are normalised, and the
  first expiration comes after one interval. The sum must fit the signed seconds.
\<close>

theorem timer_interval_normalised:
  assumes "unat interval_s + unat interval_ns div 1000000000 < 2 ^ 63"
  shows "\<exists>s n. timer_spec interval_s interval_ns = ((s, n), (s, n)) \<and> 0 \<le> s \<and> 0 \<le> n \<and> n < 1000000000 \<and>
     s * 1000000000 + n = int (unat interval_s) * 1000000000 + int (unat interval_ns)"
proof -
  have "int (unat interval_ns mod 1000000000) < 1000000000" by simp
  then show ?thesis
    by (intro exI conjI) (rule timer_spec_eq [OF assms] timer_span of_nat_0_le_iff | assumption)+
qed

theorem timer_interval_normalised_witness:
  "\<exists>s n. timer_spec 1 2500000000 = ((s, n), (s, n)) \<and> s * 1000000000 + n = 3500000000"
  using timer_interval_normalised [of 1 2500000000] by auto

text \<open>
  A closed timer is silent: whatever the backend still delivers for it, after \<^verbatim>\<open>close\<close> its
  handler is not called and no read is submitted for it.
\<close>

theorem closed_timer_silent:
  assumes "timer_close usr t w = Inr (r, w')"
  shows "handle_timeout thr t ret w' = Inr w'"
proof -
  obtain x where "te_timers w' t = Some x" "\<not> tm_active x" using closed_timer [OF assms] .
  then show ?thesis by (simp add: handle_timeout_def tm_get_def)
qed

text \<open>
  C26. A timer is periodic: each expiration calls the handler with the expiration count and
  then queues exactly one more read of the timer descriptor, with the read event asked for,
  so the next expiration is delivered too. The handler may do anything that keeps the
  backend well formed and does not close the timer.
\<close>

theorem timer_fires_and_rearms:
  assumes "te_timers w t = Some x" "tm_active x" "tm_handler x = Some n" "0 < ret" "thr n (tm_para x) w = Inr w1"
    "te_timers w1 t = Some x1" "tm_active x1" "tm_poll x1" "0 \<le> fd_num (tm_fd x1)" "fd_type (tm_fd x1) = TIMER_FD"
    "epoll_wf w1" "epoll_is_inited w1"
  shows "\<exists>w' i xi e. handle_timeout thr t ret w = Inr w' \<and> epoll_wf w' \<and> te_timers w' t = Some x1 \<and>
     entry w' (fd_key (tm_fd x1)) i xi e \<and> ei_events xi AND EV_READ \<noteq> 0 \<and>
     ea_pending_read e = queue_of ea_pending_read w1 (fd_key (tm_fd x1)) @ [read_task_of (Some [tm_iov x1]) 1 None]"
proof -
  have "fd_type (tm_fd x1) \<noteq> UNKNOWN_FD" "fd_type (tm_fd x1) \<noteq> FILE_FD" "1 = (0 :: nat) \<or> Some [tm_iov x1] \<noteq> None"
    using assms(10) by simp_all
  from submit_read_inited [OF assms(11,12,9) this(1,3), of None] this(2) obtain w' i xi e where
    w': "epoll_submit_async_read (tm_fd x1) (Some [tm_iov x1]) 1 None None w1 = Inr (0, w')" "epoll_wf w'"
      "entry w' (fd_key (tm_fd x1)) i xi e" "ei_events xi AND EV_READ \<noteq> 0"
      "ea_pending_read e = queue_of ea_pending_read w1 (fd_key (tm_fd x1)) @ [read_task_of (Some [tm_iov x1]) 1 None]"
    by metis
  have "te_timers w' t = Some x1" using tpartD(1) [OF submit_read_tpart [OF w'(1)]] assms(6) by simp
  with w' assms show ?thesis
    by (auto simp: handle_timeout_def call_handler_def timer_submit_read_request_def tm_get_def)
qed

text \<open>
  \<^verbatim>\<open>epoll::create_timer\<close> on a well-formed backend, when the system calls succeed, returns a
  fresh id under which the timer is found, with its handler, active, and with a first read
  queued whose callback is the closure of the timer.
\<close>

theorem create_timer_arms:
  assumes "epoll_wf w" "epoll_is_inited w" "interval_s \<noteq> 0 \<or> interval_ns \<noteq> 0"
    "unat interval_s + unat interval_ns div 1000000000 < 2 ^ 63"
    "0 \<le> tv_create env" "fst (util_make_fd_nonblocking (tv_getfl env) (tv_setfl env)) = 0" "tv_settime env = 0"
  shows "\<exists>w' x i xi e. epoll_create_timer usr env addr closure interval_s interval_ns (Some n) w =
       Inr (i32_of_u32 (ep_timer_id w), w') \<and>
     ep_id_to_timer w' = (ep_id_to_timer w)(unat (ep_timer_id w) \<mapsto> te_next w) \<and>
     te_timers w' (te_next w) = Some x \<and> tm_active x \<and> tm_poll x \<and> tm_handler x = Some n \<and> tm_fd x = mk_fd (tv_create env) TIMER_FD \<and>
     epoll_wf w' \<and> entry w' (fd_key (tm_fd x)) i xi e \<and> ea_read_cb e = Some (Cb_user closure) \<and>
     ea_pending_read e = queue_of ea_pending_read w (fd_key (tm_fd x)) @ [read_task_of (Some [mk_iovec addr 8]) 1 None]"
proof -
  let ?t = "te_next w" and ?fd = "mk_fd (tv_create env) TIMER_FD"
  let ?x = "(timer_new addr)\<lparr>tm_fd := ?fd, tm_poll := True\<rparr>"
  let ?w = "tm_set ?t ?x (w\<lparr>te_next := ?t + 1\<rparr>)"
  have "int (unat interval_s + unat interval_ns div 1000000000) \<noteq> 0 \<or> int (unat interval_ns mod 1000000000) \<noteq> 0"
  proof (rule ccontr)
    assume "\<not> ?thesis"
    with timer_span [of "unat interval_s" "unat interval_ns"] have "int (unat interval_s) * 1000000000 + int (unat interval_ns) = 0"
      by (simp only: de_Morgan_disj not_not mult_zero_left add_0_left)
    then have "unat interval_s = 0 \<and> unat interval_ns = 0" by linarith
    then show False using assms(3) by (simp add: unat_eq_0)
  qed
  then have spec: "snd (timer_spec interval_s interval_ns) \<noteq> (0, 0)" using timer_spec_eq [OF assms(4)] by simp
  have iov: "tm_iov ?x = mk_iovec addr 8" by (simp add: timer_new_def)
  have "epoll_wf ?w" "epoll_is_inited ?w" "0 \<le> fd_num ?fd" "fd_type ?fd \<noteq> UNKNOWN_FD" "1 = (0 :: nat) \<or> Some [mk_iovec addr 8] \<noteq> None"
    using assms by (simp_all add: tm_set_def epoll_wf_def epoll_is_inited_def mk_fd_def)
  from submit_read_inited [OF this, of "Some closure"] obtain w1 i xi e where
    w1: "epoll_submit_async_read ?fd (Some [mk_iovec addr 8]) 1 (Some closure) None ?w = Inr (0, w1)" "epoll_wf w1"
      "entry w1 (fd_key ?fd) i xi e" "ea_read_cb e = Some (Cb_user closure)"
      "ea_pending_read e = queue_of ea_pending_read ?w (fd_key ?fd) @ [read_task_of (Some [mk_iovec addr 8]) 1 None]"
    by metis
  note part = tpartD [OF submit_read_tpart [OF w1(1)]]
  let ?x' = "?x\<lparr>tm_handler := Some n\<rparr>"
  let ?w' = "(tm_set ?t ?x' w1)\<lparr>ep_id_to_timer := (ep_id_to_timer w1)(unat (ep_timer_id w1) \<mapsto> ?t), ep_timer_id := ep_timer_id w1 + 1\<rparr>"
  have "timer_open env closure ?t interval_s interval_ns (tm_set ?t (timer_new addr) (w\<lparr>te_next := ?t + 1\<rparr>)) = Inr (0, w1)"
    using w1(1) spec assms(5-7) by (simp add: timer_open_def tm_get_def tm_set_def timer_new_def mk_fd_def INVALID_FD_def Let_def)
  moreover have "reg_timer_handler ?t (Some n) w1 = Inr (0, tm_set ?t ?x' w1)"
    using part(1) by (simp add: reg_timer_handler_def tm_get_def tm_set_def timer_new_def)
  ultimately have "epoll_create_timer usr env addr closure interval_s interval_ns (Some n) w = Inr (i32_of_u32 (ep_timer_id w), ?w')"
    using assms(3) part(4) by (simp add: epoll_create_timer_def Let_def tm_set_def)
  moreover have "epoll_wf ?w'" "entry ?w' (fd_key ?fd) i xi e"
    using w1(2,3) by (simp_all add: tm_set_def epoll_wf_def entry_def)
  moreover have "queue_of ea_pending_read ?w = queue_of ea_pending_read w"
    by (simp add: queue_of_def fd_action_def tm_set_def fun_eq_iff cong: option.case_cong)
  ultimately show ?thesis using w1(4,5) part(4,5)
    by (intro exI [of _ ?w'] exI [of _ ?x'] exI [of _ i] exI [of _ xi] exI [of _ e]) (simp add: tm_set_def timer_new_def)
qed


text \<open>
  When the timer descriptor was created but \<^verbatim>\<open>timerfd_settime\<close> or the switch to
  non-blocking mode fails, \<^verbatim>\<open>create_timer\<close> does not return an error: the destructor of the
  half-opened timer cancels a read through the backend pointer, which is still null.
\<close>

theorem create_timer_failure_crashes:
  assumes "interval_s \<noteq> 0 \<or> interval_ns \<noteq> 0" "snd (timer_spec interval_s interval_ns) \<noteq> (0, 0)" "0 \<le> tv_create env"
    "fst (util_make_fd_nonblocking (tv_getfl env) (tv_setfl env)) \<noteq> 0 \<or> tv_settime env \<noteq> 0"
  shows "epoll_create_timer usr env addr closure interval_s interval_ns (Some n) w = Inl Null_Deref"
  using assms
  by (auto simp: epoll_create_timer_def timer_open_def timer_delete_def timer_close_def tm_get_def tm_set_def timer_new_def
      mk_fd_def INVALID_FD_def fd_close_def Let_def)

text \<open>The backend of the witnesses: initialised, without descriptors and timers.\<close>

definition sample_timer_epoll :: timer_epoll where
  "sample_timer_epoll = snd (epoll_init 3 (epoll.extend epoll_new (timer_epoll.fields Map.empty 0 [])))"

lemma sample_timer_epoll_wf: "epoll_wf sample_timer_epoll" "epoll_is_inited sample_timer_epoll"
  by (simp_all add: sample_timer_epoll_def epoll_init_def epoll.defs timer_epoll.defs epoll_new_def epoll_wf_def epoll_is_inited_def
      table_ok_def infos_ok_def change_ok_def queues_ok_def opt_map_find_clear mk_fd_def INVALID_FD_def Let_def)

lemma sample_timer_epoll_table: "ep_table sample_timer_epoll = opt_map_empty MAX_FD"
  by (simp add: sample_timer_epoll_def epoll_init_def epoll.defs timer_epoll.defs epoll_new_def Let_def)

definition sample_timer_env :: timer_env where
  "sample_timer_env = \<lparr>tv_create = 9, tv_getfl = 2048, tv_setfl = 0, tv_settime = 0\<rparr>"

theorem create_timer_arms_witness:
  "\<exists>w' x. epoll_create_timer quiet_ep sample_timer_env 64 5 1 0 (Some 8) sample_timer_epoll = Inr (0, w') \<and>
     ep_id_to_timer w' 0 = Some 0 \<and> te_timers w' 0 = Some x \<and> tm_handler x = Some 8"
proof -
  have "ep_timer_id sample_timer_epoll = 0" "te_next sample_timer_epoll = 0"
    by (simp_all add: sample_timer_epoll_def epoll_init_def epoll.defs timer_epoll.defs epoll_new_def Let_def)
  moreover have "fst (util_make_fd_nonblocking (tv_getfl sample_timer_env) (tv_setfl sample_timer_env)) = 0"
    "0 \<le> tv_create sample_timer_env" "tv_settime sample_timer_env = 0"
    by (simp_all add: sample_timer_env_def util_make_fd_nonblocking_def O_NONBLOCK_def)
  ultimately show ?thesis
    using create_timer_arms [OF sample_timer_epoll_wf, of 1 0 sample_timer_env quiet_ep 64 5 8]
    by (auto simp: i32_of_u32_def)
qed

theorem create_timer_failure_crashes_witness:
  "epoll_create_timer quiet_ep (sample_timer_env\<lparr>tv_settime := - 1\<rparr>) 64 5 1 0 (Some 8) sample_timer_epoll = Inl Null_Deref"
  by (rule create_timer_failure_crashes)
    (simp_all add: sample_timer_env_def timer_spec_eq)

definition sample_timer :: timer where
  "sample_timer = (timer_new 64)\<lparr>tm_fd := mk_fd 9 TIMER_FD, tm_poll := True, tm_handler := Some 8, tm_para := 1\<rparr>"

theorem closed_timer_silent_witness:
  "\<exists>r w'. timer_close quiet_ep 0 (tm_set 0 sample_timer sample_timer_epoll) = Inr (r, w') \<and>
     handle_timeout (\<lambda>_ _ _. Inl Assert_Exit) 0 8 w' = Inr w'"
proof -
  obtain r w' where "timer_close quiet_ep 0 (tm_set 0 sample_timer sample_timer_epoll) = Inr (r, w')"
    using sample_timer_epoll_table
    by (simp add: timer_close_def tm_get_def tm_set_def sample_timer_def timer_new_def mk_fd_def INVALID_FD_def fd_close_def Let_def
        cancel_read_missing opt_map_find_clear)
  with closed_timer_silent [OF this] show ?thesis by blast
qed

theorem timer_fires_and_rearms_witness:
  "\<exists>w' i xi e. handle_timeout (\<lambda>n count w. Inr w) 0 8 (tm_set 0 sample_timer sample_timer_epoll) = Inr w' \<and>
     entry w' (fd_key (mk_fd 9 TIMER_FD)) i xi e \<and> ei_events xi AND EV_READ \<noteq> 0"
proof -
  let ?w = "tm_set 0 sample_timer sample_timer_epoll"
  have "te_timers ?w 0 = Some sample_timer" "epoll_wf ?w" "epoll_is_inited ?w"
    using sample_timer_epoll_wf by (simp_all add: tm_set_def epoll_wf_def epoll_is_inited_def)
  then show ?thesis
    using timer_fires_and_rearms [of ?w 0 sample_timer 8 8 "\<lambda>n count w. Inr w" ?w sample_timer]
    by (auto simp: sample_timer_def timer_new_def mk_fd_def)
qed

end
