(* ===== verification/Poll_Base.thy ===== *)
theory Poll_Base
  imports Type_Def
begin

text \<open>
  include/event/poll_base.h and \<^verbatim>\<open>get_poll_obj\<close> of source/event/event_common.cpp: the
  interface behind which the event loop uses either backend. The class of virtual functions
  is the record \<open>poll_base\<close>; a value of it is one backend, over the states \<open>'w\<close> of the
  whole process, which hold the backend and, reached through \<open>pb_loop\<close> and
  \<open>pb_set_loop\<close>, the object of the event loop. Callbacks have numbers; \<open>'w runner\<close> runs
  the callback with a number on a result. The answers of the kernel belong to the backend.
\<close>

text \<open>The arguments of a callback: of \<^verbatim>\<open>void(int32_t)\<close>, of a read callback and of an accept callback.\<close>

datatype cbarg =
    Arg_Res int
  | Arg_Read int "iovec list option" nat bool
  | Arg_Accept int "fd_t option"

fun arg_res :: "cbarg \<Rightarrow> int" where
  "arg_res (Arg_Res r) = r"
| "arg_res (Arg_Read r _ _ _) = r"
| "arg_res (Arg_Accept r _) = r"

type_synonym 'w runner = "nat \<Rightarrow> cbarg \<Rightarrow> 'w \<Rightarrow> 'w result"
type_synonym 'w op = "'w \<Rightarrow> (int \<times> 'w) result"

record ('l, 'w) poll_base =
  pb_loop :: "'w \<Rightarrow> 'l"
  pb_set_loop :: "'l \<Rightarrow> 'w \<Rightarrow> 'w"
  pb_init :: "u32 \<Rightarrow> 'w \<Rightarrow> bool \<times> 'w"
  pb_register_ring_buffer :: "u32 \<Rightarrow> u32 \<Rightarrow> 'w op"
  pb_unregister_ring_buffer :: "u16 \<Rightarrow> 'w op"
  pb_submit_async_read_group :: "fd_t \<Rightarrow> u32 \<Rightarrow> nat option \<Rightarrow> read_options option \<Rightarrow> 'w op"
  pb_submit_async_read :: "fd_t \<Rightarrow> iovec list option \<Rightarrow> nat \<Rightarrow> nat option \<Rightarrow> read_options option \<Rightarrow> 'w op"
  pb_cancel_async_read :: "'w runner \<Rightarrow> fd_t \<Rightarrow> nat option \<Rightarrow> 'w op"
  pb_submit_async_accept :: "fd_t \<Rightarrow> nat option \<Rightarrow> nat option \<Rightarrow> 'w op"
  pb_cancel_async_accept :: "'w runner \<Rightarrow> fd_t \<Rightarrow> nat option \<Rightarrow> 'w op"
  pb_submit_async_write :: "fd_t \<Rightarrow> iovec list option \<Rightarrow> nat \<Rightarrow> nat option \<Rightarrow> write_options option \<Rightarrow> 'w op"
  pb_cancel_async_write :: "'w runner \<Rightarrow> fd_t \<Rightarrow> nat option \<Rightarrow> 'w op"
  pb_create_timer :: "'w runner \<Rightarrow> u64 \<Rightarrow> u64 \<Rightarrow> nat option \<Rightarrow> 'w op"
  pb_close_timer :: "'w runner \<Rightarrow> int \<Rightarrow> 'w op"
  pb_submit :: "'w op"
  pb_dispatch :: "'w runner \<Rightarrow> int \<Rightarrow> 'w op"
  pb_close :: "'w \<Rightarrow> 'w"

text \<open>The backends of a build; \<open>ep\<close> and \<open>iu\<close> tell which are compiled in.\<close>

datatype poll_kind = Poll_Epoll | Poll_Io_Uring

definition get_poll_obj :: "bool \<Rightarrow> bool \<Rightarrow> u32 \<Rightarrow> poll_kind option" where
  "get_poll_obj ep iu ptype =
     (if ptype \<noteq> UINT32_MAX
      then if ptype = 0 then (if ep then Some Poll_Epoll else None)
           else if ptype = 1 then (if iu then Some Poll_Io_Uring else None)
           else None
      else if iu then Some Poll_Io_Uring else if ep then Some Poll_Epoll else None)"

subsection \<open>The contract of a backend\<close>

definition run_keeps :: "('l \<Rightarrow> bool) \<Rightarrow> ('w \<Rightarrow> 'l) \<Rightarrow> 'w runner \<Rightarrow> bool" where
  "run_keeps P g run \<longleftrightarrow> (\<forall>n r w w'. run n r w = Inr w' \<longrightarrow> P (g w) \<longrightarrow> P (g w'))"

text \<open>
  What the event loop relies on: the loop object is a part of the state of its own, which the
  requests do not touch, and which cancellation and \<^verbatim>\<open>dispatch\<close> change only through the
  callbacks they run; a backend that is not initialised and an invalid descriptor are
  refused with -1 and without effect; a successful initialisation makes the backend usable.
\<close>

locale poll_contract =
  fixes pb :: "('l, 'w) poll_base"
    and inited :: "'w \<Rightarrow> bool"
  assumes loop_set: "pb_loop pb (pb_set_loop pb l w) = l"
    and set_set: "pb_set_loop pb l (pb_set_loop pb l' w) = pb_set_loop pb l w"
    and set_loop: "pb_set_loop pb (pb_loop pb w) w = w"
    and inited_set: "inited (pb_set_loop pb l w) = inited w"
    and init_inited: "pb_init pb entries w = (True, w') \<Longrightarrow> inited w'"
    and init_loop: "pb_init pb entries w = (ok, w') \<Longrightarrow> pb_loop pb w' = pb_loop pb w"
    and read_refused: "\<not> inited w \<or> fd_num fd < 0 \<Longrightarrow> pb_submit_async_read pb fd buf cnt cb opt w = Inr (- 1, w)"
    and write_refused: "\<not> inited w \<or> fd_num fd < 0 \<Longrightarrow> pb_submit_async_write pb fd buf cnt cb wopt w = Inr (- 1, w)"
    and cancel_read_refused: "\<not> inited w \<or> fd_num fd < 0 \<Longrightarrow> pb_cancel_async_read pb run fd cb w = Inr (- 1, w)"
    and cancel_write_refused: "\<not> inited w \<or> fd_num fd < 0 \<Longrightarrow> pb_cancel_async_write pb run fd cb w = Inr (- 1, w)"
    and read_loop: "pb_submit_async_read pb fd buf cnt cb opt w = Inr (r, w') \<Longrightarrow> pb_loop pb w' = pb_loop pb w"
    and write_loop: "pb_submit_async_write pb fd buf cnt cb wopt w = Inr (r, w') \<Longrightarrow> pb_loop pb w' = pb_loop pb w"
    and group_loop: "pb_submit_async_read_group pb fd grp cb opt w = Inr (r, w') \<Longrightarrow> pb_loop pb w' = pb_loop pb w"
    and accept_loop: "pb_submit_async_accept pb fd addr cb w = Inr (r, w') \<Longrightarrow> pb_loop pb w' = pb_loop pb w"
    and register_loop: "pb_register_ring_buffer pb bsize bcount w = Inr (r, w') \<Longrightarrow> pb_loop pb w' = pb_loop pb w"
    and unregister_loop: "pb_unregister_ring_buffer pb g w = Inr (r, w') \<Longrightarrow> pb_loop pb w' = pb_loop pb w"
    and close_timer_loop: "pb_close_timer pb run i w = Inr (r, w') \<Longrightarrow> pb_loop pb w' = pb_loop pb w"
    and cancel_read_keeps: "run_keeps P (pb_loop pb) run \<Longrightarrow> P (pb_loop pb w) \<Longrightarrow> pb_cancel_async_read pb run fd cb w = Inr (r, w') \<Longrightarrow> P (pb_loop pb w')"
    and cancel_write_keeps: "run_keeps P (pb_loop pb) run \<Longrightarrow> P (pb_loop pb w) \<Longrightarrow> pb_cancel_async_write pb run fd cb w = Inr (r, w') \<Longrightarrow> P (pb_loop pb w')"
    and cancel_accept_keeps: "run_keeps P (pb_loop pb) run \<Longrightarrow> P (pb_loop pb w) \<Longrightarrow> pb_cancel_async_accept pb run fd cb w = Inr (r, w') \<Longrightarrow> P (pb_loop pb w')"
    and dispatch_keeps: "run_keeps P (pb_loop pb) run \<Longrightarrow> P (pb_loop pb w) \<Longrightarrow> pb_dispatch pb run t w = Inr (r, w') \<Longrightarrow> P (pb_loop pb w')"

end
