(* ===== verification/Event_Loop.thy ===== *)
theory Event_Loop
  imports Poll_Base
begin

unbundle bit_operations_syntax

text \<open>
  include/event/event_base.h, source/event/event_base.cpp, include/event/event_loop.h and
  source/event/event_loop.cpp: the event objects and the loop that drives them. An event
  object is an address in \<open>el_events\<close>; the notifier, the signal event and the inotify event
  of the theory \<open>Event_Service\<close> are the classes an object can have, and their fields are
  the ones with the prefix \<open>ev_\<close>. The closures the library hands to the backend are kept
  in \<open>el_closures\<close> and are named by their position. User functions have numbers, \<open>el_calls\<close>
  logs their calls, and what they do to the process is the function \<open>usr\<close>.

  The unordered sets of the loop are lists without duplicates, in the order in which the
  code iterates. Threads have numbers; the job queues are only accessed under the mutexes,
  so each access is one step.
\<close>

subsection \<open>Event objects\<close>

datatype EVENT_STATE = EVENT_DEF | EVENT_OPENED | EVENT_CLOSED
datatype EVENT_TYPE = EVENT_NORMAL | EVENT_BUSY_POLL
datatype event_class = Plain_Event | Notifier | Signal_Event | Inotify | Derived_Event

record event_base =
  eb_class :: event_class
  eb_type :: EVENT_TYPE
  eb_state :: EVENT_STATE
  eb_fds_evts :: "(fd_t \<times> u16) list"
  eb_read_cb :: "nat option"
  eb_cancel_read_cb :: "nat option"
  eb_write_cb :: "nat option"
  eb_cancel_write_cb :: "nat option"
  eb_service :: bool
  ev_raise :: bool
  ev_fd :: fd_t
  ev_iov :: iovec
  ev_handler :: "nat option"
  ev_stop_handler :: "nat option"
  ev_active :: bool
  ev_signo :: u32
  ev_watches :: "int \<Rightarrow> nat option"
  ev_buffer :: "(int \<times> u32) list"

definition event_base_new :: "event_class \<Rightarrow> iovec \<Rightarrow> event_base" where
  "event_base_new c iov =
     \<lparr>eb_class = c, eb_type = EVENT_NORMAL, eb_state = EVENT_DEF, eb_fds_evts = [], eb_read_cb = None,
      eb_cancel_read_cb = None, eb_write_cb = None, eb_cancel_write_cb = None, eb_service = False, ev_raise = False,
      ev_fd = fd_default, ev_iov = iov, ev_handler = None, ev_stop_handler = None, ev_active = True, ev_signo = 0,
      ev_watches = Map.empty, ev_buffer = []\<rparr>"

datatype closure =
    Cl_User nat
  | Cl_Ready nat fd_t bool
  | Cl_Handle nat
  | Cl_Timer nat
  | Cl_On_Timer

datatype lcall =
    L_Job nat
  | L_User nat cbarg
  | L_Notify nat
  | L_Stop nat
  | L_Signal nat u32
  | L_Watch nat
  | L_Started nat bool
  | L_Read_Ready nat fd_t
  | L_Write_Ready nat fd_t

subsection \<open>The loop object\<close>

datatype EL_INSTRUCTION = EI_ADD | EI_REMOVE
datatype EL_STATE = ES_DEF | ES_INIT | ES_START | ES_STOP
datatype job = Job nat | Job_Handle_Close

record loop_event_info =
  li_evt :: nat
  li_instruction :: EL_INSTRUCTION
  li_fds_evts :: "(fd_t \<times> u16) list"

record internal_notifier =
  in_fd :: fd_t
  in_loop :: bool

record event_loop =
  el_polling_ms :: int
  el_poll :: bool
  el_handlers :: "nat list"
  el_busy :: "nat list"
  el_removed :: "nat list"
  el_cache :: "loop_event_info list"
  el_thread_id :: nat
  el_state :: EL_STATE
  el_other_jobs :: "job list"
  el_same_jobs :: "job list"
  el_swap :: "job list"
  el_ntf :: "internal_notifier option"
  el_timer_id :: int
  el_events :: "nat \<Rightarrow> event_base option"
  el_next :: nat
  el_closures :: "closure list"
  el_writes :: "sysret list"
  el_calls :: "lcall list"

definition event_loop_new :: event_loop where
  "event_loop_new =
     \<lparr>el_polling_ms = - 1, el_poll = False, el_handlers = [], el_busy = [], el_removed = [], el_cache = [],
      el_thread_id = 0, el_state = ES_DEF, el_other_jobs = [], el_same_jobs = [], el_swap = [], el_ntf = None,
      el_timer_id = - 1, el_events = Map.empty, el_next = 0, el_closures = [], el_writes = [], el_calls = []\<rparr>"

definition new_closure :: "closure \<Rightarrow> 'x event_loop_scheme \<Rightarrow> nat \<times> 'x event_loop_scheme" where
  "new_closure c l = (length (el_closures l), l\<lparr>el_closures := el_closures l @ [c]\<rparr>)"

type_synonym ('x, 'w) poll = "('x event_loop_scheme, 'w) poll_base"
type_synonym 'w lusr = "lcall \<Rightarrow> 'w \<Rightarrow> 'w result"

definition upd_loop :: "('x, 'w) poll \<Rightarrow> ('x event_loop_scheme \<Rightarrow> 'x event_loop_scheme) \<Rightarrow> 'w \<Rightarrow> 'w" where
  "upd_loop pb f w = pb_set_loop pb (f (pb_loop pb w)) w"

definition ev_get :: "('x, 'w) poll \<Rightarrow> nat \<Rightarrow> 'w \<Rightarrow> event_base result" where
  "ev_get pb e w = (case el_events (pb_loop pb w) e of None \<Rightarrow> Inl Use_After_Free | Some x \<Rightarrow> Inr x)"

definition ev_set :: "('x, 'w) poll \<Rightarrow> nat \<Rightarrow> event_base \<Rightarrow> 'w \<Rightarrow> 'w" where
  "ev_set pb e x w = upd_loop pb (\<lambda>l. l\<lparr>el_events := (el_events l)(e \<mapsto> x)\<rparr>) w"

definition call_user :: "('x, 'w) poll \<Rightarrow> 'w lusr \<Rightarrow> lcall \<Rightarrow> 'w \<Rightarrow> 'w result" where
  "call_user pb usr c w = usr c (upd_loop pb (\<lambda>l. l\<lparr>el_calls := el_calls l @ [c]\<rparr>) w)"

subsection \<open>Requests to the loop\<close>

definition add_event :: "nat \<Rightarrow> 'x event_loop_scheme \<Rightarrow> 'x event_loop_scheme result" where
  "add_event e l =
     (if el_state l = ES_INIT \<or> el_state l = ES_START
      then (case el_events l e of
              None \<Rightarrow> Inl Use_After_Free
            | Some x \<Rightarrow> Inr (l\<lparr>el_cache := el_cache l @ [\<lparr>li_evt = e, li_instruction = EI_ADD, li_fds_evts = eb_fds_evts x\<rparr>]\<rparr>))
      else Inr l)"

definition remove_event :: "nat \<Rightarrow> 'x event_loop_scheme \<Rightarrow> 'x event_loop_scheme result" where
  "remove_event e l =
     (if el_state l = ES_INIT \<or> el_state l = ES_START
      then (case el_events l e of
              None \<Rightarrow> Inl Use_After_Free
            | Some x \<Rightarrow> Inr (l\<lparr>el_cache := el_cache l @ [\<lparr>li_evt = e, li_instruction = EI_REMOVE, li_fds_evts = eb_fds_evts x\<rparr>]\<rparr>))
      else Inr l)"

text \<open>
  The loop of \<^verbatim>\<open>notify\<close>, on the answers of \<^verbatim>\<open>write\<close>: it goes round again on \<^verbatim>\<open>EAGAIN\<close> and
  \<^verbatim>\<open>EINTR\<close> and after a write of any other length than eight.
\<close>

fun notify_loop :: "sysret list \<Rightarrow> sysret list result" where
  "notify_loop [] = Inl Blocked"
| "notify_loop (SysErr e # as) = (if e = EAGAIN \<or> e = EINTR then notify_loop as else Inr as)"
| "notify_loop (SysOk n _ # as) = (if n = 8 then Inr as else notify_loop as)"

definition internal_notify :: "'x event_loop_scheme \<Rightarrow> 'x event_loop_scheme result" where
  "internal_notify l = bindE (notify_loop (el_writes l)) (\<lambda>as. Inr (l\<lparr>el_writes := as\<rparr>))"

definition wake_up :: "'x event_loop_scheme \<Rightarrow> 'x event_loop_scheme result" where
  "wake_up l = (case el_ntf l of None \<Rightarrow> Inr l | Some _ \<Rightarrow> internal_notify l)"

text \<open>\<open>tid\<close> is the calling thread; a null job is \<open>None\<close>.\<close>

definition run_in_event_loop :: "nat \<Rightarrow> job option \<Rightarrow> 'x event_loop_scheme \<Rightarrow> (int \<times> 'x event_loop_scheme) result" where
  "run_in_event_loop tid j l =
     (case j of
        None \<Rightarrow> Inr (- 1, l)
      | Some j \<Rightarrow>
          if tid \<noteq> el_thread_id l
          then bindE (wake_up (l\<lparr>el_other_jobs := el_other_jobs l @ [j]\<rparr>)) (\<lambda>l. Inr (0, l))
          else Inr (0, l\<lparr>el_same_jobs := el_same_jobs l @ [j]\<rparr>))"

definition loop_close :: "nat \<Rightarrow> 'x event_loop_scheme \<Rightarrow> (int \<times> 'x event_loop_scheme) result" where
  "loop_close tid l =
     bindE (run_in_event_loop tid (Some Job_Handle_Close) (l\<lparr>el_state := ES_STOP\<rparr>)) (\<lambda>(_, l). Inr (0, l))"

definition handle_close :: "'x event_loop_scheme \<Rightarrow> 'x event_loop_scheme" where
  "handle_close l = l\<lparr>el_state := ES_STOP\<rparr>"

definition handle_notify :: "'x event_loop_scheme \<Rightarrow> 'x event_loop_scheme" where
  "handle_notify l = l"

subsection \<open>The internal notifier and opening\<close>

text \<open>\<^verbatim>\<open>submit_read_request\<close> returns in its first line.\<close>

definition internal_submit_read_request :: "('x, 'w) poll \<Rightarrow> nat option \<Rightarrow> 'w \<Rightarrow> 'w result" where
  "internal_submit_read_request pb cb w = Inr w"

definition internal_notifier_open :: "('x, 'w) poll \<Rightarrow> int \<Rightarrow> internal_notifier \<Rightarrow> 'w \<Rightarrow> (int \<times> internal_notifier \<times> 'w) result" where
  "internal_notifier_open pb eventfd n w =
     (if in_loop n then Inr (- 1, n, w)
      else
        let n = n\<lparr>in_loop := True, in_fd := mk_fd eventfd EVENT_FD\<rparr>
        in if \<not> fd_is_valid (in_fd n) then Inr (- 1, n, w)
           else bindE (internal_submit_read_request pb None w) (\<lambda>w. Inr (0, n, w)))"

text \<open>
  \<open>obj\<close> is the result of \<^verbatim>\<open>get_poll_obj\<close>, for the backend \<open>pb\<close>; \<open>run\<close> runs closures. The
  notifier of a loop whose \<^verbatim>\<open>open\<close> fails stays in the object.
\<close>

definition loop_open :: "('x, 'w) poll \<Rightarrow> 'w runner \<Rightarrow> poll_kind option \<Rightarrow> int \<Rightarrow> poll_param \<Rightarrow> 'w \<Rightarrow> (int \<times> 'w) result" where
  "loop_open pb run obj eventfd param w =
     (if el_state (pb_loop pb w) \<noteq> ES_DEF then Inr (- 1, w)
      else if obj = None then Inr (- 1, w)
      else
        let w = upd_loop pb (\<lambda>l. l\<lparr>el_poll := True\<rparr>) w; (ok, w) = pb_init pb (entry_cnt param) w
        in if \<not> ok then Inr (- 1, w)
           else
             let w = upd_loop pb (\<lambda>l. l\<lparr>el_state := ES_INIT,
                       el_polling_ms := (if 0 \<le> polling_ms param then polling_ms param else el_polling_ms l)\<rparr>) w
             in bindE (internal_notifier_open pb eventfd \<lparr>in_fd = fd_default, in_loop = False\<rparr> w)
                  (\<lambda>(ret, n, w).
                let w = upd_loop pb (\<lambda>l. l\<lparr>el_ntf := Some n\<rparr>) w
                in if ret \<noteq> 0 then Inr (- 1, w)
                   else
                     let (c, l) = new_closure Cl_On_Timer (pb_loop pb w)
                     in bindE (pb_create_timer pb run 1 0 (Some c) (pb_set_loop pb l w)) (\<lambda>(id, w).
                        Inr (if 0 \<le> id then 0 else - 1, upd_loop pb (\<lambda>l. l\<lparr>el_timer_id := id\<rparr>) w))))"

subsection \<open>Virtual functions of the event objects\<close>

definition base_on_started :: "('x, 'w) poll \<Rightarrow> nat \<Rightarrow> bool \<Rightarrow> 'w \<Rightarrow> 'w result" where
  "base_on_started pb e is_success w =
     bindE (ev_get pb e w) (\<lambda>x. Inr (if is_success then ev_set pb e (x\<lparr>eb_state := EVENT_OPENED\<rparr>) w else w))"

definition on_started :: "('x, 'w) poll \<Rightarrow> 'w lusr \<Rightarrow> nat \<Rightarrow> bool \<Rightarrow> 'w \<Rightarrow> 'w result" where
  "on_started pb usr e is_success w =
     bindE (ev_get pb e w) (\<lambda>x.
     if eb_class x = Derived_Event then call_user pb usr (L_Started e is_success) w
     else base_on_started pb e is_success w)"

text \<open>\<^verbatim>\<open>notifier::on_stopped\<close> calls the stop handler first; the other classes have the function of the base class.\<close>

definition on_stopped :: "('x, 'w) poll \<Rightarrow> 'w lusr \<Rightarrow> nat \<Rightarrow> bool \<Rightarrow> 'w \<Rightarrow> 'w result" where
  "on_stopped pb usr e is_success w =
     bindE (ev_get pb e w) (\<lambda>x.
     bindE (if eb_class x = Notifier \<and> is_success
            then (case ev_stop_handler x of None \<Rightarrow> Inr w | Some n \<Rightarrow> call_user pb usr (L_Stop n) w)
            else Inr w) (\<lambda>w.
     bindE (ev_get pb e w) (\<lambda>x. Inr (if is_success then ev_set pb e (x\<lparr>eb_state := EVENT_CLOSED\<rparr>) w else w))))"

definition handle_loop_once :: "('x, 'w) poll \<Rightarrow> 'w lusr \<Rightarrow> nat \<Rightarrow> 'w \<Rightarrow> 'w result" where
  "handle_loop_once pb usr e w =
     bindE (ev_get pb e w) (\<lambda>x.
     if eb_class x \<noteq> Notifier \<or> eb_state x \<noteq> EVENT_OPENED then Inr w
     else case ev_handler x of None \<Rightarrow> Inl Bad_Function_Call | Some n \<Rightarrow> call_user pb usr (L_Notify n) w)"

subsection \<open>Instructions\<close>

definition set_insert :: "nat \<Rightarrow> nat list \<Rightarrow> nat list" where
  "set_insert e xs = (if e \<in> set xs then xs else xs @ [e])"

fun cancel_fds :: "('x, 'w) poll \<Rightarrow> 'w runner \<Rightarrow> nat \<Rightarrow> (fd_t \<times> u16) list \<Rightarrow> bool \<Rightarrow> 'w \<Rightarrow> (bool \<times> 'w) result" where
  "cancel_fds pb run e [] is_suc w = Inr (is_suc, w)"
| "cancel_fds pb run e ((fd, evt) # rest) is_suc w =
     bindE (if evt AND EV_READ \<noteq> 0
            then bindE (ev_get pb e w) (\<lambda>x. pb_cancel_async_read pb run fd (eb_cancel_read_cb x) w)
            else Inr (0, w)) (\<lambda>(ret, w).
     if ret \<noteq> 0 then cancel_fds pb run e rest False w
     else
       bindE (if evt AND EV_WRITE \<noteq> 0
              then bindE (ev_get pb e w) (\<lambda>x. pb_cancel_async_write pb run fd (eb_cancel_write_cb x) w)
              else Inr (0, w)) (\<lambda>(ret, w).
       cancel_fds pb run e rest (is_suc \<and> ret = 0) w))"

definition process_remove_instruction :: "('x, 'w) poll \<Rightarrow> 'w lusr \<Rightarrow> 'w runner \<Rightarrow> loop_event_info \<Rightarrow> 'w \<Rightarrow> 'w result" where
  "process_remove_instruction pb usr run info w =
     (let e = li_evt info; w = upd_loop pb (\<lambda>l. l\<lparr>el_removed := set_insert e (el_removed l)\<rparr>) w; l = pb_loop pb w
      in bindE (ev_get pb e w) (\<lambda>x.
         let normal = eb_type x = EVENT_NORMAL;
             cnt = (if e \<in> set (el_busy l) then 1 else 0) + (if normal \<and> e \<in> set (el_handlers l) then 1 else 0 :: nat);
             w = upd_loop pb (\<lambda>l. l\<lparr>el_busy := remove1 e (el_busy l),
                                    el_handlers := (if normal then remove1 e (el_handlers l) else el_handlers l)\<rparr>) w
         in bindE (if 1 \<le> cnt then cancel_fds pb run e (li_fds_evts info) True w else Inr (True, w)) (\<lambda>(is_suc, w).
            on_stopped pb usr e is_suc w)))"

text \<open>A request for readiness, with the bound \<^verbatim>\<open>handle_event_ready\<close> as callback.\<close>

definition submit_ready :: "('x, 'w) poll \<Rightarrow> nat \<Rightarrow> fd_t \<Rightarrow> bool \<Rightarrow> 'w \<Rightarrow> 'w result" where
  "submit_ready pb e fd is_read w =
     (let (c, l) = new_closure (Cl_Ready e fd is_read) (pb_loop pb w); w = pb_set_loop pb l w
      in bindE (if is_read then pb_submit_async_read pb fd None 0 (Some c) None w
                else pb_submit_async_write pb fd None 0 (Some c) None w) (\<lambda>(ret, w).
         bindE (assertE (ret = 0)) (\<lambda>_. Inr w)))"

fun submit_fds :: "('x, 'w) poll \<Rightarrow> nat \<Rightarrow> (fd_t \<times> u16) list \<Rightarrow> 'w \<Rightarrow> 'w result" where
  "submit_fds pb e [] w = Inr w"
| "submit_fds pb e ((fd, evts) # rest) w =
     bindE (if evts AND EV_READ \<noteq> 0 then submit_ready pb e fd True w else Inr w) (\<lambda>w.
     bindE (if evts AND EV_WRITE \<noteq> 0 then submit_ready pb e fd False w else Inr w) (submit_fds pb e rest))"

definition process_add_instruction :: "('x, 'w) poll \<Rightarrow> 'w lusr \<Rightarrow> loop_event_info \<Rightarrow> 'w \<Rightarrow> 'w result" where
  "process_add_instruction pb usr info w =
     (let e = li_evt info; l = pb_loop pb w
      in bindE (ev_get pb e w) (\<lambda>x.
         if e \<in> set (if eb_type x = EVENT_NORMAL then el_handlers l else el_busy l) then Inr w
         else
           let w = upd_loop pb (\<lambda>l. if eb_type x = EVENT_NORMAL then l\<lparr>el_handlers := set_insert e (el_handlers l)\<rparr>
                                    else l\<lparr>el_busy := set_insert e (el_busy l)\<rparr>) w
           in bindE (submit_fds pb e (li_fds_evts info) w) (on_started pb usr e True)))"

fun instructions_loop :: "('x, 'w) poll \<Rightarrow> 'w lusr \<Rightarrow> 'w runner \<Rightarrow> loop_event_info list \<Rightarrow> 'w \<Rightarrow> 'w result" where
  "instructions_loop pb usr run [] w = Inr w"
| "instructions_loop pb usr run (info # infos) w =
     bindE (if li_instruction info = EI_REMOVE then process_remove_instruction pb usr run info w
            else process_add_instruction pb usr info w)
       (instructions_loop pb usr run infos)"

definition process_new_instruction :: "('x, 'w) poll \<Rightarrow> 'w lusr \<Rightarrow> 'w runner \<Rightarrow> 'w \<Rightarrow> 'w result" where
  "process_new_instruction pb usr run w =
     instructions_loop pb usr run (el_cache (pb_loop pb w)) (upd_loop pb (\<lambda>l. l\<lparr>el_cache := []\<rparr>) w)"

subsection \<open>Jobs and the loop\<close>

definition run_job :: "('x, 'w) poll \<Rightarrow> 'w lusr \<Rightarrow> job \<Rightarrow> 'w \<Rightarrow> 'w result" where
  "run_job pb usr j w =
     (case j of Job n \<Rightarrow> call_user pb usr (L_Job n) w | Job_Handle_Close \<Rightarrow> Inr (upd_loop pb handle_close w))"

fun jobs_loop :: "('x, 'w) poll \<Rightarrow> 'w lusr \<Rightarrow> job list \<Rightarrow> 'w \<Rightarrow> 'w result" where
  "jobs_loop pb usr [] w = Inr w"
| "jobs_loop pb usr (j # js) w = bindE (run_job pb usr j w) (jobs_loop pb usr js)"

definition process_other_thread_job :: "('x, 'w) poll \<Rightarrow> 'w lusr \<Rightarrow> 'w \<Rightarrow> 'w result" where
  "process_other_thread_job pb usr w =
     (let w = upd_loop pb (\<lambda>l. l\<lparr>el_other_jobs := el_swap l, el_swap := el_other_jobs l\<rparr>) w
      in bindE (jobs_loop pb usr (el_swap (pb_loop pb w)) w) (\<lambda>w. Inr (upd_loop pb (\<lambda>l. l\<lparr>el_swap := []\<rparr>) w)))"

fun busy_loop :: "('x, 'w) poll \<Rightarrow> 'w lusr \<Rightarrow> nat list \<Rightarrow> 'w \<Rightarrow> 'w result" where
  "busy_loop pb usr [] w = Inr w"
| "busy_loop pb usr (e # es) w = bindE (handle_loop_once pb usr e w) (busy_loop pb usr es)"

text \<open>The jobs of the own thread: as many rounds as there were jobs, each runs the front and pops it.\<close>

fun same_jobs_loop :: "('x, 'w) poll \<Rightarrow> 'w lusr \<Rightarrow> nat \<Rightarrow> 'w \<Rightarrow> 'w result" where
  "same_jobs_loop pb usr 0 w = Inr w"
| "same_jobs_loop pb usr (Suc n) w =
     (case el_same_jobs (pb_loop pb w) of
        [] \<Rightarrow> Inl Empty_Deque
      | j # _ \<Rightarrow>
          bindE (run_job pb usr j w) (\<lambda>w.
          if el_same_jobs (pb_loop pb w) = [] then Inl Empty_Deque
          else same_jobs_loop pb usr n (upd_loop pb (\<lambda>l. l\<lparr>el_same_jobs := tl (el_same_jobs l)\<rparr>) w)))"

text \<open>
  \<^verbatim>\<open>loop_once\<close>; \<open>arrive\<close> are the jobs that other threads push while \<^verbatim>\<open>dispatch\<close> runs.
\<close>

definition loop_once :: "('x, 'w) poll \<Rightarrow> 'w lusr \<Rightarrow> 'w runner \<Rightarrow> job list \<Rightarrow> int \<Rightarrow> 'w \<Rightarrow> 'w result" where
  "loop_once pb usr run arrive timeout_ms w =
     bindE (if el_cache (pb_loop pb w) \<noteq> [] then process_new_instruction pb usr run w else Inr w) (\<lambda>w.
     let busy = el_busy (pb_loop pb w); timeout_ms = (if busy \<noteq> [] then 0 else timeout_ms)
     in bindE (busy_loop pb usr busy w) (\<lambda>w.
        let n = length (el_same_jobs (pb_loop pb w)); timeout_ms = (if 0 < n then 0 else timeout_ms)
        in bindE (same_jobs_loop pb usr n w) (\<lambda>w.
           bindE (pb_dispatch pb run timeout_ms w) (\<lambda>(_, w).
           let w = upd_loop pb (\<lambda>l. l\<lparr>el_other_jobs := el_other_jobs l @ arrive\<rparr>) w
           in bindE (if el_other_jobs (pb_loop pb w) \<noteq> [] then process_other_thread_job pb usr w else Inr w) (\<lambda>w.
              Inr (upd_loop pb (\<lambda>l. l\<lparr>el_removed := []\<rparr>) w))))))"

text \<open>The loop of \<^verbatim>\<open>start_loop\<close>: one list of arrivals for each round; the rounds run out as \<open>Blocked\<close>.\<close>

fun loop_while :: "('x, 'w) poll \<Rightarrow> 'w lusr \<Rightarrow> 'w runner \<Rightarrow> job list list \<Rightarrow> 'w \<Rightarrow> 'w result" where
  "loop_while pb usr run rounds w =
     (if el_state (pb_loop pb w) \<noteq> ES_START then Inr w
      else case rounds of
             [] \<Rightarrow> Inl Blocked
           | arrive # rounds \<Rightarrow>
               bindE (loop_once pb usr run arrive (el_polling_ms (pb_loop pb w)) w) (loop_while pb usr run rounds))"

definition start_loop :: "('x, 'w) poll \<Rightarrow> 'w lusr \<Rightarrow> 'w runner \<Rightarrow> nat \<Rightarrow> job list list \<Rightarrow> 'w \<Rightarrow> 'w result" where
  "start_loop pb usr run tid rounds w =
     (if el_state (pb_loop pb w) \<noteq> ES_INIT \<and> el_state (pb_loop pb w) \<noteq> ES_STOP then Inr w
      else loop_while pb usr run rounds (upd_loop pb (\<lambda>l. l\<lparr>el_thread_id := tid, el_state := ES_START\<rparr>) w))"

fun on_timer_loop :: "(nat \<Rightarrow> event_base option) \<Rightarrow> nat list \<Rightarrow> nat list \<Rightarrow> nat list result" where
  "on_timer_loop evs [] busy = Inr busy"
| "on_timer_loop evs (e # es) busy =
     (case evs e of
        None \<Rightarrow> Inl Use_After_Free
      | Some x \<Rightarrow> on_timer_loop evs es (if ev_raise x then set_insert e busy else remove1 e busy))"

definition on_timer :: "'x event_loop_scheme \<Rightarrow> (int \<times> 'x event_loop_scheme) result" where
  "on_timer l = bindE (on_timer_loop (el_events l) (el_handlers l) (el_busy l)) (\<lambda>busy. Inr (0, l\<lparr>el_busy := busy\<rparr>))"

end
