(* ===== verification/Event_Service.thy ===== *)
theory Event_Service
  imports Event_Loop Util
begin

unbundle bit_operations_syntax

text \<open>
  The event classes of the library, source/event/notifier.cpp, signal_event.cpp and
  inotify.cpp with their headers, and include/event_service.h, source/event/event_service.cpp,
  the interface applications use: it forwards requests to the backend and to the loop. The
  closure that \<^verbatim>\<open>open\<close> stores as read callback, and the lambda that wraps it, are
  \<open>Cl_Handle\<close> of the event.
\<close>

subsection \<open>Requests to the backend\<close>

text \<open>\<^verbatim>\<open>evt_loop_->get_poll()\<close> is null until the loop is opened.\<close>

definition with_poll :: "('x, 'w) poll \<Rightarrow> 'w op \<Rightarrow> 'w op" where
  "with_poll pb f w = (if el_poll (pb_loop pb w) then f w else Inl Null_Deref)"

definition service_submit_async_read ::
  "('x, 'w) poll \<Rightarrow> fd_t \<Rightarrow> iovec list option \<Rightarrow> nat \<Rightarrow> nat option \<Rightarrow> read_options option \<Rightarrow> 'w op" where
  "service_submit_async_read pb fd buffer cnt cb opt = with_poll pb (pb_submit_async_read pb fd buffer cnt cb opt)"

definition service_submit_async_read_group ::
  "('x, 'w) poll \<Rightarrow> fd_t \<Rightarrow> u32 \<Rightarrow> nat option \<Rightarrow> read_options option \<Rightarrow> 'w op" where
  "service_submit_async_read_group pb fd grp cb opt = with_poll pb (pb_submit_async_read_group pb fd grp cb opt)"

definition service_cancel_async_read :: "('x, 'w) poll \<Rightarrow> 'w runner \<Rightarrow> fd_t \<Rightarrow> nat option \<Rightarrow> 'w op" where
  "service_cancel_async_read pb run fd cb = with_poll pb (pb_cancel_async_read pb run fd cb)"

definition service_submit_async_accept :: "('x, 'w) poll \<Rightarrow> fd_t \<Rightarrow> nat option \<Rightarrow> nat option \<Rightarrow> 'w op" where
  "service_submit_async_accept pb fd addr cb = with_poll pb (pb_submit_async_accept pb fd addr cb)"

definition service_cancel_async_accept :: "('x, 'w) poll \<Rightarrow> 'w runner \<Rightarrow> fd_t \<Rightarrow> nat option \<Rightarrow> 'w op" where
  "service_cancel_async_accept pb run fd cb = with_poll pb (pb_cancel_async_accept pb run fd cb)"

definition service_submit_async_write ::
  "('x, 'w) poll \<Rightarrow> fd_t \<Rightarrow> iovec list option \<Rightarrow> nat \<Rightarrow> nat option \<Rightarrow> write_options option \<Rightarrow> 'w op" where
  "service_submit_async_write pb fd buffer cnt cb opt = with_poll pb (pb_submit_async_write pb fd buffer cnt cb opt)"

definition service_cancel_async_write :: "('x, 'w) poll \<Rightarrow> 'w runner \<Rightarrow> fd_t \<Rightarrow> nat option \<Rightarrow> 'w op" where
  "service_cancel_async_write pb run fd cb = with_poll pb (pb_cancel_async_write pb run fd cb)"

definition service_register_ring_buffer :: "('x, 'w) poll \<Rightarrow> u32 \<Rightarrow> u32 \<Rightarrow> 'w op" where
  "service_register_ring_buffer pb block_size block_count = with_poll pb (pb_register_ring_buffer pb block_size block_count)"

definition service_unregister_ring_buffer :: "('x, 'w) poll \<Rightarrow> u16 \<Rightarrow> 'w op" where
  "service_unregister_ring_buffer pb grp = with_poll pb (pb_unregister_ring_buffer pb grp)"

definition service_create_timer :: "('x, 'w) poll \<Rightarrow> 'w runner \<Rightarrow> u64 \<Rightarrow> u64 \<Rightarrow> nat option \<Rightarrow> 'w op" where
  "service_create_timer pb run interval_s interval_ns cb = with_poll pb (pb_create_timer pb run interval_s interval_ns cb)"

definition service_close_timer :: "('x, 'w) poll \<Rightarrow> 'w runner \<Rightarrow> int \<Rightarrow> 'w op" where
  "service_close_timer pb run timer_id = with_poll pb (pb_close_timer pb run timer_id)"

definition service_submit :: "('x, 'w) poll \<Rightarrow> 'w op" where
  "service_submit pb = with_poll pb (pb_submit pb)"

text \<open>A request to the loop object.\<close>

definition on_loop :: "('x, 'w) poll \<Rightarrow> ('x event_loop_scheme \<Rightarrow> 'x event_loop_scheme result) \<Rightarrow> 'w \<Rightarrow> 'w result" where
  "on_loop pb f w = bindE (f (pb_loop pb w)) (\<lambda>l. Inr (pb_set_loop pb l w))"

definition service_add_event :: "('x, 'w) poll \<Rightarrow> nat \<Rightarrow> 'w \<Rightarrow> 'w result" where
  "service_add_event pb e = on_loop pb (add_event e)"

definition service_remove_event :: "('x, 'w) poll \<Rightarrow> nat \<Rightarrow> 'w \<Rightarrow> 'w result" where
  "service_remove_event pb e = on_loop pb (remove_event e)"

definition service_run_job :: "('x, 'w) poll \<Rightarrow> nat \<Rightarrow> job option \<Rightarrow> 'w op" where
  "service_run_job pb tid j w = bindE (run_in_event_loop tid j (pb_loop pb w)) (\<lambda>(ret, l). Inr (ret, pb_set_loop pb l w))"

definition service_close :: "('x, 'w) poll \<Rightarrow> nat \<Rightarrow> 'w op" where
  "service_close pb tid w = bindE (loop_close tid (pb_loop pb w)) (\<lambda>(ret, l). Inr (ret, pb_set_loop pb l w))"

definition service_open :: "('x, 'w) poll \<Rightarrow> 'w runner \<Rightarrow> poll_kind option \<Rightarrow> int \<Rightarrow> poll_param \<Rightarrow> 'w op" where
  "service_open pb run obj eventfd param = loop_open pb run obj eventfd param"

definition service_get_thread_id :: "('x, 'w) poll \<Rightarrow> 'w \<Rightarrow> nat" where
  "service_get_thread_id pb w = el_thread_id (pb_loop pb w)"

definition service_start_loop :: "('x, 'w) poll \<Rightarrow> 'w lusr \<Rightarrow> 'w runner \<Rightarrow> nat \<Rightarrow> job list list \<Rightarrow> 'w \<Rightarrow> 'w result" where
  "service_start_loop pb usr run tid rounds = start_loop pb usr run tid rounds"

subsection \<open>Event objects\<close>

text \<open>\<^verbatim>\<open>submit_read_request\<close> of the three classes; only inotify passes an offset.\<close>

definition ev_submit_read_request :: "('x, 'w) poll \<Rightarrow> nat \<Rightarrow> nat option \<Rightarrow> 'w \<Rightarrow> 'w result" where
  "ev_submit_read_request pb e cb w =
     bindE (ev_get pb e w) (\<lambda>x.
     if \<not> eb_service x then Inl Null_Deref
     else
       bindE (service_submit_async_read pb (ev_fd x) (Some [ev_iov x]) 1 cb
                (if eb_class x = Inotify then Some (ro_set_offset 0 read_options_default) else None) w) (\<lambda>(ret, w).
       bindE (assertE (ret = 0)) (\<lambda>_. Inr w)))"

definition handle_read_ready :: "('x, 'w) poll \<Rightarrow> 'w lusr \<Rightarrow> nat \<Rightarrow> fd_t \<Rightarrow> 'w \<Rightarrow> 'w result" where
  "handle_read_ready pb usr e fd w =
     bindE (ev_get pb e w) (\<lambda>x.
     if eb_class x = Plain_Event then Inr w
     else if eb_class x = Derived_Event then call_user pb usr (L_Read_Ready e fd) w
     else ev_submit_read_request pb e (eb_read_cb x) w)"

definition handle_write_ready :: "('x, 'w) poll \<Rightarrow> 'w lusr \<Rightarrow> nat \<Rightarrow> fd_t \<Rightarrow> 'w \<Rightarrow> 'w result" where
  "handle_write_ready pb usr e fd w =
     bindE (ev_get pb e w) (\<lambda>x.
     if eb_class x = Derived_Event then call_user pb usr (L_Write_Ready e fd) w else Inr w)"

definition handle_event_ready :: "('x, 'w) poll \<Rightarrow> 'w lusr \<Rightarrow> nat \<Rightarrow> int \<Rightarrow> fd_t \<Rightarrow> bool \<Rightarrow> 'w \<Rightarrow> 'w result" where
  "handle_event_ready pb usr e ret fd is_read w =
     (if ret < 0 then Inr w else if is_read then handle_read_ready pb usr e fd w else handle_write_ready pb usr e fd w)"

definition event_base_close :: "('x, 'w) poll \<Rightarrow> nat \<Rightarrow> 'w \<Rightarrow> 'w result" where
  "event_base_close pb e w =
     bindE (ev_get pb e w) (\<lambda>x.
     bindE (if eb_service x then service_remove_event pb e w else Inr w) (\<lambda>w.
     bindE (ev_get pb e w) (\<lambda>x.
     Inr (ev_set pb e (x\<lparr>eb_fds_evts := [], eb_read_cb := None, eb_write_cb := None,
                         eb_cancel_read_cb := None, eb_cancel_write_cb := None\<rparr>) w))))"

text \<open>\<^verbatim>\<open>set_read_callback\<close> with the bound handler, and the common end of the three \<^verbatim>\<open>open\<close> functions.\<close>

definition ev_bind_read :: "('x, 'w) poll \<Rightarrow> nat \<Rightarrow> 'w \<Rightarrow> 'w result" where
  "ev_bind_read pb e w =
     bindE (ev_get pb e w) (\<lambda>x.
     let (c, l) = new_closure (Cl_Handle e) (pb_loop pb w)
     in Inr (ev_set pb e (x\<lparr>eb_read_cb := Some c\<rparr>) (pb_set_loop pb l w)))"

definition ev_register :: "('x, 'w) poll \<Rightarrow> nat \<Rightarrow> 'w \<Rightarrow> 'w result" where
  "ev_register pb e w =
     bindE (ev_get pb e w) (\<lambda>x.
     service_add_event pb e (ev_set pb e (x\<lparr>eb_fds_evts := eb_fds_evts x @ [(ev_fd x, EV_READ)], eb_service := True\<rparr>) w))"

text \<open>A notifier; \<open>eventfd\<close> is the answer of \<^verbatim>\<open>eventfd\<close>, \<open>svc\<close> whether the service pointer is not null.\<close>

definition notifier_open :: "('x, 'w) poll \<Rightarrow> int \<Rightarrow> nat \<Rightarrow> bool \<Rightarrow> nat option \<Rightarrow> nat option \<Rightarrow> 'w op" where
  "notifier_open pb eventfd e svc cb cb_for_stop w =
     bindE (ev_get pb e w) (\<lambda>x.
     if \<not> (\<not> eb_service x \<and> svc \<and> cb \<noteq> None \<and> eb_state x = EVENT_DEF) then Inr (- 1, w)
     else
       let x = x\<lparr>ev_fd := mk_fd eventfd EVENT_FD\<rparr>; w = ev_set pb e x w
       in if \<not> fd_is_valid (ev_fd x) then Inr (- 1, w)
          else
            bindE (bindE (ev_bind_read pb e (ev_set pb e (x\<lparr>ev_handler := cb, ev_stop_handler := cb_for_stop\<rparr>) w))
                     (ev_register pb e)) (\<lambda>w.
            bindE (ev_get pb e w) (\<lambda>x. Inr (0, ev_set pb e (x\<lparr>eb_state := EVENT_OPENED\<rparr>) w))))"

definition notifier_handle_notify :: "('x, 'w) poll \<Rightarrow> 'w lusr \<Rightarrow> nat \<Rightarrow> int \<Rightarrow> 'w \<Rightarrow> 'w result" where
  "notifier_handle_notify pb usr e ret w =
     (if ret \<le> 0 then Inr w
      else
        bindE (ev_get pb e w) (\<lambda>x.
        case ev_handler x of
          None \<Rightarrow> Inl Bad_Function_Call
        | Some n \<Rightarrow> bindE (call_user pb usr (L_Notify n) w) (ev_submit_read_request pb e None)))"

text \<open>\<^verbatim>\<open>notify\<close> on the answers of \<^verbatim>\<open>write\<close>; what is left of them is the result.\<close>

definition notifier_notify :: "sysret list \<Rightarrow> sysret list result" where
  "notifier_notify = notify_loop"

definition notifier_close :: "('x, 'w) poll \<Rightarrow> nat \<Rightarrow> 'w op" where
  "notifier_close pb e w =
     bindE (ev_get pb e w) (\<lambda>x.
     if eb_state x \<noteq> EVENT_OPENED then Inr (- 1, w)
     else
       bindE (event_base_close pb e w) (\<lambda>w.
       bindE (ev_get pb e w) (\<lambda>x.
       Inr (0, ev_set pb e (x\<lparr>ev_fd := fst (snd (fd_close (ev_fd x))), eb_state := EVENT_CLOSED\<rparr>) w))))"

definition exchange_callback :: "('x, 'w) poll \<Rightarrow> nat \<Rightarrow> nat option \<Rightarrow> 'w \<Rightarrow> (nat option \<times> 'w) result" where
  "exchange_callback pb e new_cb w =
     bindE (ev_get pb e w) (\<lambda>x. Inr (ev_handler x, ev_set pb e (x\<lparr>ev_handler := new_cb\<rparr>) w))"

text \<open>A signal event; \<open>mask\<close>, \<open>sigfd\<close> and the four \<^verbatim>\<open>fcntl\<close> answers come from the kernel.\<close>

definition signal_open ::
  "('x, 'w) poll \<Rightarrow> int \<Rightarrow> int \<Rightarrow> int \<times> int \<Rightarrow> int \<times> int \<Rightarrow> nat \<Rightarrow> bool \<Rightarrow> nat option \<Rightarrow> 'w op" where
  "signal_open pb msk sigfd nb ce e svc cb w =
     bindE (ev_get pb e w) (\<lambda>x.
     if \<not> (\<not> eb_service x \<and> svc) then Inr (- 1, w)
     else if cb = None then Inr (- 1, w)
     else
       bindE (ev_bind_read pb e w) (\<lambda>w.
       bindE (ev_get pb e w) (\<lambda>x.
       if msk \<noteq> 0 then Inr (- 1, w)
       else
       let x = x\<lparr>ev_fd := mk_fd sigfd SIGNAL_FD\<rparr>; w = ev_set pb e x w
       in if \<not> fd_is_valid (ev_fd x) then Inr (- 1, w)
          else if fst (util_make_fd_nonblocking (fst nb) (snd nb)) \<noteq> 0 then Inr (- 1, w)
          else if fst (util_make_fd_close_on_exec (fst ce) (snd ce)) \<noteq> 0 then Inr (- 1, w)
          else bindE (ev_register pb e (ev_set pb e (x\<lparr>ev_handler := cb\<rparr>) w)) (\<lambda>w. Inr (0, w)))))"

definition handle_signal :: "('x, 'w) poll \<Rightarrow> 'w lusr \<Rightarrow> nat \<Rightarrow> int \<Rightarrow> 'w \<Rightarrow> 'w result" where
  "handle_signal pb usr e res w =
     bindE (ev_get pb e w) (\<lambda>x.
     if res \<le> 0 \<or> \<not> ev_active x then Inr w
     else case ev_handler x of
            None \<Rightarrow> Inl Bad_Function_Call
          | Some n \<Rightarrow> bindE (call_user pb usr (L_Signal n (ev_signo x)) w) (ev_submit_read_request pb e None))"

definition signal_close :: "('x, 'w) poll \<Rightarrow> nat \<Rightarrow> 'w op" where
  "signal_close pb e w =
     bindE (event_base_close pb e w) (\<lambda>w.
     bindE (ev_get pb e w) (\<lambda>x.
     Inr (0, ev_set pb e (x\<lparr>ev_active := False, eb_service := False, ev_handler := None,
                            ev_fd := fst (snd (fd_close (ev_fd x)))\<rparr>) w)))"

text \<open>An inotify event; \<open>buf\<close> is the address of the allocated buffer.\<close>

definition inotify_open :: "('x, 'w) poll \<Rightarrow> int \<Rightarrow> nat option \<Rightarrow> nat \<Rightarrow> bool \<Rightarrow> u32 \<Rightarrow> 'w op" where
  "inotify_open pb ifd buf e svc buffer_size w =
     bindE (ev_get pb e w) (\<lambda>x.
     if \<not> (\<not> eb_service x \<and> svc \<and> eb_state x = EVENT_DEF) then Inr (- 1, w)
     else
       let x = x\<lparr>ev_fd := mk_fd ifd INOTIFY_FD\<rparr>; w = ev_set pb e x w
       in if \<not> fd_is_valid (ev_fd x) then Inr (- 1, w)
          else case buf of
                 None \<Rightarrow> Inr (- 1, w)
               | Some a \<Rightarrow>
                   bindE (bindE (ev_bind_read pb e (ev_set pb e (x\<lparr>ev_iov := mk_iovec a (unat buffer_size)\<rparr>) w))
                            (ev_register pb e)) (\<lambda>w.
                   bindE (ev_get pb e w) (\<lambda>x. Inr (0, ev_set pb e (x\<lparr>eb_state := EVENT_OPENED\<rparr>) w))))"

definition SIZEOF_INOTIFY_EVENT :: u32 where "SIZEOF_INOTIFY_EVENT = 16"

text \<open>
  The loop of \<^verbatim>\<open>handle_notify\<close> over the records the kernel has put into the buffer, each a
  watch descriptor and the length of its name.
\<close>

fun inotify_loop :: "('x, 'w) poll \<Rightarrow> 'w lusr \<Rightarrow> nat \<Rightarrow> (int \<times> u32) list \<Rightarrow> u32 \<Rightarrow> u32 \<Rightarrow> 'w \<Rightarrow> 'w result" where
  "inotify_loop pb usr e [] offset data_len w = (if offset < data_len then Inl Out_Of_Bounds else Inr w)"
| "inotify_loop pb usr e ((wd, len) # recs) offset data_len w =
     (if \<not> offset < data_len then Inr w
      else
        bindE (ev_get pb e w) (\<lambda>x.
        bindE (case ev_watches x wd of None \<Rightarrow> Inr w | Some n \<Rightarrow> call_user pb usr (L_Watch n) w)
          (inotify_loop pb usr e recs (offset + (SIZEOF_INOTIFY_EVENT + len)) data_len)))"

definition inotify_handle_notify :: "('x, 'w) poll \<Rightarrow> 'w lusr \<Rightarrow> nat \<Rightarrow> int \<Rightarrow> 'w \<Rightarrow> 'w result" where
  "inotify_handle_notify pb usr e res w =
     (if res \<le> 0 then Inr w
      else
        bindE (ev_get pb e w) (\<lambda>x.
        bindE (inotify_loop pb usr e (ev_buffer x) 0 (word_of_int res) w) (ev_submit_read_request pb e None)))"

definition add_watch :: "('x, 'w) poll \<Rightarrow> int \<Rightarrow> nat \<Rightarrow> string \<Rightarrow> u32 \<Rightarrow> nat option \<Rightarrow> 'w op" where
  "add_watch pb wd e file_name events cb w =
     (if \<not> (file_name \<noteq> [] \<and> events \<noteq> 0 \<and> cb \<noteq> None) then Inr (- 1, w)
      else if \<not> 0 < wd then Inr (- 1, w)
      else bindE (ev_get pb e w) (\<lambda>x. Inr (0, ev_set pb e (x\<lparr>ev_watches := (ev_watches x)(wd := cb)\<rparr>) w)))"

definition remove_watch :: "('x, 'w) poll \<Rightarrow> int \<Rightarrow> nat \<Rightarrow> int \<Rightarrow> 'w op" where
  "remove_watch pb rm e watch_fd w =
     bindE (ev_get pb e w) (\<lambda>x.
     if ev_watches x watch_fd = None then Inr (- 1, w) else if rm = - 1 then Inr (- 1, w) else Inr (0, w))"

definition inotify_close :: "('x, 'w) poll \<Rightarrow> nat \<Rightarrow> 'w op" where
  "inotify_close pb e w =
     bindE (ev_get pb e w) (\<lambda>x.
     if eb_state x \<noteq> EVENT_OPENED then Inr (- 1, w)
     else
       bindE (event_base_close pb e w) (\<lambda>w.
       bindE (ev_get pb e w) (\<lambda>x.
       Inr (0, ev_set pb e (x\<lparr>ev_fd := fst (snd (fd_close (ev_fd x))), ev_watches := Map.empty,
                              eb_state := EVENT_CLOSED\<rparr>) w))))"

text \<open>The destructors, with the descriptors they close; the one of a signal event closes none.\<close>

definition ev_free :: "('x, 'w) poll \<Rightarrow> nat \<Rightarrow> 'w \<Rightarrow> 'w" where
  "ev_free pb e w = upd_loop pb (\<lambda>l. l\<lparr>el_events := (el_events l)(e := None)\<rparr>) w"

definition notifier_delete :: "('x, 'w) poll \<Rightarrow> nat \<Rightarrow> 'w \<Rightarrow> (int list \<times> 'w) result" where
  "notifier_delete pb e w =
     bindE (ev_get pb e w) (\<lambda>x. Inr (if fd_num (ev_fd x) \<noteq> INVALID_FD then [fd_num (ev_fd x)] else [], ev_free pb e w))"

definition signal_delete :: "('x, 'w) poll \<Rightarrow> nat \<Rightarrow> 'w \<Rightarrow> (int list \<times> 'w) result" where
  "signal_delete pb e w = bindE (ev_get pb e w) (\<lambda>x. Inr ([], ev_free pb e w))"

definition inotify_delete :: "('x, 'w) poll \<Rightarrow> nat \<Rightarrow> 'w \<Rightarrow> (int list \<times> 'w) result" where
  "inotify_delete pb e w =
     bindE (ev_get pb e w) (\<lambda>x. Inr (if fd_num (ev_fd x) \<noteq> INVALID_FD then [fd_num (ev_fd x)] else [], ev_free pb e w))"

subsection \<open>The rest of the service\<close>

definition new_event :: "event_base \<Rightarrow> 'x event_loop_scheme \<Rightarrow> nat \<times> 'x event_loop_scheme" where
  "new_event x l = (el_next l, l\<lparr>el_events := (el_events l)(el_next l \<mapsto> x), el_next := el_next l + 1\<rparr>)"

definition create_notifier :: "('x, 'w) poll \<Rightarrow> int \<Rightarrow> nat \<Rightarrow> nat option \<Rightarrow> nat option \<Rightarrow> 'w \<Rightarrow> (nat option \<times> 'w) result" where
  "create_notifier pb eventfd para cb cb_for_stop w =
     (let (e, l) = new_event (event_base_new Notifier (mk_iovec para 8)) (pb_loop pb w)
      in bindE (notifier_open pb eventfd e True cb cb_for_stop (pb_set_loop pb l w)) (\<lambda>(ret, w).
         Inr (if ret = 0 then Some e else None, w)))"

definition create_watch_obj :: "('x, 'w) poll \<Rightarrow> int \<Rightarrow> nat option \<Rightarrow> u32 \<Rightarrow> 'w \<Rightarrow> (nat option \<times> 'w) result" where
  "create_watch_obj pb ifd buf buffer_size w =
     (let (e, l) = new_event (event_base_new Inotify (mk_iovec 0 0)) (pb_loop pb w)
      in bindE (inotify_open pb ifd buf e True buffer_size (pb_set_loop pb l w)) (\<lambda>(ret, w).
         Inr (if ret = 0 then Some e else None, w)))"

definition watch_file :: "('x, 'w) poll \<Rightarrow> int \<Rightarrow> nat option \<Rightarrow> string \<Rightarrow> u32 \<Rightarrow> nat option \<Rightarrow> 'w op" where
  "watch_file pb wd e file_name events cb w =
     (case e of None \<Rightarrow> Inr (- 1, w) | Some e \<Rightarrow> add_watch pb wd e file_name events cb w)"

definition service_remove_watch :: "('x, 'w) poll \<Rightarrow> int \<Rightarrow> nat option \<Rightarrow> int \<Rightarrow> 'w op" where
  "service_remove_watch pb rm e watch_fd w =
     (case e of None \<Rightarrow> Inr (- 1, w) | Some e \<Rightarrow> remove_watch pb rm e watch_fd w)"

definition close_watch_obj :: "('x, 'w) poll \<Rightarrow> nat option \<Rightarrow> 'w op" where
  "close_watch_obj pb e w = (case e of None \<Rightarrow> Inr (- 1, w) | Some e \<Rightarrow> inotify_close pb e w)"

definition service_notify :: "nat option \<Rightarrow> sysret list \<Rightarrow> sysret list result" where
  "service_notify e answers = (case e of None \<Rightarrow> Inl Null_Deref | Some _ \<Rightarrow> notifier_notify answers)"

definition close_notifier :: "('x, 'w) poll \<Rightarrow> nat option \<Rightarrow> 'w op" where
  "close_notifier pb e w = (case e of None \<Rightarrow> Inl Null_Deref | Some e \<Rightarrow> notifier_close pb e w)"

subsection \<open>Running closures\<close>

text \<open>
  What the backend calls. \<open>tmo\<close> handles the expiration of a timer of the readiness backend,
  which belongs to that backend.
\<close>

definition run_closure :: "('x, 'w) poll \<Rightarrow> 'w lusr \<Rightarrow> (nat \<Rightarrow> int \<Rightarrow> 'w \<Rightarrow> 'w result) \<Rightarrow> 'w runner" where
  "run_closure pb usr tmo n arg w =
     (let cs = el_closures (pb_loop pb w); res = arg_res arg
      in if length cs \<le> n then Inl Use_After_Free
         else case cs ! n of
                Cl_User u \<Rightarrow> call_user pb usr (L_User u arg) w
              | Cl_Ready e fd is_read \<Rightarrow> handle_event_ready pb usr e res fd is_read w
              | Cl_Timer t \<Rightarrow> tmo t res w
              | Cl_On_Timer \<Rightarrow> bindE (on_timer (pb_loop pb w)) (\<lambda>(_, l). Inr (pb_set_loop pb l w))
              | Cl_Handle e \<Rightarrow>
                  bindE (ev_get pb e w) (\<lambda>x.
                  case eb_class x of
                    Notifier \<Rightarrow> notifier_handle_notify pb usr e res w
                  | Signal_Event \<Rightarrow> handle_signal pb usr e res w
                  | Inotify \<Rightarrow> inotify_handle_notify pb usr e res w
                  | _ \<Rightarrow> Inr w))"

end
