(* ===== verification/Backends.thy ===== *)
theory Backends
  imports Event_Service Timer Io_Uring_Proofs
begin

unbundle bit_operations_syntax

text \<open>
  The two backends as values of the interface, and the proof that each satisfies the
  contract the event loop relies on. The state of the process is the state of the backend
  extended by the loop object.
\<close>

subsection \<open>The readiness backend\<close>

record epoll_env =
  ee_created :: int
  ee_alloc :: "nat \<Rightarrow> nat option"
  ee_timer :: timer_env
  ee_addr :: nat
  ee_wait :: wait_answer

type_synonym 'x epoll_process = "'x event_loop_scheme timer_epoll_scheme"

definition ep_usr :: "'w runner \<Rightarrow> call \<Rightarrow> 'w \<Rightarrow> 'w result" where
  "ep_usr run c w =
     (case c of
        Read_Called n res iov cnt info \<Rightarrow> run n (Arg_Read res iov cnt info) w
      | Accept_Called n res fd \<Rightarrow> run n (Arg_Accept res fd) w
      | Write_Called n res \<Rightarrow> run n (Arg_Res res) w
      | Cancel_Called n res \<Rightarrow> run n (Arg_Res res) w)"

definition epoll_poll :: "epoll_env \<Rightarrow> ('x, 'x epoll_process) poll" where
  "epoll_poll env =
     \<lparr>pb_loop = timer_epoll.more,
      pb_set_loop = (\<lambda>l. timer_epoll.more_update (\<lambda>_. l)),
      pb_init = (\<lambda>_. epoll_init (ee_created env)),
      pb_register_ring_buffer = epoll_register_ring_buffer (ee_alloc env),
      pb_unregister_ring_buffer = (\<lambda>g. epoll_unregister_ring_buffer (unat g)),
      pb_submit_async_read_group = (\<lambda>fd g. epoll_submit_async_read_group fd (unat g)),
      pb_submit_async_read = epoll_submit_async_read,
      pb_cancel_async_read = (\<lambda>run. epoll_cancel_async_read (ep_usr run)),
      pb_submit_async_accept = epoll_submit_async_accept,
      pb_cancel_async_accept = (\<lambda>run. epoll_cancel_async_accept (ep_usr run)),
      pb_submit_async_write = epoll_submit_async_write,
      pb_cancel_async_write = (\<lambda>run. epoll_cancel_async_write (ep_usr run)),
      pb_create_timer = (\<lambda>run s ns cb w.
        let (c, l) = new_closure (Cl_Timer (te_next w)) (timer_epoll.more w)
        in epoll_create_timer (ep_usr run) (ee_timer env) (ee_addr env) c s ns cb (timer_epoll.more_update (\<lambda>_. l) w)),
      pb_close_timer = (\<lambda>run. epoll_close_timer (ep_usr run)),
      pb_submit = epoll_submit,
      pb_dispatch = (\<lambda>run timeout w.
        bindE (epoll_dispatch (ep_usr run) (ee_wait env) timeout w) (\<lambda>(ret, _, w). Inr (ret, w))),
      pb_close = epoll_close\<rparr>"

text \<open>The closures of a process on this backend; the handler of a timer is never the closure of a timer.\<close>

definition epoll_runner :: "epoll_env \<Rightarrow> 'x epoll_process lusr \<Rightarrow> 'x epoll_process runner" where
  "epoll_runner env usr =
     run_closure (epoll_poll env) usr
       (handle_timeout (\<lambda>n count. run_closure (epoll_poll env) usr (\<lambda>_ _ _. Inl Bad_Function_Call) n (Arg_Res (uint count))))"

lemmas write_tpart = find_or_create_info_tpart modify_action_tpart note_event_tpart push_tpart

lemma submit_write_tpart:
  assumes "epoll_submit_async_write fd buf cnt cb opt w = Inr (r, w')"
  shows "tpart w' = tpart w"
  using assms unfolding epoll_submit_async_write_def Let_def
  by (auto elim!: bindE_InrE split: option.splits if_splits dest!: write_tpart)

lemma submit_accept_tpart:
  assumes "epoll_submit_async_accept fd addr cb w = Inr (r, w')"
  shows "tpart w' = tpart w"
  using assms unfolding epoll_submit_async_accept_def Let_def
  by (auto elim!: bindE_InrE split: option.splits if_splits dest!: write_tpart)

lemma set_ring_tpart [simp]: "tpart (set_ring r x w) = tpart w"
  by (simp add: tpart_def set_ring_def)

lemma ring_tpart:
  "ring_register_fd r fd w = Inr w' \<Longrightarrow> tpart (w' :: 'a epoll_scheme) = tpart w"
  "ring_offer r w = Inr (v, w') \<Longrightarrow> tpart (w' :: 'a epoll_scheme) = tpart w"
  by (auto elim!: bindE_InrE split: prod.splits if_splits simp: ring_register_fd_def ring_offer_def Let_def)

lemma add_multishot_tpart: "add_multishot_read_task a t w = Inr w' \<Longrightarrow> tpart (w' :: 'a epoll_scheme) = tpart w"
  unfolding add_multishot_read_task_def Let_def
  by (auto elim!: bindE_InrE split: option.splits if_splits prod.splits dest!: ring_tpart)

lemma submit_group_tpart:
  assumes "epoll_submit_async_read_group fd g cb opt w = Inr (r, w')"
  shows "tpart w' = tpart w"
  using assms unfolding epoll_submit_async_read_group_def Let_def
  by (auto elim!: bindE_InrE split: option.splits if_splits dest!: write_tpart add_multishot_tpart)

lemma register_tpart:
  assumes "epoll_register_ring_buffer alloc bs bc w = Inr (r, w')"
  shows "tpart w' = tpart w"
  using assms unfolding epoll_register_ring_buffer_def Let_def
  by (auto elim!: bindE_InrE split: if_splits prod.splits simp: tpart_def set_ring_def)

lemma remove_multishot_tpart: "remove_multishot_task fds w = Inr w' \<Longrightarrow> tpart w' = tpart w"
  by (induction fds arbitrary: w) (auto elim!: bindE_InrE split: option.splits dest!: clear_multishot_tpart)

lemma unregister_tpart:
  assumes "epoll_unregister_ring_buffer b w = Inr (r, w')"
  shows "tpart w' = tpart w"
proof -
  have "tpart (w1\<lparr>ep_buffers := x, w_rings := y\<rparr>) = tpart w1" for w1 :: "'a epoll_scheme" and x y by (simp add: tpart_def)
  then show ?thesis using assms unfolding epoll_unregister_ring_buffer_def Let_def
    by (auto elim!: bindE_InrE split: if_splits dest!: remove_multishot_tpart)
qed

lemma epoll_close_timer_more:
  assumes "epoll_close_timer usr i w = Inr (r, w')"
  shows "timer_epoll.more w' = timer_epoll.more w"
  using assms unfolding epoll_close_timer_def timer_close_def Let_def
  by (auto elim!: bindE_InrE split: option.splits if_splits prod.splits simp: tm_set_def dest!: tpartD(7) [OF cancel_read_tpart])

lemma epoll_create_timer_more:
  assumes "epoll_create_timer usr env a c s ns cb w = Inr (r, w')"
  shows "timer_epoll.more w' = timer_epoll.more w"
  using assms unfolding epoll_create_timer_def timer_open_def timer_delete_def timer_close_def reg_timer_handler_def Let_def
  by (auto elim!: bindE_InrE split: option.splits if_splits prod.splits simp: tm_set_def
      dest!: tpartD(7) [OF cancel_read_tpart] tpartD(7) [OF submit_read_tpart])

subsection \<open>Dispatch and the loop object\<close>

definition world_pred :: "('x event_loop_scheme \<Rightarrow> bool) \<Rightarrow> 'x event_loop_scheme timer_epoll_ext epoll_ext \<Rightarrow> bool" where
  "world_pred P m \<longleftrightarrow> (\<exists>v :: 'x epoll_process. world.more v = m \<and> P (timer_epoll.more v))"

lemma world_pred_more [simp]: "world_pred P (world.more (w :: 'x epoll_process)) \<longleftrightarrow> P (timer_epoll.more w)"
proof
  assume "world_pred P (world.more w)"
  then obtain v :: "'x epoll_process" where "world.more v = world.more w" "P (timer_epoll.more v)" by (auto simp: world_pred_def)
  then show "P (timer_epoll.more w)" by (cases v; cases w) simp
qed (auto simp: world_pred_def)

lemma ep_usr_keeps: "run_keeps P timer_epoll.more run \<Longrightarrow> cb_keeps (world_pred P) (ep_usr run)"
  by (auto simp: run_keeps_def cb_keeps_def ep_usr_def split: call.splits)

lemma epoll_ctl_tpart: "epoll_ctl op fd evs ptr w = Inr (r, w') \<Longrightarrow> tpart w' = tpart w"
  by (auto simp: epoll_ctl_def tpart_def split: list.splits)

lemma remove_event_info_tpart [simp]: "tpart (remove_event_info fd w) = tpart w"
  by (simp add: remove_event_info_def tpart_def split: option.splits)

lemma ctl_failed_tpart: "ctl_failed i x op err evs w = Inr w' \<Longrightarrow> tpart w' = tpart w"
  by (auto simp: ctl_failed_def Let_def tpart_def set_info_def epoll_ctl_def elim!: bindE_InrE split: ctl_op.splits if_splits list.splits)

lemma apply_one_change_tpart: "apply_one_change i w = Inr w' \<Longrightarrow> tpart w' = tpart w"
  unfolding apply_one_change_def Let_def
  by (auto elim!: bindE_InrE split: if_splits option.splits dest!: epoll_ctl_tpart ctl_failed_tpart)

lemma apply_changes_tpart: "apply_changes ch w = Inr w' \<Longrightarrow> tpart w' = tpart w"
  by (induction ch arbitrary: w) (auto elim!: bindE_InrE dest!: apply_one_change_tpart)

lemma deliver_events_keeps:
  assumes "run_keeps P timer_epoll.more run" "P (timer_epoll.more w)" "deliver_events (ep_usr run) evs w = Inr w'"
  shows "P (timer_epoll.more (w' :: 'x epoll_process))"
  using assms(2,3)
proof (induction evs arbitrary: w)
  case (Cons ev evs)
  obtain a b w1 where "ev = (a, b)" "set_ready_events (ep_usr run) a b w = Inr w1" "deliver_events (ep_usr run) evs w1 = Inr w'"
    using Cons.prems(2) by (cases ev) (auto elim!: bindE_InrE)
  moreover have "P (timer_epoll.more w1)"
    using keptD [OF calculation(2) set_ready_events_kept [OF ep_usr_keeps [OF assms(1)]]] Cons.prems(1) by simp
  ultimately show ?case using Cons.IH by blast
qed simp

lemma ready_loop_keeps:
  assumes "run_keeps P timer_epoll.more run" "P (timer_epoll.more w)" "ready_loop (ep_usr run) n w = Inr w'"
  shows "P (timer_epoll.more (w' :: 'x epoll_process))"
  using assms(2,3)
proof (induction n arbitrary: w)
  case (Suc n)
  obtain a q w1 where "ep_ready w = a # q" "handle_events (ep_usr run) a False w = Inr w1"
      "ready_loop (ep_usr run) n (w1\<lparr>ep_ready := tl (ep_ready w1)\<rparr>) = Inr w'"
    using Suc.prems(2) by (auto elim!: bindE_InrE split: list.splits if_splits)
  moreover have "P (timer_epoll.more w1)"
    using keptD [OF calculation(2) handle_events_kept [OF ep_usr_keeps [OF assms(1)]]] Suc.prems(1) by simp
  ultimately show ?case using Suc.IH [of "w1\<lparr>ep_ready := tl (ep_ready w1)\<rparr>"] by simp
qed simp

lemma epoll_dispatch_keeps:
  assumes "run_keeps P timer_epoll.more run" "P (timer_epoll.more w)" "epoll_dispatch (ep_usr run) wait t w = Inr (r, t', w')"
  shows "P (timer_epoll.more (w' :: 'x epoll_process))"
proof -
  obtain w1 where w1: "(if ep_change w \<noteq> [] then bindE (apply_changes (ep_change w) w) (\<lambda>w. Inr (w\<lparr>ep_change := []\<rparr>)) else Inr w) = Inr w1"
    using assms(3) by (auto simp: epoll_dispatch_def elim!: bindE_InrE split: if_splits)
  then have "tpart w1 = tpart w" by (auto elim!: bindE_InrE split: if_splits dest!: apply_changes_tpart)
  then have P: "P (timer_epoll.more w1)" using assms(2) tpartD(7) by metis
  show ?thesis
  proof (cases wait)
    case (Inl e)
    then show ?thesis using assms(3) w1 P by (auto simp: epoll_dispatch_def Let_def)
  next
    case (Inr evs)
    then obtain w2 w3 where w: "deliver_events (ep_usr run) evs w1 = Inr w2" "do_ready_tasks (ep_usr run) w2 = Inr w3" "w' = w3\<lparr>ep_removed := []\<rparr>"
      using assms(3) w1 by (auto simp: epoll_dispatch_def Let_def elim!: bindE_InrE)
    have "P (timer_epoll.more w2)" by (rule deliver_events_keeps [OF assms(1) P w(1)])
    from ready_loop_keeps [OF assms(1) this w(2) [unfolded do_ready_tasks_def]] show ?thesis using w(3) by simp
  qed
qed

lemma epoll_cancel_keeps:
  assumes "run_keeps P timer_epoll.more run" "P (timer_epoll.more (w :: 'x epoll_process))"
  shows "epoll_cancel_async_read (ep_usr run) fd cb w = Inr (r, w') \<Longrightarrow> P (timer_epoll.more w')"
    and "epoll_cancel_async_write (ep_usr run) fd cb w = Inr (r, w') \<Longrightarrow> P (timer_epoll.more w')"
    and "epoll_cancel_async_accept (ep_usr run) fd cb w = Inr (r, w') \<Longrightarrow> P (timer_epoll.more w')"
proof -
  have call: "P (timer_epoll.more v')" if "call_cancel_cb (ep_usr run) n v = Inr v'" "P (timer_epoll.more v)" for n and v v' :: "'x epoll_process"
    using that assms(1) by (auto simp: call_cancel_cb_def ep_usr_def run_keeps_def log_call_def Let_def)
  have part: "P (timer_epoll.more v')" if "tpart v' = tpart v" "P (timer_epoll.more v)" for v v' :: "'x epoll_process"
    using that tpartD(7) by metis
  show "epoll_cancel_async_read (ep_usr run) fd cb w = Inr (r, w') \<Longrightarrow> P (timer_epoll.more w')"
    using assms(2) unfolding epoll_cancel_async_read_def
    by (auto elim!: bindE_InrE split: if_splits option.splits dest!: disable_read_tpart push_tpart) (metis part call)+
  show "epoll_cancel_async_write (ep_usr run) fd cb w = Inr (r, w') \<Longrightarrow> P (timer_epoll.more w')"
    using assms(2) unfolding epoll_cancel_async_write_def
    by (auto elim!: bindE_InrE split: if_splits option.splits dest!: modify_action_tpart) (metis part call)+
  show "epoll_cancel_async_accept (ep_usr run) fd cb w = Inr (r, w') \<Longrightarrow> P (timer_epoll.more w')"
    using assms(2) unfolding epoll_cancel_async_accept_def
    by (auto elim!: bindE_InrE split: if_splits option.splits dest!: disable_read_tpart) (metis part call)+
qed

interpretation ep: poll_contract "epoll_poll env" epoll_is_inited
proof (unfold_locales, goal_cases)
  case (5 cnt w w')
  then show ?case by (auto simp: epoll_poll_def epoll_init_def epoll_is_inited_def fd_is_valid_def INVALID_FD_def Let_def)
next
  case (11 fd buf cnt cb opt w r w')
  then show ?case using tpartD(7) [OF submit_read_tpart] by (simp add: epoll_poll_def)
next
  case (12 fd buf cnt cb wopt w r w')
  then show ?case using tpartD(7) [OF submit_write_tpart] by (simp add: epoll_poll_def)
next
  case (13 fd grp cb opt w r w')
  then show ?case using tpartD(7) [OF submit_group_tpart] by (simp add: epoll_poll_def)
next
  case (14 fd addr cb w r w')
  then show ?case using tpartD(7) [OF submit_accept_tpart] by (simp add: epoll_poll_def)
next
  case (15 s c w r w')
  then show ?case using tpartD(7) [OF register_tpart] by (simp add: epoll_poll_def)
next
  case (16 g w r w')
  then show ?case using tpartD(7) [OF unregister_tpart] by (simp add: epoll_poll_def)
next
  case (17 run i w r w')
  then show ?case using epoll_close_timer_more by (simp add: epoll_poll_def)
next
  case (18 P run w fd cb r w')
  then show ?case using epoll_cancel_keeps(1) [of P run w] by (simp add: epoll_poll_def)
next
  case (19 P run w fd cb r w')
  then show ?case using epoll_cancel_keeps(2) [of P run w] by (simp add: epoll_poll_def)
next
  case (20 P run w fd cb r w')
  then show ?case using epoll_cancel_keeps(3) [of P run w] by (simp add: epoll_poll_def)
next
  case (21 P run w t r w')
  then show ?case using epoll_dispatch_keeps [of P run w] by (auto simp: epoll_poll_def elim!: bindE_InrE)
qed (auto simp: epoll_poll_def epoll_is_inited_def epoll_init_def epoll_submit_async_read_def epoll_submit_async_write_def
      epoll_cancel_async_read_def epoll_cancel_async_write_def Let_def)

subsection \<open>The completion backend\<close>

record uring_env =
  ue_setup :: "u32 \<Rightarrow> uring_params \<Rightarrow> int \<times> uring_params"
  ue_maps :: "nat option \<times> nat option \<times> nat option"
  ue_rings :: kernel_rings
  ue_fresh :: wrapper
  ue_reg :: "nat option"
  ue_mem :: "nat + nat"
  ue_alloc :: "nat \<Rightarrow> nat option"
  ue_unmap :: "nat option"
  ue_wait :: "nat + cqe list"
  ue_late :: "cqe list"

type_synonym 'x uring_process = "'x event_loop_scheme io_uring_scheme"

definition iu_usr :: "'w runner \<Rightarrow> ucall \<Rightarrow> 'w \<Rightarrow> 'w result" where
  "iu_usr run c w =
     (case c of
        UC_Read n res iov cnt info \<Rightarrow> run n (Arg_Read res iov cnt info) w
      | UC_Write n res \<Rightarrow> run n (Arg_Res res) w
      | UC_Accept n res fd \<Rightarrow> run n (Arg_Accept res (Some fd)) w
      | UC_Cancel n res \<Rightarrow> run n (Arg_Res res) w
      | UC_Timer n res \<Rightarrow> run n (Arg_Res res) w)"

definition uring_poll :: "uring_env \<Rightarrow> ('x, 'x uring_process) poll" where
  "uring_poll env =
     \<lparr>pb_loop = io_uring.more,
      pb_set_loop = (\<lambda>l. io_uring.more_update (\<lambda>_. l)),
      pb_init = (case ue_maps env of (m_sq, m_cq, m_sqes) \<Rightarrow>
        iu_init (ue_setup env) m_sq m_cq m_sqes (ue_rings env) (ue_fresh env)),
      pb_register_ring_buffer = iu_register_ring_buffer (ue_reg env) (ue_mem env) (ue_alloc env),
      pb_unregister_ring_buffer = iu_unregister_ring_buffer (ue_reg env) (ue_unmap env),
      pb_submit_async_read_group = iu_submit_async_read_group,
      pb_submit_async_read = iu_submit_async_read,
      pb_cancel_async_read = (\<lambda>_. iu_cancel_async_read),
      pb_submit_async_accept = iu_submit_async_accept,
      pb_cancel_async_accept = (\<lambda>_. iu_cancel_async_accept),
      pb_submit_async_write = iu_submit_async_write,
      pb_cancel_async_write = (\<lambda>_. iu_cancel_async_write),
      pb_create_timer = (\<lambda>_. iu_create_timer),
      pb_close_timer = (\<lambda>_. iu_close_timer),
      pb_submit = iu_submit,
      pb_dispatch = (\<lambda>run. iu_dispatch (iu_usr run) (ue_wait env) (ue_late env)),
      pb_close = iu_close\<rparr>"

definition uring_runner :: "uring_env \<Rightarrow> 'x uring_process lusr \<Rightarrow> 'x uring_process runner" where
  "uring_runner env usr = run_closure (uring_poll env) usr (\<lambda>_ _ _. Inl Bad_Function_Call)"

lemma iu_more_simps [simp]:
  "io_uring.more (ca_set a c w) = io_uring.more w" "io_uring.more (ii_set i x w) = io_uring.more w"
  "io_uring.more (iu_set_ring r w) = io_uring.more w"
  by (simp_all add: ca_set_def ii_set_def iu_set_ring_def)

lemma iu_step_more:
  "get_io_uring_sqe w = Inr (s, w') \<Longrightarrow> io_uring.more w' = io_uring.more w"
  "find_or_create_iinfo fd w = Inr (i, w') \<Longrightarrow> io_uring.more w' = io_uring.more w"
  "get_read_complete_action i fd w = Inr (a, w') \<Longrightarrow> io_uring.more w' = io_uring.more w"
  "get_write_complete_action i w = Inr (a, w') \<Longrightarrow> io_uring.more w' = io_uring.more w"
  "ca_modify a f w = Inr w' \<Longrightarrow> io_uring.more w' = io_uring.more w"
  "iu_fill k g w = Inr w' \<Longrightarrow> io_uring.more w' = io_uring.more w"
  "submit_checked w = Inr (r, w') \<Longrightarrow> io_uring.more w' = io_uring.more w"
  by (auto elim!: bindE_InrE split: option.splits if_splits prod.splits
      simp: get_io_uring_sqe_def find_or_create_iinfo_def get_read_complete_action_def get_write_complete_action_def
        ca_modify_def iu_fill_def submit_checked_def iu_wrapper_submit_def ca_new_def Let_def)

lemma iu_submit_read_more:
  assumes "iu_submit_async_read fd buf cnt cb opt w = Inr (r, w')"
  shows "io_uring.more w' = io_uring.more w"
  using assms unfolding iu_submit_async_read_def Let_def
  by (auto elim!: bindE_InrE split: option.splits if_splits prod.splits dest!: iu_step_more)

lemma iu_submit_write_more:
  assumes "iu_submit_async_write fd buf cnt cb opt w = Inr (r, w')"
  shows "io_uring.more w' = io_uring.more w"
  using assms unfolding iu_submit_async_write_def Let_def
  by (auto elim!: bindE_InrE split: option.splits if_splits prod.splits dest!: iu_step_more)

lemma iu_submit_group_more:
  assumes "iu_submit_async_read_group fd grp cb opt w = Inr (r, w')"
  shows "io_uring.more w' = io_uring.more w"
  using assms unfolding iu_submit_async_read_group_def Let_def
  by (auto elim!: bindE_InrE split: option.splits if_splits dest!: iu_step_more)

lemma iu_submit_accept_more:
  assumes "iu_submit_async_accept fd addr cb w = Inr (r, w')"
  shows "io_uring.more w' = io_uring.more w"
  using assms unfolding iu_submit_async_accept_def Let_def
  by (auto elim!: bindE_InrE split: option.splits if_splits dest!: iu_step_more)

lemma iu_register_more:
  assumes "iu_register_ring_buffer reg mem alloc bs bc w = Inr (r, w')"
  shows "io_uring.more w' = io_uring.more w"
  using assms unfolding iu_register_ring_buffer_def Let_def
  by (auto elim!: bindE_InrE split: option.splits if_splits prod.splits)

lemma iu_unregister_loop_more:
  "unregister_loop info n b w = Inl w' \<Longrightarrow> io_uring.more w' = io_uring.more w"
  "unregister_loop info n b w = Inr (b', w') \<Longrightarrow> io_uring.more w' = io_uring.more w"
  by (induction n arbitrary: b w) (auto simp: Let_def split: if_splits option.splits)

lemma iu_unregister_more:
  assumes "iu_unregister_ring_buffer reg unm g w = Inr (r, w')"
  shows "io_uring.more w' = io_uring.more w"
  using assms unfolding iu_unregister_ring_buffer_def Let_def
  by (auto elim!: bindE_InrE split: option.splits if_splits sum.splits dest!: iu_unregister_loop_more)

lemma iu_timer_more:
  "iu_create_timer s ns cb w = Inr (r, w') \<Longrightarrow> io_uring.more w' = io_uring.more w"
  "iu_close_timer i w = Inr (r, w') \<Longrightarrow> io_uring.more w' = io_uring.more w"
  unfolding iu_create_timer_def iu_close_timer_def submit_timeout_def ca_new_def Let_def
  by (auto elim!: bindE_InrE split: option.splits if_splits dest!: iu_step_more)

lemma iu_usr_keeps:
  assumes "run_keeps P io_uring.more run" "iu_usr run c w = Inr w'" "P (io_uring.more w)"
  shows "P (io_uring.more w')"
  using assms by (auto simp: run_keeps_def iu_usr_def split: ucall.splits)

lemma ulog_keeps:
  assumes "run_keeps P io_uring.more run" "P (io_uring.more w)" "ulog (iu_usr run) c w = Inr w'"
  shows "P (io_uring.more w')"
  using iu_usr_keeps [OF assms(1) assms(3) [unfolded ulog_def]] assms(2) by simp

lemma call_lambda_keeps:
  assumes "run_keeps P io_uring.more run" "P (io_uring.more w)" "call_lambda (iu_usr run) cb res iov w = Inr w'"
  shows "P (io_uring.more w')"
  using assms(2,3) by (cases cb) (auto simp: Let_def dest!: ulog_keeps [OF assms(1), rotated] split: if_splits option.splits)

lemma complete_callback_keeps:
  assumes "run_keeps P io_uring.more run" "P (io_uring.more w)" "complete_callback (iu_usr run) a c b w = Inr w'"
  shows "P (io_uring.more w')"
  using assms(2,3) unfolding complete_callback_def Let_def
  by (auto elim!: bindE_InrE split: option.splits dest!: call_lambda_keeps [OF assms(1), rotated])

lemma resubmit_multishot_more:
  assumes "resubmit_multishot a w = Inr w'"
  shows "io_uring.more w' = io_uring.more w"
  using assms unfolding resubmit_multishot_def iu_wrapper_submit_def
  by (auto elim!: bindE_InrE split: option.splits if_splits prod.splits dest!: iu_step_more)

lemma deliver_buffer_keeps:
  assumes "run_keeps P io_uring.more run" "P (io_uring.more w)" "deliver_buffer (iu_usr run) a c w = Inr w'"
  shows "P (io_uring.more w')"
  using assms(2,3) unfolding deliver_buffer_def Let_def
  by (auto elim!: bindE_InrE split: option.splits if_splits dest!: complete_callback_keeps [OF assms(1), rotated])

lemma deliver_cqe_keeps:
  assumes "run_keeps P io_uring.more run" "P (io_uring.more w)" "deliver_cqe (iu_usr run) c w = Inr w'"
  shows "P (io_uring.more w')"
proof -
  have b: "P (io_uring.more w1)" if "deliver_buffer (iu_usr run) a c w = Inr w1" for a w1
    by (rule deliver_buffer_keeps [OF assms(1,2) that])
  have cc: "P (io_uring.more w1)" if "complete_callback (iu_usr run) a c n w = Inr w1" for a n w1
    by (rule complete_callback_keeps [OF assms(1,2) that])
  show ?thesis using assms(2,3) b cc unfolding deliver_cqe_def Let_def
    by (auto elim!: bindE_InrE split: if_splits dest!: resubmit_multishot_more)
qed

lemma deliver_loop_keeps:
  assumes "run_keeps P io_uring.more run" "P (io_uring.more w)" "deliver_loop (iu_usr run) n i w = Inr w'"
  shows "P (io_uring.more w')"
  using assms(2,3)
proof (induction n arbitrary: i w)
  case (Suc n)
  then obtain c w1 where "deliver_cqe (iu_usr run) c w = Inr w1" "deliver_loop (iu_usr run) n (Suc i) w1 = Inr w'"
    by (auto elim!: bindE_InrE)
  then show ?case using Suc.IH deliver_cqe_keeps [OF assms(1) Suc.prems(1)] by blast
qed simp

lemma iu_dispatch_keeps:
  assumes "run_keeps P io_uring.more run" "P (io_uring.more w)" "iu_dispatch (iu_usr run) wait late t w = Inr (r, w')"
  shows "P (io_uring.more w')"
proof -
  show ?thesis using assms(2,3) unfolding iu_dispatch_def Let_def
    by (auto elim!: bindE_InrE split: prod.splits if_splits dest!: deliver_loop_keeps [OF assms(1), rotated])
qed

lemma iu_cancel_step_more:
  "get_cancel_read_complete_action i w = Inr (a, w') \<Longrightarrow> io_uring.more w' = io_uring.more w"
  "get_cancel_write_complete_action i w = Inr (a, w') \<Longrightarrow> io_uring.more w' = io_uring.more w"
  by (auto elim!: bindE_InrE split: option.splits
      simp: get_cancel_read_complete_action_def get_cancel_write_complete_action_def ca_new_def Let_def)

lemma iu_cancel_more:
  "iu_cancel_async_read fd cb w = Inr (r, w') \<Longrightarrow> io_uring.more w' = io_uring.more w"
  "iu_cancel_async_write fd cb w = Inr (r, w') \<Longrightarrow> io_uring.more w' = io_uring.more w"
  "iu_cancel_async_accept fd cb w = Inr (r, w') \<Longrightarrow> io_uring.more w' = io_uring.more w"
  unfolding iu_cancel_async_read_def iu_cancel_async_write_def iu_cancel_async_accept_def
  by (auto elim!: bindE_InrE split: option.splits if_splits dest!: iu_step_more iu_cancel_step_more)

interpretation iu: poll_contract "uring_poll env" iu_is_inited
proof (unfold_locales, goal_cases)
  case (11 fd buf cnt cb opt w r w')
  then show ?case using iu_submit_read_more by (simp add: uring_poll_def)
next
  case (12 fd buf cnt cb wopt w r w')
  then show ?case using iu_submit_write_more by (simp add: uring_poll_def)
next
  case (13 fd grp cb opt w r w')
  then show ?case using iu_submit_group_more by (simp add: uring_poll_def)
next
  case (14 fd addr cb w r w')
  then show ?case using iu_submit_accept_more by (simp add: uring_poll_def)
next
  case (15 s c w r w')
  then show ?case using iu_register_more by (simp add: uring_poll_def)
next
  case (16 g w r w')
  then show ?case using iu_unregister_more by (simp add: uring_poll_def)
next
  case (17 run i w r w')
  then show ?case using iu_timer_more(2) by (simp add: uring_poll_def)
next
  case (18 P run w fd cb r w')
  then show ?case using iu_cancel_more(1) [of fd cb w] by (simp add: uring_poll_def)
next
  case (19 P run w fd cb r w')
  then show ?case using iu_cancel_more(2) [of fd cb w] by (simp add: uring_poll_def)
next
  case (20 P run w fd cb r w')
  then show ?case using iu_cancel_more(3) [of fd cb w] by (simp add: uring_poll_def)
next
  case (21 P run w t r w')
  then show ?case using iu_dispatch_keeps [of P run w] by (simp add: uring_poll_def)
qed (auto simp: uring_poll_def iu_is_inited_def iu_init_def iu_set_ring_def iu_submit_async_read_def iu_submit_async_write_def
      iu_cancel_async_read_def iu_cancel_async_write_def fd_is_valid_def Let_def split: prod.splits)

end
