(* ===== verification/Loop_Proofs.thy ===== *)
theory Loop_Proofs
  imports Event_Service "HOL-Library.Sublist"
begin

unbundle bit_operations_syntax

text \<open>
  What the event loop does on any backend that satisfies the contract: the order in which jobs
  run, when the loop ends, which event objects it can reach, and what happens to an event
  object that is closed. The lemmas are proved once, in the locale \<open>loop_backend\<close>, from the
  laws of \<open>poll_contract\<close> alone; the theory \<open>Loop_Properties\<close> has the instances for the
  two backends.
\<close>

subsection \<open>User functions\<close>

text \<open>
  A polite user function returns; it may queue jobs, register events and close the loop, but
  it does not run jobs or restart the loop. \<open>added\<close> tells which jobs it queues from the
  thread of the loop.
\<close>

definition polite_step :: "job list \<Rightarrow> 'x event_loop_scheme \<Rightarrow> 'x event_loop_scheme \<Rightarrow> bool" where
  "polite_step js l l' \<longleftrightarrow>
     el_same_jobs l' = el_same_jobs l @ js \<and> el_other_jobs l' = el_other_jobs l \<and> el_swap l' = el_swap l \<and>
     el_calls l' = el_calls l \<and> (el_state l' = el_state l \<or> el_state l' = ES_STOP)"

definition polite :: "('x, 'w) poll \<Rightarrow> 'w lusr \<Rightarrow> (lcall \<Rightarrow> job list) \<Rightarrow> bool" where
  "polite pb usr added \<longleftrightarrow>
     (\<forall>c w. \<exists>w'. usr c w = Inr w' \<and> polite_step (added c) (pb_loop pb w) (pb_loop pb w'))"

lemma politeE:
  assumes "polite pb usr added"
  obtains w' where "usr c w = Inr w'" "polite_step (added c) (pb_loop pb w) (pb_loop pb w')"
  using assms unfolding polite_def by blast

text \<open>The calls of user functions that a list of jobs makes.\<close>

fun job_calls :: "job list \<Rightarrow> lcall list" where
  "job_calls [] = []"
| "job_calls (Job n # js) = L_Job n # job_calls js"
| "job_calls (Job_Handle_Close # js) = job_calls js"

lemma job_calls_append [simp]: "job_calls (js @ js') = job_calls js @ job_calls js'"
  by (induction js rule: job_calls.induct) simp_all

definition added_by :: "(lcall \<Rightarrow> job list) \<Rightarrow> job list \<Rightarrow> job list" where
  "added_by added js = concat (map added (job_calls js))"

lemma added_by_Nil [simp]: "added_by added [] = []"
  by (simp add: added_by_def)

lemma jobs_Cons:
  "added_by added (j # js) = added_by added [j] @ added_by added js" "job_calls (j # js) = job_calls [j] @ job_calls js"
  by (cases j; simp add: added_by_def)+

text \<open>A step of the loop thread on the loop object between two dispatches, and what dispatch may do.\<close>

definition loop_grows :: "'x event_loop_scheme \<Rightarrow> 'x event_loop_scheme \<Rightarrow> bool" where
  "loop_grows l l' \<longleftrightarrow>
     prefix (el_same_jobs l) (el_same_jobs l') \<and> el_other_jobs l' = el_other_jobs l \<and> el_swap l' = el_swap l \<and>
     prefix (el_calls l) (el_calls l') \<and> (el_state l' = el_state l \<or> el_state l' = ES_STOP)"

lemma loop_grows_refl [simp]: "loop_grows l l"
  by (simp add: loop_grows_def)

lemma loop_grows_trans: "loop_grows l l' \<Longrightarrow> loop_grows l' l'' \<Longrightarrow> loop_grows l l''"
  unfolding loop_grows_def by (metis prefix_order.trans)

subsection \<open>Registered events\<close>

text \<open>
  Every event the loop knows, in a set or in a waiting instruction, is a live object, and the
  sets have no duplicates; \<open>D\<close> are objects that stay alive.
\<close>

definition loop_safe :: "nat set \<Rightarrow> 'x event_loop_scheme \<Rightarrow> bool" where
  "loop_safe D l \<longleftrightarrow>
     distinct (el_handlers l) \<and> distinct (el_busy l) \<and>
     set (el_handlers l) \<union> set (el_busy l) \<union> li_evt ` set (el_cache l) \<union> D \<subseteq> dom (el_events l)"

lemma loop_safe_simps [simp]:
  "loop_safe D (l\<lparr>el_closures := x1\<rparr>) = loop_safe D l" "loop_safe D (l\<lparr>el_calls := x2\<rparr>) = loop_safe D l"
  "loop_safe D (l\<lparr>el_removed := x3\<rparr>) = loop_safe D l" "loop_safe D (l\<lparr>el_same_jobs := x4\<rparr>) = loop_safe D l"
  "loop_safe D (l\<lparr>el_other_jobs := x5\<rparr>) = loop_safe D l" "loop_safe D (l\<lparr>el_swap := x6\<rparr>) = loop_safe D l"
  "loop_safe D (l\<lparr>el_thread_id := x7\<rparr>) = loop_safe D l" "loop_safe D (l\<lparr>el_state := x8\<rparr>) = loop_safe D l"
  by (simp_all add: loop_safe_def)

lemma loop_safe_event: "loop_safe D l \<Longrightarrow> loop_safe D (l\<lparr>el_events := (el_events l)(e \<mapsto> x)\<rparr>)"
  by (simp add: loop_safe_def) blast

definition usr_safe :: "('x, 'w) poll \<Rightarrow> 'w lusr \<Rightarrow> bool" where
  "usr_safe pb usr \<longleftrightarrow> (\<forall>D c w w'. usr c w = Inr w' \<longrightarrow> loop_safe D (pb_loop pb w) \<longrightarrow> loop_safe D (pb_loop pb w'))"

lemma on_timer_loop_ok:
  assumes "set es \<subseteq> dom evs" "distinct busy" "distinct es"
  shows "\<exists>busy'. on_timer_loop evs es busy = Inr busy' \<and> distinct busy' \<and>
     set busy' = (set busy - set es) \<union> {e \<in> set es. \<exists>x. evs e = Some x \<and> ev_raise x}"
  using assms
proof (induction es arbitrary: busy)
  case (Cons e es)
  then obtain x where x: "evs e = Some x" by auto
  let ?busy = "if ev_raise x then set_insert e busy else remove1 e busy"
  have "distinct ?busy" using Cons.prems(2) by (simp add: set_insert_def)
  from Cons.IH [OF _ this] Cons.prems obtain busy' where
    "on_timer_loop evs es ?busy = Inr busy'" "distinct busy'"
    "set busy' = (set ?busy - set es) \<union> {e \<in> set es. \<exists>x. evs e = Some x \<and> ev_raise x}" by auto
  moreover have "set ?busy = (if ev_raise x then insert e (set busy) else set busy - {e})"
    using Cons.prems(2) by (auto simp: set_insert_def)
  ultimately show ?case using x Cons.prems(3) by (intro exI [of _ busy']) auto
qed simp

subsection \<open>The loop on a backend that satisfies the contract\<close>

locale loop_backend = poll_contract pb inited
  for pb :: "('x event_loop_scheme, 'w) poll_base" and inited :: "'w \<Rightarrow> bool" +
  assumes create_timer_loop: "pb_create_timer pb run s ns cb w = Inr (r, w') \<Longrightarrow>
    \<exists>cs. pb_loop pb w' = (pb_loop pb w)\<lparr>el_closures := el_closures (pb_loop pb w) @ cs\<rparr>"
begin

lemma upd_loop_simps [simp]:
  "pb_loop pb (upd_loop pb f w) = f (pb_loop pb w)" "inited (upd_loop pb f w) = inited w"
  by (simp_all add: upd_loop_def loop_set inited_set)

lemma run_job_polite:
  assumes "polite pb usr added"
  obtains w' where "run_job pb usr j w = Inr w'"
    "el_same_jobs (pb_loop pb w') = el_same_jobs (pb_loop pb w) @ added_by added [j]"
    "el_other_jobs (pb_loop pb w') = el_other_jobs (pb_loop pb w)" "el_swap (pb_loop pb w') = el_swap (pb_loop pb w)"
    "el_calls (pb_loop pb w') = el_calls (pb_loop pb w) @ job_calls [j]"
    "el_state (pb_loop pb w') = (if j = Job_Handle_Close then ES_STOP else el_state (pb_loop pb w)) \<or> el_state (pb_loop pb w') = ES_STOP"
proof (cases j)
  case (Job n)
  from politeE [OF assms] obtain w' where
    "usr (L_Job n) (upd_loop pb (\<lambda>l. l\<lparr>el_calls := el_calls l @ [L_Job n]\<rparr>) w) = Inr w'"
    "polite_step (added (L_Job n)) (pb_loop pb (upd_loop pb (\<lambda>l. l\<lparr>el_calls := el_calls l @ [L_Job n]\<rparr>) w)) (pb_loop pb w')" .
  then show thesis using that [of w'] Job by (simp add: run_job_def call_user_def polite_step_def added_by_def)
next
  case Job_Handle_Close
  then show thesis using that [of "upd_loop pb handle_close w"] by (simp add: run_job_def handle_close_def added_by_def)
qed

lemma same_jobs_fifo:
  assumes "polite pb usr added" "el_same_jobs (pb_loop pb w) = js @ rest"
  shows "\<exists>w'. same_jobs_loop pb usr (length js) w = Inr w' \<and> el_same_jobs (pb_loop pb w') = rest @ added_by added js \<and>
     el_calls (pb_loop pb w') = el_calls (pb_loop pb w) @ job_calls js \<and>
     el_other_jobs (pb_loop pb w') = el_other_jobs (pb_loop pb w) \<and> el_swap (pb_loop pb w') = el_swap (pb_loop pb w) \<and>
     (el_state (pb_loop pb w') = el_state (pb_loop pb w) \<or> el_state (pb_loop pb w') = ES_STOP)"
  using assms(2)
proof (induction js arbitrary: w rest)
  case (Cons j js)
  from run_job_polite [OF assms(1)] obtain w1 where
    1: "run_job pb usr j w = Inr w1" "el_same_jobs (pb_loop pb w1) = el_same_jobs (pb_loop pb w) @ added_by added [j]"
      "el_other_jobs (pb_loop pb w1) = el_other_jobs (pb_loop pb w)" "el_swap (pb_loop pb w1) = el_swap (pb_loop pb w)"
      "el_calls (pb_loop pb w1) = el_calls (pb_loop pb w) @ job_calls [j]"
      "el_state (pb_loop pb w1) = (if j = Job_Handle_Close then ES_STOP else el_state (pb_loop pb w)) \<or> el_state (pb_loop pb w1) = ES_STOP" .
  let ?w = "upd_loop pb (\<lambda>l. l\<lparr>el_same_jobs := tl (el_same_jobs l)\<rparr>) w1"
  have q: "el_same_jobs (pb_loop pb ?w) = js @ rest @ added_by added [j]" using 1(2) Cons.prems by simp
  from Cons.IH [OF q] obtain w' where
    2: "same_jobs_loop pb usr (length js) ?w = Inr w'" "el_same_jobs (pb_loop pb w') = (rest @ added_by added [j]) @ added_by added js"
      "el_calls (pb_loop pb w') = el_calls (pb_loop pb ?w) @ job_calls js"
      "el_other_jobs (pb_loop pb w') = el_other_jobs (pb_loop pb ?w)" "el_swap (pb_loop pb w') = el_swap (pb_loop pb ?w)"
      "el_state (pb_loop pb w') = el_state (pb_loop pb ?w) \<or> el_state (pb_loop pb w') = ES_STOP"
    by blast
  have "same_jobs_loop pb usr (length (j # js)) w = Inr w'" using Cons.prems 1(1,2) 2(1) by simp
  then show ?case using 1 2 unfolding jobs_Cons(1) [of added j js] jobs_Cons(2) [of j js]
    by (intro exI [of _ w']) (auto split: if_splits)
qed simp

lemma jobs_loop_all:
  assumes "polite pb usr added"
  shows "\<exists>w'. jobs_loop pb usr js w = Inr w' \<and> el_same_jobs (pb_loop pb w') = el_same_jobs (pb_loop pb w) @ added_by added js \<and>
     el_calls (pb_loop pb w') = el_calls (pb_loop pb w) @ job_calls js \<and>
     el_other_jobs (pb_loop pb w') = el_other_jobs (pb_loop pb w) \<and> el_swap (pb_loop pb w') = el_swap (pb_loop pb w) \<and>
     (el_state (pb_loop pb w') = el_state (pb_loop pb w) \<and> Job_Handle_Close \<notin> set js \<or> el_state (pb_loop pb w') = ES_STOP)"
proof (induction js arbitrary: w)
  case (Cons j js)
  from run_job_polite [OF assms] obtain w1 where
    1: "run_job pb usr j w = Inr w1" "el_same_jobs (pb_loop pb w1) = el_same_jobs (pb_loop pb w) @ added_by added [j]"
      "el_other_jobs (pb_loop pb w1) = el_other_jobs (pb_loop pb w)" "el_swap (pb_loop pb w1) = el_swap (pb_loop pb w)"
      "el_calls (pb_loop pb w1) = el_calls (pb_loop pb w) @ job_calls [j]"
      "el_state (pb_loop pb w1) = (if j = Job_Handle_Close then ES_STOP else el_state (pb_loop pb w)) \<or> el_state (pb_loop pb w1) = ES_STOP" .
  from Cons.IH [of w1] obtain w' where
    2: "jobs_loop pb usr js w1 = Inr w'" "el_same_jobs (pb_loop pb w') = el_same_jobs (pb_loop pb w1) @ added_by added js"
      "el_calls (pb_loop pb w') = el_calls (pb_loop pb w1) @ job_calls js"
      "el_other_jobs (pb_loop pb w') = el_other_jobs (pb_loop pb w1)" "el_swap (pb_loop pb w') = el_swap (pb_loop pb w1)"
      "el_state (pb_loop pb w') = el_state (pb_loop pb w1) \<and> Job_Handle_Close \<notin> set js \<or> el_state (pb_loop pb w') = ES_STOP"
    by blast
  have "jobs_loop pb usr (j # js) w = Inr w'" using 1(1) 2(1) by simp
  then show ?case using 1 2 unfolding jobs_Cons(1) [of added j js] jobs_Cons(2) [of j js]
    by (intro exI [of _ w']) (auto split: if_splits)
qed simp

lemma process_other_all:
  assumes "polite pb usr added" "el_swap (pb_loop pb w) = []"
  shows "\<exists>w'. process_other_thread_job pb usr w = Inr w' \<and> el_other_jobs (pb_loop pb w') = [] \<and> el_swap (pb_loop pb w') = [] \<and>
     el_calls (pb_loop pb w') = el_calls (pb_loop pb w) @ job_calls (el_other_jobs (pb_loop pb w)) \<and>
     el_same_jobs (pb_loop pb w') = el_same_jobs (pb_loop pb w) @ added_by added (el_other_jobs (pb_loop pb w)) \<and>
     (el_state (pb_loop pb w') = el_state (pb_loop pb w) \<and> Job_Handle_Close \<notin> set (el_other_jobs (pb_loop pb w)) \<or>
      el_state (pb_loop pb w') = ES_STOP)"
proof -
  let ?w = "upd_loop pb (\<lambda>l. l\<lparr>el_other_jobs := el_swap l, el_swap := el_other_jobs l\<rparr>) w"
  let ?js = "el_other_jobs (pb_loop pb w)"
  from jobs_loop_all [OF assms(1), of ?js ?w] obtain w1 where
    1: "jobs_loop pb usr ?js ?w = Inr w1" "el_same_jobs (pb_loop pb w1) = el_same_jobs (pb_loop pb ?w) @ added_by added ?js"
      "el_calls (pb_loop pb w1) = el_calls (pb_loop pb ?w) @ job_calls ?js"
      "el_other_jobs (pb_loop pb w1) = el_other_jobs (pb_loop pb ?w)"
      "el_state (pb_loop pb w1) = el_state (pb_loop pb ?w) \<and> Job_Handle_Close \<notin> set ?js \<or> el_state (pb_loop pb w1) = ES_STOP"
    by blast
  have "process_other_thread_job pb usr w = Inr (upd_loop pb (\<lambda>l. l\<lparr>el_swap := []\<rparr>) w1)"
    using 1(1) by (simp add: process_other_thread_job_def Let_def)
  then show ?thesis using 1(2-) assms(2) by (intro exI [of _ "upd_loop pb (\<lambda>l. l\<lparr>el_swap := []\<rparr>) w1"]) simp
qed

lemma loop_once_jobs:
  fixes arrive :: "job list"
  assumes "polite pb usr added" "\<And>l0. run_keeps (loop_grows l0) (pb_loop pb) run"
    "\<And>w1. same_jobs_loop pb usr (length (el_same_jobs (pb_loop pb w))) w = Inr w1 \<Longrightarrow>
       \<exists>r w2. pb_dispatch pb run (if el_same_jobs (pb_loop pb w) \<noteq> [] then 0 else t) w1 = Inr (r, w2)"
    "el_cache (pb_loop pb w) = []" "el_busy (pb_loop pb w) = []" "el_swap (pb_loop pb w) = []"
  defines "same \<equiv> el_same_jobs (pb_loop pb w)" and "other \<equiv> el_other_jobs (pb_loop pb w) @ arrive"
  shows "\<exists>w' ds ms. loop_once pb usr run arrive t w = Inr w' \<and>
     el_calls (pb_loop pb w') = el_calls (pb_loop pb w) @ job_calls same @ ds @ job_calls other \<and>
     el_same_jobs (pb_loop pb w') = added_by added same @ ms @ added_by added other \<and>
     el_other_jobs (pb_loop pb w') = [] \<and> el_swap (pb_loop pb w') = [] \<and> el_removed (pb_loop pb w') = [] \<and>
     (el_state (pb_loop pb w') = el_state (pb_loop pb w) \<and> Job_Handle_Close \<notin> set other \<or> el_state (pb_loop pb w') = ES_STOP)"
proof -
  have "el_same_jobs (pb_loop pb w) = same @ []" by (simp add: same_def)
  from same_jobs_fifo [OF assms(1) this] obtain w1 where
    1: "same_jobs_loop pb usr (length same) w = Inr w1" "el_same_jobs (pb_loop pb w1) = added_by added same"
      "el_calls (pb_loop pb w1) = el_calls (pb_loop pb w) @ job_calls same"
      "el_other_jobs (pb_loop pb w1) = el_other_jobs (pb_loop pb w)" "el_swap (pb_loop pb w1) = []"
      "el_state (pb_loop pb w1) = el_state (pb_loop pb w) \<or> el_state (pb_loop pb w1) = ES_STOP"
    using assms(6) by auto
  let ?t = "if same \<noteq> [] then 0 else t"
  obtain r w2 where 2: "pb_dispatch pb run ?t w1 = Inr (r, w2)" using assms(3) 1(1) unfolding same_def by blast
  have g: "loop_grows (pb_loop pb w1) (pb_loop pb w2)"
    by (rule dispatch_keeps [OF assms(2) _ 2]) simp
  then obtain ms ds where g2: "el_same_jobs (pb_loop pb w2) = added_by added same @ ms"
      "el_calls (pb_loop pb w2) = el_calls (pb_loop pb w) @ job_calls same @ ds"
      "el_other_jobs (pb_loop pb w2) = el_other_jobs (pb_loop pb w)" "el_swap (pb_loop pb w2) = []"
      "el_state (pb_loop pb w2) = el_state (pb_loop pb w) \<or> el_state (pb_loop pb w2) = ES_STOP"
    using 1 unfolding loop_grows_def prefix_def by auto
  let ?w2 = "upd_loop pb (\<lambda>l. l\<lparr>el_other_jobs := el_other_jobs l @ arrive\<rparr>) w2"
  have o: "el_other_jobs (pb_loop pb ?w2) = other" using g2(3) by (simp add: other_def)
  obtain w3 where 3: "(if el_other_jobs (pb_loop pb ?w2) \<noteq> [] then process_other_thread_job pb usr ?w2 else Inr ?w2) = Inr w3"
      "el_other_jobs (pb_loop pb w3) = []" "el_swap (pb_loop pb w3) = []"
      "el_calls (pb_loop pb w3) = el_calls (pb_loop pb w2) @ job_calls other"
      "el_same_jobs (pb_loop pb w3) = el_same_jobs (pb_loop pb w2) @ added_by added other"
      "el_state (pb_loop pb w3) = el_state (pb_loop pb w2) \<and> Job_Handle_Close \<notin> set other \<or> el_state (pb_loop pb w3) = ES_STOP"
  proof (cases "other = []")
    case True
    then show thesis using o g2(4) by (intro that [of ?w2]) simp_all
  next
    case False
    have "el_swap (pb_loop pb ?w2) = []" using g2(4) by simp
    from process_other_all [OF assms(1) this] obtain w3 where
      "process_other_thread_job pb usr ?w2 = Inr w3" "el_other_jobs (pb_loop pb w3) = []" "el_swap (pb_loop pb w3) = []"
      "el_calls (pb_loop pb w3) = el_calls (pb_loop pb w2) @ job_calls other"
      "el_same_jobs (pb_loop pb w3) = el_same_jobs (pb_loop pb w2) @ added_by added other"
      "el_state (pb_loop pb w3) = el_state (pb_loop pb w2) \<and> Job_Handle_Close \<notin> set other \<or> el_state (pb_loop pb w3) = ES_STOP"
      unfolding o by auto
    then show thesis using False o by (intro that [of w3]) simp_all
  qed
  have "loop_once pb usr run arrive t w = Inr (upd_loop pb (\<lambda>l. l\<lparr>el_removed := []\<rparr>) w3)"
    using assms(4,5) 1(1) 2 3(1) by (simp add: loop_once_def Let_def same_def split del: if_split cong: if_cong)
  then show ?thesis using 3 g2
    by (intro exI [of _ "upd_loop pb (\<lambda>l. l\<lparr>el_removed := []\<rparr>) w3"] exI [of _ ds] exI [of _ ms]) auto
qed

lemma start_after_close:
  assumes "polite pb usr added" "\<And>l0. run_keeps (loop_grows l0) (pb_loop pb) run"
    "el_cache (pb_loop pb w) = []" "el_busy (pb_loop pb w) = []" "el_swap (pb_loop pb w) = []" "el_same_jobs (pb_loop pb w) = []"
    "tid \<noteq> el_thread_id (pb_loop pb w)" "loop_close tid (pb_loop pb w) = Inr (0, l)"
    "\<exists>r w1. pb_dispatch pb run (el_polling_ms l) (pb_set_loop pb (l\<lparr>el_thread_id := tid', el_state := ES_START\<rparr>) w) = Inr (r, w1)"
  shows "\<exists>w'. start_loop pb usr run tid' (arrive # rounds) (pb_set_loop pb l w) = Inr w' \<and> el_state (pb_loop pb w') = ES_STOP"
proof -
  have l: "el_state l = ES_STOP" "el_other_jobs l = el_other_jobs (pb_loop pb w) @ [Job_Handle_Close]" "el_cache l = []" "el_busy l = []"
      "el_swap l = []" "el_same_jobs l = []"
    using assms(3-8) by (auto simp: loop_close_def run_in_event_loop_def wake_up_def internal_notify_def elim!: bindE_InrE
        split: option.splits)
  let ?w = "upd_loop pb (\<lambda>l. l\<lparr>el_thread_id := tid', el_state := ES_START\<rparr>) (pb_set_loop pb l w)"
  have ww: "?w = pb_set_loop pb (l\<lparr>el_thread_id := tid', el_state := ES_START\<rparr>) w" by (simp add: upd_loop_def loop_set set_set)
  have w: "el_cache (pb_loop pb ?w) = []" "el_busy (pb_loop pb ?w) = []" "el_swap (pb_loop pb ?w) = []"
      "Job_Handle_Close \<in> set (el_other_jobs (pb_loop pb ?w) @ arrive)"
    using l by (simp_all add: loop_set)
  have d: "\<exists>r w2. pb_dispatch pb run (if el_same_jobs (pb_loop pb ?w) \<noteq> [] then 0 else el_polling_ms (pb_loop pb ?w)) w1 = Inr (r, w2)"
    if "same_jobs_loop pb usr (length (el_same_jobs (pb_loop pb ?w))) ?w = Inr w1" for w1
  proof -
    have "w1 = ?w" using that l(6) by (simp add: loop_set)
    moreover have "el_same_jobs (pb_loop pb ?w) = []" "el_polling_ms (pb_loop pb ?w) = el_polling_ms l" using l(6) by (simp_all add: loop_set)
    ultimately show ?thesis using assms(9) ww by simp
  qed
  from loop_once_jobs [OF assms(1,2) d w(1-3)] w(4) obtain w' where
    "loop_once pb usr run arrive (el_polling_ms (pb_loop pb ?w)) ?w = Inr w'" "el_state (pb_loop pb w') = ES_STOP"
    by blast
  then have "start_loop pb usr run tid' (arrive # rounds) (pb_set_loop pb l w) = Inr w'"
    using l(1) by (simp add: start_loop_def loop_set)
  then show ?thesis using \<open>el_state (pb_loop pb w') = ES_STOP\<close> by blast
qed


subsection \<open>The closures of the library\<close>

lemma call_user_grows:
  assumes "polite pb usr added" "call_user pb usr c w = Inr w'"
  shows "loop_grows (pb_loop pb w) (pb_loop pb w')"
proof -
  let ?w = "upd_loop pb (\<lambda>l. l\<lparr>el_calls := el_calls l @ [c]\<rparr>) w"
  obtain w1 where "usr c ?w = Inr w1" "polite_step (added c) (pb_loop pb ?w) (pb_loop pb w1)" using politeE [OF assms(1)] .
  then show ?thesis using assms(2) by (auto simp: call_user_def polite_step_def loop_grows_def)
qed

lemma submit_request_grows:
  assumes "ev_submit_read_request pb e cb w = Inr w'"
  shows "pb_loop pb w' = pb_loop pb w"
  using assms by (auto simp: ev_submit_read_request_def service_submit_async_read_def with_poll_def elim!: bindE_InrE
      split: if_splits dest!: read_loop)

lemma inotify_loop_keeps:
  assumes "\<And>c w w'. call_user pb usr c w = Inr w' \<Longrightarrow> P (pb_loop pb w) \<Longrightarrow> P (pb_loop pb w')"
  shows "inotify_loop pb usr e recs off len w = Inr w' \<Longrightarrow> P (pb_loop pb w) \<Longrightarrow> P (pb_loop pb w')"
proof (induction recs arbitrary: off w)
  case (Cons rec recs)
  obtain wd n where [simp]: "rec = (wd, n)" by (cases rec)
  show ?case
  proof (cases "off < len")
    case True
    then obtain x w1 where "ev_get pb e w = Inr x" and
        1: "(case ev_watches x wd of None \<Rightarrow> Inr w | Some n \<Rightarrow> call_user pb usr (L_Watch n) w) = Inr w1" and
        2: "inotify_loop pb usr e recs (off + (SIZEOF_INOTIFY_EVENT + n)) len w1 = Inr w'"
      using Cons.prems by (auto elim!: bindE_InrE)
    have "P (pb_loop pb w1)" using 1 assms Cons.prems(2) by (auto split: option.splits)
    then show ?thesis using Cons.IH [OF 2] by blast
  qed (use Cons.prems in auto)
qed (auto split: if_splits)

text \<open>
  What the user functions, the timer of the loop and the timers of the backend keep, every
  closure of the library keeps.
\<close>

lemma run_closure_keeps:
  assumes user: "\<And>c w w'. call_user pb usr c w = Inr w' \<Longrightarrow> P (pb_loop pb w) \<Longrightarrow> P (pb_loop pb w')"
    and timer: "\<And>l r l'. on_timer l = Inr (r, l') \<Longrightarrow> P l \<Longrightarrow> P l'"
    and tmo: "\<And>t r w w'. tmo t r w = Inr w' \<Longrightarrow> P (pb_loop pb w) \<Longrightarrow> P (pb_loop pb w')"
  shows "run_keeps P (pb_loop pb) (run_closure pb usr tmo)"
  unfolding run_keeps_def
proof (intro allI impI)
  fix n r w w' assume run: "run_closure pb usr tmo n r w = Inr w'" and P: "P (pb_loop pb w)"
  have kept: "P (pb_loop pb w2)" if "call_user pb usr c w = Inr w1" "ev_submit_read_request pb e None w1 = Inr w2" for c e w1 w2
    using user [OF that(1) P] submit_request_grows [OF that(2)] by simp
  have kept_i: "P (pb_loop pb w2)"
    if "inotify_loop pb usr e recs off len w = Inr w1" "ev_submit_read_request pb e None w1 = Inr w2" for e recs off len w1 w2
    using inotify_loop_keeps [where P = P, OF user that(1) P] submit_request_grows [OF that(2)] by simp
  show "P (pb_loop pb w')"
  proof (cases "el_closures (pb_loop pb w) ! n")
    case (Cl_User u)
    then show ?thesis using run P user by (auto simp: run_closure_def Let_def split: if_splits)
  next
    case (Cl_Ready e fd b)
    then show ?thesis using run P user
      by (auto simp: run_closure_def handle_event_ready_def handle_read_ready_def handle_write_ready_def Let_def elim!: bindE_InrE
          split: if_splits dest!: submit_request_grows)
  next
    case (Cl_Timer t)
    then show ?thesis using run P tmo by (auto simp: run_closure_def Let_def split: if_splits)
  next
    case Cl_On_Timer
    then show ?thesis using run P timer
      by (auto simp: run_closure_def Let_def loop_set elim!: bindE_InrE split: if_splits)
  next
    case (Cl_Handle e)
    then show ?thesis using run P kept kept_i
      by (auto simp: run_closure_def notifier_handle_notify_def handle_signal_def inotify_handle_notify_def Let_def elim!: bindE_InrE
          split: if_splits event_class.splits option.splits)
  qed
qed

lemma on_timer_grows: "on_timer l = Inr (r, l') \<Longrightarrow> loop_grows l0 l \<Longrightarrow> loop_grows l0 l'"
  by (auto simp: on_timer_def loop_grows_def elim!: bindE_InrE)

lemma run_closure_grows:
  assumes "polite pb usr added"
    "\<And>t r w w'. tmo t r w = Inr w' \<Longrightarrow> loop_grows l0 (pb_loop pb w) \<Longrightarrow> loop_grows l0 (pb_loop pb w')"
  shows "run_keeps (loop_grows l0) (pb_loop pb) (run_closure pb usr tmo)"
  by (rule run_closure_keeps)
    (blast intro: loop_grows_trans call_user_grows [OF assms(1)] on_timer_grows assms(2))+

subsection \<open>Closing an event object\<close>

lemma ev_get_set [simp]: "ev_get pb e (ev_set pb e x w) = Inr x"
  by (simp add: ev_get_def ev_set_def)

lemma ev_getE:
  assumes "ev_get pb e w = Inr x"
  shows "el_events (pb_loop pb w) e = Some x"
  using assms by (simp add: ev_get_def split: option.splits)

lemma remove_event_loop:
  assumes "service_remove_event pb e w = Inr w1"
  shows "el_events (pb_loop pb w1) = el_events (pb_loop pb w)" "el_poll (pb_loop pb w1) = el_poll (pb_loop pb w)"
  using assms by (auto simp: service_remove_event_def on_loop_def remove_event_def loop_set elim!: bindE_InrE
      split: if_splits option.splits)

lemma event_base_close_eq:
  assumes "event_base_close pb e w = Inr w'" "el_events (pb_loop pb w) e = Some x"
  shows "el_events (pb_loop pb w') e = Some (x\<lparr>eb_fds_evts := [], eb_read_cb := None, eb_write_cb := None,
           eb_cancel_read_cb := None, eb_cancel_write_cb := None\<rparr>)" "el_poll (pb_loop pb w') = el_poll (pb_loop pb w)"
proof -
  have "ev_get pb e w = Inr x" using assms(2) by (simp add: ev_get_def)
  then obtain w1 where 1: "(if eb_service x then service_remove_event pb e w else Inr w) = Inr w1" and
    w': "bindE (ev_get pb e w1) (\<lambda>x. Inr (ev_set pb e (x\<lparr>eb_fds_evts := [], eb_read_cb := None, eb_write_cb := None,
           eb_cancel_read_cb := None, eb_cancel_write_cb := None\<rparr>) w1)) = Inr w'"
    using assms(1) by (auto simp: event_base_close_def elim!: bindE_InrE split: if_splits)
  have "el_events (pb_loop pb w1) = el_events (pb_loop pb w)" "el_poll (pb_loop pb w1) = el_poll (pb_loop pb w)"
    using 1 remove_event_loop by (auto split: if_splits)
  then show "el_events (pb_loop pb w') e = Some (x\<lparr>eb_fds_evts := [], eb_read_cb := None, eb_write_cb := None,
           eb_cancel_read_cb := None, eb_cancel_write_cb := None\<rparr>)" "el_poll (pb_loop pb w') = el_poll (pb_loop pb w)"
    using w' assms(2) by (auto simp: ev_get_def ev_set_def)
qed

lemma closed_notifier_exits:
  assumes "el_events (pb_loop pb w) e = Some x" "eb_class x = Notifier" "eb_service x" "el_poll (pb_loop pb w)"
    "0 \<le> fd_num (ev_fd x)" "notifier_close pb e w = Inr (0, w')" "0 \<le> ret"
  shows "handle_event_ready pb usr e ret fd True w' = Inl Assert_Exit"
proof -
  obtain w1 where w1: "event_base_close pb e w = Inr w1"
      "w' = ev_set pb e ((x\<lparr>eb_fds_evts := [], eb_read_cb := None, eb_write_cb := None,
           eb_cancel_read_cb := None, eb_cancel_write_cb := None\<rparr>)\<lparr>ev_fd := fst (snd (fd_close (ev_fd x))), eb_state := EVENT_CLOSED\<rparr>) w1"
    using assms(1,6) event_base_close_eq(1)
    by (auto simp: notifier_close_def ev_get_def elim!: bindE_InrE split: if_splits option.splits)
  have "el_poll (pb_loop pb w')" using event_base_close_eq(2) [OF w1(1) assms(1)] assms(4) w1(2) by (simp add: ev_set_def)
  moreover have "fd_num (fst (snd (fd_close (ev_fd x)))) < 0" using assms(5) by (simp add: fd_close_def INVALID_FD_def)
  ultimately show ?thesis using assms(2,3,7) w1(2)
    by (simp add: handle_event_ready_def handle_read_ready_def ev_submit_read_request_def service_submit_async_read_def with_poll_def
        read_refused)
qed

lemma closed_signal_crashes:
  assumes "el_events (pb_loop pb w) e = Some x" "eb_class x = Signal_Event" "signal_close pb e w = Inr (0, w')" "0 \<le> ret"
  shows "handle_event_ready pb usr e ret fd True w' = Inl Null_Deref"
proof -
  obtain w1 y where "w' = ev_set pb e y w1" "\<not> eb_service y" "eb_class y = Signal_Event"
    using assms(1,2,3) event_base_close_eq(1)
    by (auto simp: signal_close_def ev_get_def elim!: bindE_InrE split: if_splits option.splits)
  then show ?thesis using assms(4) by (simp add: handle_event_ready_def handle_read_ready_def ev_submit_read_request_def)
qed

lemma notification_delivered:
  assumes "el_events (pb_loop pb w) e = Some x" "eb_class x = Notifier" "ev_handler x = Some n" "0 < ret"
    "call_user pb usr (L_Notify n) w = Inr w1" "el_events (pb_loop pb w1) e = Some y" "eb_service y" "el_poll (pb_loop pb w1)"
    "pb_submit_async_read pb (ev_fd y) (Some [ev_iov y]) 1 None None w1 = Inr (0, w2)" "eb_class y = Notifier"
  shows "notifier_handle_notify pb usr e ret w = Inr w2"
  using assms by (simp add: notifier_handle_notify_def ev_get_def ev_submit_read_request_def service_submit_async_read_def with_poll_def)

subsection \<open>Instructions keep the registration\<close>

lemma submit_ready_loop:
  assumes "submit_ready pb e fd is_read w = Inr w'"
  shows "\<exists>cs. pb_loop pb w' = (pb_loop pb w)\<lparr>el_closures := cs\<rparr>"
  using assms by (auto simp: submit_ready_def new_closure_def Let_def loop_set elim!: bindE_InrE dest!: read_loop write_loop split: if_splits)

lemma submit_fds_loop:
  assumes "submit_fds pb e fds w = Inr w'"
  shows "\<exists>cs. pb_loop pb w' = (pb_loop pb w)\<lparr>el_closures := cs\<rparr>"
  using assms
proof (induction fds arbitrary: w)
  case Nil
  then show ?case by (intro exI [of _ "el_closures (pb_loop pb w)"]) simp
next
  case (Cons f fds)
  have step: "\<exists>cs. pb_loop pb v = (pb_loop pb u)\<lparr>el_closures := cs\<rparr>" if "(if c then submit_ready pb e fd b u else Inr u) = Inr v" for c fd b u v
    using that submit_ready_loop by (cases c) (auto intro: exI [of _ "el_closures (pb_loop pb u)"])
  obtain fd evts w1 w2 where
    "(if evts AND EV_READ \<noteq> 0 then submit_ready pb e fd True w else Inr w) = Inr w1"
    "(if evts AND EV_WRITE \<noteq> 0 then submit_ready pb e fd False w1 else Inr w1) = Inr w2" and f: "submit_fds pb e fds w2 = Inr w'"
    using Cons.prems by (cases f) (auto elim!: bindE_InrE)
  then have "\<exists>cs. pb_loop pb w1 = (pb_loop pb w)\<lparr>el_closures := cs\<rparr>" "\<exists>cs. pb_loop pb w2 = (pb_loop pb w1)\<lparr>el_closures := cs\<rparr>"
    using step by blast+
  with Cons.IH [OF f] show ?case by auto
qed

lemma call_user_safe:
  assumes "usr_safe pb usr" "loop_safe D (pb_loop pb w)" "call_user pb usr c w = Inr w'"
  shows "loop_safe D (pb_loop pb w')"
  using assms(1) [unfolded usr_safe_def, rule_format, OF assms(3) [unfolded call_user_def]] assms(2) by simp

lemma on_started_safe:
  assumes "usr_safe pb usr" "loop_safe D (pb_loop pb w)" "on_started pb usr e ok w = Inr w'"
  shows "loop_safe D (pb_loop pb w')"
  using assms(2,3) call_user_safe [OF assms(1,2)]
  by (auto simp: on_started_def base_on_started_def ev_set_def loop_safe_event elim!: bindE_InrE split: if_splits)

lemma process_add_safe:
  assumes "usr_safe pb usr" "loop_safe D (pb_loop pb w)" "li_evt info \<in> D" "process_add_instruction pb usr info w = Inr w'"
  shows "loop_safe D (pb_loop pb w')"
proof -
  let ?e = "li_evt info"
  obtain x where x: "el_events (pb_loop pb w) ?e = Some x" using assms(2,3) by (auto simp: loop_safe_def)
  show ?thesis
  proof (cases "?e \<in> set (if eb_type x = EVENT_NORMAL then el_handlers (pb_loop pb w) else el_busy (pb_loop pb w))")
    case True
    then show ?thesis using assms x by (auto simp: process_add_instruction_def ev_get_def Let_def)
  next
    case False
    let ?f = "\<lambda>l. if eb_type x = EVENT_NORMAL then l\<lparr>el_handlers := set_insert ?e (el_handlers l)\<rparr> else l\<lparr>el_busy := set_insert ?e (el_busy l)\<rparr>"
    obtain w1 where w1: "submit_fds pb ?e (li_fds_evts info) (upd_loop pb ?f w) = Inr w1" "on_started pb usr ?e True w1 = Inr w'"
      using assms(4) x False by (auto simp: process_add_instruction_def ev_get_def Let_def elim!: bindE_InrE)
    have "loop_safe D (?f (pb_loop pb w))" using assms(2) x by (auto simp: loop_safe_def set_insert_def)
    then have "loop_safe D (pb_loop pb w1)" using submit_fds_loop [OF w1(1)] by auto
    then show ?thesis using on_started_safe [OF assms(1)] w1(2) by blast
  qed
qed

lemma cancel_fds_keeps:
  assumes "run_keeps P (pb_loop pb) run"
  shows "P (pb_loop pb w) \<Longrightarrow> cancel_fds pb run e fds suc w = Inr (ok, w') \<Longrightarrow> P (pb_loop pb w')"
proof (induction fds arbitrary: suc w)
  case (Cons f fds)
  obtain fd evt where f: "f = (fd, evt)" by (cases f)
  obtain p where "(if evt AND EV_READ \<noteq> 0 then bindE (ev_get pb e w) (\<lambda>x. pb_cancel_async_read pb run fd (eb_cancel_read_cb x) w)
        else Inr (0, w)) = Inr p"
    using Cons.prems(2) unfolding f cancel_fds.simps by (elim bindE_InrE) blast
  then obtain ret w1 where 1: "(if evt AND EV_READ \<noteq> 0 then bindE (ev_get pb e w) (\<lambda>x. pb_cancel_async_read pb run fd (eb_cancel_read_cb x) w)
        else Inr (0, w)) = Inr (ret, w1)"
    by (cases p) simp
  then have P1: "P (pb_loop pb w1)"
    using Cons.prems(1) cancel_read_keeps [OF assms] by (auto elim!: bindE_InrE split: if_splits)
  show ?case
  proof (cases "ret = 0")
    case False
    then show ?thesis using Cons.prems(2) 1 f Cons.IH [OF P1] by simp
  next
    case True
    obtain ret2 w2 where 2: "(if evt AND EV_WRITE \<noteq> 0 then bindE (ev_get pb e w1) (\<lambda>x. pb_cancel_async_write pb run fd (eb_cancel_write_cb x) w1)
          else Inr (0, w1)) = Inr (ret2, w2)" "cancel_fds pb run e fds (suc \<and> ret2 = 0) w2 = Inr (ok, w')"
      using Cons.prems(2) unfolding f cancel_fds.simps 1 bindE_simps(2) prod.case True
      by simp (elim bindE_InrE; simp only: split_paired_all prod.case)
    then have "P (pb_loop pb w2)"
      using P1 cancel_write_keeps [OF assms] by (auto elim!: bindE_InrE split: if_splits)
    then show ?thesis using Cons.IH 2(2) by blast
  qed
qed simp

lemma on_stopped_safe:
  assumes "usr_safe pb usr" "loop_safe D (pb_loop pb w)" "on_stopped pb usr e ok w = Inr w'"
  shows "loop_safe D (pb_loop pb w')"
  using assms(2,3) call_user_safe [OF assms(1)]
  by (auto simp: on_stopped_def ev_set_def loop_safe_event elim!: bindE_InrE split: if_splits option.splits)

lemma process_remove_safe:
  assumes "usr_safe pb usr" "run_keeps (loop_safe D) (pb_loop pb) run" "loop_safe D (pb_loop pb w)"
    "process_remove_instruction pb usr run info w = Inr w'"
  shows "loop_safe D (pb_loop pb w')"
proof -
  let ?e = "li_evt info"
  let ?f = "\<lambda>n l. l\<lparr>el_busy := remove1 ?e (el_busy l), el_handlers := (if n then remove1 ?e (el_handlers l) else el_handlers l)\<rparr>"
  let ?w = "\<lambda>n. upd_loop pb (?f n) (upd_loop pb (\<lambda>l. l\<lparr>el_removed := set_insert ?e (el_removed l)\<rparr>) w)"
  obtain c n ok w1 where
    1: "(if c then cancel_fds pb run ?e (li_fds_evts info) True (?w n) else Inr (True, ?w n)) = Inr (ok, w1)"
      "on_stopped pb usr ?e ok w1 = Inr w'"
    using assms(4) unfolding process_remove_instruction_def Let_def
    by (elim bindE_InrE; simp only: split_paired_all prod.case)
  have "loop_safe D (?f n l)" if "loop_safe D l" for l :: "'x event_loop_scheme"
    using that set_remove1_subset [of ?e "el_busy l"] set_remove1_subset [of ?e "el_handlers l"] by (auto simp: loop_safe_def)
  then have "loop_safe D (pb_loop pb (?w n))" using assms(3) by (simp only: upd_loop_simps loop_safe_simps)
  then have "loop_safe D (pb_loop pb w1)" using 1(1) cancel_fds_keeps [OF assms(2)]
    by (cases c; simp only: if_True if_False sum.inject prod.inject)
  then show ?thesis using on_stopped_safe [OF assms(1)] 1(2) by blast
qed

lemma instructions_safe:
  assumes "usr_safe pb usr" "run_keeps (loop_safe D) (pb_loop pb) run"
  shows "loop_safe D (pb_loop pb w) \<Longrightarrow> li_evt ` set infos \<subseteq> D \<Longrightarrow> instructions_loop pb usr run infos w = Inr w' \<Longrightarrow>
    loop_safe D (pb_loop pb w')"
proof (induction infos arbitrary: w)
  case (Cons i infos)
  obtain w1 where "(if li_instruction i = EI_REMOVE then process_remove_instruction pb usr run i w else process_add_instruction pb usr i w) = Inr w1"
      and 2: "instructions_loop pb usr run infos w1 = Inr w'"
    using Cons.prems(3) by (auto elim!: bindE_InrE)
  then have "loop_safe D (pb_loop pb w1)"
    using process_remove_safe [OF assms Cons.prems(1), of i] process_add_safe [OF assms(1) Cons.prems(1), of i] Cons.prems(2)
    by (auto split: if_splits)
  then show ?case using Cons.IH [OF _ _ 2] Cons.prems(2) by simp
qed simp

lemma on_timer_safe:
  assumes "on_timer l = Inr (r, l')" "loop_safe D l"
  shows "loop_safe D l'"
proof -
  obtain busy where "on_timer_loop (el_events l) (el_handlers l) (el_busy l) = Inr busy" "l' = l\<lparr>el_busy := busy\<rparr>"
    using assms(1) by (auto simp: on_timer_def elim!: bindE_InrE)
  then show ?thesis using on_timer_loop_ok [of "el_handlers l" "el_events l" "el_busy l"] assms(2) by (auto simp: loop_safe_def)
qed

lemma run_closure_safe:
  assumes "usr_safe pb usr"
    "\<And>t r w w'. tmo t r w = Inr w' \<Longrightarrow> loop_safe D (pb_loop pb w) \<Longrightarrow> loop_safe D (pb_loop pb w')"
  shows "run_keeps (loop_safe D) (pb_loop pb) (run_closure pb usr tmo)"
  by (rule run_closure_keeps) (blast intro: call_user_safe [OF assms(1)] on_timer_safe assms(2))+

lemma process_new_safe:
  assumes "usr_safe pb usr" "\<And>D. run_keeps (loop_safe D) (pb_loop pb) run" "loop_safe {} (pb_loop pb w)"
    "process_new_instruction pb usr run w = Inr w'"
  shows "loop_safe {} (pb_loop pb w')"
proof -
  let ?D = "li_evt ` set (el_cache (pb_loop pb w))"
  have "loop_safe ?D (pb_loop pb (upd_loop pb (\<lambda>l. l\<lparr>el_cache := []\<rparr>) w))"
    using assms(3) by (auto simp: loop_safe_def)
  from instructions_safe [OF assms(1,2) this order.refl] show ?thesis
    using assms(4) by (auto simp: process_new_instruction_def loop_safe_def)
qed

lemma busy_loop_safe:
  assumes "usr_safe pb usr"
  shows "loop_safe D (pb_loop pb w) \<Longrightarrow> busy_loop pb usr es w = Inr w' \<Longrightarrow> loop_safe D (pb_loop pb w')"
proof (induction es arbitrary: w)
  case (Cons e es)
  from Cons.prems(2) obtain w1 where w1: "handle_loop_once pb usr e w = Inr w1" "busy_loop pb usr es w1 = Inr w'"
    by (auto elim!: bindE_InrE)
  have "loop_safe D (pb_loop pb w1)" using w1(1) Cons.prems(1) call_user_safe [OF assms Cons.prems(1)]
    by (auto simp: handle_loop_once_def elim!: bindE_InrE split: if_splits option.splits)
  then show ?case using Cons.IH w1(2) by blast
qed simp

lemma run_job_safe:
  assumes "usr_safe pb usr" "loop_safe D (pb_loop pb w)" "run_job pb usr j w = Inr w'"
  shows "loop_safe D (pb_loop pb w')"
  using assms(2,3) call_user_safe [OF assms(1,2)] by (cases j) (auto simp: run_job_def handle_close_def)

lemma same_jobs_safe:
  assumes "usr_safe pb usr"
  shows "loop_safe D (pb_loop pb w) \<Longrightarrow> same_jobs_loop pb usr n w = Inr w' \<Longrightarrow> loop_safe D (pb_loop pb w')"
proof (induction n arbitrary: w)
  case (Suc n)
  then obtain j w1 where w1: "run_job pb usr j w = Inr w1"
      "same_jobs_loop pb usr n (upd_loop pb (\<lambda>l. l\<lparr>el_same_jobs := tl (el_same_jobs l)\<rparr>) w1) = Inr w'"
    by (auto elim!: bindE_InrE split: list.splits if_splits)
  then show ?case using Suc.IH [OF _ w1(2)] run_job_safe [OF assms Suc.prems(1) w1(1)] by simp
qed simp

lemma jobs_loop_safe:
  assumes "usr_safe pb usr"
  shows "loop_safe D (pb_loop pb w) \<Longrightarrow> jobs_loop pb usr js w = Inr w' \<Longrightarrow> loop_safe D (pb_loop pb w')"
  by (induction js arbitrary: w) (auto elim!: bindE_InrE dest: run_job_safe [OF assms])

lemma process_other_safe:
  assumes "usr_safe pb usr" "loop_safe D (pb_loop pb w)" "process_other_thread_job pb usr w = Inr w'"
  shows "loop_safe D (pb_loop pb w')"
proof -
  let ?w = "upd_loop pb (\<lambda>l. l\<lparr>el_other_jobs := el_swap l, el_swap := el_other_jobs l\<rparr>) w"
  obtain w1 where "jobs_loop pb usr (el_swap (pb_loop pb ?w)) ?w = Inr w1" "w' = upd_loop pb (\<lambda>l. l\<lparr>el_swap := []\<rparr>) w1"
    using assms(3) by (auto simp: process_other_thread_job_def Let_def elim!: bindE_InrE)
  moreover have "loop_safe D (pb_loop pb ?w)" using assms(2) by simp
  ultimately show ?thesis using jobs_loop_safe [OF assms(1)] by fastforce
qed

lemma loop_once_safe:
  assumes "usr_safe pb usr" "\<And>D. run_keeps (loop_safe D) (pb_loop pb) run" "loop_safe {} (pb_loop pb w)"
    "loop_once pb usr run arrive t w = Inr w'"
  shows "loop_safe {} (pb_loop pb w')"
proof -
  obtain w1 w2 w3 w4 w5 n t' r where
    1: "(if el_cache (pb_loop pb w) \<noteq> [] then process_new_instruction pb usr run w else Inr w) = Inr w1" and
    2: "busy_loop pb usr (el_busy (pb_loop pb w1)) w1 = Inr w2" and
    3: "same_jobs_loop pb usr n w2 = Inr w3" and
    4: "pb_dispatch pb run t' w3 = Inr (r, w4)" and
    5: "(if el_other_jobs (pb_loop pb (upd_loop pb (\<lambda>l. l\<lparr>el_other_jobs := el_other_jobs l @ arrive\<rparr>) w4)) \<noteq> []
         then process_other_thread_job pb usr (upd_loop pb (\<lambda>l. l\<lparr>el_other_jobs := el_other_jobs l @ arrive\<rparr>) w4)
         else Inr (upd_loop pb (\<lambda>l. l\<lparr>el_other_jobs := el_other_jobs l @ arrive\<rparr>) w4)) = Inr w5" and
    6: "w' = upd_loop pb (\<lambda>l. l\<lparr>el_removed := []\<rparr>) w5"
    using assms(4) unfolding loop_once_def Let_def
    by (elim bindE_InrE, simp only: split_paired_all prod.case, elim bindE_InrE, simp only: sum.inject, blast)
  have "loop_safe {} (pb_loop pb w1)" using 1 assms(3) process_new_safe [OF assms(1,2)] by (auto split: if_splits)
  then have "loop_safe {} (pb_loop pb w4)"
    using dispatch_keeps [OF assms(2) _ 4] same_jobs_safe [OF assms(1) _ 3] busy_loop_safe [OF assms(1) _ 2] by blast
  then have "loop_safe {} (pb_loop pb (upd_loop pb (\<lambda>l. l\<lparr>el_other_jobs := el_other_jobs l @ arrive\<rparr>) w4))" by simp
  moreover have "loop_safe {} (pb_loop pb v')"
    if "(if c then process_other_thread_job pb usr v else Inr v) = Inr v'" "loop_safe {} (pb_loop pb v)" for c v v'
    using that process_other_safe [OF assms(1)] by (cases c) auto
  ultimately have "loop_safe {} (pb_loop pb w5)" using 5 by blast
  then show ?thesis using 6 by simp
qed

lemma loop_while_safe:
  assumes "usr_safe pb usr" "\<And>D. run_keeps (loop_safe D) (pb_loop pb) run"
  shows "loop_safe {} (pb_loop pb w) \<Longrightarrow> loop_while pb usr run rounds w = Inr w' \<Longrightarrow>
     loop_safe {} (pb_loop pb w') \<and> el_state (pb_loop pb w') \<noteq> ES_START"
proof (induction rounds arbitrary: w)
  case (Cons arrive rounds)
  show ?case
  proof (cases "el_state (pb_loop pb w) = ES_START")
    case True
    then obtain w1 where "loop_once pb usr run arrive (el_polling_ms (pb_loop pb w)) w = Inr w1"
        "loop_while pb usr run rounds w1 = Inr w'"
      using Cons.prems(2) by (auto elim!: bindE_InrE)
    then show ?thesis using Cons.IH loop_once_safe [OF assms Cons.prems(1)] by blast
  qed (use Cons.prems in auto)
qed (auto split: if_splits)

end

end
