(* ===== verification/Loop_Frame.thy ===== *)
theory Loop_Frame
  imports Loop_Proofs
begin

text \<open>
  The loop object is extended by its users, the sockets. The functions of the loop do not
  touch the extension: whatever the user functions keep of it, a run of the loop keeps.
\<close>

definition ext :: "('x \<Rightarrow> bool) \<Rightarrow> 'x event_loop_scheme \<Rightarrow> bool" where
  "ext Q l \<longleftrightarrow> Q (event_loop.more l)"

lemma ext_simps [simp]:
  "ext Q (l\<lparr>el_polling_ms := a1\<rparr>) = ext Q l" "ext Q (l\<lparr>el_poll := a2\<rparr>) = ext Q l" "ext Q (l\<lparr>el_handlers := a3\<rparr>) = ext Q l"
  "ext Q (l\<lparr>el_busy := a4\<rparr>) = ext Q l" "ext Q (l\<lparr>el_removed := a5\<rparr>) = ext Q l" "ext Q (l\<lparr>el_cache := a6\<rparr>) = ext Q l"
  "ext Q (l\<lparr>el_thread_id := a7\<rparr>) = ext Q l" "ext Q (l\<lparr>el_state := a8\<rparr>) = ext Q l" "ext Q (l\<lparr>el_other_jobs := a9\<rparr>) = ext Q l"
  "ext Q (l\<lparr>el_same_jobs := a10\<rparr>) = ext Q l" "ext Q (l\<lparr>el_swap := a11\<rparr>) = ext Q l" "ext Q (l\<lparr>el_ntf := a12\<rparr>) = ext Q l"
  "ext Q (l\<lparr>el_timer_id := a13\<rparr>) = ext Q l" "ext Q (l\<lparr>el_events := a14\<rparr>) = ext Q l" "ext Q (l\<lparr>el_next := a15\<rparr>) = ext Q l"
  "ext Q (l\<lparr>el_closures := a16\<rparr>) = ext Q l" "ext Q (l\<lparr>el_writes := a17\<rparr>) = ext Q l" "ext Q (l\<lparr>el_calls := a18\<rparr>) = ext Q l"
  by (simp_all add: ext_def)

definition usr_ext :: "('x, 'w) poll \<Rightarrow> 'w lusr \<Rightarrow> ('x \<Rightarrow> bool) \<Rightarrow> bool" where
  "usr_ext pb usr Q \<longleftrightarrow> (\<forall>c w w'. usr c w = Inr w' \<longrightarrow> ext Q (pb_loop pb w) \<longrightarrow> ext Q (pb_loop pb w'))"

context loop_backend
begin

lemma call_user_ext:
  assumes "usr_ext pb usr Q" "call_user pb usr c w = Inr w'" "ext Q (pb_loop pb w)"
  shows "ext Q (pb_loop pb w')"
  using assms(1) [unfolded usr_ext_def, rule_format, OF assms(2) [unfolded call_user_def]] assms(3) by simp

lemma on_timer_ext: "on_timer l = Inr (r, l') \<Longrightarrow> ext Q l \<Longrightarrow> ext Q (l' :: 'x event_loop_scheme)"
  by (auto simp: on_timer_def elim!: bindE_InrE)

lemma run_closure_ext:
  assumes "usr_ext pb usr Q" "\<And>t r w w'. tmo t r w = Inr w' \<Longrightarrow> ext Q (pb_loop pb w) \<Longrightarrow> ext Q (pb_loop pb w')"
  shows "run_keeps (ext Q) (pb_loop pb) (run_closure pb usr tmo)"
  by (rule run_closure_keeps) (blast intro: call_user_ext [OF assms(1)] on_timer_ext assms(2))+

lemma process_add_ext:
  assumes "usr_ext pb usr Q" "process_add_instruction pb usr info w = Inr w'" "ext Q (pb_loop pb w)"
  shows "ext Q (pb_loop pb w')"
  using assms(2,3) call_user_ext [OF assms(1)]
  by (fastforce simp: process_add_instruction_def on_started_def base_on_started_def ev_set_def Let_def elim!: bindE_InrE
      split: if_splits dest!: submit_fds_loop)

lemma process_remove_ext:
  assumes "usr_ext pb usr Q" "run_keeps (ext Q) (pb_loop pb) run" "process_remove_instruction pb usr run info w = Inr w'" "ext Q (pb_loop pb w)"
  shows "ext Q (pb_loop pb w')"
proof -
  let ?e = "li_evt info"
  let ?f = "\<lambda>n l. l\<lparr>el_busy := remove1 ?e (el_busy l), el_handlers := (if n then remove1 ?e (el_handlers l) else el_handlers l)\<rparr>"
  let ?w = "\<lambda>n. upd_loop pb (?f n) (upd_loop pb (\<lambda>l. l\<lparr>el_removed := set_insert ?e (el_removed l)\<rparr>) w)"
  obtain c n ok w1 where
    1: "(if c then cancel_fds pb run ?e (li_fds_evts info) True (?w n) else Inr (True, ?w n)) = Inr (ok, w1)"
      "on_stopped pb usr ?e ok w1 = Inr w'"
    using assms(3) unfolding process_remove_instruction_def Let_def
    by (elim bindE_InrE; simp only: split_paired_all prod.case)
  have "ext Q (pb_loop pb (?w n))" using assms(4) by (simp only: upd_loop_simps ext_simps)
  then have "ext Q (pb_loop pb w1)" using 1(1) cancel_fds_keeps [OF assms(2)]
    by (cases c; simp only: if_True if_False sum.inject prod.inject)
  then show ?thesis using 1(2) call_user_ext [OF assms(1)]
    by (fastforce simp: on_stopped_def ev_set_def elim!: bindE_InrE split: if_splits option.splits)
qed

lemma instructions_ext:
  assumes "usr_ext pb usr Q" "run_keeps (ext Q) (pb_loop pb) run"
  shows "instructions_loop pb usr run infos w = Inr w' \<Longrightarrow> ext Q (pb_loop pb w) \<Longrightarrow> ext Q (pb_loop pb w')"
proof (induction infos arbitrary: w)
  case (Cons i infos)
  then show ?case using process_add_ext [OF assms(1), of i] process_remove_ext [OF assms, of i]
    by (auto elim!: bindE_InrE split: if_splits)
qed simp

lemma run_job_ext:
  "usr_ext pb usr Q \<Longrightarrow> run_job pb usr j w = Inr w' \<Longrightarrow> ext Q (pb_loop pb w) \<Longrightarrow> ext Q (pb_loop pb w')"
  by (cases j) (auto simp: run_job_def handle_close_def dest: call_user_ext)

lemma jobs_loop_ext:
  assumes "usr_ext pb usr Q"
  shows "jobs_loop pb usr js w = Inr w' \<Longrightarrow> ext Q (pb_loop pb w) \<Longrightarrow> ext Q (pb_loop pb w')"
  by (induction js arbitrary: w) (auto elim!: bindE_InrE dest: run_job_ext [OF assms])

lemma same_jobs_ext:
  assumes "usr_ext pb usr Q"
  shows "same_jobs_loop pb usr n w = Inr w' \<Longrightarrow> ext Q (pb_loop pb w) \<Longrightarrow> ext Q (pb_loop pb w')"
  by (induction n arbitrary: w) (fastforce elim!: bindE_InrE dest: run_job_ext [OF assms] split: list.splits if_splits)+

lemma busy_loop_ext:
  assumes "usr_ext pb usr Q"
  shows "busy_loop pb usr es w = Inr w' \<Longrightarrow> ext Q (pb_loop pb w) \<Longrightarrow> ext Q (pb_loop pb w')"
proof (induction es arbitrary: w)
  case (Cons e es)
  then show ?case using call_user_ext [OF assms]
    by (fastforce simp: handle_loop_once_def elim!: bindE_InrE split: if_splits option.splits)
qed simp

lemma loop_once_ext:
  assumes "usr_ext pb usr Q" "run_keeps (ext Q) (pb_loop pb) run" "loop_once pb usr run arrive t w = Inr w'" "ext Q (pb_loop pb w)"
  shows "ext Q (pb_loop pb w')"
proof -
  obtain w1 w2 w3 w4 w5 n t' r where
    1: "(if el_cache (pb_loop pb w) \<noteq> [] then process_new_instruction pb usr run w else Inr w) = Inr w1" and
    2: "busy_loop pb usr (el_busy (pb_loop pb w1)) w1 = Inr w2" and 3: "same_jobs_loop pb usr n w2 = Inr w3" and
    4: "pb_dispatch pb run t' w3 = Inr (r, w4)" and
    5: "(if el_other_jobs (pb_loop pb (upd_loop pb (\<lambda>l. l\<lparr>el_other_jobs := el_other_jobs l @ arrive\<rparr>) w4)) \<noteq> []
         then process_other_thread_job pb usr (upd_loop pb (\<lambda>l. l\<lparr>el_other_jobs := el_other_jobs l @ arrive\<rparr>) w4)
         else Inr (upd_loop pb (\<lambda>l. l\<lparr>el_other_jobs := el_other_jobs l @ arrive\<rparr>) w4)) = Inr w5" and
    6: "w' = upd_loop pb (\<lambda>l. l\<lparr>el_removed := []\<rparr>) w5"
    using assms(3) unfolding loop_once_def Let_def
    by (elim bindE_InrE, simp only: split_paired_all prod.case, elim bindE_InrE, simp only: sum.inject, blast)
  have "ext Q (pb_loop pb w1)" using 1 assms(4) instructions_ext [OF assms(1,2)] by (auto simp: process_new_instruction_def split: if_splits)
  then have "ext Q (pb_loop pb w4)"
    using dispatch_keeps [OF assms(2) _ 4] same_jobs_ext [OF assms(1) 3] busy_loop_ext [OF assms(1) 2] by blast
  then have "ext Q (pb_loop pb w5)" using 5 jobs_loop_ext [OF assms(1)]
    by (fastforce simp: process_other_thread_job_def Let_def elim!: bindE_InrE split: if_splits)
  then show ?thesis using 6 by simp
qed

lemma loop_while_ext:
  assumes "usr_ext pb usr Q" "run_keeps (ext Q) (pb_loop pb) run"
  shows "loop_while pb usr run rounds w = Inr w' \<Longrightarrow> ext Q (pb_loop pb w) \<Longrightarrow> ext Q (pb_loop pb w')"
proof (induction rounds arbitrary: w)
  case (Cons arrive rounds)
  then show ?case using loop_once_ext [OF assms] by (auto elim!: bindE_InrE split: if_splits)
qed (auto split: if_splits)

lemma start_loop_ext:
  assumes "usr_ext pb usr Q" "run_keeps (ext Q) (pb_loop pb) run" "start_loop pb usr run tid rounds w = Inr w'" "ext Q (pb_loop pb w)"
  shows "ext Q (pb_loop pb w')"
  using loop_while_ext [OF assms(1,2)] assms(3,4) by (auto simp: start_loop_def simp del: loop_while.simps split: if_splits)

text \<open>The destructor of an event object that was closed does not close the descriptor again.\<close>

lemma closed_then_deleted:
  "notifier_close pb e w = Inr (0, w') \<Longrightarrow> \<exists>w''. notifier_delete pb e w' = Inr ([], w'')"
  "inotify_close pb e w = Inr (0, w') \<Longrightarrow> \<exists>w''. inotify_delete pb e w' = Inr ([], w'')"
  by (auto simp: notifier_close_def inotify_close_def notifier_delete_def inotify_delete_def ev_get_def ev_set_def fd_close_def
      elim!: bindE_InrE split: if_splits option.splits)

end

end
