(* ===== verification/Loop_Properties.thy ===== *)
theory Loop_Properties
  imports Backends Loop_Frame
begin

unbundle bit_operations_syntax

text \<open>
  The event loop on the two backends: the instances of the locale \<open>loop_backend\<close>, the
  proof that the closures of the library satisfy what its lemmas ask of the runner, and the
  properties of the loop, of its jobs and of closed events.
\<close>

interpretation epl: loop_backend "epoll_poll env" epoll_is_inited
proof
  fix run s ns cb r and w w' :: "'x epoll_process"
  assume "pb_create_timer (epoll_poll env) run s ns cb w = Inr (r, w')"
  then show "\<exists>cs. pb_loop (epoll_poll env) w' =
      (pb_loop (epoll_poll env) w)\<lparr>el_closures := el_closures (pb_loop (epoll_poll env) w) @ cs\<rparr>"
    by (intro exI [of _ "[Cl_Timer (te_next w)]"]) (auto simp: epoll_poll_def new_closure_def Let_def dest!: epoll_create_timer_more)
qed

interpretation iul: loop_backend "uring_poll env" iu_is_inited
proof
  fix run s ns cb r and w w' :: "'x uring_process"
  assume "pb_create_timer (uring_poll env) run s ns cb w = Inr (r, w')"
  then show "\<exists>cs. pb_loop (uring_poll env) w' =
      (pb_loop (uring_poll env) w)\<lparr>el_closures := el_closures (pb_loop (uring_poll env) w) @ cs\<rparr>"
    using iu_timer_more(1) [of s ns cb w] by (intro exI [of _ "[]"]) (simp add: uring_poll_def)
qed

lemma epoll_poll_loop [simp]:
  "pb_loop (epoll_poll env) = timer_epoll.more" "pb_set_loop (epoll_poll env) l = timer_epoll.more_update (\<lambda>_. l)"
  "pb_cancel_async_read (epoll_poll env) run = epoll_cancel_async_read (ep_usr run)"
  by (simp_all add: epoll_poll_def)

lemma uring_poll_loop [simp]:
  "pb_loop (uring_poll env) = io_uring.more" "pb_set_loop (uring_poll env) l = io_uring.more_update (\<lambda>_. l)"
  by (simp_all add: uring_poll_def)

lemma handle_timeout_keeps:
  assumes "\<And>n c (w :: 'x epoll_process) w'. thr n c w = Inr w' \<Longrightarrow> P (timer_epoll.more w) \<Longrightarrow> P (timer_epoll.more w')"
    "handle_timeout thr t ret w = Inr w'" "P (timer_epoll.more w)"
  shows "P (timer_epoll.more w')"
proof -
  have s: "timer_epoll.more v' = timer_epoll.more v" if "timer_submit_read_request t v = Inr v'" for v v' :: "'x epoll_process"
    using that by (auto simp: timer_submit_read_request_def elim!: bindE_InrE split: if_splits dest!: tpartD(7) [OF submit_read_tpart])
  show ?thesis using assms(2,3)
    by (auto simp: handle_timeout_def call_handler_def elim!: bindE_InrE split: if_splits option.splits dest!: s assms(1))
qed

lemma epoll_runner_keeps:
  assumes "\<And>tmo. (\<And>t r w w'. tmo t r w = Inr w' \<Longrightarrow> P (pb_loop (epoll_poll env) w) \<Longrightarrow> P (pb_loop (epoll_poll env) w')) \<Longrightarrow>
      run_keeps P (pb_loop (epoll_poll env)) (run_closure (epoll_poll env) usr tmo)"
  shows "run_keeps P (pb_loop (epoll_poll env)) (epoll_runner env usr)"
proof -
  let ?run = "run_closure (epoll_poll env) usr (\<lambda>_ _ _. Inl Bad_Function_Call)"
  have "run_keeps P (pb_loop (epoll_poll env)) ?run" by (rule assms) simp
  then have thr: "P (timer_epoll.more w')" if "?run n (Arg_Res (uint c)) w = Inr w'" "P (timer_epoll.more w)" for n c w w'
    using that unfolding run_keeps_def epoll_poll_loop by blast
  show ?thesis unfolding epoll_runner_def
  proof (rule assms)
    fix t r w w'
    assume "handle_timeout (\<lambda>n count. ?run n (Arg_Res (uint count))) t r w = Inr w'" "P (pb_loop (epoll_poll env) w)"
    then show "P (pb_loop (epoll_poll env) w')" unfolding epoll_poll_loop
      by (rule handle_timeout_keeps [where P = P, rotated]) (rule thr)
  qed
qed

lemma epoll_runner_grows:
  "polite (epoll_poll env) usr added \<Longrightarrow> run_keeps (loop_grows l) (pb_loop (epoll_poll env)) (epoll_runner env usr)"
  by (rule epoll_runner_keeps) (rule epl.run_closure_grows)

lemma epoll_runner_safe:
  "usr_safe (epoll_poll env) usr \<Longrightarrow> run_keeps (loop_safe D) (pb_loop (epoll_poll env)) (epoll_runner env usr)"
  by (rule epoll_runner_keeps) (rule epl.run_closure_safe)

lemma uring_runner_grows:
  "polite (uring_poll env) usr added \<Longrightarrow> run_keeps (loop_grows l) (pb_loop (uring_poll env)) (uring_runner env usr)"
  unfolding uring_runner_def by (rule iul.run_closure_grows) simp_all

lemma uring_runner_safe:
  "usr_safe (uring_poll env) usr \<Longrightarrow> run_keeps (loop_safe D) (pb_loop (uring_poll env)) (uring_runner env usr)"
  unfolding uring_runner_def by (rule iul.run_closure_safe) simp_all

subsection \<open>Rounds of the loop\<close>


lemma uring_start_after_close:
  fixes w :: "'x uring_process"
  assumes "polite (uring_poll env) usr added" "iu_ring w = Some r" "fst (wait_cqe_timeout (ue_wait env) r) \<le> 0"
    "el_cache (io_uring.more w) = []" "el_busy (io_uring.more w) = []" "el_swap (io_uring.more w) = []" "el_same_jobs (io_uring.more w) = []"
    "tid \<noteq> el_thread_id (io_uring.more w)" "service_close (uring_poll env) tid w = Inr (0, w1)"
  shows "\<exists>w'. start_loop (uring_poll env) usr (uring_runner env usr) tid' (arrive # rounds) w1 = Inr w' \<and>
     el_state (io_uring.more w') = ES_STOP"
proof -
  from assms(9) obtain l where l: "loop_close tid (io_uring.more w) = Inr (0, l)" "w1 = io_uring.more_update (\<lambda>_. l) w"
    by (auto simp: service_close_def elim!: bindE_InrE)
  have "\<exists>r w1. pb_dispatch (uring_poll env) (uring_runner env usr) t (io_uring.more_update (\<lambda>_. l') w) = Inr (r, w1)" for t l'
    using assms(2,3) by (auto simp: uring_poll_def iu_dispatch_def iu_get_ring_def Let_def split: prod.splits)
  with iul.start_after_close [where env = env and w = w, OF assms(1) uring_runner_grows [OF assms(1)], unfolded uring_poll_loop,
      OF assms(4-8) l(1)] l(2)
  show ?thesis by blast
qed

text \<open>
  C9. A loop that another thread has closed ends: when the loop is started again, on the
  completion backend with no completion to deliver, it makes one round, in which the queued
  close job runs, and \<^verbatim>\<open>start_loop\<close> returns with the state \<^verbatim>\<open>STOP\<close>, whatever jobs arrive.
\<close>

theorem closed_loop_returns:
  fixes w :: "'x uring_process"
  assumes "polite (uring_poll env) usr added" "iu_ring w = Some r" "fst (wait_cqe_timeout (ue_wait env) r) \<le> 0"
    "el_cache (io_uring.more w) = []" "el_busy (io_uring.more w) = []" "el_swap (io_uring.more w) = []" "el_same_jobs (io_uring.more w) = []"
    "tid \<noteq> el_thread_id (io_uring.more w)" "service_close (uring_poll env) tid w = Inr (0, w1)"
  shows "\<exists>w'. start_loop (uring_poll env) usr (uring_runner env usr) tid' (arrive # rounds) w1 = Inr w' \<and>
     el_state (io_uring.more w') = ES_STOP"
  by (rule uring_start_after_close [OF assms])



subsection \<open>Closed events\<close>

text \<open>
  A notifier that is closed while a readiness of its descriptor is on the way ends the
  process: the callback of the readiness submits the next read with the descriptor \<^verbatim>\<open>close\<close>
  has set to the invalid one, the backend refuses, and the assertion on the result fails.
\<close>

theorem closed_notifier_readiness_exits:
  fixes w :: "'x epoll_process"
  assumes "el_events (timer_epoll.more w) e = Some x" "eb_class x = Notifier" "eb_service x" "el_poll (timer_epoll.more w)"
    "0 \<le> fd_num (ev_fd x)" "notifier_close (epoll_poll env) e w = Inr (0, w')" "0 \<le> ret"
  shows "handle_event_ready (epoll_poll env) usr e ret fd True w' = Inl Assert_Exit"
  by (rule epl.closed_notifier_exits [where env = env, unfolded epoll_poll_loop, OF assms])

text \<open>
  A signal event that is closed while a readiness of its descriptor is on the way follows a
  null pointer: \<^verbatim>\<open>close\<close> clears the pointer to the service, and the callback of the readiness
  submits the next read through it without looking at \<^verbatim>\<open>is_active_\<close>.
\<close>

theorem closed_signal_readiness_crashes:
  fixes w :: "'x uring_process"
  assumes "el_events (io_uring.more w) e = Some x" "eb_class x = Signal_Event" "signal_close (uring_poll env) e w = Inr (0, w')" "0 \<le> ret"
  shows "handle_event_ready (uring_poll env) usr e ret fd True w' = Inl Null_Deref"
  by (rule iul.closed_signal_crashes [where env = env, unfolded uring_poll_loop, OF assms])

text \<open>
  On the readiness backend the stop handler of a notifier is never called: \<^verbatim>\<open>close\<close> clears
  the cancel callback before the loop removes the event, the backend answers a cancellation
  without callback with an error, and the loop then skips \<^verbatim>\<open>on_stopped\<close>'s handler. The event is
  removed from both sets all the same.
\<close>

theorem epoll_stop_handler_skipped:
  fixes w :: "'x epoll_process"
  assumes "el_events (timer_epoll.more w) (li_evt info) = Some x" "eb_cancel_read_cb x = None" "eb_type x = EVENT_NORMAL"
    "li_fds_evts info = [(fd, EV_READ)]" "li_evt info \<in> set (el_handlers (timer_epoll.more w))"
    "loop_safe {} (timer_epoll.more w)"
    "process_remove_instruction (epoll_poll env) usr run info w = Inr w'"
  shows "el_calls (timer_epoll.more w') = el_calls (timer_epoll.more w) \<and>
     li_evt info \<notin> set (el_handlers (timer_epoll.more w')) \<union> set (el_busy (timer_epoll.more w'))"
proof -
  let ?e = "li_evt info"
  let ?l = "(timer_epoll.more w)\<lparr>el_removed := set_insert ?e (el_removed (timer_epoll.more w)),
     el_busy := remove1 ?e (el_busy (timer_epoll.more w)), el_handlers := remove1 ?e (el_handlers (timer_epoll.more w))\<rparr>"
  let ?w = "timer_epoll.more_update (\<lambda>_. ?l) w"
  obtain r w1 where c: "epoll_cancel_async_read (ep_usr run) fd None ?w = Inr (r, w1)"
    and s: "on_stopped (epoll_poll env) usr ?e (r = 0) w1 = Inr w'"
    using assms(1-5,7)
    by (auto simp: process_remove_instruction_def upd_loop_def ev_get_def EV_READ_def EV_WRITE_def Let_def elim!: bindE_InrE split: if_splits)
  have "r = - 1" using c by (auto simp: epoll_cancel_async_read_def elim!: bindE_InrE split: if_splits option.splits)
  moreover have "timer_epoll.more w1 = ?l" using tpartD(7) [OF cancel_read_tpart [OF c]] by simp
  ultimately have "timer_epoll.more w' = ?l" using s by (auto simp: on_stopped_def ev_get_def elim!: bindE_InrE split: option.splits)
  then show ?thesis using assms(6) by (simp add: loop_safe_def)
qed

subsection \<open>Concrete runs\<close>

definition sample_process :: "'x event_loop_scheme \<Rightarrow> 'x epoll_process" where
  "sample_process l = timer_epoll.extend sample_timer_epoll l"

definition sample_epoll_env :: epoll_env where
  "sample_epoll_env = \<lparr>ee_created = 3, ee_alloc = (\<lambda>_. None), ee_timer = sample_timer_env, ee_addr = 64, ee_wait = Inr []\<rparr>"

definition sample_uring_process :: "'x event_loop_scheme \<Rightarrow> 'x uring_process" where
  "sample_uring_process l = io_uring.extend sample_uring l"

definition sample_uring_env :: uring_env where
  "sample_uring_env =
     \<lparr>ue_setup = (\<lambda>_ p. (4, p)), ue_maps = (None, None, None),
      ue_rings = \<lparr>kr_sq_mask = 1, kr_sq_entries = 2, kr_cq_mask = 1, kr_cq_entries = 2, kr_sqes = [], kr_cqes = []\<rparr>,
      ue_fresh = idle_wrapper, ue_reg = None, ue_mem = Inr 0, ue_alloc = (\<lambda>_. None), ue_unmap = None, ue_wait = Inl ETIME,
      ue_late = []\<rparr>"

lemma sample_process_simps [simp]:
  "timer_epoll.more (sample_process l) = l" "timer_epoll.more_update (\<lambda>_. l') (sample_process l) = sample_process l'"
  "ep_change (sample_process l) = []" "ep_ready (sample_process l) = []" "ep_table (sample_process l) = opt_map_empty MAX_FD"
  "(sample_process l)\<lparr>ep_removed := []\<rparr> = sample_process l"
  by (simp_all add: sample_process_def sample_timer_epoll_def epoll_init_def epoll_new_def timer_epoll.defs epoll.defs Let_def)

lemma sample_uring_process_simps [simp]:
  "io_uring.more (sample_uring_process l) = l" "io_uring.more_update (\<lambda>_. l') (sample_uring_process l) = sample_uring_process l'"
  "iu_ring (sample_uring_process l) = Some idle_wrapper"
  by (simp_all add: sample_uring_process_def sample_uring_def io_uring_new_def io_uring.defs)

lemma sample_dispatch [simp]:
  "pb_dispatch (epoll_poll sample_epoll_env) run t (sample_process l) = Inr (0, sample_process l)"
  by (simp add: epoll_poll_def epoll_dispatch_def sample_epoll_env_def do_ready_tasks_def Let_def)

lemma quiet_users:
  "polite pb (\<lambda>_. Inr) (\<lambda>_. [])" "usr_safe pb (\<lambda>_. Inr)"
  by (simp_all add: polite_def polite_step_def usr_safe_def)

lemma sample_upd [simp]: "upd_loop (epoll_poll env) f (sample_process l) = sample_process (f l)"
  by (simp add: upd_loop_def)

definition busy_queue :: event_loop where
  "busy_queue = event_loop_new\<lparr>el_same_jobs := [Job 1, Job 2], el_other_jobs := [Job 3]\<rparr>"


theorem closed_loop_returns_witness:
  "\<exists>w1 w'. service_close (uring_poll sample_uring_env) 7 (sample_uring_process event_loop_new) = Inr (0, w1) \<and>
     start_loop (uring_poll sample_uring_env) (\<lambda>_. Inr) (uring_runner sample_uring_env (\<lambda>_. Inr)) 1 [[], []] w1 = Inr w' \<and>
     el_state (io_uring.more w') = ES_STOP"
proof -
  obtain w1 where w1: "service_close (uring_poll sample_uring_env) 7 (sample_uring_process event_loop_new) = Inr (0, w1)"
    by (simp add: service_close_def loop_close_def run_in_event_loop_def wake_up_def event_loop_new_def)
  then show ?thesis using closed_loop_returns [OF quiet_users(1) _ _ _ _ _ _ _ w1, of idle_wrapper 1 "[]" "[[]]"]
    by (auto simp: event_loop_new_def sample_uring_env_def wait_cqe_timeout_def)
qed


definition sample_event :: "event_class \<Rightarrow> event_base" where
  "sample_event c = (event_base_new c (mk_iovec 64 8))\<lparr>eb_state := EVENT_OPENED, eb_service := True, ev_fd := mk_fd 7 EVENT_FD\<rparr>"

definition sample_loop :: "event_class \<Rightarrow> event_loop" where
  "sample_loop c = event_loop_new\<lparr>el_poll := True, el_state := ES_INIT, el_handlers := [0, 1],
     el_events := [0 \<mapsto> sample_event c, 1 \<mapsto> (sample_event c)\<lparr>ev_raise := True\<rparr>]\<rparr>"

lemma sample_loop_safe: "loop_safe {} (sample_loop c)"
  by (simp add: loop_safe_def sample_loop_def event_loop_new_def)

lemmas sample_event_defs = sample_event_def sample_loop_def event_base_new_def event_loop_new_def mk_fd_def


lemmas close_defs = event_base_close_def service_remove_event_def remove_event_def on_loop_def ev_get_def ev_set_def upd_loop_def

theorem closed_notifier_readiness_exits_witness:
  "\<exists>w'. notifier_close (epoll_poll sample_epoll_env) 0 (sample_process (sample_loop Notifier)) = Inr (0, w') \<and>
     handle_event_ready (epoll_poll sample_epoll_env) (\<lambda>_. Inr) 0 1 (mk_fd 7 EVENT_FD) True w' = Inl Assert_Exit"
proof -
  obtain w' where w': "notifier_close (epoll_poll sample_epoll_env) 0 (sample_process (sample_loop Notifier)) = Inr (0, w')"
    by (simp add: notifier_close_def close_defs sample_event_defs)
  from closed_notifier_readiness_exits [OF _ _ _ _ _ w', of "sample_event Notifier" 1 "\<lambda>_. Inr" "mk_fd 7 EVENT_FD"] w' show ?thesis
    by (auto simp: sample_event_defs)
qed

theorem closed_signal_readiness_crashes_witness:
  "\<exists>w'. signal_close (uring_poll sample_uring_env) 0 (sample_uring_process (sample_loop Signal_Event)) = Inr (0, w') \<and>
     handle_event_ready (uring_poll sample_uring_env) (\<lambda>_. Inr) 0 1 (mk_fd 7 EVENT_FD) True w' = Inl Null_Deref"
proof -
  obtain w' where w': "signal_close (uring_poll sample_uring_env) 0 (sample_uring_process (sample_loop Signal_Event)) = Inr (0, w')"
    by (simp add: signal_close_def close_defs sample_event_defs)
  from closed_signal_readiness_crashes [OF _ _ w', of "sample_event Signal_Event" 1 "\<lambda>_. Inr" "mk_fd 7 EVENT_FD"] w' show ?thesis
    by (auto simp: sample_event_defs)
qed

lemma sample_process_ok: "epoll_wf (sample_process l)" "epoll_is_inited (sample_process l)"
  by (simp_all add: sample_process_def sample_timer_epoll_def epoll_init_def epoll.defs timer_epoll.defs epoll_new_def epoll_wf_def epoll_is_inited_def
      table_ok_def infos_ok_def change_ok_def queues_ok_def opt_map_find_clear mk_fd_def INVALID_FD_def Let_def)

lemma sample_submit:
  obtains h where "\<forall>c l. epoll_submit_async_read (mk_fd 8 TCP_FD) None 0 (Some c) None (sample_process l) = Inr (0, h c l)"
    "\<forall>c l. timer_epoll.more (h c l :: 'x epoll_process) = l"
proof -
  have "\<exists>w'. epoll_submit_async_read (mk_fd 8 TCP_FD) None 0 (Some c) None (sample_process l) = Inr (0, w') \<and> timer_epoll.more w' = l"
    for c and l :: "'x event_loop_scheme"
    using submit_read_queued [OF sample_process_ok [of l], of "mk_fd 8 TCP_FD" 0 None "Some c" None]
      ep.read_loop [of sample_epoll_env "mk_fd 8 TCP_FD" None 0 "Some c" None "sample_process l" 0]
    by (auto simp: mk_fd_def epoll_poll_def)
  then show ?thesis using that by metis
qed

lemma sample_cancel [simp]: "epoll_cancel_async_read usr fd cb (sample_process l) = Inr (- 1, sample_process l)"
  by (simp add: epoll_cancel_async_read_def opt_map_find_clear)

theorem epoll_stop_handler_skipped_witness:
  "\<exists>w'. process_remove_instruction (epoll_poll sample_epoll_env) (\<lambda>_. Inr) (\<lambda>_ _. Inr)
       \<lparr>li_evt = 0, li_instruction = EI_REMOVE, li_fds_evts = [(mk_fd 7 EVENT_FD, EV_READ)]\<rparr> (sample_process (sample_loop Notifier)) = Inr w' \<and>
     el_calls (timer_epoll.more w') = []"
proof -
  let ?info = "\<lparr>li_evt = 0, li_instruction = EI_REMOVE, li_fds_evts = [(mk_fd 7 EVENT_FD, EV_READ)]\<rparr>"
  obtain w' where w': "process_remove_instruction (epoll_poll sample_epoll_env) (\<lambda>_. Inr) (\<lambda>_ _. Inr) ?info (sample_process (sample_loop Notifier)) = Inr w'"
    by (simp add: process_remove_instruction_def on_stopped_def ev_get_def EV_READ_def sample_event_defs Let_def)
  from epoll_stop_handler_skipped [OF _ _ _ _ _ _ w', of "sample_event Notifier" "mk_fd 7 EVENT_FD"] w' sample_loop_safe show ?thesis
    by (auto simp: sample_event_defs)
qed

end
