(* ===== verification/Socket_State.thy ===== *)
theory Socket_State
  imports Event_Service
begin

unbundle bit_operations_syntax

text \<open>
  The data of include/socket/tcp_socket.h and include/socket/udp_socket.h, and the functions
  of the two sources that only ask the kernel. The classes derive from \<^verbatim>\<open>event_base\<close>: the
  base part of an object is in \<open>el_events\<close>, with the class \<open>Derived_Event\<close>, and its own
  members are in a table of the extended loop state under the same address. Shared data
  objects have addresses of their own.

  The answers of the kernel to the system calls of the sockets are a list in the state, and a
  call takes the first one; the user's functions have numbers, \<open>sk_calls\<close> logs their calls,
  and what they do is the function \<open>tusr\<close>. The closures the sockets and the application hand
  to the service are user functions of the service, numbered by their position in
  \<open>sk_closures\<close>.
\<close>

subsection \<open>Addresses\<close>

text \<open>\<^verbatim>\<open>sockaddr_in\<close>, with the fields in network byte order as the code stores them.\<close>

record sockaddr =
  sa_addr :: u32
  sa_port :: u16

definition htons :: "u16 \<Rightarrow> u16" where
  "htons p = push_bit 8 p OR drop_bit 8 p"

definition is_digit :: "char \<Rightarrow> bool" where
  "is_digit c \<longleftrightarrow> (48 :: nat) \<le> of_char c \<and> (of_char c :: nat) \<le> 57"

definition digit_val :: "char \<Rightarrow> int" where
  "digit_val c = of_char c - 48"

definition is_space :: "char \<Rightarrow> bool" where
  "is_space c \<longleftrightarrow> of_char c = (32 :: nat) \<or> (9 \<le> (of_char c :: nat) \<and> of_char c \<le> (13 :: nat))"

text \<open>\<^verbatim>\<open>atoi\<close>: leading white space, a sign, then digits up to the first other character.\<close>

definition atoi :: "string \<Rightarrow> int" where
  "atoi s =
     (let s = dropWhile is_space s;
          neg = (s \<noteq> [] \<and> hd s = CHR ''-'');
          s = (if s \<noteq> [] \<and> (hd s = CHR ''-'' \<or> hd s = CHR ''+'') then tl s else s);
          v = foldl (\<lambda>acc c. 10 * acc + digit_val c) 0 (takeWhile is_digit s)
      in if neg then - v else v)"

text \<open>The address of a configuration; \<open>inet_addr\<close> is the function of the C library.\<close>

definition parse_addr :: "(string \<Rightarrow> u32) \<Rightarrow> string \<Rightarrow> sockaddr option" where
  "parse_addr inet_addr addr =
     (case split addr '':'' of
        [ip, port] \<Rightarrow> Some \<lparr>sa_addr = inet_addr ip, sa_port = htons (word_of_int (atoi port))\<rparr>
      | _ \<Rightarrow> None)"

subsection \<open>TCP\<close>

text \<open>The members the code never assigns or reads (\<^verbatim>\<open>errno_\<close>, \<^verbatim>\<open>handler_index_\<close>, \<^verbatim>\<open>connect_chan_id_\<close>) have no field.\<close>

record connection_info =
  ci_addr :: sockaddr
  ci_fd :: fd_t
  ci_chan :: u32

text \<open>
  \<^verbatim>\<open>inet_ntop\<close> of an IPv4 address: the octets in the order they are stored, in decimal, if the
  text and its end fit into the buffer.
\<close>

fun dec :: "nat \<Rightarrow> string" where
  "dec n = (if n < 10 then [char_of (48 + n)] else dec (n div 10) @ [char_of (48 + n mod 10)])"

declare dec.simps [simp del]

definition octet :: "nat \<Rightarrow> u32 \<Rightarrow> nat" where
  "octet k a = unat (drop_bit (8 * k) a AND 255)"

definition inet_ntop :: "u32 \<Rightarrow> nat \<Rightarrow> string option" where
  "inet_ntop a n =
     (let s = dec (octet 0 a) @ ''.'' @ dec (octet 1 a) @ ''.'' @ dec (octet 2 a) @ ''.'' @ dec (octet 3 a)
      in if length s < n then Some s else None)"

definition INET_ADDRSTRLEN :: nat where
  "INET_ADDRSTRLEN = 16"

definition get_ip_addr :: "connection_info \<Rightarrow> string" where
  "get_ip_addr c = (case inet_ntop (sa_addr (ci_addr c)) INET_ADDRSTRLEN of Some ret \<Rightarrow> ret | None \<Rightarrow> [])"

definition get_port :: "connection_info \<Rightarrow> u32" where
  "get_port c = ucast (htons (sa_port (ci_addr c)))"

datatype TCP_CONNECT_MODE = LISTEN | CONNECT
datatype TCP_STATE = TCP_DEF | TCP_CONNECTED | TCP_CLOSED | TCP_INPROGRESS

record keep_alive_config =
  ka_enabled :: bool
  ka_idle_s :: u32
  ka_interval_s :: u32
  ka_count :: u32
  ka_user_timeout_ms :: u32

record tcp_handler =
  h_conn :: "nat option"
  h_close :: "nat option"
  h_data :: "nat option"
  h_error :: "nat option"

record tcp_config =
  tc_mode :: TCP_CONNECT_MODE
  tc_addr :: string
  tc_keep_alive :: keep_alive_config
  tc_max_connect :: u32
  tc_handlers :: tcp_handler
  tc_block_size :: u32
  tc_block_count :: u32

definition tcp_config_new :: tcp_config where
  "tcp_config_new =
     \<lparr>tc_mode = LISTEN, tc_addr = [],
      tc_keep_alive = \<lparr>ka_enabled = False, ka_idle_s = 15, ka_interval_s = 5, ka_count = 3, ka_user_timeout_ms = 30000\<rparr>,
      tc_max_connect = UINT32_MAX, tc_handlers = \<lparr>h_conn = None, h_close = None, h_data = None, h_error = None\<rparr>,
      tc_block_size = 4096, tc_block_count = 256\<rparr>"

definition reg_tcp_handler :: "nat option \<Rightarrow> nat option \<Rightarrow> nat option \<Rightarrow> nat option \<Rightarrow> tcp_config \<Rightarrow> tcp_config" where
  "reg_tcp_handler cn cl dt er conf = conf\<lparr>tc_handlers := \<lparr>h_conn = cn, h_close = cl, h_data = dt, h_error = er\<rparr>\<rparr>"

text \<open>The set of timer requests is ordered by address, as \<^verbatim>\<open>std::set\<close> of pointers is.\<close>

record tcp_shared_data =
  sd_buffers :: "int list"
  sd_config :: tcp_config
  sd_closed :: "u32 list"
  sd_timers :: "nat list"

record tcp_event =
  tcp_conn :: connection_info
  tcp_shared :: "nat option"
  tcp_state :: TCP_STATE
  tcp_buf_id :: int
  tcp_times :: int

definition tcp_event_new :: tcp_event where
  "tcp_event_new =
     \<lparr>tcp_conn = \<lparr>ci_addr = \<lparr>sa_addr = 0, sa_port = 0\<rparr>, ci_fd = fd_default, ci_chan = 0\<rparr>, tcp_shared = None, tcp_state = TCP_DEF,
      tcp_buf_id = - 1, tcp_times = - 1\<rparr>"

text \<open>The connections are a list in the order in which the map is iterated.\<close>

record tcp_socket =
  ts_fd :: fd_t
  ts_conns :: "(u32 \<times> nat) list"
  ts_addr :: sockaddr
  ts_enabled :: bool
  ts_connect_cnt :: u32
  ts_timer_id :: int
  ts_shared :: "nat option"

definition tcp_socket_new :: tcp_socket where
  "tcp_socket_new =
     \<lparr>ts_fd = fd_default, ts_conns = [], ts_addr = \<lparr>sa_addr = 0, sa_port = 0\<rparr>, ts_enabled = True, ts_connect_cnt = 0, ts_timer_id = - 1,
      ts_shared = None\<rparr>"

subsection \<open>UDP\<close>

record udp_config =
  uc_addr :: string
  uc_peer_addr :: string
  uc_block_size :: u32
  uc_block_count :: u32
  uc_need_detail :: bool
  uc_data :: "nat option"
  uc_error :: "nat option"

definition udp_config_new :: udp_config where
  "udp_config_new =
     \<lparr>uc_addr = [], uc_peer_addr = [], uc_block_size = 4096, uc_block_count = 256, uc_need_detail = False, uc_data = None, uc_error = None\<rparr>"

definition reg_udp_handler :: "nat option \<Rightarrow> nat option \<Rightarrow> udp_config \<Rightarrow> udp_config" where
  "reg_udp_handler dt er conf = conf\<lparr>uc_data := dt, uc_error := er\<rparr>"

record udp_socket =
  us_fd :: fd_t
  us_config :: udp_config
  us_addr :: "sockaddr option"
  us_peer :: "sockaddr option"
  us_buf_id :: int

definition udp_socket_new :: udp_socket where
  "udp_socket_new = \<lparr>us_fd = fd_default, us_config = udp_config_new, us_addr = None, us_peer = None, us_buf_id = - 1\<rparr>"

subsection \<open>The state of the sockets\<close>

datatype tcall =
    T_Conn nat connection_info
  | T_Close nat connection_info
  | T_Data nat connection_info iovec
  | T_Error nat connection_info int
  | U_Data nat iovec bool
  | U_Error nat int

datatype sclosure =
    SC_Tcp_Read nat
  | SC_Accept nat
  | SC_Tcp_Timer nat
  | SC_Udp_Read nat
  | SC_App nat

text \<open>
  The answer to a call that returns a status or a descriptor, to \<^verbatim>\<open>connect\<close> with its error
  number, to \<^verbatim>\<open>getsockopt(TCP_INFO)\<close> with the state of the connection, and to
  \<^verbatim>\<open>getsockname\<close> and \<^verbatim>\<open>getpeername\<close>.
\<close>

datatype sock_answer =
    Ans_Int int
  | Ans_Connect "errno option"
  | Ans_Info int nat
  | Ans_Addr int sockaddr

record sock_loop = event_loop +
  sk_tcp :: "nat \<Rightarrow> tcp_event option"
  sk_sockets :: "nat \<Rightarrow> tcp_socket option"
  sk_udp :: "nat \<Rightarrow> udp_socket option"
  sk_shared :: "nat \<Rightarrow> tcp_shared_data option"
  sk_next_shared :: nat
  sk_chan_id :: u32
  sk_closures :: "sclosure list"
  sk_answers :: "sock_answer list"
  sk_closed_fds :: "int list"
  sk_calls :: "tcall list"

type_synonym ('y, 'w) spoll = "('y sock_loop_scheme, 'w) poll_base"
type_synonym 'w tusr = "tcall \<Rightarrow> 'w \<Rightarrow> 'w result"

definition tcall_user :: "('y, 'w) spoll \<Rightarrow> 'w tusr \<Rightarrow> (nat \<Rightarrow> tcall) \<Rightarrow> nat option \<Rightarrow> 'w \<Rightarrow> 'w result" where
  "tcall_user pb tusr c f w =
     (case f of
        None \<Rightarrow> Inl Bad_Function_Call
      | Some n \<Rightarrow> tusr (c n) (upd_loop pb (\<lambda>l. l\<lparr>sk_calls := sk_calls l @ [c n]\<rparr>) w))"

definition get_tcp :: "('y, 'w) spoll \<Rightarrow> nat \<Rightarrow> 'w \<Rightarrow> tcp_event result" where
  "get_tcp pb e w = (case sk_tcp (pb_loop pb w) e of None \<Rightarrow> Inl Use_After_Free | Some x \<Rightarrow> Inr x)"

definition set_tcp :: "('y, 'w) spoll \<Rightarrow> nat \<Rightarrow> tcp_event \<Rightarrow> 'w \<Rightarrow> 'w" where
  "set_tcp pb e x w = upd_loop pb (\<lambda>l. l\<lparr>sk_tcp := (sk_tcp l)(e \<mapsto> x)\<rparr>) w"

definition get_sock :: "('y, 'w) spoll \<Rightarrow> nat \<Rightarrow> 'w \<Rightarrow> tcp_socket result" where
  "get_sock pb s w = (case sk_sockets (pb_loop pb w) s of None \<Rightarrow> Inl Use_After_Free | Some x \<Rightarrow> Inr x)"

definition set_sock :: "('y, 'w) spoll \<Rightarrow> nat \<Rightarrow> tcp_socket \<Rightarrow> 'w \<Rightarrow> 'w" where
  "set_sock pb s x w = upd_loop pb (\<lambda>l. l\<lparr>sk_sockets := (sk_sockets l)(s \<mapsto> x)\<rparr>) w"

definition get_udp :: "('y, 'w) spoll \<Rightarrow> nat \<Rightarrow> 'w \<Rightarrow> udp_socket result" where
  "get_udp pb s w = (case sk_udp (pb_loop pb w) s of None \<Rightarrow> Inl Use_After_Free | Some x \<Rightarrow> Inr x)"

definition set_udp :: "('y, 'w) spoll \<Rightarrow> nat \<Rightarrow> udp_socket \<Rightarrow> 'w \<Rightarrow> 'w" where
  "set_udp pb s x w = upd_loop pb (\<lambda>l. l\<lparr>sk_udp := (sk_udp l)(s \<mapsto> x)\<rparr>) w"

text \<open>\<^verbatim>\<open>shared_data_ptr_->\<close> through a pointer that may be null.\<close>

definition get_shared :: "('y, 'w) spoll \<Rightarrow> nat option \<Rightarrow> 'w \<Rightarrow> tcp_shared_data result" where
  "get_shared pb d w =
     (case d of
        None \<Rightarrow> Inl Null_Deref
      | Some a \<Rightarrow> (case sk_shared (pb_loop pb w) a of None \<Rightarrow> Inl Use_After_Free | Some x \<Rightarrow> Inr x))"

definition set_shared :: "('y, 'w) spoll \<Rightarrow> nat option \<Rightarrow> tcp_shared_data \<Rightarrow> 'w \<Rightarrow> 'w" where
  "set_shared pb d x w = upd_loop pb (\<lambda>l. l\<lparr>sk_shared := (sk_shared l)(the d \<mapsto> x)\<rparr>) w"

definition sk_new_closure :: "('y, 'w) spoll \<Rightarrow> sclosure \<Rightarrow> 'w \<Rightarrow> nat \<times> 'w" where
  "sk_new_closure pb c w =
     (let l = pb_loop pb w; (k, l) = new_closure (Cl_User (length (sk_closures l))) l
      in (k, pb_set_loop pb (l\<lparr>sk_closures := sk_closures l @ [c]\<rparr>) w))"

subsection \<open>System calls\<close>

definition ask :: "('y, 'w) spoll \<Rightarrow> 'w \<Rightarrow> (sock_answer \<times> 'w) result" where
  "ask pb w =
     (case sk_answers (pb_loop pb w) of
        [] \<Rightarrow> Inl Blocked
      | a # as \<Rightarrow> Inr (a, upd_loop pb (\<lambda>l. l\<lparr>sk_answers := as\<rparr>) w))"

definition ask_int :: "('y, 'w) spoll \<Rightarrow> 'w \<Rightarrow> (int \<times> 'w) result" where
  "ask_int pb w = bindE (ask pb w) (\<lambda>(a, w). case a of Ans_Int i \<Rightarrow> Inr (i, w) | _ \<Rightarrow> Inl Blocked)"

definition ask_connect :: "('y, 'w) spoll \<Rightarrow> 'w \<Rightarrow> (errno option \<times> 'w) result" where
  "ask_connect pb w = bindE (ask pb w) (\<lambda>(a, w). case a of Ans_Connect e \<Rightarrow> Inr (e, w) | _ \<Rightarrow> Inl Blocked)"

definition ask_info :: "('y, 'w) spoll \<Rightarrow> 'w \<Rightarrow> (int \<times> nat \<times> 'w) result" where
  "ask_info pb w = bindE (ask pb w) (\<lambda>(a, w). case a of Ans_Info r s \<Rightarrow> Inr (r, s, w) | _ \<Rightarrow> Inl Blocked)"

definition ask_addr :: "('y, 'w) spoll \<Rightarrow> 'w \<Rightarrow> (int \<times> sockaddr \<times> 'w) result" where
  "ask_addr pb w = bindE (ask pb w) (\<lambda>(a, w). case a of Ans_Addr r s \<Rightarrow> Inr (r, s, w) | _ \<Rightarrow> Inl Blocked)"

text \<open>\<^verbatim>\<open>fd_t::close\<close>; the closed descriptor is logged.\<close>

definition sk_close_fd :: "('y, 'w) spoll \<Rightarrow> fd_t \<Rightarrow> 'w \<Rightarrow> fd_t \<times> 'w" where
  "sk_close_fd pb fd w =
     (case fd_close fd of (_, fd, closed) \<Rightarrow> (fd, upd_loop pb (\<lambda>l. l\<lparr>sk_closed_fds := sk_closed_fds l @ closed\<rparr>) w))"

definition get_tcp_socket_fd :: "('y, 'w) spoll \<Rightarrow> 'w \<Rightarrow> (int \<times> 'w) result" where
  "get_tcp_socket_fd pb w = bindE (ask_int pb w) (\<lambda>(fd, w). Inr (if 0 < fd then fd else - 1, w))"

text \<open>The chain of \<^verbatim>\<open>setsockopt\<close> calls, each with its early return.\<close>

fun set_options :: "('y, 'w) spoll \<Rightarrow> nat \<Rightarrow> 'w \<Rightarrow> (int \<times> 'w) result" where
  "set_options pb 0 w = Inr (0, w)"
| "set_options pb (Suc n) w =
     bindE (ask_int pb w) (\<lambda>(ret, w). if ret \<noteq> 0 then Inr (- 1, w) else set_options pb n w)"

definition set_keep_alive :: "('y, 'w) spoll \<Rightarrow> int \<Rightarrow> keep_alive_config \<Rightarrow> 'w \<Rightarrow> (int \<times> 'w) result" where
  "set_keep_alive pb fd conf w =
     (if \<not> 0 < fd then Inr (- 1, w) else if \<not> ka_enabled conf then Inr (0, w) else set_options pb 5 w)"

end
