(* ===== verification/Tcp_Socket.thy ===== *)
theory Tcp_Socket
  imports Socket_State
begin

unbundle bit_operations_syntax

text \<open>
  source/socket/tcp_socket.cpp: the shared data of a socket, the connections (\<^verbatim>\<open>tcp_event\<close>)
  and the listener or connector that owns them (\<^verbatim>\<open>tcp_socket\<close>). An operation of an object
  takes the address of the object. A new object takes the next address of the loop state.
\<close>

subsection \<open>Shared data\<close>

definition shared_new :: "tcp_config \<Rightarrow> tcp_shared_data" where
  "shared_new conf = \<lparr>sd_buffers = [], sd_config = conf, sd_closed = [], sd_timers = []\<rparr>"

fun unregister_all :: "('y, 'w) spoll \<Rightarrow> int list \<Rightarrow> 'w \<Rightarrow> 'w result" where
  "unregister_all pb [] w = Inr w"
| "unregister_all pb (b # bs) w = bindE (service_unregister_ring_buffer pb (word_of_int b) w) (\<lambda>(_, w). unregister_all pb bs w)"

definition shared_delete :: "('y, 'w) spoll \<Rightarrow> nat \<Rightarrow> 'w \<Rightarrow> 'w result" where
  "shared_delete pb d w =
     bindE (get_shared pb (Some d) w) (\<lambda>sd.
     bindE (unregister_all pb (sd_buffers sd) w) (\<lambda>w.
     Inr (upd_loop pb (\<lambda>l. l\<lparr>sk_shared := (sk_shared l)(d := None)\<rparr>) w)))"

definition get_buffer_id :: "('y, 'w) spoll \<Rightarrow> nat option \<Rightarrow> 'w \<Rightarrow> (int \<times> 'w) result" where
  "get_buffer_id pb d w =
     bindE (get_shared pb d w) (\<lambda>sd.
     case sd_buffers sd of
       [] \<Rightarrow> service_register_ring_buffer pb (tc_block_size (sd_config sd)) (tc_block_count (sd_config sd)) w
     | b # bs \<Rightarrow> Inr (b, set_shared pb d (sd\<lparr>sd_buffers := bs\<rparr>) w))"

definition add_buffer_id :: "('y, 'w) spoll \<Rightarrow> nat option \<Rightarrow> int \<Rightarrow> 'w \<Rightarrow> 'w result" where
  "add_buffer_id pb d b w =
     bindE (get_shared pb d w) (\<lambda>sd. Inr (set_shared pb d (sd\<lparr>sd_buffers := sd_buffers sd @ [b]\<rparr>) w))"

definition add_closed_chan_id :: "('y, 'w) spoll \<Rightarrow> nat option \<Rightarrow> u32 \<Rightarrow> 'w \<Rightarrow> 'w result" where
  "add_closed_chan_id pb d c w =
     bindE (get_shared pb d w) (\<lambda>sd. Inr (set_shared pb d (sd\<lparr>sd_closed := sd_closed sd @ [c]\<rparr>) w))"

definition reg_timer_req :: "('y, 'w) spoll \<Rightarrow> nat option \<Rightarrow> nat \<Rightarrow> 'w \<Rightarrow> 'w result" where
  "reg_timer_req pb d e w =
     bindE (get_shared pb d w) (\<lambda>sd. Inr (set_shared pb d (sd\<lparr>sd_timers := insort_insert e (sd_timers sd)\<rparr>) w))"

definition remove_timer_req :: "('y, 'w) spoll \<Rightarrow> nat option \<Rightarrow> nat \<Rightarrow> 'w \<Rightarrow> 'w result" where
  "remove_timer_req pb d e w =
     bindE (get_shared pb d w) (\<lambda>sd. Inr (set_shared pb d (sd\<lparr>sd_timers := remove1 e (sd_timers sd)\<rparr>) w))"

subsection \<open>Connections\<close>

definition tcp_upd :: "('y, 'w) spoll \<Rightarrow> nat \<Rightarrow> (tcp_event \<Rightarrow> tcp_event) \<Rightarrow> 'w \<Rightarrow> 'w result" where
  "tcp_upd pb e f w = bindE (get_tcp pb e w) (\<lambda>x. Inr (set_tcp pb e (f x) w))"

text \<open>\<^verbatim>\<open>evt_service_ptr_->\<close> through the pointer of the object.\<close>

definition with_service :: "('y, 'w) spoll \<Rightarrow> nat \<Rightarrow> ('w \<Rightarrow> 'b result) \<Rightarrow> 'w \<Rightarrow> 'b result" where
  "with_service pb e f w = bindE (ev_get pb e w) (\<lambda>x. if eb_service x then f w else Inl Null_Deref)"

text \<open>The new descriptor and its events go to \<^verbatim>\<open>fds_evts_\<close>, and the loop is asked to monitor them.\<close>

definition watch_fd :: "('y, 'w) spoll \<Rightarrow> nat \<Rightarrow> fd_t \<Rightarrow> u16 \<Rightarrow> 'w \<Rightarrow> 'w result" where
  "watch_fd pb e fd evt w =
     bindE (ev_get pb e w) (\<lambda>x.
     with_service pb e (service_add_event pb e) (ev_set pb e (x\<lparr>eb_fds_evts := eb_fds_evts x @ [(fd, evt)]\<rparr>) w))"

definition clear_fds_and_evts :: "('y, 'w) spoll \<Rightarrow> nat \<Rightarrow> 'w \<Rightarrow> 'w result" where
  "clear_fds_and_evts pb e w = bindE (ev_get pb e w) (\<lambda>x. Inr (ev_set pb e (x\<lparr>eb_fds_evts := []\<rparr>) w))"

definition tcp_close_fd :: "('y, 'w) spoll \<Rightarrow> nat \<Rightarrow> 'w \<Rightarrow> 'w result" where
  "tcp_close_fd pb e w =
     bindE (get_tcp pb e w) (\<lambda>x.
     let (fd, w) = sk_close_fd pb (ci_fd (tcp_conn x)) w
     in tcp_upd pb e (\<lambda>x. x\<lparr>tcp_conn := (tcp_conn x)\<lparr>ci_fd := fd\<rparr>\<rparr>) w)"

definition tcp_remove_event :: "('y, 'w) spoll \<Rightarrow> nat \<Rightarrow> bool \<Rightarrow> 'w \<Rightarrow> 'w result" where
  "tcp_remove_event pb e is_close_fd w =
     bindE (with_service pb e (service_remove_event pb e) w) (\<lambda>w.
     bindE (clear_fds_and_evts pb e w) (\<lambda>w.
     if \<not> is_close_fd then Inr w else tcp_close_fd pb e w))"

definition TCP_ESTABLISHED :: nat where "TCP_ESTABLISHED = 1"

definition is_tcp_connect :: "('y, 'w) spoll \<Rightarrow> nat \<Rightarrow> 'w \<Rightarrow> (bool \<times> 'w) result" where
  "is_tcp_connect pb e w = bindE (ask_info pb w) (\<lambda>(ret, st, w). Inr (ret = 0 \<and> st = TCP_ESTABLISHED, w))"

definition check_tcp_connect :: "('y, 'w) spoll \<Rightarrow> nat \<Rightarrow> 'w \<Rightarrow> (bool \<times> 'w) result" where
  "check_tcp_connect pb e w =
     bindE (is_tcp_connect pb e w) (\<lambda>(ok, w).
     if \<not> ok then Inr (False, w)
     else
       bindE (ask_addr pb w) (\<lambda>(ret, local, w).
       if ret \<noteq> 0 then Inr (False, w)
       else
         bindE (ask_addr pb w) (\<lambda>(ret, peer, w).
         if ret \<noteq> 0 then Inr (False, w)
         else Inr (\<not> (sa_port local = sa_port peer \<and> sa_addr local = sa_addr peer), w))))"

definition try_connect :: "('y, 'w) spoll \<Rightarrow> nat \<Rightarrow> bool \<Rightarrow> 'w \<Rightarrow> (int \<times> 'w) result" where
  "try_connect pb e is_first_try w =
     bindE (if is_first_try then Inr w
            else
              bindE (get_tcp pb e w) (\<lambda>x.
              bindE (if fd_is_valid (ci_fd (tcp_conn x)) then tcp_remove_event pb e True w else Inr w) (\<lambda>w.
              bindE (get_tcp_socket_fd pb w) (\<lambda>(tmp_fd, w).
              tcp_upd pb e (\<lambda>x. x\<lparr>tcp_conn := (tcp_conn x)\<lparr>ci_fd := mk_fd tmp_fd TCP_FD\<rparr>\<rparr>) w)))) (\<lambda>w.
     bindE (get_tcp pb e w) (\<lambda>x.
     if \<not> fd_is_valid (ci_fd (tcp_conn x)) then Inr (- 1, w)
     else
       bindE (ask_connect pb w) (\<lambda>(err, w).
       case err of
         None \<Rightarrow>
           bindE (tcp_upd pb e (\<lambda>x. x\<lparr>tcp_state := TCP_CONNECTED\<rparr>) w) (\<lambda>w.
           bindE (watch_fd pb e (ci_fd (tcp_conn x)) EV_WRITE w) (\<lambda>w. Inr (0, w)))
       | Some err \<Rightarrow>
           if err \<noteq> EINPROGRESS then bindE (tcp_close_fd pb e w) (\<lambda>w. Inr (- 1, w))
           else
             bindE (tcp_upd pb e (\<lambda>x. x\<lparr>tcp_state := TCP_INPROGRESS\<rparr>) w) (\<lambda>w.
             bindE (watch_fd pb e (ci_fd (tcp_conn x)) EV_WRITE w) (\<lambda>w. Inr (0, w))))))"

definition tcp_open :: "('y, 'w) spoll \<Rightarrow> 'w tusr \<Rightarrow> nat \<Rightarrow> connection_info \<Rightarrow> nat option \<Rightarrow> 'w \<Rightarrow> (int \<times> 'w) result" where
  "tcp_open pb tusr e conn d w =
     bindE (ev_get pb e w) (\<lambda>b.
     bindE (tcp_upd pb e (\<lambda>x. x\<lparr>tcp_shared := d, tcp_conn := conn\<rparr>) (ev_set pb e (b\<lparr>eb_service := True\<rparr>) w)) (\<lambda>w.
     bindE (get_shared pb d w) (\<lambda>sd.
     bindE (get_buffer_id pb d w) (\<lambda>(buf, w).
     bindE (tcp_upd pb e (\<lambda>x. x\<lparr>tcp_buf_id := buf\<rparr>) w) (\<lambda>w.
     if \<not> 0 \<le> buf then Inr (- 1, w)
     else if tc_mode (sd_config sd) = CONNECT
     then bindE (try_connect pb e True w) (\<lambda>(ret, w). Inr (if ret = 0 then 0 else - 1, w))
     else
       bindE (check_tcp_connect pb e w) (\<lambda>(ok, w).
       if \<not> ok then Inr (- 1, w)
       else
         bindE (watch_fd pb e (ci_fd conn) EV_READ w) (\<lambda>w.
         bindE (tcp_upd pb e (\<lambda>x. x\<lparr>tcp_state := TCP_CONNECTED\<rparr>) w) (\<lambda>w.
         bindE (tcall_user pb tusr (\<lambda>n. T_Conn n conn) (h_conn (tc_handlers (sd_config sd))) w) (\<lambda>w. Inr (0, w))))))))))"

definition close_reconnect_timer :: "('y, 'w) spoll \<Rightarrow> nat \<Rightarrow> 'w \<Rightarrow> 'w result" where
  "close_reconnect_timer pb e w =
     bindE (tcp_upd pb e (\<lambda>x. x\<lparr>tcp_times := - 1\<rparr>) w) (\<lambda>w.
     bindE (get_tcp pb e w) (\<lambda>x. remove_timer_req pb (tcp_shared x) e w))"

definition create_timer_for_reconnect :: "('y, 'w) spoll \<Rightarrow> nat \<Rightarrow> 'w \<Rightarrow> 'w result" where
  "create_timer_for_reconnect pb e w =
     bindE (tcp_upd pb e (\<lambda>x. x\<lparr>tcp_times := 0\<rparr>) w) (\<lambda>w.
     bindE (get_tcp pb e w) (\<lambda>x. reg_timer_req pb (tcp_shared x) e w))"

definition tcp_close :: "('y, 'w) spoll \<Rightarrow> 'w tusr \<Rightarrow> nat \<Rightarrow> 'w \<Rightarrow> (int \<times> 'w) result" where
  "tcp_close pb tusr e w =
     bindE (get_tcp pb e w) (\<lambda>x.
     if tcp_state x = TCP_CLOSED then Inr (0, w)
     else
       bindE (event_base_close pb e w) (\<lambda>w.
       bindE (if fd_is_valid (ci_fd (tcp_conn x)) then tcp_close_fd pb e w else Inr w) (\<lambda>w.
       bindE (close_reconnect_timer pb e w) (\<lambda>w.
       bindE (if tcp_buf_id x \<noteq> - 1
              then bindE (add_buffer_id pb (tcp_shared x) (tcp_buf_id x) w) (tcp_upd pb e (\<lambda>x. x\<lparr>tcp_buf_id := - 1\<rparr>))
              else Inr w) (\<lambda>w.
       bindE (tcp_upd pb e (\<lambda>x. x\<lparr>tcp_state := TCP_CLOSED\<rparr>) w) (\<lambda>w.
       bindE (if tcp_state x = TCP_CONNECTED
              then bindE (get_shared pb (tcp_shared x) w) (\<lambda>sd.
                   bindE (get_tcp pb e w) (\<lambda>x.
                   tcall_user pb tusr (\<lambda>n. T_Close n (tcp_conn x)) (h_close (tc_handlers (sd_config sd))) w))
              else Inr w) (\<lambda>w.
       bindE (get_tcp pb e w) (\<lambda>x.
       bindE (add_closed_chan_id pb (tcp_shared x) (ci_chan (tcp_conn x)) w) (\<lambda>w.
       bindE (tcp_upd pb e (\<lambda>x. x\<lparr>tcp_shared := None\<rparr>) w) (\<lambda>w.
       bindE (ev_get pb e w) (\<lambda>b. Inr (0, ev_set pb e (b\<lparr>eb_state := EVENT_CLOSED\<rparr>) w))))))))))))"

definition check_and_process_tcp_connected :: "('y, 'w) spoll \<Rightarrow> nat \<Rightarrow> 'w \<Rightarrow> 'w result" where
  "check_and_process_tcp_connected pb e w =
     bindE (check_tcp_connect pb e w) (\<lambda>(ok, w).
     if \<not> ok
     then
       bindE (tcp_remove_event pb e True w) (\<lambda>w.
       bindE (get_tcp pb e w) (\<lambda>x. if tcp_times x \<noteq> - 1 then Inr w else create_timer_for_reconnect pb e w))
     else
       bindE (get_tcp pb e w) (\<lambda>x.
       bindE (get_shared pb (tcp_shared x) w) (\<lambda>sd.
       bindE (set_keep_alive pb (fd_num (ci_fd (tcp_conn x))) (tc_keep_alive (sd_config sd)) w) (\<lambda>(ret, w).
       bindE (assertE (ret = 0)) (\<lambda>_.
       bindE (tcp_upd pb e (\<lambda>x. x\<lparr>tcp_state := TCP_CONNECTED\<rparr>) w) (\<lambda>w.
       bindE (close_reconnect_timer pb e w) (\<lambda>w.
       bindE (tcp_remove_event pb e False w) (\<lambda>w.
       watch_fd pb e (ci_fd (tcp_conn x)) EV_READ w))))))))"

definition tcp_handle_read_ready :: "('y, 'w) spoll \<Rightarrow> nat \<Rightarrow> fd_t \<Rightarrow> 'w \<Rightarrow> 'w result" where
  "tcp_handle_read_ready pb e fd w =
     bindE (get_tcp pb e w) (\<lambda>x.
     let (c, w) = sk_new_closure pb (SC_Tcp_Read e) w
     in bindE (with_service pb e (service_submit_async_read_group pb fd (word_of_int (tcp_buf_id x)) (Some c) None) w) (\<lambda>(ret, w).
        bindE (assertE (ret = 0)) (\<lambda>_. Inr w)))"

text \<open>
  The loop of \<^verbatim>\<open>on_read_tcp_msg\<close> over the buffers; \<^verbatim>\<open>len\<close> is an \<^verbatim>\<open>int32_t\<close>. The member
  \<^verbatim>\<open>conn_info_\<close> is read in each round.
\<close>

fun deliver_iovs :: "('y, 'w) spoll \<Rightarrow> 'w tusr \<Rightarrow> nat \<Rightarrow> nat option \<Rightarrow> iovec list \<Rightarrow> int \<Rightarrow> 'w \<Rightarrow> 'w result" where
  "deliver_iovs pb tusr e f [] len w = (if 0 < len then Inl Out_Of_Bounds else Inr w)"
| "deliver_iovs pb tusr e f (v # vs) len w =
     (if \<not> 0 < len then Inr w
      else
        bindE (get_tcp pb e w) (\<lambda>x.
        let iov = v\<lparr>iov_len := (if iov_len v < nat len then iov_len v else nat len)\<rparr>
        in bindE (tcall_user pb tusr (\<lambda>n. T_Data n (tcp_conn x) iov) f w)
             (deliver_iovs pb tusr e f vs (sint (word_of_int (len - int (iov_len v)) :: 32 word)))))"

definition on_read_tcp_msg :: "('y, 'w) spoll \<Rightarrow> 'w tusr \<Rightarrow> nat \<Rightarrow> int \<Rightarrow> iovec list option \<Rightarrow> 'w \<Rightarrow> 'w result" where
  "on_read_tcp_msg pb tusr e ret iovs w =
     bindE (get_tcp pb e w) (\<lambda>x.
     bindE (get_shared pb (tcp_shared x) w) (\<lambda>sd.
     let h = tc_handlers (sd_config sd)
     in if 0 < ret
        then (case iovs of None \<Rightarrow> Inl Null_Deref | Some vs \<Rightarrow> deliver_iovs pb tusr e (h_data h) vs ret w)
        else if ret = 0 then tcall_user pb tusr (\<lambda>n. T_Close n (tcp_conn x)) (h_close h) w
        else
          bindE (if h_error h \<noteq> None then tcall_user pb tusr (\<lambda>n. T_Error n (tcp_conn x) ret) (h_error h) w else Inr w) (\<lambda>w.
          bindE (tcp_close pb tusr e w) (\<lambda>(_, w). Inr w))))"

definition tcp_handle_write_ready :: "('y, 'w) spoll \<Rightarrow> nat \<Rightarrow> fd_t \<Rightarrow> 'w \<Rightarrow> 'w result" where
  "tcp_handle_write_ready pb e fd w = check_and_process_tcp_connected pb e w"

definition handle_connect_timeout :: "('y, 'w) spoll \<Rightarrow> nat \<Rightarrow> 'w \<Rightarrow> 'w result" where
  "handle_connect_timeout pb e w =
     bindE (get_tcp pb e w) (\<lambda>x.
     if tcp_state x = TCP_CONNECTED then Inr w
     else
       bindE (try_connect pb e False w) (\<lambda>(ret, w).
       bindE (get_tcp pb e w) (\<lambda>x.
       if ret \<noteq> 0 \<or> tcp_state x \<noteq> TCP_CONNECTED then Inr w else check_and_process_tcp_connected pb e w)))"

definition tcp_on_timer :: "('y, 'w) spoll \<Rightarrow> nat \<Rightarrow> 'w \<Rightarrow> 'w result" where
  "tcp_on_timer pb e w =
     bindE (tcp_upd pb e (\<lambda>x. x\<lparr>tcp_times := tcp_times x + 1\<rparr>) w) (\<lambda>w.
     bindE (get_tcp pb e w) (\<lambda>x. if tcp_times x < 10 then Inr w else handle_connect_timeout pb e w))"

definition tcp_on_started :: "('y, 'w) spoll \<Rightarrow> 'w tusr \<Rightarrow> nat \<Rightarrow> bool \<Rightarrow> 'w \<Rightarrow> 'w result" where
  "tcp_on_started pb tusr e is_success w =
     bindE (assertE is_success) (\<lambda>_.
     bindE (get_tcp pb e w) (\<lambda>x.
     bindE (ev_get pb e w) (\<lambda>b.
     if tcp_state x = TCP_CONNECTED \<and> eb_state b \<noteq> EVENT_DEF
     then bindE (get_shared pb (tcp_shared x) w) (\<lambda>sd.
          tcall_user pb tusr (\<lambda>n. T_Conn n (tcp_conn x)) (h_conn (tc_handlers (sd_config sd))) w)
     else base_on_started pb e is_success w)))"

end
