(* ===== verification/Sockets.thy ===== *)
theory Sockets
  imports Tcp_Socket
begin

unbundle bit_operations_syntax

text \<open>
  The listener and connector of source/socket/tcp_socket.cpp, source/socket/udp_socket.cpp,
  and \<open>sock_usr\<close>, by which the sockets are a user of the event service: it resolves the
  virtual functions of the derived classes and runs the closures of the sockets.
\<close>

subsection \<open>The listener\<close>

definition sock_upd :: "('y, 'w) spoll \<Rightarrow> nat \<Rightarrow> (tcp_socket \<Rightarrow> tcp_socket) \<Rightarrow> 'w \<Rightarrow> 'w result" where
  "sock_upd pb s f w = bindE (get_sock pb s w) (\<lambda>x. Inr (set_sock pb s (f x) w))"

definition make_listen_fd :: "('y, 'w) spoll \<Rightarrow> nat \<Rightarrow> 'w \<Rightarrow> (int \<times> 'w) result" where
  "make_listen_fd pb s w =
     bindE (get_sock pb s w) (\<lambda>x.
     let fd = fd_num (ts_fd x)
     in if \<not> fd_is_valid (ts_fd x) \<or> \<not> 0 < fd then Inr (- 1, w)
        else
          bindE (ask_int pb w) (\<lambda>(r1, w).
          if util_make_listen_socket_reuseable fd r1 \<noteq> 0 then Inr (- 1, w)
          else
            bindE (ask_int pb w) (\<lambda>(r2, w).
            if util_make_listen_socket_reuseable_port fd r2 \<noteq> 0 then Inr (- 1, w)
            else
              bindE (ask_int pb w) (\<lambda>(ret, w).
              if ret \<noteq> 0 then Inr (- 1, w)
              else
                bindE (ask_int pb w) (\<lambda>(ret, w). Inr (if ret \<noteq> 0 then - 1 else 0, w))))))"

definition sock_handle_read_ready :: "('y, 'w) spoll \<Rightarrow> nat \<Rightarrow> fd_t \<Rightarrow> 'w \<Rightarrow> 'w result" where
  "sock_handle_read_ready pb s fd w =
     (let (c, w) = sk_new_closure pb (SC_Accept s) w
      in bindE (with_service pb s (service_submit_async_accept pb fd (Some s) (Some c)) w) (\<lambda>(ret, w).
         bindE (assertE (ret = 0)) (\<lambda>_. Inr w)))"

definition get_new_chan_id :: "('y, 'w) spoll \<Rightarrow> 'w \<Rightarrow> u32 \<times> 'w" where
  "get_new_chan_id pb w =
     (let c = sk_chan_id (pb_loop pb w) + 1 in (c, upd_loop pb (\<lambda>l. l\<lparr>sk_chan_id := c\<rparr>) w))"

text \<open>\<^verbatim>\<open>std::make_shared<tcp_event>()\<close>, and the end of an object nobody refers to.\<close>

definition new_tcp_event :: "('y, 'w) spoll \<Rightarrow> 'w \<Rightarrow> nat \<times> 'w" where
  "new_tcp_event pb w =
     (let (e, l) = new_event (event_base_new Derived_Event (mk_iovec 0 0)) (pb_loop pb w)
      in (e, pb_set_loop pb (l\<lparr>sk_tcp := (sk_tcp l)(e \<mapsto> tcp_event_new)\<rparr>) w))"

definition drop_tcp_event :: "('y, 'w) spoll \<Rightarrow> nat \<Rightarrow> 'w \<Rightarrow> 'w" where
  "drop_tcp_event pb e w =
     upd_loop pb (\<lambda>l. l\<lparr>sk_tcp := (sk_tcp l)(e := None), el_events := (el_events l)(e := None)\<rparr>) w"

definition sock_remove_event :: "('y, 'w) spoll \<Rightarrow> nat \<Rightarrow> 'w \<Rightarrow> 'w result" where
  "sock_remove_event pb s w =
     bindE (with_service pb s (service_remove_event pb s) w) (\<lambda>w.
     bindE (clear_fds_and_evts pb s w) (\<lambda>w.
     bindE (get_sock pb s w) (\<lambda>x.
     let (fd, w) = sk_close_fd pb (ts_fd x) w in sock_upd pb s (\<lambda>x. x\<lparr>ts_fd := fd\<rparr>) w)))"

definition on_accept :: "('y, 'w) spoll \<Rightarrow> 'w tusr \<Rightarrow> nat \<Rightarrow> int \<Rightarrow> fd_t \<Rightarrow> sockaddr \<Rightarrow> 'w \<Rightarrow> 'w result" where
  "on_accept pb tusr s ret fd addr w =
     bindE (get_sock pb s w) (\<lambda>x.
     if \<not> ts_enabled x \<or> ret < 0 then Inr w
     else
       let (e, w) = new_tcp_event pb w; (chan, w) = get_new_chan_id pb w;
           conn = \<lparr>ci_addr = addr, ci_fd = fd, ci_chan = chan\<rparr>
       in bindE (with_service pb s (tcp_open pb tusr e conn (ts_shared x)) w) (\<lambda>(ret_open, w).
          if ret_open \<noteq> 0 then Inr (snd (sk_close_fd pb fd (drop_tcp_event pb e w)))
          else
            bindE (get_sock pb s w) (\<lambda>x.
            bindE (assertE (chan \<notin> fst ` set (ts_conns x))) (\<lambda>_.
            let x = x\<lparr>ts_conns := ts_conns x @ [(chan, e)], ts_connect_cnt := ts_connect_cnt x + 1\<rparr>; w = set_sock pb s x w
            in bindE (get_shared pb (ts_shared x) w) (\<lambda>sd.
               if ts_connect_cnt x < tc_max_connect (sd_config sd) then Inr w
               else sock_remove_event pb s (set_sock pb s (x\<lparr>ts_enabled := False\<rparr>) w))))))"

subsection \<open>Opening and closing\<close>

definition open_listener :: "('y, 'w) spoll \<Rightarrow> nat \<Rightarrow> tcp_config \<Rightarrow> 'w \<Rightarrow> (int \<times> 'w) result" where
  "open_listener pb s conf w =
     bindE (get_sock pb s w) (\<lambda>x.
     bindE (set_keep_alive pb (fd_num (ts_fd x)) (tc_keep_alive conf) w) (\<lambda>(ret, w).
     if ret \<noteq> 0 then Inr (- 1, w)
     else
       bindE (make_listen_fd pb s w) (\<lambda>(ret, w).
       if ret \<noteq> 0 then Inr (- 1, w) else bindE (watch_fd pb s (ts_fd x) EV_READ w) (\<lambda>w. Inr (0, w)))))"

definition open_connector :: "('y, 'w) spoll \<Rightarrow> 'w tusr \<Rightarrow> nat \<Rightarrow> 'w \<Rightarrow> (int \<times> 'w) result" where
  "open_connector pb tusr s w =
     (let (chan, w) = get_new_chan_id pb w; (e, w) = new_tcp_event pb w
      in bindE (get_sock pb s w) (\<lambda>x.
         bindE (with_service pb s (tcp_open pb tusr e \<lparr>ci_addr = ts_addr x, ci_fd = ts_fd x, ci_chan = chan\<rparr> (ts_shared x)) w) (\<lambda>(ret, w).
         if ret \<noteq> 0 then Inr (- 1, drop_tcp_event pb e w)
         else
           bindE (get_sock pb s w) (\<lambda>x.
           bindE (assertE (chan \<notin> fst ` set (ts_conns x))) (\<lambda>_.
           Inr (0, set_sock pb s (x\<lparr>ts_conns := ts_conns x @ [(chan, e)]\<rparr>) w))))))"

text \<open>\<open>svc\<close> tells whether the service pointer is not null.\<close>

definition tcp_socket_open ::
  "('y, 'w) spoll \<Rightarrow> 'w tusr \<Rightarrow> 'w runner \<Rightarrow> (string \<Rightarrow> u32) \<Rightarrow> nat \<Rightarrow> bool \<Rightarrow> tcp_config \<Rightarrow> 'w \<Rightarrow> (int \<times> 'w) result" where
  "tcp_socket_open pb tusr run inet_addr s svc conf w =
     bindE (ev_get pb s w) (\<lambda>b.
     if \<not> (svc \<and> \<not> eb_service b) then Inr (- 1, w)
     else if \<not> 0 < tc_max_connect conf then Inr (- 1, w)
     else if h_conn (tc_handlers conf) = None \<or> h_close (tc_handlers conf) = None \<or> h_data (tc_handlers conf) = None then Inr (- 1, w)
     else
       let d = sk_next_shared (pb_loop pb w);
           w = upd_loop pb (\<lambda>l. l\<lparr>sk_shared := (sk_shared l)(d \<mapsto> shared_new conf), sk_next_shared := d + 1\<rparr>)
                 (ev_set pb s (b\<lparr>eb_service := True\<rparr>) w)
       in bindE (sock_upd pb s (\<lambda>x. x\<lparr>ts_shared := Some d\<rparr>) w) (\<lambda>w.
          case parse_addr inet_addr (tc_addr conf) of
            None \<Rightarrow> Inr (- 1, w)
          | Some addr \<Rightarrow>
              bindE (sock_upd pb s (\<lambda>x. x\<lparr>ts_addr := addr\<rparr>) w) (\<lambda>w.
              bindE (get_tcp_socket_fd pb w) (\<lambda>(tmp_fd, w).
              bindE (sock_upd pb s (\<lambda>x. x\<lparr>ts_fd := mk_fd tmp_fd TCP_FD\<rparr>) w) (\<lambda>w.
              if \<not> fd_is_valid (mk_fd tmp_fd TCP_FD) then Inr (- 1, w)
              else
                bindE (if tc_mode conf = LISTEN then open_listener pb s conf w else open_connector pb tusr s w) (\<lambda>(ret, w).
                if ret \<noteq> 0
                then
                  bindE (get_sock pb s w) (\<lambda>x.
                  let (fd, w) = sk_close_fd pb (ts_fd x) w
                  in bindE (sock_upd pb s (\<lambda>x. x\<lparr>ts_fd := fd\<rparr>) w) (\<lambda>w. Inr (- 1, w)))
                else
                  let (c, w) = sk_new_closure pb (SC_Tcp_Timer s) w
                  in bindE (service_create_timer pb run 0 100000000 (Some c) w) (\<lambda>(timer_id, w).
                     bindE (sock_upd pb s (\<lambda>x. x\<lparr>ts_timer_id := timer_id\<rparr>) w) (\<lambda>w.
                     bindE (assertE (0 < timer_id)) (\<lambda>_. Inr (0, w))))))))))"

fun close_conns :: "('y, 'w) spoll \<Rightarrow> 'w tusr \<Rightarrow> (u32 \<times> nat) list \<Rightarrow> 'w \<Rightarrow> 'w result" where
  "close_conns pb tusr [] w = Inr w"
| "close_conns pb tusr ((_, e) # cs) w = bindE (tcp_close pb tusr e w) (\<lambda>(_, w). close_conns pb tusr cs w)"

definition tcp_socket_close :: "('y, 'w) spoll \<Rightarrow> 'w tusr \<Rightarrow> 'w runner \<Rightarrow> nat \<Rightarrow> 'w \<Rightarrow> (int \<times> 'w) result" where
  "tcp_socket_close pb tusr run s w =
     bindE (event_base_close pb s w) (\<lambda>w.
     bindE (get_sock pb s w) (\<lambda>x.
     bindE (if ts_timer_id x \<noteq> - 1
            then bindE (with_service pb s (service_close_timer pb run (ts_timer_id x)) w) (\<lambda>(ret, w).
                 bindE (assertE (ret = 0)) (\<lambda>_. sock_upd pb s (\<lambda>x. x\<lparr>ts_timer_id := - 1\<rparr>) w))
            else Inr w) (\<lambda>w.
     bindE (close_conns pb tusr (ts_conns x) w) (\<lambda>w.
     bindE (sock_upd pb s (\<lambda>x. x\<lparr>ts_conns := [], ts_enabled := False\<rparr>) w) (\<lambda>w. Inr (0, w))))))"

definition close_tcp_channel :: "('y, 'w) spoll \<Rightarrow> 'w tusr \<Rightarrow> nat \<Rightarrow> u32 \<Rightarrow> 'w \<Rightarrow> (int \<times> 'w) result" where
  "close_tcp_channel pb tusr s chan w =
     bindE (get_sock pb s w) (\<lambda>x.
     case map_of (ts_conns x) chan of
       None \<Rightarrow> Inr (- 1, w)
     | Some e \<Rightarrow> bindE (tcp_close pb tusr e w) (\<lambda>(_, w). Inr (0, w)))"

subsection \<open>The timer of a socket\<close>

definition is_reopen_listener :: "tcp_socket \<Rightarrow> tcp_shared_data \<Rightarrow> bool" where
  "is_reopen_listener x sd \<longleftrightarrow> \<not> ts_enabled x \<and> ts_connect_cnt x < tc_max_connect (sd_config sd)"

definition reopen_listener :: "('y, 'w) spoll \<Rightarrow> nat \<Rightarrow> 'w \<Rightarrow> (int \<times> 'w) result" where
  "reopen_listener pb s w =
     bindE (sock_remove_event pb s w) (\<lambda>w.
     bindE (get_tcp_socket_fd pb w) (\<lambda>(tmp_fd, w).
     bindE (sock_upd pb s (\<lambda>x. x\<lparr>ts_fd := mk_fd tmp_fd TCP_FD\<rparr>) w) (\<lambda>w.
     if \<not> fd_is_valid (mk_fd tmp_fd TCP_FD) then Inr (- 1, w)
     else
       bindE (make_listen_fd pb s w) (\<lambda>(ret, w).
       if ret \<noteq> 0 then Inr (- 1, w)
       else
         bindE (watch_fd pb s (mk_fd tmp_fd TCP_FD) EV_READ w) (\<lambda>w.
         bindE (sock_upd pb s (\<lambda>x. x\<lparr>ts_enabled := True\<rparr>) w) (\<lambda>w. Inr (0, w)))))))"

definition collect_closed :: "tcp_socket \<Rightarrow> u32 list \<Rightarrow> tcp_socket" where
  "collect_closed x closed =
     (let cs = filter (\<lambda>(chan, _). chan \<notin> set closed) (ts_conns x)
      in x\<lparr>ts_conns := cs, ts_connect_cnt := word_of_nat (length cs)\<rparr>)"

text \<open>
  The loop over the set of timer requests. An entry that its own \<^verbatim>\<open>on_timer\<close> erases is the
  one the iterator stands on.
\<close>

fun timers_loop :: "('y, 'w) spoll \<Rightarrow> nat option \<Rightarrow> nat list \<Rightarrow> 'w \<Rightarrow> 'w result" where
  "timers_loop pb d [] w = Inr w"
| "timers_loop pb d (e # es) w =
     bindE (tcp_on_timer pb e w) (\<lambda>w.
     bindE (get_shared pb d w) (\<lambda>sd.
     if e \<notin> set (sd_timers sd) then Inl Bad_Iterator else timers_loop pb d es w))"

definition sock_on_timer :: "('y, 'w) spoll \<Rightarrow> nat \<Rightarrow> 'w \<Rightarrow> (int \<times> 'w) result" where
  "sock_on_timer pb s w =
     bindE (get_sock pb s w) (\<lambda>x.
     bindE (get_shared pb (ts_shared x) w) (\<lambda>sd.
     bindE (if tc_mode (sd_config sd) = LISTEN
            then
              let x = collect_closed x (sd_closed sd);
                  w = set_shared pb (ts_shared x) (sd\<lparr>sd_closed := []\<rparr>) (set_sock pb s x w)
              in if is_reopen_listener x sd
                 then bindE (reopen_listener pb s w) (\<lambda>(ret, w). bindE (assertE (ret = 0)) (\<lambda>_. Inr w))
                 else Inr w
            else Inr w) (\<lambda>w.
     bindE (get_shared pb (ts_shared x) w) (\<lambda>sd.
     bindE (timers_loop pb (ts_shared x) (sd_timers sd) w) (\<lambda>w. Inr (0, w))))))"

subsection \<open>Sending\<close>

definition tcp_async_send ::
  "('y, 'w) spoll \<Rightarrow> nat \<Rightarrow> connection_info \<Rightarrow> iovec list option \<Rightarrow> nat \<Rightarrow> nat option \<Rightarrow> 'w \<Rightarrow> (int \<times> 'w) result" where
  "tcp_async_send pb s conn iov cnt cb w =
     (if \<not> (iov \<noteq> None \<and> cnt \<noteq> 0) then Inr (- 1, w)
      else with_service pb s (service_submit_async_write pb (ci_fd conn) iov cnt cb None) w)"

definition tcp_cancel_async_send :: "('y, 'w) spoll \<Rightarrow> 'w runner \<Rightarrow> nat \<Rightarrow> connection_info \<Rightarrow> nat option \<Rightarrow> 'w \<Rightarrow> (int \<times> 'w) result" where
  "tcp_cancel_async_send pb run s conn cb w = with_service pb s (service_cancel_async_write pb run (ci_fd conn) cb) w"

subsection \<open>UDP\<close>

definition udp_upd :: "('y, 'w) spoll \<Rightarrow> nat \<Rightarrow> (udp_socket \<Rightarrow> udp_socket) \<Rightarrow> 'w \<Rightarrow> 'w result" where
  "udp_upd pb s f w = bindE (get_udp pb s w) (\<lambda>x. Inr (set_udp pb s (f x) w))"

definition get_udp_socket_fd :: "('y, 'w) spoll \<Rightarrow> 'w \<Rightarrow> (int \<times> 'w) result" where
  "get_udp_socket_fd pb w = bindE (ask_int pb w) (\<lambda>(fd, w). Inr (if 0 < fd then fd else INVALID_FD, w))"

text \<open>The \<^verbatim>\<open>do\<close> block: options and \<^verbatim>\<open>bind\<close> with an own address, then \<^verbatim>\<open>connect\<close> with a peer.\<close>

definition udp_bind :: "('y, 'w) spoll \<Rightarrow> int \<Rightarrow> 'w \<Rightarrow> (int \<times> 'w) result" where
  "udp_bind pb fd w =
     (if \<not> 0 < fd then Inr (- 1, w)
      else
        bindE (ask_int pb w) (\<lambda>(r, w).
        if util_make_listen_socket_reuseable fd r \<noteq> 0 then Inr (- 1, w)
        else
          bindE (ask_int pb w) (\<lambda>(r, w).
          if util_make_listen_socket_reuseable_port fd r \<noteq> 0 then Inr (- 1, w) else ask_int pb w)))"

definition udp_setup :: "('y, 'w) spoll \<Rightarrow> udp_socket \<Rightarrow> 'w \<Rightarrow> (int \<times> 'w) result" where
  "udp_setup pb x w =
     bindE (if us_addr x \<noteq> None then udp_bind pb (fd_num (us_fd x)) w else Inr (if us_peer x = None then - 1 else 0, w)) (\<lambda>(ret, w).
     if ret \<noteq> 0 \<or> us_peer x = None then Inr (ret, w) else ask_int pb w)"

definition opt_addr :: "(string \<Rightarrow> u32) \<Rightarrow> string \<Rightarrow> sockaddr option option" where
  "opt_addr inet_addr s = (if s = [] then Some None else map_option Some (parse_addr inet_addr s))"

definition udp_open ::
  "('y, 'w) spoll \<Rightarrow> (string \<Rightarrow> u32) \<Rightarrow> nat \<Rightarrow> bool \<Rightarrow> udp_config \<Rightarrow> 'w \<Rightarrow> (int \<times> 'w) result" where
  "udp_open pb inet_addr s svc conf w =
     bindE (ev_get pb s w) (\<lambda>b.
     if \<not> (svc \<and> \<not> eb_service b) then Inr (- 1, w)
     else
       bindE (udp_upd pb s (\<lambda>x. x\<lparr>us_config := conf\<rparr>) (ev_set pb s (b\<lparr>eb_service := True\<rparr>) w)) (\<lambda>w.
       case opt_addr inet_addr (uc_addr conf) of
         None \<Rightarrow> Inr (- 1, w)
       | Some own \<Rightarrow>
           bindE (udp_upd pb s (\<lambda>x. if own = None then x else x\<lparr>us_addr := own\<rparr>) w) (\<lambda>w.
           case opt_addr inet_addr (uc_peer_addr conf) of
             None \<Rightarrow> Inr (- 1, w)
           | Some peer \<Rightarrow>
               bindE (udp_upd pb s (\<lambda>x. if peer = None then x else x\<lparr>us_peer := peer\<rparr>) w) (\<lambda>w.
               bindE (get_udp pb s w) (\<lambda>x.
               if us_addr x = None \<and> us_peer x = None then Inr (- 1, w)
               else
                 bindE (service_register_ring_buffer pb (uc_block_size conf) (uc_block_count conf) w) (\<lambda>(buf, w).
                 bindE (udp_upd pb s (\<lambda>x. x\<lparr>us_buf_id := buf\<rparr>) w) (\<lambda>w.
                 if \<not> 0 \<le> buf then Inr (- 1, w)
                 else
                   bindE (get_udp_socket_fd pb w) (\<lambda>(tmp_fd, w).
                   bindE (udp_upd pb s (\<lambda>x. x\<lparr>us_fd := mk_fd tmp_fd UDP_FD\<rparr>) w) (\<lambda>w.
                   if \<not> fd_is_valid (mk_fd tmp_fd UDP_FD) then Inr (- 1, w)
                   else
                     bindE (get_udp pb s w) (\<lambda>x.
                     bindE (udp_setup pb x w) (\<lambda>(ret, w).
                     if ret \<noteq> 0
                     then
                       let (fd, w) = sk_close_fd pb (us_fd x) w
                       in bindE (udp_upd pb s (\<lambda>x. x\<lparr>us_fd := fd\<rparr>) w) (\<lambda>w. Inr (- 1, w))
                     else bindE (watch_fd pb s (us_fd x) (EV_READ OR EV_WRITE) w) (\<lambda>w. Inr (0, w)))))))))))))"

definition udp_handle_read_ready :: "('y, 'w) spoll \<Rightarrow> nat \<Rightarrow> fd_t \<Rightarrow> 'w \<Rightarrow> 'w result" where
  "udp_handle_read_ready pb s fd w =
     bindE (get_udp pb s w) (\<lambda>x.
     let (c, w) = sk_new_closure pb (SC_Udp_Read s) w;
         opt = (if uc_need_detail (us_config x) then read_options_default\<lparr>ro_need_socket_detail := True\<rparr> else read_options_default)
     in bindE (with_service pb s (service_submit_async_read_group pb fd (word_of_int (us_buf_id x)) (Some c) (Some opt)) w) (\<lambda>(ret, w).
        bindE (assertE (ret = 0)) (\<lambda>_. Inr w)))"

definition udp_async_send ::
  "('y, 'w) spoll \<Rightarrow> nat \<Rightarrow> iovec list option \<Rightarrow> nat \<Rightarrow> nat option \<Rightarrow> nat option \<Rightarrow> nat \<Rightarrow> 'w \<Rightarrow> (int \<times> 'w) result" where
  "udp_async_send pb s iov cnt cb addr peer_addr w =
     (if \<not> (iov \<noteq> None \<and> cnt \<noteq> 0) then Inr (- 1, w)
      else
        bindE (get_udp pb s w) (\<lambda>x.
        if addr = None \<and> us_peer x = None then Inr (- 1, w)
        else
          let target = (case addr of None \<Rightarrow> peer_addr | Some a \<Rightarrow> a)
          in with_service pb s (service_submit_async_write pb (us_fd x) iov cnt cb
               (Some (write_options_default\<lparr>wo_sockaddr_ptr := Some target\<rparr>))) w))"

definition udp_cancel_async_send :: "('y, 'w) spoll \<Rightarrow> 'w runner \<Rightarrow> nat \<Rightarrow> nat option \<Rightarrow> 'w \<Rightarrow> (int \<times> 'w) result" where
  "udp_cancel_async_send pb run s cb w =
     bindE (get_udp pb s w) (\<lambda>x. with_service pb s (service_cancel_async_write pb run (us_fd x) cb) w)"

definition udp_connect :: "('y, 'w) spoll \<Rightarrow> nat \<Rightarrow> nat option \<Rightarrow> 'w \<Rightarrow> (int \<times> 'w) result" where
  "udp_connect pb s addr w =
     (if addr = None then Inr (- 1, w) else bindE (ask_int pb w) (\<lambda>(ret, w). Inr (if ret = 0 then 0 else - 1, w)))"

definition on_read_udp_msg :: "('y, 'w) spoll \<Rightarrow> 'w tusr \<Rightarrow> nat \<Rightarrow> int \<Rightarrow> iovec list option \<Rightarrow> bool \<Rightarrow> 'w \<Rightarrow> 'w result" where
  "on_read_udp_msg pb tusr s ret iovs info w =
     bindE (get_udp pb s w) (\<lambda>x.
     if 0 < ret
     then (case iovs of
             None \<Rightarrow> Inl Null_Deref
           | Some [] \<Rightarrow> Inl Out_Of_Bounds
           | Some (v # _) \<Rightarrow> tcall_user pb tusr (\<lambda>n. U_Data n v info) (uc_data (us_config x)) w)
     else if ret < 0 \<and> uc_error (us_config x) \<noteq> None
     then tcall_user pb tusr (\<lambda>n. U_Error n ret) (uc_error (us_config x)) w
     else Inr w)"

definition udp_close :: "('y, 'w) spoll \<Rightarrow> nat \<Rightarrow> 'w \<Rightarrow> (int \<times> 'w) result" where
  "udp_close pb s w =
     bindE (event_base_close pb s w) (\<lambda>w.
     bindE (get_udp pb s w) (\<lambda>x.
     bindE (with_service pb s (service_unregister_ring_buffer pb (word_of_int (us_buf_id x))) w) (\<lambda>(_, w).
     bindE (udp_upd pb s (\<lambda>x. x\<lparr>us_buf_id := - 1\<rparr>) w) (\<lambda>w. Inr (0, w)))))"

subsection \<open>The sockets as a user of the service\<close>

text \<open>The address of an accepted connection is in the buffer the kernel has filled.\<close>

definition run_sclosure :: "('y, 'w) spoll \<Rightarrow> 'w tusr \<Rightarrow> 'w lusr \<Rightarrow> nat \<Rightarrow> cbarg \<Rightarrow> 'w \<Rightarrow> 'w result" where
  "run_sclosure pb tusr app u arg w =
     (let cs = sk_closures (pb_loop pb w)
      in if length cs \<le> u then Inl Use_After_Free
         else case (cs ! u, arg) of
                (SC_Tcp_Read e, Arg_Read ret iovs _ _) \<Rightarrow> on_read_tcp_msg pb tusr e ret iovs w
              | (SC_Udp_Read s, Arg_Read ret iovs _ info) \<Rightarrow> on_read_udp_msg pb tusr s ret iovs info w
              | (SC_Accept s, Arg_Accept ret fd) \<Rightarrow>
                  (case fd of
                     None \<Rightarrow> Inl Null_Deref
                   | Some fd \<Rightarrow> bindE (ask_addr pb w) (\<lambda>(_, addr, w). on_accept pb tusr s ret fd addr w))
              | (SC_App n, arg) \<Rightarrow> app (L_User n arg) w
              | (SC_Tcp_Timer s, Arg_Res _) \<Rightarrow> bindE (sock_on_timer pb s w) (\<lambda>(_, w). Inr w)
              | _ \<Rightarrow> Inl Bad_Function_Call)"

definition sock_usr :: "('y, 'w) spoll \<Rightarrow> 'w tusr \<Rightarrow> 'w lusr \<Rightarrow> 'w lusr" where
  "sock_usr pb tusr app c w =
     (case c of
        L_Started e ok \<Rightarrow>
          if sk_tcp (pb_loop pb w) e \<noteq> None then tcp_on_started pb tusr e ok w else base_on_started pb e ok w
      | L_Read_Ready e fd \<Rightarrow>
          if sk_tcp (pb_loop pb w) e \<noteq> None then tcp_handle_read_ready pb e fd w
          else if sk_sockets (pb_loop pb w) e \<noteq> None then sock_handle_read_ready pb e fd w
          else udp_handle_read_ready pb e fd w
      | L_Write_Ready e fd \<Rightarrow> if sk_tcp (pb_loop pb w) e \<noteq> None then tcp_handle_write_ready pb e fd w else Inr w
      | L_User u arg \<Rightarrow> run_sclosure pb tusr app u arg w
      | _ \<Rightarrow> app c w)"

end
