(* ===== verification/Socket_Proofs.thy ===== *)
theory Socket_Proofs
  imports Sockets Loop_Frame
begin

unbundle bit_operations_syntax

text \<open>
  Lemmas about the sockets over any backend that keeps the contract of the event loop: the
  locale \<open>socket_backend\<close>. Most operations of a connection only change the loop state; the
  bundle \<open>sk_defs\<close> computes them.
\<close>

text \<open>A user function that returns, calls no other function of the user and leaves connection \<open>e\<close> open.\<close>

definition tusr_calm :: "('y, 'w) spoll \<Rightarrow> 'w tusr \<Rightarrow> nat \<Rightarrow> bool" where
  "tusr_calm pb tusr e \<longleftrightarrow>
     (\<forall>c w. \<exists>w'. tusr c w = Inr w' \<and> sk_calls (pb_loop pb w') = sk_calls (pb_loop pb w) \<and>
        sk_tcp (pb_loop pb w') e = sk_tcp (pb_loop pb w) e)"

lemma tusr_calmE:
  assumes "tusr_calm pb tusr e"
  obtains w' where "tusr c w = Inr w'" "sk_calls (pb_loop pb w') = sk_calls (pb_loop pb w)"
    "sk_tcp (pb_loop pb w') e = sk_tcp (pb_loop pb w) e"
  using assms unfolding tusr_calm_def by blast

text \<open>User functions that return and leave the loop object as it is.\<close>

definition tusr_idle :: "('y, 'w) spoll \<Rightarrow> 'w tusr \<Rightarrow> bool" where
  "tusr_idle pb tusr \<longleftrightarrow> (\<forall>c w. \<exists>w'. tusr c w = Inr w' \<and> pb_loop pb w' = pb_loop pb w)"

lemma tusr_idleE:
  assumes "tusr_idle pb tusr"
  obtains g where "\<forall>c w. tusr c w = Inr (g c w)" "\<forall>c w. pb_loop pb (g c w) = pb_loop pb w"
  using assms unfolding tusr_idle_def by metis

lemma sint_rest:
  assumes "0 < len" "len \<le> INT32_MAX" "int n \<le> INT32_MAX"
  shows "sint (word_of_int (len - int n) :: 32 word) = len - int n"
  using assms unfolding sint_sbintrunc' by (intro signed_take_bit_int_eq_self) (simp_all add: INT32_MAX_def)

text \<open>A connection after its close.\<close>

definition closed_tcp :: "tcp_event \<Rightarrow> tcp_event" where
  "closed_tcp x = x\<lparr>tcp_conn := (tcp_conn x)\<lparr>ci_fd := fst (snd (fd_close (ci_fd (tcp_conn x))))\<rparr>, tcp_times := - 1, tcp_buf_id := - 1,
     tcp_state := TCP_CLOSED, tcp_shared := None\<rparr>"

text \<open>The ticks of the timer of socket \<open>s\<close>, one after the other.\<close>

primrec sock_ticks :: "('y, 'w) spoll \<Rightarrow> nat \<Rightarrow> nat \<Rightarrow> 'w \<Rightarrow> 'w result" where
  "sock_ticks pb s 0 w = Inr w"
| "sock_ticks pb s (Suc n) w = bindE (sock_on_timer pb s w) (\<lambda>(_, w). sock_ticks pb s n w)"

text \<open>Socket \<open>s\<close>, and the configuration in the shared data \<open>d\<close>.\<close>

definition spart :: "nat \<Rightarrow> nat \<Rightarrow> 'y sock_loop_scheme \<Rightarrow> tcp_socket option \<times> tcp_config option" where
  "spart s d l = (sk_sockets l s, map_option sd_config (sk_shared l d))"

lemma spart_simps [simp]:
  "spart s d (l\<lparr>el_events := x1\<rparr>) = spart s d l" "spart s d (l\<lparr>el_cache := x2\<rparr>) = spart s d l"
  "spart s d (l\<lparr>sk_tcp := x3\<rparr>) = spart s d l" "spart s d (l\<lparr>sk_calls := x4\<rparr>) = spart s d l"
  "spart s d (l\<lparr>sk_answers := x5\<rparr>) = spart s d l" "spart s d (l\<lparr>sk_closed_fds := x6\<rparr>) = spart s d l"
  "spart s d (l\<lparr>sk_chan_id := x7\<rparr>) = spart s d l" "spart s d (l\<lparr>el_next := x8\<rparr>) = spart s d l"
  "spart s d (l\<lparr>el_closures := x9\<rparr>) = spart s d l" "spart s d (l\<lparr>sk_closures := x10\<rparr>) = spart s d l"
  by (simp_all add: spart_def)

text \<open>User functions that leave that socket and that configuration as they are.\<close>

definition tusr_sockets :: "('y, 'w) spoll \<Rightarrow> 'w tusr \<Rightarrow> nat \<Rightarrow> nat \<Rightarrow> bool" where
  "tusr_sockets pb tusr s d \<longleftrightarrow> (\<forall>c w w'. tusr c w = Inr w' \<longrightarrow> spart s d (pb_loop pb w') = spart s d (pb_loop pb w))"

text \<open>
  The invariant of a listener: the counter counts the connections, their channel numbers are
  distinct, the counter never exceeds the configured maximum and is below it while the
  listener accepts.
\<close>

definition listener_ok :: "u32 \<Rightarrow> tcp_socket \<Rightarrow> bool" where
  "listener_ok m x \<longleftrightarrow> distinct (map fst (ts_conns x)) \<and> unat (ts_connect_cnt x) = length (ts_conns x) \<and> ts_connect_cnt x \<le> m \<and>
     (ts_enabled x \<longrightarrow> ts_connect_cnt x < m)"

definition listener_inv :: "nat \<Rightarrow> tcp_config \<Rightarrow> tcp_socket option \<times> tcp_config option \<Rightarrow> bool" where
  "listener_inv d conf p \<longleftrightarrow> (\<exists>x. p = (Some x, Some conf) \<and> ts_shared x = Some d \<and> listener_ok (tc_max_connect conf) x)"

lemma listener_ok_fd [simp]: "listener_ok m (x\<lparr>ts_fd := fd\<rparr>) = listener_ok m x"
  by (simp add: listener_ok_def)

lemma listener_ok_accept:
  assumes "listener_ok m x" "ts_enabled x" "chan \<notin> fst ` set (ts_conns x)"
  shows "if ts_connect_cnt x + 1 < m then listener_ok m (x\<lparr>ts_conns := ts_conns x @ [(chan, e)], ts_connect_cnt := ts_connect_cnt x + 1\<rparr>)
     else listener_ok m (x\<lparr>ts_conns := ts_conns x @ [(chan, e)], ts_connect_cnt := ts_connect_cnt x + 1, ts_enabled := False\<rparr>)"
proof -
  have lt: "unat (ts_connect_cnt x) < unat m" using assms(1,2) by (simp add: listener_ok_def word_less_nat_alt)
  then have u: "unat (ts_connect_cnt x + 1) = unat (ts_connect_cnt x) + 1"
    using unat_u32_less [of m] by (simp add: unat_word_ariths)
  show ?thesis using assms lt u by (auto simp: listener_ok_def word_less_nat_alt word_le_nat_alt)
qed

lemma listener_ok_collect:
  assumes "listener_ok m x"
  shows "listener_ok m (collect_closed x closed)"
    "\<not> ts_enabled x \<Longrightarrow> ts_connect_cnt (collect_closed x closed) < m \<Longrightarrow> listener_ok m ((collect_closed x closed)\<lparr>ts_fd := fd, ts_enabled := True\<rparr>)"
proof -
  let ?cs = "filter (\<lambda>(chan, _). chan \<notin> set closed) (ts_conns x)"
  have le: "length ?cs \<le> unat (ts_connect_cnt x)" using assms by (simp add: listener_ok_def)
  then have u: "unat (word_of_nat (length ?cs) :: u32) = length ?cs"
    using unat_u32_less [of "ts_connect_cnt x"] by (simp add: unat_of_nat)
  have "distinct (map fst ?cs)" using assms by (simp add: listener_ok_def distinct_map_filter)
  then show "listener_ok m (collect_closed x closed)"
    "\<not> ts_enabled x \<Longrightarrow> ts_connect_cnt (collect_closed x closed) < m \<Longrightarrow> listener_ok m ((collect_closed x closed)\<lparr>ts_fd := fd, ts_enabled := True\<rparr>)"
    using assms le u by (auto simp: listener_ok_def collect_closed_def Let_def word_less_nat_alt word_le_nat_alt
      intro: order.trans [OF length_filter_le] le_less_trans [OF length_filter_le])
qed

locale socket_backend = loop_backend pb inited
  for pb :: "('y sock_loop_scheme, 'w) poll_base" and inited :: "'w \<Rightarrow> bool"
begin

subsection \<open>Delivering data\<close>

lemma tcall_user_calm:
  assumes "tusr_calm pb tusr e"
  obtains w' where "tcall_user pb tusr c (Some n) w = Inr w'" "sk_calls (pb_loop pb w') = sk_calls (pb_loop pb w) @ [c n]"
    "sk_tcp (pb_loop pb w') e = sk_tcp (pb_loop pb w) e"
proof -
  obtain w' where "tusr (c n) (upd_loop pb (\<lambda>l. l\<lparr>sk_calls := sk_calls l @ [c n]\<rparr>) w) = Inr w'"
    "sk_calls (pb_loop pb w') = sk_calls (pb_loop pb w) @ [c n]" "sk_tcp (pb_loop pb w') e = sk_tcp (pb_loop pb w) e"
    by (rule tusr_calmE [OF assms, of "c n" "upd_loop pb (\<lambda>l. l\<lparr>sk_calls := sk_calls l @ [c n]\<rparr>) w"]) simp
  then show ?thesis using that by (simp add: tcall_user_def)
qed

lemma deliver_iovs_exact:
  assumes "tusr_calm pb tusr e" "sk_tcp (pb_loop pb w) e = Some x" "len \<le> INT32_MAX" "len \<le> int (length (iov_addrs vs))"
    "list_all (\<lambda>v. int (iov_len v) \<le> INT32_MAX) vs"
  shows "\<exists>w' ds. deliver_iovs pb tusr e (Some n) vs len w = Inr w' \<and>
     sk_calls (pb_loop pb w') = sk_calls (pb_loop pb w) @ map (T_Data n (tcp_conn x)) ds \<and>
     iov_addrs ds = take (nat len) (iov_addrs vs)"
  using assms(2-5)
proof (induction vs arbitrary: len w)
  case Nil
  then show ?case by (intro exI [of _ w] exI [of _ "[]"]) simp
next
  case (Cons v vs)
  show ?case
  proof (cases "0 < len")
    case False
    then show ?thesis by (intro exI [of _ w] exI [of _ "[]"]) simp
  next
    case True
    let ?len = "len - int (iov_len v)" and ?d = "v\<lparr>iov_len := (if iov_len v < nat len then iov_len v else nat len)\<rparr>"
    obtain w1 where 1: "tcall_user pb tusr (\<lambda>n. T_Data n (tcp_conn x) ?d) (Some n) w = Inr w1"
      "sk_calls (pb_loop pb w1) = sk_calls (pb_loop pb w) @ [T_Data n (tcp_conn x) ?d]" "sk_tcp (pb_loop pb w1) e = sk_tcp (pb_loop pb w) e"
      by (rule tcall_user_calm [OF assms(1)])
    from 1(3) Cons.prems(1) have x: "sk_tcp (pb_loop pb w1) e = Some x" by simp
    have s: "sint (word_of_int ?len :: 32 word) = ?len" using True Cons.prems(2,4) by (intro sint_rest) simp_all
    have l: "?len \<le> INT32_MAX" "?len \<le> int (length (iov_addrs vs))" "list_all (\<lambda>v. int (iov_len v) \<le> INT32_MAX) vs"
      using Cons.prems(2-4) by simp_all
    obtain w' ds where 2: "deliver_iovs pb tusr e (Some n) vs ?len w1 = Inr w'"
      "sk_calls (pb_loop pb w') = sk_calls (pb_loop pb w1) @ map (T_Data n (tcp_conn x)) ds"
      "iov_addrs ds = take (nat ?len) (iov_addrs vs)"
      using Cons.IH [OF x l] by blast
    have "deliver_iovs pb tusr e (Some n) (v # vs) len w = Inr w'" using True 1 2(1) s Cons.prems(1) by (simp add: get_tcp_def Let_def)
    moreover have "iov_addrs (?d # ds) = take (nat len) (iov_addrs (v # vs))" using 2(3) True by (simp add: nat_diff_distrib' take_upt iov_region_def)
    ultimately show ?thesis using 1(2) 2(2) by (intro exI [of _ w'] exI [of _ "?d # ds"]) simp
  qed
qed

lemma on_read_exact:
  assumes "tusr_calm pb tusr e" "sk_tcp (pb_loop pb w) e = Some x" "get_shared pb (tcp_shared x) w = Inr sd"
    "h_data (tc_handlers (sd_config sd)) = Some n" "0 < ret" "ret \<le> INT32_MAX" "ret \<le> int (length (iov_addrs vs))"
    "list_all (\<lambda>v. int (iov_len v) \<le> INT32_MAX) vs"
  shows "\<exists>w' ds. on_read_tcp_msg pb tusr e ret (Some vs) w = Inr w' \<and>
     sk_calls (pb_loop pb w') = sk_calls (pb_loop pb w) @ map (T_Data n (tcp_conn x)) ds \<and>
     iov_addrs ds = take (nat ret) (iov_addrs vs)"
  using deliver_iovs_exact [OF assms(1,2,6-8), of n] assms(2-5) by (simp add: on_read_tcp_msg_def get_tcp_def Let_def)

subsection \<open>Closing a connection\<close>

lemma closed_read_null:
  assumes "tcp_close pb tusr e w = Inr (r, w')" "sk_tcp (pb_loop pb w) e = Some x" "tcp_state x \<noteq> TCP_CLOSED"
  shows "on_read_tcp_msg pb tusr' e ret iovs w' = Inl Null_Deref"
proof -
  obtain v u b where "tcp_upd pb e (\<lambda>x. x\<lparr>tcp_shared := None\<rparr>) v = Inr u" "w' = ev_set pb e b u"
    using assms unfolding tcp_close_def get_tcp_def by (auto elim!: bindE_InrE simp only: option.case bindE_simps if_False)
  then show ?thesis
    by (auto simp: tcp_upd_def set_tcp_def ev_set_def on_read_tcp_msg_def get_tcp_def get_shared_def elim!: bindE_InrE split: option.splits)
qed

lemmas sk_get_defs = get_tcp_def get_shared_def get_sock_def ev_get_def tcp_upd_def
lemmas sk_set_defs = set_tcp_def set_shared_def set_sock_def ev_set_def upd_loop_def

lemma event_base_close_form:
  assumes "el_events (pb_loop pb w) e = Some b"
  obtains cs where "event_base_close pb e w = Inr (pb_set_loop pb ((pb_loop pb w)\<lparr>el_cache := cs, el_events := (el_events (pb_loop pb w))(e \<mapsto>
     b\<lparr>eb_fds_evts := [], eb_read_cb := None, eb_write_cb := None, eb_cancel_read_cb := None, eb_cancel_write_cb := None\<rparr>)\<rparr>) w)"
proof (cases "eb_service b \<and> (el_state (pb_loop pb w) = ES_INIT \<or> el_state (pb_loop pb w) = ES_START)")
  case True
  then show ?thesis using assms
    by (intro that [of "el_cache (pb_loop pb w) @ [\<lparr>li_evt = e, li_instruction = EI_REMOVE, li_fds_evts = eb_fds_evts b\<rparr>]"])
      (auto simp: event_base_close_def service_remove_event_def on_loop_def remove_event_def sk_get_defs sk_set_defs loop_set set_set)
next
  case False
  then show ?thesis using assms
    by (intro that [of "el_cache (pb_loop pb w)"])
      (auto simp: event_base_close_def service_remove_event_def on_loop_def remove_event_def sk_get_defs sk_set_defs loop_set set_set)
qed

lemma tcp_close_connected:
  assumes "tusr_idle pb tusr"
    "el_events (pb_loop pb w) e = Some b" "sk_tcp (pb_loop pb w) e = Some x" "tcp_shared x = Some d" "sk_shared (pb_loop pb w) d = Some sd"
    "tcp_state x = TCP_CONNECTED" "tcp_buf_id x \<noteq> - 1" "fd_is_valid (ci_fd (tcp_conn x))" "h_close (tc_handlers (sd_config sd)) = Some n"
  shows "\<exists>w'. tcp_close pb tusr e w = Inr (0, w') \<and>
     sk_calls (pb_loop pb w') = sk_calls (pb_loop pb w) @ [T_Close n (tcp_conn (closed_tcp x))] \<and>
     sk_tcp (pb_loop pb w') e = Some (closed_tcp x) \<and>
     sk_shared (pb_loop pb w') d = Some (sd\<lparr>sd_buffers := sd_buffers sd @ [tcp_buf_id x], sd_closed := sd_closed sd @ [ci_chan (tcp_conn x)],
       sd_timers := remove1 e (sd_timers sd)\<rparr>) \<and>
     sk_closed_fds (pb_loop pb w') = sk_closed_fds (pb_loop pb w) @ [fd_num (ci_fd (tcp_conn x))]"
proof -
  obtain g where g: "\<forall>c w. tusr c w = Inr (g c w)" "\<forall>c w. pb_loop pb (g c w) = pb_loop pb w" using assms(1) by (rule tusr_idleE)
  obtain cs where cl: "event_base_close pb e w = Inr (pb_set_loop pb ((pb_loop pb w)\<lparr>el_cache := cs, el_events := (el_events (pb_loop pb w))(e \<mapsto>
     b\<lparr>eb_fds_evts := [], eb_read_cb := None, eb_write_cb := None, eb_cancel_read_cb := None, eb_cancel_write_cb := None\<rparr>)\<rparr>) w)"
    using assms(2) by (rule event_base_close_form)
  show ?thesis using assms(2-)
    by (simp add: tcp_close_def cl tcp_close_fd_def sk_close_fd_def fd_close_def fd_is_valid_def close_reconnect_timer_def remove_timer_req_def
        add_buffer_id_def add_closed_chan_id_def tcall_user_def closed_tcp_def INVALID_FD_def g sk_get_defs sk_set_defs loop_set set_set)
qed

lemma tcp_close_again:
  assumes "sk_tcp (pb_loop pb w) e = Some x" "tcp_state x = TCP_CLOSED"
  shows "tcp_close pb tusr e w = Inr (0, w)"
  using assms by (simp add: tcp_close_def get_tcp_def)

lemma peer_close_twice:
  assumes "tusr_idle pb tusr"
    "el_events (pb_loop pb w) e = Some b" "sk_tcp (pb_loop pb w) e = Some x" "tcp_shared x = Some d" "sk_shared (pb_loop pb w) d = Some sd"
    "tcp_state x = TCP_CONNECTED" "tcp_buf_id x \<noteq> - 1" "fd_is_valid (ci_fd (tcp_conn x))" "h_close (tc_handlers (sd_config sd)) = Some n"
  shows "\<exists>w1 w2. on_read_tcp_msg pb tusr e 0 iovs w = Inr w1 \<and> sk_closed_fds (pb_loop pb w1) = sk_closed_fds (pb_loop pb w) \<and>
     sk_tcp (pb_loop pb w1) e = Some x \<and> tcp_close pb tusr e w1 = Inr (0, w2) \<and>
     sk_calls (pb_loop pb w2) = sk_calls (pb_loop pb w) @ [T_Close n (tcp_conn x), T_Close n (tcp_conn (closed_tcp x))]"
proof -
  obtain g where g: "\<forall>c w. tusr c w = Inr (g c w)" "\<forall>c w. pb_loop pb (g c w) = pb_loop pb w" using assms(1) by (rule tusr_idleE)
  define w1 where "w1 = g (T_Close n (tcp_conn x)) (upd_loop pb (\<lambda>l. l\<lparr>sk_calls := sk_calls l @ [T_Close n (tcp_conn x)]\<rparr>) w)"
  have l: "pb_loop pb w1 = (pb_loop pb w)\<lparr>sk_calls := sk_calls (pb_loop pb w) @ [T_Close n (tcp_conn x)]\<rparr>"
    unfolding w1_def using g(2) by simp
  have "on_read_tcp_msg pb tusr e 0 iovs w = Inr w1"
    using assms(2-) g(1) by (simp add: on_read_tcp_msg_def tcall_user_def get_tcp_def get_shared_def w1_def)
  moreover obtain w2 where "tcp_close pb tusr e w1 = Inr (0, w2)"
      "sk_calls (pb_loop pb w2) = sk_calls (pb_loop pb w1) @ [T_Close n (tcp_conn (closed_tcp x))]"
    using tcp_close_connected [where w = w1, OF assms(1), of e b x d sd n] assms(2-) l by auto
  ultimately show ?thesis using l assms(3) by auto
qed

subsection \<open>Reconnecting\<close>

lemmas ask_defs = ask_int_def ask_connect_def ask_info_def ask_addr_def ask_def
lemmas loop_request_defs = with_service_def service_add_event_def service_remove_event_def on_loop_def add_event_def remove_event_def
lemmas connect_defs = handle_connect_timeout_def try_connect_def get_tcp_socket_fd_def check_and_process_tcp_connected_def check_tcp_connect_def
  is_tcp_connect_def set_keep_alive_def close_reconnect_timer_def remove_timer_req_def tcp_remove_event_def clear_fds_and_evts_def watch_fd_def
  fd_is_valid_def mk_fd_def ask_defs loop_request_defs

lemma on_timer_waits:
  assumes "sk_tcp (pb_loop pb w) e = Some x" "tcp_times x < 9"
  shows "tcp_on_timer pb e w = Inr (set_tcp pb e (x\<lparr>tcp_times := tcp_times x + 1\<rparr>) w)"
  using assms by (simp add: tcp_on_timer_def sk_get_defs sk_set_defs loop_set)

lemma on_timer_retries:
  assumes "sk_tcp (pb_loop pb w) e = Some x" "9 \<le> tcp_times x"
  shows "tcp_on_timer pb e w = handle_connect_timeout pb e (set_tcp pb e (x\<lparr>tcp_times := tcp_times x + 1\<rparr>) w)"
  using assms by (simp add: tcp_on_timer_def sk_get_defs sk_set_defs loop_set)

lemma sock_on_timer_connector:
  assumes "sk_sockets (pb_loop pb w) s = Some y" "ts_shared y = Some d" "sk_shared (pb_loop pb w) d = Some sd"
    "tc_mode (sd_config sd) = CONNECT"
  shows "sock_on_timer pb s w = bindE (timers_loop pb (Some d) (sd_timers sd) w) (\<lambda>w. Inr (0, w))"
  using assms by (simp add: sock_on_timer_def get_sock_def get_shared_def)

lemma sock_tick_waits:
  assumes "sk_sockets (pb_loop pb w) s = Some y" "ts_shared y = Some d" "sk_shared (pb_loop pb w) d = Some sd"
    "tc_mode (sd_config sd) = CONNECT" "sd_timers sd = [e]" "sk_tcp (pb_loop pb w) e = Some x" "tcp_times x < 9"
  shows "sock_on_timer pb s w = Inr (0, set_tcp pb e (x\<lparr>tcp_times := tcp_times x + 1\<rparr>) w)"
  using assms
  by (simp add: sock_on_timer_connector [OF assms(1-4)] on_timer_waits [OF assms(6,7)] get_shared_def set_tcp_def)

lemma set_tcp_same [simp]: "sk_tcp (pb_loop pb w) e = Some x \<Longrightarrow> set_tcp pb e x w = w"
  by (simp add: set_tcp_def upd_loop_def fun_upd_idem set_loop)

lemma sock_ticks_wait:
  assumes "sk_sockets (pb_loop pb w) s = Some y" "ts_shared y = Some d" "sk_shared (pb_loop pb w) d = Some sd"
    "tc_mode (sd_config sd) = CONNECT" "sd_timers sd = [e]" "sk_tcp (pb_loop pb w) e = Some x" "tcp_times x + int n \<le> 9"
  shows "sock_ticks pb s n w = Inr (set_tcp pb e (x\<lparr>tcp_times := tcp_times x + int n\<rparr>) w)"
  using assms
proof (induction n arbitrary: w x)
  case (Suc n)
  let ?w = "set_tcp pb e (x\<lparr>tcp_times := tcp_times x + 1\<rparr>) w"
  have "sock_ticks pb s n ?w = Inr (set_tcp pb e (x\<lparr>tcp_times := tcp_times x + 1 + int n\<rparr>) ?w)"
    using Suc.IH [of ?w "x\<lparr>tcp_times := tcp_times x + 1\<rparr>"] Suc.prems by (simp add: set_tcp_def)
  moreover have "sock_on_timer pb s w = Inr (0, ?w)" using Suc.prems by (intro sock_tick_waits) simp_all
  ultimately show ?case by (simp add: set_tcp_def upd_loop_def loop_set set_set add.assoc)
qed simp

lemma tenth_tick_retries:
  assumes "sk_sockets (pb_loop pb w) s = Some y" "ts_shared y = Some d" "sk_shared (pb_loop pb w) d = Some sd"
    "tc_mode (sd_config sd) = CONNECT" "sd_timers sd = [e]" "sk_tcp (pb_loop pb w) e = Some x" "tcp_times x = 0"
    "el_events (pb_loop pb w) e = Some b" "eb_service b" "eb_fds_evts b = []" "el_state (pb_loop pb w) = ES_START"
    "tcp_state x \<noteq> TCP_CONNECTED" "\<not> fd_is_valid (ci_fd (tcp_conn x))"
    "sk_answers (pb_loop pb w) = Ans_Int fd # Ans_Connect (Some EINPROGRESS) # as" "0 < fd"
  shows "\<exists>w'. sock_ticks pb s 10 w = Inr w' \<and> sk_answers (pb_loop pb w') = as \<and>
     el_cache (pb_loop pb w') = el_cache (pb_loop pb w) @
       [\<lparr>li_evt = e, li_instruction = EI_ADD, li_fds_evts = [(mk_fd fd TCP_FD, EV_WRITE)]\<rparr>] \<and>
     sk_tcp (pb_loop pb w') e = Some (x\<lparr>tcp_times := 10, tcp_state := TCP_INPROGRESS, tcp_conn := (tcp_conn x)\<lparr>ci_fd := mk_fd fd TCP_FD\<rparr>\<rparr>)"
proof -
  have split: "sock_ticks pb s (Suc n) v = bindE (sock_ticks pb s n v) (\<lambda>v. bindE (sock_on_timer pb s v) (\<lambda>(_, v). Inr v))" for n v
  proof (induction n arbitrary: v)
    case (Suc n)
    then show ?case by (cases "sock_on_timer pb s v") auto
  qed simp
  let ?w = "set_tcp pb e (x\<lparr>tcp_times := 9\<rparr>) w"
  have "sock_ticks pb s 9 w = Inr ?w" using sock_ticks_wait [OF assms(1-6), of 9] assms(7) by simp
  then have "sock_ticks pb s 10 w = bindE (sock_on_timer pb s ?w) (\<lambda>(_, v). Inr v)" using split [of 9 w] by simp
  moreover have "sock_on_timer pb s ?w = bindE (timers_loop pb (Some d) [e] ?w) (\<lambda>w. Inr (0, w))"
    using assms(1-5) by (subst sock_on_timer_connector [of _ _ y d sd]) (simp_all add: set_tcp_def)
  moreover have "tcp_on_timer pb e ?w = handle_connect_timeout pb e (set_tcp pb e (x\<lparr>tcp_times := 10\<rparr>) ?w)"
    by (subst on_timer_retries [of _ _ "x\<lparr>tcp_times := 9\<rparr>"]) (simp_all add: set_tcp_def)
  ultimately show ?thesis using assms(2-)
    by (simp add: connect_defs sk_get_defs sk_set_defs loop_set set_set)
qed

lemma established_in_timer:
  assumes "sk_sockets (pb_loop pb w) s = Some y" "ts_shared y = Some d" "sk_shared (pb_loop pb w) d = Some sd"
    "tc_mode (sd_config sd) = CONNECT" "sd_timers sd = e # es" "distinct (sd_timers sd)" "sk_tcp (pb_loop pb w) e = Some x" "9 \<le> tcp_times x"
    "tcp_shared x = Some d" "el_events (pb_loop pb w) e = Some b" "eb_service b" "tcp_state x \<noteq> TCP_CONNECTED" "\<not> fd_is_valid (ci_fd (tcp_conn x))"
    "sk_answers (pb_loop pb w) = Ans_Int fd # Ans_Connect None # Ans_Info 0 TCP_ESTABLISHED # Ans_Addr 0 loc # Ans_Addr 0 peer # as"
    "0 < fd" "sa_port loc \<noteq> sa_port peer" "\<not> ka_enabled (tc_keep_alive (sd_config sd))"
  shows "sock_on_timer pb s w = Inl Bad_Iterator"
proof -
  have "sock_on_timer pb s w = bindE (timers_loop pb (Some d) (e # es) w) (\<lambda>w. Inr (0, w))"
    using assms(5) by (simp add: sock_on_timer_connector [OF assms(1-4)])
  moreover have "tcp_on_timer pb e w = handle_connect_timeout pb e (set_tcp pb e (x\<lparr>tcp_times := tcp_times x + 1\<rparr>) w)"
    by (rule on_timer_retries [OF assms(7,8)])
  ultimately show ?thesis using assms(2-)
    by (cases "el_state (pb_loop pb w) = ES_INIT \<or> el_state (pb_loop pb w) = ES_START")
      (simp_all add: connect_defs sk_get_defs sk_set_defs loop_set set_set)
qed

subsection \<open>The listener\<close>

lemma tcall_user_sockets:
  assumes "tusr_sockets pb tusr s d" "tcall_user pb tusr c f w = Inr w'"
  shows "spart s d (pb_loop pb w') = spart s d (pb_loop pb w)"
  using assms unfolding tusr_sockets_def tcall_user_def
  by (auto split: option.splits)

lemma ask_spart:
  "ask pb w = Inr (a, w') \<Longrightarrow> spart s d (pb_loop pb w') = spart s d (pb_loop pb w)"
  "ask_int pb w = Inr (i, w') \<Longrightarrow> spart s d (pb_loop pb w') = spart s d (pb_loop pb w)"
  "ask_connect pb w = Inr (c, w') \<Longrightarrow> spart s d (pb_loop pb w') = spart s d (pb_loop pb w)"
  "ask_info pb w = Inr (i, st, w') \<Longrightarrow> spart s d (pb_loop pb w') = spart s d (pb_loop pb w)"
  "ask_addr pb w = Inr (i, ad, w') \<Longrightarrow> spart s d (pb_loop pb w') = spart s d (pb_loop pb w)"
  "get_tcp_socket_fd pb w = Inr (i, w') \<Longrightarrow> spart s d (pb_loop pb w') = spart s d (pb_loop pb w)"
  by (auto simp: ask_defs get_tcp_socket_fd_def elim!: bindE_InrE split: list.splits sock_answer.splits)

lemma small_spart:
  "tcp_upd pb e f w = Inr w' \<Longrightarrow> spart s d (pb_loop pb w') = spart s d (pb_loop pb w)"
  "with_service pb e (service_add_event pb e) w = Inr w' \<Longrightarrow> spart s d (pb_loop pb w') = spart s d (pb_loop pb w)"
  "with_service pb e (service_remove_event pb e) w = Inr w' \<Longrightarrow> spart s d (pb_loop pb w') = spart s d (pb_loop pb w)"
  "clear_fds_and_evts pb e w = Inr w' \<Longrightarrow> spart s d (pb_loop pb w') = spart s d (pb_loop pb w)"
  "spart s d (pb_loop pb (ev_set pb e b w)) = spart s d (pb_loop pb w)"
  "sk_close_fd pb fd w = (fd', w') \<Longrightarrow> spart s d (pb_loop pb w') = spart s d (pb_loop pb w)"
  by (auto simp: tcp_upd_def set_tcp_def ev_set_def loop_request_defs clear_fds_and_evts_def sk_close_fd_def loop_set
      elim!: bindE_InrE split: if_splits option.splits prod.splits)

lemma shared_spart:
  "remove_timer_req pb dd e w = Inr w' \<Longrightarrow> spart s d (pb_loop pb w') = spart s d (pb_loop pb w)"
  "reg_timer_req pb dd e w = Inr w' \<Longrightarrow> spart s d (pb_loop pb w') = spart s d (pb_loop pb w)"
  "add_buffer_id pb dd b w = Inr w' \<Longrightarrow> spart s d (pb_loop pb w') = spart s d (pb_loop pb w)"
  "add_closed_chan_id pb dd c w = Inr w' \<Longrightarrow> spart s d (pb_loop pb w') = spart s d (pb_loop pb w)"
  "get_buffer_id pb dd w = Inr (b, w') \<Longrightarrow> spart s d (pb_loop pb w') = spart s d (pb_loop pb w)"
  by (auto simp: remove_timer_req_def reg_timer_req_def add_buffer_id_def add_closed_chan_id_def get_buffer_id_def get_shared_def set_shared_def
      service_register_ring_buffer_def with_poll_def spart_def fun_eq_iff
      elim!: bindE_InrE split: option.splits list.splits if_splits dest: register_loop)

lemmas spart_dests = ask_spart small_spart(1-4,6) shared_spart

lemma connection_spart:
  "watch_fd pb e fd evt w = Inr w' \<Longrightarrow> spart s d (pb_loop pb w') = spart s d (pb_loop pb w)"
  "tcp_close_fd pb e w = Inr w' \<Longrightarrow> spart s d (pb_loop pb w') = spart s d (pb_loop pb w)"
  "check_tcp_connect pb e w = Inr (ok, w') \<Longrightarrow> spart s d (pb_loop pb w') = spart s d (pb_loop pb w)"
  by (auto simp: watch_fd_def tcp_close_fd_def check_tcp_connect_def is_tcp_connect_def small_spart(5)
      elim!: bindE_InrE split: if_splits prod.splits dest!: spart_dests [where s = s and d = d])

lemma tcp_remove_event_spart: "tcp_remove_event pb e c w = Inr w' \<Longrightarrow> spart s d (pb_loop pb w') = spart s d (pb_loop pb w)"
  by (auto simp: tcp_remove_event_def elim!: bindE_InrE split: if_splits dest!: spart_dests [where s = s and d = d] connection_spart [where s = s and d = d])

lemma try_connect_spart: "try_connect pb e first w = Inr (r, w') \<Longrightarrow> spart s d (pb_loop pb w') = spart s d (pb_loop pb w)"
  by (auto simp: try_connect_def elim!: bindE_InrE split: if_splits option.splits dest!: spart_dests [where s = s and d = d] connection_spart [where s = s and d = d] tcp_remove_event_spart [where s = s and d = d])

lemma tcp_open_spart:
  assumes "tusr_sockets pb tusr s d" "tcp_open pb tusr e conn dd w = Inr (r, w')"
  shows "spart s d (pb_loop pb w') = spart s d (pb_loop pb w)"
  using assms(2) by (auto simp: tcp_open_def small_spart(5) elim!: bindE_InrE split: if_splits
      dest!: spart_dests [where s = s and d = d] connection_spart [where s = s and d = d] try_connect_spart [where s = s and d = d] tcall_user_sockets [OF assms(1)])

lemma set_options_spart: "set_options pb n w = Inr (r, w') \<Longrightarrow> spart s d (pb_loop pb w') = spart s d (pb_loop pb w)"
  by (induction n arbitrary: w) (auto elim!: bindE_InrE split: if_splits dest!: spart_dests [where s = s and d = d])

lemma connected_spart: "check_and_process_tcp_connected pb e w = Inr w' \<Longrightarrow> spart s d (pb_loop pb w') = spart s d (pb_loop pb w)"
  by (auto simp: check_and_process_tcp_connected_def set_keep_alive_def close_reconnect_timer_def create_timer_for_reconnect_def
      elim!: bindE_InrE split: if_splits dest!: set_options_spart [where s = s and d = d] spart_dests [where s = s and d = d] connection_spart [where s = s and d = d] tcp_remove_event_spart [where s = s and d = d])

lemma tcp_on_timer_spart: "tcp_on_timer pb e w = Inr w' \<Longrightarrow> spart s d (pb_loop pb w') = spart s d (pb_loop pb w)"
  by (auto simp: tcp_on_timer_def handle_connect_timeout_def elim!: bindE_InrE split: if_splits
      dest!: spart_dests [where s = s and d = d] try_connect_spart [where s = s and d = d] connected_spart [where s = s and d = d])

lemma timers_loop_spart: "timers_loop pb dd es w = Inr w' \<Longrightarrow> spart s d (pb_loop pb w') = spart s d (pb_loop pb w)"
  by (induction es arbitrary: w) (auto elim!: bindE_InrE split: if_splits dest!: tcp_on_timer_spart [where s = s and d = d])

lemma tcp_close_spart:
  assumes "tusr_sockets pb tusr s d" "tcp_close pb tusr e w = Inr (r, w')"
  shows "spart s d (pb_loop pb w') = spart s d (pb_loop pb w)"
proof -
  have base: "spart s d (pb_loop pb v') = spart s d (pb_loop pb v)" if "event_base_close pb e v = Inr v'" for v v'
    using that by (auto simp: event_base_close_def service_remove_event_def on_loop_def remove_event_def ev_set_def loop_set
        elim!: bindE_InrE split: if_splits option.splits)
  show ?thesis using assms(2)
    by (auto simp: tcp_close_def close_reconnect_timer_def small_spart(5) elim!: bindE_InrE split: if_splits
        dest!: base spart_dests [where s = s and d = d] connection_spart [where s = s and d = d] tcall_user_sockets [OF assms(1)])
qed

lemma deliver_iovs_spart:
  assumes "tusr_sockets pb tusr s d"
  shows "deliver_iovs pb tusr e f vs len w = Inr w' \<Longrightarrow> spart s d (pb_loop pb w') = spart s d (pb_loop pb w)"
  by (induction vs arbitrary: len w) (auto simp: Let_def elim!: bindE_InrE split: if_splits dest!: tcall_user_sockets [OF assms])

lemma on_read_tcp_spart:
  assumes "tusr_sockets pb tusr s d" "on_read_tcp_msg pb tusr e ret iovs w = Inr w'"
  shows "spart s d (pb_loop pb w') = spart s d (pb_loop pb w)"
  using assms(2) by (auto simp: on_read_tcp_msg_def Let_def elim!: bindE_InrE split: if_splits option.splits
      dest!: tcall_user_sockets [OF assms(1)] deliver_iovs_spart [OF assms(1)] tcp_close_spart [OF assms(1)])

lemma on_read_udp_spart:
  assumes "tusr_sockets pb tusr s d" "on_read_udp_msg pb tusr u ret iovs info w = Inr w'"
  shows "spart s d (pb_loop pb w') = spart s d (pb_loop pb w)"
  using assms(2) by (auto simp: on_read_udp_msg_def elim!: bindE_InrE split: if_splits option.splits list.splits
      dest!: tcall_user_sockets [OF assms(1)])

lemma new_closure_spart: "sk_new_closure pb c w = (k, w') \<Longrightarrow> spart s d (pb_loop pb w') = spart s d (pb_loop pb w)"
  by (auto simp: sk_new_closure_def new_closure_def Let_def loop_set)

lemma submit_spart:
  "with_service pb e (service_submit_async_read_group pb fd g cb opt) w = Inr (r, w') \<Longrightarrow> spart s d (pb_loop pb w') = spart s d (pb_loop pb w)"
  "with_service pb e (service_submit_async_accept pb fd a cb) w = Inr (r, w') \<Longrightarrow> spart s d (pb_loop pb w') = spart s d (pb_loop pb w)"
  by (auto simp: with_service_def service_submit_async_read_group_def service_submit_async_accept_def with_poll_def elim!: bindE_InrE
      split: if_splits dest!: group_loop accept_loop)

lemma ready_spart:
  "tcp_handle_read_ready pb e fd w = Inr w' \<Longrightarrow> spart s d (pb_loop pb w') = spart s d (pb_loop pb w)"
  "sock_handle_read_ready pb e fd w = Inr w' \<Longrightarrow> spart s d (pb_loop pb w') = spart s d (pb_loop pb w)"
  "udp_handle_read_ready pb e fd w = Inr w' \<Longrightarrow> spart s d (pb_loop pb w') = spart s d (pb_loop pb w)"
  by (auto simp: tcp_handle_read_ready_def sock_handle_read_ready_def udp_handle_read_ready_def Let_def elim!: bindE_InrE split: prod.splits
      dest!: submit_spart [where s = s and d = d] new_closure_spart [where s = s and d = d])

lemma on_started_spart:
  assumes "tusr_sockets pb tusr s d"
  shows "base_on_started pb e ok w = Inr w' \<Longrightarrow> spart s d (pb_loop pb w') = spart s d (pb_loop pb w)"
    "tcp_on_started pb tusr e ok w = Inr w' \<Longrightarrow> spart s d (pb_loop pb w') = spart s d (pb_loop pb w)"
  by (auto simp: tcp_on_started_def base_on_started_def small_spart(5) elim!: bindE_InrE split: if_splits dest!: tcall_user_sockets [OF assms])

lemma sock_upd_spart:
  "sock_upd pb t f w = Inr w' \<Longrightarrow> spart s d (pb_loop pb w') =
     (if t = s then (map_option f (fst (spart s d (pb_loop pb w))), snd (spart s d (pb_loop pb w))) else spart s d (pb_loop pb w))"
  by (auto simp: sock_upd_def get_sock_def set_sock_def spart_def elim!: bindE_InrE split: option.splits)

lemma sock_remove_event_spart:
  assumes "sock_remove_event pb t w = Inr w'"
  obtains fd where "spart s d (pb_loop pb w') =
     (if t = s then (map_option (ts_fd_update (\<lambda>_. fd)) (fst (spart s d (pb_loop pb w))), snd (spart s d (pb_loop pb w)))
      else spart s d (pb_loop pb w))"
proof -
  obtain v fd where "spart s d (pb_loop pb v) = spart s d (pb_loop pb w)" "sock_upd pb t (ts_fd_update (\<lambda>_. fd)) v = Inr w'"
    using assms by (auto simp: sock_remove_event_def Let_def elim!: bindE_InrE split: prod.splits dest!: spart_dests [where s = s and d = d])
  then show ?thesis using that [of fd] sock_upd_spart [where s = s and d = d and w = v] by simp
qed

lemma new_connection_spart:
  "spart s d (pb_loop pb (snd (new_tcp_event pb w))) = spart s d (pb_loop pb w)"
  "spart s d (pb_loop pb (snd (get_new_chan_id pb w))) = spart s d (pb_loop pb w)"
  "spart s d (pb_loop pb (drop_tcp_event pb e w)) = spart s d (pb_loop pb w)"
  by (simp_all add: new_tcp_event_def new_event_def get_new_chan_id_def drop_tcp_event_def Let_def loop_set)

lemma set_sock_simps:
  "set_sock pb t y (set_sock pb t x w) = set_sock pb t y w" "get_shared pb dd (set_sock pb t x w) = get_shared pb dd w"
  by (cases dd; simp add: set_sock_def get_shared_def upd_loop_def loop_set set_set)+

lemma set_sock_spart:
  "spart s d (pb_loop pb (set_sock pb t x w)) = (if t = s then (Some x, snd (spart s d (pb_loop pb w))) else spart s d (pb_loop pb w))"
  by (simp add: spart_def set_sock_def)

lemma get_sock_some: "sk_sockets (pb_loop pb w) t = Some y \<Longrightarrow> get_sock pb t w = Inr y"
  by (simp add: get_sock_def)

text \<open>The two ways an accepted connection can go: refused, or counted in the socket as it is after the callback.\<close>

lemma on_accept_cases:
  assumes "tusr_sockets pb tusr s d" "on_accept pb tusr t ret fd addr w = Inr w'" "sk_sockets (pb_loop pb w) t = Some y" "ts_enabled y" "0 \<le> ret"
  obtains "spart s d (pb_loop pb w') = spart s d (pb_loop pb w)"
  | e chan x sd v where "spart s d (pb_loop pb v) = spart s d (pb_loop pb w)" "get_sock pb t v = Inr x" "chan \<notin> fst ` set (ts_conns x)"
    "get_shared pb (ts_shared x) v = Inr sd"
    "(if ts_connect_cnt x + 1 < tc_max_connect (sd_config sd)
      then Inr (set_sock pb t (x\<lparr>ts_conns := ts_conns x @ [(chan, e)], ts_connect_cnt := ts_connect_cnt x + 1\<rparr>) v)
      else sock_remove_event pb t
        (set_sock pb t (x\<lparr>ts_conns := ts_conns x @ [(chan, e)], ts_connect_cnt := ts_connect_cnt x + 1, ts_enabled := False\<rparr>)
          (set_sock pb t (x\<lparr>ts_conns := ts_conns x @ [(chan, e)], ts_connect_cnt := ts_connect_cnt x + 1\<rparr>) v))) = Inr w'"
proof -
  obtain e v0 chan v1 where n: "new_tcp_event pb w = (e, v0)" "get_new_chan_id pb v0 = (chan, v1)" by fastforce
  then have s1: "spart s d (pb_loop pb v1) = spart s d (pb_loop pb w)" using new_connection_spart(1) [of s d w] new_connection_spart(2) [of s d v0] by simp
  let ?open = "tcp_open pb tusr e \<lparr>ci_addr = addr, ci_fd = fd, ci_chan = chan\<rparr> (ts_shared y)"
  obtain r v where o: "with_service pb t ?open v1 = Inr (r, v)"
    using assms(2-) n unfolding on_accept_def by (auto simp: get_sock_def elim!: bindE_InrE)
  then have s2: "spart s d (pb_loop pb v) = spart s d (pb_loop pb w)"
    using s1 tcp_open_spart [OF assms(1)] by (auto simp: with_service_def elim!: bindE_InrE split: if_splits)
  show ?thesis
  proof (cases "r = 0")
    case False
    then have "w' = snd (sk_close_fd pb fd (drop_tcp_event pb e v))" using assms(2-) n o unfolding on_accept_def by (auto simp: get_sock_def)
    then show ?thesis using that(1) s2 new_connection_spart(3) [of s d e v] small_spart(6) [where s = s and d = d, OF prod.collapse [symmetric]] by metis
  next
    case True
    then obtain x sd where "get_sock pb t v = Inr x" "chan \<notin> fst ` set (ts_conns x)" "get_shared pb (ts_shared x) v = Inr sd"
      "(if ts_connect_cnt x + 1 < tc_max_connect (sd_config sd)
      then Inr (set_sock pb t (x\<lparr>ts_conns := ts_conns x @ [(chan, e)], ts_connect_cnt := ts_connect_cnt x + 1\<rparr>) v)
      else sock_remove_event pb t
        (set_sock pb t (x\<lparr>ts_conns := ts_conns x @ [(chan, e)], ts_connect_cnt := ts_connect_cnt x + 1, ts_enabled := False\<rparr>)
          (set_sock pb t (x\<lparr>ts_conns := ts_conns x @ [(chan, e)], ts_connect_cnt := ts_connect_cnt x + 1\<rparr>) v))) = Inr w'"
      using assms(2-5) n o unfolding on_accept_def
      by (auto simp: get_sock_some [OF assms(3)] set_sock_simps(2) Let_def elim!: bindE_InrE)
    then show ?thesis using that(2) s2 by blast
  qed
qed

lemma on_accept_listener:
  assumes "tusr_sockets pb tusr s d" "listener_inv d conf (spart s d (pb_loop pb w))" "on_accept pb tusr t ret fd addr w = Inr w'"
  shows "listener_inv d conf (spart s d (pb_loop pb w'))"
proof (cases "\<exists>y. sk_sockets (pb_loop pb w) t = Some y \<and> ts_enabled y \<and> 0 \<le> ret")
  case False
  then have "w' = w" using assms(3) by (auto simp: on_accept_def get_sock_def elim!: bindE_InrE split: option.splits)
  then show ?thesis using assms(2) by simp
next
  case True
  then obtain y where y: "sk_sockets (pb_loop pb w) t = Some y" "ts_enabled y" "0 \<le> ret" by blast
  show ?thesis
  proof (rule on_accept_cases [OF assms(1,3) y])
    fix e chan sd v and x :: tcp_socket
    let ?x = "x\<lparr>ts_conns := ts_conns x @ [(chan, e)], ts_connect_cnt := ts_connect_cnt x + 1\<rparr>"
    assume v: "spart s d (pb_loop pb v) = spart s d (pb_loop pb w)" "get_sock pb t v = Inr x" "chan \<notin> fst ` set (ts_conns x)"
      "get_shared pb (ts_shared x) v = Inr sd"
      "(if ts_connect_cnt x + 1 < tc_max_connect (sd_config sd) then Inr (set_sock pb t ?x v)
        else sock_remove_event pb t (set_sock pb t (?x\<lparr>ts_enabled := False\<rparr>) (set_sock pb t ?x v))) = Inr w'"
    show ?thesis
    proof (cases "t = s")
      case False
      then have "spart s d (pb_loop pb w') = spart s d (pb_loop pb v)"
        using v(5) by (auto simp: set_sock_spart split: if_splits elim!: sock_remove_event_spart [where s = s and d = d])
      then show ?thesis using assms(2) v(1) by simp
    next
      case True
      obtain z where z: "spart s d (pb_loop pb w) = (Some z, Some conf)" "ts_shared z = Some d" "listener_ok (tc_max_connect conf) z"
        using assms(2) by (auto simp: listener_inv_def)
      have "x = y" "x = z" using True y(1) z(1) v(1,2) by (auto simp: spart_def get_sock_def split: option.splits)
      moreover from this have "sd_config sd = conf" using z v(1,4) by (auto simp: spart_def get_shared_def split: option.splits)
      ultimately have "\<exists>fd. spart s d (pb_loop pb w') = (if ts_connect_cnt x + 1 < tc_max_connect conf then (Some ?x, Some conf)
          else (Some (?x\<lparr>ts_enabled := False, ts_fd := fd\<rparr>), Some conf))"
        using True v(1,5) z(1) by (auto simp: set_sock_spart split: if_splits elim!: sock_remove_event_spart [where s = s and d = d])
      then show ?thesis
        using listener_ok_accept [OF z(3), of chan e] \<open>x = y\<close> \<open>x = z\<close> y(2) v(3) z(2) by (auto simp: listener_inv_def split: if_splits)
    qed
  qed (use assms(2) in simp)
qed

lemma make_listen_fd_spart: "make_listen_fd pb t w = Inr (r, w') \<Longrightarrow> spart s d (pb_loop pb w') = spart s d (pb_loop pb w)"
  by (auto simp: make_listen_fd_def Let_def elim!: bindE_InrE split: if_splits dest!: ask_spart(2) [where s = s and d = d])

lemma reopen_listener_spart:
  assumes "reopen_listener pb t w = Inr (0, w')"
  obtains fd where "spart s d (pb_loop pb w') =
     (if t = s then (map_option (\<lambda>x. x\<lparr>ts_fd := fd, ts_enabled := True\<rparr>) (fst (spart s d (pb_loop pb w))), snd (spart s d (pb_loop pb w)))
      else spart s d (pb_loop pb w))"
proof -
  obtain w1 w2 w3 w4 fd where 1: "sock_remove_event pb t w = Inr w1" "spart s d (pb_loop pb w2) = spart s d (pb_loop pb w1)"
    "sock_upd pb t (ts_fd_update (\<lambda>_. fd)) w2 = Inr w3" "spart s d (pb_loop pb w4) = spart s d (pb_loop pb w3)"
    "sock_upd pb t (ts_enabled_update (\<lambda>_. True)) w4 = Inr w'"
    using assms by (auto simp: reopen_listener_def elim!: bindE_InrE split: if_splits
        dest!: ask_spart(6) [where s = s and d = d] make_listen_fd_spart [where s = s and d = d] connection_spart(1) [where s = s and d = d])
  then show ?thesis
    using that [of fd] sock_upd_spart [where s = s and d = d, OF 1(3)] sock_upd_spart [where s = s and d = d, OF 1(5)]
    by (auto simp: option.map_comp comp_def split: if_splits elim!: sock_remove_event_spart [where s = s and d = d])
qed

lemma sock_on_timer_listener:
  assumes "listener_inv d conf (spart s d (pb_loop pb w))" "sock_on_timer pb t w = Inr (r, w')"
  shows "listener_inv d conf (spart s d (pb_loop pb w'))"
proof -
  obtain x sd where x: "get_sock pb t w = Inr x" "get_shared pb (ts_shared x) w = Inr sd"
    using assms(2) by (auto simp: sock_on_timer_def elim!: bindE_InrE)
  let ?x = "collect_closed x (sd_closed sd)"
  let ?w = "set_shared pb (ts_shared ?x) (sd\<lparr>sd_closed := []\<rparr>) (set_sock pb t ?x w)"
  let ?step = "if tc_mode (sd_config sd) = LISTEN
      then if is_reopen_listener ?x sd then bindE (reopen_listener pb t ?w) (\<lambda>(ret, w). bindE (assertE (ret = 0)) (\<lambda>_. Inr w)) else Inr ?w
      else Inr w"
  obtain v es where v: "?step = Inr v" "timers_loop pb (ts_shared x) es v = Inr w'"
    using assms(2) x unfolding sock_on_timer_def Let_def by (auto simp only: bindE_simps elim!: bindE_InrE)
  then have w': "spart s d (pb_loop pb w') = spart s d (pb_loop pb v)" using timers_loop_spart by blast
  have sh: "spart s d (pb_loop pb ?w) = (if t = s then (Some ?x, snd (spart s d (pb_loop pb w))) else spart s d (pb_loop pb w))"
    using x by (auto simp: spart_def set_shared_def set_sock_def get_shared_def collect_closed_def Let_def split: option.splits)
  show ?thesis
  proof (cases "t = s")
    case False
    then have "spart s d (pb_loop pb v) = spart s d (pb_loop pb w)" using v(1) sh
      by (auto elim!: bindE_InrE reopen_listener_spart [where s = s and d = d] split: if_splits)
    then show ?thesis using assms(1) w' by simp
  next
    case True
    have z: "spart s d (pb_loop pb w) = (Some x, Some conf)" "ts_shared x = Some d" "listener_ok (tc_max_connect conf) x" "sd_config sd = conf"
      using assms(1) x True by (auto simp: listener_inv_def spart_def get_sock_def get_shared_def split: option.splits)
    have "spart s d (pb_loop pb v) = (Some x, Some conf) \<or> spart s d (pb_loop pb v) = (Some ?x, Some conf) \<or>
        is_reopen_listener ?x sd \<and> (\<exists>fd. spart s d (pb_loop pb v) = (Some (?x\<lparr>ts_fd := fd, ts_enabled := True\<rparr>), Some conf))"
      using v(1) sh z True by (auto elim!: bindE_InrE reopen_listener_spart [where s = s and d = d] split: if_splits) blast
    then show ?thesis using w' z listener_ok_collect [OF z(3)]
      by (auto simp: listener_inv_def is_reopen_listener_def collect_closed_def Let_def)
  qed
qed

text \<open>The sockets, as a user of the loop, keep the invariant of a listener.\<close>

lemma run_sclosure_listener:
  assumes "tusr_sockets pb tusr s d"
    and app: "\<And>c w w'. app c w = Inr w' \<Longrightarrow> listener_inv d conf (spart s d (pb_loop pb w)) \<Longrightarrow> listener_inv d conf (spart s d (pb_loop pb w'))"
    and "run_sclosure pb tusr app u arg w = Inr w'" "listener_inv d conf (spart s d (pb_loop pb w))"
  shows "listener_inv d conf (spart s d (pb_loop pb w'))"
proof -
  have acc: "listener_inv d conf (spart s d (pb_loop pb w'))"
    if "on_accept pb tusr t ret fd addr v = Inr w'" "spart s d (pb_loop pb v) = spart s d (pb_loop pb w)" for t ret fd addr v
    using on_accept_listener [OF assms(1) _ that(1)] that(2) assms(4) by simp
  show ?thesis
    using assms(3,4) on_read_tcp_spart [OF assms(1), where w = w and w' = w'] on_read_udp_spart [OF assms(1), where w = w and w' = w']
    by (auto simp: run_sclosure_def Let_def elim!: bindE_InrE split: if_splits sclosure.splits cbarg.splits option.splits
        dest!: ask_spart(5) [where s = s and d = d] intro: acc sock_on_timer_listener app)
qed

lemma sock_usr_listener:
  assumes "tusr_sockets pb tusr s d"
    and app: "\<And>c w w'. app c w = Inr w' \<Longrightarrow> listener_inv d conf (spart s d (pb_loop pb w)) \<Longrightarrow> listener_inv d conf (spart s d (pb_loop pb w'))"
    and "sock_usr pb tusr app c w = Inr w'" "listener_inv d conf (spart s d (pb_loop pb w))"
  shows "listener_inv d conf (spart s d (pb_loop pb w'))"
proof -
  have same: ?thesis if "spart s d (pb_loop pb w') = spart s d (pb_loop pb w)" using that assms(4) by simp
  show ?thesis
  proof (cases c)
    case (L_User u arg)
    then show ?thesis using assms(3,4) run_sclosure_listener [OF assms(1) app] by (simp add: sock_usr_def)
  next
    case (L_Started e ok)
    then show ?thesis using assms(3) on_started_spart [OF assms(1)] same by (auto simp: sock_usr_def split: if_splits)
  next
    case (L_Read_Ready e fd)
    then show ?thesis using assms(3) ready_spart same by (auto simp: sock_usr_def split: if_splits)
  next
    case (L_Write_Ready e fd)
    then show ?thesis using assms(3) connected_spart same by (auto simp: sock_usr_def tcp_handle_write_ready_def split: if_splits)
  qed (use assms(3,4) app in \<open>auto simp: sock_usr_def\<close>)
qed

subsection \<open>An accepted connection\<close>

lemma get_buffer_id_form:
  assumes "get_buffer_id pb dd w = Inr (buf, w')"
  obtains sh where "pb_loop pb w' = (pb_loop pb w)\<lparr>sk_shared := sh\<rparr>"
proof -
  consider "pb_loop pb w' = pb_loop pb w" | sh where "w' = upd_loop pb (\<lambda>l. l\<lparr>sk_shared := sh l\<rparr>) w" using assms
    by (auto simp: get_buffer_id_def set_shared_def service_register_ring_buffer_def with_poll_def elim!: bindE_InrE
        split: list.splits if_splits dest!: register_loop)
  then show ?thesis using that [of "sk_shared (pb_loop pb w)"] that by cases simp_all
qed

lemma check_tcp_connect_form:
  assumes "check_tcp_connect pb e w = Inr (ok, w')"
  obtains as where "w' = upd_loop pb (\<lambda>l. l\<lparr>sk_answers := as\<rparr>) w"
  using assms by (auto simp: check_tcp_connect_def is_tcp_connect_def ask_defs upd_loop_def loop_set set_set elim!: bindE_InrE
      split: list.splits sock_answer.splits if_splits)

lemma tcp_open_accepted:
  assumes "tusr_idle pb tusr" "tcp_open pb tusr e conn (Some d) w = Inr (0, w')" "el_events (pb_loop pb w) e = Some b" "sk_tcp (pb_loop pb w) e = Some x"
    "sk_shared (pb_loop pb w) d = Some sd" "tc_mode (sd_config sd) = LISTEN" "el_state (pb_loop pb w) = ES_START" "eb_fds_evts b = []"
  obtains buf n where "h_conn (tc_handlers (sd_config sd)) = Some n"
    "el_events (pb_loop pb w') = (el_events (pb_loop pb w))(e \<mapsto> b\<lparr>eb_service := True, eb_fds_evts := [(ci_fd conn, EV_READ)]\<rparr>)"
    "el_cache (pb_loop pb w') = el_cache (pb_loop pb w) @ [\<lparr>li_evt = e, li_instruction = EI_ADD, li_fds_evts = [(ci_fd conn, EV_READ)]\<rparr>]"
    "sk_tcp (pb_loop pb w') = (sk_tcp (pb_loop pb w))(e \<mapsto> x\<lparr>tcp_shared := Some d, tcp_conn := conn, tcp_buf_id := buf, tcp_state := TCP_CONNECTED\<rparr>)"
    "sk_calls (pb_loop pb w') = sk_calls (pb_loop pb w) @ [T_Conn n conn]"
    "el_handlers (pb_loop pb w') = el_handlers (pb_loop pb w)"
proof -
  obtain g where g: "\<forall>c w. tusr c w = Inr (g c w)" "\<forall>c w. pb_loop pb (g c w) = pb_loop pb w" using assms(1) by (rule tusr_idleE)
  show ?thesis using assms(2-) that
    by (auto simp: tcp_open_def tcall_user_def watch_fd_def loop_request_defs g sk_get_defs sk_set_defs loop_set set_set elim!: bindE_InrE
        get_buffer_id_form check_tcp_connect_form split: if_splits option.splits)
qed

text \<open>
  The loop, given the instruction of the new connection, registers it, submits the request
  for readiness and starts it without a second call of the connection callback.
\<close>

lemma accepted_started:
  assumes "process_new_instruction pb (sock_usr pb tusr app) run w = Inr w'"
    "el_cache (pb_loop pb w) = [\<lparr>li_evt = e, li_instruction = EI_ADD, li_fds_evts = [(fd, EV_READ)]\<rparr>]" "e \<notin> set (el_handlers (pb_loop pb w))"
    "el_events (pb_loop pb w) e = Some b" "eb_type b = EVENT_NORMAL" "eb_class b = Derived_Event" "eb_state b = EVENT_DEF"
    "sk_tcp (pb_loop pb w) e = Some x"
  shows "sk_calls (pb_loop pb w') = sk_calls (pb_loop pb w) \<and> el_handlers (pb_loop pb w') = el_handlers (pb_loop pb w) @ [e] \<and>
     el_events (pb_loop pb w') e = Some (b\<lparr>eb_state := EVENT_OPENED\<rparr>)"
  using assms
  by (auto simp: process_new_instruction_def process_add_instruction_def on_started_def call_user_def sock_usr_def tcp_on_started_def
      base_on_started_def set_insert_def EV_READ_def EV_WRITE_def sk_get_defs sk_set_defs loop_set set_set Let_def elim!: bindE_InrE
      dest!: submit_ready_loop split: if_splits)

lemma accepted_once:
  assumes "tusr_idle pb tusr" "on_accept pb tusr s ret fd addr w = Inr w1" "0 \<le> ret" "sk_sockets (pb_loop pb w) s = Some x" "ts_enabled x"
    "ts_shared x = Some d" "sk_shared (pb_loop pb w) d = Some sd" "tc_mode (sd_config sd) = LISTEN"
    "ts_connect_cnt x + 1 < tc_max_connect (sd_config sd)" "el_state (pb_loop pb w) = ES_START" "el_cache (pb_loop pb w) = []"
    "el_next (pb_loop pb w) \<notin> set (el_handlers (pb_loop pb w))"
    "sk_sockets (pb_loop pb w1) s \<noteq> Some x" "process_new_instruction pb (sock_usr pb tusr app) run w1 = Inr w2"
  shows "\<exists>n b. h_conn (tc_handlers (sd_config sd)) = Some n \<and>
     sk_calls (pb_loop pb w2) = sk_calls (pb_loop pb w) @ [T_Conn n \<lparr>ci_addr = addr, ci_fd = fd, ci_chan = sk_chan_id (pb_loop pb w) + 1\<rparr>] \<and>
     el_handlers (pb_loop pb w2) = el_handlers (pb_loop pb w) @ [el_next (pb_loop pb w)] \<and>
     el_events (pb_loop pb w2) (el_next (pb_loop pb w)) = Some b \<and> eb_state b = EVENT_OPENED"
proof -
  let ?e = "el_next (pb_loop pb w)" and ?chan = "sk_chan_id (pb_loop pb w) + 1"
  let ?conn = "\<lparr>ci_addr = addr, ci_fd = fd, ci_chan = ?chan\<rparr>"
  let ?b = "event_base_new Derived_Event (mk_iovec 0 0)"
  obtain v0 v where n: "new_tcp_event pb w = (?e, v0)" "get_new_chan_id pb v0 = (?chan, v)"
    by (simp add: get_new_chan_id_def new_tcp_event_def new_event_def Let_def loop_set)
  have v: "el_events (pb_loop pb v) ?e = Some ?b" "sk_tcp (pb_loop pb v) ?e = Some tcp_event_new" "sk_shared (pb_loop pb v) d = Some sd"
      "el_state (pb_loop pb v) = ES_START" "el_cache (pb_loop pb v) = []" "el_handlers (pb_loop pb v) = el_handlers (pb_loop pb w)"
      "sk_calls (pb_loop pb v) = sk_calls (pb_loop pb w)" "eb_fds_evts ?b = []" "sk_sockets (pb_loop pb v) = sk_sockets (pb_loop pb w)"
    using assms(7,10,11) n by (auto simp: get_new_chan_id_def new_tcp_event_def new_event_def event_base_new_def Let_def loop_set)
  obtain r u where o: "tcp_open pb tusr ?e ?conn (Some d) v = Inr (r, u)" and
    rest: "(if r \<noteq> 0 then Inr (snd (sk_close_fd pb fd (drop_tcp_event pb ?e u)))
       else bindE (get_sock pb s u) (\<lambda>x. bindE (assertE (?chan \<notin> fst ` set (ts_conns x))) (\<lambda>_.
            let x = x\<lparr>ts_conns := ts_conns x @ [(?chan, ?e)], ts_connect_cnt := ts_connect_cnt x + 1\<rparr>; w = set_sock pb s x u
            in bindE (get_shared pb (ts_shared x) w) (\<lambda>sd. if ts_connect_cnt x < tc_max_connect (sd_config sd) then Inr w
               else sock_remove_event pb s (set_sock pb s (x\<lparr>ts_enabled := False\<rparr>) w))))) = Inr w1"
    using assms(2-6) n unfolding on_accept_def
    by (auto simp: get_sock_some with_service_def elim!: bindE_InrE split: if_splits)
  have t: "tusr_sockets pb tusr s d" using assms(1) unfolding tusr_idle_def tusr_sockets_def by (metis sum.inject(2))
  have sp: "spart s d (pb_loop pb u) = (Some x, Some (sd_config sd))"
    using tcp_open_spart [OF t o] v(3,9) assms(4) by (simp add: spart_def)
  have "r = 0"
  proof (rule ccontr)
    assume "r \<noteq> 0"
    then have "spart s d (pb_loop pb w1) = spart s d (pb_loop pb u)"
      using rest new_connection_spart(3) small_spart(6) [OF prod.collapse [symmetric]] by (metis sum.inject(2))
    then show False using sp assms(13) by (simp add: spart_def)
  qed
  with sp rest assms(6,9) have w1: "w1 = set_sock pb s (x\<lparr>ts_conns := ts_conns x @ [(?chan, ?e)], ts_connect_cnt := ts_connect_cnt x + 1\<rparr>) u"
    by (auto simp: spart_def get_sock_def get_shared_def set_sock_def Let_def elim!: bindE_InrE split: option.splits)
  obtain buf n where u: "h_conn (tc_handlers (sd_config sd)) = Some n"
    "el_events (pb_loop pb u) ?e = Some (?b\<lparr>eb_service := True, eb_fds_evts := [(fd, EV_READ)]\<rparr>)"
    "el_cache (pb_loop pb u) = [\<lparr>li_evt = ?e, li_instruction = EI_ADD, li_fds_evts = [(fd, EV_READ)]\<rparr>]"
    "sk_tcp (pb_loop pb u) ?e = Some (tcp_event_new\<lparr>tcp_shared := Some d, tcp_conn := ?conn, tcp_buf_id := buf, tcp_state := TCP_CONNECTED\<rparr>)"
    "sk_calls (pb_loop pb u) = sk_calls (pb_loop pb w) @ [T_Conn n ?conn]" "el_handlers (pb_loop pb u) = el_handlers (pb_loop pb w)"
    by (rule tcp_open_accepted [OF assms(1) o [unfolded \<open>r = 0\<close>] v(1-3) assms(8) v(4,8)]) (use v(5-7) in simp)
  have "sk_calls (pb_loop pb w2) = sk_calls (pb_loop pb w1) \<and> el_handlers (pb_loop pb w2) = el_handlers (pb_loop pb w1) @ [?e] \<and>
      el_events (pb_loop pb w2) ?e = Some (?b\<lparr>eb_service := True, eb_fds_evts := [(fd, EV_READ)], eb_state := EVENT_OPENED\<rparr>)"
    using accepted_started [OF assms(14), of ?e fd] u assms(12) by (simp add: w1 set_sock_def event_base_new_def)
  then show ?thesis using u by (auto simp: w1 set_sock_def)
qed

end

end
