(* ===== verification/Socket_Properties.thy ===== *)
theory Socket_Properties
  imports Socket_Proofs Loop_Properties
begin

unbundle bit_operations_syntax

text \<open>
  The sockets on the two backends: the instances of the locale \<open>socket_backend\<close>, the
  properties of listeners and connections, and of the addresses of a configuration.
\<close>

interpretation sep: socket_backend "epoll_poll env" epoll_is_inited ..

interpretation siu: socket_backend "uring_poll env" iu_is_inited ..

text \<open>The invariant of a listener as a property of what the sockets add to the loop object.\<close>

definition listener_ext :: "nat \<Rightarrow> nat \<Rightarrow> tcp_config \<Rightarrow> 'y sock_loop_ext \<Rightarrow> bool" where
  "listener_ext s d conf m \<longleftrightarrow> listener_inv d conf (spart s d (event_loop.extend event_loop_new m))"

lemma ext_listener: "ext (listener_ext s d conf) l \<longleftrightarrow> listener_inv d conf (spart s d l)"
  by (cases l) (simp add: ext_def listener_ext_def spart_def event_loop.defs event_loop_new_def)

subsection \<open>Listeners and connections\<close>

text \<open>
  C11. The limit of a listener holds for a whole run of the event loop on the readiness backend:
  as long as the functions of the user leave the listener and its configuration alone, its
  counter is the number of its connections, their channel numbers are distinct, the counter
  does not exceed \<^verbatim>\<open>max_connect_cnt_\<close> and is below it while the listener accepts; accepting,
  closing connections, the timer that collects them and reopens the listener included.
\<close>

theorem listener_limit_holds:
  fixes w :: "'y sock_loop_ext epoll_process"
  assumes "tusr_sockets (epoll_poll env) tusr s d" "usr_ext (epoll_poll env) app (listener_ext s d conf)"
    "sk_sockets (timer_epoll.more w) s = Some x" "ts_shared x = Some d" "sk_shared (timer_epoll.more w) d = Some sd" "sd_config sd = conf"
    "listener_ok (tc_max_connect conf) x"
    "start_loop (epoll_poll env) (sock_usr (epoll_poll env) tusr app) (epoll_runner env (sock_usr (epoll_poll env) tusr app)) tid rounds w = Inr w'"
  shows "\<exists>x'. sk_sockets (timer_epoll.more w') s = Some x' \<and> listener_ok (tc_max_connect conf) x'"
proof -
  let ?pb = "epoll_poll env" and ?usr = "sock_usr (epoll_poll env) tusr app"
  have app: "listener_inv d conf (spart s d (pb_loop ?pb v'))"
    if "app c v = Inr v'" "listener_inv d conf (spart s d (pb_loop ?pb v))" for c v v'
    using assms(2) that unfolding usr_ext_def ext_listener by blast
  have usr: "usr_ext ?pb ?usr (listener_ext s d conf)"
    unfolding usr_ext_def ext_listener
    by (intro allI impI, rule sep.sock_usr_listener [where env = env, OF assms(1)]) (assumption | rule app)+
  have run: "run_keeps (ext (listener_ext s d conf)) (pb_loop ?pb) (epoll_runner env ?usr)"
    by (rule epoll_runner_keeps) (rule epl.run_closure_ext [OF usr])
  have "ext (listener_ext s d conf) (pb_loop ?pb w)"
    unfolding ext_listener using assms(3-7) by (simp add: listener_inv_def spart_def)
  then have "ext (listener_ext s d conf) (pb_loop ?pb w')" by (rule epl.start_loop_ext [OF usr run assms(8)])
  then show ?thesis unfolding ext_listener by (auto simp: listener_inv_def spart_def)
qed

text \<open>
  C12. A connection the listener accepts is reported to the user exactly once: \<^verbatim>\<open>on_accept\<close>
  calls the connection callback with the address, the descriptor and the new channel number,
  and when the loop executes the instruction that registers the connection, the event becomes
  a handler in the state \<^verbatim>\<open>OPENED\<close> and the callback is not called a second time.
\<close>

theorem accepted_connection_reported_once:
  fixes w :: "'y sock_loop_ext epoll_process"
  assumes "tusr_idle (epoll_poll env) tusr" "on_accept (epoll_poll env) tusr s ret fd addr w = Inr w1" "0 \<le> ret"
    "sk_sockets (timer_epoll.more w) s = Some x" "ts_enabled x"
    "ts_shared x = Some d" "sk_shared (timer_epoll.more w) d = Some sd" "tc_mode (sd_config sd) = LISTEN"
    "ts_connect_cnt x + 1 < tc_max_connect (sd_config sd)" "el_state (timer_epoll.more w) = ES_START" "el_cache (timer_epoll.more w) = []"
    "el_next (timer_epoll.more w) \<notin> set (el_handlers (timer_epoll.more w))"
    "sk_sockets (timer_epoll.more w1) s \<noteq> Some x" "process_new_instruction (epoll_poll env) (sock_usr (epoll_poll env) tusr app) run w1 = Inr w2"
  shows "\<exists>n b. h_conn (tc_handlers (sd_config sd)) = Some n \<and>
     sk_calls (timer_epoll.more w2) = sk_calls (timer_epoll.more w) @
       [T_Conn n \<lparr>ci_addr = addr, ci_fd = fd, ci_chan = sk_chan_id (timer_epoll.more w) + 1\<rparr>] \<and>
     el_handlers (timer_epoll.more w2) = el_handlers (timer_epoll.more w) @ [el_next (timer_epoll.more w)] \<and>
     el_events (timer_epoll.more w2) (el_next (timer_epoll.more w)) = Some b \<and> eb_state b = EVENT_OPENED"
  by (rule sep.accepted_once [where env = env, unfolded epoll_poll_loop, OF assms])

text \<open>
  C13. \<^verbatim>\<open>on_read_tcp_msg\<close> hands the user exactly the \<^verbatim>\<open>ret\<close> bytes a read has delivered: the
  buffers of its calls of the data callback are, byte for byte and in order, the first \<^verbatim>\<open>ret\<close>
  bytes of the buffers of the group, so the last one is shortened and none is passed twice.
\<close>

theorem tcp_data_delivered_exactly:
  fixes w :: "'y sock_loop_ext uring_process"
  assumes "tusr_calm (uring_poll env) tusr e" "sk_tcp (io_uring.more w) e = Some x" "get_shared (uring_poll env) (tcp_shared x) w = Inr sd"
    "h_data (tc_handlers (sd_config sd)) = Some n" "0 < ret" "ret \<le> INT32_MAX" "ret \<le> int (length (iov_addrs vs))"
    "list_all (\<lambda>v. int (iov_len v) \<le> INT32_MAX) vs"
  shows "\<exists>w' ds. on_read_tcp_msg (uring_poll env) tusr e ret (Some vs) w = Inr w' \<and>
     sk_calls (io_uring.more w') = sk_calls (io_uring.more w) @ map (T_Data n (tcp_conn x)) ds \<and>
     iov_addrs ds = take (nat ret) (iov_addrs vs)"
  by (rule siu.on_read_exact [where env = env, unfolded uring_poll_loop, OF assms])

text \<open>
  C14. Closing a connection releases everything once: the descriptor is closed, the number of
  the buffer group goes back to the free list of the socket, the channel number to the list of
  closed channels, the request for the timer is withdrawn and the close callback is called. A
  second close returns 0 and changes nothing.
\<close>

theorem tcp_close_releases_once:
  fixes w :: "'y sock_loop_ext epoll_process"
  assumes "tusr_idle (epoll_poll env) tusr" "el_events (timer_epoll.more w) e = Some b" "sk_tcp (timer_epoll.more w) e = Some x"
    "tcp_shared x = Some d" "sk_shared (timer_epoll.more w) d = Some sd" "tcp_state x = TCP_CONNECTED" "tcp_buf_id x \<noteq> - 1"
    "fd_is_valid (ci_fd (tcp_conn x))" "h_close (tc_handlers (sd_config sd)) = Some n"
  shows "\<exists>w'. tcp_close (epoll_poll env) tusr e w = Inr (0, w') \<and>
     sk_calls (timer_epoll.more w') = sk_calls (timer_epoll.more w) @ [T_Close n (tcp_conn (closed_tcp x))] \<and>
     sk_shared (timer_epoll.more w') d = Some (sd\<lparr>sd_buffers := sd_buffers sd @ [tcp_buf_id x],
       sd_closed := sd_closed sd @ [ci_chan (tcp_conn x)], sd_timers := remove1 e (sd_timers sd)\<rparr>) \<and>
     sk_closed_fds (timer_epoll.more w') = sk_closed_fds (timer_epoll.more w) @ [fd_num (ci_fd (tcp_conn x))] \<and>
     tcp_close (epoll_poll env) tusr e w' = Inr (0, w')"
proof -
  obtain w' where w': "tcp_close (epoll_poll env) tusr e w = Inr (0, w')"
    "sk_calls (timer_epoll.more w') = sk_calls (timer_epoll.more w) @ [T_Close n (tcp_conn (closed_tcp x))]"
    "sk_tcp (timer_epoll.more w') e = Some (closed_tcp x)"
    "sk_shared (timer_epoll.more w') d = Some (sd\<lparr>sd_buffers := sd_buffers sd @ [tcp_buf_id x],
       sd_closed := sd_closed sd @ [ci_chan (tcp_conn x)], sd_timers := remove1 e (sd_timers sd)\<rparr>)"
    "sk_closed_fds (timer_epoll.more w') = sk_closed_fds (timer_epoll.more w) @ [fd_num (ci_fd (tcp_conn x))]"
    using sep.tcp_close_connected [where env = env, unfolded epoll_poll_loop, OF assms] by blast
  moreover have "tcp_close (epoll_poll env) tusr e w' = Inr (0, w')"
    using w'(3) by (intro sep.tcp_close_again [where x = "closed_tcp x"]) (simp_all add: closed_tcp_def)
  ultimately show ?thesis by blast
qed


subsection \<open>Addresses\<close>

lemma dec_digits: "dec n \<noteq> [] \<and> (\<forall>c\<in>set (dec n). is_digit c) \<and> foldl (\<lambda>acc c. 10 * acc + digit_val c) 0 (dec n) = int n"
proof (induction n rule: dec.induct)
  case (1 n)
  have d: "is_digit (char_of (48 + m)) \<and> digit_val (char_of (48 + m)) = int m" if "m < 10" for m :: nat
    using that of_nat_of_char [of "char_of (48 + m)", where 'a = int, symmetric] by (simp add: is_digit_def digit_val_def)
  show ?case
  proof (cases "n < 10")
    case True
    then show ?thesis using d by (subst (1 2 3) dec.simps) simp
  next
    case False
    then have "10 * int (n div 10) + int (n mod 10) = int n" by presburger
    then show ?thesis using 1 [OF False] d [of "n mod 10"] False by (subst (1 2 3) dec.simps) auto
  qed
qed

lemma digit_no_space: "is_digit c \<Longrightarrow> \<not> is_space c \<and> c \<noteq> CHR ''-'' \<and> c \<noteq> CHR ''+'' \<and> c \<noteq> CHR '':''"
  by (auto simp: is_digit_def is_space_def)

lemma atoi_dec: "atoi (dec n) = int n"
proof -
  obtain c cs where c: "dec n = c # cs" using dec_digits [of n] by (cases "dec n") auto
  have "is_digit c" and all: "takeWhile is_digit cs = cs" using dec_digits [of n] c by (auto simp: takeWhile_eq_all_conv)
  moreover have "dropWhile is_space (dec n) = dec n" using \<open>is_digit c\<close> c digit_no_space by simp
  ultimately show ?thesis using dec_digits [of n] digit_no_space [of c] c by (simp add: atoi_def all)
qed

lemma htons_htons [simp]: "htons (htons p) = p"
  by (rule bit_word_eqI) (auto simp: htons_def bit_simps)

lemma host_port_split:
  assumes "ip \<noteq> []" "CHR '':'' \<notin> set ip"
  shows "split (ip @ '':'' @ dec n) '':'' = [ip, dec n]"
proof -
  have "CHR '':'' \<notin> set (dec n)" using dec_digits [of n] digit_no_space by blast
  then show ?thesis using split_join_inverse [of "CHR '':''" "[ip, dec n]"] assms dec_digits [of n] by simp
qed

lemma octet_length: "length (dec (octet k a)) \<le> 3"
proof -
  have "drop_bit (8 * k) a AND 255 \<le> 255" by (rule word_and_le1)
  then have n: "octet k a < 1000" by (simp add: octet_def word_le_nat_alt)
  have "length (dec n) \<le> 3" if "n < 1000" for n
    using that by (subst dec.simps, subst dec.simps, subst dec.simps) auto
  from this [OF n] show ?thesis .
qed

lemma get_ip_addr_text:
  "get_ip_addr c \<noteq> [] \<and> CHR '':'' \<notin> set (get_ip_addr c) \<and> inet_ntop (sa_addr (ci_addr c)) INET_ADDRSTRLEN = Some (get_ip_addr c)"
proof -
  let ?a = "sa_addr (ci_addr c)"
  have "length (dec (octet 0 ?a) @ ''.'' @ dec (octet 1 ?a) @ ''.'' @ dec (octet 2 ?a) @ ''.'' @ dec (octet 3 ?a)) < INET_ADDRSTRLEN"
    using octet_length [of 0 ?a] octet_length [of 1 ?a] octet_length [of 2 ?a] octet_length [of 3 ?a]
    by (simp add: INET_ADDRSTRLEN_def)
  then have ip: "get_ip_addr c = dec (octet 0 ?a) @ ''.'' @ dec (octet 1 ?a) @ ''.'' @ dec (octet 2 ?a) @ ''.'' @ dec (octet 3 ?a)"
    "inet_ntop ?a INET_ADDRSTRLEN = Some (get_ip_addr c)"
    by (simp_all add: get_ip_addr_def inet_ntop_def)
  have "CHR '':'' \<notin> set (dec n)" for n using dec_digits [of n] digit_no_space by blast
  then show ?thesis using ip by simp
qed

text \<open>
  C16. Addresses survive the way through the sockets, in both directions. For a host name
  without colon and a port below 65536 in decimal, the address the code parses out of
  \<^verbatim>\<open>"host:port"\<close> has the result of \<^verbatim>\<open>inet_addr\<close> on the host, and \<^verbatim>\<open>get_port\<close> of a connection
  with that address is the port, although it is stored in network byte order. Conversely
  \<^verbatim>\<open>get_ip_addr\<close> of a connection never fails, and a configuration made of its result and of
  \<^verbatim>\<open>get_port\<close> is parsed to the address of the connection, if \<^verbatim>\<open>inet_addr\<close> inverts \<^verbatim>\<open>inet_ntop\<close> there.
\<close>

theorem address_roundtrip:
  assumes "ip \<noteq> []" "CHR '':'' \<notin> set ip" "port < 65536"
    and inverse: "\<And>s. inet_ntop (sa_addr (ci_addr c)) INET_ADDRSTRLEN = Some s \<Longrightarrow> inet_addr s = sa_addr (ci_addr c)"
  shows "(\<exists>a. parse_addr inet_addr (ip @ '':'' @ dec port) = Some a \<and> sa_addr a = inet_addr ip \<and>
       get_port \<lparr>ci_addr = a, ci_fd = fd, ci_chan = chan\<rparr> = word_of_nat port) \<and>
     get_ip_addr c \<noteq> [] \<and> parse_addr inet_addr (get_ip_addr c @ '':'' @ dec (unat (get_port c))) = Some (ci_addr c)"
proof -
  have "ucast (word_of_int (int port) :: u16) = (word_of_nat port :: u32)"
    using assms(3) by (simp add: unsigned_of_nat take_bit_nat_eq_self)
  then have "\<exists>a. parse_addr inet_addr (ip @ '':'' @ dec port) = Some a \<and> sa_addr a = inet_addr ip \<and>
       get_port \<lparr>ci_addr = a, ci_fd = fd, ci_chan = chan\<rparr> = word_of_nat port"
    using host_port_split [OF assms(1,2)] by (simp add: parse_addr_def get_port_def atoi_dec)
  moreover have "word_of_int (int (unat (get_port c))) = htons (sa_port (ci_addr c))"
    by (rule bit_word_eqI) (simp add: get_port_def bit_simps)
  moreover note get_ip_addr_text [of c]
  ultimately show ?thesis
    using inverse host_port_split [of "get_ip_addr c"] by (simp add: parse_addr_def atoi_dec)
qed

subsection \<open>Errors\<close>

text \<open>
  A read that completes after its connection was closed crashes: \<^verbatim>\<open>close\<close> resets the
  pointer to the shared data, and \<^verbatim>\<open>on_read_tcp_msg\<close>, which the loop still calls for a
  completion of the same round, follows it without a test, whatever the result of the read.
\<close>

theorem closed_connection_read_crashes:
  fixes w :: "'y sock_loop_ext epoll_process"
  assumes "tcp_close (epoll_poll env) tusr e w = Inr (r, w')" "sk_tcp (timer_epoll.more w) e = Some x" "tcp_state x \<noteq> TCP_CLOSED"
  shows "on_read_tcp_msg (epoll_poll env) tusr' e ret iovs w' = Inl Null_Deref"
  by (rule sep.closed_read_null [where env = env, unfolded epoll_poll_loop, OF assms])

text \<open>
  C35. The timer of a connector iterates over a set from which the call it makes erases: when
  \<^verbatim>\<open>connect\<close> succeeds at once in the tenth tick, \<^verbatim>\<open>close_reconnect_timer\<close> removes the
  connection from the set of timer requests while \<^verbatim>\<open>on_timer\<close> stands on it, and the loop goes on
  with an iterator that is no longer valid.
\<close>

theorem reconnect_invalidates_iterator:
  fixes w :: "'y sock_loop_ext epoll_process"
  assumes "sk_sockets (timer_epoll.more w) s = Some y" "ts_shared y = Some d" "sk_shared (timer_epoll.more w) d = Some sd"
    "tc_mode (sd_config sd) = CONNECT" "sd_timers sd = e # es" "distinct (sd_timers sd)" "sk_tcp (timer_epoll.more w) e = Some x" "9 \<le> tcp_times x"
    "tcp_shared x = Some d" "el_events (timer_epoll.more w) e = Some b" "eb_service b" "tcp_state x \<noteq> TCP_CONNECTED"
    "\<not> fd_is_valid (ci_fd (tcp_conn x))"
    "sk_answers (timer_epoll.more w) = Ans_Int fd # Ans_Connect None # Ans_Info 0 TCP_ESTABLISHED # Ans_Addr 0 loc # Ans_Addr 0 peer # as"
    "0 < fd" "sa_port loc \<noteq> sa_port peer" "\<not> ka_enabled (tc_keep_alive (sd_config sd))"
  shows "sock_on_timer (epoll_poll env) s w = Inl Bad_Iterator"
  by (rule sep.established_in_timer [where env = env, unfolded epoll_poll_loop, OF assms])

text \<open>
  The end of the stream is reported twice: when the peer closes, \<^verbatim>\<open>on_read_tcp_msg\<close> calls
  the close callback but leaves the connection open, its descriptor and its buffer group
  taken; the close the user then has to make calls the close callback again.
\<close>

theorem peer_close_reported_twice:
  fixes w :: "'y sock_loop_ext uring_process"
  assumes "tusr_idle (uring_poll env) tusr" "el_events (io_uring.more w) e = Some b" "sk_tcp (io_uring.more w) e = Some x"
    "tcp_shared x = Some d" "sk_shared (io_uring.more w) d = Some sd" "tcp_state x = TCP_CONNECTED" "tcp_buf_id x \<noteq> - 1"
    "fd_is_valid (ci_fd (tcp_conn x))" "h_close (tc_handlers (sd_config sd)) = Some n"
  shows "\<exists>w1 w2. on_read_tcp_msg (uring_poll env) tusr e 0 iovs w = Inr w1 \<and>
     sk_closed_fds (io_uring.more w1) = sk_closed_fds (io_uring.more w) \<and> sk_tcp (io_uring.more w1) e = Some x \<and>
     tcp_close (uring_poll env) tusr e w1 = Inr (0, w2) \<and>
     sk_calls (io_uring.more w2) = sk_calls (io_uring.more w) @ [T_Close n (tcp_conn x), T_Close n (tcp_conn (closed_tcp x))]"
  by (rule siu.peer_close_twice [where env = env, unfolded uring_poll_loop, OF assms])

subsection \<open>Concrete runs\<close>

definition sample_config :: "TCP_CONNECT_MODE \<Rightarrow> tcp_config" where
  "sample_config m = reg_tcp_handler (Some 1) (Some 2) (Some 3) None (tcp_config_new\<lparr>tc_mode := m, tc_max_connect := 3\<rparr>)"

definition sample_conn :: tcp_event where
  "sample_conn = tcp_event_new\<lparr>tcp_conn := \<lparr>ci_addr = \<lparr>sa_addr = 1, sa_port = 2\<rparr>, ci_fd = mk_fd 9 TCP_FD, ci_chan = 1\<rparr>, tcp_shared := Some 0,
     tcp_state := TCP_CONNECTED, tcp_buf_id := 4\<rparr>"

text \<open>A loop with the socket 0, its connection 1 and the shared data 0.\<close>

definition sample_sockets :: "TCP_CONNECT_MODE \<Rightarrow> tcp_event \<Rightarrow> sock_answer list \<Rightarrow> nat list \<Rightarrow> sock_loop" where
  "sample_sockets m x as ts =
     event_loop.extend (event_loop_new\<lparr>el_poll := True, el_state := ES_START, el_next := 2,
         el_events := (\<lambda>e. if e < 2 then Some ((event_base_new Derived_Event (mk_iovec 0 0))\<lparr>eb_service := True\<rparr>) else None)\<rparr>)
       (sock_loop.fields [1 \<mapsto> x] [0 \<mapsto> tcp_socket_new\<lparr>ts_shared := Some 0, ts_conns := [(1, 1)], ts_connect_cnt := 1\<rparr>] Map.empty
         [0 \<mapsto> (shared_new (sample_config m))\<lparr>sd_buffers := [5], sd_timers := ts\<rparr>] 1 1 [] as [] [])"

lemmas sample_socket_defs = sample_sockets_def sample_config_def sample_conn_def event_loop_new_def event_loop.defs sock_loop.defs
  tcp_event_new_def tcp_socket_new_def tcp_config_new_def reg_tcp_handler_def shared_new_def event_base_new_def mk_fd_def

lemma idle_users: "tusr_idle pb (\<lambda>_. Inr)" "tusr_calm pb (\<lambda>_. Inr) e" "tusr_sockets pb (\<lambda>_. Inr) s d" "usr_ext pb' (\<lambda>_. Inr) Q"
  by (simp_all add: tusr_idle_def tusr_calm_def tusr_sockets_def usr_ext_def)

theorem tcp_data_delivered_exactly_witness:
  "\<exists>w'. on_read_tcp_msg (uring_poll sample_uring_env) (\<lambda>_. Inr) 1 3 (Some [mk_iovec 64 2, mk_iovec 96 2])
       (sample_uring_process (sample_sockets LISTEN sample_conn [] [])) = Inr w' \<and> length (sk_calls (io_uring.more w')) \<noteq> 0"
proof -
  let ?w = "sample_uring_process (sample_sockets LISTEN sample_conn [] [])"
  have "get_shared (uring_poll sample_uring_env) (tcp_shared sample_conn) ?w = Inr ((shared_new (sample_config LISTEN))\<lparr>sd_buffers := [5]\<rparr>)"
    by (simp add: get_shared_def sample_socket_defs)
  from tcp_data_delivered_exactly [OF idle_users(2) _ this, of 1 3 3 "[mk_iovec 64 2, mk_iovec 96 2]"]
  obtain w' ds where "on_read_tcp_msg (uring_poll sample_uring_env) (\<lambda>_. Inr) 1 3 (Some [mk_iovec 64 2, mk_iovec 96 2]) ?w = Inr w'"
      "sk_calls (io_uring.more w') = map (T_Data 3 (tcp_conn sample_conn)) ds" "iov_addrs ds = take 3 (iov_addrs [mk_iovec 64 2, mk_iovec 96 2])"
    by (auto simp: sample_socket_defs INT32_MAX_def mk_iovec_def iov_region_def)
  then show ?thesis by (cases ds) (auto simp: mk_iovec_def iov_region_def)
qed

theorem tcp_close_releases_once_witness:
  "\<exists>w'. tcp_close (epoll_poll sample_epoll_env) (\<lambda>_. Inr) 1 (sample_process (sample_sockets LISTEN sample_conn [] [])) = Inr (0, w') \<and>
     sk_closed_fds (timer_epoll.more w') = [9] \<and> tcp_close (epoll_poll sample_epoll_env) (\<lambda>_. Inr) 1 w' = Inr (0, w')"
  using tcp_close_releases_once [where env = sample_epoll_env and w = "sample_process (sample_sockets LISTEN sample_conn [] [])" and e = 1,
      OF idle_users(1)]
  by (fastforce simp: sample_socket_defs fd_is_valid_def)

theorem closed_connection_read_crashes_witness:
  "\<exists>w'. tcp_close (epoll_poll sample_epoll_env) (\<lambda>_. Inr) 1 (sample_process (sample_sockets LISTEN sample_conn [] [])) = Inr (0, w') \<and>
     on_read_tcp_msg (epoll_poll sample_epoll_env) (\<lambda>_. Inr) 1 5 None w' = Inl Null_Deref"
proof -
  obtain w' where w': "tcp_close (epoll_poll sample_epoll_env) (\<lambda>_. Inr) 1 (sample_process (sample_sockets LISTEN sample_conn [] [])) = Inr (0, w')"
    using sep.tcp_close_connected [where env = sample_epoll_env and w = "sample_process (sample_sockets LISTEN sample_conn [] [])" and e = 1,
      OF idle_users(1)]
    by (fastforce simp: sample_socket_defs fd_is_valid_def)
  from closed_connection_read_crashes [OF w', of sample_conn] w' show ?thesis by (auto simp: sample_socket_defs)
qed

theorem peer_close_reported_twice_witness:
  "\<exists>w1 w2. on_read_tcp_msg (uring_poll sample_uring_env) (\<lambda>_. Inr) 1 0 None (sample_uring_process (sample_sockets LISTEN sample_conn [] [])) = Inr w1 \<and>
     tcp_close (uring_poll sample_uring_env) (\<lambda>_. Inr) 1 w1 = Inr (0, w2) \<and> length (sk_calls (io_uring.more w2)) = 2"
  using peer_close_reported_twice [where env = sample_uring_env and w = "sample_uring_process (sample_sockets LISTEN sample_conn [] [])" and e = 1
      and iovs = None, OF idle_users(1)]
  by (fastforce simp: sample_socket_defs fd_is_valid_def)

theorem address_roundtrip_witness:
  "\<exists>a. parse_addr (\<lambda>s. if s = ''1.2.3.4'' then 67305985 else 7) ''h:8080'' = Some a \<and>
     get_port \<lparr>ci_addr = a, ci_fd = fd_default, ci_chan = 0\<rparr> = 8080 \<and>
     get_ip_addr \<lparr>ci_addr = \<lparr>sa_addr = 67305985, sa_port = 5\<rparr>, ci_fd = fd_default, ci_chan = 0\<rparr> = ''1.2.3.4''"
proof -
  have "dec 8080 = ''8080''" "dec 1 = ''1''" "dec 2 = ''2''" "dec 3 = ''3''" "dec 4 = ''4''"
    by (simp_all add: dec.simps char_of_def bit_iff_odd)
  moreover from this have ntop: "inet_ntop 67305985 INET_ADDRSTRLEN = Some ''1.2.3.4''"
    by (simp add: inet_ntop_def INET_ADDRSTRLEN_def octet_def)
  ultimately show ?thesis
    using address_roundtrip [of "''h''" 8080 "\<lparr>ci_addr = \<lparr>sa_addr = 67305985, sa_port = 5\<rparr>, ci_fd = fd_default, ci_chan = 0\<rparr>"
        "\<lambda>s. if s = ''1.2.3.4'' then 67305985 else 7" fd_default 0]
    by (auto simp: get_ip_addr_def)
qed

text \<open>The connection before it is established, with the counter of the ticks.\<close>

definition sample_pending :: "int \<Rightarrow> tcp_event" where
  "sample_pending k = sample_conn\<lparr>tcp_conn := (tcp_conn sample_conn)\<lparr>ci_fd := fd_default\<rparr>, tcp_state := TCP_INPROGRESS, tcp_times := k\<rparr>"


theorem reconnect_invalidates_iterator_witness:
  "sock_on_timer (epoll_poll sample_epoll_env) 0 (sample_process (sample_sockets CONNECT (sample_pending 9)
       [Ans_Int 8, Ans_Connect None, Ans_Info 0 TCP_ESTABLISHED, Ans_Addr 0 \<lparr>sa_addr = 1, sa_port = 5\<rparr>, Ans_Addr 0 \<lparr>sa_addr = 1, sa_port = 2\<rparr>] [1]))
     = Inl Bad_Iterator"
  by (rule reconnect_invalidates_iterator [where d = 0 and e = 1 and x = "sample_pending 9" and es = "[]"])
    (simp_all add: sample_socket_defs sample_pending_def fd_is_valid_def fd_default_def INVALID_FD_def)+

theorem listener_limit_holds_witness:
  "\<exists>w' x'. start_loop (epoll_poll sample_epoll_env) (sock_usr (epoll_poll sample_epoll_env) (\<lambda>_. Inr) (\<lambda>_. Inr))
       (epoll_runner sample_epoll_env (sock_usr (epoll_poll sample_epoll_env) (\<lambda>_. Inr) (\<lambda>_. Inr))) 1 [[Job_Handle_Close]]
       (sample_process ((sample_sockets LISTEN sample_conn [] [])\<lparr>el_state := ES_INIT\<rparr>)) = Inr w' \<and>
     sk_sockets (timer_epoll.more w') 0 = Some x' \<and> listener_ok 3 x'"
proof -
  let ?w = "sample_process ((sample_sockets LISTEN sample_conn [] [])\<lparr>el_state := ES_INIT\<rparr>)"
  let ?usr = "sock_usr (epoll_poll sample_epoll_env) (\<lambda>_. Inr) (\<lambda>_. Inr)"
  obtain w' where w': "start_loop (epoll_poll sample_epoll_env) ?usr (epoll_runner sample_epoll_env ?usr) 1 [[Job_Handle_Close]] ?w = Inr w'"
    by (simp add: start_loop_def loop_once_def process_other_thread_job_def run_job_def handle_close_def sample_socket_defs Let_def)
  from listener_limit_holds [where s = 0 and d = 0 and conf = "sample_config LISTEN", OF idle_users(3,4) _ _ _ _ _ w'] w' show ?thesis
    by (fastforce simp: sample_socket_defs listener_ok_def)
qed

theorem accepted_connection_reported_once_witness:
  "\<exists>w1 w2 c. on_accept (epoll_poll sample_epoll_env) (\<lambda>_. Inr) 0 0 (mk_fd 8 TCP_FD) \<lparr>sa_addr = 1, sa_port = 5\<rparr>
       (sample_process (sample_sockets LISTEN sample_conn
         [Ans_Info 0 TCP_ESTABLISHED, Ans_Addr 0 \<lparr>sa_addr = 1, sa_port = 5\<rparr>, Ans_Addr 0 \<lparr>sa_addr = 1, sa_port = 2\<rparr>] [])) = Inr w1 \<and>
     process_new_instruction (epoll_poll sample_epoll_env) (sock_usr (epoll_poll sample_epoll_env) (\<lambda>_. Inr) (\<lambda>_. Inr)) (\<lambda>_ _. Inr) w1 = Inr w2 \<and>
     sk_calls (timer_epoll.more w2) = [c]"
proof -
  let ?w = "sample_process (sample_sockets LISTEN sample_conn
         [Ans_Info 0 TCP_ESTABLISHED, Ans_Addr 0 \<lparr>sa_addr = 1, sa_port = 5\<rparr>, Ans_Addr 0 \<lparr>sa_addr = 1, sa_port = 2\<rparr>] [])"
  obtain l1 where w1: "on_accept (epoll_poll sample_epoll_env) (\<lambda>_. Inr) 0 0 (mk_fd 8 TCP_FD) \<lparr>sa_addr = 1, sa_port = 5\<rparr> ?w = Inr (sample_process l1)"
    "el_cache l1 = [\<lparr>li_evt = 2, li_instruction = EI_ADD, li_fds_evts = [(mk_fd 8 TCP_FD, EV_READ)]\<rparr>]"
    "sk_sockets l1 0 \<noteq> sk_sockets (timer_epoll.more ?w) 0" "el_handlers l1 = []"
    "el_events l1 2 = Some (the (el_events l1 2))" "eb_class (the (el_events l1 2)) = Derived_Event"
    "eb_type (the (el_events l1 2)) = EVENT_NORMAL" "eb_state (the (el_events l1 2)) = EVENT_DEF" "sk_tcp l1 2 = Some (the (sk_tcp l1 2))"
    by (simp add: on_accept_def new_tcp_event_def new_event_def get_new_chan_id_def get_sock_def with_service_def ev_get_def tcp_open_def tcp_upd_def
        get_tcp_def set_tcp_def ev_set_def get_shared_def get_buffer_id_def set_shared_def check_tcp_connect_def is_tcp_connect_def ask_info_def
        ask_addr_def ask_def watch_fd_def service_add_event_def on_loop_def add_event_def tcall_user_def set_sock_def sample_socket_defs)
  obtain b x where b: "el_events l1 2 = Some b" "eb_class b = Derived_Event" "eb_type b = EVENT_NORMAL" "eb_state b = EVENT_DEF" "sk_tcp l1 2 = Some x"
    using w1(5-9) by metis
  have sub: "pb_submit_async_read (epoll_poll env) = epoll_submit_async_read" for env :: epoll_env by (simp add: epoll_poll_def)
  obtain h where h: "\<forall>c l. epoll_submit_async_read (mk_fd 8 TCP_FD) None 0 (Some c) None (sample_process l) = Inr (0, h c l)"
    "\<forall>c l. timer_epoll.more (h c l :: unit sock_loop_ext epoll_process) = l"
    by (rule sample_submit)
  obtain w2 where w2: "process_new_instruction (epoll_poll sample_epoll_env) (sock_usr (epoll_poll sample_epoll_env) (\<lambda>_. Inr) (\<lambda>_. Inr))
      (\<lambda>_ _. Inr) (sample_process l1) = Inr w2"
    using w1(2,4) b h
    by (simp add: process_new_instruction_def process_add_instruction_def submit_ready_def new_closure_def on_started_def call_user_def sock_usr_def
        tcp_on_started_def base_on_started_def get_tcp_def ev_get_def set_insert_def EV_READ_def EV_WRITE_def upd_loop_def sub Let_def)
  have "el_next (timer_epoll.more ?w) = 2" "sk_sockets (timer_epoll.more ?w) 0 = Some (the (sk_sockets (timer_epoll.more ?w) 0))"
    "ts_enabled (the (sk_sockets (timer_epoll.more ?w) 0))" "ts_shared (the (sk_sockets (timer_epoll.more ?w) 0)) = Some 0"
    by (simp_all add: sample_socket_defs)
  with accepted_connection_reported_once [where d = 0 and x = "the (sk_sockets (timer_epoll.more ?w) 0)", OF idle_users(1) w1(1) _ _ _ _ _ _ _ _ _ _ _ w2] w1(1,3) w2 show ?thesis
    by (fastforce simp: sample_socket_defs)
qed

end
