(* ===== verification/Frame_Pool.thy ===== *)
theory Frame_Pool
  imports Prelude
begin

text \<open>
  The pool of coroutine frames, \<^verbatim>\<open>coroutine_frame_pool\<close> of
  include/coroutine/coroutine_service.h: blocks of one size, with a free list of indices in
  \<^verbatim>\<open>next_free_\<close>, an array of 4096 entries. Sizes and indices are \<^verbatim>\<open>size_t\<close>, addresses are
  numbers of 64 bits; an access of \<^verbatim>\<open>next_free_\<close> beyond the array is a fault.
\<close>

record frame_pool =
  fp_mem :: u64
  fp_block_size :: u64
  fp_capacity :: u64
  fp_free_head :: u64
  fp_next_free :: "u64 list"

definition DEFAULT_FRAME_POOL_CAPACITY :: nat where "DEFAULT_FRAME_POOL_CAPACITY = 4096"

text \<open>\<^verbatim>\<open>static_cast<size_t>(-1)\<close>, the end of the free list.\<close>

abbreviation NO_BLOCK :: u64 where "NO_BLOCK \<equiv> UINT64_MAX"

definition set_next_free :: "u64 \<Rightarrow> u64 \<Rightarrow> u64 list \<Rightarrow> u64 list result" where
  "set_next_free i v xs = (if unat i < length xs then Inr (xs[unat i := v]) else Inl Out_Of_Bounds)"

fun link_blocks :: "u64 \<Rightarrow> nat \<Rightarrow> u64 list \<Rightarrow> u64 list result" where
  "link_blocks i 0 xs = Inr xs"
| "link_blocks i (Suc n) xs = bindE (set_next_free i (i + 1) xs) (link_blocks (i + 1) n)"

text \<open>The constructor; \<open>mem\<close> is the block \<^verbatim>\<open>operator new\<close> returns, \<open>xs\<close> the array before it is filled.\<close>

definition frame_pool_new :: "u64 \<Rightarrow> u64 list \<Rightarrow> u64 \<Rightarrow> u64 \<Rightarrow> frame_pool result" where
  "frame_pool_new mem xs block_size capacity =
     bindE (link_blocks 0 (unat capacity) xs) (\<lambda>xs.
     bindE (set_next_free (capacity - 1) NO_BLOCK xs) (\<lambda>xs.
     Inr \<lparr>fp_mem = mem, fp_block_size = block_size, fp_capacity = capacity, fp_free_head = 0, fp_next_free = xs\<rparr>))"

definition pool_owns :: "u64 \<Rightarrow> frame_pool \<Rightarrow> bool" where
  "pool_owns ptr p \<longleftrightarrow> fp_mem p \<le> ptr \<and> ptr < fp_mem p + fp_block_size p * fp_capacity p"

definition pool_alloc :: "frame_pool \<Rightarrow> (u64 option \<times> frame_pool) result" where
  "pool_alloc p =
     (if fp_free_head p = NO_BLOCK then Inr (None, p)
      else
        let idx = fp_free_head p
        in if \<not> unat idx < length (fp_next_free p) then Inl Out_Of_Bounds
           else Inr (Some (fp_mem p + idx * fp_block_size p), p\<lparr>fp_free_head := fp_next_free p ! unat idx\<rparr>))"

definition pool_free :: "u64 \<Rightarrow> frame_pool \<Rightarrow> frame_pool result" where
  "pool_free ptr p =
     (if ptr = 0 \<or> \<not> pool_owns ptr p then Inr p
      else
        let idx = (ptr - fp_mem p) div fp_block_size p
        in bindE (set_next_free idx (fp_free_head p) (fp_next_free p)) (\<lambda>xs.
           Inr (p\<lparr>fp_next_free := xs, fp_free_head := idx\<rparr>)))"

text \<open>The loop of \<^verbatim>\<open>free_count\<close>; on a free list with a cycle it does not return.\<close>

partial_function (option) free_count_loop :: "u64 list \<Rightarrow> u64 \<Rightarrow> u64 \<Rightarrow> u64 result option" where
  "free_count_loop xs i n =
     (if i = NO_BLOCK then Some (Inr n)
      else if \<not> unat i < length xs then Some (Inl Out_Of_Bounds)
      else free_count_loop xs (xs ! unat i) (n + 1))"

definition pool_free_count :: "frame_pool \<Rightarrow> u64 result option" where
  "pool_free_count p = free_count_loop (fp_next_free p) (fp_free_head p) 0"

definition pool_empty :: "frame_pool \<Rightarrow> bool" where
  "pool_empty p \<longleftrightarrow> fp_free_head p = NO_BLOCK"

subsection \<open>The free list as a stack\<close>

text \<open>\<open>is\<close> are the indices of the free blocks, in the order of the list.\<close>

fun chained :: "u64 list \<Rightarrow> u64 \<Rightarrow> nat list \<Rightarrow> bool" where
  "chained xs h [] \<longleftrightarrow> h = NO_BLOCK"
| "chained xs h (i # is) \<longleftrightarrow> h = word_of_nat i \<and> i < length xs \<and> chained xs (xs ! i) is"

definition pool_rep :: "frame_pool \<Rightarrow> nat list \<Rightarrow> bool" where
  "pool_rep p is \<longleftrightarrow>
     length (fp_next_free p) = DEFAULT_FRAME_POOL_CAPACITY \<and> unat (fp_capacity p) \<le> DEFAULT_FRAME_POOL_CAPACITY \<and>
     0 < unat (fp_block_size p) \<and> 0 < unat (fp_mem p) \<and>
     unat (fp_mem p) + unat (fp_block_size p) * unat (fp_capacity p) < 2 ^ 64 \<and>
     distinct is \<and> set is \<subseteq> {..<unat (fp_capacity p)} \<and> chained (fp_next_free p) (fp_free_head p) is"

text \<open>The address of a block.\<close>

definition block_at :: "frame_pool \<Rightarrow> nat \<Rightarrow> u64" where
  "block_at p i = fp_mem p + word_of_nat i * fp_block_size p"

lemma index_not_end: "i < DEFAULT_FRAME_POOL_CAPACITY \<Longrightarrow> (word_of_nat i :: u64) \<noteq> NO_BLOCK \<and> unat (word_of_nat i :: u64) = i"
  by (simp add: DEFAULT_FRAME_POOL_CAPACITY_def UINT64_MAX_def word_unat_eq_iff unat_of_nat unsigned_minus_1_eq_mask mask_eq_exp_minus_1)

lemma unat_block_at:
  assumes "pool_rep p is" "i < unat (fp_capacity p)"
  shows "unat (block_at p i) = unat (fp_mem p) + i * unat (fp_block_size p)"
proof -
  have "i * unat (fp_block_size p) \<le> unat (fp_capacity p) * unat (fp_block_size p)" using assms(2) by (intro mult_le_mono1) simp
  moreover have "unat (fp_mem p) + unat (fp_capacity p) * unat (fp_block_size p) < 2 ^ 64" using assms(1) by (simp add: pool_rep_def mult.commute)
  ultimately have b: "unat (fp_mem p) + i * unat (fp_block_size p) < 2 ^ 64" by linarith
  have "unat (word_of_nat i :: u64) = i" using assms index_not_end [of i] by (simp add: pool_rep_def)
  then have "unat (word_of_nat i * fp_block_size p) = i * unat (fp_block_size p)" using b by (simp add: unat_word_ariths)
  then show ?thesis using b by (simp add: block_at_def unat_word_ariths)
qed

lemma chained_update: "j \<notin> set is \<Longrightarrow> chained (xs[j := v]) h is = chained xs h is"
  by (induction "is" arbitrary: h) auto

lemma pool_alloc_pop:
  "pool_rep p [] \<Longrightarrow> pool_alloc p = Inr (None, p)"
  "pool_rep p (i # is) \<Longrightarrow> \<exists>p'. pool_alloc p = Inr (Some (block_at p i), p') \<and> pool_rep p' is \<and> (\<forall>j. block_at p' j = block_at p j) \<and> fp_capacity p' = fp_capacity p"
  using index_not_end [of i] by (auto simp: pool_rep_def pool_alloc_def block_at_def)

lemma block_index:
  assumes "pool_rep p is" "i < unat (fp_capacity p)"
  shows "pool_owns (block_at p i) p" "block_at p i \<noteq> 0" "(block_at p i - fp_mem p) div fp_block_size p = word_of_nat i"
proof -
  let ?b = "unat (fp_block_size p)" and ?c = "unat (fp_capacity p)" and ?m = "unat (fp_mem p)"
  have b: "0 < ?b" "0 < ?m" "?m + ?b * ?c < 2 ^ 64" using assms(1) by (simp_all add: pool_rep_def)
  have u: "unat (block_at p i) = ?m + i * ?b" by (rule unat_block_at [OF assms])
  have "unat (fp_mem p + fp_block_size p * fp_capacity p) = ?m + ?b * ?c" using b(3) by (simp add: unat_word_ariths)
  moreover have "i * ?b < ?b * ?c" using assms(2) b(1) by (simp add: mult.commute)
  ultimately show "pool_owns (block_at p i) p" by (simp add: pool_owns_def word_le_nat_alt word_less_nat_alt u)
  show "block_at p i \<noteq> 0" using u b(2) by (auto simp: word_less_nat_alt)
  have "unat (block_at p i - fp_mem p) = i * ?b" using u by (simp add: unat_sub word_le_nat_alt)
  then have "unat ((block_at p i - fp_mem p) div fp_block_size p) = i" using b(1) by (simp add: unat_div)
  then show "(block_at p i - fp_mem p) div fp_block_size p = word_of_nat i" using assms index_not_end [of i] by (simp add: pool_rep_def word_unat_eq_iff)
qed

lemma pool_free_push:
  assumes "pool_rep p is" "i < unat (fp_capacity p)" "i \<notin> set is"
  shows "\<exists>p'. pool_free (block_at p i) p = Inr p' \<and> pool_rep p' (i # is) \<and> (\<forall>j. block_at p' j = block_at p j) \<and> fp_capacity p' = fp_capacity p"
  using assms index_not_end [of i] block_index [OF assms(1,2)]
  by (auto simp: pool_free_def set_next_free_def pool_rep_def chained_update block_at_def)

lemma free_count_chained:
  "chained xs h is \<Longrightarrow> length xs \<le> DEFAULT_FRAME_POOL_CAPACITY \<Longrightarrow> free_count_loop xs h n = Some (Inr (n + word_of_nat (length is)))"
proof (induction "is" arbitrary: h n)
  case Nil
  then show ?case by (subst free_count_loop.simps) simp
next
  case (Cons i "is")
  then show ?case using index_not_end [of i] by (subst free_count_loop.simps) (simp add: add.assoc)
qed

text \<open>The constructor links the blocks in their order.\<close>

lemma link_blocks_upto:
  assumes "link_blocks (word_of_nat i) n xs = Inr xs'" "i + n \<le> DEFAULT_FRAME_POOL_CAPACITY"
  shows "length xs' = length xs \<and> (\<forall>j<length xs. xs' ! j = (if i \<le> j \<and> j < i + n then word_of_nat (Suc j) else xs ! j))"
  using assms
proof (induction n arbitrary: i xs)
  case (Suc n)
  have i: "unat (word_of_nat i :: u64) = i" "(word_of_nat i :: u64) + 1 = word_of_nat (Suc i)"
    using Suc.prems(2) index_not_end [of i] by simp_all
  then have "i < length xs" "link_blocks (word_of_nat (Suc i)) n (xs[i := word_of_nat (Suc i)]) = Inr xs'"
    using Suc.prems(1) by (auto simp: set_next_free_def add.commute elim!: bindE_InrE split: if_splits)
  with Suc.IH [of "Suc i" "xs[i := word_of_nat (Suc i)]"] Suc.prems(2) show ?case by (auto simp: nth_list_update)
qed auto

lemma link_blocks_total:
  "i + n \<le> length xs \<Longrightarrow> length xs \<le> DEFAULT_FRAME_POOL_CAPACITY \<Longrightarrow> \<exists>xs'. link_blocks (word_of_nat i) n xs = Inr xs'"
proof (induction n arbitrary: i xs)
  case (Suc n)
  then show ?case using index_not_end [of i] Suc.IH [of "Suc i"] by (simp add: set_next_free_def add.commute)
qed simp

lemma chained_upt:
  assumes "\<And>j. i \<le> j \<Longrightarrow> j + 1 < k \<Longrightarrow> xs ! j = word_of_nat (Suc j)" "xs ! (k - 1) = NO_BLOCK" "i < k" "k \<le> length xs"
  shows "chained xs (word_of_nat i) [i..<k]"
  using assms(1,3)
proof (induction "k - i" arbitrary: i)
  case (Suc n)
  show ?case
  proof (cases "Suc i < k")
    case True
    then have "chained xs (word_of_nat (Suc i)) [Suc i..<k]" using Suc by (intro Suc.hyps(1)) auto
    then show ?thesis using True Suc.prems assms(4) by (simp add: upt_conv_Cons)
  next
    case False
    then have "k = Suc i" using Suc.prems(2) by simp
    then show ?thesis using assms(2,4) by simp
  qed
qed simp

lemma frame_pool_new_rep:
  assumes "length xs = DEFAULT_FRAME_POOL_CAPACITY" "0 < unat cap" "unat cap \<le> DEFAULT_FRAME_POOL_CAPACITY" "0 < unat bs" "0 < unat mem"
    "unat mem + unat bs * unat cap < 2 ^ 64"
  obtains p where "frame_pool_new mem xs bs cap = Inr p" "pool_rep p [0..<unat cap]" "fp_capacity p = cap" "fp_mem p = mem" "fp_block_size p = bs"
proof -
  let ?c = "unat cap"
  obtain ys where ys: "link_blocks 0 ?c xs = Inr ys" using link_blocks_total [of 0 ?c xs] assms(1,3) by auto
  then have y: "length ys = length xs" "\<And>j. j < ?c \<Longrightarrow> ys ! j = word_of_nat (Suc j)"
    using link_blocks_upto [of 0 ?c xs ys] assms(1,3) by auto
  have c: "unat (cap - 1) = ?c - 1" using assms(2) by (simp add: unat_sub word_le_nat_alt)
  let ?zs = "ys[?c - 1 := NO_BLOCK]"
  have "set_next_free (cap - 1) NO_BLOCK ys = Inr ?zs" using c y(1) assms(1-3) by (simp add: set_next_free_def)
  moreover have "chained ?zs (word_of_nat 0) [0..<?c]"
    using y assms(1-3) by (intro chained_upt) (auto simp: nth_list_update)
  ultimately show ?thesis using that ys y(1) assms by (simp add: frame_pool_new_def pool_rep_def atLeast0LessThan)
qed

subsection \<open>Clients of the pool\<close>

text \<open>
  Runs of a pool: frames are allocated, and frames that are held are given back. \<open>held\<close> are
  the addresses the clients hold.
\<close>

inductive pool_run :: "frame_pool \<Rightarrow> frame_pool \<Rightarrow> u64 list \<Rightarrow> bool" for p0 where
  run_start: "pool_run p0 p0 []"
| run_alloc: "pool_run p0 p held \<Longrightarrow> pool_alloc p = Inr (Some a, p') \<Longrightarrow> pool_run p0 p' (a # held)"
| run_full: "pool_run p0 p held \<Longrightarrow> pool_alloc p = Inr (None, p') \<Longrightarrow> pool_run p0 p' held"
| run_free: "pool_run p0 p held \<Longrightarrow> a \<in> set held \<Longrightarrow> pool_free a p = Inr p' \<Longrightarrow> pool_run p0 p' (remove1 a held)"

definition pool_inv :: "frame_pool \<Rightarrow> frame_pool \<Rightarrow> u64 list \<Rightarrow> nat list \<Rightarrow> nat list \<Rightarrow> bool" where
  "pool_inv p0 p held is hs \<longleftrightarrow> pool_rep p is \<and> held = map (block_at p0) hs \<and> (\<forall>j. block_at p j = block_at p0 j) \<and>
     fp_capacity p = fp_capacity p0 \<and> distinct (is @ hs) \<and> set (is @ hs) = {..<unat (fp_capacity p0)}"

lemma remove1_map: "inj_on f (insert x (set xs)) \<Longrightarrow> remove1 (f x) (map f xs) = map f (remove1 x xs)"
  by (induction xs) (auto simp: inj_on_def)

lemma pool_run_inv:
  assumes "pool_rep p0 [0..<unat (fp_capacity p0)]" "pool_run p0 p held"
  shows "\<exists>is hs. pool_inv p0 p held is hs"
  using assms(2)
proof (induction rule: pool_run.induct)
  case run_start
  show ?case using assms(1) by (intro exI [of _ "[0..<unat (fp_capacity p0)]"] exI [of _ "[]"]) (simp add: pool_inv_def atLeast0LessThan)
next
  case (run_alloc p held a p')
  then obtain "is" hs where i: "pool_inv p0 p held is hs" by blast
  then obtain j js where "is = j # js" using run_alloc(2) pool_alloc_pop(1) [of p] by (cases "is") (auto simp: pool_inv_def)
  then obtain "pool_rep p' js" "a = block_at p j" "\<forall>j. block_at p' j = block_at p j" "fp_capacity p' = fp_capacity p"
    using i run_alloc(2) pool_alloc_pop(2) [of p j js] by (auto simp: pool_inv_def)
  then have "pool_inv p0 p' (a # held) js (j # hs)" using i \<open>is = j # js\<close> by (simp add: pool_inv_def)
  then show ?case by blast
next
  case (run_full p held p')
  then show ?case by (auto simp: pool_alloc_def Let_def split: if_splits)
next
  case (run_free p held a p')
  then obtain "is" hs where i: "pool_inv p0 p held is hs" by blast
  then obtain j where j: "j \<in> set hs" "a = block_at p j" using run_free(2) by (auto simp: pool_inv_def)
  then have "j < unat (fp_capacity p)" "j \<notin> set is" using i by (auto simp: pool_inv_def)
  moreover have "inj_on (block_at p0) {..<unat (fp_capacity p0)}"
  proof (rule inj_onI)
    fix x y assume "x \<in> {..<unat (fp_capacity p0)}" "y \<in> {..<unat (fp_capacity p0)}" "block_at p0 x = block_at p0 y"
    then have "unat (fp_mem p0) + x * unat (fp_block_size p0) = unat (fp_mem p0) + y * unat (fp_block_size p0)"
      using unat_block_at [OF assms(1)] by (metis lessThan_iff)
    then have "x * unat (fp_block_size p0) = y * unat (fp_block_size p0)" by (rule add_left_imp_eq)
    moreover have "0 < unat (fp_block_size p0)" using assms(1) unfolding pool_rep_def by blast
    ultimately show "x = y" by (metis mult_cancel2 less_irrefl)
  qed
  then have "remove1 a held = map (block_at p0) (remove1 j hs)"
    using i j remove1_map [of "block_at p0" j hs] by (auto simp: pool_inv_def insert_absorb intro: inj_on_subset)
  moreover from calculation obtain "pool_rep p' (j # is)" "\<forall>j. block_at p' j = block_at p j" "fp_capacity p' = fp_capacity p"
    using i j run_free(3) pool_free_push [of p "is" j] by (auto simp: pool_inv_def)
  moreover have "set ((j # is) @ remove1 j hs) = set (is @ hs)" "distinct ((j # is) @ remove1 j hs)"
    using i j(1) calculation(2) by (auto simp: pool_inv_def)
  ultimately have "pool_inv p0 p' (remove1 a held) (j # is) (remove1 j hs)" using i by (simp add: pool_inv_def)
  then show ?case by blast
qed

subsection \<open>Properties\<close>

text \<open>
  The pool implements a stack of free blocks: on a pool whose free list is \<open>is\<close>, \<^verbatim>\<open>alloc\<close>
  returns null when the stack is empty and otherwise pops it and returns the address of the
  top block, \<^verbatim>\<open>free\<close> of a block that is not in the list pushes it, and \<^verbatim>\<open>free_count\<close> returns
  the height of the stack.
\<close>

theorem frame_pool_is_stack:
  assumes "pool_rep p is"
  shows "(case is of [] \<Rightarrow> pool_alloc p = Inr (None, p)
          | i # js \<Rightarrow> \<exists>p'. pool_alloc p = Inr (Some (block_at p i), p') \<and> pool_rep p' js) \<and>
     (\<forall>i. i < unat (fp_capacity p) \<longrightarrow> i \<notin> set is \<longrightarrow> (\<exists>p'. pool_free (block_at p i) p = Inr p' \<and> pool_rep p' (i # is))) \<and>
     pool_free_count p = Some (Inr (word_of_nat (length is)))"
proof (intro conjI)
  show "case is of [] \<Rightarrow> pool_alloc p = Inr (None, p) | i # js \<Rightarrow> \<exists>p'. pool_alloc p = Inr (Some (block_at p i), p') \<and> pool_rep p' js"
    using assms pool_alloc_pop(1) [of p] pool_alloc_pop(2) [of p] by (cases "is") (simp, fastforce)
  show "\<forall>i. i < unat (fp_capacity p) \<longrightarrow> i \<notin> set is \<longrightarrow> (\<exists>p'. pool_free (block_at p i) p = Inr p' \<and> pool_rep p' (i # is))"
    using pool_free_push [OF assms] by blast
  show "pool_free_count p = Some (Inr (word_of_nat (length is)))"
    using assms free_count_chained [of "fp_next_free p" "fp_free_head p" "is" 0] by (simp add: pool_free_count_def pool_rep_def)
qed

text \<open>
  C21. The frames of a pool never overlap: in every run of a pool of at most 4096 blocks, in
  which clients allocate frames and give back frames they hold, the frames held are pairwise
  disjoint and lie within the memory of the pool, neither operation faults, and the number
  of free blocks and the number of frames held add up to the capacity.
\<close>

theorem pool_frames_disjoint:
  assumes "length xs = DEFAULT_FRAME_POOL_CAPACITY" "0 < unat cap" "unat cap \<le> DEFAULT_FRAME_POOL_CAPACITY" "0 < unat bs" "0 < unat mem"
    "unat mem + unat bs * unat cap < 2 ^ 64" "frame_pool_new mem xs bs cap = Inr p0" "pool_run p0 p held"
  shows "(\<forall>m<length held. \<forall>n<length held. m \<noteq> n \<longrightarrow>
       unat (held ! m) + unat bs \<le> unat (held ! n) \<or> unat (held ! n) + unat bs \<le> unat (held ! m)) \<and>
     (\<forall>a\<in>set held. unat mem \<le> unat a \<and> unat a + unat bs \<le> unat mem + unat bs * unat cap) \<and>
     (\<exists>r. pool_alloc p = Inr r) \<and> (\<forall>a\<in>set held. \<exists>p'. pool_free a p = Inr p') \<and>
     (\<exists>n. pool_free_count p = Some (Inr (word_of_nat n)) \<and> n + length held = unat cap)"
proof -
  have p0: "pool_rep p0 [0..<unat (fp_capacity p0)]" "fp_capacity p0 = cap" "fp_mem p0 = mem" "fp_block_size p0 = bs"
    using frame_pool_new_rep [OF assms(1-6)] assms(7) by (metis sum.inject(2))+
  obtain "is" hs where i: "pool_rep p is" "held = map (block_at p0) hs" "\<forall>j. block_at p j = block_at p0 j" "fp_capacity p = cap"
      "distinct (is @ hs)" "set (is @ hs) = {..<unat cap}"
    using pool_run_inv [OF p0(1) assms(8)] p0(2) by (auto simp: pool_inv_def)
  have u: "unat (block_at p0 h) = unat mem + h * unat bs" if "h \<in> set hs" for h
    using unat_block_at [OF p0(1)] p0(2-4) i(6) that by auto
  have far: "h * unat bs + unat bs \<le> k * unat bs" if "h < k" for h k :: nat
    using that mult_le_mono1 [of "Suc h" k "unat bs"] by simp
  have "unat (held ! m) + unat bs \<le> unat (held ! n) \<or> unat (held ! n) + unat bs \<le> unat (held ! m)"
    if "m < length held" "n < length held" "m \<noteq> n" for m n
  proof -
    have "hs ! m \<noteq> hs ! n" using that i(2,5) by (simp add: nth_eq_iff_index_eq)
    moreover have "unat (held ! m) = unat mem + hs ! m * unat bs" "unat (held ! n) = unat mem + hs ! n * unat bs"
      using that i(2) u by simp_all
    ultimately show ?thesis using far [of "hs ! m" "hs ! n"] far [of "hs ! n" "hs ! m"] by linarith
  qed
  moreover have "unat mem \<le> unat a \<and> unat a + unat bs \<le> unat mem + unat bs * unat cap" if "a \<in> set held" for a
  proof -
    obtain h where h: "h \<in> set hs" "a = block_at p0 h" using \<open>a \<in> set held\<close> i(2) by auto
    then have "h < unat cap" using i(6) by auto
    then show ?thesis using u [OF h(1)] far [of h "unat cap"] h(2) by (simp add: mult.commute)
  qed
  moreover have "\<exists>r. pool_alloc p = Inr r" using i(1) pool_alloc_pop by (cases "is") blast+
  moreover have "\<exists>p'. pool_free a p = Inr p'" if "a \<in> set held" for a
  proof -
    obtain h where h: "h \<in> set hs" "a = block_at p h" using \<open>a \<in> set held\<close> i(2,3) by auto
    then have "h < unat (fp_capacity p)" "h \<notin> set is" using i(4-6) by auto
    then show ?thesis using pool_free_push [OF i(1)] h(2) by blast
  qed
  moreover have "length is + length held = unat cap"
    using i(2,5,6) distinct_card [of "is @ hs"] by simp
  moreover have "pool_free_count p = Some (Inr (word_of_nat (length is)))"
    using i(1) free_count_chained [of "fp_next_free p" "fp_free_head p" "is" 0] by (simp add: pool_free_count_def pool_rep_def)
  ultimately show ?thesis by blast
qed

text \<open>
  A pool with more blocks than the array has entries is not constructed: the constructor
  writes beyond \<^verbatim>\<open>next_free_\<close>, and so does a pool without blocks.
\<close>

theorem large_pool_overruns:
  assumes "length xs = DEFAULT_FRAME_POOL_CAPACITY" "DEFAULT_FRAME_POOL_CAPACITY < unat cap \<or> cap = 0"
  shows "frame_pool_new mem xs bs cap = Inl Out_Of_Bounds"
proof -
  have "link_blocks (word_of_nat i) n xs = Inl Out_Of_Bounds"
    if "length xs = DEFAULT_FRAME_POOL_CAPACITY" "DEFAULT_FRAME_POOL_CAPACITY < i + n" "i \<le> DEFAULT_FRAME_POOL_CAPACITY" for i n and xs :: "u64 list"
    using that
  proof (induction n arbitrary: i xs)
    case (Suc n)
    have u: "unat (word_of_nat i :: u64) = i" using Suc.prems(3) by (simp add: DEFAULT_FRAME_POOL_CAPACITY_def unat_of_nat)
    show ?case
    proof (cases "i < DEFAULT_FRAME_POOL_CAPACITY")
      case True
      then show ?thesis using Suc.IH [of "xs[i := word_of_nat i + 1]" "Suc i"] Suc.prems u by (simp add: set_next_free_def add.commute)
    qed (use Suc.prems u in \<open>simp add: set_next_free_def\<close>)
  qed simp
  from this [of xs 0 "unat cap"] show ?thesis using assms
    by (auto simp: frame_pool_new_def set_next_free_def DEFAULT_FRAME_POOL_CAPACITY_def unsigned_minus_1_eq_mask mask_eq_exp_minus_1)
qed

subsection \<open>Concrete runs\<close>

definition sample_pool :: frame_pool where
  "sample_pool = \<lparr>fp_mem = 4096, fp_block_size = 64, fp_capacity = 2, fp_free_head = 0,
     fp_next_free = (replicate DEFAULT_FRAME_POOL_CAPACITY 0)[0 := 1, 1 := NO_BLOCK]\<rparr>"

lemma sample_pool_new: "frame_pool_new 4096 (replicate DEFAULT_FRAME_POOL_CAPACITY 0) 64 2 = Inr sample_pool"
proof -
  have l: "link_blocks 0 2 (replicate DEFAULT_FRAME_POOL_CAPACITY 0) = Inr ((replicate DEFAULT_FRAME_POOL_CAPACITY 0)[0 := 1, 1 := 2])"
    by (simp add: numeral_2_eq_2 set_next_free_def DEFAULT_FRAME_POOL_CAPACITY_def)
  then show ?thesis by (simp add: frame_pool_new_def set_next_free_def sample_pool_def DEFAULT_FRAME_POOL_CAPACITY_def)
qed

lemma sample_pool_rep: "pool_rep sample_pool [0, 1]"
proof (rule frame_pool_new_rep [of "replicate DEFAULT_FRAME_POOL_CAPACITY 0" 2 64 4096])
  fix p
  assume "frame_pool_new 4096 (replicate DEFAULT_FRAME_POOL_CAPACITY 0) 64 2 = Inr p" "pool_rep p [0..<unat (2 :: u64)]"
  moreover have "[0..<unat (2 :: u64)] = [0, 1]" by (simp add: upt_rec)
  ultimately show ?thesis using sample_pool_new by simp
qed (simp_all add: DEFAULT_FRAME_POOL_CAPACITY_def)

theorem frame_pool_is_stack_witness:
  "\<exists>p'. pool_alloc sample_pool = Inr (Some (block_at sample_pool 0), p') \<and> pool_rep p' [1]"
  using frame_pool_is_stack [OF sample_pool_rep] by simp

theorem pool_frames_disjoint_witness:
  "\<exists>p a b. pool_run sample_pool p [a, b] \<and> (unat a + 64 \<le> unat b \<or> unat b + 64 \<le> unat a)"
proof -
  obtain p1 where 1: "pool_alloc sample_pool = Inr (Some (block_at sample_pool 0), p1)" "pool_rep p1 [1]"
    using pool_alloc_pop(2) [OF sample_pool_rep] by auto
  obtain p2 where 2: "pool_alloc p1 = Inr (Some (block_at p1 1), p2)" using pool_alloc_pop(2) [OF 1(2)] by auto
  let ?held = "[block_at p1 1, block_at sample_pool 0]"
  have r: "pool_run sample_pool p2 ?held" by (rule run_alloc [OF run_alloc [OF run_start 1(1)] 2])
  have "\<forall>m<length ?held. \<forall>n<length ?held. m \<noteq> n \<longrightarrow>
      unat (?held ! m) + unat (64 :: u64) \<le> unat (?held ! n) \<or> unat (?held ! n) + unat (64 :: u64) \<le> unat (?held ! m)"
    by (rule conjunct1 [OF pool_frames_disjoint [OF _ _ _ _ _ _ sample_pool_new r]]) (simp_all add: DEFAULT_FRAME_POOL_CAPACITY_def)
  from this [rule_format, of 0 1] r show ?thesis by auto
qed

end
