(* ===== verification/Awaitable.thy ===== *)
theory Awaitable
  imports Event_Service Frame_Pool Opt_Map
begin

text \<open>
  The data of include/coroutine/awaitable.h and include/coroutine/coroutine_service.h, the
  allocation of coroutine frames (source/coroutine/coroutine_service.cpp) and the awaitable
  types. An awaitable is the address of its heap-allocated state block; the five state types
  are one record with a kind. A coroutine handle is the address of a frame. What a coroutine
  does from one suspension to the next is user code: \<open>cusr\<close> runs it, and \<open>co_resumed\<close> logs
  the coroutines that are resumed. \<^verbatim>\<open>operator new\<close> answers from a list of addresses.
\<close>

subsection \<open>Data\<close>

datatype awaiter_kind = AW_Result | AW_Read | AW_Timer | AW_Void | AW_Accept

record awaiter =
  aw_kind :: awaiter_kind
  aw_handle :: "nat option"
  aw_ready :: bool
  aw_ret :: int
  aw_iov :: "iovec list option"
  aw_iov_cnt :: nat
  aw_extra :: bool
  aw_count :: u64
  aw_info :: "fd_t option"
  aw_cleanup :: "nat option"
  aw_guard :: bool
  aw_saved_cb :: "nat option"

definition awaiter_new :: "awaiter_kind \<Rightarrow> awaiter" where
  "awaiter_new k =
     \<lparr>aw_kind = k, aw_handle = None, aw_ready = False, aw_ret = (if k = AW_Accept then - 1 else 0), aw_iov = None, aw_iov_cnt = 0,
      aw_extra = False, aw_count = 0, aw_info = None, aw_cleanup = None, aw_guard = False, aw_saved_cb = None\<rparr>"

text \<open>
  The promise of a coroutine with what the compiler keeps beside it: whether the coroutine is
  at its final suspension, and the address and the size of the frame.
\<close>

record coro_frame =
  fr_continuation :: "nat option"
  fr_exception :: bool
  fr_on_final :: "nat option"
  fr_value :: int
  fr_done :: bool
  fr_ptr :: u64
  fr_size :: u64

datatype fd_read_state = FRS_NONE | FRS_PENDING | FRS_CANCELLING

record fd_info =
  fi_state :: fd_read_state
  fi_awaiter :: "nat option"

definition CORO_MAX_FD :: nat where "CORO_MAX_FD = 100000"

text \<open>The closures the coroutine service hands to the event service, and its jobs.\<close>

datatype cclosure =
    CC_Result nat
  | CC_Read nat nat
  | CC_Accept nat
  | CC_Guarded nat nat nat
  | CC_Sleep nat nat
  | CC_App nat

datatype cjob = CJ_Run nat nat | CJ_Sweep | CJ_App nat

datatype ccall = C_Body nat | C_Cleanup nat int | C_Job nat

text \<open>
  The state of the service. The nodes of the list of spawned tasks have numbers, which stand
  for the iterators, and hold the handle of the task. Shared variables of closures are cells.
\<close>

record coro_loop = event_loop +
  co_awaiters :: "nat \<Rightarrow> awaiter option"
  co_next_awaiter :: nat
  co_frames :: "nat \<Rightarrow> coro_frame option"
  co_next_frame :: nat
  co_closures :: "cclosure list"
  co_jobs :: "cjob list"
  co_resumed :: "nat list"
  co_news :: "u64 list"
  co_deleted :: "u64 list"
  cs_current :: bool
  cs_pool :: frame_pool
  cs_table :: "nat opt_map"
  cs_infos :: "nat \<Rightarrow> fd_info option"
  cs_next_info :: nat
  cs_spawned :: "(nat \<times> nat option) list"
  cs_next_node :: nat
  cs_pending :: "nat list"
  cs_posted :: bool
  cs_cells :: "nat \<Rightarrow> int"
  cs_next_cell :: nat

type_synonym ('y, 'w) cpoll = "('y coro_loop_scheme, 'w) poll_base"
type_synonym 'w cusr = "ccall \<Rightarrow> 'w \<Rightarrow> 'w result"

definition get_aw :: "('y, 'w) cpoll \<Rightarrow> nat \<Rightarrow> 'w \<Rightarrow> awaiter result" where
  "get_aw pb a w = (case co_awaiters (pb_loop pb w) a of None \<Rightarrow> Inl Use_After_Free | Some s \<Rightarrow> Inr s)"

definition set_aw :: "('y, 'w) cpoll \<Rightarrow> nat \<Rightarrow> awaiter \<Rightarrow> 'w \<Rightarrow> 'w" where
  "set_aw pb a s w = upd_loop pb (\<lambda>l. l\<lparr>co_awaiters := (co_awaiters l)(a \<mapsto> s)\<rparr>) w"

definition upd_aw :: "('y, 'w) cpoll \<Rightarrow> nat \<Rightarrow> (awaiter \<Rightarrow> awaiter) \<Rightarrow> 'w \<Rightarrow> 'w result" where
  "upd_aw pb a f w = bindE (get_aw pb a w) (\<lambda>s. Inr (set_aw pb a (f s) w))"

definition get_frame :: "('y, 'w) cpoll \<Rightarrow> nat \<Rightarrow> 'w \<Rightarrow> coro_frame result" where
  "get_frame pb h w = (case co_frames (pb_loop pb w) h of None \<Rightarrow> Inl Use_After_Free | Some f \<Rightarrow> Inr f)"

definition upd_frame :: "('y, 'w) cpoll \<Rightarrow> nat \<Rightarrow> (coro_frame \<Rightarrow> coro_frame) \<Rightarrow> 'w \<Rightarrow> 'w result" where
  "upd_frame pb h f w =
     bindE (get_frame pb h w) (\<lambda>x. Inr (upd_loop pb (\<lambda>l. l\<lparr>co_frames := (co_frames l)(h \<mapsto> f x)\<rparr>) w))"

subsection \<open>Resuming\<close>

text \<open>\<^verbatim>\<open>handle.resume()\<close>: a coroutine at its final suspension must not be resumed.\<close>

definition resume :: "('y, 'w) cpoll \<Rightarrow> 'w cusr \<Rightarrow> nat \<Rightarrow> 'w \<Rightarrow> 'w result" where
  "resume pb cusr h w =
     bindE (get_frame pb h w) (\<lambda>f.
     if fr_done f then Inl Bad_Resume else cusr (C_Body h) (upd_loop pb (\<lambda>l. l\<lparr>co_resumed := co_resumed l @ [h]\<rparr>) w))"

definition do_resume :: "('y, 'w) cpoll \<Rightarrow> 'w cusr \<Rightarrow> nat \<Rightarrow> 'w \<Rightarrow> 'w result" where
  "do_resume pb cusr a w =
     bindE (get_aw pb a w) (\<lambda>s. case aw_handle s of None \<Rightarrow> Inr w | Some h \<Rightarrow> resume pb cusr h w)"

subsection \<open>Awaitables\<close>

definition aw_make :: "('y, 'w) cpoll \<Rightarrow> awaiter_kind \<Rightarrow> 'w \<Rightarrow> nat \<times> 'w" where
  "aw_make pb k w =
     (let a = co_next_awaiter (pb_loop pb w)
      in (a, upd_loop pb (\<lambda>l. l\<lparr>co_awaiters := (co_awaiters l)(a \<mapsto> awaiter_new k), co_next_awaiter := a + 1\<rparr>) w))"

text \<open>The destructors; the one of \<^verbatim>\<open>async_void_result\<close> does not delete the block.\<close>

definition state_delete :: "('y, 'w) cpoll \<Rightarrow> nat \<Rightarrow> 'w \<Rightarrow> 'w" where
  "state_delete pb a w = upd_loop pb (\<lambda>l. l\<lparr>co_awaiters := (co_awaiters l)(a := None)\<rparr>) w"

definition void_delete :: "'w \<Rightarrow> 'w" where "void_delete w = w"

definition aw_delete :: "('y, 'w) cpoll \<Rightarrow> nat \<Rightarrow> 'w \<Rightarrow> 'w result" where
  "aw_delete pb a w =
     bindE (get_aw pb a w) (\<lambda>s. Inr (if aw_kind s = AW_Void then void_delete w else state_delete pb a w))"

text \<open>\<^verbatim>\<open>await_ready\<close>: of the base class, and the two classes that define their own.\<close>

definition base_await_ready :: "awaiter \<Rightarrow> bool" where "base_await_ready s = False"

definition result_await_ready :: "awaiter \<Rightarrow> bool" where "result_await_ready s = aw_ready s"

definition void_await_ready :: "awaiter \<Rightarrow> bool" where "void_await_ready s = aw_ready s"

definition await_ready :: "awaiter \<Rightarrow> bool" where
  "await_ready s =
     (case aw_kind s of AW_Result \<Rightarrow> result_await_ready s | AW_Void \<Rightarrow> void_await_ready s | _ \<Rightarrow> base_await_ready s)"

lemmas await_ready_defs [simp] = base_await_ready_def result_await_ready_def void_await_ready_def state_delete_def void_delete_def

definition await_suspend :: "('y, 'w) cpoll \<Rightarrow> nat \<Rightarrow> nat \<Rightarrow> 'w \<Rightarrow> 'w result" where
  "await_suspend pb a caller w = upd_aw pb a (\<lambda>s. s\<lparr>aw_handle := Some caller\<rparr>) w"

text \<open>\<^verbatim>\<open>await_resume\<close> of the classes; the one of \<^verbatim>\<open>async_void_result\<close> yields nothing.\<close>

definition result_await_resume :: "awaiter \<Rightarrow> int" where "result_await_resume s = aw_ret s"

definition read_await_resume :: "awaiter \<Rightarrow> int" where "read_await_resume s = aw_ret s"

definition timer_await_resume :: "awaiter \<Rightarrow> u64" where "timer_await_resume s = aw_count s"

definition accept_await_resume :: "awaiter \<Rightarrow> int" where "accept_await_resume s = aw_ret s"

definition await_resume :: "awaiter \<Rightarrow> int" where
  "await_resume s =
     (case aw_kind s of AW_Result \<Rightarrow> result_await_resume s | AW_Read \<Rightarrow> read_await_resume s | AW_Timer \<Rightarrow> uint (timer_await_resume s)
      | AW_Void \<Rightarrow> 0 | AW_Accept \<Rightarrow> accept_await_resume s)"

lemmas await_resume_defs [simp] = result_await_resume_def read_await_resume_def timer_await_resume_def accept_await_resume_def

text \<open>
  \<^verbatim>\<open>co_await\<close> of the coroutine \<open>h\<close>, as the language defines it: \<open>True\<close> when the coroutine goes
  on at once, \<open>False\<close> when it is suspended.
\<close>

definition co_await :: "('y, 'w) cpoll \<Rightarrow> nat \<Rightarrow> nat \<Rightarrow> 'w \<Rightarrow> (bool \<times> 'w) result" where
  "co_await pb a h w =
     bindE (get_aw pb a w) (\<lambda>s.
     if await_ready s then Inr (True, w) else bindE (await_suspend pb a h w) (\<lambda>w. Inr (False, w)))"

text \<open>\<^verbatim>\<open>async_result\<close>\<close>

definition result_complete :: "('y, 'w) cpoll \<Rightarrow> 'w cusr \<Rightarrow> nat \<Rightarrow> int \<Rightarrow> 'w \<Rightarrow> 'w result" where
  "result_complete pb cusr a ret w =
     bindE (upd_aw pb a (\<lambda>s. s\<lparr>aw_ready := True, aw_ret := ret\<rparr>) w) (\<lambda>w.
     bindE (get_aw pb a w) (\<lambda>s.
     bindE (case aw_cleanup s of None \<Rightarrow> Inr w | Some n \<Rightarrow> cusr (C_Cleanup n ret) w) (do_resume pb cusr a)))"

definition result_callback :: "('y, 'w) cpoll \<Rightarrow> 'w cusr \<Rightarrow> nat \<Rightarrow> int \<Rightarrow> 'w \<Rightarrow> 'w result" where
  "result_callback pb cusr a ret w =
     bindE (upd_aw pb a (\<lambda>s. s\<lparr>aw_ready := True, aw_ret := ret\<rparr>) w) (\<lambda>w.
     bindE (get_aw pb a w) (\<lambda>s.
     let cb = aw_cleanup s
     in bindE (upd_aw pb a (\<lambda>s. s\<lparr>aw_cleanup := None\<rparr>) w) (\<lambda>w.
        bindE (case cb of None \<Rightarrow> Inr w | Some n \<Rightarrow> cusr (C_Cleanup n ret) w) (\<lambda>w.
        bindE (upd_aw pb a (\<lambda>s. s\<lparr>aw_cleanup := cb\<rparr>) w) (do_resume pb cusr a)))))"

definition on_complete :: "('y, 'w) cpoll \<Rightarrow> nat \<Rightarrow> nat option \<Rightarrow> 'w \<Rightarrow> 'w result" where
  "on_complete pb a cb w = upd_aw pb a (\<lambda>s. s\<lparr>aw_cleanup := cb\<rparr>) w"

text \<open>\<^verbatim>\<open>async_read_result\<close>\<close>

definition read_complete ::
  "('y, 'w) cpoll \<Rightarrow> 'w cusr \<Rightarrow> nat \<Rightarrow> int \<Rightarrow> iovec list option \<Rightarrow> nat \<Rightarrow> bool \<Rightarrow> 'w \<Rightarrow> 'w result" where
  "read_complete pb cusr a ret iov cnt extra w =
     bindE (upd_aw pb a (\<lambda>s. s\<lparr>aw_ret := ret, aw_iov := iov, aw_iov_cnt := cnt, aw_extra := extra\<rparr>) w) (do_resume pb cusr a)"

definition read_callback ::
  "('y, 'w) cpoll \<Rightarrow> 'w cusr \<Rightarrow> nat \<Rightarrow> int \<Rightarrow> iovec list option \<Rightarrow> nat \<Rightarrow> bool \<Rightarrow> 'w \<Rightarrow> 'w result" where
  "read_callback pb cusr a ret iov cnt extra w =
     bindE (upd_aw pb a (\<lambda>s. s\<lparr>aw_ret := ret, aw_iov := iov, aw_iov_cnt := cnt, aw_extra := extra\<rparr>) w) (do_resume pb cusr a)"

text \<open>\<^verbatim>\<open>async_timer_result\<close>\<close>

definition timer_complete :: "('y, 'w) cpoll \<Rightarrow> 'w cusr \<Rightarrow> nat \<Rightarrow> u64 \<Rightarrow> 'w \<Rightarrow> 'w result" where
  "timer_complete pb cusr a count w = bindE (upd_aw pb a (\<lambda>s. s\<lparr>aw_count := count\<rparr>) w) (do_resume pb cusr a)"

definition timer_callback :: "('y, 'w) cpoll \<Rightarrow> 'w cusr \<Rightarrow> nat \<Rightarrow> u64 \<Rightarrow> 'w \<Rightarrow> 'w result" where
  "timer_callback pb cusr a count w = bindE (upd_aw pb a (\<lambda>s. s\<lparr>aw_count := count\<rparr>) w) (do_resume pb cusr a)"

text \<open>\<^verbatim>\<open>async_void_result\<close>\<close>

definition void_complete :: "('y, 'w) cpoll \<Rightarrow> 'w cusr \<Rightarrow> nat \<Rightarrow> 'w \<Rightarrow> 'w result" where
  "void_complete pb cusr a w = bindE (upd_aw pb a (\<lambda>s. s\<lparr>aw_ready := True\<rparr>) w) (do_resume pb cusr a)"

definition void_callback :: "('y, 'w) cpoll \<Rightarrow> 'w cusr \<Rightarrow> nat \<Rightarrow> 'w \<Rightarrow> 'w result" where
  "void_callback pb cusr a w = bindE (upd_aw pb a (\<lambda>s. s\<lparr>aw_ready := True\<rparr>) w) (do_resume pb cusr a)"

definition set_guard :: "('y, 'w) cpoll \<Rightarrow> nat \<Rightarrow> bool \<Rightarrow> 'w \<Rightarrow> 'w result" where
  "set_guard pb a g w = upd_aw pb a (\<lambda>s. s\<lparr>aw_guard := g\<rparr>) w"

definition set_saved_cb :: "('y, 'w) cpoll \<Rightarrow> nat \<Rightarrow> nat option \<Rightarrow> 'w \<Rightarrow> 'w result" where
  "set_saved_cb pb a cb w = upd_aw pb a (\<lambda>s. s\<lparr>aw_saved_cb := cb\<rparr>) w"

definition take_saved_cb :: "('y, 'w) cpoll \<Rightarrow> nat \<Rightarrow> 'w \<Rightarrow> (nat option \<times> 'w) result" where
  "take_saved_cb pb a w = bindE (get_aw pb a w) (\<lambda>s. Inr (aw_saved_cb s, set_aw pb a (s\<lparr>aw_saved_cb := None\<rparr>) w))"

text \<open>\<^verbatim>\<open>async_accept_result\<close>\<close>

definition accept_complete :: "('y, 'w) cpoll \<Rightarrow> 'w cusr \<Rightarrow> nat \<Rightarrow> int \<Rightarrow> fd_t option \<Rightarrow> 'w \<Rightarrow> 'w result" where
  "accept_complete pb cusr a fd info w = bindE (upd_aw pb a (\<lambda>s. s\<lparr>aw_ret := fd, aw_info := info\<rparr>) w) (do_resume pb cusr a)"

definition accept_callback :: "('y, 'w) cpoll \<Rightarrow> 'w cusr \<Rightarrow> nat \<Rightarrow> int \<Rightarrow> fd_t option \<Rightarrow> 'w \<Rightarrow> 'w result" where
  "accept_callback pb cusr a fd info w = bindE (upd_aw pb a (\<lambda>s. s\<lparr>aw_ret := fd, aw_info := info\<rparr>) w) (do_resume pb cusr a)"

subsection \<open>Frames\<close>

definition op_new :: "('y, 'w) cpoll \<Rightarrow> 'w \<Rightarrow> (u64 \<times> 'w) result" where
  "op_new pb w =
     (case co_news (pb_loop pb w) of
        [] \<Rightarrow> Inl Blocked
      | p # ps \<Rightarrow> Inr (p, upd_loop pb (\<lambda>l. l\<lparr>co_news := ps\<rparr>) w))"

definition alloc_frame :: "('y, 'w) cpoll \<Rightarrow> u64 \<Rightarrow> 'w \<Rightarrow> (u64 \<times> 'w) result" where
  "alloc_frame pb sz w =
     (let pool = cs_pool (pb_loop pb w)
      in if sz \<le> fp_block_size pool
         then bindE (pool_alloc pool) (\<lambda>(p, pool).
              let w = upd_loop pb (\<lambda>l. l\<lparr>cs_pool := pool\<rparr>) w
              in case p of Some p \<Rightarrow> Inr (p, w) | None \<Rightarrow> op_new pb w)
         else op_new pb w)"

definition free_frame :: "('y, 'w) cpoll \<Rightarrow> u64 \<Rightarrow> u64 \<Rightarrow> 'w \<Rightarrow> 'w result" where
  "free_frame pb ptr sz w =
     (let pool = cs_pool (pb_loop pb w)
      in if sz \<le> fp_block_size pool \<and> pool_owns ptr pool
         then bindE (pool_free ptr pool) (\<lambda>pool. Inr (upd_loop pb (\<lambda>l. l\<lparr>cs_pool := pool\<rparr>) w))
         else Inr (upd_loop pb (\<lambda>l. l\<lparr>co_deleted := co_deleted l @ [ptr]\<rparr>) w))"

definition set_current :: "('y, 'w) cpoll \<Rightarrow> 'w \<Rightarrow> 'w" where
  "set_current pb w = upd_loop pb (\<lambda>l. l\<lparr>cs_current := True\<rparr>) w"

definition clear_current :: "('y, 'w) cpoll \<Rightarrow> 'w \<Rightarrow> 'w" where
  "clear_current pb w = upd_loop pb (\<lambda>l. l\<lparr>cs_current := False\<rparr>) w"

definition frame_alloc :: "('y, 'w) cpoll \<Rightarrow> u64 \<Rightarrow> 'w \<Rightarrow> (u64 \<times> 'w) result" where
  "frame_alloc pb sz w = (if cs_current (pb_loop pb w) then alloc_frame pb sz w else op_new pb w)"

definition frame_free :: "('y, 'w) cpoll \<Rightarrow> u64 \<Rightarrow> u64 \<Rightarrow> 'w \<Rightarrow> 'w result" where
  "frame_free pb ptr sz w =
     (if cs_current (pb_loop pb w) then free_frame pb ptr sz w
      else Inr (upd_loop pb (\<lambda>l. l\<lparr>co_deleted := co_deleted l @ [ptr]\<rparr>) w))"

subsection \<open>Tasks and generators\<close>

text \<open>A call of a coroutine: the frame is allocated, and the coroutine is suspended at its start. A task is a handle.\<close>

definition task_new :: "('y, 'w) cpoll \<Rightarrow> u64 \<Rightarrow> 'w \<Rightarrow> (nat \<times> 'w) result" where
  "task_new pb sz w =
     bindE (frame_alloc pb sz w) (\<lambda>(p, w).
     let h = co_next_frame (pb_loop pb w);
         f = \<lparr>fr_continuation = None, fr_exception = False, fr_on_final = None, fr_value = 0, fr_done = False, fr_ptr = p, fr_size = sz\<rparr>
     in Inr (h, upd_loop pb (\<lambda>l. l\<lparr>co_frames := (co_frames l)(h \<mapsto> f), co_next_frame := h + 1\<rparr>) w))"

definition task_destroy :: "('y, 'w) cpoll \<Rightarrow> nat option \<Rightarrow> 'w \<Rightarrow> 'w result" where
  "task_destroy pb h w =
     (case h of
        None \<Rightarrow> Inr w
      | Some h \<Rightarrow>
          bindE (get_frame pb h w) (\<lambda>f.
          frame_free pb (fr_ptr f) (fr_size f) (upd_loop pb (\<lambda>l. l\<lparr>co_frames := (co_frames l)(h := None)\<rparr>) w)))"

text \<open>The move assignment: the result is the new handle of the assigned task.\<close>

definition task_assign :: "('y, 'w) cpoll \<Rightarrow> nat option \<Rightarrow> nat option \<Rightarrow> 'w \<Rightarrow> (nat option \<times> 'w) result" where
  "task_assign pb h other w = bindE (task_destroy pb h w) (\<lambda>w. Inr (other, w))"

definition task_done :: "('y, 'w) cpoll \<Rightarrow> nat option \<Rightarrow> 'w \<Rightarrow> bool result" where
  "task_done pb h w = (case h of None \<Rightarrow> Inr True | Some h \<Rightarrow> bindE (get_frame pb h w) (\<lambda>f. Inr (fr_done f)))"

definition task_await_ready :: "('y, 'w) cpoll \<Rightarrow> nat option \<Rightarrow> 'w \<Rightarrow> bool result" where
  "task_await_ready pb h w = (case h of None \<Rightarrow> Inr True | Some h \<Rightarrow> bindE (get_frame pb h w) (\<lambda>f. Inr (fr_done f)))"

definition task_start :: "('y, 'w) cpoll \<Rightarrow> 'w cusr \<Rightarrow> nat option \<Rightarrow> 'w \<Rightarrow> 'w result" where
  "task_start pb cusr h w =
     bindE (task_done pb h w) (\<lambda>d. case h of None \<Rightarrow> Inr w | Some h \<Rightarrow> if d then Inr w else resume pb cusr h w)"

text \<open>The handle to resume next: the awaited coroutine, or none when it has finished.\<close>

definition task_await_suspend :: "('y, 'w) cpoll \<Rightarrow> nat option \<Rightarrow> nat \<Rightarrow> 'w \<Rightarrow> (nat option \<times> 'w) result" where
  "task_await_suspend pb h caller w =
     (case h of
        None \<Rightarrow> Inl Null_Deref
      | Some h \<Rightarrow>
          bindE (upd_frame pb h (\<lambda>f. f\<lparr>fr_continuation := Some caller\<rparr>) w) (\<lambda>w.
          bindE (get_frame pb h w) (\<lambda>f. Inr (if fr_done f then None else Some h, w))))"

text \<open>\<open>Inl True\<close> stands for the exception that is thrown again.\<close>

definition task_await_resume :: "('y, 'w) cpoll \<Rightarrow> nat option \<Rightarrow> 'w \<Rightarrow> (bool + int) result" where
  "task_await_resume pb h w =
     (case h of
        None \<Rightarrow> Inl Null_Deref
      | Some h \<Rightarrow> bindE (get_frame pb h w) (\<lambda>f. Inr (if fr_exception f then Inl True else Inr (fr_value f))))"

definition return_value :: "('y, 'w) cpoll \<Rightarrow> nat \<Rightarrow> int \<Rightarrow> 'w \<Rightarrow> 'w result" where
  "return_value pb h v w = upd_frame pb h (\<lambda>f. f\<lparr>fr_value := v\<rparr>) w"

definition unhandled_exception :: "('y, 'w) cpoll \<Rightarrow> nat \<Rightarrow> 'w \<Rightarrow> 'w result" where
  "unhandled_exception pb h w = upd_frame pb h (\<lambda>f. f\<lparr>fr_exception := True\<rparr>) w"

text \<open>\<^verbatim>\<open>generator::next\<close>, with the handle of the generator.\<close>

definition generator_next :: "('y, 'w) cpoll \<Rightarrow> 'w cusr \<Rightarrow> nat option \<Rightarrow> 'w \<Rightarrow> (bool \<times> 'w) result" where
  "generator_next pb cusr h w =
     (case h of
        None \<Rightarrow> Inr (False, w)
      | Some h \<Rightarrow> bindE (resume pb cusr h w) (\<lambda>w. bindE (get_frame pb h w) (\<lambda>f. Inr (\<not> fr_done f, w))))"

definition yield_value :: "('y, 'w) cpoll \<Rightarrow> nat \<Rightarrow> int \<Rightarrow> 'w \<Rightarrow> 'w result" where
  "yield_value pb h v w = upd_frame pb h (\<lambda>f. f\<lparr>fr_value := v\<rparr>) w"

end
