(* ===== verification/Coroutine_Service.thy ===== *)
theory Coroutine_Service
  imports Awaitable
begin

unbundle bit_operations_syntax

text \<open>
  \<^verbatim>\<open>coroutine_service\<close> of include/coroutine/coroutine_service.h: awaitable wrappers around the
  requests of the event service, the table that admits one read per descriptor, and spawned
  tasks. An operation returns the address of the awaitable. \<open>coro_usr\<close> makes the service a
  user of the event loop; \<open>tid\<close> is the calling thread.
\<close>

abbreviation neg_EALREADY :: int where "neg_EALREADY \<equiv> - 114"
abbreviation neg_ECANCELED :: int where "neg_ECANCELED \<equiv> - 125"

definition co_new_closure :: "('y, 'w) cpoll \<Rightarrow> cclosure \<Rightarrow> 'w \<Rightarrow> nat \<times> 'w" where
  "co_new_closure pb c w =
     (let l = pb_loop pb w; (k, l) = new_closure (Cl_User (length (co_closures l))) l
      in (k, pb_set_loop pb (l\<lparr>co_closures := co_closures l @ [c]\<rparr>) w))"

definition co_new_job :: "('y, 'w) cpoll \<Rightarrow> cjob \<Rightarrow> 'w \<Rightarrow> nat \<times> 'w" where
  "co_new_job pb j w = (let n = length (co_jobs (pb_loop pb w)) in (n, upd_loop pb (\<lambda>l. l\<lparr>co_jobs := co_jobs l @ [j]\<rparr>) w))"

definition co_new_cell :: "('y, 'w) cpoll \<Rightarrow> int \<Rightarrow> 'w \<Rightarrow> nat \<times> 'w" where
  "co_new_cell pb v w =
     (let c = cs_next_cell (pb_loop pb w) in (c, upd_loop pb (\<lambda>l. l\<lparr>cs_cells := (cs_cells l)(c := v), cs_next_cell := c + 1\<rparr>) w))"

definition set_cell :: "('y, 'w) cpoll \<Rightarrow> nat \<Rightarrow> int \<Rightarrow> 'w \<Rightarrow> 'w" where
  "set_cell pb c v w = upd_loop pb (\<lambda>l. l\<lparr>cs_cells := (cs_cells l)(c := v)\<rparr>) w"

text \<open>The constructor; \<open>mem\<close> and \<open>xs\<close> are the memory of the frame pool and its array before they are filled.\<close>

definition coro_service_new :: "('y, 'w) cpoll \<Rightarrow> u64 \<Rightarrow> u64 list \<Rightarrow> u64 \<Rightarrow> u64 \<Rightarrow> 'w \<Rightarrow> 'w result" where
  "coro_service_new pb mem xs frame_block_size frame_pool_capacity w =
     bindE (frame_pool_new mem xs frame_block_size frame_pool_capacity) (\<lambda>pool.
     Inr (set_current pb (upd_loop pb (\<lambda>l. l\<lparr>cs_pool := pool, cs_table := opt_map_empty CORO_MAX_FD, cs_spawned := [], cs_pending := [],
                                               cs_posted := False\<rparr>) w)))"

subsection \<open>The table of descriptors\<close>

definition find_info :: "('y, 'w) cpoll \<Rightarrow> nat \<Rightarrow> 'w \<Rightarrow> nat option" where
  "find_info pb key w = opt_map_find CORO_MAX_FD (cs_table (pb_loop pb w)) key"

definition get_info_at :: "('y, 'w) cpoll \<Rightarrow> nat \<Rightarrow> 'w \<Rightarrow> fd_info result" where
  "get_info_at pb i w = (case cs_infos (pb_loop pb w) i of None \<Rightarrow> Inl Use_After_Free | Some x \<Rightarrow> Inr x)"

definition upd_info_at :: "('y, 'w) cpoll \<Rightarrow> nat \<Rightarrow> (fd_info \<Rightarrow> fd_info) \<Rightarrow> 'w \<Rightarrow> 'w result" where
  "upd_info_at pb i f w =
     bindE (get_info_at pb i w) (\<lambda>x. Inr (upd_loop pb (\<lambda>l. l\<lparr>cs_infos := (cs_infos l)(i \<mapsto> f x)\<rparr>) w))"

definition find_or_make_info :: "('y, 'w) cpoll \<Rightarrow> nat \<Rightarrow> 'w \<Rightarrow> (nat \<times> 'w) result" where
  "find_or_make_info pb key w =
     (case find_info pb key w of
        Some i \<Rightarrow> Inr (i, w)
      | None \<Rightarrow>
          let l = pb_loop pb w; i = cs_next_info l; (ok, t) = opt_map_insert CORO_MAX_FD (cs_table l) key (Some i);
              w = pb_set_loop pb (l\<lparr>cs_infos := (cs_infos l)(i \<mapsto> \<lparr>fi_state = FRS_NONE, fi_awaiter = None\<rparr>), cs_next_info := i + 1, cs_table := t\<rparr>) w
          in bindE (assertE ok) (\<lambda>_. Inr (i, w)))"

subsection \<open>Requests\<close>

text \<open>
  The two \<^verbatim>\<open>read\<close> functions differ in the request and in the buffers they complete with:
  \<open>submit\<close> is the request with the callback.
\<close>

definition coro_read_with ::
  "('y, 'w) cpoll \<Rightarrow> 'w cusr \<Rightarrow> fd_t \<Rightarrow> iovec list option \<Rightarrow> nat \<Rightarrow> (nat \<Rightarrow> 'w op) \<Rightarrow> 'w \<Rightarrow> (nat \<times> 'w) result" where
  "coro_read_with pb cusr fd iov cnt submit w =
     (let (ar, w) = aw_make pb AW_Read w; key = fd_key fd
      in bindE (find_or_make_info pb key w) (\<lambda>(i, w).
         bindE (get_info_at pb i w) (\<lambda>info.
         if fi_state info \<noteq> FRS_NONE then bindE (read_complete pb cusr ar neg_EALREADY iov cnt False w) (\<lambda>w. Inr (ar, w))
         else
           bindE (upd_info_at pb i (\<lambda>x. x\<lparr>fi_state := FRS_PENDING, fi_awaiter := Some ar\<rparr>) w) (\<lambda>w.
           let (c, w) = co_new_closure pb (CC_Read ar key) w
           in bindE (submit c w) (\<lambda>(rc, w).
              if rc \<noteq> 0
              then bindE (upd_info_at pb i (\<lambda>x. x\<lparr>fi_state := FRS_NONE, fi_awaiter := None\<rparr>) w) (\<lambda>w.
                   bindE (read_complete pb cusr ar rc iov cnt False w) (\<lambda>w. Inr (ar, w)))
              else Inr (ar, w))))))"

definition coro_read ::
  "('y, 'w) cpoll \<Rightarrow> 'w cusr \<Rightarrow> fd_t \<Rightarrow> iovec list option \<Rightarrow> nat \<Rightarrow> read_options option \<Rightarrow> 'w \<Rightarrow> (nat \<times> 'w) result" where
  "coro_read pb cusr fd buffer cnt opt w =
     coro_read_with pb cusr fd buffer cnt (\<lambda>c. service_submit_async_read pb fd buffer cnt (Some c) opt) w"

definition coro_read_group :: "('y, 'w) cpoll \<Rightarrow> 'w cusr \<Rightarrow> fd_t \<Rightarrow> u32 \<Rightarrow> read_options option \<Rightarrow> 'w \<Rightarrow> (nat \<times> 'w) result" where
  "coro_read_group pb cusr fd grp opt w =
     coro_read_with pb cusr fd None 0 (\<lambda>c. service_submit_async_read_group pb fd grp (Some c) opt) w"

text \<open>The callback of a read.\<close>

definition run_read_closure ::
  "('y, 'w) cpoll \<Rightarrow> 'w cusr \<Rightarrow> nat \<Rightarrow> nat \<Rightarrow> int \<Rightarrow> iovec list option \<Rightarrow> nat \<Rightarrow> bool \<Rightarrow> 'w \<Rightarrow> 'w result" where
  "run_read_closure pb cusr ar key ret iov cnt extra w =
     bindE (case find_info pb key w of
              None \<Rightarrow> Inr w
            | Some i \<Rightarrow> upd_info_at pb i (\<lambda>x. x\<lparr>fi_state := FRS_NONE, fi_awaiter := None\<rparr>) w)
       (read_callback pb cusr ar ret iov cnt extra)"

text \<open>The common form of the requests that answer with an \<^verbatim>\<open>async_result\<close>.\<close>

definition coro_result_with :: "('y, 'w) cpoll \<Rightarrow> 'w cusr \<Rightarrow> (nat \<Rightarrow> 'w op) \<Rightarrow> 'w \<Rightarrow> (nat \<times> 'w) result" where
  "coro_result_with pb cusr submit w =
     (let (ar, w) = aw_make pb AW_Result w; (c, w) = co_new_closure pb (CC_Result ar) w
      in bindE (submit c w) (\<lambda>(rc, w).
         if rc \<noteq> 0 then bindE (result_complete pb cusr ar rc w) (\<lambda>w. Inr (ar, w)) else Inr (ar, w)))"

definition coro_write ::
  "('y, 'w) cpoll \<Rightarrow> 'w cusr \<Rightarrow> fd_t \<Rightarrow> iovec list option \<Rightarrow> nat \<Rightarrow> write_options option \<Rightarrow> 'w \<Rightarrow> (nat \<times> 'w) result" where
  "coro_write pb cusr fd buffer cnt opt w =
     coro_result_with pb cusr (\<lambda>c. service_submit_async_write pb fd buffer cnt (Some c) opt) w"

definition coro_accept :: "('y, 'w) cpoll \<Rightarrow> 'w cusr \<Rightarrow> fd_t \<Rightarrow> nat option \<Rightarrow> 'w \<Rightarrow> (nat \<times> 'w) result" where
  "coro_accept pb cusr listen_fd addr w =
     (let (ar, w) = aw_make pb AW_Accept w; (c, w) = co_new_closure pb (CC_Accept ar) w
      in bindE (service_submit_async_accept pb listen_fd addr (Some c) w) (\<lambda>(rc, w).
         if rc \<noteq> 0 then bindE (accept_complete pb cusr ar rc None w) (\<lambda>w. Inr (ar, w)) else Inr (ar, w)))"

definition coro_cancel_write :: "('y, 'w) cpoll \<Rightarrow> 'w cusr \<Rightarrow> 'w runner \<Rightarrow> fd_t \<Rightarrow> 'w \<Rightarrow> (nat \<times> 'w) result" where
  "coro_cancel_write pb cusr run fd w = coro_result_with pb cusr (\<lambda>c. service_cancel_async_write pb run fd (Some c)) w"

definition coro_cancel_accept :: "('y, 'w) cpoll \<Rightarrow> 'w cusr \<Rightarrow> 'w runner \<Rightarrow> fd_t \<Rightarrow> 'w \<Rightarrow> (nat \<times> 'w) result" where
  "coro_cancel_accept pb cusr run fd w = coro_result_with pb cusr (\<lambda>c. service_cancel_async_accept pb run fd (Some c)) w"

text \<open>\<open>flag\<close> is the cell of \<^verbatim>\<open>done_flag\<close>, 0 for false.\<close>

definition run_guarded :: "('y, 'w) cpoll \<Rightarrow> 'w cusr \<Rightarrow> nat \<Rightarrow> nat \<Rightarrow> nat \<Rightarrow> int \<Rightarrow> 'w \<Rightarrow> 'w result" where
  "run_guarded pb cusr ar key flag res w =
     (if cs_cells (pb_loop pb w) flag \<noteq> 0 then Inr (set_cell pb flag 1 w)
      else
        let w = set_cell pb flag 1 w
        in bindE (case find_info pb key w of None \<Rightarrow> Inr w | Some i \<Rightarrow> upd_info_at pb i (\<lambda>x. x\<lparr>fi_state := FRS_NONE\<rparr>) w)
             (result_callback pb cusr ar res))"

definition coro_cancel_read :: "('y, 'w) cpoll \<Rightarrow> 'w cusr \<Rightarrow> 'w runner \<Rightarrow> fd_t \<Rightarrow> 'w \<Rightarrow> (nat \<times> 'w) result" where
  "coro_cancel_read pb cusr run fd w =
     (let (ar, w) = aw_make pb AW_Result w; key = fd_key fd
      in case find_info pb key w of
           None \<Rightarrow> bindE (result_complete pb cusr ar neg_EALREADY w) (\<lambda>w. Inr (ar, w))
         | Some i \<Rightarrow>
             bindE (get_info_at pb i w) (\<lambda>info.
             if fi_state info \<noteq> FRS_PENDING then bindE (result_complete pb cusr ar neg_EALREADY w) (\<lambda>w. Inr (ar, w))
             else
               bindE (upd_info_at pb i (\<lambda>x. x\<lparr>fi_state := FRS_CANCELLING\<rparr>) w) (\<lambda>w.
               bindE (case fi_awaiter info of
                        None \<Rightarrow> Inr w
                      | Some a \<Rightarrow>
                          bindE (read_complete pb cusr a neg_ECANCELED None 0 False w)
                            (upd_info_at pb i (\<lambda>x. x\<lparr>fi_awaiter := None\<rparr>))) (\<lambda>w.
               let (flag, w) = co_new_cell pb 0 w; (c, w) = co_new_closure pb (CC_Guarded ar key flag) w
               in bindE (service_cancel_async_read pb run fd (Some c) w) (\<lambda>(rc, w).
                  if rc \<noteq> 0
                  then bindE (upd_info_at pb i (\<lambda>x. x\<lparr>fi_state := FRS_NONE\<rparr>) w) (\<lambda>w.
                       bindE (result_complete pb cusr ar rc w) (\<lambda>w. Inr (ar, w)))
                  else bindE (result_complete pb cusr ar 0 (set_cell pb flag 1 w)) (\<lambda>w. Inr (ar, w)))))))"

subsection \<open>Timers and jobs\<close>

definition coro_sleep :: "('y, 'w) cpoll \<Rightarrow> 'w cusr \<Rightarrow> 'w runner \<Rightarrow> u64 \<Rightarrow> u64 \<Rightarrow> 'w \<Rightarrow> (nat \<times> 'w) result" where
  "coro_sleep pb cusr run interval_s interval_ns w =
     (let (ar, w) = aw_make pb AW_Timer w; (cell, w) = co_new_cell pb (- 1) w; (c, w) = co_new_closure pb (CC_Sleep ar cell) w
      in bindE (service_create_timer pb run interval_s interval_ns (Some c) w) (\<lambda>(timer_id, w).
         let w = set_cell pb cell timer_id w
         in if timer_id < 0 then bindE (timer_complete pb cusr ar (word_of_int timer_id) w) (\<lambda>w. Inr (ar, w)) else Inr (ar, w)))"

definition run_sleep :: "('y, 'w) cpoll \<Rightarrow> 'w cusr \<Rightarrow> 'w runner \<Rightarrow> nat \<Rightarrow> nat \<Rightarrow> u64 \<Rightarrow> 'w \<Rightarrow> 'w result" where
  "run_sleep pb cusr run ar cell count w =
     bindE (timer_callback pb cusr ar count w) (\<lambda>w.
     let timer_id = cs_cells (pb_loop pb w) cell
     in if 0 \<le> timer_id then bindE (service_close_timer pb run timer_id w) (\<lambda>(_, w). Inr w) else Inr w)"

definition run_in_loop :: "('y, 'w) cpoll \<Rightarrow> nat \<Rightarrow> nat \<Rightarrow> 'w \<Rightarrow> (nat \<times> 'w) result" where
  "run_in_loop pb tid job w =
     (let (ar, w) = aw_make pb AW_Result w; (n, w) = co_new_job pb (CJ_Run job ar) w
      in bindE (service_run_job pb tid (Some (Job n)) w) (\<lambda>(_, w). Inr (ar, w)))"

subsection \<open>Spawned tasks\<close>

text \<open>The lambda in \<^verbatim>\<open>on_final_resume_\<close>, for the node of the task.\<close>

definition spawn_final :: "('y, 'w) cpoll \<Rightarrow> nat \<Rightarrow> nat \<Rightarrow> 'w \<Rightarrow> 'w result" where
  "spawn_final pb tid node w =
     (let w = upd_loop pb (\<lambda>l. l\<lparr>cs_spawned := map (\<lambda>(n, h). (n, if n = node then None else h)) (cs_spawned l),
                                cs_pending := cs_pending l @ [node]\<rparr>) w
      in if cs_posted (pb_loop pb w) then Inr w
         else
           let (n, w) = co_new_job pb CJ_Sweep (upd_loop pb (\<lambda>l. l\<lparr>cs_posted := True\<rparr>) w)
           in bindE (service_run_job pb tid (Some (Job n)) w) (\<lambda>(_, w). Inr w))"

text \<open>\<^verbatim>\<open>final_awaiter::await_suspend\<close>, when the coroutine \<open>h\<close> has come to its end.\<close>

definition final_suspend :: "('y, 'w) cpoll \<Rightarrow> 'w cusr \<Rightarrow> nat \<Rightarrow> nat \<Rightarrow> 'w \<Rightarrow> 'w result" where
  "final_suspend pb cusr tid h w =
     bindE (upd_frame pb h (\<lambda>f. f\<lparr>fr_done := True\<rparr>) w) (\<lambda>w.
     bindE (get_frame pb h w) (\<lambda>f.
     bindE (case fr_on_final f of None \<Rightarrow> Inr w | Some node \<Rightarrow> spawn_final pb tid node w) (\<lambda>w.
     bindE (get_frame pb h w) (\<lambda>f.
     case fr_continuation f of None \<Rightarrow> Inr w | Some c \<Rightarrow> resume pb cusr c w))))"

definition spawn :: "('y, 'w) cpoll \<Rightarrow> 'w cusr \<Rightarrow> nat option \<Rightarrow> 'w \<Rightarrow> 'w result" where
  "spawn pb cusr t w =
     bindE (task_done pb t w) (\<lambda>d.
     if d then task_destroy pb t w
     else case t of
            None \<Rightarrow> Inr w
          | Some h \<Rightarrow>
              let node = cs_next_node (pb_loop pb w);
                  w = upd_loop pb (\<lambda>l. l\<lparr>cs_spawned := (node, Some h) # cs_spawned l, cs_next_node := node + 1\<rparr>) w
              in bindE (upd_frame pb h (\<lambda>f. f\<lparr>fr_on_final := Some node\<rparr>) w) (task_start pb cusr (Some h)))"

text \<open>The destructor of the task in an erased node; an iterator of a node that is not in the list is invalid.\<close>

fun sweep_loop :: "('y, 'w) cpoll \<Rightarrow> nat list \<Rightarrow> 'w \<Rightarrow> 'w result" where
  "sweep_loop pb [] w = Inr w"
| "sweep_loop pb (n # ns) w =
     (case map_of (cs_spawned (pb_loop pb w)) n of
        None \<Rightarrow> Inl Bad_Iterator
      | Some h \<Rightarrow>
          bindE (task_destroy pb h (upd_loop pb (\<lambda>l. l\<lparr>cs_spawned := filter (\<lambda>(m, _). m \<noteq> n) (cs_spawned l)\<rparr>) w)) (sweep_loop pb ns))"

definition sweep_completed :: "('y, 'w) cpoll \<Rightarrow> 'w \<Rightarrow> 'w result" where
  "sweep_completed pb w =
     bindE (sweep_loop pb (cs_pending (pb_loop pb w)) w) (\<lambda>w. Inr (upd_loop pb (\<lambda>l. l\<lparr>cs_pending := []\<rparr>) w))"

fun destroy_all :: "('y, 'w) cpoll \<Rightarrow> (nat \<times> nat option) list \<Rightarrow> 'w \<Rightarrow> 'w result" where
  "destroy_all pb [] w = Inr w"
| "destroy_all pb ((_, h) # ts) w = bindE (task_destroy pb h w) (destroy_all pb ts)"

definition clear_spawned :: "('y, 'w) cpoll \<Rightarrow> 'w \<Rightarrow> 'w result" where
  "clear_spawned pb w =
     bindE (destroy_all pb (cs_spawned (pb_loop pb w)) w) (\<lambda>w.
     Inr (upd_loop pb (\<lambda>l. l\<lparr>cs_spawned := [], cs_pending := [], cs_posted := False\<rparr>) w))"

definition spawned_count :: "('y, 'w) cpoll \<Rightarrow> 'w \<Rightarrow> nat" where
  "spawned_count pb w = length (cs_spawned (pb_loop pb w))"

definition coro_service_delete :: "('y, 'w) cpoll \<Rightarrow> 'w \<Rightarrow> 'w result" where
  "coro_service_delete pb w = bindE (clear_spawned pb w) (\<lambda>w. Inr (clear_current pb w))"

subsection \<open>The service as a user of the loop\<close>

definition run_cclosure :: "('y, 'w) cpoll \<Rightarrow> 'w cusr \<Rightarrow> 'w runner \<Rightarrow> 'w lusr \<Rightarrow> nat \<Rightarrow> cbarg \<Rightarrow> 'w \<Rightarrow> 'w result" where
  "run_cclosure pb cusr run app u arg w =
     (let cs = co_closures (pb_loop pb w)
      in if length cs \<le> u then Inl Use_After_Free
         else case (cs ! u, arg) of
                (CC_Read ar key, Arg_Read ret iov cnt extra) \<Rightarrow> run_read_closure pb cusr ar key ret iov cnt extra w
              | (CC_Result ar, Arg_Res ret) \<Rightarrow> result_callback pb cusr ar ret w
              | (CC_Accept ar, Arg_Accept fd info) \<Rightarrow> accept_callback pb cusr ar fd info w
              | (CC_Guarded ar key flag, Arg_Res res) \<Rightarrow> run_guarded pb cusr ar key flag res w
              | (CC_Sleep ar cell, Arg_Res count) \<Rightarrow> run_sleep pb cusr run ar cell (word_of_int count) w
              | (CC_App n, arg) \<Rightarrow> app (L_User n arg) w
              | _ \<Rightarrow> Inl Bad_Function_Call)"

definition run_cjob :: "('y, 'w) cpoll \<Rightarrow> 'w cusr \<Rightarrow> 'w lusr \<Rightarrow> nat \<Rightarrow> 'w \<Rightarrow> 'w result" where
  "run_cjob pb cusr app n w =
     (let js = co_jobs (pb_loop pb w)
      in if length js \<le> n then Inl Use_After_Free
         else case js ! n of
                CJ_Run job ar \<Rightarrow> bindE (cusr (C_Job job) w) (result_complete pb cusr ar 0)
              | CJ_Sweep \<Rightarrow> bindE (sweep_completed pb w) (\<lambda>w. Inr (upd_loop pb (\<lambda>l. l\<lparr>cs_posted := False\<rparr>) w))
              | CJ_App n \<Rightarrow> app (L_Job n) w)"

definition coro_usr :: "('y, 'w) cpoll \<Rightarrow> 'w cusr \<Rightarrow> 'w runner \<Rightarrow> 'w lusr \<Rightarrow> 'w lusr" where
  "coro_usr pb cusr run app c w =
     (case c of
        L_User u arg \<Rightarrow> run_cclosure pb cusr run app u arg w
      | L_Job n \<Rightarrow> run_cjob pb cusr app n w
      | _ \<Rightarrow> app c w)"

end
