(* ===== verification/Coroutine_Proofs.thy ===== *)
theory Coroutine_Proofs
  imports Coroutine_Service Loop_Properties
begin

unbundle bit_operations_syntax

text \<open>
  The coroutine layer over any backend that keeps the contract of the loop (locale
  \<open>coro_backend\<close>), its instances on the two backends, and its properties.
\<close>

text \<open>Coroutines that run to their next suspension and leave the loop object as it is.\<close>

definition cusr_idle :: "('y, 'w) cpoll \<Rightarrow> 'w cusr \<Rightarrow> bool" where
  "cusr_idle pb cusr \<longleftrightarrow> (\<forall>c w. \<exists>w'. cusr c w = Inr w' \<and> pb_loop pb w' = pb_loop pb w)"

lemma cusr_idleE:
  assumes "cusr_idle pb cusr"
  obtains g where "\<forall>c w. cusr c w = Inr (g c w)" "\<forall>c w. pb_loop pb (g c w) = pb_loop pb w"
  using assms unfolding cusr_idle_def by metis

text \<open>A coroutine that is suspended.\<close>

definition suspended :: "'y coro_loop_scheme \<Rightarrow> nat \<Rightarrow> bool" where
  "suspended l h \<longleftrightarrow> (\<exists>f. co_frames l h = Some f \<and> \<not> fr_done f)"

text \<open>The state of reading of a descriptor; a descriptor that is not in the table is not read.\<close>

definition read_state :: "('y, 'w) cpoll \<Rightarrow> nat \<Rightarrow> 'w \<Rightarrow> fd_read_state" where
  "read_state pb key w =
     (case find_info pb key w of
        None \<Rightarrow> FRS_NONE
      | Some i \<Rightarrow> (case cs_infos (pb_loop pb w) i of None \<Rightarrow> FRS_NONE | Some x \<Rightarrow> fi_state x))"

definition table_wf :: "'y coro_loop_scheme \<Rightarrow> bool" where
  "table_wf l \<longleftrightarrow> opt_map_wf CORO_MAX_FD (cs_table l) \<and> (\<forall>k i. opt_map_find CORO_MAX_FD (cs_table l) k = Some i \<longrightarrow> cs_infos l i \<noteq> None)"

lemma awaiter_new_simps [simp]:
  "aw_kind (awaiter_new k) = k" "\<not> aw_ready (awaiter_new k)" "aw_handle (awaiter_new k) = None" "aw_cleanup (awaiter_new k) = None"
  by (simp_all add: awaiter_new_def)

lemmas aw_defs = get_aw_def set_aw_def upd_aw_def get_frame_def upd_frame_def co_await_def await_ready_def await_suspend_def
lemmas cell_defs = co_new_closure_def co_new_job_def co_new_cell_def set_cell_def new_closure_def aw_make_def

locale coro_backend = loop_backend pb inited
  for pb :: "('y coro_loop_scheme, 'w) poll_base" and inited :: "'w \<Rightarrow> bool"
begin

subsection \<open>Results\<close>

lemma resume_suspended:
  "suspended (pb_loop pb w) h \<Longrightarrow> resume pb cusr h w = cusr (C_Body h) (upd_loop pb (\<lambda>l. l\<lparr>co_resumed := co_resumed l @ [h]\<rparr>) w)"
  by (auto simp: resume_def get_frame_def suspended_def)

text \<open>The state in which the awaitable \<open>a\<close> holds \<open>s\<close> and the coroutine \<open>h\<close> is resumed.\<close>

definition woken :: "nat \<Rightarrow> awaiter \<Rightarrow> nat \<Rightarrow> 'w \<Rightarrow> 'w" where
  "woken a s h w = upd_loop pb (\<lambda>l. l\<lparr>co_awaiters := (co_awaiters l)(a \<mapsto> s), co_resumed := co_resumed l @ [h]\<rparr>) w"

lemma woken_state:
  "co_resumed (pb_loop pb (woken a s h w)) = co_resumed (pb_loop pb w) @ [h]" "get_aw pb a (woken a s h w) = Inr s"
  "co_frames (pb_loop pb (woken a s h w)) = co_frames (pb_loop pb w)" "cs_infos (pb_loop pb (woken a s h w)) = cs_infos (pb_loop pb w)"
  "cs_table (pb_loop pb (woken a s h w)) = cs_table (pb_loop pb w)" "co_awaiters (pb_loop pb (woken a s h w)) = (co_awaiters (pb_loop pb w))(a \<mapsto> s)"
  by (simp_all add: woken_def get_aw_def upd_loop_def loop_set)

lemma set_aw_state:
  "co_resumed (pb_loop pb (set_aw pb a s w)) = co_resumed (pb_loop pb w)" "co_closures (pb_loop pb (set_aw pb a s w)) = co_closures (pb_loop pb w)"
  "co_frames (pb_loop pb (set_aw pb a s w)) = co_frames (pb_loop pb w)" "cs_infos (pb_loop pb (set_aw pb a s w)) = cs_infos (pb_loop pb w)"
  "cs_table (pb_loop pb (set_aw pb a s w)) = cs_table (pb_loop pb w)" "co_awaiters (pb_loop pb (set_aw pb a s w)) = (co_awaiters (pb_loop pb w))(a \<mapsto> s)"
  "suspended (pb_loop pb (set_aw pb a s w)) h = suspended (pb_loop pb w) h" "get_aw pb a (set_aw pb a s w) = Inr s"
  by (simp_all add: set_aw_def upd_loop_def loop_set suspended_def get_aw_def)

lemma co_await_suspends:
  "co_awaiters (pb_loop pb w) a = Some s \<Longrightarrow> \<not> await_ready s \<Longrightarrow>
    co_await pb a h w = Inr (False, set_aw pb a (s\<lparr>aw_handle := Some h\<rparr>) w)"
  by (simp add: aw_defs loop_set set_set upd_loop_def)

lemma result_callback_resumes:
  assumes "co_awaiters (pb_loop pb w) a = Some s" "aw_handle s = Some h" "aw_cleanup s = None" "suspended (pb_loop pb w) h"
  shows "result_callback pb cusr a n w = cusr (C_Body h) (woken a (s\<lparr>aw_ready := True, aw_ret := n, aw_cleanup := None\<rparr>) h w)"
  using assms
  by (auto simp: aw_defs result_callback_def do_resume_def resume_def suspended_def loop_set set_set upd_loop_def woken_def)

lemma read_callback_resumes:
  assumes "co_awaiters (pb_loop pb w) a = Some s" "aw_handle s = Some h" "suspended (pb_loop pb w) h"
  shows "read_callback pb cusr a n iov cnt x w =
     cusr (C_Body h) (woken a (s\<lparr>aw_ret := n, aw_iov := iov, aw_iov_cnt := cnt, aw_extra := x\<rparr>) h w)"
  using assms
  by (auto simp: aw_defs read_callback_def do_resume_def resume_def suspended_def loop_set set_set upd_loop_def woken_def)

lemma result_before_await:
  assumes "co_awaiters (pb_loop pb w) a = Some s" "aw_kind s = AW_Result" "aw_handle s = None" "aw_cleanup s = None"
  shows "result_complete pb cusr a n w = Inr (set_aw pb a (s\<lparr>aw_ready := True, aw_ret := n\<rparr>) w)"
    "co_await pb a h (set_aw pb a (s\<lparr>aw_ready := True, aw_ret := n\<rparr>) w) = Inr (True, set_aw pb a (s\<lparr>aw_ready := True, aw_ret := n\<rparr>) w)"
  using assms by (simp_all add: aw_defs result_complete_def do_resume_def loop_set set_set upd_loop_def)

text \<open>The call of the closure \<open>c\<close> by the backend.\<close>

lemma run_coro_closure:
  assumes "c < length (el_closures (pb_loop pb w))" "el_closures (pb_loop pb w) ! c = Cl_User u"
  shows "run_closure pb (coro_usr pb cusr run app) tmo c arg w =
     run_cclosure pb cusr run app u arg (upd_loop pb (\<lambda>l. l\<lparr>el_calls := el_calls l @ [L_User u arg]\<rparr>) w)"
  using assms by (simp add: run_closure_def call_user_def coro_usr_def Let_def)

lemma coro_write_resumes:
  assumes "coro_write pb cusr fd buf cnt opt w = Inr (ar, w1)" "suspended (pb_loop pb w) h" "c = length (el_closures (pb_loop pb w))"
  shows "(\<exists>s. co_await pb ar h w1 = Inr (True, w1) \<and> co_resumed (pb_loop pb w1) = co_resumed (pb_loop pb w) \<and>
       get_aw pb ar w1 = Inr s \<and> await_resume s \<noteq> 0) \<or>
    (\<exists>w2. co_await pb ar h w1 = Inr (False, w2) \<and> co_resumed (pb_loop pb w2) = co_resumed (pb_loop pb w) \<and>
       (\<forall>n. \<exists>w3 s. run_closure pb (coro_usr pb cusr run app) tmo c (Arg_Res n) w2 = cusr (C_Body h) w3 \<and>
          co_resumed (pb_loop pb w3) = co_resumed (pb_loop pb w) @ [h] \<and> get_aw pb ar w3 = Inr s \<and> await_resume s = n))"
proof -
  define v where "v = snd (co_new_closure pb (CC_Result ar) (snd (aw_make pb AW_Result w)))"
  let ?s = "awaiter_new AW_Result"
  obtain rc v' where ar: "ar = co_next_awaiter (pb_loop pb w)" and v': "service_submit_async_write pb fd buf cnt (Some c) opt v = Inr (rc, v')" and
    rest: "(if rc \<noteq> 0 then bindE (result_complete pb cusr ar rc v') (\<lambda>w. Inr (ar, w)) else Inr (ar, v')) = Inr (ar, w1)"
    using assms(1,3) unfolding coro_write_def coro_result_with_def v_def
    by (auto simp: cell_defs Let_def elim!: bindE_InrE split: if_splits)
  have "pb_loop pb v' = pb_loop pb v" using v' by (auto simp: service_submit_async_write_def with_poll_def split: if_splits dest: write_loop)
  then have l: "co_awaiters (pb_loop pb v') ar = Some ?s" "suspended (pb_loop pb v') h" "el_closures (pb_loop pb v') = el_closures (pb_loop pb w) @ [Cl_User (length (co_closures (pb_loop pb w)))]"
    "co_closures (pb_loop pb v') = co_closures (pb_loop pb w) @ [CC_Result ar]" "co_resumed (pb_loop pb v') = co_resumed (pb_loop pb w)"
    using assms(2) ar by (simp_all add: v_def cell_defs upd_loop_def loop_set set_set suspended_def Let_def)
  have s: "aw_kind ?s = AW_Result" "\<not> await_ready ?s" "aw_cleanup ?s = None" "aw_handle ?s = None"
    by (simp_all add: awaiter_new_def await_ready_def)
  show ?thesis
  proof (cases "rc = 0")
    case False
    then have "w1 = set_aw pb ar (?s\<lparr>aw_ready := True, aw_ret := rc\<rparr>) v'"
      using rest by (simp add: result_before_await(1) [OF l(1) s(1,4,3)])
    then show ?thesis using False result_before_await(2) [OF l(1) s(1,4,3)] l(5)
      by (simp add: set_aw_state await_resume_def s(1))
  next
    case True
    let ?w2 = "set_aw pb ar (?s\<lparr>aw_handle := Some h\<rparr>) v'"
    have "\<exists>w3 s. run_closure pb (coro_usr pb cusr run app) tmo c (Arg_Res n) ?w2 = cusr (C_Body h) w3 \<and>
          co_resumed (pb_loop pb w3) = co_resumed (pb_loop pb w) @ [h] \<and> get_aw pb ar w3 = Inr s \<and> await_resume s = n" for n
    proof -
      let ?u = "length (co_closures (pb_loop pb w))"
      let ?w = "upd_loop pb (\<lambda>l. l\<lparr>el_calls := el_calls l @ [L_User ?u (Arg_Res n)]\<rparr>) ?w2"
      have "el_closures (pb_loop pb ?w2) = el_closures (pb_loop pb v')" by (simp add: set_aw_def)
      then have "run_closure pb (coro_usr pb cusr run app) tmo c (Arg_Res n) ?w2 = run_cclosure pb cusr run app ?u (Arg_Res n) ?w"
        using l(3) assms(3) by (intro run_coro_closure) auto
      also have "\<dots> = result_callback pb cusr ar n ?w" by (simp add: run_cclosure_def set_aw_state l(4))
      also have "\<dots> = cusr (C_Body h) (woken ar (?s\<lparr>aw_handle := Some h, aw_ready := True, aw_ret := n, aw_cleanup := None\<rparr>) h ?w)"
        using l(2) s(3) by (intro result_callback_resumes) (simp_all add: set_aw_state suspended_def)
      finally show ?thesis using l(5) by (auto simp: woken_state set_aw_state await_resume_def s(1))
    qed
    moreover have "w1 = v'" using True rest by simp
    ultimately show ?thesis using co_await_suspends [OF l(1) s(2), of h] l(5) by (auto simp: set_aw_state)
  qed
qed

subsection \<open>Reads\<close>

lemmas info_defs = find_info_def get_info_at_def upd_info_at_def

lemma find_or_make_info_ok:
  assumes "table_wf (pb_loop pb w)"
  shows "\<exists>i I j t x. find_or_make_info pb key w = Inr (i, upd_loop pb (\<lambda>l. l\<lparr>cs_infos := I, cs_next_info := j, cs_table := t\<rparr>) w) \<and>
     opt_map_find CORO_MAX_FD t key = Some i \<and> I i = Some x \<and> fi_state x = read_state pb key w"
proof (cases "find_info pb key w")
  case (Some k)
  then obtain x where "cs_infos (pb_loop pb w) k = Some x" using assms by (auto simp: table_wf_def find_info_def)
  then show ?thesis using Some
    by (intro exI [of _ k] exI [of _ "cs_infos (pb_loop pb w)"] exI [of _ "cs_next_info (pb_loop pb w)"] exI [of _ "cs_table (pb_loop pb w)"] exI [of _ x])
      (simp add: find_or_make_info_def find_info_def upd_loop_def set_loop read_state_def)
next
  case None
  let ?l = "pb_loop pb w" and ?x = "\<lparr>fi_state = FRS_NONE, fi_awaiter = None\<rparr>"
  obtain ok t where t: "opt_map_insert CORO_MAX_FD (cs_table ?l) key (Some (cs_next_info ?l)) = (ok, t)" by fastforce
  then have "ok" "opt_map_find CORO_MAX_FD t key = Some (cs_next_info ?l)"
    using assms None om.find_or_create [of CORO_MAX_FD "cs_table ?l" key "cs_next_info ?l"] by (simp_all add: table_wf_def find_info_def)
  then show ?thesis using None t
    by (intro exI [of _ "cs_next_info ?l"] exI [of _ "(cs_infos ?l)(cs_next_info ?l \<mapsto> ?x)"] exI [of _ "cs_next_info ?l + 1"] exI [of _ t] exI [of _ ?x])
      (simp add: find_or_make_info_def Let_def read_state_def upd_loop_def assertE_def)
qed

lemma coro_read_refused:
  assumes "find_info pb (fd_key fd) w = Some i" "cs_infos (pb_loop pb w) i = Some x" "fi_state x \<noteq> FRS_NONE"
  defines "ar \<equiv> co_next_awaiter (pb_loop pb w)"
  shows "coro_read pb cusr fd buf cnt opt w =
     Inr (ar, upd_loop pb (\<lambda>l. l\<lparr>co_next_awaiter := ar + 1, co_awaiters := (co_awaiters l)(ar \<mapsto>
       (awaiter_new AW_Read)\<lparr>aw_ret := neg_EALREADY, aw_iov := buf, aw_iov_cnt := cnt\<rparr>)\<rparr>) w)"
  using assms
  by (simp add: coro_read_def coro_read_with_def aw_make_def Let_def find_or_make_info_def info_defs read_complete_def do_resume_def
      aw_defs upd_loop_def loop_set set_set awaiter_new_def)

lemma coro_read_already:
  assumes "find_info pb (fd_key fd) w = Some i" "cs_infos (pb_loop pb w) i = Some x" "fi_state x \<noteq> FRS_NONE"
  shows "\<exists>l s. coro_read pb cusr fd buf cnt opt w = Inr (co_next_awaiter (pb_loop pb w), pb_set_loop pb l w) \<and>
     co_awaiters l (co_next_awaiter (pb_loop pb w)) = Some s \<and> await_resume s = neg_EALREADY"
proof -
  let ?a = "co_next_awaiter (pb_loop pb w)" and ?s = "(awaiter_new AW_Read)\<lparr>aw_ret := neg_EALREADY, aw_iov := buf, aw_iov_cnt := cnt\<rparr>"
  let ?l = "(pb_loop pb w)\<lparr>co_next_awaiter := ?a + 1, co_awaiters := (co_awaiters (pb_loop pb w))(?a \<mapsto> ?s)\<rparr>"
  show ?thesis
    by (intro exI [of _ ?l] exI [of _ ?s]) (simp add: coro_read_refused [OF assms] upd_loop_def await_resume_def awaiter_new_def)
qed

lemma read_await_suspends:
  "co_awaiters (pb_loop pb w) a = Some s \<Longrightarrow> aw_kind s = AW_Read \<Longrightarrow> co_await pb a h w = Inr (False, set_aw pb a (s\<lparr>aw_handle := Some h\<rparr>) w)"
  by (simp add: co_await_suspends await_ready_def)

lemma read_state_eq:
  "cs_table (pb_loop pb w') = cs_table (pb_loop pb w) \<Longrightarrow> cs_infos (pb_loop pb w') = cs_infos (pb_loop pb w) \<Longrightarrow>
    read_state pb key w' = read_state pb key w"
  by (simp add: read_state_def find_info_def split: option.split)

text \<open>A read of a descriptor that is not read: the request, with the read noted in the table and its closure made.\<close>

lemma coro_read_submits:
  assumes "table_wf (pb_loop pb w)" "read_state pb (fd_key fd) w = FRS_NONE"
  defines "ar \<equiv> co_next_awaiter (pb_loop pb w)" and "key \<equiv> fd_key fd"
  shows "\<exists>i I j t v. v = upd_loop pb (\<lambda>l. l\<lparr>co_awaiters := (co_awaiters l)(ar \<mapsto> awaiter_new AW_Read), co_next_awaiter := ar + 1,
       cs_next_info := j, cs_table := t, cs_infos := I, el_closures := el_closures l @ [Cl_User (length (co_closures l))],
       co_closures := co_closures l @ [CC_Read ar key]\<rparr>) w \<and>
     opt_map_find CORO_MAX_FD t key = Some i \<and> I i = Some \<lparr>fi_state = FRS_PENDING, fi_awaiter = Some ar\<rparr> \<and>
     coro_read pb cusr fd buf cnt opt w =
       bindE (service_submit_async_read pb fd buf cnt (Some (length (el_closures (pb_loop pb w)))) opt v) (\<lambda>(rc, w).
       if rc \<noteq> 0
       then bindE (upd_info_at pb i (\<lambda>x. x\<lparr>fi_state := FRS_NONE, fi_awaiter := None\<rparr>) w) (\<lambda>w.
            bindE (read_complete pb cusr ar rc buf cnt False w) (\<lambda>w. Inr (ar, w)))
       else Inr (ar, w))"
proof -
  define wA where "wA = upd_loop pb (\<lambda>l. l\<lparr>co_awaiters := (co_awaiters l)(ar \<mapsto> awaiter_new AW_Read), co_next_awaiter := ar + 1\<rparr>) w"
  have A: "aw_make pb AW_Read w = (ar, wA)" "table_wf (pb_loop pb wA)" "read_state pb key wA = FRS_NONE"
    using assms(1,2) read_state_eq [of wA w key] by (simp_all add: aw_make_def ar_def key_def table_wf_def Let_def wA_def)
  from find_or_make_info_ok [OF A(2), of key] obtain i I j t x where
    f: "find_or_make_info pb key wA = Inr (i, upd_loop pb (\<lambda>l. l\<lparr>cs_infos := I, cs_next_info := j, cs_table := t\<rparr>) wA)"
      "opt_map_find CORO_MAX_FD t key = Some i" "I i = Some x" "fi_state x = read_state pb key wA" by blast
  have x: "fi_state x = FRS_NONE" "x\<lparr>fi_state := FRS_PENDING, fi_awaiter := Some ar\<rparr> = \<lparr>fi_state = FRS_PENDING, fi_awaiter = Some ar\<rparr>"
    using f(4) A(3) by simp_all
  show ?thesis
    by (rule exI [of _ i], rule exI [of _ "I(i \<mapsto> \<lparr>fi_state = FRS_PENDING, fi_awaiter = Some ar\<rparr>)"], rule exI [of _ j], rule exI [of _ t], rule exI, intro conjI, rule refl, rule f(2), simp)
      (simp add: coro_read_def coro_read_with_def A(1) f(1,3) x Let_def key_def [symmetric] info_defs upd_loop_def loop_set set_set
        co_new_closure_def new_closure_def, simp add: wA_def upd_loop_def loop_set set_set)
qed

lemma read_closure_resumes:
  assumes "find_info pb key w = Some i" "cs_infos (pb_loop pb w) i = Some x" "co_awaiters (pb_loop pb w) ar = Some s" "aw_handle s = Some h"
    "suspended (pb_loop pb w) h"
  shows "\<exists>w'. run_read_closure pb cusr ar key n iov cnt extra w = cusr (C_Body h) w' \<and> read_state pb key w' = FRS_NONE \<and>
     co_resumed (pb_loop pb w') = co_resumed (pb_loop pb w) @ [h] \<and>
     get_aw pb ar w' = Inr (s\<lparr>aw_ret := n, aw_iov := iov, aw_iov_cnt := cnt, aw_extra := extra\<rparr>)"
proof -
  let ?w = "upd_loop pb (\<lambda>l. l\<lparr>cs_infos := (cs_infos l)(i \<mapsto> x\<lparr>fi_state := FRS_NONE, fi_awaiter := None\<rparr>)\<rparr>) w"
  have "run_read_closure pb cusr ar key n iov cnt extra w = read_callback pb cusr ar n iov cnt extra ?w"
    using assms(1,2) by (simp add: run_read_closure_def upd_info_at_def get_info_at_def)
  moreover have "\<dots> = cusr (C_Body h) (woken ar (s\<lparr>aw_ret := n, aw_iov := iov, aw_iov_cnt := cnt, aw_extra := extra\<rparr>) h ?w)"
    using assms(3-5) by (intro read_callback_resumes) (simp_all add: suspended_def)
  moreover have "read_state pb key (woken ar s' h ?w) = FRS_NONE" for s'
    using assms(1) by (simp add: read_state_def find_info_def woken_state)
  ultimately show ?thesis by (auto simp: woken_state)
qed

text \<open>A backend that accepts the request makes the read pending.\<close>

lemma coro_read_accepted:
  assumes "table_wf (pb_loop pb w)" "read_state pb (fd_key fd) w = FRS_NONE" "el_poll (pb_loop pb w)" "c = length (el_closures (pb_loop pb w))"
    "\<forall>l. \<exists>w'. pb_submit_async_read pb fd buf cnt (Some c) opt (pb_set_loop pb l w) = Inr (0, w')"
  shows "\<exists>w1. coro_read pb cusr fd buf cnt opt w = Inr (co_next_awaiter (pb_loop pb w), w1) \<and> read_state pb (fd_key fd) w1 = FRS_PENDING"
proof -
  let ?a = "co_next_awaiter (pb_loop pb w)"
  from coro_read_submits [OF assms(1,2), of cusr buf cnt opt] obtain i I j t l where
    v: "l = (pb_loop pb w)\<lparr>co_awaiters := (co_awaiters (pb_loop pb w))(?a \<mapsto> awaiter_new AW_Read), co_next_awaiter := ?a + 1,
       cs_next_info := j, cs_table := t, cs_infos := I, el_closures := el_closures (pb_loop pb w) @ [Cl_User (length (co_closures (pb_loop pb w)))],
       co_closures := co_closures (pb_loop pb w) @ [CC_Read ?a (fd_key fd)]\<rparr>"
    and t: "opt_map_find CORO_MAX_FD t (fd_key fd) = Some i" "I i = Some \<lparr>fi_state = FRS_PENDING, fi_awaiter = Some ?a\<rparr>"
    and r: "coro_read pb cusr fd buf cnt opt w =
       bindE (service_submit_async_read pb fd buf cnt (Some c) opt (pb_set_loop pb l w)) (\<lambda>(rc, w).
       if rc \<noteq> 0
       then bindE (upd_info_at pb i (\<lambda>x. x\<lparr>fi_state := FRS_NONE, fi_awaiter := None\<rparr>) w) (\<lambda>w.
            bindE (read_complete pb cusr ?a rc buf cnt False w) (\<lambda>w. Inr (?a, w)))
       else Inr (?a, w))" unfolding assms(4) upd_loop_def by blast
  from assms(5) obtain w' where w': "pb_submit_async_read pb fd buf cnt (Some c) opt (pb_set_loop pb l w) = Inr (0, w')" by blast
  have "el_poll l" using v assms(3) by simp
  moreover have "cs_table (pb_loop pb w') = t" "cs_infos (pb_loop pb w') = I" using read_loop [OF w'] v by (simp_all add: loop_set)
  ultimately show ?thesis using r w' t by (simp add: service_submit_async_read_def with_poll_def loop_set read_state_def find_info_def)
qed

lemma coro_read_noted:
  assumes "coro_read pb cusr fd buf cnt opt w = Inr (ar, w1)" "table_wf (pb_loop pb w)" "read_state pb (fd_key fd) w = FRS_NONE"
    "read_state pb (fd_key fd) w1 \<noteq> FRS_NONE"
  shows "ar = co_next_awaiter (pb_loop pb w) \<and> co_awaiters (pb_loop pb w1) ar = Some (awaiter_new AW_Read) \<and>
     (\<exists>i. find_info pb (fd_key fd) w1 = Some i \<and> cs_infos (pb_loop pb w1) i = Some \<lparr>fi_state = FRS_PENDING, fi_awaiter = Some ar\<rparr>) \<and>
     el_closures (pb_loop pb w1) = el_closures (pb_loop pb w) @ [Cl_User (length (co_closures (pb_loop pb w)))] \<and>
     co_closures (pb_loop pb w1) = co_closures (pb_loop pb w) @ [CC_Read ar (fd_key fd)] \<and>
     co_frames (pb_loop pb w1) = co_frames (pb_loop pb w) \<and> co_resumed (pb_loop pb w1) = co_resumed (pb_loop pb w)"
proof -
  let ?key = "fd_key fd" and ?a = "co_next_awaiter (pb_loop pb w)" and ?u = "length (co_closures (pb_loop pb w))"
  let ?fin = "\<lambda>i rc v. if rc \<noteq> 0
       then bindE (upd_info_at pb i (\<lambda>x. x\<lparr>fi_state := FRS_NONE, fi_awaiter := None\<rparr>) v) (\<lambda>w.
            bindE (read_complete pb cusr ?a rc buf cnt False w) (\<lambda>w. Inr (?a, w)))
       else Inr (?a, v)"
  from coro_read_submits [OF assms(2,3), of cusr buf cnt opt] obtain i I j t v where
    v: "v = upd_loop pb (\<lambda>l. l\<lparr>co_awaiters := (co_awaiters l)(?a \<mapsto> awaiter_new AW_Read), co_next_awaiter := ?a + 1,
       cs_next_info := j, cs_table := t, cs_infos := I, el_closures := el_closures l @ [Cl_User (length (co_closures l))],
       co_closures := co_closures l @ [CC_Read ?a ?key]\<rparr>) w"
    and t: "opt_map_find CORO_MAX_FD t ?key = Some i" and I: "I i = Some \<lparr>fi_state = FRS_PENDING, fi_awaiter = Some ?a\<rparr>"
    and r: "coro_read pb cusr fd buf cnt opt w =
       bindE (service_submit_async_read pb fd buf cnt (Some (length (el_closures (pb_loop pb w)))) opt v) (\<lambda>(rc, w). ?fin i rc w)" by blast
  from assms(1) [unfolded r] obtain rc v' where
    sub: "service_submit_async_read pb fd buf cnt (Some (length (el_closures (pb_loop pb w)))) opt v = Inr (rc, v')" and
    rest: "?fin i rc v' = Inr (ar, w1)" by (auto elim!: bindE_InrE)
  have "pb_loop pb v' = pb_loop pb v" using sub by (auto simp: service_submit_async_read_def with_poll_def split: if_splits dest: read_loop)
  then have l: "co_awaiters (pb_loop pb v') ?a = Some (awaiter_new AW_Read)" "cs_table (pb_loop pb v') = t" "cs_infos (pb_loop pb v') = I"
    "el_closures (pb_loop pb v') = el_closures (pb_loop pb w) @ [Cl_User ?u]" "co_closures (pb_loop pb v') = co_closures (pb_loop pb w) @ [CC_Read ?a ?key]"
    "co_frames (pb_loop pb v') = co_frames (pb_loop pb w)" "co_resumed (pb_loop pb v') = co_resumed (pb_loop pb w)"
    using v by simp_all
  have "rc = 0"
  proof (rule ccontr)
    assume "rc \<noteq> 0"
    then have "read_state pb ?key w1 = FRS_NONE" using rest l(1,2,3) t I
      by (auto simp: upd_info_at_def get_info_at_def read_complete_def do_resume_def aw_defs awaiter_new_def upd_loop_def loop_set set_set read_state_def find_info_def
          split: if_splits)
    then show False using assms(4) by simp
  qed
  then show ?thesis using rest l t I by (simp add: find_info_def)
qed

lemma coro_read_round:
  assumes "coro_read pb cusr fd buf cnt opt w = Inr (ar, w1)" "table_wf (pb_loop pb w)" "read_state pb (fd_key fd) w = FRS_NONE"
    "read_state pb (fd_key fd) w1 \<noteq> FRS_NONE" "suspended (pb_loop pb w) h" "c = length (el_closures (pb_loop pb w))"
  shows "\<exists>w2. co_await pb ar h w1 = Inr (False, w2) \<and> co_resumed (pb_loop pb w2) = co_resumed (pb_loop pb w) \<and> read_state pb (fd_key fd) w2 = FRS_PENDING \<and>
       (\<forall>b n opt'. \<exists>l s. coro_read pb cusr fd b n opt' w2 = Inr (co_next_awaiter (pb_loop pb w2), pb_set_loop pb l w2) \<and>
          co_awaiters l (co_next_awaiter (pb_loop pb w2)) = Some s \<and> await_resume s = neg_EALREADY) \<and>
       (\<forall>n iov k x. \<exists>w3 s. run_closure pb (coro_usr pb cusr run app) tmo c (Arg_Read n iov k x) w2 = cusr (C_Body h) w3 \<and>
          co_resumed (pb_loop pb w3) = co_resumed (pb_loop pb w) @ [h] \<and> read_state pb (fd_key fd) w3 = FRS_NONE \<and>
          get_aw pb ar w3 = Inr s \<and> await_resume s = n \<and> aw_iov s = iov \<and> aw_iov_cnt s = k)"
proof -
  let ?key = "fd_key fd" and ?u = "length (co_closures (pb_loop pb w))"
  from coro_read_noted [OF assms(1-4)] obtain i where
    n: "co_awaiters (pb_loop pb w1) ar = Some (awaiter_new AW_Read)"
      "find_info pb ?key w1 = Some i" "cs_infos (pb_loop pb w1) i = Some \<lparr>fi_state = FRS_PENDING, fi_awaiter = Some ar\<rparr>"
      "el_closures (pb_loop pb w1) = el_closures (pb_loop pb w) @ [Cl_User ?u]"
      "co_closures (pb_loop pb w1) = co_closures (pb_loop pb w) @ [CC_Read ar ?key]"
      "co_frames (pb_loop pb w1) = co_frames (pb_loop pb w)" "co_resumed (pb_loop pb w1) = co_resumed (pb_loop pb w)" by blast
  let ?s = "(awaiter_new AW_Read)\<lparr>aw_handle := Some h\<rparr>"
  let ?w2 = "set_aw pb ar ?s w1"
  have i2: "find_info pb ?key ?w2 = Some i" "cs_infos (pb_loop pb ?w2) i = Some \<lparr>fi_state = FRS_PENDING, fi_awaiter = Some ar\<rparr>"
    "suspended (pb_loop pb ?w2) h" "co_awaiters (pb_loop pb ?w2) ar = Some ?s"
    using n assms(5) by (simp_all add: find_info_def set_aw_state suspended_def)
  have a: "\<exists>l s. coro_read pb cusr fd b n opt' ?w2 = Inr (co_next_awaiter (pb_loop pb ?w2), pb_set_loop pb l ?w2) \<and>
          co_awaiters l (co_next_awaiter (pb_loop pb ?w2)) = Some s \<and> await_resume s = neg_EALREADY" for b n opt'
    by (rule coro_read_already [OF i2(1,2)]) simp
  have b: "\<exists>w3 s. run_closure pb (coro_usr pb cusr run app) tmo c (Arg_Read n iov k x) ?w2 = cusr (C_Body h) w3 \<and>
          co_resumed (pb_loop pb w3) = co_resumed (pb_loop pb w) @ [h] \<and> read_state pb ?key w3 = FRS_NONE \<and>
          get_aw pb ar w3 = Inr s \<and> await_resume s = n \<and> aw_iov s = iov \<and> aw_iov_cnt s = k" for n iov k x
  proof -
    let ?w = "upd_loop pb (\<lambda>l. l\<lparr>el_calls := el_calls l @ [L_User ?u (Arg_Read n iov k x)]\<rparr>) ?w2"
    have "run_closure pb (coro_usr pb cusr run app) tmo c (Arg_Read n iov k x) ?w2 = run_cclosure pb cusr run app ?u (Arg_Read n iov k x) ?w"
      using n(4) assms(6) by (intro run_coro_closure) (auto simp: set_aw_def)
    also have "\<dots> = run_read_closure pb cusr ar ?key n iov k x ?w" by (simp add: run_cclosure_def set_aw_state n(5))
    finally have 1: "run_closure pb (coro_usr pb cusr run app) tmo c (Arg_Read n iov k x) ?w2 = run_read_closure pb cusr ar ?key n iov k x ?w" .
    have "find_info pb ?key ?w = Some i" "cs_infos (pb_loop pb ?w) i = Some \<lparr>fi_state = FRS_PENDING, fi_awaiter = Some ar\<rparr>"
      "co_awaiters (pb_loop pb ?w) ar = Some ?s" "aw_handle ?s = Some h" "suspended (pb_loop pb ?w) h" "co_resumed (pb_loop pb ?w) = co_resumed (pb_loop pb w)"
      using i2 n(7) by (simp_all add: find_info_def suspended_def set_aw_state)
    from read_closure_resumes [OF this(1-5), of cusr n iov k x] this(6) obtain w3 where
      3: "run_read_closure pb cusr ar ?key n iov k x ?w = cusr (C_Body h) w3" "read_state pb ?key w3 = FRS_NONE"
        "co_resumed (pb_loop pb w3) = co_resumed (pb_loop pb w) @ [h]"
        "get_aw pb ar w3 = Inr (?s\<lparr>aw_ret := n, aw_iov := iov, aw_iov_cnt := k, aw_extra := x\<rparr>)" by auto
    show ?thesis unfolding 1
      by (rule exI [of _ w3], rule exI [of _ "?s\<lparr>aw_ret := n, aw_iov := iov, aw_iov_cnt := k, aw_extra := x\<rparr>"])
        (simp add: 3 await_resume_def)
  qed
  show ?thesis using read_await_suspends [OF n(1), of h] a b i2 n(7)
    by (intro exI [of _ ?w2]) (simp add: set_aw_state read_state_def)
qed

subsection \<open>Cancelling a read\<close>

text \<open>What \<^verbatim>\<open>cancel_read\<close> does before it turns to the backend.\<close>

lemma cancel_read_start:
  assumes "find_info pb (fd_key fd) w = Some i" "cs_infos (pb_loop pb w) i = Some \<lparr>fi_state = FRS_PENDING, fi_awaiter = Some a\<rparr>"
    "co_awaiters (pb_loop pb w) a = Some s" "aw_kind s = AW_Read" "aw_handle s = Some h" "suspended (pb_loop pb w) h"
    "\<forall>w. cusr (C_Body h) w = aw_delete pb a w" "a < co_next_awaiter (pb_loop pb w)"
  defines "ar \<equiv> co_next_awaiter (pb_loop pb w)" and "flag \<equiv> cs_next_cell (pb_loop pb w)"
  shows "\<exists>v. v = upd_loop pb (\<lambda>l. l\<lparr>co_next_awaiter := ar + 1, co_resumed := co_resumed l @ [h],
       co_awaiters := (co_awaiters l)(ar \<mapsto> awaiter_new AW_Result, a := None), cs_infos := (cs_infos l)(i \<mapsto> \<lparr>fi_state = FRS_CANCELLING, fi_awaiter = None\<rparr>),
       cs_cells := (cs_cells l)(flag := 0), cs_next_cell := flag + 1, el_closures := el_closures l @ [Cl_User (length (co_closures l))],
       co_closures := co_closures l @ [CC_Guarded ar (fd_key fd) flag]\<rparr>) w \<and>
     coro_cancel_read pb cusr run fd w =
       bindE (service_cancel_async_read pb run fd (Some (length (el_closures (pb_loop pb w)))) v) (\<lambda>(rc, w).
       if rc \<noteq> 0
       then bindE (upd_info_at pb i (\<lambda>x. x\<lparr>fi_state := FRS_NONE\<rparr>) w) (\<lambda>w. bindE (result_complete pb cusr ar rc w) (\<lambda>w. Inr (ar, w)))
       else bindE (result_complete pb cusr ar 0 (set_cell pb flag 1 w)) (\<lambda>w. Inr (ar, w)))"
proof -
  obtain f where f: "co_frames (pb_loop pb w) h = Some f" "\<not> fr_done f" using assms(6) by (auto simp: suspended_def)
  show ?thesis
    using assms(1-5,7,8) f unfolding ar_def flag_def
    by (simp add: coro_cancel_read_def aw_make_def Let_def info_defs read_complete_def do_resume_def resume_def aw_delete_def
      aw_defs upd_loop_def loop_set set_set co_new_cell_def co_new_closure_def new_closure_def
      cong: if_cong)
qed

lemma set_cell_same: "cs_cells (pb_loop pb w) c = v \<Longrightarrow> set_cell pb c v w = w"
  by (simp add: set_cell_def upd_loop_def fun_upd_idem set_loop)

lemma cancel_read_accepted:
  assumes info: "find_info pb (fd_key fd) w = Some i" "cs_infos (pb_loop pb w) i = Some \<lparr>fi_state = FRS_PENDING, fi_awaiter = Some a\<rparr>"
    and aw: "co_awaiters (pb_loop pb w) a = Some s" "aw_kind s = AW_Read" "aw_handle s = Some h" "suspended (pb_loop pb w) h"
      "\<forall>w. cusr (C_Body h) w = aw_delete pb a w" "a < co_next_awaiter (pb_loop pb w)"
    and ok: "el_poll (pb_loop pb w)" "c = length (el_closures (pb_loop pb w))"
      "\<forall>l. \<exists>w'. pb_cancel_async_read pb run fd (Some c) (pb_set_loop pb l w) = Inr (0, w') \<and> pb_loop pb w' = l"
  shows "\<exists>ar w1. coro_cancel_read pb cusr run fd w = Inr (ar, w1) \<and> read_state pb (fd_key fd) w1 = FRS_CANCELLING"
proof -
  let ?ar = "co_next_awaiter (pb_loop pb w)" and ?flag = "cs_next_cell (pb_loop pb w)"
  from cancel_read_start [where cusr = cusr and run = run, OF info aw] obtain l where
    l: "l = (pb_loop pb w)\<lparr>co_next_awaiter := ?ar + 1, co_resumed := co_resumed (pb_loop pb w) @ [h],
       co_awaiters := (co_awaiters (pb_loop pb w))(?ar \<mapsto> awaiter_new AW_Result, a := None),
       cs_infos := (cs_infos (pb_loop pb w))(i \<mapsto> \<lparr>fi_state = FRS_CANCELLING, fi_awaiter = None\<rparr>),
       cs_cells := (cs_cells (pb_loop pb w))(?flag := 0), cs_next_cell := ?flag + 1,
       el_closures := el_closures (pb_loop pb w) @ [Cl_User (length (co_closures (pb_loop pb w)))],
       co_closures := co_closures (pb_loop pb w) @ [CC_Guarded ?ar (fd_key fd) ?flag]\<rparr>" and
    r: "coro_cancel_read pb cusr run fd w =
       bindE (service_cancel_async_read pb run fd (Some c) (pb_set_loop pb l w)) (\<lambda>(rc, w).
       if rc \<noteq> 0
       then bindE (upd_info_at pb i (\<lambda>x. x\<lparr>fi_state := FRS_NONE\<rparr>) w) (\<lambda>w. bindE (result_complete pb cusr ?ar rc w) (\<lambda>w. Inr (?ar, w)))
       else bindE (result_complete pb cusr ?ar 0 (set_cell pb ?flag 1 w)) (\<lambda>w. Inr (?ar, w)))"
    unfolding upd_loop_def ok(2) by blast
  from ok(3) obtain w' where w': "pb_cancel_async_read pb run fd (Some c) (pb_set_loop pb l w) = Inr (0, w')" "pb_loop pb w' = l" by blast
  have "el_poll l" "co_awaiters l ?ar = Some (awaiter_new AW_Result)" "opt_map_find CORO_MAX_FD (cs_table l) (fd_key fd) = Some i"
    "cs_infos l i = Some \<lparr>fi_state = FRS_CANCELLING, fi_awaiter = None\<rparr>" using l ok(1) aw(6) info(1) by (simp_all add: find_info_def)
  then show ?thesis using r w'
    by (simp add: service_cancel_async_read_def with_poll_def loop_set result_complete_def do_resume_def aw_defs set_cell_def upd_loop_def set_set read_state_def find_info_def)
qed

lemma cancelled_read_dangles:
  assumes quiet: "\<And>cb v rc v'. pb_cancel_async_read pb run fd cb v = Inr (rc, v') \<Longrightarrow> pb_loop pb v' = pb_loop pb v"
    and ok: "coro_cancel_read pb cusr run fd w = Inr (ar, w1)" "read_state pb (fd_key fd) w1 \<noteq> FRS_NONE"
    and info: "find_info pb (fd_key fd) w = Some i" "cs_infos (pb_loop pb w) i = Some \<lparr>fi_state = FRS_PENDING, fi_awaiter = Some a\<rparr>"
    and aw: "co_awaiters (pb_loop pb w) a = Some s" "aw_kind s = AW_Read" "aw_handle s = Some h" "suspended (pb_loop pb w) h"
      "\<forall>w. cusr (C_Body h) w = aw_delete pb a w" "a < co_next_awaiter (pb_loop pb w)"
    and cl: "u < length (co_closures (pb_loop pb w))" "co_closures (pb_loop pb w) ! u = CC_Read a (fd_key fd)"
  shows "co_resumed (pb_loop pb w1) = co_resumed (pb_loop pb w) @ [h] \<and> read_state pb (fd_key fd) w1 = FRS_CANCELLING \<and>
     run_cclosure pb cusr run app (length (co_closures (pb_loop pb w))) (Arg_Res res) w1 = Inr w1 \<and>
     run_cclosure pb cusr run app u (Arg_Read n iov cnt x) w1 = Inl Use_After_Free"
proof -
  let ?ar = "co_next_awaiter (pb_loop pb w)" and ?flag = "cs_next_cell (pb_loop pb w)"
  let ?fin = "\<lambda>rc v. if rc \<noteq> 0
       then bindE (upd_info_at pb i (\<lambda>x. x\<lparr>fi_state := FRS_NONE\<rparr>) v) (\<lambda>w. bindE (result_complete pb cusr ?ar rc w) (\<lambda>w. Inr (?ar, w)))
       else bindE (result_complete pb cusr ?ar 0 (set_cell pb ?flag 1 v)) (\<lambda>w. Inr (?ar, w))"
  from cancel_read_start [where cusr = cusr and run = run, OF info aw] obtain v where
    v: "v = upd_loop pb (\<lambda>l. l\<lparr>co_next_awaiter := ?ar + 1, co_resumed := co_resumed l @ [h],
       co_awaiters := (co_awaiters l)(?ar \<mapsto> awaiter_new AW_Result, a := None), cs_infos := (cs_infos l)(i \<mapsto> \<lparr>fi_state = FRS_CANCELLING, fi_awaiter = None\<rparr>),
       cs_cells := (cs_cells l)(?flag := 0), cs_next_cell := ?flag + 1, el_closures := el_closures l @ [Cl_User (length (co_closures l))],
       co_closures := co_closures l @ [CC_Guarded ?ar (fd_key fd) ?flag]\<rparr>) w" and
    r: "coro_cancel_read pb cusr run fd w =
       bindE (service_cancel_async_read pb run fd (Some (length (el_closures (pb_loop pb w)))) v) (\<lambda>(rc, w). ?fin rc w)" by blast
  from ok(1) [unfolded r] obtain rc v' where c: "service_cancel_async_read pb run fd (Some (length (el_closures (pb_loop pb w)))) v = Inr (rc, v')"
    and e: "?fin rc v' = Inr (ar, w1)" by (auto elim!: bindE_InrE)
  have "pb_loop pb v' = pb_loop pb v" using c by (auto simp: service_cancel_async_read_def with_poll_def split: if_splits dest: quiet)
  then have l: "co_awaiters (pb_loop pb v') = (co_awaiters (pb_loop pb w))(?ar \<mapsto> awaiter_new AW_Result, a := None)"
    "cs_infos (pb_loop pb v') = (cs_infos (pb_loop pb w))(i \<mapsto> \<lparr>fi_state = FRS_CANCELLING, fi_awaiter = None\<rparr>)"
    "co_resumed (pb_loop pb v') = co_resumed (pb_loop pb w) @ [h]" "cs_table (pb_loop pb v') = cs_table (pb_loop pb w)"
    "co_closures (pb_loop pb v') = co_closures (pb_loop pb w) @ [CC_Guarded ?ar (fd_key fd) ?flag]"
    using v by simp_all
  have "rc = 0"
  proof (rule ccontr)
    assume "rc \<noteq> 0"
    then have "read_state pb (fd_key fd) w1 = FRS_NONE" using e l info aw(6)
      by (auto simp: info_defs aw_defs result_complete_def do_resume_def upd_loop_def loop_set set_set read_state_def)
    then show False using ok(2) by simp
  qed
  then have w1: "w1 = upd_loop pb (\<lambda>l. l\<lparr>cs_cells := (cs_cells l)(?flag := 1), co_awaiters := (co_awaiters l)(?ar \<mapsto>
      (awaiter_new AW_Result)\<lparr>aw_ready := True, aw_ret := 0\<rparr>)\<rparr>) v'" using e l(1) aw(6)
    by (auto simp: aw_defs result_complete_def do_resume_def upd_loop_def loop_set set_set set_cell_def)
  have "set_cell pb ?flag 1 w1 = w1" by (rule set_cell_same) (simp add: w1)
  then have "run_cclosure pb cusr run app (length (co_closures (pb_loop pb w))) (Arg_Res res) w1 = Inr w1"
    using l(5) by (simp add: run_cclosure_def w1 run_guarded_def)
  moreover have "run_cclosure pb cusr run app u (Arg_Read n iov cnt x) w1 = Inl Use_After_Free"
    using l cl aw(6) info(1) by (simp add: run_cclosure_def w1 nth_append run_read_closure_def info_defs read_callback_def aw_defs)
  moreover have "read_state pb (fd_key fd) w1 = FRS_CANCELLING" using l info by (simp add: w1 read_state_def find_info_def)
  ultimately show ?thesis using l(3) w1 by simp
qed

end

end
