(* ===== verification/Spawn_Proofs.thy ===== *)
theory Spawn_Proofs
  imports Coroutine_Proofs
begin

text \<open>
  Tasks and spawned tasks over any backend: a task that is awaited gives its value to its
  caller; the list of spawned tasks and the queue of iterators to erase stay in step through
  every operation of the service, so the sweep never meets an invalid iterator.
\<close>

text \<open>
  The nodes of the list are distinct and older than the next node, the iterators in the queue
  are distinct and stand on nodes whose handle is cleared, and a coroutine that has not come to
  its end and will report to a node is the task of that node.
\<close>

definition spawn_ok :: "(nat \<times> nat option) list \<Rightarrow> nat list \<Rightarrow> nat \<Rightarrow> (nat \<Rightarrow> coro_frame option) \<Rightarrow> bool" where
  "spawn_ok ts ps k fs \<longleftrightarrow> distinct (map fst ts) \<and> (\<forall>n \<in> fst ` set ts. n < k) \<and> distinct ps \<and>
     (\<forall>n \<in> set ps. map_of ts n = Some None) \<and>
     (\<forall>h f n. fs h = Some f \<longrightarrow> fr_on_final f = Some n \<longrightarrow> \<not> fr_done f \<longrightarrow> map_of ts n = Some (Some h))"

definition spawn_inv :: "'y coro_loop_scheme \<Rightarrow> bool" where
  "spawn_inv l \<longleftrightarrow> spawn_ok (cs_spawned l) (cs_pending l) (cs_next_node l) (co_frames l)"

lemma spawn_inv_simps [simp]:
  "spawn_inv (l\<lparr>co_awaiters := a1\<rparr>) = spawn_inv l" "spawn_inv (l\<lparr>co_next_awaiter := a2\<rparr>) = spawn_inv l"
  "spawn_inv (l\<lparr>co_next_frame := a3\<rparr>) = spawn_inv l" "spawn_inv (l\<lparr>co_closures := a4\<rparr>) = spawn_inv l"
  "spawn_inv (l\<lparr>co_jobs := a5\<rparr>) = spawn_inv l" "spawn_inv (l\<lparr>co_resumed := a6\<rparr>) = spawn_inv l"
  "spawn_inv (l\<lparr>co_news := a7\<rparr>) = spawn_inv l" "spawn_inv (l\<lparr>co_deleted := a8\<rparr>) = spawn_inv l"
  "spawn_inv (l\<lparr>cs_current := a9\<rparr>) = spawn_inv l" "spawn_inv (l\<lparr>cs_pool := a10\<rparr>) = spawn_inv l"
  "spawn_inv (l\<lparr>cs_table := a11\<rparr>) = spawn_inv l" "spawn_inv (l\<lparr>cs_infos := a12\<rparr>) = spawn_inv l"
  "spawn_inv (l\<lparr>cs_next_info := a13\<rparr>) = spawn_inv l" "spawn_inv (l\<lparr>cs_posted := a14\<rparr>) = spawn_inv l"
  "spawn_inv (l\<lparr>cs_cells := a15\<rparr>) = spawn_inv l" "spawn_inv (l\<lparr>cs_next_cell := a16\<rparr>) = spawn_inv l"
  "spawn_inv (l\<lparr>el_closures := b1\<rparr>) = spawn_inv l" "spawn_inv (l\<lparr>el_same_jobs := b2\<rparr>) = spawn_inv l"
  "spawn_inv (l\<lparr>el_other_jobs := b3\<rparr>) = spawn_inv l" "spawn_inv (l\<lparr>el_ntf := b4\<rparr>) = spawn_inv l"
  "spawn_inv (l\<lparr>el_writes := b5\<rparr>) = spawn_inv l" "spawn_inv (l\<lparr>el_calls := b6\<rparr>) = spawn_inv l"
  by (simp_all add: spawn_inv_def)

subsection \<open>The list and the queue\<close>

text \<open>A frame that is removed, made without a node, or changed outside of these two fields.\<close>

lemma spawn_ok_frame:
  assumes "spawn_ok ts ps k fs" "\<And>f n. g = Some f \<Longrightarrow> fr_on_final f = Some n \<Longrightarrow> \<not> fr_done f \<Longrightarrow>
     \<exists>f'. fs h = Some f' \<and> fr_on_final f' = Some n \<and> \<not> fr_done f'"
  shows "spawn_ok ts ps k (fs(h := g))"
  using assms by (fastforce simp: spawn_ok_def split: if_splits)

lemma spawn_ok_insert:
  assumes "spawn_ok ts ps k fs" "fs h = Some f"
  shows "spawn_ok ((k, Some h) # ts) ps (k + 1) (fs(h \<mapsto> f\<lparr>fr_on_final := Some k\<rparr>))"
  using assms unfolding spawn_ok_def
  by (auto simp: less_Suc_eq dest: map_of_SomeD intro: image_eqI) (metis domI dom_map_of_conv_image_fst fst_conv image_eqI less_irrefl)+

text \<open>The end of the coroutine \<open>h\<close> that reports to the node \<open>n\<close>.\<close>

definition finish_node :: "nat \<Rightarrow> (nat \<times> nat option) list \<Rightarrow> (nat \<times> nat option) list" where
  "finish_node n ts = map (\<lambda>(m, h). (m, if m = n then None else h)) ts"

lemma finish_node_simps:
  "map fst (finish_node n ts) = map fst ts" "fst ` set (finish_node n ts) = fst ` set ts"
  "map_of (finish_node n ts) m = (if m = n then map_option (\<lambda>_. None) (map_of ts m) else map_of ts m)"
  by (induction ts) (auto simp: finish_node_def)

lemma spawn_ok_finish:
  assumes "spawn_ok ts ps k fs" "fs h = Some f" "fr_on_final f = Some n" "\<not> fr_done f"
  shows "spawn_ok (finish_node n ts) (ps @ [n]) k (fs(h \<mapsto> f\<lparr>fr_done := True\<rparr>))"
proof -
  have n: "map_of ts n = Some (Some h)" using assms by (auto simp: spawn_ok_def)
  have "n \<notin> set ps" using assms(1) n by (auto simp: spawn_ok_def)
  moreover have "map_of (finish_node n ts) m = Some (Some h')"
    if "(fs(h \<mapsto> f\<lparr>fr_done := True\<rparr>)) h' = Some f'" "fr_on_final f' = Some m" "\<not> fr_done f'" for h' f' m
  proof -
    have "h' \<noteq> h" "map_of ts m = Some (Some h')" using that assms(1) by (auto simp: spawn_ok_def split: if_splits)
    then show ?thesis using n by (auto simp: finish_node_simps simp del: map_of_eq_Some_iff)
  qed
  ultimately show ?thesis using assms(1) n unfolding spawn_ok_def finish_node_simps(1,2)
    by (simp add: finish_node_simps(3) del: map_of_eq_Some_iff)
qed

lemma map_of_filter_out: "map_of (filter (\<lambda>(m, _). m \<notin> A) ts) n = (if n \<in> A then None else map_of ts n)"
  by (induction ts) auto

lemma spawn_ok_sweep:
  "spawn_ok ts ps k fs \<Longrightarrow> spawn_ok (filter (\<lambda>(m, _). m \<notin> set ps) ts) [] k fs"
  unfolding spawn_ok_def map_of_filter_out
  by (intro conjI allI impI) (force simp: distinct_map_filter simp del: map_of_eq_Some_iff)+

text \<open>Coroutines, cleanup functions and jobs of the user that keep the invariant.\<close>

definition cusr_keeps :: "('y, 'w) cpoll \<Rightarrow> 'w cusr \<Rightarrow> bool" where
  "cusr_keeps pb cusr \<longleftrightarrow> (\<forall>c w w'. cusr c w = Inr w' \<longrightarrow> spawn_inv (pb_loop pb w) \<longrightarrow> spawn_inv (pb_loop pb w'))"

lemma cusr_keepsD: "cusr_keeps pb cusr \<Longrightarrow> cusr c w = Inr w' \<Longrightarrow> spawn_inv (pb_loop pb w) \<Longrightarrow> spawn_inv (pb_loop pb w')"
  by (auto simp: cusr_keeps_def)

context coro_backend
begin

subsection \<open>The sweep\<close>

lemma sweep_loop_erases:
  assumes "distinct ns" "\<forall>n \<in> set ns. map_of (cs_spawned (pb_loop pb w)) n = Some None"
  shows "sweep_loop pb ns w = Inr (upd_loop pb (\<lambda>l. l\<lparr>cs_spawned := filter (\<lambda>(m, _). m \<notin> set ns) (cs_spawned l)\<rparr>) w)"
  using assms
proof (induction ns arbitrary: w)
  case Nil
  then show ?case by (simp add: upd_loop_def set_loop)
next
  case (Cons n ns)
  let ?w = "upd_loop pb (\<lambda>l. l\<lparr>cs_spawned := filter (\<lambda>(m, _). m \<noteq> n) (cs_spawned l)\<rparr>) w"
  have "\<forall>m \<in> set ns. map_of (cs_spawned (pb_loop pb ?w)) m = Some None"
    using Cons.prems by (auto simp: map_of_filter_out [of "{n}", simplified] simp del: map_of_eq_Some_iff)
  then have "sweep_loop pb ns ?w = Inr (upd_loop pb (\<lambda>l. l\<lparr>cs_spawned := filter (\<lambda>(m, _). m \<notin> set ns) (cs_spawned l)\<rparr>) ?w)"
    using Cons by simp
  moreover have "filter (\<lambda>(m, _). m \<notin> set ns) (filter (\<lambda>(m, _). m \<noteq> n) ts) = filter (\<lambda>(m, _). m \<notin> set (n # ns)) ts" for ts :: "(nat \<times> nat option) list"
    by (auto simp: intro: filter_cong)
  ultimately show ?case using Cons.prems(2) by (simp add: task_destroy_def upd_loop_def loop_set set_set)
qed

lemma sweep_completed_ok:
  assumes "spawn_inv (pb_loop pb w)"
  shows "\<exists>w'. sweep_completed pb w = Inr w' \<and> spawn_inv (pb_loop pb w') \<and> cs_pending (pb_loop pb w') = [] \<and>
     cs_spawned (pb_loop pb w') = filter (\<lambda>(m, _). m \<notin> set (cs_pending (pb_loop pb w))) (cs_spawned (pb_loop pb w)) \<and>
     co_frames (pb_loop pb w') = co_frames (pb_loop pb w) \<and> cs_pool (pb_loop pb w') = cs_pool (pb_loop pb w) \<and>
     co_deleted (pb_loop pb w') = co_deleted (pb_loop pb w)"
proof -
  have "sweep_loop pb (cs_pending (pb_loop pb w)) w =
     Inr (upd_loop pb (\<lambda>l. l\<lparr>cs_spawned := filter (\<lambda>(m, _). m \<notin> set (cs_pending (pb_loop pb w))) (cs_spawned l)\<rparr>) w)"
    using assms by (intro sweep_loop_erases) (auto simp: spawn_inv_def spawn_ok_def)
  then show ?thesis using spawn_ok_sweep assms by (simp add: sweep_completed_def spawn_inv_def)
qed

subsection \<open>Callbacks keep the invariant\<close>

lemma upd_aw_inv: "upd_aw pb a f w = Inr w' \<Longrightarrow> spawn_inv (pb_loop pb w) \<Longrightarrow> spawn_inv (pb_loop pb w')"
  by (auto simp: upd_aw_def set_aw_def elim!: bindE_InrE)

lemma upd_info_inv: "upd_info_at pb i f w = Inr w' \<Longrightarrow> spawn_inv (pb_loop pb w) \<Longrightarrow> spawn_inv (pb_loop pb w')"
  by (auto simp: upd_info_at_def elim!: bindE_InrE)

lemma set_cell_inv [simp]: "spawn_inv (pb_loop pb (set_cell pb c v w)) = spawn_inv (pb_loop pb w)"
  by (simp add: set_cell_def)

lemma resume_inv:
  assumes "cusr_keeps pb cusr" "resume pb cusr h w = Inr w'" "spawn_inv (pb_loop pb w)"
  shows "spawn_inv (pb_loop pb w')"
  using assms(2,3) cusr_keepsD [OF assms(1)] by (fastforce simp: resume_def elim!: bindE_InrE split: if_splits)

lemma do_resume_inv:
  assumes "cusr_keeps pb cusr" "do_resume pb cusr a w = Inr w'" "spawn_inv (pb_loop pb w)"
  shows "spawn_inv (pb_loop pb w')"
  using assms(2,3) resume_inv [OF assms(1)] by (auto simp: do_resume_def elim!: bindE_InrE split: option.splits)

lemma callback_inv:
  assumes "cusr_keeps pb cusr" "spawn_inv (pb_loop pb w)"
  shows "result_complete pb cusr a n w = Inr w' \<Longrightarrow> spawn_inv (pb_loop pb w')"
    "result_callback pb cusr a n w = Inr w' \<Longrightarrow> spawn_inv (pb_loop pb w')"
    "read_callback pb cusr a n iov cnt x w = Inr w' \<Longrightarrow> spawn_inv (pb_loop pb w')"
    "timer_callback pb cusr a count w = Inr w' \<Longrightarrow> spawn_inv (pb_loop pb w')"
    "accept_callback pb cusr a n info w = Inr w' \<Longrightarrow> spawn_inv (pb_loop pb w')"
  using assms(2)
  by (auto simp: result_complete_def result_callback_def read_callback_def timer_callback_def accept_callback_def Let_def
      elim!: bindE_InrE split: option.splits dest!: upd_aw_inv do_resume_inv [OF assms(1)] cusr_keepsD [OF assms(1)])

lemma run_cclosure_inv:
  assumes "cusr_keeps pb cusr" "\<And>c w w'. app c w = Inr w' \<Longrightarrow> spawn_inv (pb_loop pb w) \<Longrightarrow> spawn_inv (pb_loop pb w')"
    "run_cclosure pb cusr run app u arg w = Inr w'" "spawn_inv (pb_loop pb w)"
  shows "spawn_inv (pb_loop pb w')"
proof -
  have read: "spawn_inv (pb_loop pb v')" if "run_read_closure pb cusr ar key n iov cnt x v = Inr v'" "spawn_inv (pb_loop pb v)" for ar key n iov cnt x v v'
    using that callback_inv(3) [OF assms(1)]
    by (auto simp: run_read_closure_def elim!: bindE_InrE split: option.splits dest!: upd_info_inv)
  have guarded: "spawn_inv (pb_loop pb v')" if "run_guarded pb cusr ar key flag n v = Inr v'" "spawn_inv (pb_loop pb v)" for ar key flag n v v'
    using that(1) callback_inv(2) [OF assms(1)] set_cell_inv [of flag 1 v] that(2)
    by (auto simp: run_guarded_def Let_def simp del: set_cell_inv elim!: bindE_InrE split: option.splits if_splits dest!: upd_info_inv)
  have sleep: "spawn_inv (pb_loop pb v')" if "run_sleep pb cusr run ar cell n v = Inr v'" "spawn_inv (pb_loop pb v)" for ar cell n v v'
    using that callback_inv(4) [OF assms(1) that(2)]
    by (auto simp: run_sleep_def Let_def service_close_timer_def with_poll_def elim!: bindE_InrE split: if_splits dest!: close_timer_loop)
  show ?thesis using assms(3) unfolding run_cclosure_def Let_def
    by (auto split: if_splits cclosure.splits cbarg.splits dest: read [OF _ assms(4)] guarded [OF _ assms(4)] sleep [OF _ assms(4)]
        assms(2) [OF _ assms(4)] callback_inv(2,5) [OF assms(1,4)])
qed

lemma coro_usr_inv:
  assumes "cusr_keeps pb cusr" "\<And>c w w'. app c w = Inr w' \<Longrightarrow> spawn_inv (pb_loop pb w) \<Longrightarrow> spawn_inv (pb_loop pb w')"
    "coro_usr pb cusr run app c w = Inr w'" "spawn_inv (pb_loop pb w)"
  shows "spawn_inv (pb_loop pb w')"
proof -
  have job: "spawn_inv (pb_loop pb w')" if "run_cjob pb cusr app n w = Inr w'" for n
  proof (cases "co_jobs (pb_loop pb w) ! n")
    case (CJ_Run job ar)
    then show ?thesis using that by (auto simp: run_cjob_def Let_def elim!: bindE_InrE split: if_splits
        dest!: cusr_keepsD [OF assms(1) _ assms(4)] intro: callback_inv(1) [OF assms(1)])
  next
    case CJ_Sweep
    then show ?thesis using that sweep_completed_ok [OF assms(4)] by (auto simp: run_cjob_def Let_def elim!: bindE_InrE split: if_splits)
  next
    case (CJ_App m)
    then show ?thesis using that assms(2) [OF _ assms(4)] by (auto simp: run_cjob_def Let_def split: if_splits)
  qed
  show ?thesis using assms(3) run_cclosure_inv [OF assms(1,2) _ assms(4)] job assms(2) [OF _ assms(4)]
    by (cases c) (simp_all add: coro_usr_def)
qed

subsection \<open>Operations keep the invariant\<close>

lemma op_new_form: "op_new pb w = Inr (p, w') \<Longrightarrow> \<exists>ps. w' = upd_loop pb (\<lambda>l. l\<lparr>co_news := ps\<rparr>) w"
  by (auto simp: op_new_def split: list.splits)

lemma frame_alloc_inv: "frame_alloc pb sz w = Inr (p, w') \<Longrightarrow> spawn_inv (pb_loop pb w') = spawn_inv (pb_loop pb w)"
  by (auto simp: frame_alloc_def alloc_frame_def Let_def elim!: bindE_InrE split: if_splits option.splits dest!: op_new_form)

lemma frame_free_inv: "frame_free pb p sz w = Inr w' \<Longrightarrow> spawn_inv (pb_loop pb w') = spawn_inv (pb_loop pb w)"
  by (auto simp: frame_free_def free_frame_def Let_def elim!: bindE_InrE split: if_splits)

lemma frame_free_frames: "frame_free pb p sz w = Inr w' \<Longrightarrow> co_frames (pb_loop pb w') = co_frames (pb_loop pb w) \<and>
    cs_spawned (pb_loop pb w') = cs_spawned (pb_loop pb w) \<and> cs_next_node (pb_loop pb w') = cs_next_node (pb_loop pb w)"
  by (auto simp: frame_free_def free_frame_def Let_def elim!: bindE_InrE split: if_splits)

lemma task_new_inv: "task_new pb sz w = Inr (h, w') \<Longrightarrow> spawn_inv (pb_loop pb w) \<Longrightarrow> spawn_inv (pb_loop pb w')"
  by (auto simp: task_new_def Let_def spawn_inv_def elim!: bindE_InrE dest!: frame_alloc_inv intro!: spawn_ok_frame)

lemma task_destroy_inv: "task_destroy pb h w = Inr w' \<Longrightarrow> spawn_inv (pb_loop pb w) \<Longrightarrow> spawn_inv (pb_loop pb w')"
  by (auto simp: task_destroy_def elim!: bindE_InrE split: option.splits dest!: frame_free_inv)
    (auto simp: spawn_inv_def intro!: spawn_ok_frame)

lemma task_start_inv:
  "cusr_keeps pb cusr \<Longrightarrow> task_start pb cusr h w = Inr w' \<Longrightarrow> spawn_inv (pb_loop pb w) \<Longrightarrow> spawn_inv (pb_loop pb w')"
  by (auto simp: task_start_def elim!: bindE_InrE split: option.splits if_splits dest: resume_inv)

lemma spawn_keeps:
  assumes "cusr_keeps pb cusr" "spawn pb cusr t w = Inr w'" "spawn_inv (pb_loop pb w)"
  shows "spawn_inv (pb_loop pb w')"
proof -
  obtain d where d: "task_done pb t w = Inr d" "d \<or> t = None \<Longrightarrow> task_destroy pb t w = Inr w' \<or> w' = w"
    "\<And>h. t = Some h \<Longrightarrow> \<not> d \<Longrightarrow>
       let node = cs_next_node (pb_loop pb w);
           v = upd_loop pb (\<lambda>l. l\<lparr>cs_spawned := (node, Some h) # cs_spawned l, cs_next_node := node + 1\<rparr>) w
       in bindE (upd_frame pb h (\<lambda>f. f\<lparr>fr_on_final := Some node\<rparr>) v) (task_start pb cusr (Some h)) = Inr w'"
    using assms(2) by (auto simp: spawn_def Let_def elim!: bindE_InrE split: if_splits option.splits)
  show ?thesis
  proof (cases "d \<or> t = None")
    case True
    then show ?thesis using d(2) task_destroy_inv assms(3) by blast
  next
    case False
    then obtain h where "t = Some h" "\<not> d" by auto
    from d(3) [OF this] obtain f v where "co_frames (pb_loop pb w) h = Some f" "task_start pb cusr (Some h) v = Inr w'"
      "spawn_inv (pb_loop pb v) = spawn_ok ((cs_next_node (pb_loop pb w), Some h) # cs_spawned (pb_loop pb w)) (cs_pending (pb_loop pb w))
         (cs_next_node (pb_loop pb w) + 1) ((co_frames (pb_loop pb w))(h \<mapsto> f\<lparr>fr_on_final := Some (cs_next_node (pb_loop pb w))\<rparr>))"
      by (auto simp: Let_def upd_frame_def get_frame_def spawn_inv_def elim!: bindE_InrE split: option.splits)
    then show ?thesis using task_start_inv [OF assms(1)] assms(3) spawn_ok_insert by (simp add: spawn_inv_def)
  qed
qed

lemma run_job_inv: "service_run_job pb tid j w = Inr (r, w') \<Longrightarrow> spawn_inv (pb_loop pb w') = spawn_inv (pb_loop pb w)"
  by (auto simp: service_run_job_def run_in_event_loop_def wake_up_def internal_notify_def loop_set elim!: bindE_InrE split: if_splits option.splits)

lemma run_job_fields:
  assumes "service_run_job pb tid j w = Inr (r, w')"
  shows "co_frames (pb_loop pb w') = co_frames (pb_loop pb w)" "cs_spawned (pb_loop pb w') = cs_spawned (pb_loop pb w)"
    "cs_pending (pb_loop pb w') = cs_pending (pb_loop pb w)" "cs_pool (pb_loop pb w') = cs_pool (pb_loop pb w)" "co_deleted (pb_loop pb w') = co_deleted (pb_loop pb w)"
  using assms
  by (auto simp: service_run_job_def run_in_event_loop_def wake_up_def internal_notify_def loop_set elim!: bindE_InrE split: if_splits option.splits)

lemma spawn_final_fields:
  assumes "spawn_final pb tid n w = Inr w'"
  shows "co_frames (pb_loop pb w') = co_frames (pb_loop pb w)" "cs_spawned (pb_loop pb w') = finish_node n (cs_spawned (pb_loop pb w))"
    "cs_pending (pb_loop pb w') = cs_pending (pb_loop pb w) @ [n]" "cs_pool (pb_loop pb w') = cs_pool (pb_loop pb w)" "co_deleted (pb_loop pb w') = co_deleted (pb_loop pb w)"
  using assms
  by (auto simp: spawn_final_def finish_node_def [symmetric] co_new_job_def Let_def run_job_fields elim!: bindE_InrE split: if_splits)

lemma spawn_final_inv:
  assumes "spawn_final pb tid n w = Inr w'"
  shows "spawn_inv (pb_loop pb w') = spawn_ok (finish_node n (cs_spawned (pb_loop pb w))) (cs_pending (pb_loop pb w) @ [n]) (cs_next_node (pb_loop pb w)) (co_frames (pb_loop pb w))"
proof -
  let ?w = "upd_loop pb (\<lambda>l. l\<lparr>cs_spawned := finish_node n (cs_spawned l), cs_pending := cs_pending l @ [n]\<rparr>) w"
  have "spawn_inv (pb_loop pb w') = spawn_inv (pb_loop pb ?w)" using assms
    by (auto simp: spawn_final_def finish_node_def [symmetric] co_new_job_def Let_def elim!: bindE_InrE split: if_splits dest!: run_job_inv)
  then show ?thesis by (simp add: spawn_inv_def)
qed

lemma final_suspend_keeps:
  assumes "cusr_keeps pb cusr" "final_suspend pb cusr tid h w = Inr w'" "spawn_inv (pb_loop pb w)"
    "co_frames (pb_loop pb w) h = Some f" "\<not> fr_done f"
  shows "spawn_inv (pb_loop pb w')"
proof -
  let ?w = "upd_loop pb (\<lambda>l. l\<lparr>co_frames := (co_frames l)(h \<mapsto> f\<lparr>fr_done := True\<rparr>)\<rparr>) w"
  obtain v where v: "(case fr_on_final f of None \<Rightarrow> Inr ?w | Some node \<Rightarrow> spawn_final pb tid node ?w) = Inr v"
    "v = w' \<or> (\<exists>c. resume pb cusr c v = Inr w')"
    using assms(2,4) by (auto simp: final_suspend_def upd_frame_def get_frame_def elim!: bindE_InrE split: option.splits) blast+
  have "spawn_inv (pb_loop pb v)"
  proof (cases "fr_on_final f")
    case None
    then show ?thesis using v(1) assms(3,4) by (auto simp: spawn_inv_def intro!: spawn_ok_frame)
  next
    case (Some n)
    then show ?thesis using v(1) spawn_final_inv [of tid n ?w v] spawn_ok_finish [where fs = "co_frames (pb_loop pb w)" and h = h, OF _ assms(4) Some assms(5)] assms(3)
      by (simp add: spawn_inv_def)
  qed
  then show ?thesis using v(2) resume_inv [OF assms(1)] by blast
qed

text \<open>\<^verbatim>\<open>clear_spawned\<close> destroys the tasks of the list, which are all the coroutines that still report to a node.\<close>

lemma destroy_all_frames:
  assumes "destroy_all pb ts w = Inr w'"
  shows "\<forall>h. co_frames (pb_loop pb w') h = (if Some h \<in> snd ` set ts then None else co_frames (pb_loop pb w) h)"
  using assms
proof (induction ts arbitrary: w)
  case (Cons x ts)
  obtain n h where x: "x = (n, h)" by (cases x)
  then obtain w1 where 1: "task_destroy pb h w = Inr w1" "destroy_all pb ts w1 = Inr w'" using Cons.prems by (auto elim!: bindE_InrE)
  have "\<forall>k. co_frames (pb_loop pb w1) k = (if h = Some k then None else co_frames (pb_loop pb w) k)"
    using 1(1) by (auto simp: task_destroy_def elim!: bindE_InrE split: option.splits dest!: frame_free_frames)
  then show ?case using Cons.IH [OF 1(2)] x by auto
qed simp

lemma clear_spawned_keeps:
  assumes "clear_spawned pb w = Inr w'" "spawn_inv (pb_loop pb w)"
  shows "spawn_inv (pb_loop pb w') \<and> spawned_count pb w' = 0"
proof -
  obtain v where v: "destroy_all pb (cs_spawned (pb_loop pb w)) w = Inr v"
    "w' = upd_loop pb (\<lambda>l. l\<lparr>cs_spawned := [], cs_pending := [], cs_posted := False\<rparr>) v"
    using assms(1) by (auto simp: clear_spawned_def elim!: bindE_InrE)
  have "fr_done f" if f: "co_frames (pb_loop pb v) h = Some f" "fr_on_final f = Some n" for h f n
  proof (rule ccontr)
    assume "\<not> fr_done f"
    have "Some h \<notin> snd ` set (cs_spawned (pb_loop pb w))" "co_frames (pb_loop pb w) h = Some f"
      using f(1) destroy_all_frames [OF v(1)] by (auto split: if_splits)
    moreover have "map_of (cs_spawned (pb_loop pb w)) n = Some (Some h)"
      using calculation(2) f(2) \<open>\<not> fr_done f\<close> assms(2) by (auto simp: spawn_inv_def spawn_ok_def)
    ultimately show False by (metis image_eqI map_of_SomeD snd_conv)
  qed
  then show ?thesis using v(2) by (auto simp: spawn_inv_def spawn_ok_def spawned_count_def)
qed

subsection \<open>Tasks\<close>

lemma task_awaited:
  assumes "co_frames (pb_loop pb w) t = Some f" "\<not> fr_done f"
  shows "task_await_suspend pb (Some t) h w =
     Inr (Some t, upd_loop pb (\<lambda>l. l\<lparr>co_frames := (co_frames l)(t \<mapsto> f\<lparr>fr_continuation := Some h\<rparr>)\<rparr>) w)"
  using assms by (simp add: task_await_suspend_def upd_frame_def get_frame_def)

lemma task_returns:
  assumes "co_frames (pb_loop pb w) t = Some f" "fr_continuation f = Some h" "fr_on_final f = None" "\<not> fr_done f"
    "suspended (pb_loop pb w) h" "h \<noteq> t"
  shows "\<exists>w'. bindE (return_value pb t v w) (final_suspend pb cusr tid t) = cusr (C_Body h) w' \<and>
     co_resumed (pb_loop pb w') = co_resumed (pb_loop pb w) @ [h] \<and> task_done pb (Some t) w' = Inr True \<and>
     task_await_resume pb (Some t) w' = Inr (if fr_exception f then Inl True else Inr v)"
proof -
  obtain g where g: "co_frames (pb_loop pb w) h = Some g" "\<not> fr_done g" using assms(5) by (auto simp: suspended_def)
  let ?w = "upd_loop pb (\<lambda>l. l\<lparr>co_frames := (co_frames l)(t \<mapsto> f\<lparr>fr_value := v, fr_done := True\<rparr>), co_resumed := co_resumed l @ [h]\<rparr>) w"
  have "bindE (return_value pb t v w) (final_suspend pb cusr tid t) = cusr (C_Body h) ?w"
    using assms(1-4,6) g by (simp add: return_value_def final_suspend_def upd_frame_def get_frame_def resume_def upd_loop_def loop_set set_set)
  then show ?thesis by (intro exI [of _ ?w]) (simp add: task_done_def task_await_resume_def get_frame_def)
qed

text \<open>The frame of a spawned task after its end and the sweep.\<close>

lemma spawned_frame_stays:
  assumes "spawn_inv (pb_loop pb w)" "co_frames (pb_loop pb w) h = Some f" "\<not> fr_done f" "fr_on_final f = Some n" "fr_continuation f = None"
    "final_suspend pb cusr tid h w = Inr w1" "sweep_completed pb w1 = Inr w2"
    "\<forall>m. (m, Some h) \<in> set (cs_spawned (pb_loop pb w)) \<longrightarrow> m = n"
  shows "co_frames (pb_loop pb w2) h = Some (f\<lparr>fr_done := True\<rparr>) \<and> cs_pool (pb_loop pb w2) = cs_pool (pb_loop pb w) \<and>
     co_deleted (pb_loop pb w2) = co_deleted (pb_loop pb w) \<and> Some h \<notin> snd ` set (cs_spawned (pb_loop pb w2)) \<and> n \<notin> fst ` set (cs_spawned (pb_loop pb w2))"
proof -
  let ?w = "upd_loop pb (\<lambda>l. l\<lparr>co_frames := (co_frames l)(h \<mapsto> f\<lparr>fr_done := True\<rparr>)\<rparr>) w"
  have 1: "spawn_final pb tid n ?w = Inr w1" using assms(2,4,5,6)
    by (auto simp: final_suspend_def upd_frame_def get_frame_def elim!: bindE_InrE split: option.splits)
       (auto dest!: spawn_final_fields(1))
  note f = spawn_final_fields [OF 1]
  have "spawn_inv (pb_loop pb w1)"
    using spawn_final_inv [OF 1] spawn_ok_finish [where fs = "co_frames (pb_loop pb w)" and h = h, OF _ assms(2,4,3)] assms(1) by (simp add: spawn_inv_def)
  from sweep_completed_ok [OF this] assms(7) have
    2: "cs_spawned (pb_loop pb w2) = filter (\<lambda>(m, _). m \<notin> set (cs_pending (pb_loop pb w1))) (cs_spawned (pb_loop pb w1))"
      "co_frames (pb_loop pb w2) = co_frames (pb_loop pb w1)" "cs_pool (pb_loop pb w2) = cs_pool (pb_loop pb w1)"
      "co_deleted (pb_loop pb w2) = co_deleted (pb_loop pb w1)" by simp_all
  show ?thesis using assms(8) by (auto simp: 2 f finish_node_def)
qed

end

end
