(* ===== verification/Coroutine_Properties.thy ===== *)
theory Coroutine_Properties
  imports Spawn_Proofs
begin

unbundle bit_operations_syntax

text \<open>
  The coroutine layer on the two backends: the instances of the locale \<open>coro_backend\<close>, the
  properties of awaited requests, of tasks and of spawned tasks.
\<close>

interpretation cep: coro_backend "epoll_poll env" epoll_is_inited ..

interpretation ciu: coro_backend "uring_poll env" iu_is_inited ..

text \<open>The invariant of spawned tasks as a property of what the coroutines add to the loop object.\<close>

definition spawn_ext :: "'y coro_loop_ext \<Rightarrow> bool" where
  "spawn_ext m \<longleftrightarrow> spawn_inv (event_loop.extend event_loop_new m)"

lemma ext_spawn: "ext spawn_ext l \<longleftrightarrow> spawn_inv l"
  by (cases l) (simp add: ext_def spawn_ext_def spawn_inv_def event_loop.defs event_loop_new_def)

subsection \<open>Awaited requests\<close>


text \<open>
  C18. One read at a time per descriptor. When \<^verbatim>\<open>read\<close> is accepted for a descriptor that is not
  being read, the coroutine that awaits it is suspended and the descriptor is \<^verbatim>\<open>PENDING\<close>: every
  further read of it returns with \<^verbatim>\<open>-EALREADY\<close> and without a request to the backend. When the
  backend calls the callback, the coroutine is resumed exactly once, its awaitable holds the
  result, the buffers and their count, and the descriptor can be read again.
\<close>

theorem one_read_per_descriptor:
  fixes w :: "'y coro_loop_ext epoll_process"
  assumes "coro_read (epoll_poll env) cusr fd buf cnt opt w = Inr (ar, w1)" "table_wf (timer_epoll.more w)"
    "read_state (epoll_poll env) (fd_key fd) w = FRS_NONE" "read_state (epoll_poll env) (fd_key fd) w1 \<noteq> FRS_NONE"
    "suspended (timer_epoll.more w) h" "c = length (el_closures (timer_epoll.more w))"
  shows "\<exists>w2. co_await (epoll_poll env) ar h w1 = Inr (False, w2) \<and> co_resumed (timer_epoll.more w2) = co_resumed (timer_epoll.more w) \<and>
       read_state (epoll_poll env) (fd_key fd) w2 = FRS_PENDING \<and>
       (\<forall>b n opt'. \<exists>l s. coro_read (epoll_poll env) cusr fd b n opt' w2 =
            Inr (co_next_awaiter (timer_epoll.more w2), timer_epoll.more_update (\<lambda>_. l) w2) \<and>
          co_awaiters l (co_next_awaiter (timer_epoll.more w2)) = Some s \<and> await_resume s = neg_EALREADY) \<and>
       (\<forall>n iov k x. \<exists>w3 s. epoll_runner env (coro_usr (epoll_poll env) cusr run app) c (Arg_Read n iov k x) w2 = cusr (C_Body h) w3 \<and>
          co_resumed (timer_epoll.more w3) = co_resumed (timer_epoll.more w) @ [h] \<and> read_state (epoll_poll env) (fd_key fd) w3 = FRS_NONE \<and>
          get_aw (epoll_poll env) ar w3 = Inr s \<and> await_resume s = n \<and> aw_iov s = iov \<and> aw_iov_cnt s = k)"
  unfolding epoll_runner_def by (rule cep.coro_read_round [where env = env, unfolded epoll_poll_loop, OF assms])

subsection \<open>Tasks\<close>

text \<open>
  C20. A task that is awaited gives its value to its caller. \<^verbatim>\<open>await_suspend\<close> notes the caller in
  the promise and transfers to the task; whatever happens until the task returns a value, as
  long as its promise keeps the caller, the caller is resumed exactly once at the final
  suspension, finds the task finished, and \<^verbatim>\<open>await_resume\<close> yields the value, or throws when an
  exception was stored.
\<close>

theorem awaited_task_returns_value:
  fixes w :: "'y coro_loop_ext uring_process"
  assumes "co_frames (io_uring.more w) t = Some f" "\<not> fr_done f" "task_await_suspend (uring_poll env) (Some t) h w = Inr (next, w1)"
    "co_frames (io_uring.more w2) t = Some f2" "fr_continuation f2 = fr_continuation (the (co_frames (io_uring.more w1) t))"
    "fr_on_final f2 = None" "\<not> fr_done f2" "suspended (io_uring.more w2) h" "h \<noteq> t"
  shows "next = Some t \<and>
     (\<exists>w3. bindE (return_value (uring_poll env) t v w2) (final_suspend (uring_poll env) cusr tid t) = cusr (C_Body h) w3 \<and>
       co_resumed (io_uring.more w3) = co_resumed (io_uring.more w2) @ [h] \<and> task_done (uring_poll env) (Some t) w3 = Inr True \<and>
       task_await_resume (uring_poll env) (Some t) w3 = Inr (if fr_exception f2 then Inl True else Inr v))"
proof -
  have 1: "next = Some t" "co_frames (io_uring.more w1) t = Some (f\<lparr>fr_continuation := Some h\<rparr>)"
    using assms(3) ciu.task_awaited [where env = env, unfolded uring_poll_loop, OF assms(1,2), of h] by (auto simp: upd_loop_def)
  then have "fr_continuation f2 = Some h" using assms(5) by simp
  from ciu.task_returns [where env = env, unfolded uring_poll_loop, OF assms(4) this assms(6-9), of v cusr tid] 1(1) show ?thesis by simp
qed


text \<open>
  The operations on tasks keep the list and the queue in step: \<^verbatim>\<open>spawn\<close> of any task, the
  final suspension of a coroutine that has not come to its end, creation and destruction of
  tasks, and \<^verbatim>\<open>clear_spawned\<close>, after which no task is left.
\<close>

theorem spawned_tasks_in_step:
  fixes w :: "'y coro_loop_ext uring_process"
  assumes "cusr_keeps (uring_poll env) cusr" "spawn_inv (io_uring.more w)"
  shows "(spawn (uring_poll env) cusr t w = Inr w1 \<longrightarrow> spawn_inv (io_uring.more w1)) \<and>
     (co_frames (io_uring.more w) h = Some f \<longrightarrow> \<not> fr_done f \<longrightarrow> final_suspend (uring_poll env) cusr tid h w = Inr w2 \<longrightarrow> spawn_inv (io_uring.more w2)) \<and>
     (task_new (uring_poll env) sz w = Inr (k, w3) \<longrightarrow> spawn_inv (io_uring.more w3)) \<and>
     (task_destroy (uring_poll env) t w = Inr w4 \<longrightarrow> spawn_inv (io_uring.more w4)) \<and>
     (clear_spawned (uring_poll env) w = Inr w5 \<longrightarrow> spawn_inv (io_uring.more w5) \<and> spawned_count (uring_poll env) w5 = 0)"
  using ciu.spawn_keeps [where env = env, unfolded uring_poll_loop, OF assms(1) _ assms(2), of t w1]
    ciu.final_suspend_keeps [where env = env, unfolded uring_poll_loop, OF assms(1) _ assms(2), of tid h w2 f]
    ciu.task_new_inv [where env = env, unfolded uring_poll_loop, OF _ assms(2), of sz k w3]
    ciu.task_destroy_inv [where env = env, unfolded uring_poll_loop, OF _ assms(2), of t w4]
    ciu.clear_spawned_keeps [where env = env, unfolded uring_poll_loop, OF _ assms(2), of w5] by blast

subsection \<open>Errors\<close>

text \<open>
  C36. A refused read is never reported. The awaitable of a read has no flag that says the
  result is there: when \<^verbatim>\<open>read\<close> completes it before it returns, because the descriptor is being
  read, the \<^verbatim>\<open>co_await\<close> that follows suspends all the same. The call has made no closure, no job
  and no entry of the table, and the backend knows nothing of it: nothing resumes the coroutine.
\<close>

theorem refused_read_hangs:
  fixes w :: "'y coro_loop_ext epoll_process"
  assumes "find_info (epoll_poll env) (fd_key fd) w = Some i" "cs_infos (timer_epoll.more w) i = Some x" "fi_state x \<noteq> FRS_NONE"
  shows "\<exists>w1 w2 m k. coro_read (epoll_poll env) cusr fd buf cnt opt w = Inr (k, w1) \<and> co_await (epoll_poll env) k h w1 = Inr (False, w2) \<and>
     w2 = timer_epoll.more_update (\<lambda>_. (timer_epoll.more w)\<lparr>co_next_awaiter := k + 1, co_awaiters := m\<rparr>) w"
proof -
  let ?a = "co_next_awaiter (timer_epoll.more w)" and ?s = "(awaiter_new AW_Read)\<lparr>aw_ret := neg_EALREADY, aw_iov := buf, aw_iov_cnt := cnt\<rparr>"
  let ?w1 = "timer_epoll.more_update (\<lambda>_. (timer_epoll.more w)\<lparr>co_next_awaiter := ?a + 1, co_awaiters := (co_awaiters (timer_epoll.more w))(?a \<mapsto> ?s)\<rparr>) w"
  let ?w2 = "timer_epoll.more_update (\<lambda>_. (timer_epoll.more w)\<lparr>co_next_awaiter := ?a + 1, co_awaiters := (co_awaiters (timer_epoll.more w))(?a \<mapsto> ?s\<lparr>aw_handle := Some h\<rparr>)\<rparr>) w"
  have 1: "coro_read (epoll_poll env) cusr fd buf cnt opt w = Inr (?a, ?w1)"
    using cep.coro_read_refused [where env = env, unfolded epoll_poll_loop, OF assms, of cusr buf cnt opt] by (simp add: upd_loop_def)
  have "co_await (epoll_poll env) ?a h ?w1 = Inr (False, ?w2)"
    using cep.read_await_suspends [where env = env, unfolded epoll_poll_loop, of ?w1 ?a ?s h]
    by (simp add: set_aw_def upd_loop_def)
  with 1 show ?thesis by blast
qed

text \<open>
  C37. A cancelled read is completed into freed memory. \<^verbatim>\<open>cancel_read\<close> wakes the reader with
  \<^verbatim>\<open>-ECANCELED\<close>, and the reader, when it runs on, destroys the awaitable. On \<^verbatim>\<open>io_uring\<close> the read is
  still under way: its completion calls the callback, which writes the result into the
  destroyed block. And as \<^verbatim>\<open>cancel_read\<close> has already set the flag of its guarded callback, that
  callback never clears the state: the descriptor stays \<^verbatim>\<open>CANCELLING\<close>, in which reads and
  cancels of it are answered with \<^verbatim>\<open>-EALREADY\<close>.
\<close>

theorem cancelled_read_use_after_free:
  fixes w :: "'y coro_loop_ext uring_process"
  assumes "coro_cancel_read (uring_poll env) cusr run fd w = Inr (ar, w1)" "read_state (uring_poll env) (fd_key fd) w1 \<noteq> FRS_NONE"
    "find_info (uring_poll env) (fd_key fd) w = Some i" "cs_infos (io_uring.more w) i = Some \<lparr>fi_state = FRS_PENDING, fi_awaiter = Some a\<rparr>"
    "co_awaiters (io_uring.more w) a = Some s" "aw_kind s = AW_Read" "aw_handle s = Some h" "suspended (io_uring.more w) h"
    "\<forall>w. cusr (C_Body h) w = aw_delete (uring_poll env) a w" "a < co_next_awaiter (io_uring.more w)"
    "u < length (co_closures (io_uring.more w))" "co_closures (io_uring.more w) ! u = CC_Read a (fd_key fd)"
  shows "co_resumed (io_uring.more w1) = co_resumed (io_uring.more w) @ [h] \<and> read_state (uring_poll env) (fd_key fd) w1 = FRS_CANCELLING \<and>
     run_cclosure (uring_poll env) cusr run app (length (co_closures (io_uring.more w))) (Arg_Res res) w1 = Inr w1 \<and>
     run_cclosure (uring_poll env) cusr run app u (Arg_Read n iov cnt x) w1 = Inl Use_After_Free"
proof -
  have q: "io_uring.more v' = io_uring.more v" if "pb_cancel_async_read (uring_poll env) run fd cb v = Inr (rc, v')"
    for cb rc and v v' :: "'y coro_loop_ext uring_process"
    using that iu_cancel_more(1) [of fd cb v] by (simp add: uring_poll_def)
  show ?thesis by (rule ciu.cancelled_read_dangles [where env = env, unfolded uring_poll_loop, OF q assms])
qed

text \<open>
  C38. The frame of a spawned task is never freed. At the end of the coroutine the callback of
  \<^verbatim>\<open>spawn\<close> clears the handle of the task, so that the sweep erases a node without a handle; but
  the coroutine is suspended at its final suspension and nothing else destroys it: the frame
  stays, the pool does not get its block back, and no task has the handle any more.
\<close>

theorem spawned_frame_never_freed:
  fixes w :: "'y coro_loop_ext epoll_process"
  assumes "spawn_inv (timer_epoll.more w)" "co_frames (timer_epoll.more w) h = Some f" "\<not> fr_done f" "fr_on_final f = Some n" "fr_continuation f = None"
    "final_suspend (epoll_poll env) cusr tid h w = Inr w1" "sweep_completed (epoll_poll env) w1 = Inr w2"
    "\<forall>m. (m, Some h) \<in> set (cs_spawned (timer_epoll.more w)) \<longrightarrow> m = n"
  shows "co_frames (timer_epoll.more w2) h = Some (f\<lparr>fr_done := True\<rparr>) \<and> cs_pool (timer_epoll.more w2) = cs_pool (timer_epoll.more w) \<and>
     co_deleted (timer_epoll.more w2) = co_deleted (timer_epoll.more w) \<and> Some h \<notin> snd ` set (cs_spawned (timer_epoll.more w2)) \<and>
     n \<notin> fst ` set (cs_spawned (timer_epoll.more w2))"
  by (rule cep.spawned_frame_stays [where env = env, unfolded epoll_poll_loop, OF assms])

subsection \<open>Concrete runs\<close>

text \<open>
  A service with three coroutines: 1 waits, 2 is a task of the coroutine 1, 3 is spawned with the
  node 0. Descriptor 7 is as \<open>t\<close> and \<open>i\<close> say, awaitable 0 belongs to coroutine 1.
\<close>

definition sample_frame :: "u64 \<Rightarrow> nat option \<Rightarrow> coro_frame" where
  "sample_frame p n = \<lparr>fr_continuation = None, fr_exception = False, fr_on_final = n, fr_value = 0, fr_done = False, fr_ptr = p, fr_size = 64\<rparr>"

definition sample_coro :: "nat opt_map \<Rightarrow> fd_info option \<Rightarrow> coro_loop" where
  "sample_coro t i =
     event_loop.extend (event_loop_new\<lparr>el_poll := True, el_state := ES_INIT\<rparr>)
       (coro_loop.fields [0 \<mapsto> (awaiter_new AW_Read)\<lparr>aw_handle := Some 1\<rparr>] 1
         [1 \<mapsto> sample_frame 65536 None, 2 \<mapsto> sample_frame 4160 None, 3 \<mapsto> sample_frame 4096 (Some 0)] 4 [CC_Read 0 7] [] [] [] []
         True sample_pool t [0 \<mapsto> the i] 1 [(0, Some 3)] 1 [] False (\<lambda>_. 0) 0)"

definition sample_table :: "nat opt_map" where
  "sample_table = snd (opt_map_insert CORO_MAX_FD (opt_map_empty CORO_MAX_FD) 7 (Some 0))"

lemmas sample_coro_defs = sample_coro_def sample_frame_def event_loop_new_def event_loop.defs coro_loop.defs

lemma sample_table: "opt_map_find CORO_MAX_FD sample_table 7 = Some 0"
  by (simp add: sample_table_def om_simps)

lemma sample_coro_ok:
  "spawn_inv (sample_coro t i)" "suspended (sample_coro t i) 1" "suspended (sample_coro t i) 2"
  "table_wf (sample_coro (opt_map_empty CORO_MAX_FD) i)"
  by (auto simp: sample_coro_defs spawn_inv_def spawn_ok_def suspended_def table_wf_def om_simps)


theorem one_read_per_descriptor_witness:
  "\<exists>ar w1 w2. coro_read (epoll_poll sample_epoll_env) (\<lambda>_. Inr) (mk_fd 8 TCP_FD) None 0 None
       (sample_process (sample_coro (opt_map_empty CORO_MAX_FD) None)) = Inr (ar, w1) \<and>
     co_await (epoll_poll sample_epoll_env) ar 1 w1 = Inr (False, w2) \<and> read_state (epoll_poll sample_epoll_env) 8 w2 = FRS_PENDING"
proof -
  let ?w = "sample_process (sample_coro (opt_map_empty CORO_MAX_FD) None)" and ?pb = "epoll_poll sample_epoll_env"
  obtain h where h: "\<forall>c l. epoll_submit_async_read (mk_fd 8 TCP_FD) None 0 (Some c) None (sample_process l) = Inr (0, h c l)"
    "\<forall>c l. timer_epoll.more (h c l :: unit coro_loop_ext epoll_process) = l"
    by (rule sample_submit)
  have sub: "pb_submit_async_read ?pb = epoll_submit_async_read" by (simp add: epoll_poll_def)
  have key: "fd_key (mk_fd 8 TCP_FD) = 8" by (simp add: fd_key_def mk_fd_def)
  have none: "read_state ?pb 8 ?w = FRS_NONE" by (simp add: read_state_def find_info_def sample_coro_defs om_simps)
  have ok: "table_wf (pb_loop ?pb ?w)" "read_state ?pb (fd_key (mk_fd 8 TCP_FD)) ?w = FRS_NONE" "el_poll (pb_loop ?pb ?w)"
    using sample_coro_ok(4) none key by (simp_all add: sample_coro_defs)
  obtain w1 where w1: "coro_read ?pb (\<lambda>_. Inr) (mk_fd 8 TCP_FD) None 0 None ?w = Inr (co_next_awaiter (pb_loop ?pb ?w), w1)" "read_state ?pb 8 w1 = FRS_PENDING"
    using cep.coro_read_accepted [OF ok refl, of None 0 None "\<lambda>_. Inr"] h(1) by (auto simp: sub key)
  from one_read_per_descriptor [where env = sample_epoll_env and w = ?w and fd = "mk_fd 8 TCP_FD" and h = 1, OF w1(1)] w1 none sample_coro_ok(2) [of "opt_map_empty CORO_MAX_FD" None] sample_coro_ok(4) [of None] show ?thesis
    by (fastforce simp: key)
qed

theorem awaited_task_returns_value_witness:
  "\<exists>next w1 w3. task_await_suspend (uring_poll sample_uring_env) (Some 2) 1 (sample_uring_process (sample_coro (opt_map_empty CORO_MAX_FD) None)) = Inr (next, w1) \<and>
     bindE (return_value (uring_poll sample_uring_env) 2 7 w1) (final_suspend (uring_poll sample_uring_env) (\<lambda>_. Inr) 1 2) = Inr w3 \<and>
     task_await_resume (uring_poll sample_uring_env) (Some 2) w3 = Inr (Inr 7)"
proof -
  let ?w = "sample_uring_process (sample_coro (opt_map_empty CORO_MAX_FD) None)" and ?pb = "uring_poll sample_uring_env"
  let ?l = "(sample_coro (opt_map_empty CORO_MAX_FD) None)\<lparr>co_frames := (co_frames (sample_coro (opt_map_empty CORO_MAX_FD) None))(2 \<mapsto> (sample_frame 4160 None)\<lparr>fr_continuation := Some 1\<rparr>)\<rparr>"
  have w1: "task_await_suspend ?pb (Some 2) 1 ?w = Inr (Some 2, sample_uring_process ?l)"
    by (simp add: task_await_suspend_def upd_frame_def get_frame_def upd_loop_def sample_coro_defs)
  have "co_frames (io_uring.more (sample_uring_process ?l)) 2 = Some ((sample_frame 4160 None)\<lparr>fr_continuation := Some 1\<rparr>)" by simp
  from awaited_task_returns_value [OF _ _ w1 this, of "sample_frame 4160 None" 7 "\<lambda>_. Inr" 1] w1 show ?thesis
    by (auto simp: sample_coro_defs suspended_def)
qed


theorem spawned_tasks_in_step_witness:
  "\<exists>w5. clear_spawned (uring_poll sample_uring_env) (sample_uring_process (sample_coro (opt_map_empty CORO_MAX_FD) None)) = Inr w5 \<and>
     spawned_count (uring_poll sample_uring_env) w5 = 0"
proof -
  let ?w = "sample_uring_process (sample_coro (opt_map_empty CORO_MAX_FD) None)" and ?pb = "uring_poll sample_uring_env"
  obtain w5 where w5: "clear_spawned ?pb ?w = Inr w5"
    by (simp add: clear_spawned_def task_destroy_def get_frame_def frame_free_def free_frame_def pool_owns_def pool_free_def set_next_free_def
       upd_loop_def sample_coro_defs sample_pool_def Let_def DEFAULT_FRAME_POOL_CAPACITY_def)
  have "cusr_keeps ?pb (\<lambda>_. Inr)" by (simp add: cusr_keeps_def)
  from spawned_tasks_in_step [OF this, of ?w] w5 sample_coro_ok(1) [of "opt_map_empty CORO_MAX_FD" None] show ?thesis by auto
qed

text \<open>The descriptor 7 while it is read by coroutine 1 with awaitable 0.\<close>

abbreviation sample_reading :: coro_loop where
  "sample_reading \<equiv> sample_coro sample_table (Some \<lparr>fi_state = FRS_PENDING, fi_awaiter = Some 0\<rparr>)"

theorem refused_read_hangs_witness:
  "\<exists>w1 w2 k. coro_read (epoll_poll sample_epoll_env) (\<lambda>_. Inr) (mk_fd 7 TCP_FD) None 0 None (sample_process sample_reading) = Inr (k, w1) \<and>
     co_await (epoll_poll sample_epoll_env) k 2 w1 = Inr (False, w2)"
  using refused_read_hangs [where env = sample_epoll_env and w = "sample_process sample_reading" and fd = "mk_fd 7 TCP_FD" and i = 0]
  by (fastforce simp: find_info_def fd_key_def mk_fd_def sample_coro_defs sample_table)

definition sample_cancel_process :: "'x event_loop_scheme \<Rightarrow> 'x uring_process" where
  "sample_cancel_process l = io_uring.extend sample_info_uring l"

lemma sample_cancel_process:
  "io_uring.more (sample_cancel_process l) = l" "io_uring.more_update (\<lambda>_. l') (sample_cancel_process l) = sample_cancel_process l'"
  "\<exists>w'. iu_cancel_async_read (mk_fd 7 TCP_FD) cb (sample_cancel_process l) = Inr (0, w') \<and> io_uring.more w' = l"
proof -
  show 1: "io_uring.more (sample_cancel_process l) = l" "io_uring.more_update (\<lambda>_. l') (sample_cancel_process l) = sample_cancel_process l'"
    by (simp_all add: sample_cancel_process_def io_uring.defs)
  have "iu_wf (sample_cancel_process l)" "iu_ring (sample_cancel_process l) = Some idle_wrapper"
    "opt_map_find IU_MAX_FD (iu_table (sample_cancel_process l)) (fd_key (mk_fd 7 TCP_FD)) = Some 1"
    using sample_info_uring by (simp_all add: sample_cancel_process_def io_uring.defs iu_wf_def)
  from uring_cancel_read_ok [OF this(1,2) idle_wrapper_ring(1) _ this(3), of cb] iu_cancel_more(1) [of "mk_fd 7 TCP_FD" cb "sample_cancel_process l"] 1(1)
  show "\<exists>w'. iu_cancel_async_read (mk_fd 7 TCP_FD) cb (sample_cancel_process l) = Inr (0, w') \<and> io_uring.more w' = l"
    by (auto simp: mk_fd_def)
qed

theorem cancelled_read_use_after_free_witness:
  "\<exists>ar w1. coro_cancel_read (uring_poll sample_uring_env) (\<lambda>_. aw_delete (uring_poll sample_uring_env) 0) (\<lambda>_ _. Inr) (mk_fd 7 TCP_FD)
       (sample_cancel_process sample_reading) = Inr (ar, w1) \<and>
     run_cclosure (uring_poll sample_uring_env) (\<lambda>_. aw_delete (uring_poll sample_uring_env) 0) (\<lambda>_ _. Inr) (\<lambda>_. Inr) 0 (Arg_Read 5 None 0 False) w1
       = Inl Use_After_Free"
proof -
  let ?pb = "uring_poll sample_uring_env" and ?w = "sample_cancel_process sample_reading" and ?s = "(awaiter_new AW_Read)\<lparr>aw_handle := Some 1\<rparr>"
  have key: "fd_key (mk_fd 7 TCP_FD) = 7" by (simp add: fd_key_def mk_fd_def)
  have s: "find_info ?pb (fd_key (mk_fd 7 TCP_FD)) ?w = Some 0" "cs_infos (io_uring.more ?w) 0 = Some \<lparr>fi_state = FRS_PENDING, fi_awaiter = Some 0\<rparr>"
    "co_awaiters (io_uring.more ?w) 0 = Some ?s" "aw_kind ?s = AW_Read" "aw_handle ?s = Some 1" "suspended (io_uring.more ?w) 1"
    "\<forall>w. (\<lambda>_. aw_delete ?pb 0) (C_Body 1) w = aw_delete ?pb 0 w" "0 < co_next_awaiter (io_uring.more ?w)"
    unfolding key by (simp_all add: sample_cancel_process(1) sample_coro_ok(2) find_info_def, simp_all add: sample_coro_defs sample_table suspended_def)
  have c: "\<forall>l. \<exists>w'. pb_cancel_async_read ?pb (\<lambda>_ _. Inr) (mk_fd 7 TCP_FD) (Some 0) (pb_set_loop ?pb l ?w) = Inr (0, w') \<and> pb_loop ?pb w' = l"
    by (simp add: uring_poll_def sample_cancel_process(2,3))
  obtain ar w1 where w1: "coro_cancel_read ?pb (\<lambda>_. aw_delete ?pb 0) (\<lambda>_ _. Inr) (mk_fd 7 TCP_FD) ?w = Inr (ar, w1)"
    "read_state ?pb (fd_key (mk_fd 7 TCP_FD)) w1 = FRS_CANCELLING"
    using ciu.cancel_read_accepted [where env = sample_uring_env, unfolded uring_poll_loop, OF s _ _ c [unfolded uring_poll_loop]]
    by (auto simp: sample_cancel_process(1) sample_coro_defs)
  from cancelled_read_use_after_free [OF w1(1) _ s, of 0] w1 show ?thesis
    by (fastforce simp: sample_cancel_process(1) sample_coro_defs key)
qed

theorem spawned_frame_never_freed_witness:
  "\<exists>w1 w2. final_suspend (epoll_poll sample_epoll_env) (\<lambda>_. Inr) 0 3 (sample_process sample_reading) = Inr w1 \<and>
     sweep_completed (epoll_poll sample_epoll_env) w1 = Inr w2 \<and> co_frames (timer_epoll.more w2) 3 \<noteq> None"
proof -
  let ?w = "sample_process sample_reading" and ?pb = "epoll_poll sample_epoll_env"
  obtain w1 where w1: "final_suspend ?pb (\<lambda>_. Inr) 0 3 ?w = Inr w1"
    by (simp add: final_suspend_def upd_frame_def get_frame_def spawn_final_def co_new_job_def service_run_job_def run_in_event_loop_def
        upd_loop_def sample_coro_defs Let_def)
  have "spawn_inv (pb_loop ?pb w1)"
    by (rule cep.final_suspend_keeps [where env = sample_epoll_env and f = "sample_frame 4096 (Some 0)", OF _ w1])
      (simp_all add: cusr_keeps_def sample_coro_ok(1), simp_all add: sample_coro_defs)
  then obtain w2 where w2: "sweep_completed ?pb w1 = Inr w2" using cep.sweep_completed_ok [where env = sample_epoll_env and w = w1] by auto
  have "co_frames (timer_epoll.more ?w) 3 = Some (sample_frame 4096 (Some 0))" "cs_spawned (timer_epoll.more ?w) = [(0, Some 3)]"
    by (simp_all add: sample_coro_defs)
  with spawned_frame_never_freed [OF _ this(1) _ _ _ w1 w2, of 0] w1 w2 sample_coro_ok(1) show ?thesis by (simp add: sample_frame_def)
qed

end
