(* ===== verification/Event_Thread.thy ===== *)
theory Event_Thread
  imports Event_Service "HOL-Library.List_Lexorder" "HOL-Library.Char_ord"
begin

text \<open>
  source/thread/event_thread.cpp and event_thread_pool.cpp with their headers: a thread that
  runs the loop of an event service of its own, and a pool of named threads. A thread is
  running from \<^verbatim>\<open>start\<close> until \<^verbatim>\<open>thread_func\<close> has returned, and can be joined from then on; the
  state of its service is that of the thread. What another thread does to the loop while it
  runs are the jobs that arrive (\<open>rounds\<close> of \<open>start_loop\<close>).
\<close>

datatype thread_run = Th_Running | Th_Done

record 'w event_thread =
  et_name :: string
  et_param :: poll_param
  et_service :: 'w
  et_thread :: "thread_run option"

subsection \<open>A thread\<close>

definition event_thread_new ::
  "('x, 'w) poll \<Rightarrow> 'w runner \<Rightarrow> poll_kind option \<Rightarrow> int \<Rightarrow> string \<Rightarrow> poll_param \<Rightarrow> 'w \<Rightarrow> 'w event_thread result" where
  "event_thread_new pb run obj eventfd evt_loop_name param w =
     bindE (service_open pb run obj eventfd param w) (\<lambda>(ret, w).
     bindE (assertE (ret = 0)) (\<lambda>_.
     Inr \<lparr>et_name = evt_loop_name, et_param = param, et_service = w, et_thread = None\<rparr>))"

text \<open>A \<^verbatim>\<open>std::thread\<close> that is destroyed before it was joined ends the process.\<close>

definition event_thread_start :: "'w event_thread \<Rightarrow> 'w event_thread result" where
  "event_thread_start t =
     (case et_thread t of None \<Rightarrow> Inr (t\<lparr>et_thread := Some Th_Running\<rparr>) | Some _ \<Rightarrow> Inl Std_Terminate)"

definition thread_func ::
  "('x, 'w) poll \<Rightarrow> 'w lusr \<Rightarrow> 'w runner \<Rightarrow> nat \<Rightarrow> job list list \<Rightarrow> 'w event_thread \<Rightarrow> 'w event_thread result" where
  "thread_func pb usr run tid rounds t =
     bindE (service_start_loop pb usr run tid rounds (et_service t)) (\<lambda>w.
     Inr (t\<lparr>et_service := w, et_thread := Some Th_Done\<rparr>))"

text \<open>
  Waiting for a thread lets it run to its end: \<open>body\<close> is what it still does, \<open>thread_func\<close> when it
  has just been started. A thread that does not end is \<open>Blocked\<close>.
\<close>

definition thread_join :: "('w event_thread \<Rightarrow> 'w event_thread result) \<Rightarrow> 'w event_thread \<Rightarrow> 'w event_thread result" where
  "thread_join body t = (if et_thread t = Some Th_Running then body t else Inr t)"

definition event_thread_join :: "('w event_thread \<Rightarrow> 'w event_thread result) \<Rightarrow> 'w event_thread \<Rightarrow> 'w event_thread result" where
  "event_thread_join body t =
     (if et_thread t \<noteq> None then bindE (thread_join body t) (\<lambda>t. Inr (t\<lparr>et_thread := None\<rparr>)) else Inr t)"

definition event_thread_delete ::
  "('x, 'w) poll \<Rightarrow> nat \<Rightarrow> ('w event_thread \<Rightarrow> 'w event_thread result) \<Rightarrow> 'w event_thread \<Rightarrow> 'w event_thread result" where
  "event_thread_delete pb tid body t =
     bindE (service_close pb tid (et_service t)) (\<lambda>(_, w).
     let t = t\<lparr>et_service := w\<rparr> in if et_thread t \<noteq> None then thread_join body t else Inr t)"

subsection \<open>The pool\<close>

text \<open>\<^verbatim>\<open>std::map\<close> is a list in the order of the names.\<close>

type_synonym 'w thread_pool = "(string \<times> 'w event_thread) list"

definition get_evt_service :: "string \<Rightarrow> 'w thread_pool \<Rightarrow> 'w option" where
  "get_evt_service name ts = (case map_of ts name of None \<Rightarrow> None | Some t \<Rightarrow> Some (et_service t))"

definition add_thread :: "(string \<Rightarrow> poll_param \<Rightarrow> 'w event_thread result) \<Rightarrow> string \<Rightarrow> poll_param \<Rightarrow> 'w thread_pool \<Rightarrow> (bool \<times> 'w thread_pool) result" where
  "add_thread mk name param ts =
     (if map_of ts name \<noteq> None then Inr (False, ts)
      else bindE (mk name param) (\<lambda>t. Inr (True, insort_key fst (name, t) ts)))"

text \<open>The range-based loops over the map, for a member function of the thread.\<close>

fun for_threads :: "('w event_thread \<Rightarrow> 'w event_thread result) \<Rightarrow> 'w thread_pool \<Rightarrow> 'w thread_pool result" where
  "for_threads f [] = Inr []"
| "for_threads f ((n, t) # ts) = bindE (f t) (\<lambda>t. bindE (for_threads f ts) (\<lambda>ts. Inr ((n, t) # ts)))"

definition thread_pool_start :: "'w thread_pool \<Rightarrow> 'w thread_pool result" where
  "thread_pool_start = for_threads event_thread_start"

definition thread_pool_join :: "('w event_thread \<Rightarrow> 'w event_thread result) \<Rightarrow> 'w thread_pool \<Rightarrow> 'w thread_pool result" where
  "thread_pool_join body = for_threads (event_thread_join body)"

definition thread_pool_delete ::
  "('x, 'w) poll \<Rightarrow> nat \<Rightarrow> ('w event_thread \<Rightarrow> 'w event_thread result) \<Rightarrow> 'w thread_pool \<Rightarrow> 'w thread_pool result" where
  "thread_pool_delete pb tid body = for_threads (event_thread_delete pb tid body)"

subsection \<open>Lemmas\<close>

definition pool_ok :: "'w thread_pool \<Rightarrow> bool" where
  "pool_ok ts \<longleftrightarrow> sorted (map fst ts) \<and> distinct (map fst ts) \<and> (\<forall>(n, t) \<in> set ts. et_name t = n)"

lemma map_of_insort:
  "m \<notin> fst ` set ts \<Longrightarrow> map_of (insort_key fst (m, t) ts) = (map_of ts)(m \<mapsto> t)"
  by (induction ts) (auto simp: fun_eq_iff)

lemma add_thread_keeps:
  assumes "add_thread mk name param ts = Inr (ok, ts')" "pool_ok ts" "\<And>t. mk name param = Inr t \<Longrightarrow> et_name t = name"
  shows "pool_ok ts' \<and> (ok \<longleftrightarrow> map_of ts name = None) \<and>
     (if ok then (\<exists>t. mk name param = Inr t \<and> map_of ts' = (map_of ts)(name \<mapsto> t)) else ts' = ts)"
proof (cases "map_of ts name")
  case None
  then obtain t where t: "mk name param = Inr t" "ok" "ts' = insort_key fst (name, t) ts"
    using assms(1) by (auto simp: add_thread_def elim!: bindE_InrE)
  have "name \<notin> fst ` set ts" using None by (simp add: map_of_eq_None_iff)
  then show ?thesis using t None assms(2) assms(3) [OF t(1)]
    by (auto simp: pool_ok_def map_of_insort set_insort_key sorted_insort_key distinct_insort_key)
next
  case (Some t)
  then show ?thesis using assms(1,2) by (auto simp: add_thread_def)
qed

lemma for_threads_all:
  assumes "\<And>n t. (n, t) \<in> set ts \<Longrightarrow> \<exists>t'. f t = Inr t' \<and> P t t'"
  shows "\<exists>ts'. for_threads f ts = Inr ts' \<and> list_all2 (\<lambda>(n, t) (m, t'). m = n \<and> P t t') ts ts'"
  using assms
proof (induction ts)
  case (Cons x ts)
  obtain n t where x: "x = (n, t)" by (cases x)
  obtain t' where "f t = Inr t'" "P t t'" using Cons.prems [of n t] x by auto
  moreover obtain ts' where "for_threads f ts = Inr ts'" "list_all2 (\<lambda>(n, t) (m, t'). m = n \<and> P t t') ts ts'" using Cons by auto
  ultimately show ?case using x by auto
qed simp

lemma thread_pool_start_ok:
  assumes "thread_pool_start ts = Inr ts'"
  shows "ts' = map (\<lambda>(n, t). (n, t\<lparr>et_thread := Some Th_Running\<rparr>)) ts"
  using assms unfolding thread_pool_start_def
  by (induction ts arbitrary: ts') (auto simp: event_thread_start_def elim!: bindE_InrE split: option.splits)

end
