(* ===== verification/Thread_Properties.thy ===== *)
theory Thread_Properties
  imports Event_Thread Loop_Properties
begin

text \<open>Properties of event threads and of the pool, with threads on the completion backend.\<close>


text \<open>
  The pool is a map from names to threads in the order of the names: \<^verbatim>\<open>add_thread\<close> refuses a
  name that is taken and changes nothing, and otherwise adds exactly the new thread;
  \<^verbatim>\<open>get_evt_service\<close> then finds its service and the services of the others as before.
\<close>

theorem thread_pool_is_map:
  fixes w :: "'x uring_process"
  assumes "add_thread (\<lambda>name param. event_thread_new (uring_poll env) run obj eventfd name param w) name param ts = Inr (ok, ts')" "pool_ok ts"
  shows "pool_ok ts' \<and> (ok \<longleftrightarrow> get_evt_service name ts = None) \<and>
     (if ok
      then \<exists>v. service_open (uring_poll env) run obj eventfd param w = Inr (0, v) \<and>
             (\<lambda>n. get_evt_service n ts') = (\<lambda>n. get_evt_service n ts)(name \<mapsto> v)
      else ts' = ts)"
proof -
  let ?mk = "\<lambda>name param. event_thread_new (uring_poll env) run obj eventfd name param w"
  have name: "et_name t = name" if "?mk name param = Inr t" for t
    using that by (auto simp: event_thread_new_def elim!: bindE_InrE)
  note add = add_thread_keeps [OF assms name]
  show ?thesis
  proof (cases ok)
    case True
    then obtain t where t: "?mk name param = Inr t" "map_of ts' = (map_of ts)(name \<mapsto> t)" using add by auto
    then have "service_open (uring_poll env) run obj eventfd param w = Inr (0, et_service t)"
      by (auto simp: event_thread_new_def assertE_def elim!: bindE_InrE split: if_splits)
    then show ?thesis using add True t by (auto simp: get_evt_service_def fun_eq_iff)
  next
    case False
    then show ?thesis using add by (auto simp: get_evt_service_def split: option.splits)
  qed
qed

text \<open>
  Starting a pool twice ends the process: the second \<^verbatim>\<open>start\<close> replaces a \<^verbatim>\<open>std::thread\<close> that
  was not joined, and its destructor calls \<^verbatim>\<open>std::terminate\<close>, even when the thread has ended.
\<close>

theorem pool_started_twice_terminates:
  assumes "thread_pool_start ts = Inr ts'" "ts \<noteq> []"
  shows "thread_pool_start ts' = Inl Std_Terminate"
  using thread_pool_start_ok [OF assms(1)] assms(2) by (cases ts) (auto simp: thread_pool_start_def event_thread_start_def)

subsection \<open>Concrete runs\<close>

definition sample_thread :: "thread_run option \<Rightarrow> unit uring_process event_thread" where
  "sample_thread r = \<lparr>et_name = ''a'', et_param = poll_param_default, et_service = sample_uring_process event_loop_new, et_thread = r\<rparr>"


theorem thread_pool_is_map_witness:
  "add_thread (\<lambda>name param. event_thread_new (uring_poll sample_uring_env) (\<lambda>_ _. Inr) (Some Poll_Io_Uring) 5 name param (sample_uring_process event_loop_new))
     ''a'' poll_param_default [(''a'', sample_thread None)] = Inr (False, [(''a'', sample_thread None)]) \<and>
   get_evt_service ''a'' [(''a'', sample_thread None)] \<noteq> None"
proof -
  have "add_thread (\<lambda>name param. event_thread_new (uring_poll sample_uring_env) (\<lambda>_ _. Inr) (Some Poll_Io_Uring) 5 name param (sample_uring_process event_loop_new))
     ''a'' poll_param_default [(''a'', sample_thread None)] = Inr (False, [(''a'', sample_thread None)])" by (simp add: add_thread_def)
  with thread_pool_is_map [OF this] show ?thesis by (simp add: pool_ok_def sample_thread_def)
qed

theorem pool_started_twice_terminates_witness:
  "\<exists>ts'. thread_pool_start [(''a'', sample_thread None)] = Inr ts' \<and> thread_pool_start ts' = Inl Std_Terminate"
proof -
  obtain ts' where "thread_pool_start [(''a'', sample_thread None)] = Inr ts'"
    by (simp add: thread_pool_start_def event_thread_start_def sample_thread_def)
  with pool_started_twice_terminates [OF this] show ?thesis by simp
qed

end
