(* ===== verification/Spec2Isabelle.thy ===== *)
theory Spec2Isabelle
  imports Util Opt_Map Ring_Buffer Ring_Concurrent Uring_Submission Ownership Fd_Io Event_Action_Proofs Epoll_Proofs Io_Uring_Proofs Timer Loop_Properties Socket_Properties Coroutine_Properties Thread_Properties
begin

text \<open>
  A verification of libezio, an event-loop library for Linux: asynchronous reads, writes,
  accepts and timers over one of two backends, an event loop with event objects and jobs, and
  TCP and UDP sockets and coroutines on top. File names below are relative to src/.

  \<^bold>\<open>How the parts interact.\<close> An application talks to \<^verbatim>\<open>event_service\<close>, which forwards requests
  to the backend behind \<^verbatim>\<open>poll_base\<close> and to \<^verbatim>\<open>event_loop\<close>. The readiness backend (\<^verbatim>\<open>epoll\<close>)
  keeps an \<^verbatim>\<open>event_action\<close> for each descriptor, found through \<^verbatim>\<open>opt_map\<close>, and performs the
  system calls of \<^verbatim>\<open>fd_io_operation\<close> when the descriptor is ready; data of multishot reads goes
  through a \<^verbatim>\<open>ring_buffer\<close>. The completion backend (\<^verbatim>\<open>io_uring\<close>) keeps a \<^verbatim>\<open>complete_action\<close>
  for each request and exchanges entries with the kernel through the rings of
  \<^verbatim>\<open>io_uring_wrapper\<close>. The loop executes the instructions that register and remove event
  objects, runs jobs and calls \<^verbatim>\<open>dispatch\<close>, which runs the callbacks; the objects
  (\<^verbatim>\<open>notifier\<close>, \<^verbatim>\<open>signal_event\<close>, \<^verbatim>\<open>inotify\<close>, \<^verbatim>\<open>tcp_event\<close>, \<^verbatim>\<open>tcp_socket\<close>, \<^verbatim>\<open>udp_socket\<close>) submit
  the next requests in their callbacks. \<^verbatim>\<open>coroutine_service\<close> wraps the requests of the service in
  awaitables and takes the frames of coroutines from a pool.

  \<^bold>\<open>Theories and sources.\<close>

  \<^item> \<open>Prelude\<close>: results and faults, machine integers, lemmas on lists and words. \<open>Type_Def\<close>:
    include/type_def.h, include/common/internal_type_def.h. \<open>Util\<close>: source/util/util.cpp.

  \<^item> \<open>Opt_Map\<close>: include/data_struct/opt_map.h, against a partial map (locale \<open>fd_table\<close>'s
    contract). \<open>Ring_Buffer\<close>: source/data_struct/ring_buffer.cpp, with 64-bit indices and an
    interleaving of writer and reader.

  \<^item> \<open>Memory_Order\<close>: include/util/barrier.h, on a machine with release and acquire accesses:
    every location has the history of its stores, a thread has a view of the histories, a load
    may return any store its view allows, and an access of plain memory that is not ordered
    after the other thread's is the fault \<open>Data_Race\<close>. The invariant of a queue with one
    producer and one consumer is proved there once, with the locale \<open>spsc_user\<close> for its
    users: \<open>Ring_Concurrent\<close> (the ring buffer between two threads), \<open>Uring_Concurrent\<close> (the
    completion queue between the kernel and the loop) and \<open>Uring_Submission\<close> (the submission
    queue between the loop and a polling kernel).

  \<^item> \<open>Ownership\<close>: who releases what. The moves, assignments and destructors of the awaitables,
    tasks and generators (include/coroutine/awaitable.h), the message headers
    (source/event/complete_action.cpp) and the life of a ring buffer, on a heap that knows how
    each block was allocated.

  \<^item> \<open>Fd_Io\<close>: include/event/fd_io_operation.h. \<open>Event_Action\<close>, \<open>Event_Action_Proofs\<close>:
    source/event/event_action.cpp. \<open>Epoll\<close>, \<open>Epoll_Proofs\<close>: source/event/epoll.cpp.
    \<open>Timer\<close>: source/event/timer.cpp on that backend. \<open>Callback_Frame\<close>: what callbacks may
    change of the process around the backend.

  \<^item> \<open>Uring_Wrapper\<close>: source/event/io_uring_wrapper.cpp. \<open>Io_Uring\<close>, \<open>Io_Uring_Proofs\<close>:
    source/event/io_uring.cpp and source/event/complete_action.cpp.

  \<^item> \<open>Poll_Base\<close>: include/event/poll_base.h as a record of operations, its contract as the
    locale \<open>poll_contract\<close>. \<open>Backends\<close> interprets it on both backends.

  \<^item> \<open>Event_Loop\<close>: source/event/event_base.cpp, source/event/event_loop.cpp. \<open>Event_Service\<close>:
    source/event/notifier.cpp, signal_event.cpp, inotify.cpp and event_service.cpp.
    \<open>Loop_Proofs\<close>, \<open>Loop_Frame\<close>: lemmas in the locale \<open>loop_backend\<close>, which extends
    \<open>poll_contract\<close>. \<open>Loop_Properties\<close>: its interpretations and the properties of the loop.

  \<^item> \<open>Socket_State\<close>, \<open>Tcp_Socket\<close>, \<open>Sockets\<close>: source/socket/tcp_socket.cpp and udp_socket.cpp.
    \<open>Socket_Proofs\<close>: lemmas in the locale \<open>socket_backend\<close>. \<open>Socket_Properties\<close>: its
    interpretations on both backends and the properties of sockets.

  \<^item> \<open>Frame_Pool\<close>, \<open>Awaitable\<close>, \<open>Coroutine_Service\<close>: include/coroutine/coroutine_service.h,
    include/coroutine/awaitable.h and source/coroutine/coroutine_service.cpp. \<open>Coroutine_Proofs\<close>,
    \<open>Spawn_Proofs\<close>: lemmas in the locale \<open>coro_backend\<close>. \<open>Coroutine_Properties\<close>: its
    interpretations on both backends and the properties of coroutines.

  \<^item> \<open>Event_Thread\<close>, \<open>Thread_Properties\<close>: source/thread/event_thread.cpp and
    event_thread_pool.cpp.

  \<^bold>\<open>State.\<close> Every operation is a function on a state record and returns an error value or the
  new state: \<open>Inl\<close> with a fault where the program has undefined behaviour, throws or leaves
  through \<^verbatim>\<open>STABLE_INFRA_ASSERT\<close>. Objects have addresses in maps of the state, so a use after
  deletion is a fault. A backend's state is extended by the state of what uses it: the epoll
  record by the timers, both backends by the loop object, the loop object by the sockets
  or by the coroutine service.
  Callbacks are numbers; what a user function does is a parameter, a function on the whole
  state, and the properties state what they ask of it (for example \<open>polite\<close>, \<open>usr_safe\<close>,
  \<open>tusr_idle\<close>). The virtual functions of derived event classes are calls of the user of the
  loop, resolved by \<open>sock_usr\<close>. A coroutine is the address of its frame; what it does from one
  suspension to the next is a function of the user, and \<open>co_resumed\<close> logs who is resumed. Indices, counters and sizes that can wrap are words of their
  width.

  \<^bold>\<open>The kernel.\<close> System calls answer from lists in the state or from parameters, so a theorem
  that does not restrict them holds for every behaviour of the kernel. When the list is used
  up the result is \<open>Blocked\<close>; the properties that promise a result show that it is not.
  Jobs of other threads arrive in lists, one list for each round of the loop, while
  \<^verbatim>\<open>dispatch\<close> runs: a job pushed at another time of the round is processed as if it had arrived
  in the next dispatch.

  \<^bold>\<open>Loops and fuel.\<close> The loops over queues recurse on the number of entries at the start of the
  loop, as the code does, or on the list of answers; \<open>loop_while\<close> recurses on the list of
  rounds. No other fuel is used; \<open>file_loops_return\<close> and \<open>closed_loop_returns\<close> show that
  enough answers and one round are enough.

  \<^bold>\<open>What is shown.\<close> Of the data structures: refinement of a map, safety of the ring and of
  both queues of io_uring under every interleaving with the memory orders of the code, release of
  every owned block exactly once. Of the backends: order and completeness of reads and writes, agreement of the
  registrations with the kernel, the submission queue as a bounded queue at every value of
  the indices, delivery of completions in order. Of the loop: each job runs once and in order,
  registered objects stay alive for a whole run, a closed loop returns, timers fire and are
  armed again. Of the sockets: the limit of a listener over a whole run of the loop, one
  report of each accepted connection, exact delivery of data, one release on close,
  reconnecting at the tenth tick, addresses. Of the coroutines: an awaited request resumes its
  coroutine exactly once with the result, one read per descriptor, values of awaited tasks,
  frames that never overlap, spawned tasks that are swept exactly once. Of the threads: a pool is a map from names, and
  destroying it returns. The properties of kind error show inputs on
  which the program faults.

  \<^bold>\<open>Not modelled.\<close> The C branch of include/util/barrier.h, which the C++ sources do not compile.
  Test programs and build files; macros, which are written out where they are used; member
  functions that only return a field; declarations, deleted functions and empty constructors
  of the headers. \<^verbatim>\<open>sock_info\<close> and \<^verbatim>\<open>socket_more_info\<close> only carry an address and are
  represented where they are used. Outside \<open>Memory_Order\<close>, \<open>Ring_Concurrent\<close>,
  \<open>Uring_Concurrent\<close> and \<open>Uring_Submission\<close> an access of a shared index is one atomic step. The memory orders are
  those of two threads sharing one queue; sequential consistency enters only as a fence.
\<close>

end
